(* ===== verification/Prelude.thy ===== *)
theory Prelude
  imports Main "HOL-Library.Word" "HOL-Library.Product_Lexorder" "HOL-Library.Sublist"
    "HOL-Library.Char_ord" "HOL-Library.List_Lexorder"
begin

text \<open>
  Shared vocabulary of the drsync development.

  \<^item> The types of the model: Go strings and byte slices, table keys, results of fallible calls.
  \<^item> SQL tables as lists of rows in rowid order, with the three statement shapes the
    coordinator uses (\<open>UPDATE .. WHERE\<close>, \<open>DELETE .. WHERE\<close>, \<open>SELECT COUNT(*)\<close>) as the
    functions \<open>update_where\<close>, \<open>delete_where\<close>, \<open>count_where\<close>, and their algebra.
  \<^item> The collections \<open>table_simps\<close> (how a statement changes membership, keys and counts) and
    \<open>wf_intros\<close> (rules that keep well-formedness), which the component theories extend.
  \<^item> Two contracts shared by several components, as locales: prefix codecs
    (\<open>prefix_codec\<close>, used by wire frames and journal envelopes) and transition systems with an
    invariant (\<open>invariant_system\<close>, used by the store and the pass controller).
\<close>

section \<open>Types\<close>

type_synonym byte = "8 word"
type_synonym bytes = "byte list"
type_synonym path = string

named_theorems table_simps
named_theorems wf_intros

section \<open>Tables as lists of rows\<close>

definition update_where :: "('r \<Rightarrow> bool) \<Rightarrow> ('r \<Rightarrow> 'r) \<Rightarrow> 'r list \<Rightarrow> 'r list" where
  "update_where P f rs = map (\<lambda>r. if P r then f r else r) rs"

definition delete_where :: "('r \<Rightarrow> bool) \<Rightarrow> 'r list \<Rightarrow> 'r list" where
  "delete_where P rs = filter (\<lambda>r. \<not> P r) rs"

definition count_where :: "('r \<Rightarrow> bool) \<Rightarrow> 'r list \<Rightarrow> nat" where
  "count_where P rs = length (filter P rs)"

lemma update_where_simps [simp]:
  "update_where P f [] = []"
  "update_where P f (r # rs) = (if P r then f r else r) # update_where P f rs"
  "update_where P f (rs @ ss) = update_where P f rs @ update_where P f ss"
  "length (update_where P f rs) = length rs"
  by (simp_all add: update_where_def)

lemma delete_where_simps [simp]:
  "delete_where P [] = []"
  "delete_where P (r # rs) = (if P r then delete_where P rs else r # delete_where P rs)"
  "delete_where P (rs @ ss) = delete_where P rs @ delete_where P ss"
  by (simp_all add: delete_where_def)

lemma count_where_simps [simp]:
  "count_where P [] = 0"
  "count_where P (r # rs) = (if P r then Suc (count_where P rs) else count_where P rs)"
  "count_where P (rs @ ss) = count_where P rs + count_where P ss"
  by (simp_all add: count_where_def)

lemma in_update_where_iff [table_simps]:
  "x \<in> set (update_where P f rs) \<longleftrightarrow> (\<exists>r \<in> set rs. x = (if P r then f r else r))"
  by (auto simp: update_where_def)

lemma in_delete_where_iff [table_simps, simp]:
  "x \<in> set (delete_where P rs) \<longleftrightarrow> x \<in> set rs \<and> \<not> P x"
  by (auto simp: delete_where_def)

lemma update_where_in: "r \<in> set rs \<Longrightarrow> (if P r then f r else r) \<in> set (update_where P f rs)"
  by (auto simp: update_where_def)

text \<open>An update that leaves a column alone leaves the list of its values alone.\<close>

lemma map_update_where:
  "(\<And>r. P r \<Longrightarrow> k (f r) = k r) \<Longrightarrow> map k (update_where P f rs) = map k rs"
  by (induction rs) auto

lemma map_update_where_on:
  "(\<And>r. r \<in> set rs \<Longrightarrow> P r \<Longrightarrow> k (f r) = k r) \<Longrightarrow> map k (update_where P f rs) = map k rs"
  by (induction rs) auto

lemma update_where_id: "(\<And>r. r \<in> set rs \<Longrightarrow> \<not> P r) \<Longrightarrow> update_where P f rs = rs"
  by (induction rs) auto

lemma update_where_cong:
  "(\<And>r. r \<in> set rs \<Longrightarrow> P r = Q r) \<Longrightarrow> (\<And>r. r \<in> set rs \<Longrightarrow> Q r \<Longrightarrow> f r = g r) \<Longrightarrow>
   update_where P f rs = update_where Q g rs"
  by (induction rs) auto

lemma delete_where_id: "(\<And>r. r \<in> set rs \<Longrightarrow> \<not> P r) \<Longrightarrow> delete_where P rs = rs"
  by (induction rs) auto

lemma distinct_map_delete_where: "distinct (map k rs) \<Longrightarrow> distinct (map k (delete_where P rs))"
  by (induction rs) auto

lemma count_where_zero_iff: "count_where P rs = 0 \<longleftrightarrow> (\<forall>r \<in> set rs. \<not> P r)"
  by (induction rs) auto

lemma count_where_pos_iff: "0 < count_where P rs \<longleftrightarrow> (\<exists>r \<in> set rs. P r)"
  by (induction rs) auto

lemma count_where_le: "count_where P rs \<le> length rs"
  by (simp add: count_where_def)

lemma count_where_mono:
  "(\<And>r. r \<in> set rs \<Longrightarrow> P r \<Longrightarrow> Q r) \<Longrightarrow> count_where P rs \<le> count_where Q rs"
  by (induction rs) (auto intro: le_SucI)

lemma count_where_cong:
  "(\<And>r. r \<in> set rs \<Longrightarrow> P r = Q r) \<Longrightarrow> count_where P rs = count_where Q rs"
  by (induction rs) auto

lemma count_where_update_where_same:
  "(\<And>r. r \<in> set rs \<Longrightarrow> P r \<Longrightarrow> Q (f r) = Q r) \<Longrightarrow>
   count_where Q (update_where P f rs) = count_where Q rs"
  by (induction rs) auto

lemma count_where_update_where_le:
  "(\<And>r. r \<in> set rs \<Longrightarrow> P r \<Longrightarrow> Q (f r) \<Longrightarrow> Q r) \<Longrightarrow>
   count_where Q (update_where P f rs) \<le> count_where Q rs"
  by (induction rs) (auto intro: le_SucI)

lemma count_where_disj_le:
  "count_where (\<lambda>r. P r \<or> Q r) rs \<le> count_where P rs + count_where Q rs"
  by (induction rs) auto

lemma count_where_delete_where_le: "count_where Q (delete_where P rs) \<le> count_where Q rs"
  by (induction rs) auto

lemma count_where_delete_where:
  "count_where Q (delete_where P rs) = count_where (\<lambda>r. Q r \<and> \<not> P r) rs"
  by (induction rs) auto

lemma count_where_split:
  "count_where Q rs = count_where (\<lambda>r. Q r \<and> P r) rs + count_where (\<lambda>r. Q r \<and> \<not> P r) rs"
  by (induction rs) auto

lemma filter_count_where: "length (filter P rs) = count_where P rs"
  by (simp add: count_where_def)

text \<open>A primary key: at most one row matches, and a lookup by key finds exactly it.\<close>

lemma count_where_key:
  "distinct (map k rs) \<Longrightarrow> count_where (\<lambda>r. k r = x \<and> Q r) rs \<le> 1"
proof (induction rs)
  case Nil
  then show ?case by simp
next
  case (Cons r rs)
  show ?case
  proof (cases "k r = x")
    case True
    with Cons.prems have "\<forall>r' \<in> set rs. \<not> (k r' = x \<and> Q r')" by (auto simp: rev_image_eqI)
    then have "count_where (\<lambda>r. k r = x \<and> Q r) rs = 0" by (simp add: count_where_zero_iff)
    then show ?thesis by simp
  next
    case False
    with Cons show ?thesis by simp
  qed
qed

lemma find_key_some:
  "distinct (map k rs) \<Longrightarrow> r \<in> set rs \<Longrightarrow> List.find (\<lambda>r'. k r' = k r) rs = Some r"
  by (induction rs) (auto simp: rev_image_eqI)

lemma find_SomeD: "List.find P rs = Some r \<Longrightarrow> r \<in> set rs \<and> P r"
  by (induction rs) (auto split: if_splits)

lemma find_NoneD: "List.find P rs = None \<Longrightarrow> r \<in> set rs \<Longrightarrow> \<not> P r"
  by (induction rs) (auto split: if_splits)

lemma find_None_iff_all: "List.find P rs = None \<longleftrightarrow> (\<forall>r \<in> set rs. \<not> P r)"
  by (induction rs) auto

lemma find_update_where:
  "(\<And>r. r \<in> set rs \<Longrightarrow> P r \<Longrightarrow> Q (f r) = Q r) \<Longrightarrow>
   List.find Q (update_where P f rs) = map_option (\<lambda>r. if P r then f r else r) (List.find Q rs)"
  by (induction rs) auto

lemma find_update_where_self:
  "(\<And>r. P r \<Longrightarrow> P (f r)) \<Longrightarrow> List.find P (update_where P f rs) = map_option f (List.find P rs)"
  by (induction rs) auto

lemma find_append:
  "List.find P (xs @ ys) = (case List.find P xs of None \<Rightarrow> List.find P ys | Some x \<Rightarrow> Some x)"
  by (induction xs) auto

lemma key_unique: "distinct (map k rs) \<Longrightarrow> r \<in> set rs \<Longrightarrow> s \<in> set rs \<Longrightarrow> k r = k s \<Longrightarrow> r = s"
  by (induction rs) (auto simp: image_iff)

section \<open>Selections: ORDER BY and LIMIT\<close>

lemma set_take_subset: "x \<in> set (take n xs) \<Longrightarrow> x \<in> set xs"
  by (rule in_set_takeD)

lemma distinct_map_take: "distinct (map k xs) \<Longrightarrow> distinct (map k (take n xs))"
  by (metis distinct_take take_map)

lemma distinct_map_sort_key: "distinct (map k (sort_key f xs)) = distinct (map k xs)"
  by (simp add: distinct_map)

lemma sorted_take_key: "sorted (map f xs) \<Longrightarrow> sorted (map f (take n xs))"
  by (metis sorted_wrt_take take_map)

text \<open>
  What a \<open>LIMIT n\<close> leaves out of an ordered selection never sorts before what it takes.
\<close>

lemma sorted_take_le_drop:
  "sorted (map f xs) \<Longrightarrow> x \<in> set (take n xs) \<Longrightarrow> y \<in> set (drop n xs) \<Longrightarrow> f x \<le> f y"
proof -
  assume s: "sorted (map f xs)" and x: "x \<in> set (take n xs)" and y: "y \<in> set (drop n xs)"
  have "sorted (map f (take n xs) @ map f (drop n xs))"
    using s by (metis append_take_drop_id map_append)
  then show ?thesis using x y by (auto simp: sorted_append)
qed

lemma subseq_set_subset: "subseq xs ys \<Longrightarrow> set xs \<subseteq> set ys"
  by (induction rule: list_emb.induct) auto

lemma subseq_distinct_map: "subseq xs ys \<Longrightarrow> distinct (map f ys) \<Longrightarrow> distinct (map f xs)"
  by (induction rule: list_emb.induct) (auto dest: subseq_set_subset)

section \<open>Prefix codecs\<close>

text \<open>
  A codec writes values to a byte stream so that a reader can take the first value back off
  the front and leave the rest. Frames on the agent connection, envelopes in a journal segment
  and records inside an envelope are all of this shape.
\<close>

locale prefix_codec =
  fixes enc :: "'a \<Rightarrow> 'b list"
    and dec :: "'b list \<Rightarrow> ('a \<times> 'b list) option"
    and ok :: "'a \<Rightarrow> bool"
  assumes dec_enc: "ok x \<Longrightarrow> dec (enc x @ rest) = Some (x, rest)"
    and enc_nonempty: "ok x \<Longrightarrow> enc x \<noteq> []"
    and dec_shorter: "dec bs = Some (x, rest) \<Longrightarrow> length rest < length bs"
begin

function dec_all :: "'b list \<Rightarrow> 'a list option" where
  "dec_all bs =
     (if bs = [] then Some []
      else case dec bs of
             None \<Rightarrow> None
           | Some (x, rest) \<Rightarrow> map_option (Cons x) (dec_all rest))"
  by pat_completeness auto
termination
  by (relation "measure length") (auto dest: dec_shorter)

declare dec_all.simps [simp del]

lemma dec_all_Nil [simp]: "dec_all [] = Some []"
  by (simp add: dec_all.simps)

lemma dec_all_enc: "ok x \<Longrightarrow> dec_all (enc x @ rest) = map_option (Cons x) (dec_all rest)"
  by (subst dec_all.simps) (simp add: dec_enc enc_nonempty)

lemma dec_all_concat: "(\<forall>x \<in> set xs. ok x) \<Longrightarrow> dec_all (concat (map enc xs)) = Some xs"
  by (induction xs) (auto simp: dec_all_enc)

lemma enc_prefix_free: "ok x \<Longrightarrow> ok y \<Longrightarrow> enc x @ r = enc y @ s \<Longrightarrow> x = y \<and> r = s"
  by (metis dec_enc option.inject prod.inject)

end

section \<open>Transition systems with an invariant\<close>

locale invariant_system =
  fixes step :: "'s \<Rightarrow> 's \<Rightarrow> bool"
    and init :: "'s \<Rightarrow> bool"
    and inv :: "'s \<Rightarrow> bool"
  assumes inv_init: "init s \<Longrightarrow> inv s"
    and inv_step: "inv s \<Longrightarrow> step s t \<Longrightarrow> inv t"
begin

lemma inv_steps: "step\<^sup>*\<^sup>* s t \<Longrightarrow> inv s \<Longrightarrow> inv t"
  by (induction rule: rtranclp_induct) (auto intro: inv_step)

lemma inv_reachable: "init s \<Longrightarrow> step\<^sup>*\<^sup>* s t \<Longrightarrow> inv t"
  by (blast intro: inv_steps inv_init)

end

end
