(* ===== verification/Effects.thy ===== *)
theory Effects
  imports Prelude
begin

text \<open>
  Computations that change a state and may fail, the shape of every coordinator method that makes
  several store calls: the state of the calls that succeeded stays even when a later one fails.

  \<open>runs view step m\<close> says that whatever \<open>m\<close> does to the part of the state that \<open>view\<close> selects is a
  sequence of \<open>step\<close>s; its rules follow the structure of a computation, so that a method is shown to
  be a run of transactions by applying them. \<open>frames f m\<close> says that \<open>m\<close> leaves \<open>f\<close> of the state alone.
\<close>

type_synonym ('s, 'e, 'a) eff = "'s \<Rightarrow> ('e + 'a) \<times> 's"

definition returnE :: "'a \<Rightarrow> ('s, 'e, 'a) eff" where
  "returnE x s = (Inr x, s)"

definition failE :: "'e \<Rightarrow> ('s, 'e, 'a) eff" where
  "failE e s = (Inl e, s)"

definition bindE :: "('s, 'e, 'a) eff \<Rightarrow> ('a \<Rightarrow> ('s, 'e, 'b) eff) \<Rightarrow> ('s, 'e, 'b) eff" where
  "bindE m f s = (case m s of (Inl e, s1) \<Rightarrow> (Inl e, s1) | (Inr a, s1) \<Rightarrow> f a s1)"

definition thenE :: "('s, 'e, 'a) eff \<Rightarrow> ('s, 'e, 'b) eff \<Rightarrow> ('s, 'e, 'b) eff" where
  "thenE m n = bindE m (\<lambda>_. n)"

definition getE :: "('s \<Rightarrow> 'a) \<Rightarrow> ('s, 'e, 'a) eff" where
  "getE f s = (Inr (f s), s)"

definition putE :: "('s \<Rightarrow> 's) \<Rightarrow> ('s, 'e, unit) eff" where
  "putE f s = (Inr (), f s)"

text \<open>A call whose error the caller logs and drops.\<close>

definition ignoreE :: "('s, 'e, 'a) eff \<Rightarrow> ('s, 'e, unit) eff" where
  "ignoreE m s = (Inr (), snd (m s))"

definition ofSum :: "('e + 'a) \<Rightarrow> ('s, 'e, 'a) eff" where
  "ofSum r s = (r, s)"

fun eachE :: "('x \<Rightarrow> ('s, 'e, unit) eff) \<Rightarrow> 'x list \<Rightarrow> ('s, 'e, unit) eff" where
  "eachE f [] = returnE ()"
| "eachE f (x # xs) = thenE (f x) (eachE f xs)"

lemmas eff_defs = returnE_def failE_def bindE_def thenE_def getE_def putE_def ignoreE_def ofSum_def

lemma bindE_Inr: "bindE m f s = (Inr b, s') \<longleftrightarrow> (\<exists>a s1. m s = (Inr a, s1) \<and> f a s1 = (Inr b, s'))"
  by (auto simp: bindE_def split: prod.splits sum.splits)

lemma thenE_Inr: "thenE m n s = (Inr b, s') \<longleftrightarrow> (\<exists>a s1. m s = (Inr a, s1) \<and> n s1 = (Inr b, s'))"
  by (simp add: thenE_def bindE_Inr)

section \<open>Runs of transactions\<close>

named_theorems runs_intros
named_theorems frames_intros

definition runs :: "('s \<Rightarrow> 'd) \<Rightarrow> ('d \<Rightarrow> 'd \<Rightarrow> bool) \<Rightarrow> ('s, 'e, 'a) eff \<Rightarrow> bool" where
  "runs view step m \<longleftrightarrow> (\<forall>s. step\<^sup>*\<^sup>* (view s) (view (snd (m s))))"

lemma runsI: "(\<And>s r s'. m s = (r, s') \<Longrightarrow> step\<^sup>*\<^sup>* (view s) (view s')) \<Longrightarrow> runs view step m"
  by (simp add: runs_def prod_eq_iff)

lemma runsD: "runs view step m \<Longrightarrow> m s = (r, s') \<Longrightarrow> step\<^sup>*\<^sup>* (view s) (view s')"
  by (metis runs_def snd_conv)

lemma runs_still: "(\<And>s. view (snd (m s)) = view s) \<Longrightarrow> runs view step m"
  by (simp add: runs_def)

lemma runs_simple [runs_intros]:
  "runs view step (returnE x)" "runs view step (failE e)" "runs view step (getE g)" "runs view step (ofSum r)"
  by (simp_all add: runs_def eff_defs)

lemma runs_bind [runs_intros]: "runs view step m \<Longrightarrow> (\<And>a. runs view step (f a)) \<Longrightarrow> runs view step (bindE m f)"
  unfolding runs_def
  by (auto simp: bindE_def split: prod.splits sum.splits) (metis rtranclp_trans snd_conv)+

lemma runs_then [runs_intros]: "runs view step m \<Longrightarrow> runs view step n \<Longrightarrow> runs view step (thenE m n)"
  by (simp add: thenE_def runs_bind)

lemma runs_ignore [runs_intros]: "runs view step m \<Longrightarrow> runs view step (ignoreE m)"
  by (simp add: runs_def ignoreE_def)

lemma runs_if [runs_intros]: "runs view step m \<Longrightarrow> runs view step n \<Longrightarrow> runs view step (if b then m else n)"
  by simp

lemma runs_option [runs_intros]:
  "runs view step m \<Longrightarrow> (\<And>x. runs view step (f x)) \<Longrightarrow> runs view step (case opt of None \<Rightarrow> m | Some x \<Rightarrow> f x)"
  by (cases opt) simp_all

lemma runs_prod [runs_intros]: "(\<And>a b. runs view step (f a b)) \<Longrightarrow> runs view step (case p of (a, b) \<Rightarrow> f a b)"
  by (cases p) simp

lemma runs_sum [runs_intros]:
  "(\<And>a. runs view step (f a)) \<Longrightarrow> (\<And>b. runs view step (g b)) \<Longrightarrow> runs view step (case x of Inl a \<Rightarrow> f a | Inr b \<Rightarrow> g b)"
  by (cases x) simp_all

lemma runs_each [runs_intros]: "(\<And>x. runs view step (f x)) \<Longrightarrow> runs view step (eachE f xs)"
  by (induction xs) (simp_all add: runs_intros)

section \<open>Frames\<close>

definition frames :: "('s \<Rightarrow> 'c) \<Rightarrow> ('s, 'e, 'a) eff \<Rightarrow> bool" where
  "frames g m \<longleftrightarrow> (\<forall>s. g (snd (m s)) = g s)"

lemma framesD: "frames g m \<Longrightarrow> m s = (r, s') \<Longrightarrow> g s' = g s"
  by (metis frames_def snd_conv)

lemma frames_simple [frames_intros]:
  "frames g (returnE x)" "frames g (failE e)" "frames g (getE h)" "frames g (ofSum r)"
  by (simp_all add: frames_def eff_defs)

lemma frames_bind [frames_intros]: "frames g m \<Longrightarrow> (\<And>a. frames g (f a)) \<Longrightarrow> frames g (bindE m f)"
  unfolding frames_def by (auto simp: bindE_def split: prod.splits sum.splits) (metis snd_conv)+

lemma frames_then [frames_intros]: "frames g m \<Longrightarrow> frames g n \<Longrightarrow> frames g (thenE m n)"
  by (simp add: thenE_def frames_bind)

lemma frames_ignore [frames_intros]: "frames g m \<Longrightarrow> frames g (ignoreE m)"
  by (simp add: frames_def ignoreE_def)

lemma frames_if [frames_intros]: "frames g m \<Longrightarrow> frames g n \<Longrightarrow> frames g (if b then m else n)"
  by simp

lemma frames_option [frames_intros]:
  "frames g m \<Longrightarrow> (\<And>x. frames g (f x)) \<Longrightarrow> frames g (case opt of None \<Rightarrow> m | Some x \<Rightarrow> f x)"
  by (cases opt) simp_all

lemma frames_prod [frames_intros]: "(\<And>a b. frames g (f a b)) \<Longrightarrow> frames g (case p of (a, b) \<Rightarrow> f a b)"
  by (cases p) simp

lemma frames_sum [frames_intros]:
  "(\<And>a. frames k (f a)) \<Longrightarrow> (\<And>b. frames k (g b)) \<Longrightarrow> frames k (case x of Inl a \<Rightarrow> f a | Inr b \<Rightarrow> g b)"
  by (cases x) simp_all

lemma frames_each [frames_intros]: "(\<And>x. frames g (f x)) \<Longrightarrow> frames g (eachE f xs)"
  by (induction xs) (simp_all add: frames_intros)

section \<open>Streaming into batches\<close>

text \<open>
  The loop the phase seeders share: each record may contribute one entry; the entry joins the
  current batch, and a batch that has reached its size is flushed before the next record. \<open>chunked\<close> is
  what such a loop should have flushed in total.
\<close>

definition streamFn ::
    "nat \<Rightarrow> ('r \<Rightarrow> 'k \<Rightarrow> 'x option \<times> 'k) \<Rightarrow> ('x list \<Rightarrow> ('w, 'e, unit) eff) \<Rightarrow>
     'r \<Rightarrow> 'k \<times> 'x list \<times> nat \<times> 'w \<Rightarrow> 'e option \<times> ('k \<times> 'x list \<times> nat \<times> 'w)" where
  "streamFn sz entry flush r st =
     (case st of (k, batch, n, w) \<Rightarrow>
      case entry r k of
        (None, k1) \<Rightarrow> (None, k1, batch, n, w)
      | (Some x, k1) \<Rightarrow>
          if length (batch @ [x]) \<ge> sz
          then (case flush (batch @ [x]) w of
                  (Inl e, w1) \<Rightarrow> (Some e, k1, batch @ [x], n + 1, w1)
                | (Inr _, w1) \<Rightarrow> (None, k1, [], n + 1, w1))
          else (None, k1, batch @ [x], n + 1, w))"

fun entries_from :: "('r \<Rightarrow> 'k \<Rightarrow> 'x option \<times> 'k) \<Rightarrow> 'k \<Rightarrow> 'r list \<Rightarrow> 'x list" where
  "entries_from entry k [] = []"
| "entries_from entry k (r # rs) =
     (case entry r k of (None, k1) \<Rightarrow> entries_from entry k1 rs | (Some x, k1) \<Rightarrow> x # entries_from entry k1 rs)"

function chunked :: "nat \<Rightarrow> 'x list \<Rightarrow> 'x list list" where
  "chunked n xs = (if n = 0 \<or> xs = [] then [] else take n xs # chunked n (drop n xs))"
  by auto
termination by (relation "measure (\<lambda>(n, xs). length xs)") auto

declare chunked.simps [simp del]

lemma chunked_Nil [simp]: "chunked n [] = []"
  by (simp add: chunked.simps)

lemma chunked_short: "0 < n \<Longrightarrow> xs \<noteq> [] \<Longrightarrow> length xs \<le> n \<Longrightarrow> chunked n xs = [xs]"
  by (subst chunked.simps) simp

lemma chunked_full: "0 < n \<Longrightarrow> length xs = n \<Longrightarrow> chunked n (xs @ ys) = xs # chunked n ys"
  by (subst chunked.simps) auto

lemma concat_chunked: "0 < n \<Longrightarrow> concat (chunked n xs) = xs"
  by (induction n xs rule: chunked.induct) (subst chunked.simps, auto)

lemma chunked_sizes: "c \<in> set (chunked n xs) \<Longrightarrow> c \<noteq> [] \<and> length c \<le> n"
proof (induction n xs rule: chunked.induct)
  case (1 n xs)
  show ?case
  proof (cases "n = 0 \<or> xs = []")
    case False
    then have "c = take n xs \<or> c \<in> set (chunked n (drop n xs))" using 1(2) by (subst (asm) chunked.simps) simp
    then show ?thesis using 1(1) [OF False] False by auto
  qed (use 1(2) in \<open>auto simp: chunked.simps\<close>)
qed

end
