(* ===== verification/Model.thy ===== *)
theory Model
  imports Prelude
begin

text \<open>
  The shared enums of the coordinator (\<open>coordinator/internal/model/model.go\<close>): job, pass and
  shard states, shard kinds with their scheduling priority, the order of the pass phases and
  \<open>EffectiveState\<close>, the phase the reporting surfaces show.

  \<open>PassState\<close> is made a linear order by \<open>phaseRank\<close>, so that "further along" is \<open>\<le>\<close>.
\<close>

datatype JobState = JobCreated | JobReady | JobRunning | JobPaused | JobCompleted
  | JobCancelled | JobFailed

datatype PassState = PassPending | PassProbing | PassScanning | PassDirfix | PassLinkfix
  | PassVerify | PassDelete | PassComplete

datatype ShardState = ShardQueued | ShardLeased | ShardDone | ShardParked

datatype ShardKind = KindDir | KindEntryList | KindChunk | KindDirfix | KindVerify
  | KindDelete | KindProbe | KindLinkfix | KindReaped

fun Priority :: "ShardKind \<Rightarrow> int" where
  "Priority KindChunk = 10"
| "Priority KindDelete = 15"
| "Priority KindProbe = 20"
| "Priority _ = 0"

fun phaseRank :: "PassState \<Rightarrow> nat" where
  "phaseRank PassPending = 0"
| "phaseRank PassProbing = 1"
| "phaseRank PassScanning = 2"
| "phaseRank PassDirfix = 3"
| "phaseRank PassLinkfix = 4"
| "phaseRank PassVerify = 5"
| "phaseRank PassDelete = 6"
| "phaseRank PassComplete = 7"

lemma phaseRank_inject [simp]: "phaseRank a = phaseRank b \<longleftrightarrow> a = b"
  by (cases a; cases b) auto

text \<open>The keys of the \<open>phaseRank\<close> map, in rank order (Go ranges over the map in any order).\<close>

definition all_PassStates :: "PassState list" where
  "all_PassStates = [PassPending, PassProbing, PassScanning, PassDirfix, PassLinkfix,
     PassVerify, PassDelete, PassComplete]"

definition NonTerminalPassStates :: "PassState list" where
  "NonTerminalPassStates = filter (\<lambda>st. st \<noteq> PassComplete) all_PassStates"

lemma set_all_PassStates: "set all_PassStates = UNIV"
proof -
  have "st \<in> set all_PassStates" for st
    by (cases st) (simp_all add: all_PassStates_def)
  then show ?thesis by blast
qed

lemma NonTerminalPassStates_iff [simp]: "st \<in> set NonTerminalPassStates \<longleftrightarrow> st \<noteq> PassComplete"
  using set_all_PassStates by (auto simp: NonTerminalPassStates_def)

instantiation PassState :: linorder
begin

definition less_eq_PassState :: "PassState \<Rightarrow> PassState \<Rightarrow> bool" where
  "less_eq_PassState a b \<longleftrightarrow> phaseRank a \<le> phaseRank b"

definition less_PassState :: "PassState \<Rightarrow> PassState \<Rightarrow> bool" where
  "less_PassState a b \<longleftrightarrow> phaseRank a < phaseRank b"

instance
  by standard (auto simp: less_eq_PassState_def less_PassState_def)

end

fun phaseOfKind :: "ShardKind \<Rightarrow> PassState option" where
  "phaseOfKind KindDirfix = Some PassDirfix"
| "phaseOfKind KindLinkfix = Some PassLinkfix"
| "phaseOfKind KindVerify = Some PassVerify"
| "phaseOfKind KindDelete = Some PassDelete"
| "phaseOfKind _ = None"

text \<open>
  \<open>kindsPresent\<close> is a Go map: a list of (kind, present) entries in whatever order the range
  loop visits them.
\<close>

fun EffectiveState :: "PassState \<Rightarrow> (ShardKind \<times> bool) list \<Rightarrow> PassState" where
  "EffectiveState eff [] = eff"
| "EffectiveState eff ((k, present) # ks) =
     (if \<not> present then EffectiveState eff ks
      else case phaseOfKind k of
             Some ph \<Rightarrow> EffectiveState (if phaseRank ph > phaseRank eff then ph else eff) ks
           | None \<Rightarrow> EffectiveState eff ks)"

definition proven_phases :: "(ShardKind \<times> bool) list \<Rightarrow> PassState list" where
  "proven_phases ks = List.map_filter (\<lambda>(k, present). if present then phaseOfKind k else None) ks"

lemma proven_phases_Cons:
  "proven_phases ((k, present) # ks) =
     (case (if present then phaseOfKind k else None) of None \<Rightarrow> proven_phases ks | Some ph \<Rightarrow> ph # proven_phases ks)"
  by (simp add: proven_phases_def List.map_filter_simps split: option.splits)

lemma EffectiveState_fold_max: "EffectiveState st ks = fold max (proven_phases ks) st"
proof (induction ks arbitrary: st)
  case Nil
  then show ?case by (simp add: proven_phases_def List.map_filter_simps)
next
  case (Cons kp ks)
  obtain k present where kp: "kp = (k, present)" by (cases kp)
  have m: "(if phaseRank ph > phaseRank st then ph else st) = max ph st" for ph
    by (auto simp: max_def less_eq_PassState_def)
  show ?case
    using Cons.IH by (auto simp: kp proven_phases_Cons m split: option.splits)
qed

text \<open>
  The effective state is the largest of the stored state and the phases the present
  kinds prove, whatever order the map iteration takes.
\<close>

lemma EffectiveState_Max: "EffectiveState st ks = Max (insert st (set (proven_phases ks)))"
  by (simp add: EffectiveState_fold_max Max.set_eq_fold [symmetric])

lemma EffectiveState_order_independent:
  "set ks = set ks' \<Longrightarrow> EffectiveState st ks = EffectiveState st ks'"
  by (simp add: EffectiveState_Max proven_phases_def List.map_filter_def)

section \<open>Properties\<close>

text \<open>
  \<open>EffectiveState\<close> never reports a phase behind the stored one, never reports one behind what the
  shards present prove, never invents a phase, and does not depend on the order Go's map iteration
  takes.
\<close>

theorem EffectiveState_furthest:
  "st \<le> EffectiveState st kinds \<and>
   (\<forall>k ph. (k, True) \<in> set kinds \<and> phaseOfKind k = Some ph \<longrightarrow> ph \<le> EffectiveState st kinds) \<and>
   (EffectiveState st kinds = st \<or>
    (\<exists>k. (k, True) \<in> set kinds \<and> phaseOfKind k = Some (EffectiveState st kinds))) \<and>
   (\<forall>kinds'. set kinds' = set kinds \<longrightarrow> EffectiveState st kinds' = EffectiveState st kinds)"
proof -
  have pp: "ph \<in> set (proven_phases kinds) \<longleftrightarrow> (\<exists>k. (k, True) \<in> set kinds \<and> phaseOfKind k = Some ph)" for ph
  proof (induction kinds)
    case Nil
    then show ?case by (simp add: proven_phases_def List.map_filter_simps)
  next
    case (Cons kp kinds)
    then show ?case by (cases kp) (auto simp: proven_phases_Cons split: option.splits if_splits)
  qed
  have "EffectiveState st kinds \<in> insert st (set (proven_phases kinds))"
    unfolding EffectiveState_Max by (rule Max_in) simp_all
  moreover have "x \<le> EffectiveState st kinds" if "x \<in> insert st (set (proven_phases kinds))" for x
    unfolding EffectiveState_Max by (rule Max_ge) (use that in simp_all)
  ultimately show ?thesis using pp EffectiveState_order_independent by blast
qed

theorem EffectiveState_furthest_witness:
  "EffectiveState PassScanning [(KindVerify, True), (KindDirfix, True)] = PassVerify \<and>
   PassDirfix \<le> EffectiveState PassScanning [(KindVerify, True), (KindDirfix, True)]"
proof -
  have "(KindDirfix, True) \<in> set [(KindVerify, True), (KindDirfix, True)] \<and> phaseOfKind KindDirfix = Some PassDirfix"
    by simp
  then have "PassDirfix \<le> EffectiveState PassScanning [(KindVerify, True), (KindDirfix, True)]"
    using EffectiveState_furthest [of PassScanning "[(KindVerify, True), (KindDirfix, True)]"] by blast
  then show ?thesis by simp
qed

end
