(* ===== verification/Spec.thy ===== *)
theory Spec
  imports Model "HOL-Library.Log_Nat"
begin

text \<open>
  The job spec (\<open>coordinator/internal/model/spec.go\<close>): its sections as records, \<open>ApplyDefaults\<close>,
  \<open>Validate\<close>, \<open>ParseSpec\<close>, \<open>PathsOverlap\<close> and \<open>ToJobOptions\<close>.

  The YAML decoder and the protobuf marshaller are parameters. A \<open>*bool\<close> field is a
  \<open>bool option\<close>; dereferencing a nil one is the error \<open>NilDereference\<close>, so that its absence is a
  theorem. A \<open>float64\<close> is its exact rational value, a NaN or an infinity, with products rounded
  to 53 bits; converting a value outside the target's range is implementation-defined in Go and
  a parameter here.
\<close>

unbundle bit_operations_syntax

type_synonym u64 = "64 word"
type_synonym u32 = "32 word"

section \<open>float64 and FNV-1a\<close>

datatype f64 = F64 rat | F64NaN | F64Inf bool

definition pow2 :: "int \<Rightarrow> rat" where
  "pow2 e = (if 0 \<le> e then 2 ^ nat e else 1 / 2 ^ nat (- e))"

text \<open>The binary exponent of a positive rational: \<open>2\<^sup>e \<le> r < 2\<^bsup>e + 1\<^esup>\<close>.\<close>

definition exponent :: "rat \<Rightarrow> int" where
  "exponent r =
     (let (n, d) = quotient_of r; k = bitlen n - bitlen d
      in if pow2 k \<le> r then k else k - 1)"

definition round_even :: "rat \<Rightarrow> int" where
  "round_even q =
     (let n = \<lfloor>q\<rfloor>; f = q - of_int n
      in if f < 1 / 2 then n else if f > 1 / 2 then n + 1 else if even n then n else n + 1)"

definition round64 :: "rat \<Rightarrow> rat" where
  "round64 r =
     (if r = 0 then 0
      else let u = pow2 (max (exponent \<bar>r\<bar> - 52) (- 1074)) in of_int (round_even (r / u)) * u)"

fun f64_scale :: "f64 \<Rightarrow> rat \<Rightarrow> f64" where
  "f64_scale (F64 r) c = F64 (round64 (r * c))"
| "f64_scale x c = x"

definition f64_to_u64 :: "(f64 \<Rightarrow> u64) \<Rightarrow> f64 \<Rightarrow> u64" where
  "f64_to_u64 oor x =
     (case x of F64 r \<Rightarrow> if 0 \<le> r \<and> r < 2 ^ 64 then of_int \<lfloor>r\<rfloor> else oor x | _ \<Rightarrow> oor x)"

definition fnv64a :: "bytes \<Rightarrow> u64" where
  "fnv64a bs = fold (\<lambda>b h. (h XOR ucast b) * 1099511628211) bs 14695981039346656037"

section \<open>The spec's sections\<close>

record ConvergeWhen =
  DeltaFilesBelow :: u64
  DeltaBytesBelow :: u64

record PassesSpec =
  MaxPasses :: int
  Schedule :: string
  Converge :: ConvergeWhen

record CopySpec =
  ChunkThreshold :: u64
  ChunkSize :: u64
  BufferSize :: u64
  PreserveSparse :: "bool option"
  ServerSideCopy :: string
  TempNaming :: string
  Fsync :: string
  DirectWrite :: "bool option"
  OnDestNewer :: string

record ACLSpec =
  Posix :: "bool option"
  NFS4 :: "bool option"
  Untranslatable :: string

record MetadataSpec =
  Owner :: "bool option"
  Mode :: "bool option"
  Times :: "bool option"
  Xattrs :: "bool option"
  ACLs :: ACLSpec
  Hardlinks :: string
  HardlinksMaxGroupScan :: u64
  Specials :: "bool option"

record VerifySpec =
  VerifyMode :: string
  SampleRate :: f64
  OnMismatch :: string

record LimitsSpec =
  BandwidthPerAgent :: u64
  IOPSPerAgent :: u64

record TuningSpec =
  ShardBudget :: u64
  DirSplitThreshold :: u64
  EntrylistBatch :: u32
  StatxBatch :: u32
  MtimeSlopNS :: "64 word"
  DeleteSplitThreshold :: u64
  DeleteSplitBatch :: u32
  DeleteShardBudget :: u64
  SpreadMode :: string
  SpreadTargetPerAgent :: u64

record NotificationSpec =
  Recipients :: "string list"
  OnPassComplete :: bool
  OnJobComplete :: bool

record JobSpec =
  APIVersion :: string
  Kind :: string
  SpecName :: string
  Description :: string
  SourcePath :: path
  DestinationPath :: path
  Filters :: "(string \<times> string) list list"
  Passes :: PassesSpec
  Copy :: CopySpec
  Metadata :: MetadataSpec
  RequireMount :: "bool option"
  Verify :: VerifySpec
  DeletesMode :: string
  Limits :: LimitsSpec
  Tuning :: TuningSpec
  Notifications :: NotificationSpec

section \<open>Defaults\<close>

fun boolDefault :: "bool option \<Rightarrow> bool \<Rightarrow> bool option" where
  "boolDefault None v = Some v"
| "boolDefault (Some b) v = Some b"

definition ifZero :: "'a \<Rightarrow> 'a \<Rightarrow> 'a \<Rightarrow> 'a" where
  "ifZero z v x = (if x = z then v else x)"

definition passesDefaults :: "PassesSpec \<Rightarrow> PassesSpec" where
  "passesDefaults p = p\<lparr>MaxPasses := ifZero 0 5 (MaxPasses p),
     Schedule := ifZero '''' ''continuous'' (Schedule p)\<rparr>"

definition copyDefaults :: "CopySpec \<Rightarrow> CopySpec" where
  "copyDefaults c = c\<lparr>
     ChunkThreshold := ifZero 0 (24 * 2 ^ 30) (ChunkThreshold c),
     ChunkSize := ifZero 0 (8 * 2 ^ 30) (ChunkSize c),
     BufferSize := ifZero 0 (2 ^ 20) (BufferSize c),
     PreserveSparse := boolDefault (PreserveSparse c) True,
     ServerSideCopy := ifZero '''' ''auto'' (ServerSideCopy c),
     TempNaming := ifZero '''' ''.drsync.tmp.'' (TempNaming c),
     Fsync := ifZero '''' ''batched'' (Fsync c),
     DirectWrite := boolDefault (DirectWrite c) True,
     OnDestNewer := ifZero '''' ''skip'' (OnDestNewer c)\<rparr>"

definition aclDefaults :: "ACLSpec \<Rightarrow> ACLSpec" where
  "aclDefaults a = a\<lparr>Posix := boolDefault (Posix a) True, NFS4 := boolDefault (NFS4 a) True,
     Untranslatable := ifZero '''' ''warn'' (Untranslatable a)\<rparr>"

definition metadataDefaults :: "MetadataSpec \<Rightarrow> MetadataSpec" where
  "metadataDefaults m = m\<lparr>
     Owner := boolDefault (Owner m) True,
     Mode := boolDefault (Mode m) True,
     Times := boolDefault (Times m) True,
     Xattrs := boolDefault (Xattrs m) True,
     ACLs := aclDefaults (ACLs m),
     Hardlinks := ifZero '''' ''preserve'' (Hardlinks m),
     Specials := boolDefault (Specials m) True\<rparr>"

text \<open>The literal \<open>0.01\<close> is the double nearest to 1/100.\<close>

definition verifyDefaults :: "VerifySpec \<Rightarrow> VerifySpec" where
  "verifyDefaults v = v\<lparr>
     VerifyMode := ifZero '''' ''on'' (VerifyMode v),
     SampleRate := ifZero (F64 0) (F64 (round64 (1 / 100))) (SampleRate v),
     OnMismatch := ifZero '''' ''recopy'' (OnMismatch v)\<rparr>"

definition SpreadAuto :: string where "SpreadAuto = ''auto''"
definition SpreadOff :: string where "SpreadOff = ''off''"
definition SpreadAlways :: string where "SpreadAlways = ''always''"

definition tuningDefaults :: "TuningSpec \<Rightarrow> TuningSpec" where
  "tuningDefaults t = t\<lparr>
     ShardBudget := ifZero 0 2000 (ShardBudget t),
     DirSplitThreshold := ifZero 0 50000 (DirSplitThreshold t),
     EntrylistBatch := ifZero 0 4000 (EntrylistBatch t),
     DeleteSplitThreshold := ifZero 0 200000 (DeleteSplitThreshold t),
     DeleteSplitBatch := ifZero 0 20000 (DeleteSplitBatch t),
     DeleteShardBudget := ifZero 0 250000 (DeleteShardBudget t),
     StatxBatch := ifZero 0 256 (StatxBatch t),
     MtimeSlopNS := ifZero 0 1000000 (MtimeSlopNS t),
     SpreadMode := ifZero '''' SpreadAuto (SpreadMode t),
     SpreadTargetPerAgent := ifZero 0 32 (SpreadTargetPerAgent t)\<rparr>"

definition ApplyDefaults :: "JobSpec \<Rightarrow> JobSpec" where
  "ApplyDefaults s = s\<lparr>
     Passes := passesDefaults (Passes s),
     Copy := copyDefaults (Copy s),
     Metadata := metadataDefaults (Metadata s),
     RequireMount := boolDefault (RequireMount s) True,
     Verify := verifyDefaults (Verify s),
     DeletesMode := ifZero '''' ''mirror'' (DeletesMode s),
     Tuning := tuningDefaults (Tuning s)\<rparr>"

section \<open>Path overlap\<close>

definition TrimRight :: "string \<Rightarrow> char \<Rightarrow> string" where
  "TrimRight s c = rev (dropWhile (\<lambda>x. x = c) (rev s))"

definition PathsOverlap :: "path \<Rightarrow> path \<Rightarrow> bool" where
  "PathsOverlap a b =
     (let ca = TrimRight a (CHR ''/'') @ ''/''; cb = TrimRight b (CHR ''/'') @ ''/''
      in ca = cb \<or> prefix cb ca \<or> prefix ca cb)"

section \<open>Validation\<close>

datatype spec_error =
    DecodeError
  | BadAPIVersion string
  | BadKind string
  | NameRequired
  | PathsRequired
  | PathsNotAbsolute
  | PathsNotDisjoint
  | TooManyFilters nat
  | FilterNotSingle nat
  | FilterUnknownKey nat string
  | FilterEmptyPattern nat
  | FilterPatternTooLong nat nat
  | BadDeletesMode
  | BadOnDestNewer
  | BadVerifyMode
  | BadSampleRate
  | BadHardlinks
  | BadSpreadMode
  | RecipientsEmpty
  | BadRecipient nat string
  | BadServerSideCopy
  | BadUntranslatable
  | NilDereference
  | MarshalFailed

definition maxFilterRules :: nat where "maxFilterRules = 64"
definition maxFilterPattern :: nat where "maxFilterPattern = 255"

fun checkFilterEntries :: "nat \<Rightarrow> (string \<times> string) list \<Rightarrow> spec_error option" where
  "checkFilterEntries i [] = None"
| "checkFilterEntries i ((k, pat) # es) =
     (if k \<noteq> ''include'' \<and> k \<noteq> ''exclude'' then Some (FilterUnknownKey i k)
      else if pat = '''' then Some (FilterEmptyPattern i)
      else if length pat > maxFilterPattern then Some (FilterPatternTooLong i (length pat))
      else checkFilterEntries i es)"

fun checkFilters :: "nat \<Rightarrow> (string \<times> string) list list \<Rightarrow> spec_error option" where
  "checkFilters i [] = None"
| "checkFilters i (f # fs) =
     (if length f \<noteq> 1 then Some (FilterNotSingle i)
      else case checkFilterEntries i f of Some e \<Rightarrow> Some e | None \<Rightarrow> checkFilters (Suc i) fs)"

text \<open>\<open>emailRe\<close> is \<open>^[^@\s]+@[^@\s]+\.[^@\s]+$\<close>.\<close>

definition emailChar :: "char \<Rightarrow> bool" where
  "emailChar c \<longleftrightarrow> c \<notin> {CHR ''@'', CHR '' '', CHR 0x09, CHR 0x0A, CHR 0x0C, CHR 0x0D}"

definition emailRe :: "string \<Rightarrow> bool" where
  "emailRe s =
     (let l = takeWhile (\<lambda>c. c \<noteq> CHR ''@'') s; d = drop (Suc (length l)) s
      in l \<noteq> [] \<and> length l < length s \<and> list_all emailChar l \<and> list_all emailChar d \<and>
         list_ex (\<lambda>i. 0 < i \<and> Suc i < length d \<and> d ! i = CHR ''.'') [0..<length d])"

fun checkRecipients :: "nat \<Rightarrow> string list \<Rightarrow> spec_error option" where
  "checkRecipients i [] = None"
| "checkRecipients i (a # as) =
     (if \<not> emailRe a then Some (BadRecipient i a) else checkRecipients (Suc i) as)"

definition Enabled :: "NotificationSpec \<Rightarrow> bool" where
  "Enabled n \<longleftrightarrow> OnPassComplete n \<or> OnJobComplete n"

text \<open>\<open>r < 0 || r > 1\<close>: every comparison with a NaN is false.\<close>

fun rateOutOfRange :: "f64 \<Rightarrow> bool" where
  "rateOutOfRange (F64 r) = (r < 0 \<or> r > 1)"
| "rateOutOfRange F64NaN = False"
| "rateOutOfRange (F64Inf neg) = True"

definition validatePaths :: "JobSpec \<Rightarrow> spec_error option" where
  "validatePaths s =
     (let src = SourcePath s; dst = DestinationPath s
      in if APIVersion s \<noteq> ''drsync/v1'' then Some (BadAPIVersion (APIVersion s))
         else if Kind s \<noteq> ''Job'' then Some (BadKind (Kind s))
         else if SpecName s = '''' then Some NameRequired
         else if src = '''' \<or> dst = '''' then Some PathsRequired
         else if \<not> prefix ''/'' src \<or> \<not> prefix ''/'' dst then Some PathsNotAbsolute
         else if PathsOverlap src dst then Some PathsNotDisjoint
         else None)"

definition validateModes :: "JobSpec \<Rightarrow> spec_error option" where
  "validateModes s =
     (if DeletesMode s \<notin> {''report'', ''mirror''} then Some BadDeletesMode
      else if OnDestNewer (Copy s) \<notin> {''skip'', ''overwrite''} then Some BadOnDestNewer
      else if VerifyMode (Verify s) \<notin> {''on'', ''off''} then Some BadVerifyMode
      else if rateOutOfRange (SampleRate (Verify s)) then Some BadSampleRate
      else if Hardlinks (Metadata s) \<notin> {''report'', ''preserve''} then Some BadHardlinks
      else if SpreadMode (Tuning s) \<notin> {SpreadAuto, SpreadOff, SpreadAlways} then Some BadSpreadMode
      else None)"

definition validateNotifications :: "NotificationSpec \<Rightarrow> spec_error option" where
  "validateNotifications n =
     (if Enabled n \<and> Recipients n = [] then Some RecipientsEmpty
      else checkRecipients 0 (Recipients n))"

definition Validate :: "JobSpec \<Rightarrow> spec_error option" where
  "Validate s =
     (case validatePaths s of
        Some e \<Rightarrow> Some e
      | None \<Rightarrow>
          if length (Filters s) > maxFilterRules then Some (TooManyFilters (length (Filters s)))
          else case checkFilters 0 (Filters s) of
                 Some e \<Rightarrow> Some e
               | None \<Rightarrow>
                   (case validateModes s of
                      Some e \<Rightarrow> Some e
                    | None \<Rightarrow> validateNotifications (Notifications s)))"

text \<open>\<open>yaml\<close> is the strict decoder: the bytes of a spec to the decoded struct.\<close>

definition ParseSpec :: "(bytes \<Rightarrow> JobSpec option) \<Rightarrow> bytes \<Rightarrow> spec_error + JobSpec" where
  "ParseSpec yaml data =
     (case yaml data of
        None \<Rightarrow> Inl DecodeError
      | Some s0 \<Rightarrow>
          let s = ApplyDefaults s0
          in case Validate s of Some e \<Rightarrow> Inl e | None \<Rightarrow> Inr s)"

section \<open>Options for agents\<close>

datatype SSC = SSC_AUTO | SSC_OFF | SSC_REQUIRE
datatype Conflict = CONFLICT_SKIP_IF_DEST_NEWER | CONFLICT_OVERWRITE
datatype FsyncMode = FSYNC_BATCHED | FSYNC_PER_FILE
datatype UntranslatableMode = UNTRANSLATABLE_WARN | UNTRANSLATABLE_FAIL | UNTRANSLATABLE_SKIP
datatype MismatchMode = ON_MISMATCH_RECOPY | ON_MISMATCH_FAIL

record CopyOptions =
  oChunkThreshold :: u64
  oChunkSize :: u64
  oBufferSize :: u64
  oPreserveSparse :: bool
  oTempPrefix :: string
  oDirectWrite :: bool
  oServerSideCopy :: SSC
  oOnDestNewer :: Conflict
  oFsyncMode :: FsyncMode

record MetadataOptions =
  oOwner :: bool
  oMode :: bool
  oTimes :: bool
  oXattrs :: bool
  oPosix :: bool
  oNfs4 :: bool
  oUntranslatable :: UntranslatableMode
  oSpecials :: bool

record TuningOptions =
  oShardBudget :: u64
  oDirSplitThreshold :: u64
  oEntrylistBatch :: u32
  oStatxBatch :: u32
  oMtimeSlopNs :: "64 word"
  oDeleteSplitThreshold :: u64
  oDeleteSplitBatch :: u32
  oDeleteShardBudget :: u64

record JobOptions =
  oJobId :: u64
  oJobName :: string
  oSrcRoot :: path
  oDstRoot :: path
  oCopy :: CopyOptions
  oMetadata :: MetadataOptions
  oSampleRatePpm :: u32
  oOnMismatch :: MismatchMode
  oBandwidthPerAgent :: u64
  oIopsPerAgent :: u64
  oTuning :: TuningOptions
  oDryRun :: bool
  oRequireMount :: bool
  oFilters :: "(bool \<times> string) list"
  oOptionsHash :: u64

definition sscOption :: "string \<Rightarrow> SSC option" where
  "sscOption m = (if m = ''auto'' then Some SSC_AUTO else if m = ''off'' then Some SSC_OFF
     else if m = ''require'' then Some SSC_REQUIRE else None)"

definition conflictOption :: "string \<Rightarrow> Conflict option" where
  "conflictOption m = (if m = ''skip'' then Some CONFLICT_SKIP_IF_DEST_NEWER
     else if m = ''overwrite'' then Some CONFLICT_OVERWRITE else None)"

definition untranslatableOption :: "string \<Rightarrow> UntranslatableMode option" where
  "untranslatableOption m = (if m = ''warn'' then Some UNTRANSLATABLE_WARN
     else if m = ''fail'' then Some UNTRANSLATABLE_FAIL
     else if m = ''skip'' then Some UNTRANSLATABLE_SKIP else None)"

text \<open>The pointers \<open>ToJobOptions\<close> dereferences while it builds the struct.\<close>

definition derefs :: "JobSpec \<Rightarrow> bool option list" where
  "derefs s = [PreserveSparse (Copy s), DirectWrite (Copy s), Owner (Metadata s), Mode (Metadata s),
     Times (Metadata s), Xattrs (Metadata s), Posix (ACLs (Metadata s)), NFS4 (ACLs (Metadata s)),
     Specials (Metadata s), RequireMount s]"

definition filterRules :: "(string \<times> string) list list \<Rightarrow> (bool \<times> string) list" where
  "filterRules fs = concat (map (map (\<lambda>(k, pat). (k = ''exclude'', pat))) fs)"

definition copyOptions :: "CopySpec \<Rightarrow> SSC \<Rightarrow> Conflict \<Rightarrow> CopyOptions" where
  "copyOptions c ssc onNewer = \<lparr>
     oChunkThreshold = ChunkThreshold c, oChunkSize = ChunkSize c, oBufferSize = BufferSize c,
     oPreserveSparse = the (PreserveSparse c), oTempPrefix = TempNaming c,
     oDirectWrite = the (DirectWrite c), oServerSideCopy = ssc, oOnDestNewer = onNewer,
     oFsyncMode = (if Fsync c = ''per_file'' then FSYNC_PER_FILE else FSYNC_BATCHED)\<rparr>"

definition metadataOptions :: "MetadataSpec \<Rightarrow> UntranslatableMode \<Rightarrow> MetadataOptions" where
  "metadataOptions m un = \<lparr>
     oOwner = the (Owner m), oMode = the (Mode m), oTimes = the (Times m),
     oXattrs = the (Xattrs m), oPosix = the (Posix (ACLs m)), oNfs4 = the (NFS4 (ACLs m)),
     oUntranslatable = un, oSpecials = the (Specials m)\<rparr>"

definition tuningOptions :: "TuningSpec \<Rightarrow> TuningOptions" where
  "tuningOptions t = \<lparr>
     oShardBudget = ShardBudget t, oDirSplitThreshold = DirSplitThreshold t,
     oEntrylistBatch = EntrylistBatch t, oStatxBatch = StatxBatch t, oMtimeSlopNs = MtimeSlopNS t,
     oDeleteSplitThreshold = DeleteSplitThreshold t, oDeleteSplitBatch = DeleteSplitBatch t,
     oDeleteShardBudget = DeleteShardBudget t\<rparr>"

text \<open>
  \<open>marshal\<close> is the deterministic protobuf encoding of the options with a zero hash field, \<open>oor\<close>
  the value of an out-of-range float conversion.
\<close>

definition ToJobOptions ::
    "(JobOptions \<Rightarrow> bytes option) \<Rightarrow> (f64 \<Rightarrow> u64) \<Rightarrow> JobSpec \<Rightarrow> u64 \<Rightarrow> bool \<Rightarrow> spec_error + JobOptions" where
  "ToJobOptions marshal oor s jobID dryRun =
     (if None \<in> set (derefs s) then Inl NilDereference
      else case sscOption (ServerSideCopy (Copy s)) of
        None \<Rightarrow> Inl BadServerSideCopy
      | Some ssc \<Rightarrow>
      (case conflictOption (OnDestNewer (Copy s)) of
        None \<Rightarrow> Inl BadOnDestNewer
      | Some onNewer \<Rightarrow>
      (case untranslatableOption (Untranslatable (ACLs (Metadata s))) of
        None \<Rightarrow> Inl BadUntranslatable
      | Some un \<Rightarrow>
          let opts = \<lparr>oJobId = jobID, oJobName = SpecName s, oSrcRoot = SourcePath s,
                oDstRoot = DestinationPath s, oCopy = copyOptions (Copy s) ssc onNewer,
                oMetadata = metadataOptions (Metadata s) un,
                oSampleRatePpm = ucast (f64_to_u64 oor (f64_scale (SampleRate (Verify s)) 1000000)),
                oOnMismatch = (if OnMismatch (Verify s) = ''fail'' then ON_MISMATCH_FAIL else ON_MISMATCH_RECOPY),
                oBandwidthPerAgent = BandwidthPerAgent (Limits s),
                oIopsPerAgent = IOPSPerAgent (Limits s),
                oTuning = tuningOptions (Tuning s), oDryRun = dryRun,
                oRequireMount = the (RequireMount s),
                oFilters = filterRules (Filters s), oOptionsHash = 0\<rparr>
          in case marshal opts of
               None \<Rightarrow> Inl MarshalFailed
             | Some blob \<Rightarrow> Inr (opts\<lparr>oOptionsHash := fnv64a blob\<rparr>))))"

section \<open>Lemmas\<close>

lemma ifZero_idem [simp]: "ifZero z v (ifZero z v x) = ifZero z v x"
  by (simp add: ifZero_def)

lemma boolDefault_idem [simp]: "boolDefault (boolDefault x v) v = boolDefault x v"
  by (cases x) auto

lemma boolDefault_not_None [simp]: "boolDefault x v \<noteq> None" "None \<noteq> boolDefault x v"
  by (cases x; simp)+

lemmas section_defaults_defs = passesDefaults_def copyDefaults_def aclDefaults_def
  metadataDefaults_def verifyDefaults_def tuningDefaults_def

lemma section_defaults_idem [simp]:
  "passesDefaults (passesDefaults p) = passesDefaults p"
  "copyDefaults (copyDefaults c) = copyDefaults c"
  "aclDefaults (aclDefaults a) = aclDefaults a"
  "metadataDefaults (metadataDefaults m) = metadataDefaults m"
  "verifyDefaults (verifyDefaults v) = verifyDefaults v"
  "tuningDefaults (tuningDefaults t) = tuningDefaults t"
  by (simp_all add: section_defaults_defs)

lemma ApplyDefaults_idem: "ApplyDefaults (ApplyDefaults s) = ApplyDefaults s"
  by (simp add: ApplyDefaults_def)

lemma derefs_ApplyDefaults: "None \<notin> set (derefs (ApplyDefaults s))"
  by (simp add: derefs_def ApplyDefaults_def section_defaults_defs)

lemma ParseSpec_InrD:
  "ParseSpec yaml data = Inr s \<Longrightarrow> \<exists>s0. yaml data = Some s0 \<and> s = ApplyDefaults s0 \<and> Validate s = None"
  by (auto simp: ParseSpec_def Let_def split: option.splits)

lemma ToJobOptions_no_nil:
  "None \<notin> set (derefs s) \<Longrightarrow> ToJobOptions marshal oor s j d \<noteq> Inl NilDereference"
  by (simp add: ToJobOptions_def Let_def split: option.splits)

subsection \<open>Paths as component lists\<close>

fun split_slash :: "path \<Rightarrow> string list" where
  "split_slash [] = [[]]"
| "split_slash (c # cs) =
     (if c = CHR ''/'' then [] # split_slash cs
      else case split_slash cs of [] \<Rightarrow> [[c]] | x # xs \<Rightarrow> (c # x) # xs)"

definition components :: "path \<Rightarrow> string list" where
  "components p = split_slash (TrimRight p (CHR ''/''))"

lemma split_slash_not_Nil [simp]: "split_slash s \<noteq> []"
  by (induction s) (auto split: list.splits)

lemma split_slash_append: "split_slash (a @ CHR ''/'' # r) = split_slash a @ split_slash r"
  by (induction a) (auto split: list.splits simp: append_eq_Cons_conv)

lemma concat_split_slash: "concat (map (\<lambda>x. x @ ''/'') (split_slash s)) = s @ ''/''"
  by (induction s) (auto split: list.splits)

lemma prefix_slash_iff: "prefix (a @ ''/'') (b @ ''/'') \<longleftrightarrow> prefix (split_slash a) (split_slash b)"
proof
  assume "prefix (a @ ''/'') (b @ ''/'')"
  then obtain r where r: "b @ ''/'' = a @ ''/'' @ r" by (auto simp: prefix_def)
  show "prefix (split_slash a) (split_slash b)"
  proof (cases r rule: rev_cases)
    case Nil
    then show ?thesis using r by simp
  next
    case (snoc r' c)
    then have "b = a @ CHR ''/'' # r'" using r by simp
    then show ?thesis by (simp add: split_slash_append)
  qed
next
  assume "prefix (split_slash a) (split_slash b)"
  then obtain t where "split_slash b = split_slash a @ t" by (auto simp: prefix_def)
  then have "b @ ''/'' = (a @ ''/'') @ concat (map (\<lambda>x. x @ ''/'') t)"
    using concat_split_slash [of a] concat_split_slash [of b] by simp
  then show "prefix (a @ ''/'') (b @ ''/'')" by (metis prefixI)
qed

lemma PathsOverlap_components:
  "PathsOverlap a b \<longleftrightarrow> prefix (components a) (components b) \<or> prefix (components b) (components a)"
  unfolding PathsOverlap_def Let_def components_def prefix_slash_iff [symmetric]
  by (metis prefix_order.refl)

lemma PathsOverlap_commute: "PathsOverlap a b = PathsOverlap b a"
  by (auto simp: PathsOverlap_def Let_def)

lemma PathsOverlap_refl [simp]: "PathsOverlap a a"
  by (simp add: PathsOverlap_def)

text \<open>Two trees that both overlap nothing of each other stay apart below as well.\<close>

lemma PathsOverlap_below:
  "prefix (components a) (components b) \<Longrightarrow> PathsOverlap b c \<Longrightarrow> PathsOverlap a c"
  unfolding PathsOverlap_components by (meson prefix_order.trans prefix_same_cases)

section \<open>A small concrete spec\<close>

definition sample_spec :: "string \<Rightarrow> JobSpec" where
  "sample_spec ssc = \<lparr>APIVersion = ''drsync/v1'', Kind = ''Job'', SpecName = ''j'', Description = '''',
     SourcePath = ''/s'', DestinationPath = ''/d'', Filters = [],
     Passes = \<lparr>MaxPasses = 0, Schedule = '''', Converge = \<lparr>DeltaFilesBelow = 0, DeltaBytesBelow = 0\<rparr>\<rparr>,
     Copy = \<lparr>ChunkThreshold = 0, ChunkSize = 0, BufferSize = 0, PreserveSparse = None, ServerSideCopy = ssc,
        TempNaming = '''', Fsync = '''', DirectWrite = None, OnDestNewer = ''''\<rparr>,
     Metadata = \<lparr>Owner = None, Mode = None, Times = None, Xattrs = None,
        ACLs = \<lparr>Posix = None, NFS4 = None, Untranslatable = ''''\<rparr>,
        Hardlinks = '''', HardlinksMaxGroupScan = 0, Specials = None\<rparr>,
     RequireMount = None,
     Verify = \<lparr>VerifyMode = '''', SampleRate = F64 1, OnMismatch = ''''\<rparr>,
     DeletesMode = '''', Limits = \<lparr>BandwidthPerAgent = 0, IOPSPerAgent = 0\<rparr>,
     Tuning = \<lparr>ShardBudget = 0, DirSplitThreshold = 0, EntrylistBatch = 0, StatxBatch = 0, MtimeSlopNS = 0,
        DeleteSplitThreshold = 0, DeleteSplitBatch = 0, DeleteShardBudget = 0, SpreadMode = '''', SpreadTargetPerAgent = 0\<rparr>,
     Notifications = \<lparr>Recipients = [], OnPassComplete = False, OnJobComplete = False\<rparr>\<rparr>"

lemma ParseSpec_sample: "ParseSpec (\<lambda>_. Some (sample_spec ssc)) data = Inr (ApplyDefaults (sample_spec ssc))"
proof -
  have "Validate (ApplyDefaults (sample_spec ssc)) = None"
    by (simp add: Validate_def validatePaths_def validateModes_def validateNotifications_def Enabled_def
        ApplyDefaults_def section_defaults_defs sample_spec_def ifZero_def PathsOverlap_def TrimRight_def
        SpreadAuto_def maxFilterRules_def)
  then show ?thesis by (simp add: ParseSpec_def Let_def)
qed

section \<open>Properties\<close>

text \<open>
  Two configured trees overlap, in the sense that keeps jobs from writing over each other, exactly
  if one's list of path components is a prefix of the other's: \<open>/data\<close> and \<open>/data2\<close> do not overlap, \<open>/data\<close>
  and \<open>/data/x/\<close> do, and the relation is symmetric.
\<close>

theorem PathsOverlap_iff:
  "(PathsOverlap a b \<longleftrightarrow> prefix (components a) (components b) \<or> prefix (components b) (components a)) \<and>
   PathsOverlap a b = PathsOverlap b a"
  using PathsOverlap_components PathsOverlap_commute by blast

text \<open>
  A spec that was accepted can be handed to agents without a nil dereference: every pointer field
  \<open>ToJobOptions\<close> reads has been given a default, defaulting a second time changes nothing, and the
  only ways left to fail are the two strings \<open>Validate\<close> does not look at and the encoder.
\<close>

theorem accepted_spec_options:
  assumes "ParseSpec yaml data = Inr s"
  shows "ApplyDefaults s = s \<and>
    (case ToJobOptions marshal oor s jobID dryRun of
       Inr opts \<Rightarrow> oSrcRoot opts = SourcePath s \<and> oDstRoot opts = DestinationPath s \<and> oDryRun opts = dryRun
     | Inl e \<Rightarrow> e \<in> {BadServerSideCopy, BadUntranslatable, MarshalFailed})"
proof -
  obtain s0 where s: "s = ApplyDefaults s0" "Validate s = None" using ParseSpec_InrD [OF assms] by blast
  have "OnDestNewer (Copy s) = ''skip'' \<or> OnDestNewer (Copy s) = ''overwrite''"
    using s(2) by (auto simp: Validate_def validateModes_def split: option.splits if_splits)
  then have "\<exists>c. conflictOption (OnDestNewer (Copy s)) = Some c" by (auto simp: conflictOption_def)
  then show ?thesis using s(1) ApplyDefaults_idem [of s0] derefs_ApplyDefaults [of s0]
    by (auto simp: ToJobOptions_def Let_def split: option.splits)
qed

theorem accepted_spec_options_witness:
  "ParseSpec (\<lambda>_. Some (sample_spec '''')) [] = Inr (ApplyDefaults (sample_spec '''')) \<and>
   ApplyDefaults (ApplyDefaults (sample_spec '''')) = ApplyDefaults (sample_spec '''')"
  using accepted_spec_options [OF ParseSpec_sample [of "''''" "[]"], where marshal = "\<lambda>_. Some []" and oor = "\<lambda>_. 0" and jobID = 1 and dryRun = False] ParseSpec_sample
  by blast

text \<open>
  A misspelt \<open>copy.server_side_copy\<close> is accepted when the job is created and only found when a
  grant translates the spec: such a spec parses, and \<open>ToJobOptions\<close> refuses it.
\<close>

theorem server_side_copy_unchecked:
  "ParseSpec (\<lambda>_. Some (sample_spec ''maybe'')) data = Inr (ApplyDefaults (sample_spec ''maybe'')) \<and>
   ToJobOptions marshal oor (ApplyDefaults (sample_spec ''maybe'')) jobID dryRun = Inl BadServerSideCopy"
proof -
  have "ServerSideCopy (Copy (ApplyDefaults (sample_spec ''maybe''))) = ''maybe''"
    by (simp add: ApplyDefaults_def section_defaults_defs sample_spec_def ifZero_def)
  then show ?thesis using ParseSpec_sample derefs_ApplyDefaults [of "sample_spec ''maybe''"]
    by (simp add: ToJobOptions_def sscOption_def)
qed

end
