(* ===== verification/Proto.thy ===== *)
theory Proto
  imports Spec
begin

text \<open>
  The wire messages the coordinator builds and reads, field for field as the generated structs of
  \<open>proto/gen/drsyncpb/drsync.pb.go\<close> declare them (\<open>proto/drsync.proto\<close>). A \<open>bytes\<close> path and a
  \<open>string\<close> path are both Go byte strings and have the type \<open>path\<close>; a nil message pointer is \<open>None\<close>.

  Marshalling is the protobuf runtime's. A \<open>codec\<close> is what the coordinator uses of it for one
  message type; \<open>codec_ok\<close> is the runtime's promise that a marshalled message unmarshals to itself.
\<close>

record 'm codec =
  marshal :: "'m \<Rightarrow> bytes option"
  unmarshal :: "bytes \<Rightarrow> 'm option"

definition codec_ok :: "'m codec \<Rightarrow> bool" where
  "codec_ok c \<longleftrightarrow> (\<forall>m b. marshal c m = Some b \<longrightarrow> unmarshal c b = Some m)"

lemma codec_okD: "codec_ok c \<Longrightarrow> marshal c m = Some b \<Longrightarrow> unmarshal c b = Some m"
  by (simp add: codec_ok_def)

section \<open>Work items\<close>

record FileGen =
  fg_Size :: u64
  fg_MtimeNs :: int

record WalkOverrides =
  WalkBudget :: "u64 option"
  SplitThreshold :: "u64 option"

record Shard =
  sh_ShardId :: u64
  sh_JobId :: u64
  sh_PassNo :: u32
  sh_RelPath :: path
  sh_Overrides :: "WalkOverrides option"

record EntryListShard =
  el_ShardId :: u64
  el_JobId :: u64
  el_PassNo :: u32
  el_DirRel :: path
  el_Names :: "path list"
  el_Overrides :: "WalkOverrides option"

record ChunkTask =
  ct_TaskId :: u64
  ct_JobId :: u64
  ct_PassNo :: u32
  ct_RelPath :: path
  ct_Offset :: u64
  ct_Length :: u64
  ct_Gen :: "FileGen option"
  ct_CreateTemp :: bool
  ct_TempName :: string
  ct_Finalize :: bool
  ct_Reclaim :: bool

record DirMeta =
  dm_RelPath :: path
  dm_Uid :: u32
  dm_Gid :: u32
  dm_Mode :: u32
  dm_AtimeNs :: int
  dm_MtimeNs :: int

record DirFixBatch =
  df_TaskId :: u64
  df_JobId :: u64
  df_PassNo :: u32
  df_Dirs :: "DirMeta list"

record VerifyEntry =
  ve_RelPath :: path
  ve_Checksum :: bool

record VerifyBatch =
  vb_TaskId :: u64
  vb_JobId :: u64
  vb_PassNo :: u32
  vb_Entries :: "VerifyEntry list"

record DeleteBatch =
  db_TaskId :: u64
  db_JobId :: u64
  db_PassNo :: u32
  db_RelPaths :: "path list"

record ProbeTask =
  pt_TaskId :: u64
  pt_JobId :: u64

record LinkEntry =
  le_AnchorRel :: path
  le_MemberRel :: path
  le_AnchorGen :: "FileGen option"

record LinkTaskBatch =
  lt_TaskId :: u64
  lt_JobId :: u64
  lt_PassNo :: u32
  lt_Links :: "LinkEntry list"

datatype item =
    WorkItem_Shard Shard
  | WorkItem_EntryList EntryListShard
  | WorkItem_Chunk ChunkTask
  | WorkItem_Dirfix DirFixBatch
  | WorkItem_Verify VerifyBatch
  | WorkItem_Delete DeleteBatch
  | WorkItem_Probe ProbeTask
  | WorkItem_LinkBatch LinkTaskBatch

record WorkItem =
  wi_LeaseId :: u64
  wi_LeaseTtlS :: u32
  wi_Item :: item

record CachedOptions =
  co_JobId :: u64
  co_OptionsHash :: u64

record WorkRequest =
  wr_ShardCredits :: u32
  wr_TaskCredits :: u32
  wr_Cached :: "CachedOptions list"

record WorkGrant =
  wg_Items :: "WorkItem list"
  wg_Options :: "JobOptions list"

text \<open>A message whose fields are all unset.\<close>

definition empty_ChunkTask :: ChunkTask where
  "empty_ChunkTask = \<lparr>ct_TaskId = 0, ct_JobId = 0, ct_PassNo = 0, ct_RelPath = '''', ct_Offset = 0, ct_Length = 0,
     ct_Gen = None, ct_CreateTemp = False, ct_TempName = '''', ct_Finalize = False, ct_Reclaim = False\<rparr>"

definition DeleteBatch_of :: "path list \<Rightarrow> DeleteBatch" where
  "DeleteBatch_of rels = \<lparr>db_TaskId = 0, db_JobId = 0, db_PassNo = 0, db_RelPaths = rels\<rparr>"

section \<open>Journal messages\<close>

text \<open>Protobuf enums are open: a number the schema does not name is kept as it is.\<close>

datatype JournalType =
    JR_UNSPECIFIED | JR_COPIED | JR_META_FIXED | JR_SKIPPED_CLEAN | JR_ORPHAN | JR_DIR_META | JR_ERROR
  | JR_FIDELITY_EXCEPTION | JR_NLINK_DUP | JR_VERIFY_OK | JR_VERIFY_FAIL | JR_WOULD_COPY | JR_WOULD_DELETE
  | JR_DELETED | JR_SRC_CHANGED | JR_LINK_CREATED | JR_LINK_FALLBACK | JR_SKIPPED_NEWER
  | JR_OTHER int

record StatInfo =
  si_Type :: int
  si_Mode :: u32
  si_Uid :: u32
  si_Gid :: u32
  si_Size :: u64
  si_AtimeNs :: int
  si_MtimeNs :: int
  si_CtimeNs :: int
  si_Dev :: u64
  si_Ino :: u64
  si_Nlink :: u32
  si_RdevMajor :: u32
  si_RdevMinor :: u32
  si_Blocks :: u64

record JournalRecord =
  jr_Type :: JournalType
  jr_RelPath :: path
  jr_TsNs :: int
  jr_Src :: "StatInfo option"
  jr_Dst :: "StatInfo option"
  jr_Xxh3Lo :: u64
  jr_Xxh3Hi :: u64
  jr_Errno :: int
  jr_Detail :: string

record JournalBatch =
  jb_Seq :: u64
  jb_JobId :: u64
  jb_PassNo :: u32
  jb_RecordCount :: u32
  jb_RecordsZstd :: bytes

section \<open>Splits and results\<close>

record BigFile =
  bf_RelPath :: path
  bf_Size :: u64
  bf_MtimeNs :: int

record LinkSighting =
  ls_Dev :: u64
  ls_Ino :: u64
  ls_RelPath :: path
  ls_Nlink :: u32
  ls_Size :: u64
  ls_MtimeNs :: int

record DeleteRemainder =
  dr_DirRel :: path
  dr_Names :: "path list"
  dr_TotalChildren :: u32

record ShardSplit =
  sp_ParentShardId :: u64
  sp_Seq :: u64
  sp_Subdirs :: "path list"
  sp_EntryLists :: "(path \<times> path list) list"
  sp_BigFiles :: "BigFile list"
  sp_LinkSightings :: "LinkSighting list"
  sp_DeleteRemainders :: "DeleteRemainder list"
  sp_DeleteSubdirs :: "path list"

record ShardSplitAck =
  sa_ParentShardId :: u64
  sa_Seq :: u64
  sa_AssignedShardIds :: "u64 list"

datatype ResultStatus =
    RESULT_UNSPECIFIED | RESULT_OK | RESULT_ERROR | RESULT_TRANSIENT | RESULT_MOUNT_SICK
  | RESULT_SRC_CHANGED | RESULT_RELEASED | RESULT_OTHER int

section \<open>Payload codecs\<close>

text \<open>
  The runtime's coding of the payload column, one codec per message the coordinator stores there;
  \<open>unmarshalText\<close> is the text of the runtime's error on bytes it cannot decode.
\<close>

record payload_codecs =
  pc_EntryList :: "EntryListShard codec"
  pc_Chunk :: "ChunkTask codec"
  pc_Dirfix :: "DirFixBatch codec"
  pc_Verify :: "VerifyBatch codec"
  pc_Delete :: "DeleteBatch codec"
  pc_LinkBatch :: "LinkTaskBatch codec"
  unmarshalText :: "bytes \<Rightarrow> string"

end
