(* ===== verification/Gofmt.thy ===== *)
theory Gofmt
  imports Prelude
begin

text \<open>
  The formatting the coordinator uses to build names out of numbers (Go's \<open>fmt.Sprintf\<close> with the
  verbs \<open>%d\<close>, \<open>%x\<close> and \<open>%06d\<close>), and the facts that make such names keys: a number can be read
  back from its digits, and the digits never contain the separators placed between them.
\<close>

definition digit :: "nat \<Rightarrow> char" where
  "digit n = ''0123456789abcdef'' ! (n mod 16)"

function fmt_nat :: "nat \<Rightarrow> nat \<Rightarrow> string" where
  "fmt_nat b n = (if n < b \<or> b < 2 then [digit n] else fmt_nat b (n div b) @ [digit (n mod b)])"
  by pat_completeness auto
termination by (relation "measure snd") auto

declare fmt_nat.simps [simp del]

definition fmt_int :: "nat \<Rightarrow> int \<Rightarrow> string" where
  "fmt_int b i = (if i < 0 then ''-'' @ fmt_nat b (nat (- i)) else fmt_nat b (nat i))"

abbreviation fmt_d :: "int \<Rightarrow> string" where "fmt_d \<equiv> fmt_int 10"
abbreviation fmt_x :: "int \<Rightarrow> string" where "fmt_x \<equiv> fmt_int 16"

definition fmt_06d :: "nat \<Rightarrow> string" where
  "fmt_06d n = replicate (6 - length (fmt_nat 10 n)) (CHR ''0'') @ fmt_nat 10 n"

text \<open>The value of a string of digits.\<close>

definition digit_val :: "char \<Rightarrow> nat" where
  "digit_val c = (let k = of_char c in if 48 \<le> k \<and> k < 58 then k - 48 else k - (87::nat))"

definition digits_val :: "nat \<Rightarrow> string \<Rightarrow> nat" where
  "digits_val b s = foldl (\<lambda>v c. v * b + digit_val c) 0 s"

definition hex_chars :: "char set" where
  "hex_chars = set ''0123456789abcdef''"

lemma digit_in [simp]: "digit n \<in> hex_chars"
  unfolding digit_def hex_chars_def by (rule nth_mem) simp

lemma digit_val_digit: "n < 16 \<Longrightarrow> digit_val (digit n) = n"
proof -
  assume "n < 16"
  then have "n \<in> set [0..<16]" by simp
  moreover have "\<forall>n \<in> set [0..<16]. digit_val (digit n) = n" by code_simp
  ultimately show ?thesis by blast
qed

lemma digits_val_snoc [simp]: "digits_val b (s @ [c]) = digits_val b s * b + digit_val c"
  by (simp add: digits_val_def)

lemma digits_val_fmt:
  assumes "2 \<le> b" "b \<le> 16"
  shows "digits_val b (fmt_nat b n) = n"
proof (induction n rule: less_induct)
  case (less n)
  show ?case
  proof (cases "n < b")
    case True
    then show ?thesis using assms digit_val_digit [of n] digits_val_snoc [of b "[]" "digit n"]
      by (simp add: fmt_nat.simps [of b n] digits_val_def)
  next
    case False
    then have "n div b < n" using assms by (intro div_less_dividend) auto
    then have "digits_val b (fmt_nat b (n div b)) = n div b" by (rule less.IH)
    moreover have "digit_val (digit (n mod b)) = n mod b"
      using assms mod_less_divisor [of b n] by (intro digit_val_digit) linarith
    ultimately show ?thesis using False assms by (subst fmt_nat.simps) simp
  qed
qed

lemma fmt_nat_chars: "set (fmt_nat b n) \<subseteq> hex_chars"
proof (induction b n rule: fmt_nat.induct)
  case (1 b n)
  then show ?case by (subst fmt_nat.simps) auto
qed

lemma fmt_nat_nonempty [simp]: "fmt_nat b n \<noteq> []"
  by (subst fmt_nat.simps) simp

lemma fmt_nat_inj: "2 \<le> b \<Longrightarrow> b \<le> 16 \<Longrightarrow> fmt_nat b m = fmt_nat b n \<Longrightarrow> m = n"
  by (metis digits_val_fmt)

lemma minus_not_hex: "CHR ''-'' \<notin> hex_chars"
  by (simp add: hex_chars_def)

lemma fmt_nat_no_minus: "fmt_nat b n \<noteq> CHR ''-'' # s"
  using fmt_nat_chars [of b n] minus_not_hex by auto

lemma fmt_int_inj:
  assumes "2 \<le> b" "b \<le> 16" "fmt_int b i = fmt_int b j"
  shows "i = j"
proof -
  have "fmt_nat b m \<noteq> CHR ''-'' # fmt_nat b n" "CHR ''-'' # fmt_nat b n \<noteq> fmt_nat b m" for m n
    using fmt_nat_no_minus by metis+
  then show ?thesis using assms(3) fmt_nat_inj [OF assms(1,2)]
    by (auto simp: fmt_int_def split: if_splits dest!: fmt_nat_inj [OF assms(1,2)])
qed

lemma fmt_int_chars: "set (fmt_int b i) \<subseteq> insert (CHR ''-'') hex_chars"
  using fmt_nat_chars by (auto simp: fmt_int_def)

text \<open>Reading up to a separator: a field without the separator is recovered from what it is joined to.\<close>

lemma field_inj:
  "c \<notin> set s \<Longrightarrow> c \<notin> set t \<Longrightarrow> s @ c # u = t @ c # v \<Longrightarrow> s = t \<and> u = v"
proof (induction s arbitrary: t)
  case Nil
  then show ?case by (cases t) auto
next
  case (Cons x s)
  then show ?case by (cases t) auto
qed

lemma fmt_int_no_sep: "c \<notin> insert (CHR ''-'') hex_chars \<Longrightarrow> c \<notin> set (fmt_int b i)"
  using fmt_int_chars by blast

lemma fmt_int_no_minus: "0 \<le> i \<Longrightarrow> CHR ''-'' \<notin> set (fmt_int b i)"
  using fmt_nat_chars minus_not_hex by (auto simp: fmt_int_def)

section \<open>Zero-padded decimals sort like the numbers\<close>

definition dec_chars :: "char set" where
  "dec_chars = set ''0123456789''"

lemma dec_digit: "n < 10 \<Longrightarrow> digit n \<in> dec_chars"
proof -
  assume "n < 10"
  then have "n \<in> set [0..<10]" by simp
  moreover have "\<forall>n \<in> set [0..<10]. digit n \<in> set ''0123456789''" by code_simp
  ultimately show ?thesis by (auto simp: dec_chars_def)
qed

lemma fmt_nat_dec: "set (fmt_nat 10 n) \<subseteq> dec_chars"
proof (induction n rule: less_induct)
  case (less n)
  then show ?case by (subst fmt_nat.simps) (auto intro: dec_digit)
qed

lemma dec_char_less:
  assumes "c \<in> dec_chars" "d \<in> dec_chars"
  shows "digit_val c < digit_val d \<longleftrightarrow> c < d" "digit_val c = digit_val d \<longleftrightarrow> c = d" "digit_val c < 10"
proof -
  have "\<forall>c \<in> set ''0123456789''. digit_val c < 10 \<and> (\<forall>d \<in> set ''0123456789''.
      (digit_val c < digit_val d \<longleftrightarrow> c < d) \<and> (digit_val c = digit_val d \<longleftrightarrow> c = d))" by code_simp
  then show "digit_val c < digit_val d \<longleftrightarrow> c < d" "digit_val c = digit_val d \<longleftrightarrow> c = d" "digit_val c < 10"
    using assms unfolding dec_chars_def by blast+
qed

lemma digits_val_foldl: "foldl (\<lambda>v c. v * b + digit_val c) v s = v * b ^ length s + digits_val b s"
proof (induction s rule: rev_induct)
  case Nil
  then show ?case by (simp add: digits_val_def)
next
  case (snoc c s)
  then show ?case by (simp add: digits_val_def algebra_simps)
qed

lemma digits_val_Cons: "digits_val b (c # s) = digit_val c * b ^ length s + digits_val b s"
  using digits_val_foldl [of b "digit_val c" s] by (simp add: digits_val_def)

lemma digits_val_less: "set s \<subseteq> dec_chars \<Longrightarrow> digits_val 10 s < 10 ^ length s"
proof (induction s)
  case Nil
  then show ?case by (simp add: digits_val_def)
next
  case (Cons c s)
  have "digit_val c \<le> 9" using dec_char_less(3) [of c c] Cons.prems by simp
  then have "digit_val c * 10 ^ length s \<le> 9 * 10 ^ length s" by (rule mult_le_mono1)
  moreover have "digits_val 10 s < 10 ^ length s" using Cons by simp
  ultimately have "digit_val c * 10 ^ length s + digits_val 10 s < 9 * 10 ^ length s + 10 ^ length s" by (rule add_le_less_mono)
  then show ?case by (simp add: digits_val_Cons)
qed

lemma digits_lex:
  "length s = length t \<Longrightarrow> set s \<subseteq> dec_chars \<Longrightarrow> set t \<subseteq> dec_chars \<Longrightarrow>
   digits_val 10 s < digits_val 10 t \<Longrightarrow> s < t"
proof (induction s t rule: list_induct2)
  case (Cons c s d t)
  note D = dec_char_less [of c d]
  show ?case
  proof (cases "c = d")
    case True
    then show ?thesis using Cons by (simp add: digits_val_Cons)
  next
    case False
    have "digit_val c < digit_val d"
    proof (rule ccontr)
      assume "\<not> digit_val c < digit_val d"
      then have "digit_val d + 1 \<le> digit_val c" using D False Cons.prems by fastforce
      then have "(digit_val d + 1) * 10 ^ length s \<le> digit_val c * 10 ^ length s" by (rule mult_le_mono1)
      then show False using Cons.prems(3) Cons.hyps digits_val_less [of t] Cons.prems(2) by (simp add: digits_val_Cons)
    qed
    then show ?thesis using D Cons.prems by simp
  qed
qed (simp add: digits_val_def)

lemma length_fmt_nat: "n < 10 ^ Suc k \<Longrightarrow> length (fmt_nat 10 n) \<le> Suc k"
proof (induction k arbitrary: n)
  case 0
  then show ?case by (subst fmt_nat.simps) simp
next
  case (Suc k)
  have "n div 10 < 10 ^ Suc k" using Suc.prems by (simp add: less_mult_imp_div_less mult.commute)
  then show ?case using Suc.IH [of "n div 10"] by (subst fmt_nat.simps) auto
qed

lemma digits_val_zeros: "digits_val b (replicate k (CHR ''0'') @ s) = digits_val b s"
proof (induction k)
  case (Suc k)
  have "digit_val (CHR ''0'') = 0" by code_simp
  with Suc show ?case by (simp add: digits_val_Cons)
qed simp

lemma fmt_06d_lex: "m < n \<Longrightarrow> n < 10 ^ 6 \<Longrightarrow> fmt_06d m < fmt_06d n"
proof (rule digits_lex)
  assume a: "m < n" "n < 10 ^ 6"
  then have "length (fmt_nat 10 m) \<le> 6" "length (fmt_nat 10 n) \<le> 6"
    using length_fmt_nat [of m 5] length_fmt_nat [of n 5] by auto
  then show "length (fmt_06d m) = length (fmt_06d n)" by (simp add: fmt_06d_def)
  show "digits_val 10 (fmt_06d m) < digits_val 10 (fmt_06d n)"
    using a by (simp add: fmt_06d_def digits_val_zeros digits_val_fmt)
  have "CHR ''0'' \<in> dec_chars" by (simp add: dec_chars_def)
  then show "set (fmt_06d m) \<subseteq> dec_chars" "set (fmt_06d n) \<subseteq> dec_chars"
    using fmt_nat_dec by (auto simp: fmt_06d_def)
qed

lemma append_less_append: "(xs :: string) @ ys < xs @ zs \<longleftrightarrow> ys < zs"
  by (induction xs) auto

lemma less_append_same: "length (xs :: string) = length ys \<Longrightarrow> xs < ys \<Longrightarrow> xs @ zs < ys @ zs"
  by (induction xs ys rule: list_induct2) auto

end
