(* ===== verification/Wire.thy ===== *)
theory Wire
  imports Prelude
begin

text \<open>
  The frame codec of the agent connection (\<open>coordinator/internal/wire/frame.go\<close>): a frame is a
  little-endian \<open>u32\<close> payload length, a little-endian \<open>u16\<close> frame type and the payload.

  \<open>WriteFrame\<close> returns the bytes it appends to the stream, \<open>ReadFrame\<close> takes one frame off the
  front of what the stream still holds. Marshalling the message is a parameter. \<open>read_loop\<close> is
  the loop of the session handler that reads frames until the stream fails.
\<close>

unbundle bit_operations_syntax

section \<open>Little-endian integers (encoding/binary)\<close>

definition PutUint32 :: "32 word \<Rightarrow> bytes" where
  "PutUint32 v = [ucast v, ucast (drop_bit 8 v), ucast (drop_bit 16 v), ucast (drop_bit 24 v)]"

fun Uint32 :: "bytes \<Rightarrow> 32 word" where
  "Uint32 (b0 # b1 # b2 # b3 # _) =
     ucast b0 OR push_bit 8 (ucast b1) OR push_bit 16 (ucast b2) OR push_bit 24 (ucast b3)"
| "Uint32 _ = 0"

definition PutUint16 :: "16 word \<Rightarrow> bytes" where
  "PutUint16 v = [ucast v, ucast (drop_bit 8 v)]"

fun Uint16 :: "bytes \<Rightarrow> 16 word" where
  "Uint16 (b0 # b1 # _) = ucast b0 OR push_bit 8 (ucast b1)"
| "Uint16 _ = 0"

lemma length_Put [simp]: "length (PutUint32 v) = 4" "length (PutUint16 w) = 2"
  by (simp_all add: PutUint32_def PutUint16_def)

lemma Uint32_Put [simp]: "Uint32 (PutUint32 v @ rest) = v"
proof -
  have "(ucast (ucast v :: byte) :: 32 word) OR push_bit 8 (ucast (ucast (drop_bit 8 v) :: byte))
      OR push_bit 16 (ucast (ucast (drop_bit 16 v) :: byte))
      OR push_bit 24 (ucast (ucast (drop_bit 24 v) :: byte)) = v"
  proof (rule bit_word_eqI)
    fix n assume "n < LENGTH(32)"
    then consider "n < 8" | "8 \<le> n" "n < 16" | "16 \<le> n" "n < 24" | "24 \<le> n" "n < 32" by force
    then show "bit ((ucast (ucast v :: byte) :: 32 word)
        OR push_bit 8 (ucast (ucast (drop_bit 8 v) :: byte))
        OR push_bit 16 (ucast (ucast (drop_bit 16 v) :: byte))
        OR push_bit 24 (ucast (ucast (drop_bit 24 v) :: byte))) n = bit v n"
      by cases (auto simp: bit_simps)
  qed
  then show ?thesis by (simp add: PutUint32_def)
qed

lemma Uint16_Put [simp]: "Uint16 (PutUint16 v @ rest) = v"
proof -
  have "(ucast (ucast v :: byte) :: 16 word) OR push_bit 8 (ucast (ucast (drop_bit 8 v) :: byte)) = v"
  proof (rule bit_word_eqI)
    fix n assume "n < LENGTH(16)"
    then consider "n < 8" | "8 \<le> n" "n < 16" by force
    then show "bit ((ucast (ucast v :: byte) :: 16 word)
        OR push_bit 8 (ucast (ucast (drop_bit 8 v) :: byte))) n = bit v n"
      by cases (auto simp: bit_simps)
  qed
  then show ?thesis by (simp add: PutUint16_def)
qed

lemma Uint32_Put_Nil [simp]: "Uint32 (PutUint32 v) = v"
  using Uint32_Put [of v "[]"] by simp

lemma Uint16_Put_Nil [simp]: "Uint16 (PutUint16 v) = v"
  using Uint16_Put [of v "[]"] by simp

section \<open>Frames\<close>

definition MaxFrameLen :: nat where
  "MaxFrameLen = 16 * 2 ^ 20"

definition headerLen :: nat where
  "headerLen = 6"

type_synonym FrameType = "32 word"

datatype wire_error = MarshalError FrameType | FrameTooLong FrameType nat
  | EOF | UnexpectedEOF | ShortFrame FrameType

text \<open>\<open>io.ReadFull\<close>: nothing read is \<open>EOF\<close>, something but not enough is \<open>UnexpectedEOF\<close>.\<close>

definition ReadFull :: "nat \<Rightarrow> bytes \<Rightarrow> wire_error + bytes \<times> bytes" where
  "ReadFull n r =
     (if n \<le> length r then Inr (take n r, drop n r)
      else if r = [] then Inl EOF else Inl UnexpectedEOF)"

definition WriteFrame :: "('m \<Rightarrow> bytes option) \<Rightarrow> FrameType \<Rightarrow> 'm \<Rightarrow> wire_error + bytes" where
  "WriteFrame marshal ft msg =
     (case marshal msg of
        None \<Rightarrow> Inl (MarshalError ft)
      | Some payload \<Rightarrow>
          if length payload > MaxFrameLen then Inl (FrameTooLong ft (length payload))
          else Inr (PutUint32 (of_nat (length payload)) @ PutUint16 (ucast ft) @ payload))"

definition ReadFrame :: "bytes \<Rightarrow> wire_error + (FrameType \<times> bytes) \<times> bytes" where
  "ReadFrame r =
     (case ReadFull headerLen r of
        Inl e \<Rightarrow> Inl e
      | Inr (hdr, r') \<Rightarrow>
          let n = unat (Uint32 (take 4 hdr)); ft = ucast (Uint16 (drop 4 hdr))
          in if n > MaxFrameLen then Inl (FrameTooLong ft n)
             else case ReadFull n r' of
                    Inl _ \<Rightarrow> Inl (ShortFrame ft)
                  | Inr (payload, r'') \<Rightarrow> Inr ((ft, payload), r''))"

text \<open>The bytes of one frame, as \<open>WriteFrame\<close> lays them out.\<close>

definition frame_bytes :: "FrameType \<times> bytes \<Rightarrow> bytes" where
  "frame_bytes f = PutUint32 (of_nat (length (snd f))) @ PutUint16 (ucast (fst f)) @ snd f"

definition frame_ok :: "FrameType \<times> bytes \<Rightarrow> bool" where
  "frame_ok f \<longleftrightarrow> unat (fst f) < 2 ^ 16 \<and> length (snd f) \<le> MaxFrameLen"

lemma MaxFrameLen_less: "MaxFrameLen < 2 ^ 32"
  by (simp add: MaxFrameLen_def)

lemma unat_len: "n \<le> MaxFrameLen \<Longrightarrow> unat (of_nat n :: 32 word) = n"
  by (simp add: unat_of_nat MaxFrameLen_def)

lemma ft_u16: "unat (ft :: FrameType) < 2 ^ 16 \<Longrightarrow> (ucast (ucast ft :: 16 word) :: FrameType) = ft"
proof -
  assume "unat ft < 2 ^ 16"
  then have "take_bit 16 (unat ft) = unat ft" by (simp add: take_bit_nat_eq_self)
  then have "unat (ucast (ucast ft :: 16 word) :: FrameType) = unat ft"
    by (simp add: unsigned_ucast_eq unsigned_take_bit_eq)
  then show ?thesis by (simp add: word_unat_eq_iff)
qed

lemma WriteFrame_Inr:
  "WriteFrame marshal ft msg = Inr bs \<longleftrightarrow>
     (\<exists>p. marshal msg = Some p \<and> length p \<le> MaxFrameLen \<and> bs = frame_bytes (ft, p))"
  by (auto simp: WriteFrame_def frame_bytes_def split: option.splits)

lemma ReadFrame_short:
  "length r < headerLen \<Longrightarrow> ReadFrame r = Inl (if r = [] then EOF else UnexpectedEOF)"
  by (simp add: ReadFrame_def ReadFull_def)

lemma ReadFrame_header:
  assumes "unat ft < 2 ^ 16" "n \<le> MaxFrameLen"
  shows "ReadFrame (PutUint32 (of_nat n) @ PutUint16 (ucast ft) @ r) =
           (if n \<le> length r then Inr ((ft, take n r), drop n r) else Inl (ShortFrame ft))"
  using assms
  by (simp add: ReadFrame_def ReadFull_def headerLen_def Let_def unat_len ft_u16)

lemma ReadFrame_frame_bytes:
  "frame_ok f \<Longrightarrow> ReadFrame (frame_bytes f @ rest) = Inr (f, rest)"
  by (cases f) (simp add: frame_ok_def frame_bytes_def ReadFrame_header)

lemma ReadFrame_shorter: "ReadFrame r = Inr (f, rest) \<Longrightarrow> length rest < length r"
  by (auto simp: ReadFrame_def ReadFull_def headerLen_def Let_def split: if_splits sum.splits prod.splits)

interpretation frame: prefix_codec frame_bytes
    "\<lambda>r. case ReadFrame r of Inl _ \<Rightarrow> None | Inr v \<Rightarrow> Some v" frame_ok
proof unfold_locales
  show "frame_ok x \<Longrightarrow>
      (case ReadFrame (frame_bytes x @ rest) of Inl _ \<Rightarrow> None | Inr v \<Rightarrow> Some v) = Some (x, rest)" for x rest
    by (simp add: ReadFrame_frame_bytes)
  show "frame_ok x \<Longrightarrow> frame_bytes x \<noteq> []" for x
    by (auto simp: frame_bytes_def PutUint32_def)
  show "(case ReadFrame bs of Inl _ \<Rightarrow> None | Inr v \<Rightarrow> Some v) = Some (x, rest) \<Longrightarrow>
      length rest < length bs" for bs x rest
    by (auto split: sum.splits dest: ReadFrame_shorter)
qed

section \<open>The session's read loop\<close>

function read_loop :: "bytes \<Rightarrow> (FrameType \<times> bytes) list \<times> wire_error" where
  "read_loop r =
     (case ReadFrame r of
        Inl e \<Rightarrow> ([], e)
      | Inr (f, r') \<Rightarrow> let (fs, e) = read_loop r' in (f # fs, e))"
  by pat_completeness auto
termination
  by (relation "measure length") (auto dest: ReadFrame_shorter)

declare read_loop.simps [simp del]

lemma read_loop_frame:
  "frame_ok f \<Longrightarrow> read_loop (frame_bytes f @ r) = (f # fst (read_loop r), snd (read_loop r))"
  by (subst read_loop.simps) (simp add: ReadFrame_frame_bytes split: prod.splits)

lemma read_loop_frames:
  "(\<forall>f \<in> set fs. frame_ok f) \<Longrightarrow>
   read_loop (concat (map frame_bytes fs) @ r) = (fs @ fst (read_loop r), snd (read_loop r))"
  by (induction fs) (auto simp: read_loop_frame)

text \<open>A strict prefix of a frame is not read as a frame.\<close>

lemma ReadFrame_torn:
  assumes ok: "frame_ok f" and p: "strict_prefix p (frame_bytes f)"
  shows "\<exists>e. ReadFrame p = Inl e"
proof (cases "length p < headerLen")
  case True
  then show ?thesis by (simp add: ReadFrame_short)
next
  case False
  let ?h = "PutUint32 (of_nat (length (snd f))) @ PutUint16 (ucast (fst f))"
  have fb: "frame_bytes f = ?h @ snd f" by (simp add: frame_bytes_def)
  have lh: "length ?h = headerLen" by (simp add: headerLen_def)
  obtain q where q: "frame_bytes f = p @ q" "q \<noteq> []" using p by (auto simp: strict_prefix_def prefix_def)
  have "take headerLen p = ?h"
  proof -
    have "take headerLen (frame_bytes f) = ?h" unfolding fb using lh by simp
    moreover have "take headerLen (frame_bytes f) = take headerLen p" using q False by simp
    ultimately show ?thesis by simp
  qed
  then have ph: "p = ?h @ drop headerLen p" by (metis append_take_drop_id)
  have "length p < headerLen + length (snd f)"
    using arg_cong [OF q(1), of length] q(2) lh unfolding fb by (cases q) auto
  then have "length (drop headerLen p) < length (snd f)" using False by simp
  then have "ReadFrame (?h @ drop headerLen p) = Inl (ShortFrame (fst f))"
    using ok by (simp add: frame_ok_def ReadFrame_header)
  then show ?thesis using ph by metis
qed

lemma read_loop_error: "ReadFrame p = Inl e \<Longrightarrow> read_loop p = ([], e)"
  by (subst read_loop.simps) simp

lemma read_loop_prefix:
  "(\<forall>f \<in> set fs. frame_ok f) \<Longrightarrow> prefix p (concat (map frame_bytes fs)) \<Longrightarrow>
   prefix (fst (read_loop p)) fs"
proof (induction fs arbitrary: p)
  case Nil
  then show ?case by (simp add: read_loop_error ReadFrame_short headerLen_def)
next
  case (Cons f fs)
  then have ok: "frame_ok f" by simp
  from Cons.prems(2) have "prefix p (frame_bytes f @ concat (map frame_bytes fs))" by simp
  then have "prefix p (frame_bytes f) \<or>
      (\<exists>r. p = frame_bytes f @ r \<and> prefix r (concat (map frame_bytes fs)))"
    by (simp only: prefix_append)
  then consider "strict_prefix p (frame_bytes f)"
    | r where "p = frame_bytes f @ r" "prefix r (concat (map frame_bytes fs))"
    by (metis append_Nil2 Nil_prefix strict_prefix_def)
  then show ?case
  proof cases
    case 1
    then obtain e where "ReadFrame p = Inl e" using ReadFrame_torn [OF ok] by blast
    then show ?thesis by (simp add: read_loop_error)
  next
    case 2
    with Cons.IH Cons.prems(1) have "prefix (fst (read_loop r)) fs" by simp
    then show ?thesis using 2 by (simp add: read_loop_frame [OF ok])
  qed
qed

section \<open>Properties\<close>

text \<open>
  What \<open>WriteFrame\<close> writes, \<open>ReadFrame\<close> reads back: for every message that fits in a frame and
  every frame type that fits in the header's 16 bits, reading the written bytes followed by anything
  gives the type, the payload and the rest.
\<close>

theorem WriteFrame_ReadFrame:
  assumes "WriteFrame marshal ft msg = Inr bs" "unat ft < 2 ^ 16"
  shows "\<exists>payload. marshal msg = Some payload \<and> ReadFrame (bs @ rest) = Inr ((ft, payload), rest)"
  using assms ReadFrame_frame_bytes by (fastforce simp: WriteFrame_Inr frame_ok_def)

theorem WriteFrame_ReadFrame_witness:
  "WriteFrame Some 7 [1, 2, 3] = Inr [3, 0, 0, 0, 7, 0, 1, 2, 3] \<and>
   ReadFrame [3, 0, 0, 0, 7, 0, 1, 2, 3, 9] = Inr ((7, [1, 2, 3]), [9])"
proof -
  have w: "WriteFrame Some 7 [1, 2, 3] = Inr [3, 0, 0, 0, 7, 0, 1, 2, 3]"
    by (simp add: WriteFrame_def MaxFrameLen_def PutUint32_def PutUint16_def)
  have "unat (7 :: FrameType) < 2 ^ 16" by simp
  from WriteFrame_ReadFrame [OF w this, of "[9]"] w show ?thesis by simp
qed

text \<open>
  A stream cut anywhere is read as a prefix of the frames that were sent, never as anything
  else: the session's read loop on any prefix of the bytes of a list of frames returns the first few
  of those frames, and all of them when nothing is missing.
\<close>

theorem read_loop_torn_stream:
  assumes "\<forall>f \<in> set frames. frame_ok f"
  shows "read_loop (concat (map frame_bytes frames)) = (frames, EOF) \<and>
    (\<forall>p. prefix p (concat (map frame_bytes frames)) \<longrightarrow> prefix (fst (read_loop p)) frames)"
proof -
  have "read_loop [] = ([], EOF)" by (simp add: read_loop_error ReadFrame_short headerLen_def)
  then show ?thesis using read_loop_frames [OF assms, of "[]"] read_loop_prefix [OF assms] by simp
qed

theorem read_loop_torn_stream_witness:
  "frame_ok (7, [1]) \<and> fst (read_loop (frame_bytes (7, [1]) @ take 5 (frame_bytes (7, [1])))) = [(7, [1])] \<and>
   prefix (fst (read_loop (frame_bytes (7, [1]) @ take 5 (frame_bytes (7, [1]))))) [(7, [1]), (7, [1])]"
proof -
  have ok: "frame_ok (7, [1])" by (simp add: frame_ok_def MaxFrameLen_def)
  have r: "fst (read_loop (frame_bytes (7, [1]) @ take 5 (frame_bytes (7, [1])))) = [(7, [1])]"
  proof -
    have "strict_prefix (take 5 (frame_bytes (7, [1]))) (frame_bytes (7, [1]))"
      by (auto simp: strict_prefix_def take_is_prefix frame_bytes_def PutUint32_def PutUint16_def)
    from ReadFrame_torn [OF ok this] obtain e where "ReadFrame (take 5 (frame_bytes (7, [1]))) = Inl e" by blast
    then show ?thesis using read_loop_frame [OF ok] read_loop_error by simp
  qed
  have "prefix (frame_bytes (7, [1]) @ take 5 (frame_bytes (7, [1]))) (concat (map frame_bytes [(7, [1]), (7, [1])]))"
    by (simp add: take_is_prefix)
  with read_loop_torn_stream [of "[(7, [1]), (7, [1])]"] ok r show ?thesis by simp
qed

end
