(* ===== verification/Journal.thy ===== *)
theory Journal
  imports Proto Gofmt Wire "HOL-Library.AList"
begin

text \<open>
  The pass journal (\<open>coordinator/internal/journal/journal.go\<close>, \<open>reader.go\<close>): batches of records are
  appended to segment files inside a length-prefixed envelope, and read back record by record.

  \<^item> Files are byte strings with the number of bytes already fsynced; \<open>Append\<close> and \<open>Flush\<close> are the
    writer's operations on them. What the operating system may do to one \<open>Append\<close> (refuse the
    directory or the file, write only part of the header or of the envelope) is an argument.
  \<^item> The reader is \<open>readSegment\<close> over \<open>forEachRecord\<close>, with the callback's effects passed through
    as a state, so that what a callback did before a later error is kept, as in the code.
  \<^item> Protobuf and zstd are parameters.
\<close>

section \<open>Varints (encoding/binary)\<close>

text \<open>\<open>binary.Uvarint\<close>: the value and the bytes read; 0 for a short buffer, negative on overflow.\<close>

fun uvarint_from :: "nat \<Rightarrow> u64 \<Rightarrow> bytes \<Rightarrow> u64 \<times> int" where
  "uvarint_from i x [] = (0, 0)"
| "uvarint_from i x (b # bs) =
     (if i = 10 then (0, - (int i + 1))
      else if unat b < 128
      then if i = 9 \<and> unat b > 1 then (0, - (int i + 1))
           else (x OR push_bit (7 * i) (ucast b), int i + 1)
      else uvarint_from (Suc i) (x OR push_bit (7 * i) (ucast (b AND 127))) bs)"

definition Uvarint :: "bytes \<Rightarrow> u64 \<times> int" where
  "Uvarint buf = uvarint_from 0 0 buf"

section \<open>Reading\<close>

datatype 'e journal_error =
    TruncatedHeader | BadEnvelope | ZstdError | RecordEOF | BadRecord | SlicePanic
  | CallbackError 'e

type_synonym ('e, 's) callback = "JournalRecord \<Rightarrow> 's \<Rightarrow> 'e option \<times> 's"

text \<open>
  The loop of \<open>forEachRecord\<close> from offset \<open>off\<close>. The bound check \<open>off+n+int(l) > len(raw)\<close> is
  computed in 64-bit integers; a sum that comes out below the slice start is a slice panic.
\<close>

function forEachRecord ::
    "(bytes \<Rightarrow> JournalRecord option) \<Rightarrow> ('e, 's) callback \<Rightarrow> bytes \<Rightarrow> nat \<Rightarrow> 's \<Rightarrow> 'e journal_error option \<times> 's" where
  "forEachRecord unm fn raw off s =
     (if off \<ge> length raw then (None, s)
      else let (l, n) = Uvarint (drop off raw);
               e = sint (word_of_int (int off + n) + l :: u64)
           in if n \<le> 0 \<or> e > int (length raw) then (Some RecordEOF, s)
              else if e < int off + n then (Some SlicePanic, s)
              else case unm (take (nat e - nat (int off + n)) (drop (nat (int off + n)) raw)) of
                     None \<Rightarrow> (Some BadRecord, s)
                   | Some r \<Rightarrow>
                       (case fn r s of
                          (Some err, s') \<Rightarrow> (Some (CallbackError err), s')
                        | (None, s') \<Rightarrow> forEachRecord unm fn raw (nat e) s'))"
  by pat_completeness auto
termination
  by (relation "measure (\<lambda>(unm, fn, raw, off, s). length raw - off)") auto

declare forEachRecord.simps [simp del]

record journal_codecs =
  jc_batch :: "JournalBatch codec"
  jc_record :: "JournalRecord codec"
  jc_zstd :: "bytes \<Rightarrow> bytes option"

text \<open>The loop of \<open>readSegment\<close> over what is left of the file.\<close>

function readSegment ::
    "journal_codecs \<Rightarrow> ('e, 's) callback \<Rightarrow> bytes \<Rightarrow> 's \<Rightarrow> 'e journal_error option \<times> 's" where
  "readSegment jc fn data s =
     (if data = [] then (None, s)
      else if length data < 4 then (Some TruncatedHeader, s)
      else let n = unat (Uint32 (take 4 data)); rest = drop 4 data
           in if length rest < n then (None, s)
              else case unmarshal (jc_batch jc) (take n rest) of
                     None \<Rightarrow> (Some BadEnvelope, s)
                   | Some batch \<Rightarrow>
                       (case jc_zstd jc (jb_RecordsZstd batch) of
                          None \<Rightarrow> (Some ZstdError, s)
                        | Some raw \<Rightarrow>
                            (case forEachRecord (unmarshal (jc_record jc)) fn raw 0 s of
                               (Some err, s') \<Rightarrow> (Some err, s')
                             | (None, s') \<Rightarrow> readSegment jc fn (drop n rest) s')))"
  by pat_completeness auto
termination
  by (relation "measure (\<lambda>(jc, fn, data, s). length data)") auto

declare readSegment.simps [simp del]

fun readSegments ::
    "journal_codecs \<Rightarrow> ('e, 's) callback \<Rightarrow> bytes list \<Rightarrow> 's \<Rightarrow> 'e journal_error option \<times> 's" where
  "readSegments jc fn [] s = (None, s)"
| "readSegments jc fn (f # fs) s =
     (case readSegment jc fn f s of
        (Some err, s') \<Rightarrow> (Some err, s')
      | (None, s') \<Rightarrow> readSegments jc fn fs s')"

section \<open>The writer\<close>

definition segmentMaxBytes :: int where
  "segmentMaxBytes = 512 * 2 ^ 20"

text \<open>A file's content and how much of it an fsync has made durable; files are keyed by directory and name.\<close>

record jfile =
  f_data :: bytes
  f_synced :: nat

type_synonym file_key = "string \<times> string"
type_synonym files = "(file_key \<times> jfile) list"

record segment =
  seg_file :: file_key
  seg_size :: int
  seg_index :: nat

record journal_writer =
  w_root :: string
  w_segs :: "(string \<times> segment) list"
  w_files :: files

text \<open>
  What the operating system does to the calls of one \<open>Append\<close>: whether the fsync of a full segment,
  the directory and the file succeed, and how many bytes of the header and of the envelope are written
  before a write fails (\<open>None\<close>: all of them).
\<close>

record append_os =
  os_sync :: bool
  os_mkdir :: bool
  os_open :: bool
  os_header :: "nat option"
  os_envelope :: "nat option"

definition os_ok :: append_os where
  "os_ok = \<lparr>os_sync = True, os_mkdir = True, os_open = True, os_header = None, os_envelope = None\<rparr>"

datatype write_error = MkdirError | OpenError | MarshalFailed | WriteError

definition file_of :: "file_key \<Rightarrow> files \<Rightarrow> jfile" where
  "file_of k fs = (case map_of fs k of None \<Rightarrow> \<lparr>f_data = [], f_synced = 0\<rparr> | Some f \<Rightarrow> f)"

definition write_file :: "file_key \<Rightarrow> bytes \<Rightarrow> files \<Rightarrow> files" where
  "write_file k bs fs = AList.update k ((file_of k fs)\<lparr>f_data := f_data (file_of k fs) @ bs\<rparr>) fs"

definition sync_file :: "file_key \<Rightarrow> files \<Rightarrow> files" where
  "sync_file k fs = (case map_of fs k of None \<Rightarrow> fs
     | Some f \<Rightarrow> AList.update k (f\<lparr>f_synced := length (f_data f)\<rparr>) fs)"

definition passDir :: "string \<Rightarrow> int \<Rightarrow> int \<Rightarrow> string" where
  "passDir rootDir jobID passNo = rootDir @ ''/'' @ fmt_d jobID @ ''/pass-'' @ fmt_d passNo"

definition segmentName :: "nat \<Rightarrow> string" where
  "segmentName i = ''segment-'' @ fmt_06d i @ ''.drj''"

definition segKey :: "int \<Rightarrow> int \<Rightarrow> string" where
  "segKey jobID passNo = fmt_d jobID @ ''/'' @ fmt_d passNo"

definition NewWriter :: "string \<Rightarrow> files \<Rightarrow> journal_writer" where
  "NewWriter rootDir fs = \<lparr>w_root = rootDir, w_segs = [], w_files = fs\<rparr>"

definition openNext :: "append_os \<Rightarrow> int \<Rightarrow> int \<Rightarrow> nat \<Rightarrow> journal_writer \<Rightarrow> (write_error + segment) \<times> journal_writer" where
  "openNext os jobID passNo next w =
     (let dir = passDir (w_root w) jobID passNo; k = (dir, segmentName next)
      in if \<not> os_mkdir os then (Inl MkdirError, w)
         else if \<not> os_open os then (Inl OpenError, w)
         else let fs = write_file k [] (w_files w);
                  seg = \<lparr>seg_file = k, seg_size = int (length (f_data (file_of k fs))), seg_index = next\<rparr>
              in (Inr seg, w\<lparr>w_files := fs, w_segs := AList.update (segKey jobID passNo) seg (w_segs w)\<rparr>))"

text \<open>The first half of \<open>Append\<close>: the segment to write to, rolled over when the current one is full.\<close>

definition openSegment :: "append_os \<Rightarrow> int \<Rightarrow> int \<Rightarrow> journal_writer \<Rightarrow> (write_error + segment) \<times> journal_writer" where
  "openSegment os jobID passNo w =
     (let key = segKey jobID passNo
      in case map_of (w_segs w) key of
           Some seg \<Rightarrow> if seg_size seg < segmentMaxBytes then (Inr seg, w)
             else openNext os jobID passNo (seg_index seg + 1)
                    (if os_sync os then w\<lparr>w_files := sync_file (seg_file seg) (w_files w)\<rparr> else w)
         | None \<Rightarrow> openNext os jobID passNo 0 w)"

definition Append :: "JournalBatch codec \<Rightarrow> append_os \<Rightarrow> JournalBatch \<Rightarrow> journal_writer \<Rightarrow> write_error option \<times> journal_writer" where
  "Append c os batch w =
     (let jobID = uint (jb_JobId batch); passNo = uint (jb_PassNo batch)
      in case openSegment os jobID passNo w of
           (Inl e, w1) \<Rightarrow> (Some e, w1)
         | (Inr seg, w1) \<Rightarrow>
             (case marshal c batch of
                None \<Rightarrow> (Some MarshalFailed, w1)
              | Some env \<Rightarrow>
                  let hdr = PutUint32 (of_nat (length env)); k = seg_file seg
                  in case os_header os of
                       Some n \<Rightarrow> (Some WriteError, w1\<lparr>w_files := write_file k (take n hdr) (w_files w1)\<rparr>)
                     | None \<Rightarrow>
                         let n = (case os_envelope os of None \<Rightarrow> length env | Some n \<Rightarrow> min n (length env));
                             seg' = seg\<lparr>seg_size := seg_size seg + int n + 4\<rparr>
                         in (if os_envelope os = None then None else Some WriteError,
                             w1\<lparr>w_files := write_file k (hdr @ take n env) (w_files w1),
                                w_segs := AList.update (segKey jobID passNo) seg' (w_segs w1)\<rparr>)))"

text \<open>\<open>Flush\<close> syncs every open segment; \<open>ok\<close> says which files the fsync succeeds on.\<close>

definition Flush :: "(file_key \<Rightarrow> bool) \<Rightarrow> journal_writer \<Rightarrow> bool \<times> journal_writer" where
  "Flush ok w =
     (let ks = map (seg_file \<circ> snd) (w_segs w)
      in (list_all ok ks, w\<lparr>w_files := fold sync_file (filter ok ks) (w_files w)\<rparr>))"

definition under_job :: "string \<Rightarrow> int \<Rightarrow> string \<Rightarrow> bool" where
  "under_job rootDir jobID dir \<longleftrightarrow> prefix (rootDir @ ''/'' @ fmt_d jobID @ ''/'') dir"

definition DropJob :: "int \<Rightarrow> journal_writer \<Rightarrow> journal_writer" where
  "DropJob jobID w = w\<lparr>
     w_segs := filter (\<lambda>(k, s). \<not> prefix (fmt_d jobID @ ''/'') k) (w_segs w),
     w_files := filter (\<lambda>((dir, n), f). \<not> under_job (w_root w) jobID dir) (w_files w)\<rparr>"

definition CloseWriter :: "(file_key \<Rightarrow> bool) \<Rightarrow> journal_writer \<Rightarrow> journal_writer" where
  "CloseWriter ok w = (snd (Flush ok w))\<lparr>w_segs := []\<rparr>"

text \<open>A crash: what was not synced may be lost from the end of each file, and the writer starts afresh.\<close>

definition crash :: "(file_key \<Rightarrow> nat) \<Rightarrow> journal_writer \<Rightarrow> journal_writer" where
  "crash keep w = NewWriter (w_root w)
     (map (\<lambda>(k, f). (k, f\<lparr>f_data := take (max (f_synced f) (keep k)) (f_data f)\<rparr>)) (w_files w))"

section \<open>Reading a pass\<close>

definition segmentGlob :: "string \<Rightarrow> bool" where
  "segmentGlob n \<longleftrightarrow> prefix ''segment-'' n \<and> suffix ''.drj'' n \<and> 12 \<le> length n"

definition segmentsOf :: "string \<Rightarrow> files \<Rightarrow> string list" where
  "segmentsOf dir fs = sort (map (snd \<circ> fst) (filter (\<lambda>((d, n), f). d = dir \<and> segmentGlob n) fs))"

definition ReadRecords ::
    "journal_codecs \<Rightarrow> string \<Rightarrow> int \<Rightarrow> int \<Rightarrow> ('e, 's) callback \<Rightarrow> files \<Rightarrow> 's \<Rightarrow> 'e journal_error option \<times> 's" where
  "ReadRecords jc rootDir jobID passNo fn fs s =
     (let dir = passDir rootDir jobID passNo
      in readSegments jc fn (map (\<lambda>n. f_data (file_of (dir, n) fs)) (segmentsOf dir fs)) s)"

fun typeName :: "JournalType \<Rightarrow> string" where
  "typeName JR_UNSPECIFIED = ''JR_UNSPECIFIED''"
| "typeName JR_COPIED = ''JR_COPIED''"
| "typeName JR_META_FIXED = ''JR_META_FIXED''"
| "typeName JR_SKIPPED_CLEAN = ''JR_SKIPPED_CLEAN''"
| "typeName JR_ORPHAN = ''JR_ORPHAN''"
| "typeName JR_DIR_META = ''JR_DIR_META''"
| "typeName JR_ERROR = ''JR_ERROR''"
| "typeName JR_FIDELITY_EXCEPTION = ''JR_FIDELITY_EXCEPTION''"
| "typeName JR_NLINK_DUP = ''JR_NLINK_DUP''"
| "typeName JR_VERIFY_OK = ''JR_VERIFY_OK''"
| "typeName JR_VERIFY_FAIL = ''JR_VERIFY_FAIL''"
| "typeName JR_WOULD_COPY = ''JR_WOULD_COPY''"
| "typeName JR_WOULD_DELETE = ''JR_WOULD_DELETE''"
| "typeName JR_DELETED = ''JR_DELETED''"
| "typeName JR_SRC_CHANGED = ''JR_SRC_CHANGED''"
| "typeName JR_LINK_CREATED = ''JR_LINK_CREATED''"
| "typeName JR_LINK_FALLBACK = ''JR_LINK_FALLBACK''"
| "typeName JR_SKIPPED_NEWER = ''JR_SKIPPED_NEWER''"
| "typeName (JR_OTHER n) = fmt_d n"

definition TrimPrefix :: "string \<Rightarrow> string \<Rightarrow> string" where
  "TrimPrefix s p = (if prefix p s then drop (length p) s else s)"

text \<open>
  \<open>Summary\<close>: the histogram of record types, each \<open>(type, path)\<close> counted once per pass. Its state is
  the pass's \<open>seen\<close> set, the histogram and the total.
\<close>

type_synonym summary = "(string \<times> int) list \<times> int"

definition summaryKey :: "JournalRecord \<Rightarrow> string" where
  "summaryKey r = typeName (jr_Type r) @ [CHR 0x00] @ jr_RelPath r"

definition bump_type :: "string \<Rightarrow> (string \<times> int) list \<Rightarrow> (string \<times> int) list" where
  "bump_type t hist = AList.update t ((case map_of hist t of None \<Rightarrow> 0 | Some n \<Rightarrow> n) + 1) hist"

definition summaryFn :: "(unit, string list \<times> summary) callback" where
  "summaryFn r st = (case st of (seen, hist, n) \<Rightarrow>
     if summaryKey r \<in> set seen then (None, st)
     else (None, summaryKey r # seen, bump_type (TrimPrefix (typeName (jr_Type r)) ''JR_'') hist, n + 1))"

fun summaryPasses :: "journal_codecs \<Rightarrow> string \<Rightarrow> int \<Rightarrow> files \<Rightarrow> int list \<Rightarrow> summary \<Rightarrow> unit journal_error + summary" where
  "summaryPasses jc rootDir jobID fs [] st = Inr st"
| "summaryPasses jc rootDir jobID fs (pn # pns) st =
     (case ReadRecords jc rootDir jobID pn summaryFn fs ([], st) of
        (Some err, _) \<Rightarrow> Inl err
      | (None, _, st') \<Rightarrow> summaryPasses jc rootDir jobID fs pns st')"

definition journal_Summary :: "journal_codecs \<Rightarrow> string \<Rightarrow> int \<Rightarrow> int list \<Rightarrow> files \<Rightarrow> unit journal_error + summary" where
  "journal_Summary jc rootDir jobID passNos fs = summaryPasses jc rootDir jobID fs passNos ([], 0)"

definition orphanFn :: "(unit, string list) callback" where
  "orphanFn r seen = (None, if jr_Type r = JR_ORPHAN then List.insert (jr_RelPath r) seen else seen)"

definition journal_Orphans :: "journal_codecs \<Rightarrow> string \<Rightarrow> int \<Rightarrow> int \<Rightarrow> files \<Rightarrow> unit journal_error + string list" where
  "journal_Orphans jc rootDir jobID passNo fs =
     (case ReadRecords jc rootDir jobID passNo orphanFn fs [] of
        (Some err, _) \<Rightarrow> Inl err
      | (None, seen) \<Rightarrow> Inr (sort seen))"

section \<open>Records and envelopes as prefix codecs\<close>

text \<open>How an agent lays a record out inside a batch: its length as a varint, then the message.\<close>

function put_uvarint :: "nat \<Rightarrow> bytes" where
  "put_uvarint n = (if n < 128 then [of_nat n] else of_nat (n mod 128 + 128) # put_uvarint (n div 128))"
  by pat_completeness auto
termination by (relation "measure id") auto

declare put_uvarint.simps [simp del]

lemma or_shift_eq_add:
  assumes "unat (x :: u64) < 2 ^ s" "unat x + unat b * 2 ^ s < 2 ^ 64"
  shows "unat (x OR push_bit s b) = unat x + unat b * 2 ^ s"
proof -
  have "\<not> bit x n \<or> \<not> bit (push_bit s b) n" for n
  proof (cases "n < s")
    case True
    then show ?thesis by (simp add: bit_simps)
  next
    case False
    have "\<not> bit (unat x) n"
    proof -
      have "unat x < 2 ^ n" using assms(1) False by (meson linorder_not_le order.strict_trans2 power_increasing_iff one_less_numeral_iff semiring_norm(76))
      then show ?thesis by (simp add: bit_iff_odd)
    qed
    then show ?thesis by (simp add: bit_unsigned_iff)
  qed
  then have "x OR push_bit s b = x + push_bit s b" by (simp add: disjunctive_add)
  moreover have "unat (push_bit s b) = unat b * 2 ^ s"
    using assms(2) by (subst unsigned_push_bit_eq) (simp add: push_bit_eq_mult [where 'a = nat] take_bit_nat_eq_self)
  ultimately show ?thesis using assms by (simp add: unat_word_ariths(1))
qed

lemma low7: "n < 128 \<Longrightarrow> (of_nat (n + 128) :: byte) AND 127 = of_nat n"
proof -
  assume n: "n < 128"
  have u: "unat (of_nat (n + 128) :: byte) = n + 128" using n by (subst unat_of_nat) simp
  have "unat ((of_nat (n + 128) :: byte) AND 127) = take_bit 7 (n + 128)"
    unfolding unsigned_and_eq u by (simp add: take_bit_eq_mask mask_eq_exp_minus_1)
  also have "\<dots> = n" using n by (simp add: take_bit_eq_mod)
  finally show ?thesis using n by (simp add: word_unat_eq_iff unat_of_nat)
qed

lemma uvarint_from_put:
  assumes "unat x < 2 ^ (7 * i)" "unat x + n * 2 ^ (7 * i) < 2 ^ 63" "i = 0 \<or> 0 < n"
  shows "uvarint_from i x (put_uvarint n @ rest) =
    (of_nat (unat x + n * 2 ^ (7 * i)), int i + int (length (put_uvarint n)))"
  using assms
proof (induction n arbitrary: i x rule: less_induct)
  case (less n)
  have i9: "i < 9"
  proof (rule ccontr)
    assume "\<not> i < 9"
    then have "2 ^ 63 \<le> (2::nat) ^ (7 * i)" by (intro power_increasing) auto
    moreover have "0 < n" using less.prems(3) \<open>\<not> i < 9\<close> by auto
    ultimately have "2 ^ 63 \<le> n * 2 ^ (7 * i)" by (metis One_nat_def Suc_leI mult_le_mono nat_mult_1)
    then show False using less.prems(2) by linarith
  qed
  show ?case
  proof (cases "n < 128")
    case True
    have u: "unat (of_nat n :: byte) = n" using True by (simp add: unat_of_nat)
    then have u64: "unat (ucast (of_nat n :: byte) :: u64) = n" using True by (simp add: unsigned_ucast_eq take_bit_nat_eq_self)
    then have "unat (x OR push_bit (7 * i) (ucast (of_nat n :: byte))) = unat x + n * 2 ^ (7 * i)"
      using less.prems by (subst or_shift_eq_add) auto
    then have "x OR push_bit (7 * i) (ucast (of_nat n :: byte)) = of_nat (unat x + n * 2 ^ (7 * i))"
      by (metis of_nat_unat ucast_id)
    then show ?thesis using True i9 u by (simp add: put_uvarint.simps [of n])
  next
    case False
    let ?b = "of_nat (n mod 128 + 128) :: byte"
    let ?x = "x OR push_bit (7 * i) (ucast (?b AND 127))"
    have b: "unat ?b = n mod 128 + 128" using mod_less_divisor [of 128 n] by (subst unat_of_nat) simp
    have l: "?b AND 127 = of_nat (n mod 128)" by (rule low7) simp
    have u: "unat (ucast (?b AND 127) :: u64) = n mod 128"
      unfolding l using mod_less_divisor [of 128 n] by (simp add: unsigned_ucast_eq unat_of_nat take_bit_nat_eq_self)
    have le: "n mod 128 * 2 ^ (7 * i) \<le> n * 2 ^ (7 * i)" by simp
    have ux: "unat ?x = unat x + (n mod 128) * 2 ^ (7 * i)"
      by (rule or_shift_eq_add [of x "7 * i" "ucast (?b AND 127)", unfolded u, OF less.prems(1)])
        (rule le_less_trans [OF add_left_mono [OF le]], rule less_trans [OF less.prems(2)], simp)
    have p: "(2::nat) ^ (7 * Suc i) = 128 * 2 ^ (7 * i)" by (simp add: power_add)
    have split: "n = n mod 128 + 128 * (n div 128)" by simp
    have sum: "unat ?x + n div 128 * 2 ^ (7 * Suc i) = unat x + n * 2 ^ (7 * i)"
    proof -
      have "m = r + 128 * q \<Longrightarrow> r * P + q * (128 * P) = m * P" for m r q P :: nat by (simp add: algebra_simps)
      from this [OF split] show ?thesis unfolding ux p by simp
    qed
    have "unat ?x < 2 ^ (7 * Suc i)"
    proof -
      have "unat ?x < 2 ^ (7 * i) + 127 * 2 ^ (7 * i)"
        unfolding ux using less.prems(1) by (intro add_less_le_mono mult_le_mono1) auto
      then show ?thesis unfolding p by simp
    qed
    then have "uvarint_from (Suc i) ?x (put_uvarint (n div 128) @ rest) =
        (of_nat (unat x + n * 2 ^ (7 * i)), int (Suc i) + int (length (put_uvarint (n div 128))))"
      using less.IH [of "n div 128" ?x "Suc i"] False less.prems(2) by (simp only: sum) auto
    then show ?thesis using False i9 b by (simp add: put_uvarint.simps [of n])
  qed
qed

lemma Uvarint_put:
  "n < 2 ^ 63 \<Longrightarrow> Uvarint (put_uvarint n @ rest) = (of_nat n, int (length (put_uvarint n)))"
  using uvarint_from_put [of 0 0 n rest] by (simp add: Uvarint_def)

lemma put_uvarint_nonempty [simp]: "put_uvarint n \<noteq> []"
  by (subst put_uvarint.simps) simp

definition rec_bytes :: "bytes \<Rightarrow> bytes" where
  "rec_bytes p = put_uvarint (length p) @ p"

text \<open>The reference behaviour of every reader: the callback on each record in turn, until one fails.\<close>

fun deliver :: "('e, 's) callback \<Rightarrow> JournalRecord list \<Rightarrow> 's \<Rightarrow> 'e journal_error option \<times> 's" where
  "deliver fn [] s = (None, s)"
| "deliver fn (r # rs) s =
     (case fn r s of (Some e, s') \<Rightarrow> (Some (CallbackError e), s') | (None, s') \<Rightarrow> deliver fn rs s')"

definition and_then :: "'e option \<times> 's \<Rightarrow> ('s \<Rightarrow> 'e option \<times> 's) \<Rightarrow> 'e option \<times> 's" where
  "and_then r k = (case r of (Some e, s) \<Rightarrow> (Some e, s) | (None, s) \<Rightarrow> k s)"

lemma and_then_simps [simp]:
  "and_then (Some e, s) k = (Some e, s)" "and_then (None, s) k = k s"
  by (simp_all add: and_then_def)

lemma and_then_assoc: "and_then (and_then r k) l = and_then r (\<lambda>s. and_then (k s) l)"
  by (auto simp: and_then_def split: option.splits prod.splits)

lemma and_then_None [simp]: "and_then r (\<lambda>s. (None, s)) = r"
  by (auto simp: and_then_def split: option.splits prod.splits)

lemma deliver_append: "deliver fn (rs @ rs') s = and_then (deliver fn rs s) (deliver fn rs')"
  by (induction rs arbitrary: s) (auto simp: and_then_def split: option.splits prod.splits)

text \<open>What it means that the payload \<open>raw\<close> of a batch carries the records \<open>rs\<close>.\<close>

definition carries :: "(bytes \<Rightarrow> JournalRecord option) \<Rightarrow> bytes \<Rightarrow> JournalRecord list \<Rightarrow> bool" where
  "carries unm raw rs \<longleftrightarrow> length raw < 2 ^ 62 \<and>
     (\<exists>ps. raw = concat (map rec_bytes ps) \<and> map unm ps = map Some rs)"

lemma uint_add_small: "a + b < 2 ^ 63 \<Longrightarrow> sint (word_of_int (int a) + of_nat b :: u64) = int a + int b"
proof -
  assume "a + b < 2 ^ 63"
  then have "sint (word_of_int (int (a + b)) :: u64) = int (a + b)"
    by (subst signed_of_int) (simp add: signed_take_bit_int_eq_self)
  moreover have "(word_of_int (int a) + of_nat b :: u64) = word_of_int (int (a + b))" by simp
  ultimately show ?thesis by simp
qed

lemma forEachRecord_one:
  assumes "length (pre @ rec_bytes p @ post) < 2 ^ 62" "unm p = Some r"
  shows "forEachRecord unm fn (pre @ rec_bytes p @ post) (length pre) s =
    and_then (deliver fn [r] s) (forEachRecord unm fn (pre @ rec_bytes p @ post) (length (pre @ rec_bytes p)))"
proof -
  let ?raw = "pre @ rec_bytes p @ post" and ?n = "length (put_uvarint (length p))"
  have len: "length pre + ?n + length p \<le> length ?raw" by (simp add: rec_bytes_def)
  have u: "Uvarint (drop (length pre) ?raw) = (of_nat (length p), int ?n)"
    using assms(1) Uvarint_put [of "length p" "p @ post"] by (simp add: rec_bytes_def)
  have e: "sint (word_of_int (int (length pre) + int ?n) + of_nat (length p) :: u64) =
      int (length pre) + int ?n + int (length p)"
    using uint_add_small [of "length pre + ?n" "length p"] assms(1) len by simp
  have ne: "length pre < length ?raw" by (simp add: rec_bytes_def)
  have k: "nat (int (length pre) + int ?n + int (length p)) = length (pre @ rec_bytes p)" by (simp add: rec_bytes_def)
  have t: "take (length p) (drop (length pre + ?n) ?raw) = p" by (simp add: rec_bytes_def)
  have k2: "nat (int (length pre) + int ?n) = length pre + ?n" by simp
  have k3: "length (pre @ rec_bytes p) - (length pre + ?n) = length p" by (simp add: rec_bytes_def)
  have pos: "\<not> int ?n \<le> 0" by (simp add: Suc_leI length_greater_0_conv [THEN iffD2])
  have le: "\<not> int (length pre) + int ?n + int (length p) > int (length ?raw)" using len by simp
  have ge: "\<not> int (length pre) + int ?n + int (length p) < int (length pre) + int ?n" by simp
  show ?thesis
    unfolding forEachRecord.simps [of unm fn ?raw "length pre"] u Let_def prod.case e
    using ne pos le ge assms(2) unfolding k k2 k3 t
    by (auto split: option.splits prod.splits)
qed

lemma forEachRecord_from:
  assumes "length (pre @ concat (map rec_bytes ps)) < 2 ^ 62" "map unm ps = map Some rs"
  shows "forEachRecord unm fn (pre @ concat (map rec_bytes ps)) (length pre) s = deliver fn rs s"
  using assms
proof (induction ps arbitrary: pre rs s)
  case Nil
  then show ?case by (subst forEachRecord.simps) simp
next
  case (Cons p ps)
  obtain r rs' where rs: "rs = r # rs'" "unm p = Some r" "map unm ps = map Some rs'"
    using Cons.prems(2) by (cases rs) auto
  have l: "length (pre @ rec_bytes p @ concat (map rec_bytes ps)) < 2 ^ 62" using Cons.prems(1) by simp
  have "forEachRecord unm fn ((pre @ rec_bytes p) @ concat (map rec_bytes ps)) (length (pre @ rec_bytes p)) s' =
      deliver fn rs' s'" for s'
    by (rule Cons.IH) (use l rs(3) in auto)
  then have "forEachRecord unm fn (pre @ rec_bytes p @ concat (map rec_bytes ps)) (length (pre @ rec_bytes p)) =
      deliver fn rs'" by (simp add: fun_eq_iff)
  then show ?case
    using forEachRecord_one [of pre p "concat (map rec_bytes ps)" unm r fn s] l rs(2) deliver_append [of fn "[r]" rs' s] rs(1) by simp
qed

lemma forEachRecord_carries: "carries unm raw rs \<Longrightarrow> forEachRecord unm fn raw 0 s = deliver fn rs s"
  using forEachRecord_from [of "[]"] by (fastforce simp: carries_def)

section \<open>Envelopes\<close>

definition env_bytes :: "bytes \<Rightarrow> bytes" where
  "env_bytes p = PutUint32 (of_nat (length p)) @ p"

definition env_dec :: "bytes \<Rightarrow> (bytes \<times> bytes) option" where
  "env_dec bs = (let n = unat (Uint32 (take 4 bs)); rest = drop 4 bs
     in if length bs < 4 \<or> length rest < n then None else Some (take n rest, drop n rest))"

interpretation envelope: prefix_codec env_bytes env_dec "\<lambda>p. length p < 2 ^ 32"
proof unfold_locales
  show "length p < 2 ^ 32 \<Longrightarrow> env_dec (env_bytes p @ rest) = Some (p, rest)" for p rest
    by (simp add: env_dec_def env_bytes_def unat_of_nat)
  show "env_bytes p \<noteq> []" for p by (simp add: env_bytes_def PutUint32_def)
  show "env_dec bs = Some (p, rest) \<Longrightarrow> length rest < length bs" for bs p rest
    by (auto simp: env_dec_def Let_def split: if_splits)
qed

lemma readSegment_env:
  assumes "env_dec data = Some (p, rest)"
  shows "readSegment jc fn data s =
    (case unmarshal (jc_batch jc) p of
       None \<Rightarrow> (Some BadEnvelope, s)
     | Some batch \<Rightarrow>
         (case jc_zstd jc (jb_RecordsZstd batch) of
            None \<Rightarrow> (Some ZstdError, s)
          | Some raw \<Rightarrow> and_then (forEachRecord (unmarshal (jc_record jc)) fn raw 0 s) (readSegment jc fn rest)))"
  using assms by (subst readSegment.simps) (auto simp: env_dec_def Let_def and_then_def split: if_splits option.splits prod.splits)

text \<open>An envelope payload that the reader can take apart into the records \<open>rs\<close>.\<close>

definition entry_ok :: "journal_codecs \<Rightarrow> bytes \<times> JournalRecord list \<Rightarrow> bool" where
  "entry_ok jc e \<longleftrightarrow> length (fst e) < 2 ^ 32 \<and>
     (\<exists>b raw. unmarshal (jc_batch jc) (fst e) = Some b \<and> jc_zstd jc (jb_RecordsZstd b) = Some raw \<and>
        carries (unmarshal (jc_record jc)) raw (snd e))"

definition envs :: "(bytes \<times> JournalRecord list) list \<Rightarrow> bytes" where
  "envs es = concat (map (env_bytes \<circ> fst) es)"

definition recs :: "(bytes \<times> JournalRecord list) list \<Rightarrow> JournalRecord list" where
  "recs es = concat (map snd es)"

lemma envs_simps [simp]: "envs [] = []" "envs (e # es) = env_bytes (fst e) @ envs es" "envs (es @ fs) = envs es @ envs fs"
  and recs_simps [simp]: "recs [] = []" "recs (e # es) = snd e @ recs es" "recs (es @ fs) = recs es @ recs fs"
  by (simp_all add: envs_def recs_def)

lemma readSegment_entries:
  "list_all (entry_ok jc) es \<Longrightarrow>
   readSegment jc fn (envs es @ rest) s = and_then (deliver fn (recs es) s) (readSegment jc fn rest)"
proof (induction es arbitrary: s)
  case (Cons e es)
  then obtain b raw where e: "length (fst e) < 2 ^ 32" "unmarshal (jc_batch jc) (fst e) = Some b"
    "jc_zstd jc (jb_RecordsZstd b) = Some raw" "carries (unmarshal (jc_record jc)) raw (snd e)"
    by (auto simp: entry_ok_def)
  have "env_dec (envs (e # es) @ rest) = Some (fst e, envs es @ rest)"
    using envelope.dec_enc [OF e(1)] by simp
  then have "readSegment jc fn (envs (e # es) @ rest) s =
      and_then (deliver fn (snd e) s) (readSegment jc fn (envs es @ rest))"
    using e by (simp add: readSegment_env forEachRecord_carries)
  moreover have "readSegment jc fn (envs es @ rest) = (\<lambda>s. and_then (deliver fn (recs es) s) (readSegment jc fn rest))"
    using Cons by auto
  ultimately show ?case by (simp add: deliver_append and_then_assoc)
qed simp

lemma readSegment_Nil [simp]: "readSegment jc fn [] s = (None, s)"
  by (simp add: readSegment.simps)

lemma readSegment_torn:
  assumes "length p < 2 ^ 32" "strict_prefix t (env_bytes p)"
  shows "readSegment jc fn t s = (if t \<noteq> [] \<and> length t < 4 then Some TruncatedHeader else None, s)"
proof (cases "length t < 4")
  case True
  then show ?thesis by (subst readSegment.simps) simp
next
  case False
  obtain u where u: "env_bytes p = t @ u" "u \<noteq> []" using assms(2) by (auto simp: strict_prefix_def prefix_def)
  have "take 4 t = PutUint32 (of_nat (length p))"
    using arg_cong [OF u(1), of "take 4"] False by (simp add: env_bytes_def)
  moreover have "length (drop 4 t) < length p"
    using arg_cong [OF u(1), of length] u(2) False by (cases u) (auto simp: env_bytes_def)
  ultimately show ?thesis using False assms(1) by (subst readSegment.simps) (auto simp: unat_of_nat)
qed

section \<open>The writer implements an append-only journal per pass\<close>

text \<open>
  The abstract journal maps each \<open>(job, pass)\<close> to the sequence of its envelopes. A writer that
  started on an empty directory represents it: the segments of a pass, in index order, hold exactly
  its envelopes.
\<close>

definition seg_list :: "journal_writer \<Rightarrow> int \<Rightarrow> int \<Rightarrow> bytes list" where
  "seg_list w job pass =
     (case map_of (w_segs w) (segKey job pass) of
        None \<Rightarrow> []
      | Some seg \<Rightarrow> map (\<lambda>i. f_data (file_of (passDir (w_root w) job pass, segmentName i) (w_files w))) [0..<Suc (seg_index seg)])"

definition names :: "string \<Rightarrow> files \<Rightarrow> string set" where
  "names dir fs = {n. (dir, n) \<in> fst ` set fs}"

definition pass_ok :: "journal_writer \<Rightarrow> int \<Rightarrow> int \<Rightarrow> bool" where
  "pass_ok w job pass =
     (let dir = passDir (w_root w) job pass
      in case map_of (w_segs w) (segKey job pass) of
           None \<Rightarrow> names dir (w_files w) = {}
         | Some seg \<Rightarrow> seg_file seg = (dir, segmentName (seg_index seg)) \<and>
             names dir (w_files w) = segmentName ` {..seg_index seg})"

definition writer_ok :: "journal_writer \<Rightarrow> bool" where
  "writer_ok w \<longleftrightarrow> distinct (map fst (w_files w)) \<and> (\<forall>job \<ge> 0. \<forall>pass \<ge> 0. pass_ok w job pass)"

definition journal_refines :: "journal_writer \<Rightarrow> (int \<times> int \<Rightarrow> (bytes \<times> JournalRecord list) list) \<Rightarrow> bool" where
  "journal_refines w J \<longleftrightarrow> writer_ok w \<and>
     (\<forall>job \<ge> 0. \<forall>pass \<ge> 0. \<exists>ess. seg_list w job pass = map envs ess \<and> concat ess = J (job, pass))"

subsection \<open>Names are keys\<close>

lemma slash_not_num: "CHR ''/'' \<notin> insert (CHR ''-'') hex_chars"
  by (simp add: hex_chars_def)

lemma segKey_inj: "segKey j p = segKey k q \<Longrightarrow> j = k \<and> p = q"
  unfolding segKey_def
  using field_inj [of "CHR ''/''" "fmt_d j" "fmt_d k" "fmt_d p" "fmt_d q"] fmt_int_no_sep [OF slash_not_num]
    fmt_int_inj [of 10] by auto

lemma passDir_inj: "passDir r j p = passDir r k q \<Longrightarrow> j = k \<and> p = q"
  unfolding passDir_def
  using field_inj [of "CHR ''/''" "fmt_d j" "fmt_d k" "''pass-'' @ fmt_d p" "''pass-'' @ fmt_d q"]
    fmt_int_no_sep [OF slash_not_num] fmt_int_inj [of 10] by auto

lemma fmt_06d_inj: "fmt_06d m = fmt_06d n \<Longrightarrow> m = n"
proof -
  have "digits_val 10 (fmt_06d k) = k" for k by (simp add: fmt_06d_def digits_val_zeros digits_val_fmt)
  then show "fmt_06d m = fmt_06d n \<Longrightarrow> m = n" by metis
qed

lemma segmentName_inj [simp]: "segmentName m = segmentName n \<longleftrightarrow> m = n"
  using fmt_06d_inj by (auto simp: segmentName_def)

lemma segmentGlob_name [simp]: "segmentGlob (segmentName i)"
proof -
  have "6 \<le> length (fmt_06d i)" by (simp add: fmt_06d_def)
  then show ?thesis by (simp add: segmentGlob_def segmentName_def suffix_def)
qed

subsection \<open>Files\<close>

lemma file_of_write: "file_of k (write_file k' bs fs) =
    (if k = k' then (file_of k fs)\<lparr>f_data := f_data (file_of k fs) @ bs\<rparr> else file_of k fs)"
  by (simp add: file_of_def write_file_def update_conv')

lemma file_of_sync: "f_data (file_of k (sync_file k' fs)) = f_data (file_of k fs)"
  by (auto simp: file_of_def sync_file_def update_conv' split: option.splits)

lemma keys_write: "fst ` set (write_file k bs fs) = insert k (fst ` set fs)"
  by (simp add: write_file_def update_conv' flip: dom_map_of_conv_image_fst)

lemma keys_sync: "fst ` set (sync_file k fs) = fst ` set fs"
  by (auto simp: sync_file_def update_conv' simp flip: dom_map_of_conv_image_fst split: option.splits)

lemma distinct_write: "distinct (map fst fs) \<Longrightarrow> distinct (map fst (write_file k bs fs))"
  by (simp add: write_file_def distinct_update)

lemma distinct_sync: "distinct (map fst fs) \<Longrightarrow> distinct (map fst (sync_file k fs))"
  by (simp add: sync_file_def distinct_update split: option.splits)

lemma names_write: "names dir (write_file (d, n) bs fs) = (if dir = d then insert n (names dir fs) else names dir fs)"
  by (auto simp: names_def keys_write)

lemma names_sync [simp]: "names dir (sync_file k fs) = names dir fs"
  by (simp add: names_def keys_sync)

subsection \<open>Append\<close>

lemma writer_okD:
  assumes "writer_ok w" "0 \<le> job" "0 \<le> pass"
  shows "distinct (map fst (w_files w))"
    "map_of (w_segs w) (segKey job pass) = None \<Longrightarrow> names (passDir (w_root w) job pass) (w_files w) = {}"
    "map_of (w_segs w) (segKey job pass) = Some seg \<Longrightarrow>
       seg_file seg = (passDir (w_root w) job pass, segmentName (seg_index seg)) \<and>
       names (passDir (w_root w) job pass) (w_files w) = segmentName ` {..seg_index seg}"
proof -
  have "pass_ok w job pass" "distinct (map fst (w_files w))" using assms by (simp_all add: writer_ok_def)
  then show "distinct (map fst (w_files w))"
    "map_of (w_segs w) (segKey job pass) = None \<Longrightarrow> names (passDir (w_root w) job pass) (w_files w) = {}"
    "map_of (w_segs w) (segKey job pass) = Some seg \<Longrightarrow>
       seg_file seg = (passDir (w_root w) job pass, segmentName (seg_index seg)) \<and>
       names (passDir (w_root w) job pass) (w_files w) = segmentName ` {..seg_index seg}"
    by (simp_all add: pass_ok_def Let_def)
qed

text \<open>Two writers that agree on the segment table and on the file contents represent the same journal.\<close>

lemma seg_list_cong:
  "w_root w' = w_root w \<Longrightarrow> map_of (w_segs w') (segKey j p) = map_of (w_segs w) (segKey j p) \<Longrightarrow>
   (\<And>i. f_data (file_of (passDir (w_root w) j p, segmentName i) (w_files w')) =
        f_data (file_of (passDir (w_root w) j p, segmentName i) (w_files w))) \<Longrightarrow>
   seg_list w' j p = seg_list w j p"
  by (simp add: seg_list_def split: option.splits)

lemma openNext_ok:
  assumes w: "writer_ok w" and nn: "0 \<le> job" "0 \<le> pass"
    and opn: "openNext os job pass next w = (Inr seg, w')"
    and nxt: "case map_of (w_segs w) (segKey job pass) of None \<Rightarrow> next = 0 | Some old \<Rightarrow> next = Suc (seg_index old)"
  shows "writer_ok w' \<and> w_root w' = w_root w \<and> map_of (w_segs w') (segKey job pass) = Some seg \<and>
    seg_list w' job pass = seg_list w job pass @ [[]] \<and>
    (\<forall>j p. 0 \<le> j \<longrightarrow> 0 \<le> p \<longrightarrow> (j, p) \<noteq> (job, pass) \<longrightarrow> seg_list w' j p = seg_list w j p)"
proof -
  let ?d = "passDir (w_root w) job pass" and ?key = "segKey job pass"
  let ?k = "(?d, segmentName next)"
  let ?fs = "write_file ?k [] (w_files w)"
  have w': "w' = w\<lparr>w_files := ?fs, w_segs := AList.update ?key seg (w_segs w)\<rparr>"
    and seg: "seg_index seg = next" "seg_file seg = ?k"
    using opn by (auto simp: openNext_def Let_def split: if_splits)
  have ns: "names ?d (w_files w) = segmentName ` {..<next}"
    using writer_okD(2,3) [OF w nn] nxt by (auto simp: lessThan_Suc_atMost split: option.splits)
  have data: "f_data (file_of k ?fs) = f_data (file_of k (w_files w))" for k
    by (simp add: file_of_write)
  have absent: "f_data (file_of ?k (w_files w)) = []"
  proof -
    have "segmentName next \<notin> names ?d (w_files w)" using ns by auto
    then have "map_of (w_files w) ?k = None" by (simp add: names_def map_of_eq_None_iff)
    then show ?thesis by (simp add: file_of_def)
  qed
  have other: "segKey j p \<noteq> ?key" "passDir (w_root w) j p \<noteq> ?d" if "(j, p) \<noteq> (job, pass)" for j p
    using that segKey_inj passDir_inj by blast+
  have lj: "seg_list w' job pass = seg_list w job pass @ [[]]"
    using nxt absent by (auto simp: seg_list_def w' seg update_conv' data split: option.splits)
  have lo: "seg_list w' j p = seg_list w j p" if "(j, p) \<noteq> (job, pass)" for j p
    by (rule seg_list_cong) (use other [OF that] in \<open>simp_all add: w' update_conv' data\<close>)
  have "writer_ok w'"
    unfolding writer_ok_def
  proof (intro conjI allI impI)
    show "distinct (map fst (w_files w'))" using writer_okD(1) [OF w nn] by (simp add: w' distinct_write)
    fix j p :: int
    assume jp: "0 \<le> j" "0 \<le> p"
    show "pass_ok w' j p"
    proof (cases "(j, p) = (job, pass)")
      case True
      then show ?thesis using ns
        by (simp add: pass_ok_def Let_def w' update_conv' seg names_write lessThan_Suc_atMost [symmetric] lessThan_Suc)
    next
      case False
      then show ?thesis using writer_okD(2,3) [OF w jp] other [OF False]
        by (simp add: pass_ok_def Let_def w' update_conv' names_write split: option.splits)
    qed
  qed
  then show ?thesis using lj lo by (simp add: w' update_conv')
qed

lemma pass_ok_sync [simp]: "pass_ok (w\<lparr>w_files := sync_file k (w_files w)\<rparr>) j p = pass_ok w j p"
  by (simp add: pass_ok_def Let_def split: option.splits)

lemma writer_ok_sync: "writer_ok w \<Longrightarrow> writer_ok (w\<lparr>w_files := sync_file k (w_files w)\<rparr>)"
  by (simp add: writer_ok_def distinct_sync)

lemma seg_list_sync [simp]: "seg_list (w\<lparr>w_files := sync_file k (w_files w)\<rparr>) j p = seg_list w j p"
  by (rule seg_list_cong) (simp_all add: file_of_sync)

lemma openSegment_ok:
  assumes w: "writer_ok w" and nn: "0 \<le> job" "0 \<le> pass" and opn: "openSegment os job pass w = (Inr seg, w')"
  shows "writer_ok w' \<and> w_root w' = w_root w \<and> map_of (w_segs w') (segKey job pass) = Some seg \<and>
    (seg_list w' job pass = seg_list w job pass \<or> seg_list w' job pass = seg_list w job pass @ [[]]) \<and>
    (\<forall>j p. 0 \<le> j \<longrightarrow> 0 \<le> p \<longrightarrow> (j, p) \<noteq> (job, pass) \<longrightarrow> seg_list w' j p = seg_list w j p)"
proof (cases "map_of (w_segs w) (segKey job pass)")
  case None
  then have "openNext os job pass 0 w = (Inr seg, w')" using opn by (simp add: openSegment_def Let_def)
  from openNext_ok [OF w nn this] None show ?thesis by simp
next
  case (Some old)
  let ?w = "if os_sync os then w\<lparr>w_files := sync_file (seg_file old) (w_files w)\<rparr> else w"
  show ?thesis
  proof (cases "seg_size old < segmentMaxBytes")
    case True
    then have "w' = w" "seg = old" using opn Some by (auto simp: openSegment_def Let_def)
    then show ?thesis using w Some by simp
  next
    case False
    then have o: "openNext os job pass (Suc (seg_index old)) ?w = (Inr seg, w')"
      using opn Some by (simp add: openSegment_def Let_def)
    have "writer_ok ?w" using w by (simp add: writer_ok_sync)
    from openNext_ok [OF this nn o] Some show ?thesis by (auto split: if_splits)
  qed
qed

lemma Append_None:
  assumes "Append c os b w = (None, w')"
  obtains seg w1 env sz where
    "openSegment os (uint (jb_JobId b)) (uint (jb_PassNo b)) w = (Inr seg, w1)" "marshal c b = Some env"
    "w' = w1\<lparr>w_files := write_file (seg_file seg) (env_bytes env) (w_files w1),
       w_segs := AList.update (segKey (uint (jb_JobId b)) (uint (jb_PassNo b))) (seg\<lparr>seg_size := sz\<rparr>) (w_segs w1)\<rparr>"
  using assms by (auto simp: Append_def Let_def env_bytes_def split: sum.splits prod.splits option.splits if_splits)

lemma seg_list_Some:
  "map_of (w_segs w) (segKey j p) = Some seg \<Longrightarrow> seg_list w j p =
     map (\<lambda>i. f_data (file_of (passDir (w_root w) j p, segmentName i) (w_files w))) [0..<seg_index seg] @
     [f_data (file_of (passDir (w_root w) j p, segmentName (seg_index seg)) (w_files w))]"
  by (simp add: seg_list_def)

lemma write_segment_ok:
  assumes w: "writer_ok w" and nn: "0 \<le> job" "0 \<le> pass" and seg: "map_of (w_segs w) (segKey job pass) = Some seg"
    and w': "w' = w\<lparr>w_files := write_file (seg_file seg) bs (w_files w),
       w_segs := AList.update (segKey job pass) (seg\<lparr>seg_size := sz\<rparr>) (w_segs w)\<rparr>"
  shows "writer_ok w' \<and> seg_list w' job pass = butlast (seg_list w job pass) @ [last (seg_list w job pass) @ bs] \<and>
    (\<forall>j p. (j, p) \<noteq> (job, pass) \<longrightarrow> seg_list w' j p = seg_list w j p)"
proof -
  let ?d = "passDir (w_root w) job pass"
  note S = writer_okD(3) [OF w nn seg]
  have other: "segKey j p \<noteq> segKey job pass" "passDir (w_root w) j p \<noteq> ?d" if "(j, p) \<noteq> (job, pass)" for j p
    using that segKey_inj passDir_inj by blast+
  have seg': "map_of (w_segs w') (segKey job pass) = Some (seg\<lparr>seg_size := sz\<rparr>)" by (simp add: w' update_conv')
  have "seg_list w' job pass = butlast (seg_list w job pass) @ [last (seg_list w job pass) @ bs]"
    unfolding seg_list_Some [OF seg] seg_list_Some [OF seg'] using S by (simp add: w' file_of_write)
  moreover have "seg_list w' j p = seg_list w j p" if "(j, p) \<noteq> (job, pass)" for j p
    by (rule seg_list_cong) (use other [OF that] S in \<open>simp_all add: w' update_conv' file_of_write\<close>)
  moreover have "writer_ok w'"
    unfolding writer_ok_def
  proof (intro conjI allI impI)
    show "distinct (map fst (w_files w'))" using writer_okD(1) [OF w nn] by (simp add: w' distinct_write)
    fix j p :: int
    assume jp: "0 \<le> j" "0 \<le> p"
    show "pass_ok w' j p"
    proof (cases "(j, p) = (job, pass)")
      case True
      then show ?thesis using S by (simp add: pass_ok_def Let_def w' update_conv' names_write insert_absorb)
    next
      case False
      then show ?thesis using writer_okD(2,3) [OF w jp] other [OF False] S
        by (simp add: pass_ok_def Let_def w' update_conv' names_write split: option.splits)
    qed
  qed
  ultimately show ?thesis by blast
qed

lemma journal_refines_Append:
  assumes R: "journal_refines w J" and a: "Append c os b w = (None, w')" and m: "marshal c b = Some env"
  defines "k \<equiv> (uint (jb_JobId b), uint (jb_PassNo b))"
  shows "journal_refines w' (J(k := J k @ [(env, rs)]))"
proof -
  obtain job pass where jp: "job = uint (jb_JobId b)" "pass = uint (jb_PassNo b)" by blast
  have nn: "0 \<le> job" "0 \<le> pass" by (simp_all add: jp)
  have w: "writer_ok w" using R by (simp add: journal_refines_def)
  obtain seg w1 sz where o: "openSegment os job pass w = (Inr seg, w1)"
    and w': "w' = w1\<lparr>w_files := write_file (seg_file seg) (env_bytes env) (w_files w1),
       w_segs := AList.update (segKey job pass) (seg\<lparr>seg_size := sz\<rparr>) (w_segs w1)\<rparr>"
    using Append_None [OF a] m jp by (metis option.inject)
  note O = openSegment_ok [OF w nn o]
  have W: "writer_ok w'" "seg_list w' job pass = butlast (seg_list w1 job pass) @ [last (seg_list w1 job pass) @ env_bytes env]"
    "\<And>j p. (j, p) \<noteq> (job, pass) \<Longrightarrow> seg_list w' j p = seg_list w1 j p"
    using write_segment_ok [OF _ nn _ w'] O by blast+
  obtain ess where ess: "seg_list w job pass = map envs ess" "concat ess = J (job, pass)"
    using R nn by (auto simp: journal_refines_def)
  obtain ess1 where ess1: "seg_list w1 job pass = map envs ess1" "concat ess1 = J (job, pass)"
  proof (cases "seg_list w1 job pass = seg_list w job pass")
    case True
    then show thesis using ess that by metis
  next
    case False
    then have "seg_list w1 job pass = map envs (ess @ [[]])" using O ess(1) by auto
    then show thesis using ess(2) that [of "ess @ [[]]"] by simp
  qed
  have ne: "ess1 \<noteq> []"
    using seg_list_Some [of w1 job pass seg] O ess1(1) by auto
  let ?ess = "butlast ess1 @ [last ess1 @ [(env, rs)]]"
  have "seg_list w' job pass = map envs ?ess"
    unfolding W(2) ess1(1) using ne by (simp add: map_butlast last_map)
  moreover have "concat ?ess = J (job, pass) @ [(env, rs)]"
  proof -
    have "concat ?ess = concat (butlast ess1 @ [last ess1]) @ [(env, rs)]" by simp
    then show ?thesis using ess1(2) ne by simp
  qed
  moreover have "\<exists>ess. seg_list w' j p = map envs ess \<and> concat ess = J (j, p)" if "0 \<le> j" "0 \<le> p" "(j, p) \<noteq> (job, pass)" for j p
    using W(3) [OF that(3)] O that R by (auto simp: journal_refines_def)
  ultimately have "\<exists>ess. seg_list w' j p = map envs ess \<and> concat ess = (J(k := J k @ [(env, rs)])) (j, p)"
    if "0 \<le> j" "0 \<le> p" for j p
    using that by (cases "(j, p) = (job, pass)") (auto simp: k_def jp intro!: exI [of _ ?ess])
  then show ?thesis using W(1) by (simp add: journal_refines_def)
qed

subsection \<open>Reading back\<close>

lemma segmentName_less: "m < n \<Longrightarrow> n < 10 ^ 6 \<Longrightarrow> segmentName m < segmentName n"
proof -
  assume a: "m < n" "n < 10 ^ 6"
  have "length (fmt_nat 10 i) \<le> 6" if "i \<le> n" for i using length_fmt_nat [of i 5] a that by simp
  then have "length (fmt_06d m) = length (fmt_06d n)" using a by (simp add: fmt_06d_def)
  then have "fmt_06d m @ ''.drj'' < fmt_06d n @ ''.drj''" by (rule less_append_same) (rule fmt_06d_lex [OF a])
  then show ?thesis unfolding segmentName_def append_less_append .
qed

lemma segmentsOf_eq:
  assumes "distinct (map fst fs)" "names dir fs = segmentName ` {..<k}" "k \<le> 10 ^ 6"
  shows "segmentsOf dir fs = map segmentName [0..<k]"
proof (rule sorted_distinct_set_unique)
  let ?ns = "map (snd \<circ> fst) (filter (\<lambda>((d, n), f). d = dir \<and> segmentGlob n) fs)"
  have "?ns = map snd (filter (\<lambda>(d, n). d = dir \<and> segmentGlob n) (map fst fs))"
    by (induction fs) auto
  moreover have "distinct (map snd (filter (\<lambda>(d, n). d = dir \<and> segmentGlob n) (map fst fs)))"
    using distinct_filter [OF assms(1)] by (subst distinct_map) (auto simp: inj_on_def)
  ultimately show "distinct (segmentsOf dir fs)" by (simp add: segmentsOf_def)
  show "sorted (segmentsOf dir fs)" by (simp add: segmentsOf_def)
  have "sorted_wrt (<) [0..<k]" by simp
  then have "sorted_wrt (\<lambda>i j. segmentName i < segmentName j) [0..<k]"
    by (rule sorted_wrt_mono_rel [rotated]) (use assms(3) in \<open>auto intro: segmentName_less\<close>)
  then show "sorted (map segmentName [0..<k])"
    by (auto simp: sorted_map intro: sorted_wrt_mono_rel [rotated])
  show "distinct (map segmentName [0..<k])" by (simp add: distinct_map inj_on_def)
  have "set (segmentsOf dir fs) = {n \<in> names dir fs. segmentGlob n}"
    by (force simp: segmentsOf_def names_def image_iff)
  then show "set (segmentsOf dir fs) = set (map segmentName [0..<k])"
    using assms(2) by (auto simp: atLeast0LessThan)
qed

lemma readSegments_envs:
  "list_all (entry_ok jc) (concat ess) \<Longrightarrow>
   readSegments jc fn (map envs ess) s = deliver fn (recs (concat ess)) s"
proof (induction ess arbitrary: s)
  case (Cons es ess)
  then have "readSegment jc fn (envs es) s = deliver fn (recs es) s"
    using readSegment_entries [of jc es fn "[]" s] and_then_None [of "deliver fn (recs es) s"]
    by (simp add: readSegment_Nil [abs_def])
  moreover have "readSegments jc fn (map envs ess) = deliver fn (recs (concat ess))"
    using Cons by (auto simp: fun_eq_iff)
  ultimately show ?case by (auto simp: deliver_append and_then_def split: option.splits prod.splits)
qed simp

definition segments_named :: "journal_writer \<Rightarrow> int \<Rightarrow> int \<Rightarrow> bool" where
  "segments_named w job pass \<longleftrightarrow>
     (case map_of (w_segs w) (segKey job pass) of None \<Rightarrow> True | Some seg \<Rightarrow> seg_index seg < 10 ^ 6)"

lemma ReadRecords_refines:
  assumes R: "journal_refines w J" and nn: "0 \<le> job" "0 \<le> pass" and n: "segments_named w job pass"
    and ok: "list_all (entry_ok jc) (J (job, pass))"
  shows "ReadRecords jc (w_root w) job pass fn (w_files w) s = deliver fn (recs (J (job, pass))) s"
proof -
  let ?d = "passDir (w_root w) job pass"
  have w: "writer_ok w" using R by (simp add: journal_refines_def)
  obtain ess where ess: "seg_list w job pass = map envs ess" "concat ess = J (job, pass)"
    using R nn by (auto simp: journal_refines_def)
  have "map (\<lambda>n. f_data (file_of (?d, n) (w_files w))) (segmentsOf ?d (w_files w)) = seg_list w job pass"
  proof (cases "map_of (w_segs w) (segKey job pass)")
    case None
    then show ?thesis
      using segmentsOf_eq [OF writer_okD(1) [OF w nn], of ?d 0] writer_okD(2) [OF w nn] by (simp add: seg_list_def)
  next
    case (Some seg)
    then show ?thesis
      using segmentsOf_eq [OF writer_okD(1) [OF w nn], of ?d "Suc (seg_index seg)"] writer_okD(3) [OF w nn Some] n
      by (simp add: seg_list_def segments_named_def lessThan_Suc_atMost comp_def del: upt_Suc)
  qed
  then show ?thesis using ess ok readSegments_envs [of jc ess fn s] by (simp add: ReadRecords_def Let_def)
qed

lemma journal_refines_new: "journal_refines (NewWriter rootDir []) (\<lambda>_. [])"
  by (simp add: journal_refines_def writer_ok_def pass_ok_def NewWriter_def names_def seg_list_def)

text \<open>A run of appends, all of which succeed.\<close>

fun append_all :: "JournalBatch codec \<Rightarrow> (append_os \<times> JournalBatch) list \<Rightarrow> journal_writer \<Rightarrow> journal_writer option" where
  "append_all c [] w = Some w"
| "append_all c ((os, b) # bs) w =
     (case Append c os b w of (None, w') \<Rightarrow> append_all c bs w' | (Some e, w') \<Rightarrow> None)"

text \<open>What the batches of a pass hold, by the codecs.\<close>

definition batch_key :: "JournalBatch \<Rightarrow> int \<times> int" where
  "batch_key b = (uint (jb_JobId b), uint (jb_PassNo b))"

definition batch_ok :: "journal_codecs \<Rightarrow> (JournalBatch \<Rightarrow> JournalRecord list) \<Rightarrow> JournalBatch \<Rightarrow> bool" where
  "batch_ok jc records b \<longleftrightarrow>
     (case marshal (jc_batch jc) b of None \<Rightarrow> False | Some env \<Rightarrow> length env < 2 ^ 32) \<and>
     (case jc_zstd jc (jb_RecordsZstd b) of None \<Rightarrow> False
      | Some raw \<Rightarrow> carries (unmarshal (jc_record jc)) raw (records b))"

definition entries_of :: "journal_codecs \<Rightarrow> (JournalBatch \<Rightarrow> JournalRecord list) \<Rightarrow> int \<times> int \<Rightarrow> JournalBatch list \<Rightarrow>
    (bytes \<times> JournalRecord list) list" where
  "entries_of jc records k bs = map (\<lambda>b. (the (marshal (jc_batch jc) b), records b)) (filter (\<lambda>b. batch_key b = k) bs)"

lemma append_all_refines:
  "append_all (jc_batch jc) obs w = Some w' \<Longrightarrow> journal_refines w J \<Longrightarrow> list_all (batch_ok jc records) (map snd obs) \<Longrightarrow>
   journal_refines w' (\<lambda>k. J k @ entries_of jc records k (map snd obs)) \<and> w_root w' = w_root w"
proof (induction obs arbitrary: w J)
  case Nil
  then show ?case by (simp add: entries_of_def)
next
  case (Cons ob obs)
  obtain os b where ob: "ob = (os, b)" by force
  obtain w1 where a: "Append (jc_batch jc) os b w = (None, w1)" and r: "append_all (jc_batch jc) obs w1 = Some w'"
    using Cons.prems(1) ob by (auto split: option.splits prod.splits)
  obtain env where m: "marshal (jc_batch jc) b = Some env"
    using Cons.prems(3) ob by (auto simp: batch_ok_def split: option.splits)
  let ?J = "J(batch_key b := J (batch_key b) @ [(env, records b)])"
  have "journal_refines w1 ?J" using journal_refines_Append [OF Cons.prems(2) a m] by (simp add: batch_key_def)
  moreover have "list_all (batch_ok jc records) (map snd obs)" using Cons.prems(3) ob by simp
  ultimately have "journal_refines w' (\<lambda>k. ?J k @ entries_of jc records k (map snd obs)) \<and> w_root w' = w_root w1"
    by (intro Cons.IH r)
  moreover have "(\<lambda>k. ?J k @ entries_of jc records k (map snd obs)) =
      (\<lambda>k. J k @ entries_of jc records k (map snd (ob # obs)))"
    by (auto simp: fun_eq_iff entries_of_def ob m)
  moreover have "w_root w1 = w_root w"
    using a by (auto simp: Append_def openSegment_def openNext_def Let_def split: option.splits prod.splits sum.splits if_splits)
  ultimately show ?case by simp
qed

subsection \<open>Outcomes that write nothing\<close>

lemma journal_refines_cong:
  "journal_refines w J \<Longrightarrow> writer_ok w' \<Longrightarrow>
   (\<And>j p. 0 \<le> j \<Longrightarrow> 0 \<le> p \<Longrightarrow> seg_list w' j p = seg_list w j p \<or> seg_list w' j p = seg_list w j p @ [[]]) \<Longrightarrow>
   journal_refines w' J"
  unfolding journal_refines_def
proof (intro conjI allI impI)
  fix j p :: int
  assume R: "writer_ok w \<and> (\<forall>job\<ge>0. \<forall>pass\<ge>0. \<exists>ess. seg_list w job pass = map envs ess \<and> concat ess = J (job, pass))"
    and c: "\<And>j p. 0 \<le> j \<Longrightarrow> 0 \<le> p \<Longrightarrow> seg_list w' j p = seg_list w j p \<or> seg_list w' j p = seg_list w j p @ [[]]"
    and jp: "0 \<le> j" "0 \<le> p"
  obtain ess where e: "seg_list w j p = map envs ess" "concat ess = J (j, p)" using R jp by blast
  show "\<exists>ess. seg_list w' j p = map envs ess \<and> concat ess = J (j, p)"
    using c [OF jp]
  proof
    assume "seg_list w' j p = seg_list w j p @ [[]]"
    then have "seg_list w' j p = map envs (ess @ [[]])" "concat (ess @ [[]]) = J (j, p)" using e by simp_all
    then show ?thesis by blast
  qed (use e in auto)
qed

lemma openSegment_refines:
  assumes "journal_refines w J" "0 \<le> job" "0 \<le> pass" "openSegment os job pass w = (r, w')"
  shows "journal_refines w' J"
proof (cases r)
  case (Inl e)
  then have "w' = w \<or> (\<exists>k. w' = w\<lparr>w_files := sync_file k (w_files w)\<rparr>)"
    using assms(4) by (auto simp: openSegment_def openNext_def Let_def simp del: split_paired_Ex split: option.splits if_splits)
  then show ?thesis
    using assms(1) writer_ok_sync by (auto intro!: journal_refines_cong [OF assms(1)] simp: journal_refines_def)
next
  case (Inr seg)
  have w: "writer_ok w" using assms(1) by (simp add: journal_refines_def)
  note O = openSegment_ok [OF w assms(2,3) assms(4) [unfolded Inr]]
  show ?thesis
  proof (rule journal_refines_cong [OF assms(1)])
    show "writer_ok w'" using O by blast
    show "seg_list w' j p = seg_list w j p \<or> seg_list w' j p = seg_list w j p @ [[]]" if "0 \<le> j" "0 \<le> p" for j p
      using O that by (cases "(j, p) = (job, pass)") auto
  qed
qed

section \<open>Durability\<close>

text \<open>Every file that is not an open segment has been synced to its end.\<close>

definition open_file :: "journal_writer \<Rightarrow> file_key \<Rightarrow> bool" where
  "open_file w k \<longleftrightarrow> (\<exists>key seg. map_of (w_segs w) key = Some seg \<and> seg_file seg = k)"

definition closed_synced :: "journal_writer \<Rightarrow> bool" where
  "closed_synced w \<longleftrightarrow> (\<forall>(k, f) \<in> set (w_files w). open_file w k \<or> f_synced f = length (f_data f))"

lemma in_sync_file:
  assumes d: "distinct (map fst fs)" and i: "(k, f) \<in> set (sync_file k' fs)"
  shows "k = k' \<and> f_synced f = length (f_data f) \<or> k \<noteq> k' \<and> (k, f) \<in> set fs"
proof (cases "map_of fs k'")
  case None
  then have "k' \<notin> fst ` set fs" by (simp add: map_of_eq_None_iff)
  then have "k \<noteq> k'" using i None by (force simp: sync_file_def)
  then show ?thesis using i None by (simp add: sync_file_def)
next
  case (Some g)
  have m: "map_of (sync_file k' fs) k = Some f" using i distinct_sync [OF d] by (simp add: map_of_eq_Some_iff)
  moreover have "map_of (sync_file k' fs) k = (if k = k' then Some (g\<lparr>f_synced := length (f_data g)\<rparr>) else map_of fs k)"
    using Some by (simp add: sync_file_def update_conv')
  ultimately show ?thesis using map_of_SomeD [of fs k f] by (auto split: if_splits)
qed

lemma fold_sync_all:
  "distinct (map fst fs) \<Longrightarrow> (\<forall>(k, f) \<in> set fs. k \<in> K \<or> f_synced f = length (f_data f)) \<Longrightarrow>
   \<forall>(k, f) \<in> set (fold sync_file ks fs). k \<in> K - set ks \<or> f_synced f = length (f_data f)"
proof (induction ks arbitrary: fs K)
  case (Cons x ks)
  have "\<forall>(k, f) \<in> set (sync_file x fs). k \<in> K - {x} \<or> f_synced f = length (f_data f)"
  proof clarify
    fix a b f
    assume f: "((a, b), f) \<in> set (sync_file x fs)" "f_synced f \<noteq> length (f_data f)"
    then have "(a, b) \<noteq> x" "((a, b), f) \<in> set fs" using in_sync_file [OF Cons.prems(1) f(1)] by simp_all
    then show "(a, b) \<in> K - {x}" using f(2) Cons.prems(2) by auto
  qed
  moreover have "K - {x} - set ks = K - set (x # ks)" by auto
  ultimately show ?case using Cons.IH [OF distinct_sync [OF Cons.prems(1)], of x "K - {x}"] by simp
qed simp

lemma Flush_durable:
  assumes "closed_synced w" "distinct (map fst (w_files w))" "Flush ok w = (True, w')"
  shows "w_files (crash keep w') = w_files w'"
proof -
  let ?ks = "map (seg_file \<circ> snd) (w_segs w)"
  have w': "w' = w\<lparr>w_files := fold sync_file ?ks (w_files w)\<rparr>"
    using assms(3) by (auto simp: Flush_def Let_def list_all_iff filter_True)
  have "\<forall>(k, f) \<in> set (w_files w'). k \<in> {} \<or> f_synced f = length (f_data f)"
  proof -
    have e: "{k. open_file w k} - set ?ks = {}" by (force simp: open_file_def dest: map_of_SomeD)
    show ?thesis
      using fold_sync_all [OF assms(2), of "{k. open_file w k}" ?ks, unfolded e] assms(1) by (simp add: w' closed_synced_def)
  qed
  then have "map (\<lambda>(k, f). (k, f\<lparr>f_data := take (max (f_synced f) (keep k)) (f_data f)\<rparr>)) (w_files w') = w_files w'"
    by (intro map_idI) auto
  then show ?thesis by (simp add: crash_def NewWriter_def)
qed

lemma in_write_file:
  assumes "distinct (map fst fs)" "(k, f) \<in> set (write_file k' bs fs)"
  shows "k = k' \<or> (k, f) \<in> set fs"
proof -
  have "map_of (write_file k' bs fs) k = Some f" using assms(2) distinct_write [OF assms(1)] by (simp add: map_of_eq_Some_iff)
  then show ?thesis using map_of_SomeD [of fs k f] by (auto simp: write_file_def update_conv' split: if_splits)
qed

lemma closed_synced_write:
  assumes "closed_synced w" "distinct (map fst (w_files w))" "open_file w' k" "\<And>k. open_file w k \<Longrightarrow> open_file w' k"
    "w_files w' = write_file k bs (w_files w)"
  shows "closed_synced w'"
  unfolding closed_synced_def
proof clarify
  fix a b f
  assume f: "((a, b), f) \<in> set (w_files w')" "f_synced f \<noteq> length (f_data f)"
  show "open_file w' (a, b)"
  proof (cases "(a, b) = k")
    case False
    then have "((a, b), f) \<in> set (w_files w)" using in_write_file [OF assms(2), of "(a, b)" f k bs] f(1) assms(5) by simp
    then show ?thesis using assms(1,4) f(2) by (auto simp: closed_synced_def)
  qed (use assms(3) in simp)
qed

lemma open_file_update:
  "w_segs w' = AList.update key seg (w_segs w) \<Longrightarrow>
   open_file w' k \<longleftrightarrow> seg_file seg = k \<or> (\<exists>key' s. key' \<noteq> key \<and> map_of (w_segs w) key' = Some s \<and> seg_file s = k)"
  by (auto simp: open_file_def update_conv')

lemma openSegment_synced:
  assumes "closed_synced w" "writer_ok w" "0 \<le> job" "0 \<le> pass" "openSegment os job pass w = (r, w')" "os_sync os"
  shows "closed_synced w'"
proof -
  let ?key = "segKey job pass"
  have d: "distinct (map fst (w_files w))" using assms(2) by (simp add: writer_ok_def)
  have nxt: "closed_synced w2"
    if on: "openNext os job pass nx w1 = (r2, w2)" and cs: "closed_synced w1" and dd: "distinct (map fst (w_files w1))"
      and sy: "\<And>old f. map_of (w_segs w1) ?key = Some old \<Longrightarrow> (seg_file old, f) \<in> set (w_files w1) \<Longrightarrow> f_synced f = length (f_data f)"
    for nx w1 r2 w2
  proof (cases "os_mkdir os \<and> os_open os")
    case True
    let ?k = "(passDir (w_root w1) job pass, segmentName nx)"
    obtain seg where w2: "w2 = w1\<lparr>w_files := write_file ?k [] (w_files w1), w_segs := AList.update ?key seg (w_segs w1)\<rparr>"
      and sk: "seg_file seg = ?k"
      using on True by (auto simp: openNext_def Let_def)
    note O = open_file_update [of w2 ?key seg w1]
    show ?thesis
      unfolding closed_synced_def
    proof clarify
      fix a b f
      assume f: "((a, b), f) \<in> set (w_files w2)" "f_synced f \<noteq> length (f_data f)"
      have "(a, b) = ?k \<or> ((a, b), f) \<in> set (w_files w1)"
        using in_write_file [OF dd, of "(a, b)" f ?k "[]"] f(1) by (simp add: w2)
      then show "open_file w2 (a, b)"
      proof
        assume "((a, b), f) \<in> set (w_files w1)"
        then obtain key s where s: "map_of (w_segs w1) key = Some s" "seg_file s = (a, b)"
          using cs f(2) by (auto simp: closed_synced_def open_file_def)
        then have "key \<noteq> ?key" using sy f(2) \<open>((a, b), f) \<in> set (w_files w1)\<close> by metis
        then show ?thesis using s O by (auto simp: w2)
      qed (use O sk in \<open>simp add: w2\<close>)
    qed
  qed (use on cs in \<open>auto simp: openNext_def Let_def split: if_splits\<close>)
  show ?thesis
  proof (cases "map_of (w_segs w) ?key")
    case None
    then show ?thesis using assms(5) by (intro nxt [of 0 w r, OF _ assms(1) d]) (simp_all add: openSegment_def Let_def)
  next
    case (Some old)
    let ?w = "w\<lparr>w_files := sync_file (seg_file old) (w_files w)\<rparr>"
    have sync: "f_synced f = length (f_data f)" if "(seg_file old, f) \<in> set (w_files ?w)" for f
      using in_sync_file [OF d, of "seg_file old" f "seg_file old"] that by simp
    have "closed_synced ?w"
      unfolding closed_synced_def
    proof clarify
      fix a b f
      assume "((a, b), f) \<in> set (w_files ?w)" "f_synced f \<noteq> length (f_data f)"
      then have "((a, b), f) \<in> set (w_files w)" using in_sync_file [OF d, of "(a, b)" f "seg_file old"] by simp
      then show "open_file ?w (a, b)" using assms(1) \<open>f_synced f \<noteq> length (f_data f)\<close>
        by (auto simp: closed_synced_def open_file_def)
    qed
    then show ?thesis
      using assms(1,5,6) Some nxt [of "Suc (seg_index old)" ?w r w'] sync distinct_sync [OF d]
      by (auto simp: openSegment_def Let_def split: if_splits)
  qed
qed

lemma open_file_same_segs: "w_segs w' = w_segs w \<Longrightarrow> open_file w' k = open_file w k"
  by (simp add: open_file_def)

lemma Append_synced:
  assumes "closed_synced w" "journal_refines w J" "Append c os b w = (r, w')" "os_sync os"
  shows "closed_synced w' \<and> distinct (map fst (w_files w'))"
proof -
  obtain job pass where jp: "job = uint (jb_JobId b)" "pass = uint (jb_PassNo b)" by blast
  have nn: "0 \<le> job" "0 \<le> pass" by (simp_all add: jp)
  have w: "writer_ok w" using assms(2) by (simp add: journal_refines_def)
  obtain r1 w1 where o: "openSegment os job pass w = (r1, w1)" by force
  have c1: "closed_synced w1" by (rule openSegment_synced [OF assms(1) w nn o assms(4)])
  have d1: "distinct (map fst (w_files w1))"
    using openSegment_refines [OF assms(2) nn o] by (simp add: journal_refines_def writer_ok_def)
  show ?thesis
  proof (cases "w' = w1")
    case True
    then show ?thesis using c1 d1 by simp
  next
    case False
    then obtain seg bs where seg: "r1 = Inr seg" and fs: "w_files w' = write_file (seg_file seg) bs (w_files w1)"
      and segs: "w_segs w' = w_segs w1 \<or> (\<exists>sz. w_segs w' = AList.update (segKey job pass) (seg\<lparr>seg_size := sz\<rparr>) (w_segs w1))"
      using assms(3) o unfolding jp
      by (auto simp: Append_def Let_def split: sum.splits option.splits if_splits) blast+
    have ms: "map_of (w_segs w1) (segKey job pass) = Some seg" using openSegment_ok [OF w nn] o seg by blast
    have same: "open_file w1 k \<longleftrightarrow> open_file w' k" for k
      using segs
    proof
      assume "\<exists>sz. w_segs w' = AList.update (segKey job pass) (seg\<lparr>seg_size := sz\<rparr>) (w_segs w1)"
      then obtain sz where s: "w_segs w' = AList.update (segKey job pass) (seg\<lparr>seg_size := sz\<rparr>) (w_segs w1)" by blast
      have "open_file w1 k \<longleftrightarrow> seg_file seg = k \<or> (\<exists>key' s. key' \<noteq> segKey job pass \<and> map_of (w_segs w1) key' = Some s \<and> seg_file s = k)"
        unfolding open_file_def using ms by (metis option.inject)
      then show ?thesis unfolding open_file_update [OF s] by simp
    qed (simp add: open_file_def)
    have "open_file w1 (seg_file seg)" using ms unfolding open_file_def by blast
    then have "open_file w' (seg_file seg)" using same by blast
    then have "closed_synced w'" by (rule closed_synced_write [OF c1 d1]) (use same fs in simp_all)
    then show ?thesis using d1 by (simp add: fs distinct_write)
  qed
qed

section \<open>Histograms\<close>

lemma deliver_orphans:
  "deliver orphanFn rs seen = (None, fold (\<lambda>r seen. if jr_Type r = JR_ORPHAN then List.insert (jr_RelPath r) seen else seen) rs seen)"
  by (induction rs arbitrary: seen) (auto simp: orphanFn_def)

lemma fold_insert_orphans:
  "distinct seen \<Longrightarrow>
   distinct (fold (\<lambda>r seen. if jr_Type r = JR_ORPHAN then List.insert (jr_RelPath r) seen else seen) rs seen) \<and>
   set (fold (\<lambda>r seen. if jr_Type r = JR_ORPHAN then List.insert (jr_RelPath r) seen else seen) rs seen) =
     set seen \<union> jr_RelPath ` {r \<in> set rs. jr_Type r = JR_ORPHAN}"
  by (induction rs arbitrary: seen) auto

lemma summaryFn_step:
  "summaryFn r (seen, hist, n) = (None, if summaryKey r \<in> set seen then (seen, hist, n)
     else (summaryKey r # seen, bump_type (TrimPrefix (typeName (jr_Type r)) ''JR_'') hist, n + 1))"
  by (simp add: summaryFn_def)

lemma deliver_summary:
  "deliver summaryFn rs (seen, hist, n) = (None, sn, h', m) \<Longrightarrow> distinct seen \<Longrightarrow>
   distinct sn \<and> set sn = set seen \<union> summaryKey ` set rs \<and> m - n = int (length sn) - int (length seen)"
proof (induction rs arbitrary: seen hist n)
  case (Cons r rs)
  show ?case
  proof (cases "summaryKey r \<in> set seen")
    case True
    then have "deliver summaryFn rs (seen, hist, n) = (None, sn, h', m)" using Cons.prems(1) by (simp add: summaryFn_step)
    from Cons.IH [OF this Cons.prems(2)] True show ?thesis by auto
  next
    case False
    then have "deliver summaryFn rs (summaryKey r # seen, bump_type (TrimPrefix (typeName (jr_Type r)) ''JR_'') hist, n + 1) = (None, sn, h', m)"
      using Cons.prems(1) by (simp add: summaryFn_step)
    from Cons.IH [OF this] Cons.prems(2) False show ?thesis by auto
  qed
qed simp

lemma deliver_summary_ok: "fst (deliver summaryFn rs st) = None"
proof (induction rs arbitrary: st)
  case (Cons r rs)
  then show ?case by (cases st) (simp add: summaryFn_step)
qed simp

text \<open>What every callback keeps, reading a pass keeps, whatever the files hold.\<close>

lemma forEachRecord_inv:
  assumes "\<And>r s. P s \<Longrightarrow> P (snd (fn r s))"
  shows "P s \<Longrightarrow> P (snd (forEachRecord unm fn raw off s))"
proof (induction "length raw - off" arbitrary: off s rule: less_induct)
  case less
  obtain l n where u: "Uvarint (drop off raw) = (l, n)" by force
  let ?e = "sint (word_of_int (int off + n) + l :: u64)"
  have nxt: "P (snd (forEachRecord unm fn raw (nat ?e) (snd (fn r s))))"
    if "off < length raw" "0 < n" "int off + n \<le> ?e" "?e \<le> int (length raw)" for r
  proof (rule less.hyps)
    have "int off < ?e" using that by linarith
    then show "length raw - nat ?e < length raw - off" using that(1,4) by linarith
  qed (rule assms [OF less.prems])
  show ?case
    by (subst forEachRecord.simps)
      (use less.prems nxt assms u in \<open>auto simp: Let_def split: option.splits prod.splits, (metis snd_conv)+\<close>)
qed

lemma readSegment_inv:
  assumes "\<And>r s. P s \<Longrightarrow> P (snd (fn r s))"
  shows "P s \<Longrightarrow> P (snd (readSegment jc fn data s))"
proof (induction "length data" arbitrary: data s rule: less_induct)
  case less
  show ?case
  proof (cases "length data < 4")
    case True
    then show ?thesis using less.prems by (subst readSegment.simps) simp
  next
    case False
    let ?n = "unat (Uint32 (take 4 data))"
    have nxt: "P (snd (readSegment jc fn (drop ?n (drop 4 data)) s'))" if "P s'" for s'
      by (rule less.hyps [OF _ that]) (use False in simp)
    have "P (snd (forEachRecord (unmarshal (jc_record jc)) fn raw 0 s))" for raw
      by (rule forEachRecord_inv [OF assms less.prems])
    then show ?thesis using less.prems nxt
      by (subst readSegment.simps) (auto simp: Let_def split: option.splits prod.splits, (metis snd_conv)+)
  qed
qed

lemma ReadRecords_inv:
  assumes "\<And>r s. P s \<Longrightarrow> P (snd (fn r s))" "P s"
  shows "P (snd (ReadRecords jc rootDir job pass fn fs s))"
proof -
  have "P (snd (readSegments jc fn segs s))" for segs
    using assms(2)
  proof (induction segs arbitrary: s)
    case (Cons f segs)
    have "P (snd (readSegment jc fn f s))" by (rule readSegment_inv [OF assms(1) Cons.prems])
    then show ?case using Cons.IH by (auto split: prod.splits option.splits)
  qed simp
  then show ?thesis by (simp add: ReadRecords_def Let_def)
qed

section \<open>Properties\<close>

lemma entries_ok:
  "codec_ok (jc_batch jc) \<Longrightarrow> list_all (batch_ok jc records) bs \<Longrightarrow> list_all (entry_ok jc) (entries_of jc records k bs)"
  by (induction bs) (auto simp: entries_of_def batch_ok_def entry_ok_def split: option.splits dest: codec_okD)

text \<open>
  (C4) The journal is a faithful log: after any run of successful appends, for any mix of jobs and
  passes and across any number of segment roll-overs, reading a pass hands the callback exactly the
  records of that pass's batches, in the order they were appended, stopping where the callback fails.
\<close>

theorem journal_roundtrip:
  assumes "codec_ok (jc_batch jc)" "append_all (jc_batch jc) obs (NewWriter rootDir []) = Some w"
    and "list_all (batch_ok jc records) (map snd obs)" "0 \<le> job" "0 \<le> pass" "segments_named w job pass"
  shows "ReadRecords jc rootDir job pass fn (w_files w) s =
    deliver fn (concat (map records (filter (\<lambda>b. batch_key b = (job, pass)) (map snd obs)))) s"
proof -
  let ?J = "\<lambda>k. entries_of jc records k (map snd obs)"
  have R: "journal_refines w ?J \<and> w_root w = rootDir"
    using append_all_refines [OF assms(2) journal_refines_new assms(3)] by (simp add: NewWriter_def)
  have "recs (?J (job, pass)) = concat (map records (filter (\<lambda>b. batch_key b = (job, pass)) (map snd obs)))"
    by (simp add: recs_def entries_of_def comp_def)
  then show ?thesis
    using ReadRecords_refines [OF conjunct1 [OF R] assms(4-6), of jc fn s] entries_ok [OF assms(1,3)] R by auto
qed

text \<open>
  Each \<open>Append\<close> refines one step of the abstract journal on every outcome that leaves the files
  whole: success adds exactly the marshalled batch to the end of its own pass, a refused directory or
  file and a batch that does not marshal change nothing, and every other pass is untouched.
\<close>

theorem Append_refines:
  assumes "journal_refines w J" "Append c os b w = (r, w')"
  shows "(r = None \<longrightarrow> (\<exists>env. marshal c b = Some env \<and>
      journal_refines w' (J(batch_key b := J (batch_key b) @ [(env, rs)])))) \<and>
    (r \<in> {Some MkdirError, Some OpenError, Some MarshalFailed} \<longrightarrow> journal_refines w' J)"
proof (intro conjI impI)
  assume n: "r = None"
  obtain env where "marshal c b = Some env" by (rule Append_None [OF assms(2) [unfolded n]])
  then show "\<exists>env. marshal c b = Some env \<and> journal_refines w' (J(batch_key b := J (batch_key b) @ [(env, rs)]))"
    using journal_refines_Append [OF assms(1) assms(2) [unfolded n]] unfolding batch_key_def by blast
next
  assume r: "r \<in> {Some MkdirError, Some OpenError, Some MarshalFailed}"
  obtain r1 w1 where o: "openSegment os (uint (jb_JobId b)) (uint (jb_PassNo b)) w = (r1, w1)" by force
  then have "w' = w1" using assms(2) r
    by (auto simp: Append_def Let_def split: sum.splits option.splits if_splits)
  then show "journal_refines w' J" using openSegment_refines [OF assms(1) _ _ o] by simp
qed

text \<open>
  A segment that was cut off anywhere still yields every batch that is whole in it: the records of
  the complete envelopes are delivered in order, the torn one contributes nothing, and the reader ends
  without an error, except that a cut inside the four header bytes is reported as a truncated header.
\<close>

theorem torn_segment:
  assumes "list_all (entry_ok jc) es" "prefix data (envs es)"
  shows "\<exists>n t. data = envs (take n es) @ t \<and> (t = [] \<or> n < length es \<and> strict_prefix t (env_bytes (fst (es ! n)))) \<and>
    readSegment jc fn data s = and_then (deliver fn (recs (take n es)) s)
      (\<lambda>s. (if t \<noteq> [] \<and> length t < 4 then Some TruncatedHeader else None, s))"
  using assms
proof (induction es arbitrary: data s)
  case Nil
  then show ?case by (intro exI [of _ 0] exI [of _ "[]"]) simp
next
  case (Cons e es)
  have eo: "entry_ok jc e" and e: "list_all (entry_ok jc) [e]" "list_all (entry_ok jc) es"
    using Cons.prems(1) by simp_all
  then have e: "length (fst e) < 2 ^ 32" "list_all (entry_ok jc) [e]" "list_all (entry_ok jc) es"
    by (simp_all only: entry_ok_def [of jc e])
  show ?case
  proof (cases "prefix (env_bytes (fst e)) data")
    case True
    then obtain rest where d: "data = env_bytes (fst e) @ rest" by (auto simp: prefix_def)
    then have "prefix rest (envs es)" using Cons.prems(2) by simp
    from Cons.IH [OF e(3) this] obtain n t where I: "rest = envs (take n es) @ t"
      "t = [] \<or> n < length es \<and> strict_prefix t (env_bytes (fst (es ! n)))" by blast
    have h: "list_all (entry_ok jc) (take (Suc n) (e # es))" using e by (auto simp: list_all_iff dest: in_set_takeD)
    have dt: "data = envs (take (Suc n) (e # es)) @ t" using d I(1) by simp
    have "readSegment jc fn t = (\<lambda>s. (if t \<noteq> [] \<and> length t < 4 then Some TruncatedHeader else None, s))"
    proof (cases "t = []")
      case False
      then have "n < length es" "strict_prefix t (env_bytes (fst (es ! n)))" using I(2) by auto
      moreover have "length (fst (es ! n)) < 2 ^ 32"
        using e(3) \<open>n < length es\<close> by (auto simp: list_all_length entry_ok_def)
      ultimately show ?thesis using False readSegment_torn [of "fst (es ! n)" t jc fn] by (intro ext) simp
    qed (simp add: fun_eq_iff)
    then have "readSegment jc fn data s = and_then (deliver fn (recs (take (Suc n) (e # es))) s)
        (\<lambda>s. (if t \<noteq> [] \<and> length t < 4 then Some TruncatedHeader else None, s))"
      unfolding dt readSegment_entries [OF h] by simp
    then show ?thesis using dt I(2) by (intro exI [of _ "Suc n"] exI [of _ t]) auto
  next
    case False
    then have "strict_prefix data (env_bytes (fst e))"
      using Cons.prems(2) by (auto simp: prefix_append prefix_order.less_le)
    then show ?thesis using readSegment_torn [OF e(1), of data jc fn s]
      by (intro exI [of _ 0] exI [of _ data]) auto
  qed
qed

text \<open>
  A flushed journal survives a crash: if every file that is no longer open was synced when it was
  rolled over, then after \<open>Flush\<close> reports success a crash that loses any unsynced tail of any file leaves
  every file as it was; and \<open>Append\<close> keeps the premise, whatever else fails, as long as the fsync of the
  full segment succeeds.
\<close>

theorem flushed_journal_durable:
  assumes "journal_refines w J" "closed_synced w"
  shows "(Flush ok w = (True, w1) \<longrightarrow> w_files (crash keep w1) = w_files w1) \<and>
    (os_sync os \<and> Append c os b w = (r, w2) \<longrightarrow> closed_synced w2)"
proof -
  have "distinct (map fst (w_files w))" using assms(1) by (simp add: journal_refines_def writer_ok_def)
  then show ?thesis using Flush_durable [OF assms(2)] Append_synced [OF assms(2,1)] by blast
qed

text \<open>
  A delete pass is fed exactly the orphans of the pass before it: \<open>Orphans\<close> returns the paths of
  the orphan records, sorted and without duplicates; and \<open>Summary\<close> counts every \<open>(type, path)\<close>
  of a pass once, however often a re-run shard repeated the record.
\<close>

theorem orphans_and_summary:
  assumes "journal_refines w J" "0 \<le> job" "0 \<le> pass" "segments_named w job pass" "list_all (entry_ok jc) (J (job, pass))"
  shows "(\<exists>out. journal_Orphans jc (w_root w) job pass (w_files w) = Inr out \<and> sorted out \<and> distinct out \<and>
      set out = jr_RelPath ` {r \<in> set (recs (J (job, pass))). jr_Type r = JR_ORPHAN}) \<and>
    (\<exists>hist. journal_Summary jc (w_root w) job [pass] (w_files w) =
      Inr (hist, int (card (summaryKey ` set (recs (J (job, pass)))))))"
proof -
  let ?rs = "recs (J (job, pass))"
  note R = ReadRecords_refines [OF assms]
  let ?seen = "fold (\<lambda>r seen. if jr_Type r = JR_ORPHAN then List.insert (jr_RelPath r) seen else seen) ?rs []"
  have "journal_Orphans jc (w_root w) job pass (w_files w) = Inr (sort ?seen)"
    by (simp add: journal_Orphans_def R deliver_orphans)
  moreover have "distinct (sort ?seen)" "set (sort ?seen) = jr_RelPath ` {r \<in> set ?rs. jr_Type r = JR_ORPHAN}"
    using fold_insert_orphans [of "[]" ?rs] by simp_all
  moreover obtain sn hist m where s: "deliver summaryFn ?rs ([], [], 0) = (None, sn, hist, m)"
    using deliver_summary_ok [of ?rs "([], [], 0)"] by (metis prod.exhaust_sel)
  moreover have "m = int (card (summaryKey ` set ?rs))"
    using deliver_summary [OF s] distinct_card [of sn] by simp
  ultimately show ?thesis by (auto simp: journal_Summary_def R)
qed

text \<open>A small journal: two batches of one orphan record each, in one pass.\<close>

definition sample_record :: JournalRecord where
  "sample_record = \<lparr>jr_Type = JR_ORPHAN, jr_RelPath = ''x'', jr_TsNs = 0, jr_Src = None, jr_Dst = None,
     jr_Xxh3Lo = 0, jr_Xxh3Hi = 0, jr_Errno = 0, jr_Detail = ''''\<rparr>"

definition sample_batch :: JournalBatch where
  "sample_batch = \<lparr>jb_Seq = 1, jb_JobId = 1, jb_PassNo = 1, jb_RecordCount = 1, jb_RecordsZstd = [7]\<rparr>"

definition sample_codec :: "JournalBatch codec" where
  "sample_codec = \<lparr>marshal = (\<lambda>b. if b = sample_batch then Some [1, 2, 3] else None),
     unmarshal = (\<lambda>bs. if bs = [1, 2, 3] then Some sample_batch else None)\<rparr>"

text \<open>The codecs of a journal whose one record is \<open>r\<close>.\<close>

definition sample_jc :: "JournalRecord \<Rightarrow> journal_codecs" where
  "sample_jc r = \<lparr>jc_batch = sample_codec,
     jc_record = \<lparr>marshal = (\<lambda>x. if x = r then Some [1] else None),
                  unmarshal = (\<lambda>bs. if bs = [1] then Some r else None)\<rparr>,
     jc_zstd = (\<lambda>bs. if bs = [7] then Some [1, 1] else None)\<rparr>"

definition sample_journal :: journal_writer where
  "sample_journal = (case append_all sample_codec [(os_ok, sample_batch), (os_ok, sample_batch)] (NewWriter ''/j'' []) of
     None \<Rightarrow> NewWriter '''' [] | Some w \<Rightarrow> w)"

definition sample_entries :: "JournalRecord \<Rightarrow> int \<times> int \<Rightarrow> (bytes \<times> JournalRecord list) list" where
  "sample_entries r k = (if k = (1, 1) then [([1, 2, 3], [r]), ([1, 2, 3], [r])] else [])"

lemma sample_jc_batch [simp]: "jc_batch (sample_jc r) = sample_codec"
  by (simp add: sample_jc_def)

lemma sample_codec_ok: "codec_ok (jc_batch (sample_jc r))"
  by (simp add: codec_ok_def sample_codec_def)

lemma sample_carries: "carries (unmarshal (jc_record (sample_jc r))) [1, 1] [r]"
proof -
  have "concat (map rec_bytes [[1]]) = [1, 1]" by code_simp
  then show ?thesis unfolding carries_def
    by (intro conjI exI [of _ "[[1]]"]) (simp_all add: sample_jc_def)
qed

lemma sample_batch_ok: "batch_ok (sample_jc r) (\<lambda>_. [r]) sample_batch"
  using sample_carries by (simp add: batch_ok_def) (simp add: sample_jc_def sample_codec_def sample_batch_def)

lemma sample_entry_ok: "entry_ok (sample_jc r) ([1, 2, 3], [r])"
  using sample_carries by (simp add: entry_ok_def) (simp add: sample_jc_def sample_codec_def sample_batch_def)

lemma sample_appends:
  "append_all sample_codec [(os_ok, sample_batch), (os_ok, sample_batch)] (NewWriter ''/j'' []) = Some sample_journal"
proof -
  have "append_all sample_codec [(os_ok, sample_batch), (os_ok, sample_batch)] (NewWriter ''/j'' []) \<noteq> None"
    by code_simp
  then show ?thesis by (auto simp: sample_journal_def)
qed

lemma sample_refines: "journal_refines sample_journal (sample_entries r)"
proof -
  have "journal_refines sample_journal (\<lambda>k. [] @ entries_of (sample_jc r) (\<lambda>_. [r]) k [sample_batch, sample_batch])"
    using append_all_refines [of "sample_jc r", unfolded sample_jc_batch, OF sample_appends journal_refines_new, of "\<lambda>_. [r]"] sample_batch_ok by simp
  moreover have "(\<lambda>k. [] @ entries_of (sample_jc r) (\<lambda>_. [r]) k [sample_batch, sample_batch]) = sample_entries r"
    by (auto simp: fun_eq_iff entries_of_def sample_entries_def batch_key_def) (simp_all add: sample_jc_def sample_codec_def sample_batch_def)
  ultimately show ?thesis by simp
qed

lemma sample_named: "segments_named sample_journal 1 1" "w_root sample_journal = ''/j''"
proof -
  have "map_option seg_index (map_of (w_segs sample_journal) (segKey 1 1)) = Some 0" by code_simp
  then show "segments_named sample_journal 1 1" by (auto simp: segments_named_def)
  show "w_root sample_journal = ''/j''" by code_simp
qed

theorem journal_roundtrip_witness:
  "ReadRecords (sample_jc sample_record) ''/j'' 1 1 (\<lambda>r n. (None :: unit option, n + 1)) (w_files sample_journal) (0 :: nat) = (None, 2)"
proof -
  have "list_all (batch_ok (sample_jc sample_record) (\<lambda>_. [sample_record])) (map snd [(os_ok, sample_batch), (os_ok, sample_batch)])"
    using sample_batch_ok by simp
  from journal_roundtrip [of "sample_jc sample_record", unfolded sample_jc_batch, OF sample_codec_ok [of sample_record, unfolded sample_jc_batch] sample_appends this _ _ sample_named(1),
      where fn = "\<lambda>r n. (None :: unit option, n + 1)" and s = "0 :: nat"]
  show ?thesis by (simp add: batch_key_def sample_batch_def)
qed

theorem Append_refines_witness:
  "journal_refines sample_journal (sample_entries sample_record) \<and>
   (\<exists>w'. Append sample_codec (os_ok\<lparr>os_mkdir := False\<rparr>) (sample_batch\<lparr>jb_PassNo := 2\<rparr>) sample_journal = (Some MkdirError, w') \<and>
      journal_refines w' (sample_entries sample_record))"
proof -
  let ?r = "Append sample_codec (os_ok\<lparr>os_mkdir := False\<rparr>) (sample_batch\<lparr>jb_PassNo := 2\<rparr>) sample_journal"
  have "fst ?r = Some MkdirError" by code_simp
  then have r: "?r = (Some MkdirError, snd ?r)" by (metis prod.collapse)
  from Append_refines [OF sample_refines r] sample_refines r show ?thesis by auto
qed

theorem torn_segment_witness:
  "\<exists>n t. [3, 0, 0, 0, 1, 2, 3, 3, 0] = envs (take n [([1, 2, 3], [sample_record]), ([1, 2, 3], [sample_record])]) @ t \<and>
   readSegment (sample_jc sample_record) (\<lambda>r n. (None :: unit option, n + 1)) [3, 0, 0, 0, 1, 2, 3, 3, 0] (0 :: nat) =
     and_then (deliver (\<lambda>r n. (None, n + 1)) (recs (take n [([1, 2, 3], [sample_record]), ([1, 2, 3], [sample_record])])) 0)
       (\<lambda>s. (if t \<noteq> [] \<and> length t < 4 then Some TruncatedHeader else None, s))"
proof -
  have "list_all (entry_ok (sample_jc sample_record)) [([1, 2, 3], [sample_record]), ([1, 2, 3], [sample_record])]"
    using sample_entry_ok by simp
  moreover have "prefix [3, 0, 0, 0, 1, 2, 3, 3, 0] (envs [([1, 2, 3], [sample_record]), ([1, 2, 3], [sample_record])])"
    by code_simp
  ultimately obtain n t where "[3, 0, 0, 0, 1, 2, 3, 3, 0] = envs (take n [([1, 2, 3], [sample_record]), ([1, 2, 3], [sample_record])]) @ t"
    "readSegment (sample_jc sample_record) (\<lambda>r n. (None :: unit option, n + 1)) [3, 0, 0, 0, 1, 2, 3, 3, 0] (0 :: nat) =
     and_then (deliver (\<lambda>r n. (None, n + 1)) (recs (take n [([1, 2, 3], [sample_record]), ([1, 2, 3], [sample_record])])) 0)
       (\<lambda>s. (if t \<noteq> [] \<and> length t < 4 then Some TruncatedHeader else None, s))"
    by (elim torn_segment [elim_format] exE conjE)
  then show ?thesis by (intro exI conjI)
qed

theorem flushed_journal_durable_witness:
  "closed_synced sample_journal \<and>
   w_files (crash (\<lambda>_. 0) (snd (Flush (\<lambda>_. True) sample_journal))) = w_files (snd (Flush (\<lambda>_. True) sample_journal)) \<and>
   w_files (snd (Flush (\<lambda>_. True) sample_journal)) \<noteq> []"
proof -
  have c: "closed_synced sample_journal"
  proof -
    have "map (\<lambda>(k, f). map_option seg_file (map_of (w_segs sample_journal) ''1/1'') = Some k) (w_files sample_journal) = [True]"
      by code_simp
    then have o: "open_file sample_journal (fst kf)" if "kf \<in> set (w_files sample_journal)" for kf
      using that by (cases kf) (auto simp: open_file_def simp del: split_paired_Ex intro!: exI [of _ "''1/1''"])
    show ?thesis unfolding closed_synced_def using o by fastforce
  qed
  have f: "Flush (\<lambda>_. True) sample_journal = (True, snd (Flush (\<lambda>_. True) sample_journal))"
    by (simp add: Flush_def Let_def list_all_iff)
  have "w_files (snd (Flush (\<lambda>_. True) sample_journal)) \<noteq> []" by code_simp
  then show ?thesis using c flushed_journal_durable [OF sample_refines c] f by blast
qed

theorem orphans_and_summary_witness:
  "\<exists>out. journal_Orphans (sample_jc sample_record) ''/j'' 1 1 (w_files sample_journal) = Inr out \<and> set out = {''x''} \<and> distinct out"
proof -
  have "list_all (entry_ok (sample_jc sample_record)) (sample_entries sample_record (1, 1))" using sample_entry_ok by (simp add: sample_entries_def)
  from orphans_and_summary [OF sample_refines [of sample_record] _ _ sample_named(1) this, THEN conjunct1]
  obtain out where out: "journal_Orphans (sample_jc sample_record) ''/j'' 1 1 (w_files sample_journal) = Inr out" "distinct out"
    "set out = jr_RelPath ` {r \<in> set (recs (sample_entries sample_record (1, 1))). jr_Type r = JR_ORPHAN}"
    unfolding sample_named(2) by auto
  have "{r \<in> set (recs (sample_entries sample_record (1, 1))). jr_Type r = JR_ORPHAN} = {sample_record}"
    by (auto simp: sample_entries_def recs_def) (simp add: sample_record_def)
  with out(3) have "set out = {''x''}" by (simp add: sample_record_def)
  with out(1,2) show ?thesis by (intro exI conjI)
qed

text \<open>
  A torn append is only harmless while it stays the last: after a crash in the middle of an envelope the
  writer reopens the same segment and appends behind the torn bytes, and from then on the whole pass is
  unreadable although the later batch was written (and acknowledged) in full.
\<close>

definition sample_torn :: "files" where
  "sample_torn =
     (let w1 = snd (Append sample_codec (os_ok\<lparr>os_envelope := Some 1\<rparr>) sample_batch (NewWriter ''/j'' []));
          w2 = snd (Flush (\<lambda>_. True) (snd (Append sample_codec os_ok sample_batch (crash (\<lambda>_. 5) w1))))
      in w_files w2)"

theorem torn_append_poisons:
  "ReadRecords (sample_jc sample_record) ''/j'' 1 1 (\<lambda>r n. (None :: unit option, n + 1)) sample_torn (0 :: nat) = (Some BadEnvelope, 0)"
  by code_simp

end
