(* ===== verification/Store_State.thy ===== *)
theory Store_State
  imports Spec
begin

text \<open>
  The coordinator's system of record (\<open>coordinator/internal/store/store.go\<close>): the tables of the
  SQLite schema as records of rows, and the statements that write the shard table.

  A table is the list of its rows in rowid (insertion) order; an \<open>AUTOINCREMENT\<close> key is one more
  than the sequence counter the schema keeps. The shard table is only ever written through
  \<open>insert_shard\<close>, \<open>update_shards\<close> and \<open>delete_shards\<close>, which fire the three triggers that keep
  \<open>shard_counts\<close>. Every store method runs under the store's single write lock in one
  transaction, so a method is one function from database to database; a method that fails rolls
  back and returns no database. The wall clock and fresh lease ids are arguments.
  Failures of the disk or of SQLite itself are not modelled.
\<close>

section \<open>Rows\<close>

record counters =
  EntriesWalked :: int
  FilesCopied :: int
  BytesCopied :: int
  MetaFixed :: int
  Orphans :: int
  Errors :: int
  NlinkDupFiles :: int
  NlinkDupBytes :: int
  FidelityExceptions :: int
  VerifyOK :: int
  VerifyFail :: int
  LinksCreated :: int
  LinkAnchorRaces :: int
  LinkFallback :: int
  SkippedNewer :: int

definition zero_counters :: counters where
  "zero_counters = \<lparr>EntriesWalked = 0, FilesCopied = 0, BytesCopied = 0, MetaFixed = 0,
     Orphans = 0, Errors = 0, NlinkDupFiles = 0, NlinkDupBytes = 0, FidelityExceptions = 0,
     VerifyOK = 0, VerifyFail = 0, LinksCreated = 0, LinkAnchorRaces = 0, LinkFallback = 0,
     SkippedNewer = 0\<rparr>"

record job_row =
  job_id :: int
  job_name :: string
  job_spec :: bytes
  job_state :: JobState
  job_dry_run :: bool
  job_username :: string
  job_created_at :: int
  job_updated_at :: int
  job_running_since :: "int option"

record pass_row =
  pass_id :: int
  pass_job :: int
  pass_no :: int
  pass_state :: PassState
  pass_started :: "int option"
  pass_finished :: "int option"
  pass_counters :: counters
  shards_reaped :: int

record shard_row =
  shard_id :: int
  shard_pass :: int
  shard_parent :: "int option"
  shard_kind :: ShardKind
  shard_rel :: path
  shard_payload :: bytes
  shard_priority :: int
  shard_state :: ShardState
  shard_attempt :: nat
  lease_id :: "int option"
  lease_agent :: "string option"
  lease_expiry :: "int option"
  shard_result :: "bytes option"
  shard_error :: "string option"
  target_agent :: "string option"
  shard_updated :: int

type_synonym count_key = "int \<times> ShardKind \<times> ShardState"

record agent_row =
  agent_id :: string
  agent_hostname :: string
  agent_version :: string
  agent_proto_minor :: nat
  agent_state :: string
  agent_last_heartbeat :: int
  agent_registered_at :: int
  agent_enabled :: bool

record split_row =
  split_parent :: int
  split_seq :: int
  assigned_ids :: "int list"

record cursor_row =
  cursor_pass :: int
  cursor_agent :: string
  acked_seq :: int

datatype chunk_state = ChunkCopying | ChunkDone | ChunkAborted

record chunk_group_row =
  cg_pass :: int
  cg_rel :: path
  cg_temp :: string
  cg_size :: int
  cg_mtime :: int
  n_chunks :: int
  n_done :: int
  cg_state :: chunk_state

record delete_group_row =
  dg_pass :: int
  dg_rel :: path
  dg_total :: int
  dg_done :: int
  done_streaming :: bool
  pending_children :: int
  dg_closed :: bool

datatype anchor_state = AnchorPending | AnchorCopied | AnchorFallback

record link_group_row =
  lg_pass :: int
  lg_dev :: int
  lg_ino :: int
  nlink_expected :: nat
  members_seen :: nat
  anchor_rel :: path
  anchor_size :: int
  anchor_mtime :: int
  lg_state :: anchor_state
  lg_updated :: int

datatype member_state = MemberPending | MemberQueued | MemberLinked | MemberAnchor

record link_member_row =
  lm_pass :: int
  lm_dev :: int
  lm_ino :: int
  lm_rel :: path
  lm_state :: member_state

record journal_count_row =
  jc_pass :: int
  jc_type :: string
  jc_n :: int

record db =
  t_jobs :: "job_row list"
  t_passes :: "pass_row list"
  t_shards :: "shard_row list"
  t_counts :: "(count_key \<times> int) list"
  t_agents :: "agent_row list"
  t_splits :: "split_row list"
  t_cursors :: "cursor_row list"
  t_chunk_groups :: "chunk_group_row list"
  t_delete_groups :: "delete_group_row list"
  t_link_groups :: "link_group_row list"
  t_link_members :: "link_member_row list"
  t_journal_counts :: "journal_count_row list"
  seq_jobs :: int
  seq_passes :: int
  seq_shards :: int

definition empty_db :: db where
  "empty_db = \<lparr>t_jobs = [], t_passes = [], t_shards = [], t_counts = [], t_agents = [],
     t_splits = [], t_cursors = [], t_chunk_groups = [], t_delete_groups = [],
     t_link_groups = [], t_link_members = [], t_journal_counts = [],
     seq_jobs = 0, seq_passes = 0, seq_shards = 0\<rparr>"

datatype store_error =
    ErrLeaseMismatch
  | ErrNotParked
  | ErrJobActive
  | ErrNoRows
  | ErrUnique
  | ErrForeignKey
  | ErrDestinationConflict string path path
  | ErrSpec spec_error

section \<open>The shard_counts triggers\<close>

definition count_key_of :: "shard_row \<Rightarrow> count_key" where
  "count_key_of r = (shard_pass r, shard_kind r, shard_state r)"

text \<open>\<open>INSERT .. VALUES (.., 1) ON CONFLICT DO UPDATE SET n = n + 1\<close>.\<close>

fun count_inc :: "count_key \<Rightarrow> (count_key \<times> int) list \<Rightarrow> (count_key \<times> int) list" where
  "count_inc k [] = [(k, 1)]"
| "count_inc k ((k', n) # cs) = (if k' = k then (k', n + 1) # cs else (k', n) # count_inc k cs)"

text \<open>\<open>UPDATE shard_counts SET n = n - 1 WHERE ..\<close>.\<close>

fun count_dec :: "count_key \<Rightarrow> (count_key \<times> int) list \<Rightarrow> (count_key \<times> int) list" where
  "count_dec k [] = []"
| "count_dec k ((k', n) # cs) = (if k' = k then (k', n - 1) # cs else (k', n) # count_dec k cs)"

definition trigger_insert :: "shard_row \<Rightarrow> (count_key \<times> int) list \<Rightarrow> (count_key \<times> int) list" where
  "trigger_insert r cs = count_inc (count_key_of r) cs"

definition trigger_delete :: "shard_row \<Rightarrow> (count_key \<times> int) list \<Rightarrow> (count_key \<times> int) list" where
  "trigger_delete r cs = count_dec (count_key_of r) cs"

definition trigger_update ::
    "shard_row \<Rightarrow> shard_row \<Rightarrow> (count_key \<times> int) list \<Rightarrow> (count_key \<times> int) list" where
  "trigger_update old new cs =
     (if count_key_of old \<noteq> count_key_of new
      then count_inc (count_key_of new) (count_dec (count_key_of old) cs) else cs)"

section \<open>Writes to the shard table\<close>

definition insert_shard :: "shard_row \<Rightarrow> db \<Rightarrow> db" where
  "insert_shard r d = d\<lparr>t_shards := t_shards d @ [r], t_counts := trigger_insert r (t_counts d)\<rparr>"

definition update_shards :: "(shard_row \<Rightarrow> bool) \<Rightarrow> (shard_row \<Rightarrow> shard_row) \<Rightarrow> db \<Rightarrow> db" where
  "update_shards P f d = d\<lparr>t_shards := update_where P f (t_shards d),
     t_counts := fold (\<lambda>r cs. if P r then trigger_update r (f r) cs else cs) (t_shards d) (t_counts d)\<rparr>"

definition delete_shards :: "(shard_row \<Rightarrow> bool) \<Rightarrow> db \<Rightarrow> db" where
  "delete_shards P d = d\<lparr>t_shards := delete_where P (t_shards d),
     t_counts := fold (\<lambda>r cs. if P r then trigger_delete r cs else cs) (t_shards d) (t_counts d)\<rparr>"

definition count_of :: "count_key \<Rightarrow> (count_key \<times> int) list \<Rightarrow> int" where
  "count_of k cs = (case map_of cs k of None \<Rightarrow> 0 | Some n \<Rightarrow> n)"

text \<open>
  Open's rebuild: a database that predates the rollup (no count rows, some shards) has it derived
  from the shard table by \<open>GROUP BY pass_id, kind, state\<close>.
\<close>

definition rebuild_counts :: "db \<Rightarrow> db" where
  "rebuild_counts d =
     (if t_counts d = [] \<and> t_shards d \<noteq> []
      then d\<lparr>t_counts := map (\<lambda>k. (k, int (count_where (\<lambda>r. count_key_of r = k) (t_shards d))))
                           (remdups (map count_key_of (t_shards d)))\<rparr>
      else d)"

section \<open>The rollup is exact\<close>

definition counts_exact :: "shard_row list \<Rightarrow> (count_key \<times> int) list \<Rightarrow> bool" where
  "counts_exact rs cs \<longleftrightarrow> distinct (map fst cs) \<and>
     (\<forall>k. count_of k cs = int (count_where (\<lambda>r. count_key_of r = k) rs))"

definition rollup_ok :: "db \<Rightarrow> bool" where
  "rollup_ok d \<longleftrightarrow> counts_exact (t_shards d) (t_counts d)"

lemma count_of_Nil [simp]: "count_of k [] = 0"
  by (simp add: count_of_def)

lemma count_of_Cons: "count_of k ((k', n) # cs) = (if k' = k then n else count_of k cs)"
  by (simp add: count_of_def)

lemma count_of_absent: "k \<notin> fst ` set cs \<Longrightarrow> count_of k cs = 0"
  by (induction cs) (auto simp: count_of_Cons)

lemma count_of_inc: "count_of j (count_inc k cs) = count_of j cs + (if j = k then 1 else 0)"
  by (induction k cs rule: count_inc.induct) (auto simp: count_of_Cons)

lemma fst_count_inc: "fst ` set (count_inc k cs) = insert k (fst ` set cs)"
  by (induction k cs rule: count_inc.induct) auto

lemma distinct_count_inc: "distinct (map fst cs) \<Longrightarrow> distinct (map fst (count_inc k cs))"
proof (induction k cs rule: count_inc.induct)
  case (2 k k' n cs)
  moreover have "k' \<notin> fst ` set (count_inc k cs)" if "k' \<noteq> k" "k' \<notin> fst ` set cs"
    using that by (simp add: fst_count_inc)
  ultimately show ?case by auto
qed simp

lemma map_fst_count_dec [simp]: "map fst (count_dec k cs) = map fst cs"
  by (induction k cs rule: count_dec.induct) auto

lemma count_of_dec:
  "k \<in> fst ` set cs \<Longrightarrow> count_of j (count_dec k cs) = count_of j cs - (if j = k then 1 else 0)"
proof (induction k cs rule: count_dec.induct)
  case (2 k k' n cs)
  then show ?case by (cases "k' = k") (simp_all add: count_of_Cons)
qed simp

lemma counts_exactD: "counts_exact rs cs \<Longrightarrow> count_of k cs = int (count_where (\<lambda>r. count_key_of r = k) rs)"
  by (simp only: counts_exact_def)

lemma counts_exact_distinct: "counts_exact rs cs \<Longrightarrow> distinct (map fst cs)"
  by (simp only: counts_exact_def)

lemma counts_exactI:
  "distinct (map fst cs) \<Longrightarrow> (\<And>k. count_of k cs = int (count_where (\<lambda>r. count_key_of r = k) rs)) \<Longrightarrow>
   counts_exact rs cs"
  unfolding counts_exact_def by blast

text \<open>A key that is counted has a row, so decrementing it is never lost.\<close>

lemma counts_exact_key_present:
  assumes "counts_exact rs cs" "r \<in> set rs"
  shows "count_key_of r \<in> fst ` set cs"
proof (rule ccontr)
  assume "count_key_of r \<notin> fst ` set cs"
  then have "count_of (count_key_of r) cs = 0" by (rule count_of_absent)
  moreover have "0 < count_where (\<lambda>s. count_key_of s = count_key_of r) rs"
    using assms(2) by (auto simp: count_where_pos_iff)
  ultimately show False using counts_exactD [OF assms(1)] by simp
qed

lemma counts_exact_insert:
  "counts_exact rs cs \<Longrightarrow> counts_exact (rs @ [r]) (trigger_insert r cs)"
  by (rule counts_exactI)
    (simp_all add: trigger_insert_def count_of_inc distinct_count_inc counts_exactD counts_exact_distinct)

text \<open>
  Both bulk statements are proved row by row: \<open>done\<close> is the part of the table already visited
  (with its new contents), \<open>todo\<close> the part still to come.
\<close>

lemma counts_exact_update_one:
  assumes "counts_exact (xs @ r # ys) cs"
  shows "counts_exact (xs @ r' # ys) (trigger_update r r' cs)"
proof -
  have "count_key_of r \<in> fst ` set cs" by (rule counts_exact_key_present [OF assms]) simp
  then show ?thesis
    by (intro counts_exactI)
      (simp_all add: trigger_update_def count_of_inc count_of_dec distinct_count_inc
        counts_exactD [OF assms] counts_exact_distinct [OF assms])
qed

lemma counts_exact_update:
  "counts_exact (xs @ rs) cs \<Longrightarrow>
   counts_exact (xs @ update_where P f rs) (fold (\<lambda>r cs. if P r then trigger_update r (f r) cs else cs) rs cs)"
proof (induction rs arbitrary: xs cs)
  case Nil
  then show ?case by simp
next
  case (Cons r rs)
  let ?r = "if P r then f r else r"
  let ?cs = "if P r then trigger_update r (f r) cs else cs"
  have "counts_exact (xs @ ?r # rs) ?cs"
    using Cons.prems counts_exact_update_one by auto
  then have "counts_exact ((xs @ [?r]) @ rs) ?cs" by simp
  from Cons.IH [OF this] show ?case by simp
qed

lemma counts_exact_delete_one:
  assumes "counts_exact (xs @ r # ys) cs"
  shows "counts_exact (xs @ ys) (trigger_delete r cs)"
proof -
  have "count_key_of r \<in> fst ` set cs" by (rule counts_exact_key_present [OF assms]) simp
  then show ?thesis
    by (intro counts_exactI)
      (simp_all add: trigger_delete_def count_of_dec counts_exactD [OF assms] counts_exact_distinct [OF assms])
qed

lemma counts_exact_delete:
  "counts_exact (xs @ rs) cs \<Longrightarrow>
   counts_exact (xs @ delete_where P rs) (fold (\<lambda>r cs. if P r then trigger_delete r cs else cs) rs cs)"
proof (induction rs arbitrary: xs cs)
  case Nil
  then show ?case by simp
next
  case (Cons r rs)
  show ?case
  proof (cases "P r")
    case True
    then show ?thesis using Cons.IH [OF counts_exact_delete_one [OF Cons.prems]] by simp
  next
    case False
    then show ?thesis using Cons.IH [of "xs @ [r]" cs] Cons.prems by simp
  qed
qed

lemma rollup_insert_shard [wf_intros]: "rollup_ok d \<Longrightarrow> rollup_ok (insert_shard r d)"
  by (simp add: rollup_ok_def insert_shard_def counts_exact_insert)

lemma rollup_update_shards [wf_intros]: "rollup_ok d \<Longrightarrow> rollup_ok (update_shards P f d)"
  using counts_exact_update [of "[]"] by (simp add: rollup_ok_def update_shards_def)

lemma rollup_delete_shards [wf_intros]: "rollup_ok d \<Longrightarrow> rollup_ok (delete_shards P d)"
  using counts_exact_delete [of "[]"] by (simp add: rollup_ok_def delete_shards_def)

lemma count_of_map_key:
  "count_of k (map (\<lambda>x. (x, g x)) ks) = (if k \<in> set ks then g k else 0)"
  by (induction ks) (simp_all add: count_of_Cons)

lemma rollup_rebuild_counts:
  "t_counts d = [] \<Longrightarrow> rollup_ok (rebuild_counts d)"
proof -
  assume e: "t_counts d = []"
  show ?thesis
  proof (cases "t_shards d = []")
    case True
    then show ?thesis using e by (simp add: rebuild_counts_def rollup_ok_def counts_exact_def)
  next
    case False
    have "count_where (\<lambda>r. count_key_of r = k) (t_shards d) = 0"
      if "k \<notin> count_key_of ` set (t_shards d)" for k
      using that by (auto simp: count_where_zero_iff)
    then show ?thesis using e False
      by (simp add: rebuild_counts_def rollup_ok_def counts_exact_def count_of_map_key comp_def)
  qed
qed

section \<open>Frame facts of the shard statements\<close>

lemma insert_shard_sel [simp, table_simps]:
  "t_shards (insert_shard r d) = t_shards d @ [r]"
  "t_jobs (insert_shard r d) = t_jobs d"
  "t_passes (insert_shard r d) = t_passes d"
  "t_agents (insert_shard r d) = t_agents d"
  "t_splits (insert_shard r d) = t_splits d"
  "t_cursors (insert_shard r d) = t_cursors d"
  "t_chunk_groups (insert_shard r d) = t_chunk_groups d"
  "t_delete_groups (insert_shard r d) = t_delete_groups d"
  "t_link_groups (insert_shard r d) = t_link_groups d"
  "t_link_members (insert_shard r d) = t_link_members d"
  "t_journal_counts (insert_shard r d) = t_journal_counts d"
  "seq_jobs (insert_shard r d) = seq_jobs d"
  "seq_passes (insert_shard r d) = seq_passes d"
  "seq_shards (insert_shard r d) = seq_shards d"
  by (simp_all add: insert_shard_def)

lemma update_shards_sel [simp, table_simps]:
  "t_shards (update_shards P f d) = update_where P f (t_shards d)"
  "t_jobs (update_shards P f d) = t_jobs d"
  "t_passes (update_shards P f d) = t_passes d"
  "t_agents (update_shards P f d) = t_agents d"
  "t_splits (update_shards P f d) = t_splits d"
  "t_cursors (update_shards P f d) = t_cursors d"
  "t_chunk_groups (update_shards P f d) = t_chunk_groups d"
  "t_delete_groups (update_shards P f d) = t_delete_groups d"
  "t_link_groups (update_shards P f d) = t_link_groups d"
  "t_link_members (update_shards P f d) = t_link_members d"
  "t_journal_counts (update_shards P f d) = t_journal_counts d"
  "seq_jobs (update_shards P f d) = seq_jobs d"
  "seq_passes (update_shards P f d) = seq_passes d"
  "seq_shards (update_shards P f d) = seq_shards d"
  by (simp_all add: update_shards_def)

lemma delete_shards_sel [simp, table_simps]:
  "t_shards (delete_shards P d) = delete_where P (t_shards d)"
  "t_jobs (delete_shards P d) = t_jobs d"
  "t_passes (delete_shards P d) = t_passes d"
  "t_agents (delete_shards P d) = t_agents d"
  "t_splits (delete_shards P d) = t_splits d"
  "t_cursors (delete_shards P d) = t_cursors d"
  "t_chunk_groups (delete_shards P d) = t_chunk_groups d"
  "t_delete_groups (delete_shards P d) = t_delete_groups d"
  "t_link_groups (delete_shards P d) = t_link_groups d"
  "t_link_members (delete_shards P d) = t_link_members d"
  "t_journal_counts (delete_shards P d) = t_journal_counts d"
  "seq_jobs (delete_shards P d) = seq_jobs d"
  "seq_passes (delete_shards P d) = seq_passes d"
  "seq_shards (delete_shards P d) = seq_shards d"
  by (simp_all add: delete_shards_def)

text \<open>Writes to any other table leave the rollup alone.\<close>

lemma rollup_frame [simp, table_simps]:
  "rollup_ok (d\<lparr>t_jobs := a\<rparr>) = rollup_ok d"
  "rollup_ok (d\<lparr>t_passes := b\<rparr>) = rollup_ok d"
  "rollup_ok (d\<lparr>t_agents := c\<rparr>) = rollup_ok d"
  "rollup_ok (d\<lparr>t_splits := e\<rparr>) = rollup_ok d"
  "rollup_ok (d\<lparr>t_cursors := g\<rparr>) = rollup_ok d"
  "rollup_ok (d\<lparr>t_chunk_groups := h\<rparr>) = rollup_ok d"
  "rollup_ok (d\<lparr>t_delete_groups := i\<rparr>) = rollup_ok d"
  "rollup_ok (d\<lparr>t_link_groups := j\<rparr>) = rollup_ok d"
  "rollup_ok (d\<lparr>t_link_members := l\<rparr>) = rollup_ok d"
  "rollup_ok (d\<lparr>t_journal_counts := m\<rparr>) = rollup_ok d"
  "rollup_ok (d\<lparr>seq_jobs := n\<rparr>) = rollup_ok d"
  "rollup_ok (d\<lparr>seq_passes := n\<rparr>) = rollup_ok d"
  "rollup_ok (d\<lparr>seq_shards := n\<rparr>) = rollup_ok d"
  by (simp_all add: rollup_ok_def)

end
