(* ===== verification/Store_Shards.thy ===== *)
theory Store_Shards
  imports Store_Jobs
begin

text \<open>
  The shard queue of the store (\<open>coordinator/internal/store/store.go\<close>): inserting shards, granting
  and renewing leases, expiry, the lease-guarded transitions of a leased shard, parked shards, the
  reaper, and the read views over the queue.

  The lemmas show what a grant may contain (only queued shards of running jobs, each once, within
  the caller's limit and the entry-list quota) and that it is not empty while there is work, that a
  result under a stale lease changes nothing, and that reaping does not change reported totals.

  \<open>LIMIT\<close> without \<open>ORDER BY\<close> takes rows in table order here; no lemma depends on which rows it
  takes. Lease ids are drawn from the argument \<open>newLeaseID\<close>, one per granted shard.
\<close>

section \<open>Inserting shards\<close>

record NewShard =
  ns_Kind :: ShardKind
  ns_RelPath :: path
  ns_Payload :: bytes
  ns_TargetAgent :: string

record ShardRow =
  sr_ID :: int
  sr_ParentShardID :: int
  sr_PassID :: int
  sr_JobID :: int
  sr_PassNo :: int
  sr_Kind :: ShardKind
  sr_RelPath :: path
  sr_Payload :: bytes
  sr_Attempt :: nat
  sr_LeaseID :: int
  sr_State :: ShardState

definition new_shard_row :: "int \<Rightarrow> int \<Rightarrow> int \<Rightarrow> int \<Rightarrow> NewShard \<Rightarrow> shard_row" where
  "new_shard_row i passID parentID now ns =
     \<lparr>shard_id = i, shard_pass = passID,
      shard_parent = (if parentID > 0 then Some parentID else None),
      shard_kind = ns_Kind ns, shard_rel = ns_RelPath ns, shard_payload = ns_Payload ns,
      shard_priority = Priority (ns_Kind ns), shard_state = ShardQueued, shard_attempt = 0,
      lease_id = None, lease_agent = None, lease_expiry = None,
      shard_result = None, shard_error = None,
      target_agent = (if ns_TargetAgent ns \<noteq> '''' then Some (ns_TargetAgent ns) else None),
      shard_updated = now\<rparr>"

fun insertShardsTx :: "int \<Rightarrow> int \<Rightarrow> int \<Rightarrow> NewShard list \<Rightarrow> db \<Rightarrow> store_error + int list \<times> db" where
  "insertShardsTx passID parentID now [] d = Inr ([], d)"
| "insertShardsTx passID parentID now (ns # nss) d =
     (if passID \<notin> pass_id ` set (t_passes d) then Inl ErrForeignKey
      else let i = seq_shards d + 1;
               d1 = insert_shard (new_shard_row i passID parentID now ns) (d\<lparr>seq_shards := i\<rparr>)
           in case insertShardsTx passID parentID now nss d1 of
                Inl e \<Rightarrow> Inl e
              | Inr (ids, d2) \<Rightarrow> Inr (i # ids, d2))"

definition InsertShards :: "int \<Rightarrow> int \<Rightarrow> int \<Rightarrow> NewShard list \<Rightarrow> db \<Rightarrow> store_error + int list \<times> db" where
  "InsertShards passID parentID now shards d = insertShardsTx passID parentID now shards d"

section \<open>Joins\<close>

definition find_pass :: "int \<Rightarrow> db \<Rightarrow> pass_row option" where
  "find_pass i d = List.find (\<lambda>p. pass_id p = i) (t_passes d)"

definition find_job :: "int \<Rightarrow> db \<Rightarrow> job_row option" where
  "find_job i d = List.find (\<lambda>j. job_id j = i) (t_jobs d)"

text \<open>\<open>JOIN passes p ON p.id = s.pass_id JOIN jobs j ON j.id = p.job_id\<close>.\<close>

definition pass_job_of :: "int \<Rightarrow> db \<Rightarrow> (pass_row \<times> job_row) option" where
  "pass_job_of passID d =
     (case find_pass passID d of None \<Rightarrow> None
      | Some p \<Rightarrow> (case find_job (pass_job p) d of None \<Rightarrow> None | Some j \<Rightarrow> Some (p, j)))"

section \<open>Granting leases\<close>

definition maxEntrylistPerAgent :: int where
  "maxEntrylistPerAgent = 4"

definition MaxShardAttempts :: nat where
  "MaxShardAttempts = 5"

text \<open>The \<open>WHERE\<close> clause all three selections share.\<close>

definition leasable :: "string \<Rightarrow> db \<Rightarrow> shard_row \<Rightarrow> bool" where
  "leasable agentID d s \<longleftrightarrow> shard_state s = ShardQueued \<and>
     (case pass_job_of (shard_pass s) d of None \<Rightarrow> False | Some (p, j) \<Rightarrow> job_state j = JobRunning) \<and>
     (target_agent s = None \<or> target_agent s = Some agentID)"

definition last_held :: "string \<Rightarrow> shard_row \<Rightarrow> bool" where
  "last_held agentID s \<longleftrightarrow> shard_attempt s > 0 \<and> lease_agent s = Some agentID"

definition sched_key :: "shard_row \<Rightarrow> int \<times> int" where
  "sched_key s = (- shard_priority s, shard_id s)"

definition select_shards :: "(shard_row \<Rightarrow> bool) \<Rightarrow> nat \<Rightarrow> db \<Rightarrow> shard_row list" where
  "select_shards P limit d = take limit (sort_key sched_key (filter P (t_shards d)))"

definition scan_row :: "db \<Rightarrow> shard_row \<Rightarrow> ShardRow" where
  "scan_row d s = \<lparr>sr_ID = shard_id s,
     sr_ParentShardID = (case shard_parent s of None \<Rightarrow> 0 | Some i \<Rightarrow> i),
     sr_PassID = shard_pass s,
     sr_JobID = (case pass_job_of (shard_pass s) d of None \<Rightarrow> 0 | Some (p, j) \<Rightarrow> pass_job p),
     sr_PassNo = (case pass_job_of (shard_pass s) d of None \<Rightarrow> 0 | Some (p, j) \<Rightarrow> pass_no p),
     sr_Kind = shard_kind s, sr_RelPath = shard_rel s, sr_Payload = shard_payload s,
     sr_Attempt = shard_attempt s, sr_LeaseID = 0, sr_State = ShardLeased\<rparr>"

text \<open>The closure \<open>scan\<close>: the state is the map \<open>seen\<close> and the slice \<open>out\<close>.\<close>

fun scan_rows :: "ShardRow list \<Rightarrow> int list \<times> ShardRow list \<Rightarrow> int list \<times> ShardRow list" where
  "scan_rows [] (seen, out) = (seen, out)"
| "scan_rows (r # rs) (seen, out) =
     (if sr_ID r \<in> set seen then scan_rows rs (seen, out)
      else scan_rows rs (sr_ID r # seen, out @ [r]))"

fun trim_entrylist :: "int \<Rightarrow> ShardRow list \<Rightarrow> ShardRow list \<times> bool" where
  "trim_entrylist budget [] = ([], False)"
| "trim_entrylist budget (r # rs) =
     (if sr_Kind r = KindEntryList
      then if budget \<le> 0 then (fst (trim_entrylist budget rs), True)
           else let (kept, trimmed) = trim_entrylist (budget - 1) rs in (r # kept, trimmed)
      else let (kept, trimmed) = trim_entrylist budget rs in (r # kept, trimmed))"

definition heldEL :: "string \<Rightarrow> db \<Rightarrow> int" where
  "heldEL agentID d = int (count_where (\<lambda>s. shard_state s = ShardLeased \<and>
     lease_agent s = Some agentID \<and> shard_kind s = KindEntryList) (t_shards d))"

definition elBudget :: "string \<Rightarrow> db \<Rightarrow> int" where
  "elBudget agentID d = max 0 (maxEntrylistPerAgent - heldEL agentID d)"

text \<open>The selection half of \<open>LeaseShards\<close>: the three scans around the entry-list trim.\<close>

definition lease_selection :: "string \<Rightarrow> nat \<Rightarrow> db \<Rightarrow> ShardRow list" where
  "lease_selection agentID limit d =
     (let budget = elBudget agentID d;
          elExcl = (\<lambda>s. budget = 0 \<longrightarrow> shard_kind s \<noteq> KindEntryList);
          tier1 = select_shards (\<lambda>s. leasable agentID d s \<and> elExcl s \<and> \<not> last_held agentID s) limit d;
          (seen1, out1) = scan_rows (map (scan_row d) tier1) ([], []);
          (seen2, out2) =
            (if length out1 < limit
             then scan_rows (map (scan_row d) (select_shards
                    (\<lambda>s. leasable agentID d s \<and> elExcl s \<and> last_held agentID s)
                    (limit - length out1) d)) (seen1, out1)
             else (seen1, out1));
          (kept, trimmed) = trim_entrylist budget out2
      in if trimmed \<and> length kept < limit
         then snd (scan_rows (map (scan_row d) (select_shards
                (\<lambda>s. leasable agentID d s \<and> shard_kind s \<noteq> KindEntryList)
                (limit - length kept) d)) (seen2, kept))
         else kept)"

definition lease_row :: "string \<Rightarrow> int \<Rightarrow> int \<Rightarrow> int \<Rightarrow> shard_row \<Rightarrow> shard_row" where
  "lease_row agentID lid expiry now s = s\<lparr>shard_state := ShardLeased, shard_attempt := shard_attempt s + 1,
     lease_id := Some lid, lease_agent := Some agentID, lease_expiry := Some expiry, shard_updated := now\<rparr>"

fun grant_rows :: "string \<Rightarrow> (nat \<Rightarrow> int) \<Rightarrow> int \<Rightarrow> int \<Rightarrow> nat \<Rightarrow> ShardRow list \<Rightarrow> db \<Rightarrow> ShardRow list \<times> db" where
  "grant_rows agentID newLeaseID expiry now k [] d = ([], d)"
| "grant_rows agentID newLeaseID expiry now k (r # rs) d =
     (let d1 = update_shards (\<lambda>s. shard_id s = sr_ID r) (lease_row agentID (newLeaseID k) expiry now) d;
          (rs', d2) = grant_rows agentID newLeaseID expiry now (Suc k) rs d1
      in (r\<lparr>sr_LeaseID := newLeaseID k, sr_Attempt := sr_Attempt r + 1\<rparr> # rs', d2))"

definition agent_disabled :: "string \<Rightarrow> db \<Rightarrow> bool" where
  "agent_disabled agentID d =
     (case List.find (\<lambda>a. agent_id a = agentID) (t_agents d) of
        None \<Rightarrow> False | Some a \<Rightarrow> \<not> agent_enabled a)"

definition LeaseShards ::
    "(nat \<Rightarrow> int) \<Rightarrow> string \<Rightarrow> int \<Rightarrow> int \<Rightarrow> int \<Rightarrow> db \<Rightarrow> ShardRow list \<times> db" where
  "LeaseShards newLeaseID agentID max_n ttl now d =
     (if max_n \<le> 0 then ([], d)
      else if agent_disabled agentID d then ([], d)
      else grant_rows agentID newLeaseID (now + ttl) now 0 (lease_selection agentID (nat max_n) d) d)"

definition RenewLeasesByID :: "string \<Rightarrow> int list \<Rightarrow> int \<Rightarrow> int \<Rightarrow> db \<Rightarrow> int \<times> db" where
  "RenewLeasesByID agentID leaseIDs ttl now d =
     (if leaseIDs = [] then (0, d)
      else let P = (\<lambda>s. shard_state s = ShardLeased \<and> lease_agent s = Some agentID \<and>
                      (\<exists>l \<in> set leaseIDs. lease_id s = Some l))
           in (int (count_where P (t_shards d)),
               update_shards P (\<lambda>s. s\<lparr>lease_expiry := Some (now + ttl)\<rparr>) d))"

section \<open>The reaper\<close>

definition ReapBatchSize :: nat where
  "ReapBatchSize = 20000"

definition ReapDoneShards :: "int \<Rightarrow> ShardKind list \<Rightarrow> db \<Rightarrow> int \<times> db" where
  "ReapDoneShards passID kinds d =
     (if kinds = [] then (0, d)
      else let ids = map shard_id (take ReapBatchSize (filter (\<lambda>s. shard_pass s = passID \<and>
                       shard_state s = ShardDone \<and> shard_kind s \<in> set kinds) (t_shards d)))
           in if ids = [] then (0, d)
              else let d1 = d\<lparr>t_splits := delete_where (\<lambda>s. split_parent s \<in> set ids) (t_splits d)\<rparr>;
                       n = int (count_where (\<lambda>s. shard_id s \<in> set ids) (t_shards d1));
                       d2 = delete_shards (\<lambda>s. shard_id s \<in> set ids) d1
                   in (n, d2\<lparr>t_passes := update_where (\<lambda>p. pass_id p = passID)
                            (\<lambda>p. p\<lparr>shards_reaped := shards_reaped p + n\<rparr>) (t_passes d2)\<rparr>))"

definition LinkRegistryReapBatchSize :: nat where
  "LinkRegistryReapBatchSize = 20000"

definition ReapLinkRegistry :: "int \<Rightarrow> db \<Rightarrow> int \<times> db" where
  "ReapLinkRegistry passID d =
     (let keys = map (\<lambda>g. (lg_dev g, lg_ino g))
                   (take LinkRegistryReapBatchSize (filter (\<lambda>g. lg_pass g = passID) (t_link_groups d)));
          d1 = d\<lparr>t_link_members := delete_where (\<lambda>m. lm_pass m = passID \<and> (lm_dev m, lm_ino m) \<in> set keys)
                   (t_link_members d)\<rparr>;
          P = (\<lambda>g. lg_pass g = passID \<and> (lg_dev g, lg_ino g) \<in> set keys)
      in (int (count_where P (t_link_groups d1)),
          d1\<lparr>t_link_groups := delete_where P (t_link_groups d1)\<rparr>))"

section \<open>Expiry\<close>

record ExpiredLease =
  el_ShardID :: int
  el_LeaseID :: int
  el_Job :: string
  el_PassNo :: int
  el_Kind :: ShardKind
  el_RelPath :: path
  el_Agent :: string
  el_Attempt :: nat
  el_Parked :: bool

definition lease_expired :: "int \<Rightarrow> shard_row \<Rightarrow> bool" where
  "lease_expired ms s \<longleftrightarrow> shard_state s = ShardLeased \<and>
     (case lease_expiry s of None \<Rightarrow> False | Some e \<Rightarrow> e < ms)"

definition expired_row :: "shard_row \<Rightarrow> pass_row \<times> job_row \<Rightarrow> ExpiredLease" where
  "expired_row s pj = \<lparr>el_ShardID = shard_id s,
     el_LeaseID = (case lease_id s of None \<Rightarrow> 0 | Some l \<Rightarrow> l),
     el_Job = job_name (snd pj), el_PassNo = pass_no (fst pj),
     el_Kind = shard_kind s, el_RelPath = shard_rel s,
     el_Agent = (case lease_agent s of None \<Rightarrow> '''' | Some a \<Rightarrow> a),
     el_Attempt = shard_attempt s, el_Parked = (shard_attempt s \<ge> MaxShardAttempts)\<rparr>"

text \<open>\<open>ms\<close> is the sweep's \<open>now\<close>; \<open>now\<close> stamps the rows.\<close>

definition ExpireLeases :: "int \<Rightarrow> int \<Rightarrow> db \<Rightarrow> ExpiredLease list \<times> db" where
  "ExpireLeases ms now d =
     (let expired = List.map_filter (\<lambda>s. map_option (expired_row s) (pass_job_of (shard_pass s) d))
                      (sort_key shard_id (filter (lease_expired ms) (t_shards d)))
      in if expired = [] then ([], d)
         else let d1 = update_shards (\<lambda>s. lease_expired ms s \<and> shard_attempt s < MaxShardAttempts)
                         (\<lambda>s. s\<lparr>shard_state := ShardQueued, lease_id := None, shard_updated := now\<rparr>) d;
                  d2 = update_shards (lease_expired ms)
                         (\<lambda>s. s\<lparr>shard_state := ShardParked, lease_id := None,
                            shard_error := (case shard_error s of
                               None \<Rightarrow> Some ''attempt ceiling after lease expiry'' | Some e \<Rightarrow> Some e),
                            shard_updated := now\<rparr>) d1
              in (expired, d2))"

section \<open>Transitions of a leased shard\<close>

definition holds_lease :: "int \<Rightarrow> int \<Rightarrow> shard_row \<Rightarrow> bool" where
  "holds_lease shardID leaseID s \<longleftrightarrow>
     shard_id s = shardID \<and> shard_state s = ShardLeased \<and> lease_id s = Some leaseID"

definition shardTransition ::
    "int \<Rightarrow> int \<Rightarrow> ShardState \<Rightarrow> bytes option \<Rightarrow> string \<Rightarrow> int \<Rightarrow> counters option \<Rightarrow> int \<Rightarrow> db \<Rightarrow> store_error + db" where
  "shardTransition shardID leaseID to result errMsg passID c now d =
     (if count_where (holds_lease shardID leaseID) (t_shards d) = 0 then Inl ErrLeaseMismatch
      else Inr (accumulatePassCounters passID c
             (update_shards (holds_lease shardID leaseID)
               (\<lambda>s. s\<lparr>shard_state := to,
                      shard_result := (case result of None \<Rightarrow> shard_result s | Some b \<Rightarrow> Some b),
                      shard_error := (if errMsg = '''' then shard_error s else Some errMsg),
                      lease_id := None, shard_updated := now\<rparr>) d)))"

definition CompleteShard ::
    "int \<Rightarrow> int \<Rightarrow> int \<Rightarrow> bytes option \<Rightarrow> counters option \<Rightarrow> int \<Rightarrow> db \<Rightarrow> store_error + db" where
  "CompleteShard shardID leaseID passID result c now d =
     shardTransition shardID leaseID ShardDone result '''' passID c now d"

definition RequeueShard :: "int \<Rightarrow> int \<Rightarrow> string \<Rightarrow> int \<Rightarrow> db \<Rightarrow> store_error + db" where
  "RequeueShard shardID leaseID errMsg now d =
     shardTransition shardID leaseID ShardQueued None errMsg 0 None now d"

definition ReleaseShard :: "int \<Rightarrow> int \<Rightarrow> int \<Rightarrow> db \<Rightarrow> store_error + db" where
  "ReleaseShard shardID leaseID now d =
     shardTransition shardID leaseID ShardQueued None '''' 0 None now d"

definition ParkShard :: "int \<Rightarrow> int \<Rightarrow> string \<Rightarrow> int \<Rightarrow> db \<Rightarrow> store_error + db" where
  "ParkShard shardID leaseID errMsg now d =
     shardTransition shardID leaseID ShardParked None errMsg 0 None now d"

section \<open>Parked shards and stale probes\<close>

definition retry_row :: "int \<Rightarrow> shard_row \<Rightarrow> shard_row" where
  "retry_row now s = s\<lparr>shard_state := ShardQueued, shard_attempt := 0, lease_id := None,
     lease_agent := None, lease_expiry := None, shard_error := None, shard_updated := now\<rparr>"

definition RetryParkedShard :: "int \<Rightarrow> int \<Rightarrow> db \<Rightarrow> store_error + db" where
  "RetryParkedShard shardID now d =
     (let P = (\<lambda>s. shard_id s = shardID \<and> shard_state s = ShardParked)
      in if count_where P (t_shards d) = 0 then Inl ErrNotParked
         else Inr (update_shards P (retry_row now) d))"

definition job_passes_by_name :: "string \<Rightarrow> db \<Rightarrow> int set" where
  "job_passes_by_name jobName d = pass_id ` {p \<in> set (t_passes d).
     \<exists>j \<in> set (t_jobs d). job_id j = pass_job p \<and> job_name j = jobName}"

definition RetryParkedByJob :: "string \<Rightarrow> int \<Rightarrow> db \<Rightarrow> int \<times> db" where
  "RetryParkedByJob jobName now d =
     (let P = (\<lambda>s. shard_state s = ShardParked \<and> shard_pass s \<in> job_passes_by_name jobName d)
      in (int (count_where P (t_shards d)), update_shards P (retry_row now) d))"

definition DropParkedShard :: "int \<Rightarrow> db \<Rightarrow> store_error + db" where
  "DropParkedShard shardID d =
     (let P = (\<lambda>s. shard_id s = shardID \<and> shard_state s = ShardParked)
      in if count_where P (t_shards d) = 0 then Inl ErrNotParked
         else Inr (delete_shards P d))"

definition DropParkedByJob :: "string \<Rightarrow> db \<Rightarrow> int \<times> db" where
  "DropParkedByJob jobName d =
     (let P = (\<lambda>s. shard_state s = ShardParked \<and> shard_pass s \<in> job_passes_by_name jobName d)
      in (int (count_where P (t_shards d)), delete_shards P d))"

definition PruneStaleProbes :: "int \<Rightarrow> db \<Rightarrow> int \<times> db" where
  "PruneStaleProbes passID d =
     (let P = (\<lambda>s. shard_pass s = passID \<and> shard_kind s = KindProbe \<and>
                 (shard_state s = ShardQueued \<or> shard_state s = ShardLeased) \<and>
                 (case target_agent s of None \<Rightarrow> False
                  | Some a \<Rightarrow> a \<notin> agent_id ` {g \<in> set (t_agents d). schedulable g}))
      in (int (count_where P (t_shards d)), delete_shards P d))"

section \<open>Read views\<close>

definition PassOfShard :: "int \<Rightarrow> db \<Rightarrow> store_error + int" where
  "PassOfShard shardID d =
     (case List.find (\<lambda>s. shard_id s = shardID) (t_shards d) of
        None \<Rightarrow> Inl ErrNoRows | Some s \<Rightarrow> Inr (shard_pass s))"

definition ShardMeta :: "int \<Rightarrow> db \<Rightarrow> store_error + (int \<times> ShardKind \<times> bytes \<times> path)" where
  "ShardMeta shardID d =
     (case List.find (\<lambda>s. shard_id s = shardID) (t_shards d) of
        None \<Rightarrow> Inl ErrNoRows
      | Some s \<Rightarrow> Inr (shard_pass s, shard_kind s, shard_payload s, shard_rel s))"

definition ShardJobPass :: "int \<Rightarrow> db \<Rightarrow> store_error + int \<times> int" where
  "ShardJobPass shardID d =
     (case List.find (\<lambda>s. shard_id s = shardID) (t_shards d) of
        None \<Rightarrow> Inl ErrNoRows
      | Some s \<Rightarrow> (case find_pass (shard_pass s) d of
                     None \<Rightarrow> Inl ErrNoRows | Some p \<Rightarrow> Inr (pass_job p, pass_no p)))"

text \<open>\<open>SUM(n)\<close> over the count rows a predicate selects.\<close>

definition sum_counts :: "(count_key \<Rightarrow> bool) \<Rightarrow> db \<Rightarrow> int" where
  "sum_counts P d = sum_list (map snd (filter (\<lambda>c. P (fst c)) (t_counts d)))"

definition ShardKindsPresent :: "int \<Rightarrow> db \<Rightarrow> (ShardKind \<times> bool) list" where
  "ShardKindsPresent passID d =
     map (\<lambda>k. (k, True))
       (filter (\<lambda>k. sum_counts (\<lambda>(p, k', st). p = passID \<and> k' = k) d > 0)
         (remdups (map (\<lambda>((p, k, st), n). k) (filter (\<lambda>((p, k, st), n). p = passID) (t_counts d)))))"

text \<open>The Go map as a total function: an absent state reads as 0.\<close>

definition ShardStateCounts :: "int \<Rightarrow> db \<Rightarrow> ShardState \<Rightarrow> int" where
  "ShardStateCounts passID d st =
     (let n = sum_counts (\<lambda>(p, k, st'). p = passID \<and> st' = st) d;
          live = (if n > 0 then n else 0);
          reaped = (case find_pass passID d of None \<Rightarrow> 0 | Some p \<Rightarrow> shards_reaped p)
      in if st = ShardDone \<and> reaped > 0 then live + reaped else live)"

record QueueRow =
  q_Job :: string
  q_PassNo :: int
  q_Kind :: ShardKind
  q_State :: ShardState
  q_Count :: int

definition count_leg :: "(pass_row \<Rightarrow> ShardState \<Rightarrow> bool) \<Rightarrow> db \<Rightarrow> QueueRow list" where
  "count_leg P d = List.map_filter (\<lambda>((passID, k, st), n).
     case pass_job_of passID d of
       None \<Rightarrow> None
     | Some (p, j) \<Rightarrow> if n > 0 \<and> P p st
         then Some \<lparr>q_Job = job_name j, q_PassNo = pass_no p, q_Kind = k, q_State = st, q_Count = n\<rparr>
         else None) (t_counts d)"

definition reaped_leg :: "db \<Rightarrow> QueueRow list" where
  "reaped_leg d = List.map_filter (\<lambda>p.
     case find_job (pass_job p) d of
       None \<Rightarrow> None
     | Some j \<Rightarrow> if shards_reaped p > 0 \<and> pass_state p \<in> set NonTerminalPassStates
         then Some \<lparr>q_Job = job_name j, q_PassNo = pass_no p, q_Kind = KindReaped,
                    q_State = ShardDone, q_Count = shards_reaped p\<rparr>
         else None) (t_passes d)"

definition QueueSummary :: "db \<Rightarrow> QueueRow list" where
  "QueueSummary d = sort_key (\<lambda>r. (q_Job r, q_PassNo r)) (remdups
     (count_leg (\<lambda>p st. pass_state p \<in> set NonTerminalPassStates) d @
      count_leg (\<lambda>p st. st = ShardParked) d @
      reaped_leg d))"

record ParkedShard =
  pk_ID :: int
  pk_Job :: string
  pk_PassNo :: int
  pk_Kind :: ShardKind
  pk_RelPath :: path
  pk_Attempt :: nat
  pk_Error :: string
  pk_LastAgent :: string
  pk_UpdatedAt :: int

definition ParkedShards :: "db \<Rightarrow> ParkedShard list" where
  "ParkedShards d = List.map_filter (\<lambda>s. map_option (\<lambda>(p, j).
       \<lparr>pk_ID = shard_id s, pk_Job = job_name j, pk_PassNo = pass_no p, pk_Kind = shard_kind s,
        pk_RelPath = shard_rel s, pk_Attempt = shard_attempt s,
        pk_Error = (case shard_error s of None \<Rightarrow> '''' | Some e \<Rightarrow> e),
        pk_LastAgent = (case lease_agent s of None \<Rightarrow> '''' | Some a \<Rightarrow> a),
        pk_UpdatedAt = shard_updated s\<rparr>) (pass_job_of (shard_pass s) d))
     (sort_key shard_updated (filter (\<lambda>s. shard_state s = ShardParked) (t_shards d)))"

record SchedulerCounts =
  WalkPending :: int
  Queued :: int

definition running_pass :: "int \<Rightarrow> db \<Rightarrow> bool" where
  "running_pass passID d =
     (case pass_job_of passID d of None \<Rightarrow> False | Some (p, j) \<Rightarrow> job_state j = JobRunning)"

definition SchedulerCounts_of :: "db \<Rightarrow> SchedulerCounts" where
  "SchedulerCounts_of d = \<lparr>
     WalkPending = sum_counts (\<lambda>(p, k, st). running_pass p d \<and> k \<in> {KindDir, KindEntryList} \<and>
                     st \<in> {ShardQueued, ShardLeased}) d,
     Queued = sum_counts (\<lambda>(p, k, st). running_pass p d \<and> st = ShardQueued) d\<rparr>"

record JobSummary =
  js_Job :: job_row
  js_Passes :: int
  js_LatestPassNo :: int
  js_LatestPassState :: "PassState option"
  js_LatestEntriesWalked :: int
  js_FilesCopied :: int
  js_BytesCopied :: int
  js_Errors :: int

text \<open>
  \<open>LatestPass\<close> stands for the join on \<open>MAX(pass_no)\<close>; the state is \<open>None\<close> where the query gives
  the empty string, and the spec blob is not read.
\<close>

definition job_summary :: "db \<Rightarrow> job_row \<Rightarrow> JobSummary" where
  "job_summary d j =
     (let ps = filter (\<lambda>p. pass_job p = job_id j) (t_passes d);
          lp = LatestPass (job_id j) d
      in \<lparr>js_Job = j\<lparr>job_spec := []\<rparr>, js_Passes = int (length ps),
          js_LatestPassNo = (case lp of None \<Rightarrow> 0 | Some p \<Rightarrow> pass_no p),
          js_LatestPassState = (case lp of
             None \<Rightarrow> None
           | Some p \<Rightarrow> Some (if pass_no p = 0 \<or> pass_state p = PassComplete then pass_state p
                             else EffectiveState (pass_state p) (ShardKindsPresent (pass_id p) d))),
          js_LatestEntriesWalked = (case lp of None \<Rightarrow> 0 | Some p \<Rightarrow> EntriesWalked (pass_counters p)),
          js_FilesCopied = sum_list (map (\<lambda>p. FilesCopied (pass_counters p)) ps),
          js_BytesCopied = sum_list (map (\<lambda>p. BytesCopied (pass_counters p)) ps),
          js_Errors = sum_list (map (\<lambda>p. Errors (pass_counters p)) ps)\<rparr>)"

definition JobSummaries :: "db \<Rightarrow> JobSummary list" where
  "JobSummaries d = map (job_summary d) (sort_key job_id (t_jobs d))"

section \<open>Inserting\<close>

definition row_keys :: "db \<Rightarrow> int list" where
  "row_keys d = map shard_id (t_shards d)"

fun new_rows :: "int \<Rightarrow> int \<Rightarrow> int \<Rightarrow> int \<Rightarrow> NewShard list \<Rightarrow> shard_row list" where
  "new_rows i passID parentID now [] = []"
| "new_rows i passID parentID now (ns # nss) =
     new_shard_row (i + 1) passID parentID now ns # new_rows (i + 1) passID parentID now nss"

lemma new_shard_row_sel [simp]:
  "shard_id (new_shard_row i p par now ns) = i"
  "shard_pass (new_shard_row i p par now ns) = p"
  "shard_kind (new_shard_row i p par now ns) = ns_Kind ns"
  "shard_rel (new_shard_row i p par now ns) = ns_RelPath ns"
  "shard_payload (new_shard_row i p par now ns) = ns_Payload ns"
  "shard_state (new_shard_row i p par now ns) = ShardQueued"
  "shard_attempt (new_shard_row i p par now ns) = 0"
  "lease_id (new_shard_row i p par now ns) = None"
  "lease_agent (new_shard_row i p par now ns) = None"
  "lease_expiry (new_shard_row i p par now ns) = None"
  by (simp_all add: new_shard_row_def)

text \<open>
  An insert either meets the foreign key at once or appends one queued row per shard, numbered
  from the sequence; nothing else moves.
\<close>

lemma insertShardsTx_eq:
  "p \<in> pass_id ` set (t_passes d) \<Longrightarrow>
   \<exists>d'. insertShardsTx p par now nss d = Inr (map shard_id (new_rows (seq_shards d) p par now nss), d') \<and>
     t_shards d' = t_shards d @ new_rows (seq_shards d) p par now nss \<and>
     seq_shards d' = seq_shards d + int (length nss) \<and>
     (rollup_ok d \<longrightarrow> rollup_ok d') \<and>
     (\<exists>cs. d' = d\<lparr>t_shards := t_shards d', t_counts := cs, seq_shards := seq_shards d'\<rparr>)"
proof (induction nss arbitrary: d)
  case Nil
  then show ?case by (auto intro: exI [of _ "t_counts d"])
next
  case (Cons ns nss)
  let ?i = "seq_shards d + 1"
  let ?d1 = "insert_shard (new_shard_row ?i p par now ns) (d\<lparr>seq_shards := ?i\<rparr>)"
  have "p \<in> pass_id ` set (t_passes ?d1)" using Cons.prems by simp
  from Cons.IH [OF this] obtain d' cs where d':
    "insertShardsTx p par now nss ?d1 = Inr (map shard_id (new_rows ?i p par now nss), d')"
    "t_shards d' = t_shards ?d1 @ new_rows ?i p par now nss"
    "seq_shards d' = ?i + int (length nss)"
    "rollup_ok ?d1 \<longrightarrow> rollup_ok d'"
    "d' = ?d1\<lparr>t_shards := t_shards d', t_counts := cs, seq_shards := seq_shards d'\<rparr>"
    by auto
  have r: "rollup_ok d \<longrightarrow> rollup_ok d'" using d'(4) by (auto intro: wf_intros)
  have "d' = d\<lparr>t_shards := t_shards d', t_counts := cs, seq_shards := seq_shards d'\<rparr>"
    using d'(5) by (simp add: insert_shard_def)
  then show ?case using d'(1-3) r Cons.prems by (auto simp: Let_def)
qed

lemma insertShardsTx_no_pass:
  "p \<notin> pass_id ` set (t_passes d) \<Longrightarrow> nss \<noteq> [] \<Longrightarrow> insertShardsTx p par now nss d = Inl ErrForeignKey"
  by (cases nss) auto

lemma insertShardsTx_InrD:
  assumes "insertShardsTx p par now nss d = Inr (ids, d')"
  shows "ids = map shard_id (new_rows (seq_shards d) p par now nss)"
    "t_shards d' = t_shards d @ new_rows (seq_shards d) p par now nss"
    "seq_shards d' = seq_shards d + int (length nss)"
    "rollup_ok d \<Longrightarrow> rollup_ok d'"
    "\<exists>cs. d' = d\<lparr>t_shards := t_shards d', t_counts := cs, seq_shards := seq_shards d'\<rparr>"
    "nss \<noteq> [] \<Longrightarrow> p \<in> pass_id ` set (t_passes d)"
proof -
  consider "p \<in> pass_id ` set (t_passes d)" | "nss = []"
    using assms insertShardsTx_no_pass by fastforce
  then have *: "ids = map shard_id (new_rows (seq_shards d) p par now nss) \<and>
    t_shards d' = t_shards d @ new_rows (seq_shards d) p par now nss \<and>
    seq_shards d' = seq_shards d + int (length nss) \<and> (rollup_ok d \<longrightarrow> rollup_ok d') \<and>
    (\<exists>cs. d' = d\<lparr>t_shards := t_shards d', t_counts := cs, seq_shards := seq_shards d'\<rparr>)"
  proof cases
    case 1
    from insertShardsTx_eq [OF this, of par now nss] assms show ?thesis by fastforce
  next
    case 2
    with assms show ?thesis by (auto intro: exI [of _ "t_counts d"])
  qed
  show "ids = map shard_id (new_rows (seq_shards d) p par now nss)"
    "t_shards d' = t_shards d @ new_rows (seq_shards d) p par now nss"
    "seq_shards d' = seq_shards d + int (length nss)"
    "rollup_ok d \<Longrightarrow> rollup_ok d'"
    "\<exists>cs. d' = d\<lparr>t_shards := t_shards d', t_counts := cs, seq_shards := seq_shards d'\<rparr>"
    using * by blast+
  show "nss \<noteq> [] \<Longrightarrow> p \<in> pass_id ` set (t_passes d)"
    using assms insertShardsTx_no_pass by fastforce
qed

lemma insertShardsTx_frame:
  assumes "insertShardsTx p par now nss d = Inr (ids, d')"
  shows "t_jobs d' = t_jobs d" "t_passes d' = t_passes d" "t_agents d' = t_agents d"
    "t_splits d' = t_splits d" "t_cursors d' = t_cursors d" "t_chunk_groups d' = t_chunk_groups d"
    "t_delete_groups d' = t_delete_groups d" "t_link_groups d' = t_link_groups d"
    "t_link_members d' = t_link_members d" "t_journal_counts d' = t_journal_counts d"
    "seq_jobs d' = seq_jobs d" "seq_passes d' = seq_passes d"
proof -
  obtain cs where "d' = d\<lparr>t_shards := t_shards d', t_counts := cs, seq_shards := seq_shards d'\<rparr>"
    using insertShardsTx_InrD(5) [OF assms] by blast
  note e = this
  show "t_jobs d' = t_jobs d" "t_passes d' = t_passes d" "t_agents d' = t_agents d"
    "t_splits d' = t_splits d" "t_cursors d' = t_cursors d" "t_chunk_groups d' = t_chunk_groups d"
    "t_delete_groups d' = t_delete_groups d" "t_link_groups d' = t_link_groups d"
    "t_link_members d' = t_link_members d" "t_journal_counts d' = t_journal_counts d"
    "seq_jobs d' = seq_jobs d" "seq_passes d' = seq_passes d"
    by (subst e, simp)+
qed

lemma new_rows_ids: "map shard_id (new_rows i p par now nss) = [i + 1 .. i + int (length nss)]"
proof (induction nss arbitrary: i)
  case (Cons ns nss)
  have "[i + 1 .. i + int (length (ns # nss))] = (i + 1) # [i + 1 + 1 .. i + int (length (ns # nss))]"
    by (rule upto_rec1) simp
  moreover have "i + int (length (ns # nss)) = i + 1 + int (length nss)" by simp
  ultimately show ?case using Cons.IH [of "i + 1"]
    by (simp only: new_rows.simps list.map new_shard_row_sel)
qed simp

lemma in_new_rows:
  "s \<in> set (new_rows i p par now nss) \<Longrightarrow>
   \<exists>j ns. ns \<in> set nss \<and> i < j \<and> j \<le> i + int (length nss) \<and> s = new_shard_row j p par now ns"
proof (induction nss arbitrary: i)
  case (Cons ns nss)
  show ?case
  proof (cases "s = new_shard_row (i + 1) p par now ns")
    case True
    then show ?thesis by (auto intro!: exI [of _ "i + 1"])
  next
    case False
    then have "s \<in> set (new_rows (i + 1) p par now nss)" using Cons.prems by simp
    from Cons.IH [OF this] obtain j ns' where
      "ns' \<in> set nss" "i + 1 < j" "j \<le> i + 1 + int (length nss)" "s = new_shard_row j p par now ns'"
      by blast
    then show ?thesis by (intro exI [of _ j] exI [of _ ns']) auto
  qed
qed simp

lemma length_new_rows [simp]: "length (new_rows i p par now nss) = length nss"
  by (induction nss arbitrary: i) auto

section \<open>The queue invariant\<close>

definition row_ok :: "shard_row \<Rightarrow> bool" where
  "row_ok s \<longleftrightarrow>
     (shard_state s = ShardLeased \<longrightarrow>
        lease_id s \<noteq> None \<and> lease_agent s \<noteq> None \<and> lease_expiry s \<noteq> None \<and> shard_attempt s > 0) \<and>
     (shard_state s = ShardQueued \<or> shard_state s = ShardParked \<longrightarrow> lease_id s = None)"

definition el_lease :: "string \<Rightarrow> shard_row \<Rightarrow> bool" where
  "el_lease a s \<longleftrightarrow> shard_state s = ShardLeased \<and> lease_agent s = Some a \<and> shard_kind s = KindEntryList"

definition el_cap :: "shard_row list \<Rightarrow> bool" where
  "el_cap rs \<longleftrightarrow> (\<forall>a. int (count_where (el_lease a) rs) \<le> maxEntrylistPerAgent)"

text \<open>
  Row ids are unique and come from the sequence, every shard belongs to a pass, the lease columns
  match the state, no agent holds more entry-list leases than its quota, and the rollup is exact.
\<close>

definition queue_inv :: "db \<Rightarrow> bool" where
  "queue_inv d \<longleftrightarrow>
     rollup_ok d \<and>
     distinct (map shard_id (t_shards d)) \<and>
     (\<forall>s \<in> set (t_shards d). shard_id s \<le> seq_shards d \<and> row_ok s \<and>
        shard_pass s \<in> pass_id ` set (t_passes d)) \<and>
     el_cap (t_shards d)"

lemma queue_invD:
  "queue_inv d \<Longrightarrow> rollup_ok d"
  "queue_inv d \<Longrightarrow> distinct (map shard_id (t_shards d))"
  "queue_inv d \<Longrightarrow> s \<in> set (t_shards d) \<Longrightarrow> row_ok s"
  "queue_inv d \<Longrightarrow> s \<in> set (t_shards d) \<Longrightarrow> shard_id s \<le> seq_shards d"
  "queue_inv d \<Longrightarrow> s \<in> set (t_shards d) \<Longrightarrow> shard_pass s \<in> pass_id ` set (t_passes d)"
  "queue_inv d \<Longrightarrow> el_cap (t_shards d)"
  by (simp_all add: queue_inv_def)

lemma el_cap_le:
  assumes "el_cap rs" "\<And>a. count_where (el_lease a) rs' \<le> count_where (el_lease a) rs"
  shows "el_cap rs'"
  unfolding el_cap_def
proof
  fix a
  have "int (count_where (el_lease a) rs') \<le> int (count_where (el_lease a) rs)"
    using assms(2) by simp
  also have "\<dots> \<le> maxEntrylistPerAgent" using assms(1) by (simp add: el_cap_def)
  finally show "int (count_where (el_lease a) rs') \<le> maxEntrylistPerAgent" .
qed

lemma el_cap_update:
  assumes "el_cap rs" "\<And>s a. s \<in> set rs \<Longrightarrow> P s \<Longrightarrow> el_lease a (f s) \<Longrightarrow> el_lease a s"
  shows "el_cap (update_where P f rs)"
  using assms(2) by (intro el_cap_le [OF assms(1)] count_where_update_where_le)

lemma el_cap_delete: "el_cap rs \<Longrightarrow> el_cap (delete_where P rs)"
  by (erule el_cap_le) (rule count_where_delete_where_le)

lemma queue_inv_update:
  assumes "queue_inv d"
    and "\<And>s. s \<in> set (t_shards d) \<Longrightarrow> P s \<Longrightarrow>
      shard_id (f s) = shard_id s \<and> shard_pass (f s) = shard_pass s \<and> (row_ok s \<longrightarrow> row_ok (f s)) \<and>
      (\<forall>a. el_lease a (f s) \<longrightarrow> el_lease a s)"
  shows "queue_inv (update_shards P f d)"
proof -
  have k: "map shard_id (update_where P f (t_shards d)) = map shard_id (t_shards d)"
    using assms(2) by (intro map_update_where_on) blast
  have "el_cap (update_where P f (t_shards d))"
    using assms by (intro el_cap_update) (auto simp: queue_inv_def)
  moreover have "rollup_ok (update_shards P f d)"
    using assms(1) by (intro wf_intros) (simp add: queue_inv_def)
  moreover have "shard_id s \<le> seq_shards d \<and> row_ok s \<and> shard_pass s \<in> pass_id ` set (t_passes d)"
    if s: "s \<in> set (update_where P f (t_shards d))" for s
  proof -
    obtain r where r: "r \<in> set (t_shards d)" "s = (if P r then f r else r)"
      using s by (auto simp: in_update_where_iff)
    show ?thesis using r(2) queue_invD(3-5) [OF assms(1) r(1)] assms(2) [OF r(1)]
      by (cases "P r") simp_all
  qed
  ultimately show ?thesis using assms(1) by (simp add: queue_inv_def k)
qed

lemma queue_inv_delete [wf_intros]: "queue_inv d \<Longrightarrow> queue_inv (delete_shards P d)"
  by (auto simp: queue_inv_def el_cap_delete distinct_map_delete_where intro: wf_intros)

text \<open>A write that keeps the shard rows, the counts and the pass ids keeps the invariant.\<close>

lemma queue_inv_frame:
  "queue_inv d \<Longrightarrow> t_shards d' = t_shards d \<Longrightarrow> t_counts d' = t_counts d \<Longrightarrow>
   seq_shards d' = seq_shards d \<Longrightarrow> pass_id ` set (t_passes d) \<subseteq> pass_id ` set (t_passes d') \<Longrightarrow> queue_inv d'"
  by (auto simp: queue_inv_def rollup_ok_def)

lemma el_cap_append_queued:
  "el_cap rs \<Longrightarrow> (\<And>s. s \<in> set ns \<Longrightarrow> shard_state s \<noteq> ShardLeased) \<Longrightarrow> el_cap (rs @ ns)"
proof -
  assume c: "el_cap rs" and q: "\<And>s. s \<in> set ns \<Longrightarrow> shard_state s \<noteq> ShardLeased"
  have "count_where (el_lease a) ns = 0" for a
    using q by (auto simp: count_where_zero_iff el_lease_def)
  then show ?thesis using c by (simp add: el_cap_def)
qed

lemma queue_inv_insertShardsTx:
  assumes i: "insertShardsTx p par now nss d = Inr (ids, d')" and q: "queue_inv d"
  shows "queue_inv d'"
proof -
  let ?new = "new_rows (seq_shards d) p par now nss"
  note D = insertShardsTx_InrD [OF i]
  note F = insertShardsTx_frame [OF i]
  have new: "seq_shards d < shard_id s \<and> shard_id s \<le> seq_shards d' \<and> row_ok s \<and>
      shard_pass s \<in> pass_id ` set (t_passes d') \<and> shard_state s \<noteq> ShardLeased"
    if s: "s \<in> set ?new" for s
  proof -
    have "nss \<noteq> []" using s by auto
    then have "p \<in> pass_id ` set (t_passes d')" using D(6) F(2) by simp
    then show ?thesis using in_new_rows [OF s] D(3) by (auto simp: row_ok_def)
  qed
  have "distinct (map shard_id (t_shards d @ ?new))"
    using q new by (force simp: queue_inv_def new_rows_ids)
  moreover have "el_cap (t_shards d @ ?new)"
    using q new by (intro el_cap_append_queued) (auto simp: queue_inv_def)
  moreover have "shard_id s \<le> seq_shards d' \<and> row_ok s \<and> shard_pass s \<in> pass_id ` set (t_passes d')"
    if "s \<in> set (t_shards d @ ?new)" for s
    using that new queue_invD(3-5) [OF q, of s] D(3) F(2) by auto
  ultimately show ?thesis using D(2) D(4) queue_invD(1) [OF q] by (simp add: queue_inv_def)
qed

section \<open>What a grant selects\<close>

lemma scan_row_sel [simp]:
  "sr_ID (scan_row d s) = shard_id s" "sr_Kind (scan_row d s) = shard_kind s"
  "sr_RelPath (scan_row d s) = shard_rel s" "sr_Payload (scan_row d s) = shard_payload s"
  "sr_Attempt (scan_row d s) = shard_attempt s" "sr_PassID (scan_row d s) = shard_pass s"
  "sr_State (scan_row d s) = ShardLeased"
  by (simp_all add: scan_row_def)

text \<open>
  \<open>scan_rows\<close> appends the rows not seen before, each once.
\<close>

lemma scan_rows_spec:
  assumes "scan_rows rs (seen, out) = (seen', out')" "sr_ID ` set out \<subseteq> set seen" "distinct (map sr_ID out)"
  shows "\<exists>ext. out' = out @ ext \<and> set ext \<subseteq> set rs \<and> length ext \<le> length rs"
    and "distinct (map sr_ID out')"
    and "sr_ID ` set out' \<subseteq> set seen'"
    and "set seen' = set seen \<union> sr_ID ` set rs"
proof -
  have "(\<exists>ext. out' = out @ ext \<and> set ext \<subseteq> set rs \<and> length ext \<le> length rs) \<and> distinct (map sr_ID out') \<and>
     sr_ID ` set out' \<subseteq> set seen' \<and> set seen' = set seen \<union> sr_ID ` set rs"
    using assms
  proof (induction rs "(seen, out)" arbitrary: seen out rule: scan_rows.induct)
    case (1 seen out)
    then show ?case by auto
  next
    case (2 r rs seen out)
    show ?case
    proof (cases "sr_ID r \<in> set seen")
      case True
      with 2(1) 2(3-) show ?thesis by fastforce
    next
      case False
      have "distinct (map sr_ID (out @ [r]))" using 2(4,5) False by auto
      moreover have "sr_ID ` set (out @ [r]) \<subseteq> set (sr_ID r # seen)" using 2(4) by auto
      ultimately show ?thesis using 2(2) [OF False] 2(3) False by fastforce
    qed
  qed
  then show "\<exists>ext. out' = out @ ext \<and> set ext \<subseteq> set rs \<and> length ext \<le> length rs"
    "distinct (map sr_ID out')" "sr_ID ` set out' \<subseteq> set seen'" "set seen' = set seen \<union> sr_ID ` set rs"
    by blast+
qed

lemma scan_rows_fresh:
  "distinct (map sr_ID rs) \<Longrightarrow> sr_ID ` set rs \<inter> set seen = {} \<Longrightarrow>
   snd (scan_rows rs (seen, out)) = out @ rs"
proof (induction rs arbitrary: seen out)
  case (Cons r rs)
  then have "snd (scan_rows rs (sr_ID r # seen, out @ [r])) = (out @ [r]) @ rs"
    by (intro Cons.IH) auto
  then show ?case using Cons.prems by auto
qed simp

definition is_el :: "ShardRow \<Rightarrow> bool" where
  "is_el r \<longleftrightarrow> sr_Kind r = KindEntryList"

lemma trim_entrylist_spec:
  assumes "trim_entrylist b rs = (kept, trimmed)" "0 \<le> b"
  shows "subseq kept rs" "int (count_where is_el kept) \<le> b"
    "\<not> trimmed \<Longrightarrow> kept = rs" "filter (\<lambda>r. \<not> is_el r) kept = filter (\<lambda>r. \<not> is_el r) rs"
    "rs \<noteq> [] \<Longrightarrow> \<not> is_el (hd rs) \<or> 0 < b \<Longrightarrow> kept \<noteq> []"
proof -
  have "subseq kept rs \<and> int (count_where is_el kept) \<le> b \<and> (\<not> trimmed \<longrightarrow> kept = rs) \<and>
     filter (\<lambda>r. \<not> is_el r) kept = filter (\<lambda>r. \<not> is_el r) rs \<and>
     (rs \<noteq> [] \<longrightarrow> \<not> is_el (hd rs) \<or> 0 < b \<longrightarrow> kept \<noteq> [])"
    using assms
  proof (induction b rs arbitrary: kept trimmed rule: trim_entrylist.induct)
    case (1 b)
    then show ?case by simp
  next
    case (2 b r rs)
    consider (cut) "is_el r" "b \<le> 0" | (el) "is_el r" "0 < b" | (other) "\<not> is_el r" by linarith
    then show ?case
    proof cases
      case cut
      obtain k t where kt: "trim_entrylist b rs = (k, t)" by (cases "trim_entrylist b rs")
      with 2(1) [OF cut(1) [unfolded is_el_def] cut(2) kt 2(5)] 2(4) cut show ?thesis
        by (auto simp: is_el_def)
    next
      case el
      obtain k t where kt: "trim_entrylist (b - 1) rs = (k, t)" by (cases "trim_entrylist (b - 1) rs")
      have nb: "\<not> b \<le> 0" using el(2) by simp
      from 2(2) [OF el(1) [unfolded is_el_def] nb kt] el kt 2(4) show ?thesis
        by (auto simp: is_el_def)
    next
      case other
      obtain k t where kt: "trim_entrylist b rs = (k, t)" by (cases "trim_entrylist b rs")
      from 2(3) [OF other [unfolded is_el_def] kt 2(5)] other kt 2(4) show ?thesis
        by (auto simp: is_el_def)
    qed
  qed
  then show "subseq kept rs" "int (count_where is_el kept) \<le> b"
    "\<not> trimmed \<Longrightarrow> kept = rs" "filter (\<lambda>r. \<not> is_el r) kept = filter (\<lambda>r. \<not> is_el r) rs"
    "rs \<noteq> [] \<Longrightarrow> \<not> is_el (hd rs) \<or> 0 < b \<Longrightarrow> kept \<noteq> []"
    by blast+
qed

lemma select_shards_in: "s \<in> set (select_shards P n d) \<Longrightarrow> s \<in> set (t_shards d) \<and> P s"
  by (auto simp: select_shards_def dest: in_set_takeD)

lemma length_select_shards: "length (select_shards P n d) \<le> n"
  by (simp add: select_shards_def)

lemma select_shards_nonempty: "s \<in> set (t_shards d) \<Longrightarrow> P s \<Longrightarrow> 0 < n \<Longrightarrow> select_shards P n d \<noteq> []"
proof -
  assume s: "s \<in> set (t_shards d)" "P s" "0 < n"
  then have "s \<in> set (sort_key sched_key (filter P (t_shards d)))" by simp
  then have "sort_key sched_key (filter P (t_shards d)) \<noteq> []" by (metis empty_iff empty_set)
  then show ?thesis using s by (simp add: select_shards_def take_eq_Nil)
qed

lemma distinct_select_shards:
  "distinct (map shard_id (t_shards d)) \<Longrightarrow> distinct (map shard_id (select_shards P n d))"
  by (simp add: select_shards_def distinct_map_take distinct_map_sort_key distinct_map_filter)

text \<open>
  The selection of \<open>LeaseShards\<close>: within the limit, no row twice, only leasable rows of the table,
  and no more entry-list rows than the budget left.
\<close>

definition grantable :: "string \<Rightarrow> db \<Rightarrow> shard_row \<Rightarrow> bool" where
  "grantable a d s \<longleftrightarrow> leasable a d s \<and> (elBudget a d = 0 \<longrightarrow> shard_kind s \<noteq> KindEntryList)"

lemma elBudget_nonneg: "0 \<le> elBudget a d"
  by (simp add: elBudget_def)

lemma count_where_scan_el:
  "(\<And>s. s \<in> set ss \<Longrightarrow> shard_kind s \<noteq> KindEntryList) \<Longrightarrow> set ext \<subseteq> scan_row d ` set ss \<Longrightarrow>
   count_where is_el ext = 0"
  by (auto simp: count_where_zero_iff is_el_def)

definition tier1 :: "string \<Rightarrow> nat \<Rightarrow> db \<Rightarrow> shard_row list" where
  "tier1 a n d = select_shards (\<lambda>s. grantable a d s \<and> \<not> last_held a s) n d"

definition tier2 :: "string \<Rightarrow> nat \<Rightarrow> db \<Rightarrow> shard_row list" where
  "tier2 a n d = select_shards (\<lambda>s. grantable a d s \<and> last_held a s) n d"

definition backfill :: "string \<Rightarrow> nat \<Rightarrow> db \<Rightarrow> shard_row list" where
  "backfill a n d = select_shards (\<lambda>s. leasable a d s \<and> shard_kind s \<noteq> KindEntryList) n d"

text \<open>The two tiers are disjoint and each row appears once, so their scans only concatenate.\<close>

lemma lease_selection_eq:
  assumes dist: "distinct (map shard_id (t_shards d))"
  shows "\<exists>seen. (let t = tier1 a n d;
      out = map (scan_row d) (t @ (if length t < n then tier2 a (n - length t) d else []));
      (kept, trimmed) = trim_entrylist (elBudget a d) out
    in set seen = sr_ID ` set out \<and> lease_selection a n d =
       (if trimmed \<and> length kept < n
        then snd (scan_rows (map (scan_row d) (backfill a (n - length kept) d)) (seen, kept))
        else kept))"
proof -
  let ?t = "tier1 a n d"
  let ?u = "if length ?t < n then tier2 a (n - length ?t) d else []"
  let ?P1 = "\<lambda>s. leasable a d s \<and> (elBudget a d = 0 \<longrightarrow> shard_kind s \<noteq> KindEntryList) \<and> \<not> last_held a s"
  let ?P2 = "\<lambda>s. leasable a d s \<and> (elBudget a d = 0 \<longrightarrow> shard_kind s \<noteq> KindEntryList) \<and> last_held a s"
  have t: "select_shards ?P1 n d = ?t" by (simp add: tier1_def grantable_def)
  have u: "select_shards ?P2 m d = tier2 a m d" for m by (simp add: tier2_def grantable_def)
  have d1: "distinct (map sr_ID (map (scan_row d) ?t))"
    using distinct_select_shards [OF dist] by (simp add: tier1_def comp_def)
  have d2: "distinct (map sr_ID (map (scan_row d) (tier2 a m d)))" for m
    using distinct_select_shards [OF dist] by (simp add: tier2_def comp_def)
  obtain seen1 out1 where s1: "scan_rows (map (scan_row d) ?t) ([], []) = (seen1, out1)"
    by (cases "scan_rows (map (scan_row d) ?t) ([], [])")
  have o1: "out1 = map (scan_row d) ?t" using scan_rows_fresh [OF d1, of "[]" "[]"] s1 by simp
  have e1: "set seen1 = sr_ID ` set (map (scan_row d) ?t)" using scan_rows_spec(4) [OF s1] by simp
  have disj: "sr_ID ` set (map (scan_row d) (tier2 a m d)) \<inter> set seen1 = {}" for m
  proof -
    have "shard_id s \<noteq> shard_id s'" if "s \<in> set (tier2 a m d)" "s' \<in> set ?t" for s s'
      using that key_unique [OF dist, of s s'] by (auto simp: tier1_def tier2_def dest: select_shards_in)
    then show ?thesis using e1 by fastforce
  qed
  obtain seen2 out2 where s2: "(if length out1 < n
      then scan_rows (map (scan_row d) (select_shards ?P2 (n - length out1) d)) (seen1, out1)
      else (seen1, out1)) = (seen2, out2)" by (meson surj_pair)
  have o2: "out2 = map (scan_row d) (?t @ ?u)"
    using s2 scan_rows_fresh [OF d2 disj, of "n - length out1" out1] by (auto simp: o1 u split: if_splits)
  have e2: "set seen2 = sr_ID ` set out2"
  proof (cases "length ?t < n")
    case True
    then have "scan_rows (map (scan_row d) (tier2 a (n - length ?t) d)) (seen1, out1) = (seen2, out2)"
      using s2 by (simp add: o1 u)
    from scan_rows_spec(4) [OF this] d1 e1 True show ?thesis by (simp add: o1 o2 image_Un)
  next
    case False
    then show ?thesis using s2 e1 by (simp add: o1)
  qed
  show ?thesis
    unfolding lease_selection_def Let_def t s1 case_prod_conv s2
    by (rule exI [of _ seen2]) (auto simp: o2 e2 backfill_def Let_def split: prod.splits)
qed

lemma lease_selection_cases:
  assumes dist: "distinct (map shard_id (t_shards d))"
  obtains out kept trimmed ext where
    "out = map (scan_row d) (tier1 a n d @
       (if length (tier1 a n d) < n then tier2 a (n - length (tier1 a n d)) d else []))"
    "trim_entrylist (elBudget a d) out = (kept, trimmed)"
    "lease_selection a n d = kept @ ext"
    "set ext \<subseteq> scan_row d ` set (backfill a (n - length kept) d)" "length ext \<le> n - length kept"
    "ext \<noteq> [] \<longrightarrow> trimmed"
    "distinct (map sr_ID (kept @ ext))"
proof -
  let ?t = "tier1 a n d"
  define out where "out = map (scan_row d) (?t @ (if length ?t < n then tier2 a (n - length ?t) d else []))"
  obtain kept trimmed where k: "trim_entrylist (elBudget a d) out = (kept, trimmed)"
    by (cases "trim_entrylist (elBudget a d) out")
  from lease_selection_eq [OF dist, of a n] obtain seen where
    seen: "set seen = sr_ID ` set out" and
    sel: "lease_selection a n d = (if trimmed \<and> length kept < n
        then snd (scan_rows (map (scan_row d) (backfill a (n - length kept) d)) (seen, kept)) else kept)"
    using k by (auto simp: Let_def out_def)
  have sub: "subseq kept out" using trim_entrylist_spec(1) [OF k elBudget_nonneg] .
  have d1: "distinct (map shard_id (?t @ (if length ?t < n then tier2 a (n - length ?t) d else [])))"
  proof -
    have "shard_id s \<noteq> shard_id s'" if "s \<in> set ?t" "s' \<in> set (tier2 a m d)" for s s' m
      using that key_unique [OF dist, of s s'] by (auto simp: tier1_def tier2_def dest: select_shards_in)
    then show ?thesis using distinct_select_shards [OF dist]
      by (fastforce simp: tier1_def tier2_def)
  qed
  then have "distinct (map sr_ID out)" by (simp add: out_def comp_def)
  then have dk: "distinct (map sr_ID kept)" using sub by (rule subseq_distinct_map [rotated])
  have ks: "sr_ID ` set kept \<subseteq> set seen" using subseq_set_subset [OF sub] seen by auto
  show thesis
  proof (cases "trimmed \<and> length kept < n")
    case False
    show thesis
      by (rule that [OF out_def k, of "[]"]) (use sel False dk in auto)
  next
    case True
    obtain seen' out' where s: "scan_rows (map (scan_row d) (backfill a (n - length kept) d)) (seen, kept) = (seen', out')"
      by (meson surj_pair)
    from scan_rows_spec(1) [OF s ks dk] obtain ext where
      e: "out' = kept @ ext" "set ext \<subseteq> set (map (scan_row d) (backfill a (n - length kept) d))"
         "length ext \<le> length (map (scan_row d) (backfill a (n - length kept) d))" by blast
    have "length ext \<le> n - length kept"
      using e(3) length_select_shards [of _ "n - length kept" d] by (auto simp: backfill_def intro: order_trans)
    then show thesis
      by (intro that [OF out_def k, of ext])
        (use sel True s e scan_rows_spec(2) [OF s ks dk] in auto)
  qed
qed

lemma length_out:
  "length (tier1 a n d @ (if length (tier1 a n d) < n then tier2 a (n - length (tier1 a n d)) d else [])) \<le> n"
  using length_select_shards [of _ n d] length_select_shards [of _ "n - length (tier1 a n d)" d]
  by (auto simp: tier1_def tier2_def) (metis le_diff_conv2 add.commute less_or_eq_imp_le)

lemma tiers_grantable:
  "s \<in> set (tier1 a n d) \<Longrightarrow> s \<in> set (t_shards d) \<and> grantable a d s"
  "s \<in> set (tier2 a m d) \<Longrightarrow> s \<in> set (t_shards d) \<and> grantable a d s"
  "s \<in> set (backfill a m d) \<Longrightarrow> s \<in> set (t_shards d) \<and> grantable a d s \<and> shard_kind s \<noteq> KindEntryList"
  by (auto simp: tier1_def tier2_def backfill_def grantable_def dest: select_shards_in)

lemma lease_selection_props:
  assumes dist: "distinct (map shard_id (t_shards d))"
  shows "length (lease_selection a n d) \<le> n"
    and "distinct (map sr_ID (lease_selection a n d))"
    and "r \<in> set (lease_selection a n d) \<Longrightarrow> \<exists>s \<in> set (t_shards d). grantable a d s \<and> r = scan_row d s"
    and "int (count_where is_el (lease_selection a n d)) \<le> elBudget a d"
proof -
  obtain out kept trimmed ext where L:
    "out = map (scan_row d) (tier1 a n d @
       (if length (tier1 a n d) < n then tier2 a (n - length (tier1 a n d)) d else []))"
    "trim_entrylist (elBudget a d) out = (kept, trimmed)"
    "lease_selection a n d = kept @ ext"
    "set ext \<subseteq> scan_row d ` set (backfill a (n - length kept) d)" "length ext \<le> n - length kept"
    "distinct (map sr_ID (kept @ ext))"
    using lease_selection_cases [OF dist] by metis
  note T = trim_entrylist_spec [OF L(2) elBudget_nonneg]
  have "length kept \<le> n"
    using list_emb_length [OF T(1)] length_out [of a n d] by (simp add: L(1))
  then show "length (lease_selection a n d) \<le> n" using L(3,5) by simp
  show "distinct (map sr_ID (lease_selection a n d))" using L(3,6) by simp
  have "count_where is_el ext = 0"
    using tiers_grantable(3) by (intro count_where_scan_el [OF _ L(4)]) blast
  then show "int (count_where is_el (lease_selection a n d)) \<le> elBudget a d" using L(3) T(2) by simp
  show "\<exists>s \<in> set (t_shards d). grantable a d s \<and> r = scan_row d s" if r: "r \<in> set (lease_selection a n d)"
  proof -
    have "r \<in> set out \<or> r \<in> set ext" using r L(3) subseq_set_subset [OF T(1)] by auto
    then show ?thesis
      using L(1,4) tiers_grantable by (auto split: if_splits) blast+
  qed
qed

text \<open>While some shard is grantable, a grant is not empty.\<close>

lemma lease_selection_nonempty:
  assumes dist: "distinct (map shard_id (t_shards d))"
    and s: "s \<in> set (t_shards d)" "grantable a d s" and n: "0 < n"
  shows "lease_selection a n d \<noteq> []"
proof -
  obtain out kept trimmed ext where L:
    "out = map (scan_row d) (tier1 a n d @
       (if length (tier1 a n d) < n then tier2 a (n - length (tier1 a n d)) d else []))"
    "trim_entrylist (elBudget a d) out = (kept, trimmed)" "lease_selection a n d = kept @ ext"
    using lease_selection_cases [OF dist] by metis
  have "out \<noteq> []"
  proof (cases "last_held a s")
    case False
    then have "tier1 a n d \<noteq> []" using s n select_shards_nonempty by (auto simp: tier1_def)
    then show ?thesis using L(1) by simp
  next
    case True
    then have "tier2 a n d \<noteq> []" using s n select_shards_nonempty by (auto simp: tier2_def)
    then show ?thesis using L(1) n by auto
  qed
  moreover have "\<not> is_el (hd out) \<or> 0 < elBudget a d"
  proof (rule ccontr)
    assume c: "\<not> (\<not> is_el (hd out) \<or> 0 < elBudget a d)"
    then have b: "elBudget a d = 0" using elBudget_nonneg [of a d] by simp
    obtain s' where "hd out = scan_row d s'" "grantable a d s'"
      using list.set_sel(1) [OF \<open>out \<noteq> []\<close>] L(1) tiers_grantable by (auto split: if_splits)
    then show False using c b by (simp add: grantable_def is_el_def)
  qed
  ultimately show ?thesis using trim_entrylist_spec(5) [OF L(2) elBudget_nonneg] L(3) by simp
qed

section \<open>What a grant writes\<close>

lemma lease_row_sel [simp]:
  "shard_id (lease_row a l e now s) = shard_id s" "shard_pass (lease_row a l e now s) = shard_pass s"
  "shard_kind (lease_row a l e now s) = shard_kind s" "shard_state (lease_row a l e now s) = ShardLeased"
  "lease_id (lease_row a l e now s) = Some l" "lease_agent (lease_row a l e now s) = Some a"
  "lease_expiry (lease_row a l e now s) = Some e" "shard_attempt (lease_row a l e now s) = shard_attempt s + 1"
  by (simp_all add: lease_row_def)

definition leased_as :: "string \<Rightarrow> (nat \<Rightarrow> int) \<Rightarrow> int \<Rightarrow> int \<Rightarrow> nat \<Rightarrow> ShardRow list \<Rightarrow> shard_row \<Rightarrow> shard_row" where
  "leased_as a newLeaseID expiry now k rs s =
     (case map_of (zip (map sr_ID rs) [k..<k + length rs]) (shard_id s) of
        None \<Rightarrow> s | Some i \<Rightarrow> lease_row a (newLeaseID i) expiry now s)"

lemma map_of_zip_upt_None:
  "map_of (zip xs [k..<k + length xs]) x = None \<longleftrightarrow> x \<notin> set xs"
  by (simp add: map_of_zip_is_None)

lemma leased_as_Cons:
  "leased_as a nl e now k (r # rs) s =
     (if shard_id s = sr_ID r then lease_row a (nl k) e now s else leased_as a nl e now (Suc k) rs s)"
proof -
  have "[k..<k + length (r # rs)] = k # [Suc k..<Suc k + length rs]"
    by (simp add: upt_conv_Cons del: upt_Suc)
  then show ?thesis by (simp add: leased_as_def del: upt_Suc)
qed

lemma leased_as_absent: "shard_id s \<notin> sr_ID ` set rs \<Longrightarrow> leased_as a nl e now k rs s = s"
  using map_of_zip_upt_None [of "map sr_ID rs" k "shard_id s"]
  by (simp add: leased_as_def option.case_eq_if)

lemma grant_rows_frame_ex:
  "grant_rows a nl e now k rs d = (rs', d') \<Longrightarrow>
   (\<exists>ss cs. d' = d\<lparr>t_shards := ss, t_counts := cs\<rparr>) \<and> map sr_ID rs' = map sr_ID rs \<and>
   map sr_Kind rs' = map sr_Kind rs \<and> (rollup_ok d \<longrightarrow> rollup_ok d')"
proof (induction rs arbitrary: k d rs')
  case Nil
  then show ?case by (auto intro!: exI [of _ "t_shards d"] exI [of _ "t_counts d"])
next
  case (Cons r rs)
  let ?d1 = "update_shards (\<lambda>s. shard_id s = sr_ID r) (lease_row a (nl k) e now) d"
  obtain rs2 where g: "grant_rows a nl e now (Suc k) rs ?d1 = (rs2, d')"
    and rs': "rs' = r\<lparr>sr_LeaseID := nl k, sr_Attempt := sr_Attempt r + 1\<rparr> # rs2"
    using Cons.prems by (auto simp: Let_def split: prod.splits)
  have r: "rollup_ok d \<longrightarrow> rollup_ok ?d1" by (blast intro: wf_intros)
  obtain ss cs where "d' = ?d1\<lparr>t_shards := ss, t_counts := cs\<rparr>" using Cons.IH [OF g] by blast
  then have "d' = d\<lparr>t_shards := ss, t_counts := cs\<rparr>" by (simp add: update_shards_def)
  then show ?case using Cons.IH [OF g] r rs' by auto
qed

lemma grant_rows_frame:
  assumes "grant_rows a nl e now k rs d = (rs', d')"
  shows "t_jobs d' = t_jobs d" "t_passes d' = t_passes d" "t_agents d' = t_agents d"
    "t_splits d' = t_splits d" "t_cursors d' = t_cursors d" "t_chunk_groups d' = t_chunk_groups d"
    "t_delete_groups d' = t_delete_groups d" "t_link_groups d' = t_link_groups d"
    "t_link_members d' = t_link_members d" "seq_shards d' = seq_shards d"
    "t_journal_counts d' = t_journal_counts d" "seq_jobs d' = seq_jobs d" "seq_passes d' = seq_passes d"
    "map sr_ID rs' = map sr_ID rs" "map sr_Kind rs' = map sr_Kind rs" "rollup_ok d \<Longrightarrow> rollup_ok d'"
  using grant_rows_frame_ex [OF assms] by auto

lemma grant_rows_shards:
  "distinct (map sr_ID rs) \<Longrightarrow> grant_rows a nl e now k rs d = (rs', d') \<Longrightarrow>
   t_shards d' = map (leased_as a nl e now k rs) (t_shards d)"
proof (induction a nl e now k rs d arbitrary: rs' d' rule: grant_rows.induct)
  case (1 a nl e now k d)
  then show ?case by (simp add: leased_as_def)
next
  case (2 a nl e now k r rs d)
  let ?d1 = "update_shards (\<lambda>s. shard_id s = sr_ID r) (lease_row a (nl k) e now) d"
  obtain rs2 where g: "grant_rows a nl e now (Suc k) rs ?d1 = (rs2, d')"
    using 2(3) by (auto simp: Let_def split: prod.splits)
  have "t_shards d' = map (leased_as a nl e now (Suc k) rs) (t_shards ?d1)"
    using 2(1) [OF refl _ g] 2(2) by simp
  also have "\<dots> = map (leased_as a nl e now k (r # rs)) (t_shards d)"
    using 2(2) by (simp add: update_where_def leased_as_Cons leased_as_absent)
  finally show ?case .
qed

section \<open>Lookups through the joins\<close>

lemma find_pass_Some: "jobs_inv d \<Longrightarrow> p \<in> set (t_passes d) \<Longrightarrow> find_pass (pass_id p) d = Some p"
  by (simp add: find_pass_def find_key_some jobs_invD)

lemma find_passD: "find_pass i d = Some p \<Longrightarrow> p \<in> set (t_passes d) \<and> pass_id p = i"
  by (auto simp: find_pass_def dest: find_SomeD)

lemma find_job_Some: "jobs_inv d \<Longrightarrow> j \<in> set (t_jobs d) \<Longrightarrow> find_job (job_id j) d = Some j"
  by (simp add: find_job_def find_key_some jobs_invD)

lemma pass_job_of_ex:
  assumes "jobs_inv d" "i \<in> pass_id ` set (t_passes d)"
  shows "\<exists>p j. pass_job_of i d = Some (p, j) \<and> p \<in> set (t_passes d) \<and> pass_id p = i \<and>
    j \<in> set (t_jobs d) \<and> job_id j = pass_job p"
proof -
  obtain p where p: "p \<in> set (t_passes d)" "pass_id p = i" using assms(2) by auto
  obtain j where j: "j \<in> set (t_jobs d)" "job_id j = pass_job p"
    using jobs_invD(5) [OF assms(1) p(1)] by auto
  show ?thesis using find_pass_Some [OF assms(1) p(1)] find_job_Some [OF assms(1) j(1)] p j
    by (simp add: pass_job_of_def)
qed

section \<open>The rollup views\<close>

lemma sum_filter_counts:
  "distinct ks \<Longrightarrow>
   sum_list (map (\<lambda>k. int (count_where (\<lambda>r. key r = k) rs)) (filter P ks)) =
     int (count_where (\<lambda>r. P (key r) \<and> key r \<in> set ks) rs)"
proof (induction ks)
  case Nil
  then show ?case by (simp add: count_where_def)
next
  case (Cons k ks)
  have "count_where (\<lambda>r. P (key r) \<and> key r \<in> set (k # ks)) rs =
     (if P k then count_where (\<lambda>r. key r = k) rs else 0) + count_where (\<lambda>r. P (key r) \<and> key r \<in> set ks) rs"
    using Cons.prems by (induction rs) auto
  then show ?case using Cons by simp
qed

lemma sum_counts_exact:
  assumes "rollup_ok d"
  shows "sum_counts P d = int (count_where (\<lambda>s. P (count_key_of s)) (t_shards d))"
proof -
  let ?cs = "t_counts d" and ?rs = "t_shards d"
  have ex: "counts_exact ?rs ?cs" using assms by (simp add: rollup_ok_def)
  have dist: "distinct (map fst ?cs)" using counts_exact_distinct [OF ex] .
  have "snd c = int (count_where (\<lambda>r. count_key_of r = fst c) ?rs)" if "c \<in> set ?cs" for c
    using counts_exactD [OF ex, of "fst c"] map_of_is_SomeI [OF dist, of "fst c" "snd c"] that
    by (simp add: count_of_def)
  then have "sum_counts P d =
      sum_list (map (\<lambda>c. int (count_where (\<lambda>r. count_key_of r = fst c) ?rs)) (filter (\<lambda>c. P (fst c)) ?cs))"
    unfolding sum_counts_def by (intro arg_cong [where f = sum_list] map_cong) auto
  also have "\<dots> = sum_list (map (\<lambda>k. int (count_where (\<lambda>r. count_key_of r = k) ?rs)) (filter P (map fst ?cs)))"
    by (simp add: filter_map comp_def)
  also have "\<dots> = int (count_where (\<lambda>r. P (count_key_of r) \<and> count_key_of r \<in> set (map fst ?cs)) ?rs)"
    by (rule sum_filter_counts [OF dist])
  also have "\<dots> = int (count_where (\<lambda>r. P (count_key_of r)) ?rs)"
    using counts_exact_key_present [OF ex] by (intro arg_cong [where f = int] count_where_cong) auto
  finally show ?thesis .
qed

definition live_count :: "int \<Rightarrow> ShardState \<Rightarrow> db \<Rightarrow> int" where
  "live_count passID st d = int (count_where (\<lambda>s. shard_pass s = passID \<and> shard_state s = st) (t_shards d))"

definition reaped_of :: "int \<Rightarrow> db \<Rightarrow> int" where
  "reaped_of passID d = (case find_pass passID d of None \<Rightarrow> 0 | Some p \<Rightarrow> shards_reaped p)"

lemma ShardStateCounts_eq:
  assumes "rollup_ok d" "jobs_inv d"
  shows "ShardStateCounts passID d st =
    live_count passID st d + (if st = ShardDone then reaped_of passID d else 0)"
proof -
  have "0 \<le> reaped_of passID d"
    using jobs_invD(6) [OF assms(2)] by (auto simp: reaped_of_def split: option.splits dest: find_passD)
  moreover have "sum_counts (\<lambda>(p, k, st'). p = passID \<and> st' = st) d = live_count passID st d"
    by (simp add: sum_counts_exact [OF assms(1)] live_count_def count_key_of_def)
  moreover have "0 \<le> live_count passID st d" by (simp add: live_count_def)
  ultimately show ?thesis by (auto simp: ShardStateCounts_def Let_def reaped_of_def)
qed

lemma ShardKindsPresent_iff:
  assumes "rollup_ok d"
  shows "(k, True) \<in> set (ShardKindsPresent passID d) \<longleftrightarrow>
    (\<exists>s \<in> set (t_shards d). shard_pass s = passID \<and> shard_kind s = k)"
proof -
  have s: "sum_counts (\<lambda>(p, k', st). p = passID \<and> k' = k) d > 0 \<longleftrightarrow>
      (\<exists>s \<in> set (t_shards d). shard_pass s = passID \<and> shard_kind s = k)"
    by (simp add: sum_counts_exact [OF assms] count_key_of_def count_where_pos_iff)
  have "k \<in> set (map (\<lambda>((p, k, st), n). k) (filter (\<lambda>((p, k, st), n). p = passID) (t_counts d)))"
    if r: "r \<in> set (t_shards d)" "shard_pass r = passID" "shard_kind r = k" for r
  proof -
    have "count_key_of r \<in> fst ` set (t_counts d)"
      using counts_exact_key_present r(1) assms by (auto simp: rollup_ok_def)
    then obtain n where "(count_key_of r, n) \<in> set (t_counts d)" by auto
    then show ?thesis using r(2,3) by (force simp: count_key_of_def image_iff)
  qed
  then show ?thesis using s by (auto simp: ShardKindsPresent_def)
qed

section \<open>Grants\<close>

lemma LeaseShards_cases:
  assumes "LeaseShards nl a n ttl now d = (out, d')"
  obtains "out = []" "d' = d" "n \<le> 0 \<or> agent_disabled a d"
  | "0 < n" "\<not> agent_disabled a d"
    "grant_rows a nl (now + ttl) now 0 (lease_selection a (nat n) d) d = (out, d')"
  using assms by (auto simp: LeaseShards_def split: if_splits)

lemma leased_as_cases:
  "leased_as a nl e now k rs s = s \<and> shard_id s \<notin> sr_ID ` set rs \<or>
   (\<exists>i. leased_as a nl e now k rs s = lease_row a (nl i) e now s \<and> shard_id s \<in> sr_ID ` set rs)"
proof (induction rs arbitrary: k)
  case (Cons r rs)
  show ?case
  proof (cases "shard_id s = sr_ID r")
    case True
    then show ?thesis by (intro disjI2 exI [of _ k]) (simp add: leased_as_Cons)
  next
    case False
    then show ?thesis using Cons.IH [of "Suc k"] by (simp add: leased_as_Cons)
  qed
qed (simp add: leased_as_def)

lemma leased_as_nth:
  "distinct (map sr_ID rs) \<Longrightarrow> i < length rs \<Longrightarrow> shard_id s = sr_ID (rs ! i) \<Longrightarrow>
   leased_as a nl e now k rs s = lease_row a (nl (k + i)) e now s"
proof (induction rs arbitrary: k i)
  case (Cons r rs)
  show ?case
  proof (cases i)
    case 0
    then show ?thesis using Cons.prems by (simp add: leased_as_Cons)
  next
    case (Suc i')
    have "sr_ID (rs ! i') \<in> sr_ID ` set rs" using Cons.prems(2) Suc by simp
    then have "shard_id s \<noteq> sr_ID r" using Cons.prems Suc by force
    then show ?thesis using Cons.IH [of i' "Suc k"] Cons.prems Suc by (simp add: leased_as_Cons)
  qed
qed simp

lemma grant_rows_lease_ids:
  "grant_rows a nl e now k rs d = (rs', d') \<Longrightarrow> i < length rs \<Longrightarrow> sr_LeaseID (rs' ! i) = nl (k + i)"
proof (induction rs arbitrary: k d rs' i)
  case (Cons r rs)
  obtain rs2 d1 where "grant_rows a nl e now (Suc k) rs d1 = (rs2, d')"
    "rs' = r\<lparr>sr_LeaseID := nl k, sr_Attempt := sr_Attempt r + 1\<rparr> # rs2"
    using Cons.prems(1) by (auto simp: Let_def split: prod.splits)
  then show ?case using Cons.IH [of "Suc k" d1 rs2 "i - 1"] Cons.prems(2) by (cases i) auto
qed simp

lemma selected_row:
  assumes dist: "distinct (map shard_id (t_shards d))" and r: "r \<in> set (lease_selection a n d)"
    and s: "s \<in> set (t_shards d)" "shard_id s = sr_ID r"
  shows "r = scan_row d s" "grantable a d s"
proof -
  obtain s' where s': "s' \<in> set (t_shards d)" "grantable a d s'" "r = scan_row d s'"
    using lease_selection_props(3) [OF dist r] by blast
  then have "s' = s" using key_unique [OF dist s'(1) s(1)] s(2) by simp
  then show "r = scan_row d s" "grantable a d s" using s' by simp_all
qed

text \<open>Entry-list leases after a grant: those held plus those selected.\<close>

lemma count_el_after_grant:
  assumes dist: "distinct (map shard_id (t_shards d))"
  shows "count_where (el_lease b) (map (leased_as a nl e now k (lease_selection a n d)) (t_shards d))
     \<le> count_where (el_lease b) (t_shards d) +
       (if b = a then count_where is_el (lease_selection a n d) else 0)"
proof -
  let ?sel = "lease_selection a n d" and ?rs = "t_shards d"
  let ?g = "leased_as a nl e now k ?sel"
  let ?new = "\<lambda>s. b = a \<and> shard_id s \<in> sr_ID ` set (filter is_el ?sel)"
  have imp: "el_lease b s \<or> ?new s" if s: "s \<in> set ?rs" "el_lease b (?g s)" for s
  proof (cases "shard_id s \<in> sr_ID ` set ?sel")
    case False
    then show ?thesis using s(2) by (simp add: leased_as_absent)
  next
    case True
    then obtain r where r: "r \<in> set ?sel" "sr_ID r = shard_id s" by auto
    have "r = scan_row d s" using selected_row [OF dist r(1) s(1)] r(2) by simp
    moreover have "shard_kind s = KindEntryList \<and> b = a"
      using s(2) True leased_as_cases [of a nl e now k ?sel s] by (auto simp: el_lease_def)
    ultimately show ?thesis using r by (force simp: is_el_def)
  qed
  have "count_where (el_lease b) (map ?g ?rs) = count_where (\<lambda>s. el_lease b (?g s)) ?rs"
    by (simp add: count_where_def filter_map comp_def)
  also have "\<dots> \<le> count_where (\<lambda>s. el_lease b s \<or> ?new s) ?rs"
    using imp by (intro count_where_mono)
  also have "\<dots> \<le> count_where (el_lease b) ?rs + count_where ?new ?rs"
    by (rule count_where_disj_le)
  also have "count_where ?new ?rs \<le> (if b = a then count_where is_el ?sel else 0)"
  proof (cases "b = a")
    case True
    have "distinct (map shard_id (filter ?new ?rs))" using dist by (rule distinct_map_filter)
    then have "count_where ?new ?rs = card (shard_id ` set (filter ?new ?rs))"
      unfolding count_where_def using distinct_card by fastforce
    also have "\<dots> \<le> card (sr_ID ` set (filter is_el ?sel))" by (intro card_mono) auto
    also have "\<dots> \<le> length (filter is_el ?sel)"
      by (metis card_length length_map set_map)
    finally show ?thesis using True by (simp add: count_where_def)
  next
    case False
    then show ?thesis by (simp add: count_where_def)
  qed
  finally show ?thesis by simp
qed

lemma queue_inv_LeaseShards:
  assumes "LeaseShards nl a n ttl now d = (out, d')" "queue_inv d"
  shows "queue_inv d'"
  using assms(1)
proof (cases rule: LeaseShards_cases)
  case 1
  then show ?thesis using assms(2) by simp
next
  case 2
  let ?sel = "lease_selection a (nat n) d"
  let ?g = "leased_as a nl (now + ttl) now 0 ?sel"
  note dist = queue_invD(2) [OF assms(2)]
  note L = lease_selection_props [OF dist, where a = a and n = "nat n"]
  note F = grant_rows_frame [OF 2(3)]
  have sh: "t_shards d' = map ?g (t_shards d)" by (rule grant_rows_shards [OF L(2) 2(3)])
  have g: "shard_id (?g s) = shard_id s \<and> shard_pass (?g s) = shard_pass s \<and> (row_ok s \<longrightarrow> row_ok (?g s))" for s
    using leased_as_cases [of a nl "now + ttl" now 0 ?sel s] by (auto simp: row_ok_def)
  have "el_cap (t_shards d')"
    unfolding el_cap_def
  proof
    fix b
    have "int (count_where (el_lease b) (t_shards d)) \<le> maxEntrylistPerAgent"
      using queue_invD(6) [OF assms(2)] by (simp add: el_cap_def)
    moreover have "elBudget a d = max 0 (maxEntrylistPerAgent - int (count_where (el_lease a) (t_shards d)))"
      by (simp add: elBudget_def heldEL_def el_lease_def [abs_def])
    ultimately show "int (count_where (el_lease b) (t_shards d')) \<le> maxEntrylistPerAgent"
      using count_el_after_grant [OF dist, of b a nl "now + ttl" now 0 "nat n"] L(4)
      by (auto simp: sh split: if_splits)
  qed
  moreover have "map shard_id (t_shards d') = map shard_id (t_shards d)" using g by (simp add: sh)
  moreover have "shard_id s \<le> seq_shards d' \<and> row_ok s \<and> shard_pass s \<in> pass_id ` set (t_passes d')"
    if "s \<in> set (t_shards d')" for s
  proof -
    obtain r where r: "r \<in> set (t_shards d)" "s = ?g r" using \<open>s \<in> set (t_shards d')\<close> sh by auto
    show ?thesis using g [of r] queue_invD(3-5) [OF assms(2) r(1)] r(2) F(2,10) by simp
  qed
  ultimately show ?thesis using F(16) queue_invD(1,2) [OF assms(2)] by (simp add: queue_inv_def)
qed

section \<open>Every queue operation keeps the invariant\<close>

text \<open>The operations that take a shard out of its lease, or never touch a lease.\<close>

lemma row_ok_unleased [simp]:
  "row_ok (s\<lparr>shard_state := ShardQueued, lease_id := None, shard_updated := now\<rparr>)"
  "row_ok (retry_row now s)"
  by (simp_all add: row_ok_def retry_row_def)

lemma retry_row_sel [simp]:
  "shard_id (retry_row now s) = shard_id s" "shard_pass (retry_row now s) = shard_pass s"
  "shard_kind (retry_row now s) = shard_kind s" "shard_state (retry_row now s) = ShardQueued"
  "shard_attempt (retry_row now s) = 0" "target_agent (retry_row now s) = target_agent s"
  by (simp_all add: retry_row_def)

lemma queue_inv_passes_update:
  assumes "queue_inv d" "\<And>p. P p \<Longrightarrow> pass_id (f p) = pass_id p"
  shows "queue_inv (d\<lparr>t_passes := update_where P f (t_passes d)\<rparr>)"
proof -
  have "pass_id ` set (update_where P f (t_passes d)) = pass_id ` set (t_passes d)"
    by (rule update_where_keys) (rule assms(2))
  then show ?thesis by (intro queue_inv_frame [OF assms(1)]) auto
qed

lemma queue_inv_pass_ops [wf_intros]:
  "queue_inv d \<Longrightarrow> queue_inv (SetJobState i st now d)"
  "queue_inv d \<Longrightarrow> queue_inv (SetPassState i' st' now d)"
  "queue_inv d \<Longrightarrow> queue_inv (accumulatePassCounters i' c d)"
proof -
  assume q: "queue_inv d"
  show "queue_inv (SetJobState i st now d)" by (rule queue_inv_frame [OF q]) simp_all
  show "queue_inv (SetPassState i' st' now d)"
    unfolding SetPassState_def by (rule queue_inv_passes_update [OF q]) simp
  show "queue_inv (accumulatePassCounters i' c d)"
    using queue_inv_passes_update [OF q] q by (auto simp: accumulatePassCounters_def split: option.splits)
qed

lemma queue_inv_Renew:
  "queue_inv d \<Longrightarrow> queue_inv (snd (RenewLeasesByID a ls ttl now d))"
  by (auto simp: RenewLeasesByID_def Let_def row_ok_def el_lease_def intro!: queue_inv_update)

lemma shardTransition_InrD:
  assumes "shardTransition i l to res err p c now d = Inr d'"
  shows "\<exists>s \<in> set (t_shards d). holds_lease i l s"
    "d' = accumulatePassCounters p c (update_shards (holds_lease i l)
       (\<lambda>s. s\<lparr>shard_state := to,
              shard_result := (case res of None \<Rightarrow> shard_result s | Some b \<Rightarrow> Some b),
              shard_error := (if err = '''' then shard_error s else Some err),
              lease_id := None, shard_updated := now\<rparr>) d)"
  using assms by (auto simp: shardTransition_def count_where_zero_iff split: if_splits)

lemma shardTransition_Inl_iff:
  "shardTransition i l to res err p c now d = Inl e \<longleftrightarrow>
     e = ErrLeaseMismatch \<and> (\<forall>s \<in> set (t_shards d). \<not> holds_lease i l s)"
  by (auto simp: shardTransition_def count_where_zero_iff)

lemma queue_inv_shardTransition:
  assumes "shardTransition i l to res err p c now d = Inr d'" "to \<noteq> ShardLeased" "queue_inv d"
  shows "queue_inv d'"
  using assms(2,3) unfolding shardTransition_InrD(2) [OF assms(1)]
  by (intro wf_intros queue_inv_update) (auto simp: row_ok_def el_lease_def)

lemma jobs_inv_shardTransition:
  assumes "shardTransition i l to res err p c now d = Inr d'" "jobs_inv d"
  shows "jobs_inv d'"
  using assms(2) unfolding shardTransition_InrD(2) [OF assms(1)] by (intro wf_intros) simp

text \<open>The sweep, as one function on rows.\<close>

definition sweep_row :: "int \<Rightarrow> int \<Rightarrow> shard_row \<Rightarrow> shard_row" where
  "sweep_row ms now s =
     (if \<not> lease_expired ms s then s
      else if shard_attempt s < MaxShardAttempts
      then s\<lparr>shard_state := ShardQueued, lease_id := None, shard_updated := now\<rparr>
      else s\<lparr>shard_state := ShardParked, lease_id := None,
             shard_error := (case shard_error s of
                None \<Rightarrow> Some ''attempt ceiling after lease expiry'' | Some e \<Rightarrow> Some e),
             shard_updated := now\<rparr>)"

lemma map_filter_eq_Nil: "List.map_filter f xs = [] \<longleftrightarrow> (\<forall>x \<in> set xs. f x = None)"
  by (induction xs) (auto simp: List.map_filter_simps split: option.splits)

lemma ExpireLeases_shards:
  assumes "queue_inv d" "jobs_inv d"
  shows "t_shards (snd (ExpireLeases ms now d)) = map (sweep_row ms now) (t_shards d)"
proof -
  let ?ex = "List.map_filter (\<lambda>s. map_option (expired_row s) (pass_job_of (shard_pass s) d))
               (sort_key shard_id (filter (lease_expired ms) (t_shards d)))"
  show ?thesis
  proof (cases "?ex = []")
    case True
    have "\<not> lease_expired ms s" if s: "s \<in> set (t_shards d)" for s
      using True pass_job_of_ex [OF assms(2) queue_invD(5) [OF assms(1) s]] s
      by (fastforce simp: map_filter_eq_Nil)
    then have "map (sweep_row ms now) (t_shards d) = t_shards d"
      by (simp add: sweep_row_def map_idI)
    then show ?thesis using True by (simp add: ExpireLeases_def Let_def)
  next
    case False
    then have "snd (ExpireLeases ms now d) = update_shards (lease_expired ms)
        (\<lambda>s. s\<lparr>shard_state := ShardParked, lease_id := None,
           shard_error := (case shard_error s of
              None \<Rightarrow> Some ''attempt ceiling after lease expiry'' | Some e \<Rightarrow> Some e),
           shard_updated := now\<rparr>)
        (update_shards (\<lambda>s. lease_expired ms s \<and> shard_attempt s < MaxShardAttempts)
           (\<lambda>s. s\<lparr>shard_state := ShardQueued, lease_id := None, shard_updated := now\<rparr>) d)"
      by (simp add: ExpireLeases_def Let_def)
    then show ?thesis
      by (auto simp: update_where_def sweep_row_def lease_expired_def)
  qed
qed

lemma ExpireLeases_frame:
  "t_jobs (snd (ExpireLeases ms now d)) = t_jobs d"
  "t_passes (snd (ExpireLeases ms now d)) = t_passes d"
  "t_agents (snd (ExpireLeases ms now d)) = t_agents d"
  "jobs_inv d \<Longrightarrow> jobs_inv (snd (ExpireLeases ms now d))"
  by (simp_all add: ExpireLeases_def Let_def)

lemma queue_inv_ExpireLeases:
  assumes "queue_inv d"
  shows "queue_inv (snd (ExpireLeases ms now d))"
proof -
  have "queue_inv (update_shards (lease_expired ms)
      (\<lambda>s. s\<lparr>shard_state := ShardParked, lease_id := None, shard_error := g s, shard_updated := now\<rparr>)
      (update_shards (\<lambda>s. lease_expired ms s \<and> shard_attempt s < MaxShardAttempts)
         (\<lambda>s. s\<lparr>shard_state := ShardQueued, lease_id := None, shard_updated := now\<rparr>) d))" for g
    by (intro queue_inv_update [OF queue_inv_update] assms) (auto simp: row_ok_def el_lease_def)
  then show ?thesis using assms by (simp add: ExpireLeases_def Let_def)
qed

lemma queue_inv_parked_ops:
  "RetryParkedShard i now d = Inr d' \<Longrightarrow> queue_inv d \<Longrightarrow> queue_inv d'"
  "queue_inv d \<Longrightarrow> queue_inv (snd (RetryParkedByJob name now d))"
  "DropParkedShard i d = Inr d' \<Longrightarrow> queue_inv d \<Longrightarrow> queue_inv d'"
  "queue_inv d \<Longrightarrow> queue_inv (snd (DropParkedByJob name d))"
  "queue_inv d \<Longrightarrow> queue_inv (snd (PruneStaleProbes p d))"
proof -
  have r: "queue_inv d \<Longrightarrow> queue_inv (update_shards P (retry_row now) d)" for P
    by (rule queue_inv_update) (simp_all add: el_lease_def)
  show "RetryParkedShard i now d = Inr d' \<Longrightarrow> queue_inv d \<Longrightarrow> queue_inv d'"
    using r by (auto simp: RetryParkedShard_def Let_def split: if_splits)
  show "queue_inv d \<Longrightarrow> queue_inv (snd (RetryParkedByJob name now d))"
    using r by (simp add: RetryParkedByJob_def Let_def)
  show "DropParkedShard i d = Inr d' \<Longrightarrow> queue_inv d \<Longrightarrow> queue_inv d'"
    by (auto simp: DropParkedShard_def Let_def intro: wf_intros split: if_splits)
  show "queue_inv d \<Longrightarrow> queue_inv (snd (DropParkedByJob name d))"
    by (auto simp: DropParkedByJob_def Let_def intro: wf_intros)
  show "queue_inv d \<Longrightarrow> queue_inv (snd (PruneStaleProbes p d))"
    by (auto simp: PruneStaleProbes_def Let_def intro: wf_intros)
qed

section \<open>Reaping\<close>

definition reapable :: "int \<Rightarrow> ShardKind list \<Rightarrow> shard_row \<Rightarrow> bool" where
  "reapable passID kinds s \<longleftrightarrow> shard_pass s = passID \<and> shard_state s = ShardDone \<and> shard_kind s \<in> set kinds"

definition reap_ids :: "int \<Rightarrow> ShardKind list \<Rightarrow> db \<Rightarrow> int list" where
  "reap_ids passID kinds d = map shard_id (take ReapBatchSize (filter (reapable passID kinds) (t_shards d)))"

lemma ReapDoneShards_eq:
  "ReapDoneShards passID kinds d =
     (if kinds = [] \<or> reap_ids passID kinds d = [] then (0, d)
      else let ids = set (reap_ids passID kinds d);
               d1 = d\<lparr>t_splits := delete_where (\<lambda>s. split_parent s \<in> ids) (t_splits d)\<rparr>;
               n = int (count_where (\<lambda>s. shard_id s \<in> ids) (t_shards d));
               d2 = delete_shards (\<lambda>s. shard_id s \<in> ids) d1
           in (n, d2\<lparr>t_passes := update_where (\<lambda>p. pass_id p = passID)
                    (\<lambda>p. p\<lparr>shards_reaped := shards_reaped p + n\<rparr>) (t_passes d2)\<rparr>))"
  by (simp add: ReapDoneShards_def reap_ids_def reapable_def [abs_def] Let_def)

lemma ReapDoneShards_shards:
  "t_shards (snd (ReapDoneShards p ks d)) =
     (if ks = [] then t_shards d else delete_where (\<lambda>s. shard_id s \<in> set (reap_ids p ks d)) (t_shards d))"
  by (auto simp: ReapDoneShards_eq Let_def delete_where_id)

lemma reaped_rows:
  assumes "distinct (map shard_id (t_shards d))" "s \<in> set (t_shards d)" "shard_id s \<in> set (reap_ids p ks d)"
  shows "reapable p ks s"
proof -
  obtain r where "r \<in> set (filter (reapable p ks) (t_shards d))" "shard_id r = shard_id s"
    using assms(3) by (auto simp: reap_ids_def dest: in_set_takeD)
  then show ?thesis using key_unique [OF assms(1), of r s] assms(2) by auto
qed

lemma queue_inv_Reap: "queue_inv d \<Longrightarrow> queue_inv (snd (ReapDoneShards p ks d))"
proof -
  assume q: "queue_inv d"
  have "queue_inv (d\<lparr>t_splits := x\<rparr>)" for x by (rule queue_inv_frame [OF q]) simp_all
  then have "queue_inv (delete_shards P (d\<lparr>t_splits := x\<rparr>))" for P x by (intro wf_intros)
  from queue_inv_passes_update [OF this] q show ?thesis
    by (auto simp: ReapDoneShards_eq Let_def)
qed

lemma jobs_inv_Reap:
  assumes j: "jobs_inv d"
  shows "jobs_inv (snd (ReapDoneShards p ks d))"
proof -
  let ?d1 = "\<lambda>P x. delete_shards P (d\<lparr>t_splits := x\<rparr>)"
  have "jobs_inv (?d1 P x)" for P x using j by (simp add: jobs_inv_def)
  then have "jobs_inv ((?d1 P x)\<lparr>t_passes := update_where (\<lambda>r. pass_id r = p)
      (\<lambda>r. r\<lparr>shards_reaped := shards_reaped r + int n\<rparr>) (t_passes (?d1 P x))\<rparr>)" for P x n
    by (rule jobs_inv_update_passes) (auto simp: jobs_invD(6) [OF j])
  then show ?thesis using j by (auto simp: ReapDoneShards_eq Let_def)
qed

lemma reaped_of_add:
  assumes "q = p \<longrightarrow> p \<in> pass_id ` set (t_passes d)"
  shows "reaped_of q (d\<lparr>t_passes := update_where (\<lambda>r. pass_id r = p)
      (\<lambda>r. r\<lparr>shards_reaped := shards_reaped r + n\<rparr>) (t_passes d)\<rparr>) =
    reaped_of q d + (if q = p then n else 0)"
proof -
  have "find_pass q (d\<lparr>t_passes := update_where (\<lambda>r. pass_id r = p)
      (\<lambda>r. r\<lparr>shards_reaped := shards_reaped r + n\<rparr>) (t_passes d)\<rparr>) =
    map_option (\<lambda>r. if pass_id r = p then r\<lparr>shards_reaped := shards_reaped r + n\<rparr> else r) (find_pass q d)"
    unfolding find_pass_def by (simp add: find_update_where)
  moreover have "find_pass q d = None \<longrightarrow> q \<noteq> p"
    using assms by (auto simp: find_pass_def find_None_iff_all)
  ultimately show ?thesis by (auto simp: reaped_of_def split: option.splits dest: find_passD)
qed

lemma reap_ids_pass:
  assumes "queue_inv d" "reap_ids p ks d \<noteq> []"
  shows "p \<in> pass_id ` set (t_passes d)"
proof -
  have "take ReapBatchSize (filter (reapable p ks) (t_shards d)) \<noteq> []"
    using assms(2) by (simp add: reap_ids_def)
  then obtain s where "s \<in> set (take ReapBatchSize (filter (reapable p ks) (t_shards d)))"
    by (meson last_in_set)
  then have "s \<in> set (t_shards d)" "reapable p ks s" by (auto dest: in_set_takeD)
  then show ?thesis using queue_invD(5) [OF assms(1)] by (auto simp: reapable_def)
qed

lemma live_count_Reap:
  assumes "queue_inv d"
  shows "live_count q st (snd (ReapDoneShards p ks d)) =
    live_count q st d - (if q = p \<and> st = ShardDone then fst (ReapDoneShards p ks d) else 0)"
proof (cases "ks = [] \<or> reap_ids p ks d = []")
  case True
  then show ?thesis by (auto simp: ReapDoneShards_eq)
next
  case False
  let ?ids = "set (reap_ids p ks d)" and ?rs = "t_shards d"
  let ?Q = "\<lambda>s. shard_pass s = q \<and> shard_state s = st"
  have n: "fst (ReapDoneShards p ks d) = int (count_where (\<lambda>s. shard_id s \<in> ?ids) ?rs)"
    using False by (simp add: ReapDoneShards_eq Let_def)
  have "count_where ?Q ?rs = count_where (\<lambda>s. ?Q s \<and> shard_id s \<in> ?ids) ?rs +
      count_where (\<lambda>s. ?Q s \<and> shard_id s \<notin> ?ids) ?rs"
    by (rule count_where_split)
  moreover have "count_where (\<lambda>s. ?Q s \<and> shard_id s \<in> ?ids) ?rs =
      (if q = p \<and> st = ShardDone then count_where (\<lambda>s. shard_id s \<in> ?ids) ?rs else 0)"
  proof (cases "q = p \<and> st = ShardDone")
    case True
    then show ?thesis using reaped_rows [OF queue_invD(2) [OF assms]]
      by (auto intro!: count_where_cong simp: reapable_def)
  next
    case False
    then show ?thesis using reaped_rows [OF queue_invD(2) [OF assms]]
      by (auto simp: count_where_zero_iff reapable_def)
  qed
  ultimately show ?thesis using n False
    by (simp add: live_count_def ReapDoneShards_shards count_where_delete_where)
qed

lemma reaped_of_Reap:
  assumes "queue_inv d"
  shows "reaped_of q (snd (ReapDoneShards p ks d)) =
    reaped_of q d + (if q = p then fst (ReapDoneShards p ks d) else 0)"
proof (cases "ks = [] \<or> reap_ids p ks d = []")
  case True
  then show ?thesis by (auto simp: ReapDoneShards_eq)
next
  case False
  let ?d1 = "\<lambda>P x. delete_shards P (d\<lparr>t_splits := x\<rparr>)"
  have "reaped_of q (?d1 P x) = reaped_of q d" for P x by (simp add: reaped_of_def find_pass_def)
  moreover have "p \<in> pass_id ` set (t_passes (?d1 P x))" for P x
    using reap_ids_pass [OF assms, of p ks] False by simp
  ultimately have add: "reaped_of q ((?d1 P x)\<lparr>t_passes := update_where (\<lambda>r. pass_id r = p)
      (\<lambda>r. r\<lparr>shards_reaped := shards_reaped r + n\<rparr>) (t_passes (?d1 P x))\<rparr>) =
    reaped_of q d + (if q = p then n else 0)" for P x n
    by (simp only: reaped_of_add simp_thms)
  show ?thesis using False by (simp only: ReapDoneShards_eq Let_def add if_False fst_conv snd_conv)
qed

definition store_inv :: "db \<Rightarrow> bool" where
  "store_inv d \<longleftrightarrow> jobs_inv d \<and> queue_inv d"

section \<open>A small concrete queue\<close>

text \<open>
  One running job with one pass, a directory shard, an entry-list shard and a chunk shard queued; used to
  evaluate the definitions on concrete data.
\<close>

definition sample_job :: job_row where
  "sample_job = \<lparr>job_id = 1, job_name = ''j'', job_spec = [], job_state = JobRunning, job_dry_run = False,
     job_username = ''u'', job_created_at = 0, job_updated_at = 0, job_running_since = Some 0\<rparr>"

definition sample_pass :: pass_row where
  "sample_pass = \<lparr>pass_id = 1, pass_job = 1, pass_no = 1, pass_state = PassScanning, pass_started = Some 0,
     pass_finished = None, pass_counters = zero_counters, shards_reaped = 0\<rparr>"

definition sample_base :: db where
  "sample_base = empty_db\<lparr>t_jobs := [sample_job], t_passes := [sample_pass], seq_jobs := 1, seq_passes := 1\<rparr>"

definition sample_shards :: "NewShard list" where
  "sample_shards =
     [\<lparr>ns_Kind = KindDir, ns_RelPath = ''d'', ns_Payload = [], ns_TargetAgent = ''''\<rparr>,
      \<lparr>ns_Kind = KindEntryList, ns_RelPath = ''e'', ns_Payload = [], ns_TargetAgent = ''''\<rparr>,
      \<lparr>ns_Kind = KindChunk, ns_RelPath = ''c'', ns_Payload = [], ns_TargetAgent = ''''\<rparr>]"

definition sample_db :: db where
  "sample_db = (case InsertShards 1 0 0 sample_shards sample_base of Inl _ \<Rightarrow> sample_base | Inr (ids, d) \<Rightarrow> d)"

lemma store_inv_sample_base: "store_inv sample_base"
  by (simp add: store_inv_def jobs_inv_def queue_inv_def sample_base_def empty_db_def sample_job_def
      sample_pass_def rollup_ok_def counts_exact_def el_cap_def maxEntrylistPerAgent_def)

lemma store_inv_insertShardsTx:
  assumes "insertShardsTx p par now nss d = Inr (ids, d')" "store_inv d"
  shows "store_inv d'"
  using assms queue_inv_insertShardsTx [OF assms(1)] insertShardsTx_frame [OF assms(1)]
  by (auto simp: store_inv_def intro: jobs_inv_frame)

lemma store_inv_sample: "store_inv sample_db"
  using store_inv_sample_base store_inv_insertShardsTx
  by (auto simp: sample_db_def InsertShards_def split: sum.splits)

definition sample_leased :: db where
  "sample_leased = snd (LeaseShards int ''a'' 2 10 100 sample_db)"

lemma store_inv_LeaseShards:
  assumes "LeaseShards nl a n ttl now d = (out, d')" "store_inv d"
  shows "store_inv d'"
  using assms(1)
proof (cases rule: LeaseShards_cases)
  case 1
  then show ?thesis using assms(2) by simp
next
  case 2
  note F = grant_rows_frame [OF 2(3)]
  then show ?thesis using assms queue_inv_LeaseShards [OF assms(1)]
    by (auto simp: store_inv_def intro: jobs_inv_frame)
qed

lemma store_inv_sample_leased: "store_inv sample_leased"
  using store_inv_LeaseShards [OF _ store_inv_sample] unfolding sample_leased_def
  by (metis surjective_pairing)

definition sample_done :: db where
  "sample_done = (case CompleteShard 3 0 1 None None 105 sample_leased of Inl _ \<Rightarrow> sample_leased | Inr d \<Rightarrow> d)"

lemma store_inv_sample_done: "store_inv sample_done"
  using store_inv_sample_leased queue_inv_shardTransition jobs_inv_shardTransition
  by (auto simp: sample_done_def store_inv_def CompleteShard_def split: sum.splits)

lemma LeaseShards_rows:
  assumes "LeaseShards newLeaseID agentID n ttl now d = (out, d')" "store_inv d"
  shows "int (length out) \<le> max 0 n \<and> distinct (map sr_ID out) \<and>
    (\<forall>i < length out. \<exists>s \<in> set (t_shards d). leasable agentID d s \<and>
       sr_ID (out ! i) = shard_id s \<and> sr_LeaseID (out ! i) = newLeaseID i \<and>
       lease_row agentID (newLeaseID i) (now + ttl) now s \<in> set (t_shards d')) \<and>
    (\<forall>s \<in> set (t_shards d). shard_id s \<notin> sr_ID ` set out \<longrightarrow> s \<in> set (t_shards d')) \<and>
    length (t_shards d') = length (t_shards d)"
  using assms(1)
proof (cases rule: LeaseShards_cases)
  case 1
  then show ?thesis by simp
next
  case 2
  have q: "queue_inv d" using assms(2) by (simp add: store_inv_def)
  note dist = queue_invD(2) [OF q]
  let ?sel = "lease_selection agentID (nat n) d"
  let ?g = "leased_as agentID newLeaseID (now + ttl) now 0 ?sel"
  note L = lease_selection_props [OF dist, where a = agentID and n = "nat n"]
  note F = grant_rows_frame [OF 2(3)]
  have sh: "t_shards d' = map ?g (t_shards d)" by (rule grant_rows_shards [OF L(2) 2(3)])
  have len: "length out = length ?sel" using F(14) by (metis length_map)
  have "\<exists>s \<in> set (t_shards d). leasable agentID d s \<and> sr_ID (out ! i) = shard_id s \<and>
      sr_LeaseID (out ! i) = newLeaseID i \<and>
      lease_row agentID (newLeaseID i) (now + ttl) now s \<in> set (t_shards d')" if i: "i < length out" for i
  proof -
    have "?sel ! i \<in> set ?sel" using i len by simp
    from L(3) [OF this] obtain s where s: "s \<in> set (t_shards d)" "grantable agentID d s" "?sel ! i = scan_row d s"
      by blast
    have id: "sr_ID (out ! i) = shard_id s" using F(14) i len s(3) by (metis nth_map scan_row_sel(1))
    have "?g s = lease_row agentID (newLeaseID i) (now + ttl) now s"
      using leased_as_nth [OF L(2), of i s] i len s(3) by simp
    then have "lease_row agentID (newLeaseID i) (now + ttl) now s \<in> set (t_shards d')"
      using s(1) sh by (metis image_eqI list.set_map)
    then show ?thesis
      using s id grant_rows_lease_ids [OF 2(3), of i] i len by (auto simp: grantable_def)
  qed
  moreover have "s \<in> set (t_shards d')" if "s \<in> set (t_shards d)" "shard_id s \<notin> sr_ID ` set out" for s
  proof -
    have "sr_ID ` set out = sr_ID ` set ?sel" using F(14) by (metis list.set_map)
    then have "?g s = s" using that(2) by (simp add: leased_as_absent)
    then show ?thesis using that(1) sh by (metis image_eqI list.set_map)
  qed
  ultimately show ?thesis using L(1,2) F(14) sh len 2(1) by simp
qed

lemma leasableD:
  assumes "leasable agentID d s"
  shows "shard_state s = ShardQueued \<and>
    (\<exists>p \<in> set (t_passes d). \<exists>j \<in> set (t_jobs d). pass_id p = shard_pass s \<and> job_id j = pass_job p \<and> job_state j = JobRunning) \<and>
    (target_agent s = None \<or> target_agent s = Some agentID)"
  using assms by (auto simp: leasable_def pass_job_of_def find_pass_def find_job_def find_Some_iff split: option.splits) (metis nth_mem)+

section \<open>Properties\<close>

text \<open>
  (C1) What a grant contains: at most the requested number of shards, none twice; every granted
  shard was queued, belongs to a running job and is not pinned to another agent; its row is now
  leased to this agent under the lease id the agent is told, with the expiry set and one more
  attempt; every other row of the table is untouched.
\<close>

theorem LeaseShards_grant:
  assumes "LeaseShards newLeaseID agentID n ttl now d = (out, d')" "store_inv d"
  shows "int (length out) \<le> max 0 n \<and> distinct (map sr_ID out) \<and>
    (\<forall>i < length out. \<exists>s \<in> set (t_shards d). sr_ID (out ! i) = shard_id s \<and> sr_LeaseID (out ! i) = newLeaseID i \<and>
       (shard_state s = ShardQueued \<and>
        (\<exists>p \<in> set (t_passes d). \<exists>j \<in> set (t_jobs d). pass_id p = shard_pass s \<and> job_id j = pass_job p \<and> job_state j = JobRunning) \<and>
        (target_agent s = None \<or> target_agent s = Some agentID)) \<and>
       s\<lparr>shard_state := ShardLeased, shard_attempt := shard_attempt s + 1, lease_id := Some (newLeaseID i),
         lease_agent := Some agentID, lease_expiry := Some (now + ttl), shard_updated := now\<rparr> \<in> set (t_shards d')) \<and>
    (\<forall>s \<in> set (t_shards d). shard_id s \<notin> sr_ID ` set out \<longrightarrow> s \<in> set (t_shards d')) \<and>
    length (t_shards d') = length (t_shards d)"
  using LeaseShards_rows [OF assms] leasableD unfolding lease_row_def by meson

theorem LeaseShards_grant_witness:
  "store_inv sample_db \<and> map sr_ID (fst (LeaseShards int ''a'' 2 10 100 sample_db)) = [3, 1] \<and>
   int (length (fst (LeaseShards int ''a'' 2 10 100 sample_db))) \<le> 2 \<and>
   (\<exists>s \<in> set (t_shards sample_db). shard_id s = 3 \<and> shard_state s = ShardQueued \<and>
      s\<lparr>shard_state := ShardLeased, shard_attempt := shard_attempt s + 1, lease_id := Some 0, lease_agent := Some ''a'',
        lease_expiry := Some 110, shard_updated := 100\<rparr> \<in> set (t_shards (snd (LeaseShards int ''a'' 2 10 100 sample_db))))"
proof -
  let ?r = "LeaseShards int ''a'' 2 10 100 sample_db"
  have ids: "map sr_ID (fst ?r) = [3, 1]" by code_simp
  then have l: "0 < length (fst ?r)" "sr_ID (fst ?r ! 0) = 3" by (auto simp: map_eq_Cons_conv)
  have g: "?r = (fst ?r, snd ?r)" by simp
  from LeaseShards_grant [OF g store_inv_sample] l ids store_inv_sample show ?thesis by fastforce
qed

text \<open>
  (C17) A grant is never empty while there is work for the agent: if the agent is not disabled, asks
  for at least one shard, and some shard is queued for a running job, open to this agent, and not
  an entry list beyond the agent's quota, then at least one shard is granted.
\<close>

theorem LeaseShards_not_starved:
  assumes "store_inv d" "0 < n" "\<not> agent_disabled agentID d"
    and "s \<in> set (t_shards d)" "leasable agentID d s"
    and "shard_kind s = KindEntryList \<longrightarrow> heldEL agentID d < maxEntrylistPerAgent"
  shows "fst (LeaseShards newLeaseID agentID n ttl now d) \<noteq> []"
proof -
  have dist: "distinct (map shard_id (t_shards d))" using assms(1) by (simp add: store_inv_def queue_inv_def)
  have "grantable agentID d s" using assms(5,6) by (auto simp: grantable_def elBudget_def)
  from lease_selection_nonempty [OF dist assms(4) this] assms(2)
  have ne: "lease_selection agentID (nat n) d \<noteq> []" by simp
  obtain out d' where g: "grant_rows agentID newLeaseID (now + ttl) now 0 (lease_selection agentID (nat n) d) d = (out, d')"
    by (meson surj_pair)
  have "map sr_ID out \<noteq> []" using grant_rows_frame(14) [OF g] ne by simp
  then show ?thesis using g assms(2,3) by (simp add: LeaseShards_def)
qed

theorem LeaseShards_not_starved_witness:
  "store_inv sample_db \<and> fst (LeaseShards int ''a'' 1 10 100 sample_db) \<noteq> []"
proof -
  have r: "filter (leasable ''a'' sample_db) (t_shards sample_db) \<noteq> []" by code_simp
  then obtain s where s: "s \<in> set (t_shards sample_db)" "leasable ''a'' sample_db s"
    by (auto simp: filter_empty_conv)
  have "\<not> agent_disabled ''a'' sample_db" "heldEL ''a'' sample_db < maxEntrylistPerAgent"
    by code_simp+
  with LeaseShards_not_starved [OF store_inv_sample, of 1 "''a''" s int 10 100] s store_inv_sample
  show ?thesis by simp
qed

text \<open>
  Reaping finished shards does not change what is reported: for every pass and state the
  count \<open>ShardStateCounts\<close> returns is the same before and after \<open>ReapDoneShards\<close>.
\<close>

theorem ReapDoneShards_counts:
  assumes "store_inv d"
  shows "ShardStateCounts q (snd (ReapDoneShards p kinds d)) st = ShardStateCounts q d st"
proof -
  have i: "queue_inv d" "jobs_inv d" using assms by (simp_all add: store_inv_def)
  have "rollup_ok (snd (ReapDoneShards p kinds d))" "jobs_inv (snd (ReapDoneShards p kinds d))"
    using queue_inv_Reap [OF i(1)] jobs_inv_Reap [OF i(2)] by (simp_all add: queue_inv_def)
  then show ?thesis
    using live_count_Reap [OF i(1)] reaped_of_Reap [OF i(1)] queue_invD(1) [OF i(1)] i(2)
    by (simp add: ShardStateCounts_eq)
qed

theorem ReapDoneShards_counts_witness:
  "store_inv sample_done \<and> fst (ReapDoneShards 1 [KindChunk] sample_done) = 1 \<and>
   ShardStateCounts 1 (snd (ReapDoneShards 1 [KindChunk] sample_done)) ShardDone = 1"
proof -
  have "fst (ReapDoneShards 1 [KindChunk] sample_done) = 1" "ShardStateCounts 1 sample_done ShardDone = 1"
    by code_simp+
  then show ?thesis using ReapDoneShards_counts [OF store_inv_sample_done] store_inv_sample_done by simp
qed



text \<open>
  The sweep handles exactly the expired leases: a leased shard past its expiry goes back to the
  queue, or is parked once it has used up \<open>MaxShardAttempts\<close> grants, and loses its lease id; every
  other row stays as it is. Afterwards no expired lease is left.
\<close>

theorem ExpireLeases_sweep:
  assumes "store_inv d"
  shows "t_shards (snd (ExpireLeases ms now d)) = map (sweep_row ms now) (t_shards d) \<and>
    (\<forall>s \<in> set (t_shards (snd (ExpireLeases ms now d))). \<not> lease_expired ms s) \<and>
    map el_ShardID (fst (ExpireLeases ms now d)) =
      map shard_id (sort_key shard_id (filter (lease_expired ms) (t_shards d)))"
proof -
  have i: "queue_inv d" "jobs_inv d" using assms by (simp_all add: store_inv_def)
  note sh = ExpireLeases_shards [OF i]
  have "\<not> lease_expired ms s" if s: "s \<in> set (t_shards (snd (ExpireLeases ms now d)))" for s
  proof -
    obtain r where "s = sweep_row ms now r" using s sh by auto
    then show ?thesis by (auto simp: sweep_row_def lease_expired_def)
  qed
  moreover have "map el_ShardID (fst (ExpireLeases ms now d)) =
      map shard_id (sort_key shard_id (filter (lease_expired ms) (t_shards d)))"
  proof -
    let ?xs = "sort_key shard_id (filter (lease_expired ms) (t_shards d))"
    have "\<exists>pj. pass_job_of (shard_pass s) d = Some pj" if "s \<in> set ?xs" for s
      using pass_job_of_ex [OF i(2) queue_invD(5) [OF i(1)]] that by fastforce
    then have "map el_ShardID (List.map_filter (\<lambda>s. map_option (expired_row s) (pass_job_of (shard_pass s) d)) ys) =
        map shard_id ys" if "set ys \<subseteq> set ?xs" for ys
      using that by (induction ys) (force simp: List.map_filter_simps expired_row_def)+
    from this [of ?xs] show ?thesis by (auto simp: ExpireLeases_def Let_def)
  qed
  ultimately show ?thesis using sh by blast
qed

theorem ExpireLeases_sweep_witness:
  "store_inv sample_leased \<and> map el_ShardID (fst (ExpireLeases 200 300 sample_leased)) = [1, 3]"
proof -
  have "map shard_id (sort_key shard_id (filter (lease_expired 200) (t_shards sample_leased))) = [1, 3]"
    by code_simp
  then show ?thesis using ExpireLeases_sweep [OF store_inv_sample_leased, of 200 300] store_inv_sample_leased
    by simp
qed

text \<open>
  (C13) A result reported under a lease that has expired is rejected and changes nothing, also after
  the shard has been granted again, as long as the new grant does not draw the same lease id.
\<close>

theorem stale_result_rejected:
  assumes "store_inv d" "s \<in> set (t_shards d)" "lease_expired ms s" "lease_id s = Some l"
    and "\<forall>i. newLeaseID i \<noteq> l"
  shows "shardTransition (shard_id s) l to result err p c now
    (snd (LeaseShards newLeaseID agentID n ttl now (snd (ExpireLeases ms now d)))) = Inl ErrLeaseMismatch"
proof -
  have i: "queue_inv d" "jobs_inv d" using assms(1) by (simp_all add: store_inv_def)
  let ?d1 = "snd (ExpireLeases ms now d)"
  obtain out d2 where g: "LeaseShards newLeaseID agentID n ttl now ?d1 = (out, d2)" by (meson surj_pair)
  have q1: "queue_inv ?d1" by (rule queue_inv_ExpireLeases [OF i(1)])
  have no1: "\<not> (shard_id r = shard_id s \<and> lease_id r = Some l)" if r: "r \<in> set (t_shards ?d1)" for r
  proof -
    obtain r0 where r0: "r0 \<in> set (t_shards d)" "r = sweep_row ms now r0"
      using r ExpireLeases_shards [OF i] by auto
    show ?thesis using key_unique [OF queue_invD(2) [OF i(1)] r0(1) assms(2)] r0(2) assms(3)
      by (auto simp: sweep_row_def)
  qed
  have "\<not> holds_lease (shard_id s) l r" if r: "r \<in> set (t_shards d2)" for r
    using g
  proof (cases rule: LeaseShards_cases)
    case 1
    then show ?thesis using r no1 by (auto simp: holds_lease_def)
  next
    case 2
    have "distinct (map sr_ID (lease_selection agentID (nat n) ?d1))"
      using lease_selection_props(2) [OF queue_invD(2) [OF q1]] .
    from grant_rows_shards [OF this 2(3)] r obtain r1 where r1: "r1 \<in> set (t_shards ?d1)"
      "r = leased_as agentID newLeaseID (now + ttl) now 0 (lease_selection agentID (nat n) ?d1) r1" by auto
    show ?thesis
      using leased_as_cases [of agentID newLeaseID "now + ttl" now 0 "lease_selection agentID (nat n) ?d1" r1]
        no1 [OF r1(1)] assms(5) r1(2) by (auto simp: holds_lease_def)
  qed
  then show ?thesis by (simp add: g shardTransition_Inl_iff)
qed

theorem stale_result_rejected_witness:
  "\<exists>s \<in> set (t_shards sample_leased). shard_id s = 3 \<and> lease_id s = Some 0 \<and>
     shardTransition 3 0 ShardDone None '''' 1 None 300
       (snd (LeaseShards (\<lambda>i. int i + 50) ''b'' 2 10 300 (snd (ExpireLeases 200 300 sample_leased)))) = Inl ErrLeaseMismatch"
proof -
  have "filter (\<lambda>s. shard_id s = 3 \<and> lease_expired 200 s \<and> lease_id s = Some 0) (t_shards sample_leased) \<noteq> []"
    by code_simp
  then obtain s where s: "s \<in> set (t_shards sample_leased)" "shard_id s = 3" "lease_expired 200 s" "lease_id s = Some 0"
    by (auto simp: filter_empty_conv)
  have "\<forall>i. int i + 50 \<noteq> 0" by presburger
  from stale_result_rejected [OF store_inv_sample_leased s(1,3,4) this, of ShardDone None "''''" 1 None 300 "''b''" 2 10] s
  show ?thesis by auto
qed

end
