(* ===== verification/Store_Groups.thy ===== *)
theory Store_Groups
  imports Store_Shards
begin

text \<open>
  The work groups of the store (\<open>coordinator/internal/store/store.go\<close>): chunk groups of large files,
  delete groups of directories being emptied, the hardlink registry, and \<open>RecordSplit\<close>, which
  writes all of them together with the shards of a split.

  The lemmas show that a file is finalised exactly when its last chunk lands, that a delete group
  counts exactly its open nested groups and so never closes while one is open, that every hardlink
  group has one anchor and no task ever links the anchor to itself, and that a retransmitted split
  is answered with the ids of the first.

  \<open>RecordSplit\<close>'s two lookups run on the read pool before the write lock is taken; the model
  makes them part of the same step, since frames of one agent are handled one at a time and a
  primary key catches the rest. A \<open>WITHOUT ROWID\<close> table is scanned in key order by SQLite and in
  insertion order here; no statement about an unordered query depends on it.
\<close>

section \<open>Chunk groups\<close>

record NewChunkGroup =
  ncg_RelPath :: path
  ncg_TempName :: string
  ncg_Size :: u64
  ncg_MtimeNs :: int
  ncg_NChunks :: int

definition cg_key :: "int \<Rightarrow> path \<Rightarrow> chunk_group_row \<Rightarrow> bool" where
  "cg_key passID rel g \<longleftrightarrow> cg_pass g = passID \<and> cg_rel g = rel"

definition insert_chunk_group :: "int \<Rightarrow> NewChunkGroup \<Rightarrow> db \<Rightarrow> db" where
  "insert_chunk_group passID g d =
     (if \<exists>r \<in> set (t_chunk_groups d). cg_key passID (ncg_RelPath g) r then d
      else d\<lparr>t_chunk_groups := t_chunk_groups d @
             [\<lparr>cg_pass = passID, cg_rel = ncg_RelPath g, cg_temp = ncg_TempName g,
               cg_size = sint (ncg_Size g), cg_mtime = ncg_MtimeNs g, n_chunks = ncg_NChunks g,
               n_done = 0, cg_state = ChunkCopying\<rparr>]\<rparr>)"

text \<open>The guarded \<open>UPDATE\<close> that finishes a chunk shard.\<close>

definition finish_chunk_shard :: "int \<Rightarrow> int \<Rightarrow> int \<Rightarrow> db \<Rightarrow> store_error + db" where
  "finish_chunk_shard shardID leaseID now d =
     (if count_where (holds_lease shardID leaseID) (t_shards d) = 0 then Inl ErrLeaseMismatch
      else Inr (update_shards (holds_lease shardID leaseID)
             (\<lambda>s. s\<lparr>shard_state := ShardDone, lease_id := None, shard_updated := now\<rparr>) d))"

definition CompleteDataChunk ::
    "int \<Rightarrow> int \<Rightarrow> int \<Rightarrow> path \<Rightarrow> NewShard \<Rightarrow> counters option \<Rightarrow> int \<Rightarrow> db \<Rightarrow> store_error + bool \<times> db" where
  "CompleteDataChunk shardID leaseID passID rel finalizeShard c now d =
     (case finish_chunk_shard shardID leaseID now d of
        Inl e \<Rightarrow> Inl e
      | Inr d1 \<Rightarrow>
          let d2 = accumulatePassCounters passID c d1;
              d3 = d2\<lparr>t_chunk_groups := update_where (cg_key passID rel)
                     (\<lambda>g. g\<lparr>n_done := n_done g + 1\<rparr>) (t_chunk_groups d2)\<rparr>
          in (case List.find (cg_key passID rel) (t_chunk_groups d3) of
                None \<Rightarrow> Inl ErrNoRows
              | Some g \<Rightarrow>
                  if cg_state g \<noteq> ChunkCopying \<or> n_done g < n_chunks g then Inr (False, d3)
                  else (case insertShardsTx passID 0 now [finalizeShard] d3 of
                          Inl e \<Rightarrow> Inl e
                        | Inr (ids, d4) \<Rightarrow> Inr (True, d4))))"

definition set_chunk_state :: "int \<Rightarrow> path \<Rightarrow> chunk_state \<Rightarrow> db \<Rightarrow> db" where
  "set_chunk_state passID rel st d = d\<lparr>t_chunk_groups :=
     update_where (cg_key passID rel) (\<lambda>g. g\<lparr>cg_state := st\<rparr>) (t_chunk_groups d)\<rparr>"

definition CompleteFinalizeChunk ::
    "int \<Rightarrow> int \<Rightarrow> int \<Rightarrow> path \<Rightarrow> counters option \<Rightarrow> int \<Rightarrow> db \<Rightarrow> store_error + db" where
  "CompleteFinalizeChunk shardID leaseID passID rel c now d =
     (case finish_chunk_shard shardID leaseID now d of
        Inl e \<Rightarrow> Inl e
      | Inr d1 \<Rightarrow> Inr (set_chunk_state passID rel ChunkDone (accumulatePassCounters passID c d1)))"

definition AbortChunkGroup :: "int \<Rightarrow> int \<Rightarrow> int \<Rightarrow> path \<Rightarrow> int \<Rightarrow> db \<Rightarrow> store_error + db" where
  "AbortChunkGroup shardID leaseID passID rel now d =
     (case finish_chunk_shard shardID leaseID now d of
        Inl e \<Rightarrow> Inl e
      | Inr d1 \<Rightarrow> Inr (set_chunk_state passID rel ChunkAborted d1))"

definition UnfinalizedChunkTemps :: "int \<Rightarrow> db \<Rightarrow> (path \<times> string) list" where
  "UnfinalizedChunkTemps passID d = map (\<lambda>g. (cg_rel g, cg_temp g))
     (filter (\<lambda>g. cg_pass g = passID \<and> cg_state g \<noteq> ChunkDone) (t_chunk_groups d))"

section \<open>Hardlink registry\<close>

record NewLinkSighting =
  nls_Dev :: u64
  nls_Ino :: u64
  nls_RelPath :: path
  nls_Nlink :: nat
  nls_Size :: u64
  nls_MtimeNs :: int

definition lg_key :: "int \<Rightarrow> int \<Rightarrow> int \<Rightarrow> link_group_row \<Rightarrow> bool" where
  "lg_key passID dev ino g \<longleftrightarrow> lg_pass g = passID \<and> lg_dev g = dev \<and> lg_ino g = ino"

definition lm_group :: "int \<Rightarrow> int \<Rightarrow> int \<Rightarrow> link_member_row \<Rightarrow> bool" where
  "lm_group passID dev ino m \<longleftrightarrow> lm_pass m = passID \<and> lm_dev m = dev \<and> lm_ino m = ino"

text \<open>
  One iteration of \<open>recordLinkSightingsTx\<close>, by its statements: the group of a first sighting, the
  member row (\<open>INSERT OR IGNORE\<close>), and the recount with the fallback decision.
\<close>

definition has_link_group :: "int \<Rightarrow> int \<Rightarrow> int \<Rightarrow> db \<Rightarrow> bool" where
  "has_link_group passID dev ino d \<longleftrightarrow> (\<exists>g \<in> set (t_link_groups d). lg_key passID dev ino g)"

definition ensure_link_group :: "int \<Rightarrow> int \<Rightarrow> NewLinkSighting \<Rightarrow> db \<Rightarrow> db" where
  "ensure_link_group passID now sg d =
     (let dev = sint (nls_Dev sg); ino = sint (nls_Ino sg); size = sint (nls_Size sg)
      in if has_link_group passID dev ino d then d
         else d\<lparr>t_link_groups := t_link_groups d @
                [\<lparr>lg_pass = passID, lg_dev = dev, lg_ino = ino, nlink_expected = nls_Nlink sg,
                  members_seen = 0, anchor_rel = nls_RelPath sg, anchor_size = size,
                  anchor_mtime = nls_MtimeNs sg, lg_state = AnchorCopied, lg_updated = now\<rparr>]\<rparr>)"

definition insert_link_member :: "int \<Rightarrow> int \<Rightarrow> int \<Rightarrow> path \<Rightarrow> member_state \<Rightarrow> db \<Rightarrow> db" where
  "insert_link_member passID dev ino rel st d =
     (if \<exists>m \<in> set (t_link_members d). lm_group passID dev ino m \<and> lm_rel m = rel then d
      else d\<lparr>t_link_members := t_link_members d @
             [\<lparr>lm_pass = passID, lm_dev = dev, lm_ino = ino, lm_rel = rel, lm_state = st\<rparr>]\<rparr>)"

definition refresh_link_group :: "int \<Rightarrow> u64 \<Rightarrow> int \<Rightarrow> int \<Rightarrow> int \<Rightarrow> db \<Rightarrow> db" where
  "refresh_link_group passID maxGroupScan now dev ino d =
     (let seen = count_where (lm_group passID dev ino) (t_link_members d);
          prior = (case List.find (lg_key passID dev ino) (t_link_groups d) of
                     None \<Rightarrow> AnchorPending | Some g \<Rightarrow> lg_state g);
          fallback = (maxGroupScan > 0 \<and> unat maxGroupScan < seen);
          d1 = d\<lparr>t_link_groups := update_where (lg_key passID dev ino)
                 (\<lambda>g. g\<lparr>members_seen := seen, lg_updated := now,
                        lg_state := (if fallback then AnchorFallback else lg_state g)\<rparr>) (t_link_groups d)\<rparr>
      in if fallback \<and> prior \<noteq> AnchorFallback
         then d1\<lparr>t_passes := update_where (\<lambda>p. pass_id p = passID)
                (\<lambda>p. p\<lparr>pass_counters := (pass_counters p)\<lparr>LinkFallback := LinkFallback (pass_counters p) + 1\<rparr>\<rparr>)
                (t_passes d1)\<rparr>
         else d1)"

definition record_sighting :: "int \<Rightarrow> u64 \<Rightarrow> int \<Rightarrow> NewLinkSighting \<Rightarrow> db \<Rightarrow> db" where
  "record_sighting passID maxGroupScan now sg d =
     (let dev = sint (nls_Dev sg); ino = sint (nls_Ino sg);
          memberState = (if has_link_group passID dev ino d then MemberPending else MemberAnchor)
      in refresh_link_group passID maxGroupScan now dev ino
           (insert_link_member passID dev ino (nls_RelPath sg) memberState (ensure_link_group passID now sg d)))"

definition recordLinkSightingsTx :: "int \<Rightarrow> u64 \<Rightarrow> int \<Rightarrow> NewLinkSighting list \<Rightarrow> db \<Rightarrow> db" where
  "recordLinkSightingsTx passID maxGroupScan now sightings d =
     fold (record_sighting passID maxGroupScan now) sightings d"

record LinkMember =
  lkm_Dev :: u64
  lkm_Ino :: u64
  lkm_RelPath :: path
  lkm_AnchorRelPath :: path
  lkm_AnchorSize :: u64
  lkm_AnchorMtimeNs :: int

definition PendingLinkMembers :: "int \<Rightarrow> db \<Rightarrow> LinkMember list" where
  "PendingLinkMembers passID d = concat (map (\<lambda>m.
     map (\<lambda>g. \<lparr>lkm_Dev = word_of_int (lm_dev m), lkm_Ino = word_of_int (lm_ino m), lkm_RelPath = lm_rel m,
               lkm_AnchorRelPath = anchor_rel g, lkm_AnchorSize = word_of_int (anchor_size g),
               lkm_AnchorMtimeNs = anchor_mtime g\<rparr>)
       (filter (\<lambda>g. lg_key (lm_pass m) (lm_dev m) (lm_ino m) g \<and> lg_state g = AnchorCopied) (t_link_groups d)))
     (filter (\<lambda>m. lm_pass m = passID \<and> lm_state m = MemberPending) (t_link_members d)))"

record LinkMemberKey =
  lmk_Dev :: u64
  lmk_Ino :: u64
  lmk_RelPath :: path

definition MarkLinkMembersQueued :: "int \<Rightarrow> LinkMemberKey list \<Rightarrow> db \<Rightarrow> db" where
  "MarkLinkMembersQueued passID members d = d\<lparr>t_link_members :=
     fold (\<lambda>k. update_where (\<lambda>m. lm_group passID (sint (lmk_Dev k)) (sint (lmk_Ino k)) m \<and>
                                 lm_rel m = lmk_RelPath k \<and> lm_state m = MemberPending)
                 (\<lambda>m. m\<lparr>lm_state := MemberQueued\<rparr>)) members (t_link_members d)\<rparr>"

section \<open>Delete groups\<close>

text \<open>\<open>strings.LastIndexByte\<close> and the slice up to it.\<close>

definition deleteGroupParent :: "path \<Rightarrow> path option" where
  "deleteGroupParent relPath =
     (if CHR ''/'' \<in> set relPath
      then Some (rev (tl (dropWhile (\<lambda>c. c \<noteq> CHR ''/'') (rev relPath)))) else None)"

lemma deleteGroupParent_split:
  "deleteGroupParent r = Some q \<longleftrightarrow> (\<exists>s. r = q @ CHR ''/'' # s \<and> CHR ''/'' \<notin> set s)"
proof
  assume a: "deleteGroupParent r = Some q"
  then have m: "CHR ''/'' \<in> set (rev r)" by (auto simp: deleteGroupParent_def split: if_splits)
  let ?dw = "dropWhile (\<lambda>c. c \<noteq> CHR ''/'') (rev r)" and ?tw = "takeWhile (\<lambda>c. c \<noteq> CHR ''/'') (rev r)"
  have "?dw \<noteq> []" using m by (auto simp: dropWhile_eq_Nil_conv)
  then have d: "?dw = CHR ''/'' # tl ?dw" using hd_dropWhile [of "\<lambda>c. c \<noteq> CHR ''/''" "rev r"] by (cases ?dw) auto
  have "rev r = ?tw @ CHR ''/'' # tl ?dw" using takeWhile_dropWhile_id [of _ "rev r"] d by metis
  then have "r = rev (tl ?dw) @ CHR ''/'' # rev ?tw" by (metis append.assoc append_Cons append_Nil rev.simps(2) rev_append rev_rev_ident)
  moreover have "CHR ''/'' \<notin> set (rev ?tw)" by (auto dest: set_takeWhileD)
  moreover have "q = rev (tl ?dw)" using a by (auto simp: deleteGroupParent_def split: if_splits)
  ultimately show "\<exists>s. r = q @ CHR ''/'' # s \<and> CHR ''/'' \<notin> set s" by blast
next
  assume "\<exists>s. r = q @ CHR ''/'' # s \<and> CHR ''/'' \<notin> set s"
  then obtain s where s: "r = q @ CHR ''/'' # s" "CHR ''/'' \<notin> set s" by blast
  have "dropWhile (\<lambda>c. c \<noteq> CHR ''/'') (rev s @ CHR ''/'' # rev q) = CHR ''/'' # rev q"
    using s(2) by (subst dropWhile_append2) auto
  then show "deleteGroupParent r = Some q" using s(1) by (simp add: deleteGroupParent_def)
qed

lemma deleteGroupParent_shorter: "deleteGroupParent r = Some q \<Longrightarrow> length q < length r"
  by (auto simp: deleteGroupParent_split)

definition dg_key :: "int \<Rightarrow> path \<Rightarrow> delete_group_row \<Rightarrow> bool" where
  "dg_key passID rel g \<longleftrightarrow> dg_pass g = passID \<and> dg_rel g = rel"

definition dg_open :: "int \<Rightarrow> path \<Rightarrow> delete_group_row \<Rightarrow> bool" where
  "dg_open passID rel g \<longleftrightarrow> dg_key passID rel g \<and> \<not> dg_closed g"

definition has_group :: "int \<Rightarrow> path \<Rightarrow> db \<Rightarrow> bool" where
  "has_group passID rel d \<longleftrightarrow> (\<exists>g \<in> set (t_delete_groups d). dg_key passID rel g)"

definition empty_group :: "int \<Rightarrow> path \<Rightarrow> int \<Rightarrow> bool \<Rightarrow> delete_group_row" where
  "empty_group passID rel nTotal streaming =
     \<lparr>dg_pass = passID, dg_rel = rel, dg_total = nTotal, dg_done = 0, done_streaming = streaming,
      pending_children = 0, dg_closed = False\<rparr>"

definition update_groups ::
    "(delete_group_row \<Rightarrow> bool) \<Rightarrow> (delete_group_row \<Rightarrow> delete_group_row) \<Rightarrow> db \<Rightarrow> db" where
  "update_groups P f d = d\<lparr>t_delete_groups := update_where P f (t_delete_groups d)\<rparr>"

text \<open>\<open>INSERT OR IGNORE INTO delete_groups\<close>.\<close>

definition insert_group :: "delete_group_row \<Rightarrow> db \<Rightarrow> db" where
  "insert_group g d = (if has_group (dg_pass g) (dg_rel g) d then d
     else d\<lparr>t_delete_groups := t_delete_groups d @ [g]\<rparr>)"

function registerPendingChildTx :: "int \<Rightarrow> path \<Rightarrow> db \<Rightarrow> db" where
  "registerPendingChildTx passID childRel d =
     (case deleteGroupParent childRel of
        None \<Rightarrow> d
      | Some parent \<Rightarrow>
          let existed = has_group passID parent d;
              d1 = insert_group (empty_group passID parent 1 True) d;
              d2 = update_groups (dg_open passID parent)
                     (\<lambda>g. g\<lparr>pending_children := pending_children g + 1\<rparr>) d1
          in if existed then d2 else registerPendingChildTx passID parent d2)"
  by pat_completeness auto
termination
  by (relation "measure (\<lambda>(p, c, d). length c)") (auto dest: deleteGroupParent_shorter)

declare registerPendingChildTx.simps [simp del]

definition closeable :: "delete_group_row \<Rightarrow> bool" where
  "closeable g \<longleftrightarrow> \<not> (dg_closed g \<or> \<not> done_streaming g \<or> dg_done g < dg_total g \<or> pending_children g > 0)"

function closeDeleteGroupTx ::
    "int \<Rightarrow> path \<Rightarrow> bool \<Rightarrow> NewShard \<Rightarrow> (path \<Rightarrow> NewShard) \<Rightarrow> int \<Rightarrow> db \<Rightarrow> store_error + db" where
  "closeDeleteGroupTx passID rel seedCleanup cleanupShard buildCleanup now d =
     (case (if seedCleanup then insertShardsTx passID 0 now [cleanupShard] d else Inr ([], d)) of
        Inl e \<Rightarrow> Inl e
      | Inr (ids, d1) \<Rightarrow>
          let d2 = update_groups (dg_key passID rel) (\<lambda>g. g\<lparr>dg_closed := True\<rparr>) d1
          in (case deleteGroupParent rel of
                None \<Rightarrow> Inr d2
              | Some parent \<Rightarrow>
                  let d3 = update_groups (dg_open passID parent)
                             (\<lambda>g. g\<lparr>pending_children := pending_children g - 1\<rparr>) d2
                  in (case List.find (dg_open passID parent) (t_delete_groups d3) of
                        None \<Rightarrow> Inr d3
                      | Some g \<Rightarrow>
                          if \<not> closeable g then Inr d3
                          else closeDeleteGroupTx passID parent True (buildCleanup parent) buildCleanup now d3)))"
  by pat_completeness auto
termination
  by (relation "measure (\<lambda>(p, r, s, c, b, n, d). length r)") (auto dest: deleteGroupParent_shorter)

declare closeDeleteGroupTx.simps [simp del]

definition bumpAndMaybeCloseDeleteGroupTx ::
    "int \<Rightarrow> path \<Rightarrow> bool \<Rightarrow> NewShard \<Rightarrow> (path \<Rightarrow> NewShard) \<Rightarrow> int \<Rightarrow> db \<Rightarrow> store_error + db" where
  "bumpAndMaybeCloseDeleteGroupTx passID rel seedCleanup cleanupShard buildCleanup now d =
     (let d1 = update_groups (dg_key passID rel) (\<lambda>g. g\<lparr>dg_done := dg_done g + 1\<rparr>) d
      in (case List.find (dg_key passID rel) (t_delete_groups d1) of
            None \<Rightarrow> Inl ErrNoRows
          | Some g \<Rightarrow>
              if \<not> closeable g then Inr d1
              else closeDeleteGroupTx passID rel seedCleanup cleanupShard buildCleanup now d1))"

text \<open>Insert the group's row if it is new, and then register it with its parent.\<close>

definition ensure_group :: "int \<Rightarrow> path \<Rightarrow> db \<Rightarrow> db" where
  "ensure_group passID rel d =
     (if has_group passID rel d then d
      else registerPendingChildTx passID rel (insert_group (empty_group passID rel 0 False) d))"

fun close_deferred ::
    "int \<Rightarrow> (path \<Rightarrow> NewShard) \<Rightarrow> int \<Rightarrow> path list \<Rightarrow> db \<Rightarrow> store_error + db" where
  "close_deferred passID buildCleanup now [] d = Inr d"
| "close_deferred passID buildCleanup now (dr # drs) d =
     (case bumpAndMaybeCloseDeleteGroupTx passID dr True (buildCleanup dr) buildCleanup now
             (insert_group (empty_group passID dr 1 True) d) of
        Inl e \<Rightarrow> Inl e
      | Inr d1 \<Rightarrow> close_deferred passID buildCleanup now drs d1)"

text \<open>Unlike the other completions, this one leaves the shard's \<open>lease_id\<close> in place.\<close>

definition CompleteDeleteRemainder ::
    "int \<Rightarrow> int \<Rightarrow> int \<Rightarrow> path \<Rightarrow> bytes option \<Rightarrow> bool \<Rightarrow> NewShard \<Rightarrow> (path \<Rightarrow> NewShard) \<Rightarrow> path list \<Rightarrow>
     counters option \<Rightarrow> int \<Rightarrow> db \<Rightarrow> store_error + db" where
  "CompleteDeleteRemainder shardID leaseID passID rel result seedCleanup cleanupShard buildCleanup
       deferredRmdirs c now d =
     (if count_where (holds_lease shardID leaseID) (t_shards d) = 0 then Inl ErrLeaseMismatch
      else let d1 = update_shards (holds_lease shardID leaseID)
                 (\<lambda>s. s\<lparr>shard_state := ShardDone,
                        shard_result := (case result of None \<Rightarrow> shard_result s | Some b \<Rightarrow> Some b),
                        shard_updated := now\<rparr>) d;
               d2 = accumulatePassCounters passID c d1
           in (case (if rel = '''' then Inr d2
                     else bumpAndMaybeCloseDeleteGroupTx passID rel seedCleanup cleanupShard buildCleanup now
                            (ensure_group passID rel d2)) of
                 Inl e \<Rightarrow> Inl e
               | Inr d3 \<Rightarrow> close_deferred passID buildCleanup now deferredRmdirs d3))"

section \<open>Splits\<close>

record DeleteGroupTotal =
  dt_DirRel :: path
  dt_LastBatch :: bool
  dt_NoSelfCleanup :: bool
  dt_BuildCleanup :: "path \<Rightarrow> NewShard"

definition record_delete_total :: "int \<Rightarrow> int \<Rightarrow> DeleteGroupTotal \<Rightarrow> db \<Rightarrow> store_error + db" where
  "record_delete_total passID now dt d =
     (let rel = dt_DirRel dt;
          d1 = ensure_group passID rel d;
          d2 = update_groups (dg_key passID rel)
                 (\<lambda>g. g\<lparr>dg_total := dg_total g + 1,
                        done_streaming := (dt_LastBatch dt \<or> done_streaming g)\<rparr>) d1
      in (case List.find (dg_key passID rel) (t_delete_groups d2) of
            None \<Rightarrow> Inl ErrNoRows
          | Some g \<Rightarrow>
              if \<not> closeable g then Inr d2
              else closeDeleteGroupTx passID rel (\<not> dt_NoSelfCleanup dt)
                     (dt_BuildCleanup dt rel) (dt_BuildCleanup dt) now d2))"

fun record_delete_totals :: "int \<Rightarrow> int \<Rightarrow> DeleteGroupTotal list \<Rightarrow> db \<Rightarrow> store_error + db" where
  "record_delete_totals passID now [] d = Inr d"
| "record_delete_totals passID now (dt # dts) d =
     (case record_delete_total passID now dt d of
        Inl e \<Rightarrow> Inl e
      | Inr d1 \<Rightarrow> record_delete_totals passID now dts d1)"

definition find_split :: "int \<Rightarrow> int \<Rightarrow> db \<Rightarrow> split_row option" where
  "find_split parent seq d = List.find (\<lambda>s. split_parent s = parent \<and> split_seq s = seq) (t_splits d)"

definition RecordSplit ::
    "int \<Rightarrow> u64 \<Rightarrow> NewShard list \<Rightarrow> NewChunkGroup list \<Rightarrow> NewLinkSighting list \<Rightarrow> u64 \<Rightarrow>
     DeleteGroupTotal list \<Rightarrow> int \<Rightarrow> db \<Rightarrow> store_error + int list \<times> db" where
  "RecordSplit parentShardID seq shards groups sightings maxGroupScan deleteTotals now d =
     (case find_split parentShardID (sint seq) d of
        Some sp \<Rightarrow> Inr (assigned_ids sp, d)
      | None \<Rightarrow>
          (case List.find (\<lambda>s. shard_id s = parentShardID) (t_shards d) of
             None \<Rightarrow> Inr ([], d)
           | Some ps \<Rightarrow>
               let passID = shard_pass ps
               in (case insertShardsTx passID parentShardID now shards d of
                     Inl e \<Rightarrow> Inl e
                   | Inr (ids, d1) \<Rightarrow>
                       let d2 = fold (insert_chunk_group passID) groups d1;
                           d3 = recordLinkSightingsTx passID maxGroupScan now sightings d2
                       in (case record_delete_totals passID now deleteTotals d3 of
                             Inl e \<Rightarrow> Inl e
                           | Inr d4 \<Rightarrow> Inr (ids, d4\<lparr>t_splits := t_splits d4 @
                                 [\<lparr>split_parent = parentShardID, split_seq = sint seq,
                                   assigned_ids = ids\<rparr>]\<rparr>)))))"

declare insertShardsTx.simps [simp del]

section \<open>Every group operation keeps the store invariant\<close>

lemma store_inv_frame [simp, table_simps]:
  "store_inv (d\<lparr>t_chunk_groups := a\<rparr>) = store_inv d"
  "store_inv (d\<lparr>t_delete_groups := b\<rparr>) = store_inv d"
  "store_inv (d\<lparr>t_link_groups := c\<rparr>) = store_inv d"
  "store_inv (d\<lparr>t_link_members := e\<rparr>) = store_inv d"
  "store_inv (d\<lparr>t_splits := g\<rparr>) = store_inv d"
  "store_inv (d\<lparr>t_cursors := h\<rparr>) = store_inv d"
  "store_inv (d\<lparr>t_agents := i\<rparr>) = store_inv d"
  "store_inv (d\<lparr>t_journal_counts := j\<rparr>) = store_inv d"
  by (simp_all add: store_inv_def jobs_inv_def queue_inv_def)

lemma store_inv_update_groups [simp]: "store_inv (update_groups P f d) = store_inv d"
  by (simp add: update_groups_def)

lemma store_inv_insert_group [simp]: "store_inv (insert_group g d) = store_inv d"
  by (simp add: insert_group_def)

lemma store_inv_accumulate [wf_intros]: "store_inv d \<Longrightarrow> store_inv (accumulatePassCounters p c d)"
  by (auto simp: store_inv_def intro: wf_intros)

lemma store_inv_finish_chunk:
  "finish_chunk_shard i l now d = Inr d' \<Longrightarrow> store_inv d \<Longrightarrow> store_inv d'"
  by (auto simp: finish_chunk_shard_def store_inv_def row_ok_def el_lease_def split: if_splits
      intro!: queue_inv_update)

lemma store_inv_CompleteDataChunk:
  assumes "CompleteDataChunk i l p rel fs c now d = Inr (b, d')" "store_inv d"
  shows "store_inv d'"
proof -
  obtain d1 where d1: "finish_chunk_shard i l now d = Inr d1"
    using assms(1) by (auto simp: CompleteDataChunk_def split: sum.splits)
  have "store_inv (accumulatePassCounters p c d1)"
    using store_inv_finish_chunk [OF d1 assms(2)] by (rule wf_intros)
  then show ?thesis using assms(1) d1
    by (auto simp: CompleteDataChunk_def Let_def split: sum.splits option.splits if_splits prod.splits
        intro: store_inv_insertShardsTx)
qed

lemma store_inv_chunk_ops:
  "CompleteFinalizeChunk i l p rel c now d = Inr d' \<Longrightarrow> store_inv d \<Longrightarrow> store_inv d'"
  "AbortChunkGroup i l p rel now d = Inr d' \<Longrightarrow> store_inv d \<Longrightarrow> store_inv d'"
  by (auto simp: CompleteFinalizeChunk_def AbortChunkGroup_def set_chunk_state_def split: sum.splits
      intro!: store_inv_accumulate dest: store_inv_finish_chunk)

lemma store_inv_insert_chunk_group [simp]: "store_inv (insert_chunk_group p g d) = store_inv d"
  by (simp add: insert_chunk_group_def)

lemma store_inv_passes_update:
  assumes "store_inv d"
    and "\<And>p. P p \<Longrightarrow> pass_id (f p) = pass_id p \<and> pass_job (f p) = pass_job p \<and> pass_no (f p) = pass_no p \<and>
       shards_reaped (f p) = shards_reaped p"
  shows "store_inv (d\<lparr>t_passes := update_where P f (t_passes d)\<rparr>)"
proof -
  have i: "jobs_inv d" "queue_inv d" using assms(1) by (simp_all add: store_inv_def)
  have "jobs_inv (d\<lparr>t_passes := update_where P f (t_passes d)\<rparr>)"
    by (rule jobs_inv_update_passes [OF i(1)]) (use assms(2) jobs_invD(6) [OF i(1)] in auto)
  moreover have "queue_inv (d\<lparr>t_passes := update_where P f (t_passes d)\<rparr>)"
    by (rule queue_inv_passes_update [OF i(2)]) (use assms(2) in auto)
  ultimately show ?thesis by (simp add: store_inv_def)
qed

lemma store_inv_record_sighting: "store_inv d \<Longrightarrow> store_inv (record_sighting p mx now sg d)"
proof -
  have r: "store_inv (refresh_link_group p mx now dev ino d')" if "store_inv d'" for dev ino d'
  proof -
    have u: "store_inv (d'\<lparr>t_link_groups := x\<rparr>)" for x using that by simp
    show ?thesis unfolding refresh_link_group_def Let_def
      using store_inv_passes_update [OF u] u by simp
  qed
  show "store_inv d \<Longrightarrow> store_inv (record_sighting p mx now sg d)"
    unfolding record_sighting_def Let_def
    by (rule r) (simp add: insert_link_member_def ensure_link_group_def Let_def)
qed

lemma store_inv_recordLinkSightings: "store_inv d \<Longrightarrow> store_inv (recordLinkSightingsTx p mx now sgs d)"
  unfolding recordLinkSightingsTx_def
  by (induction sgs arbitrary: d) (auto intro: store_inv_record_sighting)

lemma store_inv_register [simp]: "store_inv (registerPendingChildTx p c d) = store_inv d"
  by (induction p c d rule: registerPendingChildTx.induct)
    (subst registerPendingChildTx.simps, auto simp: Let_def split: option.splits)

lemma store_inv_ensure_group [simp]: "store_inv (ensure_group p rel d) = store_inv d"
  by (simp add: ensure_group_def)

text \<open>One round of the upward walk: it stops at a top-level path, stops at a parent that is not
  closeable, or goes on with the parent.\<close>

lemma closeDeleteGroup_step:
  assumes "closeDeleteGroupTx p rel sc cs bc now d = Inr d'"
  obtains (top) ids d1 where
      "(if sc then insertShardsTx p 0 now [cs] d else Inr ([], d)) = Inr (ids, d1)"
      "deleteGroupParent rel = None"
      "d' = update_groups (dg_key p rel) (\<lambda>g. g\<lparr>dg_closed := True\<rparr>) d1"
  | (stop) ids d1 parent where
      "(if sc then insertShardsTx p 0 now [cs] d else Inr ([], d)) = Inr (ids, d1)"
      "deleteGroupParent rel = Some parent"
      "d' = update_groups (dg_open p parent) (\<lambda>g. g\<lparr>pending_children := pending_children g - 1\<rparr>)
         (update_groups (dg_key p rel) (\<lambda>g. g\<lparr>dg_closed := True\<rparr>) d1)"
  | (climb) ids d1 parent d3 g where
      "(if sc then insertShardsTx p 0 now [cs] d else Inr ([], d)) = Inr (ids, d1)"
      "deleteGroupParent rel = Some parent"
      "d3 = update_groups (dg_open p parent) (\<lambda>g. g\<lparr>pending_children := pending_children g - 1\<rparr>)
         (update_groups (dg_key p rel) (\<lambda>g. g\<lparr>dg_closed := True\<rparr>) d1)"
      "List.find (dg_open p parent) (t_delete_groups d3) = Some g" "closeable g"
      "closeDeleteGroupTx p parent True (bc parent) bc now d3 = Inr d'"
proof -
  obtain ids d1 where d1: "(if sc then insertShardsTx p 0 now [cs] d else Inr ([], d)) = Inr (ids, d1)"
    using assms by (subst (asm) closeDeleteGroupTx.simps) (auto split: sum.splits)
  note e = assms [unfolded closeDeleteGroupTx.simps [of p rel] d1 sum.case prod.case Let_def]
  show thesis
  proof (cases "deleteGroupParent rel")
    case None
    then show thesis using e top [OF d1] by simp
  next
    case (Some parent)
    let ?d3 = "update_groups (dg_open p parent) (\<lambda>g. g\<lparr>pending_children := pending_children g - 1\<rparr>)
         (update_groups (dg_key p rel) (\<lambda>g. g\<lparr>dg_closed := True\<rparr>) d1)"
    show thesis
    proof (cases "List.find (dg_open p parent) (t_delete_groups ?d3)")
      case None
      then show thesis using e Some stop [OF d1 Some] by simp
    next
      case g: (Some g)
      show thesis
      proof (cases "closeable g")
        case True
        then show thesis using e Some g climb [OF d1 Some refl g] by simp
      next
        case False
        then show thesis using e Some g stop [OF d1 Some] by simp
      qed
    qed
  qed
qed

lemma store_inv_closeDeleteGroup:
  "closeDeleteGroupTx p rel sc cs bc now d = Inr d' \<Longrightarrow> store_inv d \<Longrightarrow> store_inv d'"
proof (induction "length rel" arbitrary: rel sc cs d rule: less_induct)
  case less
  have s1: "store_inv d1" if "(if sc then insertShardsTx p 0 now [cs] d else Inr ([], d)) = Inr (ids, d1)" for ids d1
    using that less.prems(2) store_inv_insertShardsTx by (auto split: if_splits)
  from less.prems(1) show ?case
  proof (cases rule: closeDeleteGroup_step)
    case (climb ids d1 parent d3 g)
    show ?thesis
      by (rule less.hyps [OF deleteGroupParent_shorter [OF climb(2)] climb(6)])
        (simp add: climb(3) s1 [OF climb(1)])
  qed (use s1 in auto)
qed

lemma store_inv_bump:
  "bumpAndMaybeCloseDeleteGroupTx p rel sc cs bc now d = Inr d' \<Longrightarrow> store_inv d \<Longrightarrow> store_inv d'"
  by (auto simp: bumpAndMaybeCloseDeleteGroupTx_def Let_def split: option.splits if_splits
      dest: store_inv_closeDeleteGroup)

lemma store_inv_close_deferred:
  "close_deferred p bc now drs d = Inr d' \<Longrightarrow> store_inv d \<Longrightarrow> store_inv d'"
  by (induction p bc now drs d rule: close_deferred.induct)
    (auto split: sum.splits dest: store_inv_bump)

lemma store_inv_CompleteDeleteRemainder:
  assumes "CompleteDeleteRemainder i l p rel res sc cs bc drs c now d = Inr d'" "store_inv d"
  shows "store_inv d'"
proof -
  let ?d1 = "update_shards (holds_lease i l) (\<lambda>s. s\<lparr>shard_state := ShardDone,
      shard_result := (case res of None \<Rightarrow> shard_result s | Some b \<Rightarrow> Some b), shard_updated := now\<rparr>) d"
  have "store_inv ?d1" using assms(2)
    by (auto simp: store_inv_def row_ok_def el_lease_def intro!: queue_inv_update)
  then have i2: "store_inv (accumulatePassCounters p c ?d1)" by (rule wf_intros)
  obtain d3 where d3: "(if rel = '''' then Inr (accumulatePassCounters p c ?d1)
      else bumpAndMaybeCloseDeleteGroupTx p rel sc cs bc now
             (ensure_group p rel (accumulatePassCounters p c ?d1))) = Inr d3"
    and cd: "close_deferred p bc now drs d3 = Inr d'"
    using assms(1) by (simp add: CompleteDeleteRemainder_def Let_def split: if_splits sum.splits)
  have "store_inv d3"
  proof (cases "rel = ''''")
    case True
    then show ?thesis using d3 i2 by simp
  next
    case False
    then have "bumpAndMaybeCloseDeleteGroupTx p rel sc cs bc now
        (ensure_group p rel (accumulatePassCounters p c ?d1)) = Inr d3" using d3 by simp
    from store_inv_bump [OF this] i2 show ?thesis by simp
  qed
  then show ?thesis by (rule store_inv_close_deferred [OF cd])
qed

lemma store_inv_record_delete_total:
  "record_delete_total p now dt d = Inr d' \<Longrightarrow> store_inv d \<Longrightarrow> store_inv d'"
  by (auto simp: record_delete_total_def Let_def split: option.splits if_splits
      dest: store_inv_closeDeleteGroup)

lemma store_inv_record_delete_totals:
  "record_delete_totals p now dts d = Inr d' \<Longrightarrow> store_inv d \<Longrightarrow> store_inv d'"
  by (induction p now dts d rule: record_delete_totals.induct)
    (auto split: sum.splits dest: store_inv_record_delete_total)

lemma RecordSplit_cases:
  assumes "RecordSplit parent seq shards groups sightings mx dts now d = Inr (ids, d')"
  obtains sp where "find_split parent (sint seq) d = Some sp" "ids = assigned_ids sp" "d' = d"
  | "find_split parent (sint seq) d = None" "parent \<notin> shard_id ` set (t_shards d)" "ids = []" "d' = d"
  | ps d1 d4 where "find_split parent (sint seq) d = None"
      "List.find (\<lambda>s. shard_id s = parent) (t_shards d) = Some ps"
      "insertShardsTx (shard_pass ps) parent now shards d = Inr (ids, d1)"
      "record_delete_totals (shard_pass ps) now dts
         (recordLinkSightingsTx (shard_pass ps) mx now sightings
           (fold (insert_chunk_group (shard_pass ps)) groups d1)) = Inr d4"
      "d' = d4\<lparr>t_splits := t_splits d4 @ [\<lparr>split_parent = parent, split_seq = sint seq, assigned_ids = ids\<rparr>]\<rparr>"
proof -
  show thesis
  proof (cases "find_split parent (sint seq) d")
    case (Some sp)
    have "ids = assigned_ids sp \<and> d' = d" using assms Some by (simp add: RecordSplit_def)
    then show thesis using that(1) [OF Some] by blast
  next
    case None
    show thesis
    proof (cases "List.find (\<lambda>s. shard_id s = parent) (t_shards d)")
      case n: None
      have "parent \<notin> shard_id ` set (t_shards d)" using n by (auto simp: find_None_iff_all)
      moreover have "ids = [] \<and> d' = d" using assms None n by (simp add: RecordSplit_def)
      ultimately show thesis using that(2) [OF None] by blast
    next
      case (Some ps)
      obtain ids1 d1 where i: "insertShardsTx (shard_pass ps) parent now shards d = Inr (ids1, d1)"
        using assms None Some by (auto simp: RecordSplit_def Let_def split: sum.splits)
      obtain d4 where r: "record_delete_totals (shard_pass ps) now dts
         (recordLinkSightingsTx (shard_pass ps) mx now sightings
           (fold (insert_chunk_group (shard_pass ps)) groups d1)) = Inr d4"
        using assms None Some i by (auto simp: RecordSplit_def Let_def split: sum.splits)
      have "ids1 = ids \<and>
        d' = d4\<lparr>t_splits := t_splits d4 @ [\<lparr>split_parent = parent, split_seq = sint seq, assigned_ids = ids\<rparr>]\<rparr>"
        using assms None Some i r by (auto simp: RecordSplit_def Let_def)
      then show thesis using that(3) [OF None Some _ r] i by blast
    qed
  qed
qed

lemma store_inv_fold_chunk_groups [simp]: "store_inv (fold (insert_chunk_group p) gs d) = store_inv d"
  by (induction gs arbitrary: d) auto

lemma store_inv_RecordSplit:
  assumes "RecordSplit parent seq shards groups sightings mx dts now d = Inr (ids, d')" "store_inv d"
  shows "store_inv d'"
  using assms(1)
proof (cases rule: RecordSplit_cases)
  case (3 ps d1 d4)
  have "store_inv d1" by (rule store_inv_insertShardsTx [OF 3(3) assms(2)])
  then have "store_inv d4"
    by (intro store_inv_record_delete_totals [OF 3(4)] store_inv_recordLinkSightings) simp
  then show ?thesis using 3(5) by simp
qed (use assms(2) in auto)

section \<open>Chunk groups\<close>

definition group_of :: "int \<Rightarrow> path \<Rightarrow> db \<Rightarrow> chunk_group_row option" where
  "group_of p rel d = List.find (cg_key p rel) (t_chunk_groups d)"

lemma finish_chunk_InrD:
  assumes "finish_chunk_shard i l now d = Inr d'"
  shows "t_chunk_groups d' = t_chunk_groups d" "length (t_shards d') = length (t_shards d)"
    "map shard_id (t_shards d') = map shard_id (t_shards d)" "seq_shards d' = seq_shards d"
    "\<exists>s \<in> set (t_shards d). holds_lease i l s"
  using assms by (auto simp: finish_chunk_shard_def map_update_where count_where_zero_iff split: if_splits)

lemma CompleteDataChunk_InrD:
  assumes "CompleteDataChunk i l p rel fs c now d = Inr (seeded, d')"
  obtains g where "group_of p rel d = Some g"
    "seeded \<longleftrightarrow> cg_state g = ChunkCopying \<and> n_chunks g \<le> n_done g + 1"
    "group_of p rel d' = Some (g\<lparr>n_done := n_done g + 1\<rparr>)"
    "length (t_shards d') = length (t_shards d) + (if seeded then 1 else 0)"
    "seeded \<Longrightarrow> last (t_shards d') = new_shard_row (seq_shards d + 1) p 0 now fs"
proof -
  obtain d1 where d1: "finish_chunk_shard i l now d = Inr d1"
    using assms by (auto simp: CompleteDataChunk_def split: sum.splits)
  let ?up = "update_where (cg_key p rel) (\<lambda>g. g\<lparr>n_done := n_done g + 1\<rparr>)"
  let ?d3 = "accumulatePassCounters p c d1\<lparr>t_chunk_groups := ?up (t_chunk_groups d)\<rparr>"
  have cg: "t_chunk_groups d1 = t_chunk_groups d" using finish_chunk_InrD(1) [OF d1] .
  have f: "List.find (cg_key p rel) (?up (t_chunk_groups d)) =
      map_option (\<lambda>g. g\<lparr>n_done := n_done g + 1\<rparr>) (group_of p rel d)"
    unfolding group_of_def by (rule find_update_where_self) (simp add: cg_key_def)
  note e = assms [unfolded CompleteDataChunk_def d1 sum.case Let_def]
  obtain g where g: "group_of p rel d = Some g"
    using e by (cases "group_of p rel d") (simp_all add: cg f)
  have len: "length (t_shards d1) = length (t_shards d)" by (rule finish_chunk_InrD(2) [OF d1])
  show thesis
  proof (cases "cg_state g \<noteq> ChunkCopying \<or> n_done g + 1 < n_chunks g")
    case True
    then have "seeded = False" "d' = ?d3" using e by (auto simp: cg f g)
    then show thesis using True g f len by (intro that [OF g]) (auto simp: group_of_def)
  next
    case False
    then obtain ids d4 where i: "insertShardsTx p 0 now [fs] ?d3 = Inr (ids, d4)" "seeded = True" "d' = d4"
      using e by (auto simp: cg f g split: sum.splits)
    have "group_of p rel d' = Some (g\<lparr>n_done := n_done g + 1\<rparr>)"
      using insertShardsTx_frame(6) [OF i(1)] i(3) f g by (simp add: group_of_def)
    moreover have "length (t_shards d') = length (t_shards d) + 1"
      "last (t_shards d') = new_shard_row (seq_shards d + 1) p 0 now fs"
      using insertShardsTx_InrD(2) [OF i(1)] i(3) len finish_chunk_InrD(4) [OF d1] by simp_all
    ultimately show thesis using False i(2) by (intro that [OF g]) auto
  qed
qed

text \<open>A run of completed chunks of one file: (shard, lease, counters) in the order they land.\<close>

fun complete_chunks ::
    "int \<Rightarrow> path \<Rightarrow> NewShard \<Rightarrow> int \<Rightarrow> (int \<times> int \<times> counters option) list \<Rightarrow> db \<Rightarrow> store_error + bool list \<times> db" where
  "complete_chunks p rel fs now [] d = Inr ([], d)"
| "complete_chunks p rel fs now ((i, l, c) # rs) d =
     (case CompleteDataChunk i l p rel fs c now d of
        Inl e \<Rightarrow> Inl e
      | Inr (b, d1) \<Rightarrow> (case complete_chunks p rel fs now rs d1 of
                         Inl e \<Rightarrow> Inl e
                       | Inr (bs, d2) \<Rightarrow> Inr (b # bs, d2)))"

lemma complete_chunks_flags:
  "complete_chunks p rel fs now rs d = Inr (bs, d') \<Longrightarrow> group_of p rel d = Some g \<Longrightarrow>
   cg_state g = ChunkCopying \<Longrightarrow> n_done g + int (length rs) = n_chunks g \<Longrightarrow> rs \<noteq> [] \<Longrightarrow>
   bs = replicate (length rs - 1) False @ [True] \<and> length (t_shards d') = length (t_shards d) + 1 \<and>
   (\<exists>i. last (t_shards d') = new_shard_row i p 0 now fs)"
proof (induction rs arbitrary: d g bs)
  case (Cons r rs)
  obtain i l c where r: "r = (i, l, c)" by (cases r)
  obtain b d1 bs' where h: "CompleteDataChunk i l p rel fs c now d = Inr (b, d1)"
    "complete_chunks p rel fs now rs d1 = Inr (bs', d')" "bs = b # bs'"
    using Cons.prems(1) by (auto simp: r split: sum.splits)
  let ?g = "g\<lparr>n_done := n_done g + 1\<rparr>"
  have s: "b \<longleftrightarrow> n_chunks g \<le> n_done g + 1" "group_of p rel d1 = Some ?g"
    "length (t_shards d1) = length (t_shards d) + (if b then 1 else 0)"
    "b \<Longrightarrow> last (t_shards d1) = new_shard_row (seq_shards d + 1) p 0 now fs"
    by (rule CompleteDataChunk_InrD [OF h(1)], use Cons.prems(2,3) in simp)+
  show ?case
  proof (cases "rs = []")
    case True
    then show ?thesis using h s Cons.prems(4) by auto
  next
    case False
    have "bs' = replicate (length rs - 1) False @ [True] \<and> length (t_shards d') = length (t_shards d1) + 1 \<and>
        (\<exists>i. last (t_shards d') = new_shard_row i p 0 now fs)"
      by (rule Cons.IH [OF h(2) s(2)]) (use Cons.prems False in auto)
    moreover have "\<not> b" using s(1) Cons.prems(4) False by (cases rs) auto
    ultimately show ?thesis using h(3) s(3) False by (cases rs) auto
  qed
qed simp

section \<open>Delete groups\<close>

text \<open>The open groups of a pass whose parent directory is \<open>q\<close>.\<close>

definition open_kids :: "int \<Rightarrow> path \<Rightarrow> delete_group_row list \<Rightarrow> nat" where
  "open_kids p q rs =
     count_where (\<lambda>h. dg_pass h = p \<and> \<not> dg_closed h \<and> deleteGroupParent (dg_rel h) = Some q) rs"

text \<open>
  The balance: keys are unique, every open group counts exactly its open nested groups, and every
  group's parent directory has a row. While a new group is being registered the books are short by
  one at its parent \<open>x\<close>, which may not have a row yet.
\<close>

definition dg_bal :: "int \<Rightarrow> path option \<Rightarrow> delete_group_row list \<Rightarrow> bool" where
  "dg_bal p x rs \<longleftrightarrow>
     distinct (map (\<lambda>g. (dg_pass g, dg_rel g)) rs) \<and>
     (\<forall>g \<in> set rs. \<not> dg_closed g \<longrightarrow>
        pending_children g + (if dg_pass g = p \<and> x = Some (dg_rel g) then 1 else 0) =
        int (open_kids (dg_pass g) (dg_rel g) rs)) \<and>
     (\<forall>h \<in> set rs. \<forall>q. deleteGroupParent (dg_rel h) = Some q \<longrightarrow>
        (\<exists>g \<in> set rs. dg_key (dg_pass h) q g) \<or> (dg_pass h = p \<and> x = Some q \<and> open_kids p q rs = 1))"

definition delete_inv :: "db \<Rightarrow> bool" where
  "delete_inv d \<longleftrightarrow> dg_bal 0 None (t_delete_groups d)"

lemma dg_bal_None: "dg_bal p None rs = dg_bal p' None rs"
  by (simp add: dg_bal_def)

lemma dg_balD:
  assumes "dg_bal p x rs"
  shows "distinct (map (\<lambda>g. (dg_pass g, dg_rel g)) rs)"
    "g \<in> set rs \<Longrightarrow> \<not> dg_closed g \<Longrightarrow>
       pending_children g + (if dg_pass g = p \<and> x = Some (dg_rel g) then 1 else 0) =
       int (open_kids (dg_pass g) (dg_rel g) rs)"
    "h \<in> set rs \<Longrightarrow> deleteGroupParent (dg_rel h) = Some q \<Longrightarrow>
       (\<exists>g \<in> set rs. dg_key (dg_pass h) q g) \<or> (dg_pass h = p \<and> x = Some q \<and> open_kids p q rs = 1)"
  using assms by (auto simp: dg_bal_def)

lemma parent_neq [simp]: "deleteGroupParent q \<noteq> Some q" "Some q \<noteq> deleteGroupParent q"
  by (metis deleteGroupParent_shorter less_irrefl)+

lemma open_kids_append [simp]: "open_kids p q (rs @ ss) = open_kids p q rs + open_kids p q ss"
  by (simp add: open_kids_def)

lemma open_kids_Nil [simp]: "open_kids p q [] = 0"
  by (simp add: open_kids_def)

lemma open_kids_single:
  "open_kids p q [g] = (if dg_pass g = p \<and> \<not> dg_closed g \<and> deleteGroupParent (dg_rel g) = Some q then 1 else 0)"
  by (simp add: open_kids_def)

lemma open_kids_none:
  assumes bal: "dg_bal p x rs" and no: "\<forall>g \<in> set rs. \<not> dg_key r q g" and x: "r = p \<longrightarrow> x \<noteq> Some q"
  shows "open_kids r q rs = 0"
proof -
  have False if h: "h \<in> set rs" "dg_pass h = r" "deleteGroupParent (dg_rel h) = Some q" for h
    using dg_balD(3) [OF bal h(1,3)] h(2) no x by blast
  then show ?thesis by (auto simp: open_kids_def count_where_zero_iff)
qed

text \<open>A new row opens the deficit at its parent.\<close>

lemma dg_bal_add:
  assumes bal: "dg_bal p x rs" and new: "\<forall>g \<in> set rs. \<not> dg_key p c g"
    and g0: "dg_pass g0 = p" "dg_rel g0 = c" "\<not> dg_closed g0" "pending_children g0 = int (open_kids p c rs)"
    and x: "x = None \<or> x = Some c"
  shows "dg_bal p (deleteGroupParent c) (rs @ [g0])"
  unfolding dg_bal_def
proof (intro conjI ballI allI impI)
  show "distinct (map (\<lambda>g. (dg_pass g, dg_rel g)) (rs @ [g0]))"
    using dg_balD(1) [OF bal] new g0(1,2) by (auto simp: dg_key_def)
next
  fix g assume g: "g \<in> set (rs @ [g0])" "\<not> dg_closed g"
  show "pending_children g + (if dg_pass g = p \<and> deleteGroupParent c = Some (dg_rel g) then 1 else 0) =
      int (open_kids (dg_pass g) (dg_rel g) (rs @ [g0]))"
  proof (cases "g = g0")
    case True
    then show ?thesis using g0 by (simp add: open_kids_single)
  next
    case False
    then have "g \<in> set rs" using g(1) by simp
    moreover have "\<not> (dg_pass g = p \<and> x = Some (dg_rel g))"
      using x new \<open>g \<in> set rs\<close> by (auto simp: dg_key_def)
    ultimately show ?thesis using dg_balD(2) [OF bal, of g] g(2) g0 by (auto simp: open_kids_single)
  qed
next
  fix h q assume h: "h \<in> set (rs @ [g0])" "deleteGroupParent (dg_rel h) = Some q"
  show "(\<exists>g \<in> set (rs @ [g0]). dg_key (dg_pass h) q g) \<or>
      (dg_pass h = p \<and> deleteGroupParent c = Some q \<and> open_kids p q (rs @ [g0]) = 1)"
  proof (cases "h = g0")
    case False
    then have "h \<in> set rs" using h(1) by simp
    from dg_balD(3) [OF bal this h(2)] x g0 show ?thesis by (auto simp: dg_key_def)
  next
    case True
    show ?thesis
    proof (cases "\<exists>g \<in> set rs. dg_key p q g")
      case ex: True
      then show ?thesis using True g0 by auto
    next
      case no: False
      have "x \<noteq> Some q" using x h(2) True g0(2) by auto
      then have "open_kids p q rs = 0" using open_kids_none [OF bal] no by blast
      then show ?thesis using True g0 h(2) by (auto simp: open_kids_single)
    qed
  qed
qed

lemma open_kids_update_where:
  "(\<And>g. P g \<Longrightarrow> dg_pass (f g) = dg_pass g \<and> dg_rel (f g) = dg_rel g \<and> dg_closed (f g) = dg_closed g) \<Longrightarrow>
   open_kids p q (update_where P f rs) = open_kids p q rs"
  unfolding open_kids_def by (rule count_where_update_where_same) auto

lemma dg_key_ex: "(\<exists>g \<in> set rs. dg_key p q g) \<longleftrightarrow> (p, q) \<in> (\<lambda>g. (dg_pass g, dg_rel g)) ` set rs"
  by (auto simp: dg_key_def)

lemma dg_keys_update_where:
  "(\<And>g. P g \<Longrightarrow> dg_pass (f g) = dg_pass g \<and> dg_rel (f g) = dg_rel g) \<Longrightarrow>
   (\<exists>g \<in> set (update_where P f rs). dg_key p q g) = (\<exists>g \<in> set rs. dg_key p q g)"
  by (simp add: dg_key_ex update_where_keys)

text \<open>Counting the new child settles it.\<close>

lemma dg_bal_settle:
  assumes bal: "dg_bal p (Some q) rs" and ex: "\<exists>g \<in> set rs. dg_key p q g"
  shows "dg_bal p None (update_where (dg_open p q) (\<lambda>g. g\<lparr>pending_children := pending_children g + 1\<rparr>) rs)"
    (is "dg_bal p None (update_where ?P ?f rs)")
proof -
  have k: "open_kids r s (update_where ?P ?f rs) = open_kids r s rs" for r s
    by (rule open_kids_update_where) simp
  have e: "(\<exists>g \<in> set (update_where ?P ?f rs). dg_key r s g) = (\<exists>g \<in> set rs. dg_key r s g)" for r s
    by (rule dg_keys_update_where) simp
  have m: "map (\<lambda>g. (dg_pass g, dg_rel g)) (update_where ?P ?f rs) = map (\<lambda>g. (dg_pass g, dg_rel g)) rs"
    by (rule map_update_where) simp
  show ?thesis
    unfolding dg_bal_def e k m
  proof (intro conjI ballI allI impI)
    show "distinct (map (\<lambda>g. (dg_pass g, dg_rel g)) rs)" by (rule dg_balD(1) [OF bal])
  next
    fix g assume g: "g \<in> set (update_where ?P ?f rs)" "\<not> dg_closed g"
    then obtain r where r: "r \<in> set rs" "g = (if ?P r then ?f r else r)" by (auto simp: in_update_where_iff)
    then have "\<not> dg_closed r" using g(2) by (auto split: if_splits)
    from dg_balD(2) [OF bal r(1) this] r(2)
    show "pending_children g + (if dg_pass g = p \<and> None = Some (dg_rel g) then 1 else 0) =
        int (open_kids (dg_pass g) (dg_rel g) rs)"
      using \<open>\<not> dg_closed r\<close> by (auto simp: dg_open_def dg_key_def)
  next
    fix h s assume h: "h \<in> set (update_where ?P ?f rs)" "deleteGroupParent (dg_rel h) = Some s"
    then obtain r where r: "r \<in> set rs" "dg_pass h = dg_pass r" "dg_rel h = dg_rel r"
      by (auto simp: in_update_where_iff split: if_splits)
    show "(\<exists>g \<in> set rs. dg_key (dg_pass h) s g) \<or> (dg_pass h = p \<and> None = Some s \<and> open_kids p s rs = 1)"
      using dg_balD(3) [OF bal r(1)] h(2) r(2,3) ex by auto
  qed
qed

lemma groups_update_groups [simp]: "t_delete_groups (update_groups P f d) = update_where P f (t_delete_groups d)"
  by (simp add: update_groups_def)

lemma groups_insert_group:
  "t_delete_groups (insert_group g d) =
     (if has_group (dg_pass g) (dg_rel g) d then t_delete_groups d else t_delete_groups d @ [g])"
  by (simp add: insert_group_def)

lemma empty_group_sel [simp]:
  "dg_pass (empty_group p r n s) = p" "dg_rel (empty_group p r n s) = r"
  "\<not> dg_closed (empty_group p r n s)" "pending_children (empty_group p r n s) = 0"
  by (simp_all add: empty_group_def)

lemma dg_bal_register:
  "dg_bal p (deleteGroupParent c) (t_delete_groups d) \<Longrightarrow> has_group p c d \<Longrightarrow>
   dg_bal p None (t_delete_groups (registerPendingChildTx p c d))"
proof (induction p c d rule: registerPendingChildTx.induct)
  case (1 p c d)
  let ?rs = "t_delete_groups d"
  show ?case
  proof (cases "deleteGroupParent c")
    case None
    then show ?thesis using 1(2) by (simp add: registerPendingChildTx.simps [of p c])
  next
    case (Some q)
    let ?inc = "update_where (dg_open p q) (\<lambda>g. g\<lparr>pending_children := pending_children g + 1\<rparr>)"
    show ?thesis
    proof (cases "has_group p q d")
      case True
      then have "dg_bal p None (?inc ?rs)"
        using dg_bal_settle 1(2) Some by (auto simp: has_group_def)
      then show ?thesis using True Some
        by (simp add: registerPendingChildTx.simps [of p c] groups_insert_group)
    next
      case False
      let ?g = "empty_group p q 1 True" and ?g1 = "(empty_group p q 1 True)\<lparr>pending_children := 1\<rparr>"
      let ?d2 = "update_groups (dg_open p q) (\<lambda>g. g\<lparr>pending_children := pending_children g + 1\<rparr>) (insert_group ?g d)"
      have no: "\<forall>g \<in> set ?rs. \<not> dg_key p q g" using False by (auto simp: has_group_def)
      have "?inc ?rs = ?rs" by (rule update_where_id) (use no in \<open>auto simp: dg_open_def\<close>)
      then have rs: "t_delete_groups ?d2 = ?rs @ [?g1]"
        using False by (simp add: groups_insert_group dg_open_def dg_key_def)
      obtain h where h: "h \<in> set ?rs" "dg_key p c h" using 1(3) by (auto simp: has_group_def)
      have "open_kids p q ?rs = 1"
        using dg_balD(3) [OF 1(2) h(1)] h(2) Some no by (auto simp: dg_key_def)
      then have "dg_bal p (deleteGroupParent q) (?rs @ [?g1])"
        using 1(2) Some no by (intro dg_bal_add [where x = "Some q"]) auto
      moreover have "has_group p q ?d2" unfolding has_group_def rs by (simp add: dg_key_def)
      ultimately have "dg_bal p None (t_delete_groups (registerPendingChildTx p q ?d2))"
        using 1(1) [OF Some refl refl refl] False rs by simp
      then show ?thesis using Some False by (simp add: registerPendingChildTx.simps [of p c] Let_def)
    qed
  qed
qed

lemma has_group_register: "has_group p' r d \<Longrightarrow> has_group p' r (registerPendingChildTx p c d)"
proof (induction p c d rule: registerPendingChildTx.induct)
  case (1 p c d)
  have u: "has_group p' r (update_groups (dg_open p q) (\<lambda>g. g\<lparr>pending_children := pending_children g + 1\<rparr>)
      (insert_group g d))" for q g
    using 1(2) by (auto simp: has_group_def groups_insert_group dg_keys_update_where)
  show ?case using 1(1)[OF _ refl refl refl] u 1(2)
    by (subst registerPendingChildTx.simps) (auto simp: Let_def split: option.splits)
qed

lemma dg_bal_ensure:
  assumes "dg_bal p None (t_delete_groups d)"
  shows "dg_bal p None (t_delete_groups (ensure_group p rel d))" "has_group p rel (ensure_group p rel d)"
proof -
  have n: "\<not> has_group p rel d \<Longrightarrow> has_group p rel (insert_group (empty_group p rel 0 False) d)"
    by (auto simp: has_group_def groups_insert_group dg_key_def)
  show "has_group p rel (ensure_group p rel d)"
    using n by (simp add: ensure_group_def has_group_register)
  show "dg_bal p None (t_delete_groups (ensure_group p rel d))"
  proof (cases "has_group p rel d")
    case False
    let ?d1 = "insert_group (empty_group p rel 0 False) d"
    have no: "\<forall>g \<in> set (t_delete_groups d). \<not> dg_key p rel g" using False by (auto simp: has_group_def)
    have "open_kids p rel (t_delete_groups d) = 0" by (rule open_kids_none [OF assms no]) simp
    then have "dg_bal p (deleteGroupParent rel) (t_delete_groups ?d1)"
      using dg_bal_add [OF assms no] False by (simp add: groups_insert_group)
    then show ?thesis using dg_bal_register n False by (simp add: ensure_group_def)
  qed (simp add: ensure_group_def assms)
qed

text \<open>Counters that neither open, close nor move a group do not disturb the balance.\<close>

lemma dg_bal_neutral:
  assumes bal: "dg_bal p x rs"
    and f: "\<And>g. P g \<Longrightarrow> dg_pass (f g) = dg_pass g \<and> dg_rel (f g) = dg_rel g \<and> dg_closed (f g) = dg_closed g \<and>
      pending_children (f g) = pending_children g"
  shows "dg_bal p x (update_where P f rs)"
proof -
  have k: "open_kids r s (update_where P f rs) = open_kids r s rs" for r s
    by (rule open_kids_update_where) (simp add: f)
  have e: "(\<exists>g \<in> set (update_where P f rs). dg_key r s g) = (\<exists>g \<in> set rs. dg_key r s g)" for r s
    by (rule dg_keys_update_where) (simp add: f)
  have m: "map (\<lambda>g. (dg_pass g, dg_rel g)) (update_where P f rs) = map (\<lambda>g. (dg_pass g, dg_rel g)) rs"
    by (rule map_update_where) (simp add: f)
  have r: "\<exists>r \<in> set rs. dg_pass g = dg_pass r \<and> dg_rel g = dg_rel r \<and> dg_closed g = dg_closed r \<and>
      pending_children g = pending_children r" if "g \<in> set (update_where P f rs)" for g
    using that f by (auto simp: in_update_where_iff)
  show ?thesis
    unfolding dg_bal_def e k m using dg_balD [OF bal] r by (metis (no_types, lifting))
qed

text \<open>Closing an open group and taking it off its parent's books.\<close>

definition close_rows :: "int \<Rightarrow> path \<Rightarrow> delete_group_row list \<Rightarrow> delete_group_row list" where
  "close_rows p rel rs =
     (case deleteGroupParent rel of
        None \<Rightarrow> update_where (dg_key p rel) (\<lambda>g. g\<lparr>dg_closed := True\<rparr>) rs
      | Some q \<Rightarrow> update_where (dg_open p q) (\<lambda>g. g\<lparr>pending_children := pending_children g - 1\<rparr>)
                   (update_where (dg_key p rel) (\<lambda>g. g\<lparr>dg_closed := True\<rparr>) rs))"

definition close_row :: "int \<Rightarrow> path \<Rightarrow> delete_group_row \<Rightarrow> delete_group_row" where
  "close_row p rel g =
     (if dg_key p rel g then g\<lparr>dg_closed := True\<rparr>
      else if \<not> dg_closed g \<and> dg_pass g = p \<and> deleteGroupParent rel = Some (dg_rel g)
      then g\<lparr>pending_children := pending_children g - 1\<rparr> else g)"

lemma close_rows_map: "close_rows p rel rs = map (close_row p rel) rs"
  by (auto simp: close_rows_def close_row_def update_where_def dg_open_def dg_key_def split: option.splits)

lemma close_row_sel [simp]:
  "dg_pass (close_row p rel g) = dg_pass g" "dg_rel (close_row p rel g) = dg_rel g"
  "dg_closed (close_row p rel g) = (dg_closed g \<or> dg_key p rel g)"
  "dg_key r s (close_row p rel g) = dg_key r s g"
  by (auto simp: close_row_def dg_key_def)

lemma open_kids_close:
  assumes "distinct (map (\<lambda>g. (dg_pass g, dg_rel g)) rs)" "\<exists>g \<in> set rs. dg_open p rel g"
  shows "int (open_kids r s (map (close_row p rel) rs)) =
    int (open_kids r s rs) - (if r = p \<and> deleteGroupParent rel = Some s then 1 else 0)"
  using assms
proof (induction rs)
  case (Cons g rs)
  show ?case
  proof (cases "dg_open p rel g")
    case True
    have "(p, rel) \<notin> (\<lambda>g. (dg_pass g, dg_rel g)) ` set rs"
      using True Cons.prems(1) by (auto simp: dg_open_def dg_key_def)
    then have no: "\<not> dg_key p rel h" if "h \<in> set rs" for h
      using that dg_key_ex by blast
    have "open_kids r s (map (close_row p rel) rs) = open_kids r s rs"
      unfolding open_kids_def count_where_def filter_map length_map comp_def
      by (rule arg_cong [where f = length], rule filter_cong) (use no in auto)
    then show ?thesis using True by (auto simp: open_kids_def dg_open_def dg_key_def)
  next
    case False
    then have "\<exists>g \<in> set rs. dg_open p rel g" using Cons.prems(2) by auto
    then have "int (open_kids r s (map (close_row p rel) rs)) =
      int (open_kids r s rs) - (if r = p \<and> deleteGroupParent rel = Some s then 1 else 0)"
      using Cons.IH Cons.prems(1) by simp
    moreover have "dg_closed (close_row p rel g) = dg_closed g" using False by (auto simp: dg_open_def)
    ultimately show ?thesis by (auto simp: open_kids_def)
  qed
qed simp

lemma dg_bal_close:
  assumes bal: "dg_bal p None rs" and op: "\<exists>g \<in> set rs. dg_open p rel g"
  shows "dg_bal p None (close_rows p rel rs)"
  unfolding close_rows_map dg_bal_def
proof (intro conjI ballI allI impI)
  show "distinct (map (\<lambda>g. (dg_pass g, dg_rel g)) (map (close_row p rel) rs))"
    using dg_balD(1) [OF bal] by (simp add: comp_def)
next
  fix g assume "g \<in> set (map (close_row p rel) rs)" "\<not> dg_closed g"
  then obtain r where r: "r \<in> set rs" "g = close_row p rel r" "\<not> dg_closed r" "\<not> dg_key p rel r" by auto
  have "pending_children r = int (open_kids (dg_pass r) (dg_rel r) rs)"
    using dg_balD(2) [OF bal r(1,3)] by simp
  then show "pending_children g + (if dg_pass g = p \<and> None = Some (dg_rel g) then 1 else 0) =
      int (open_kids (dg_pass g) (dg_rel g) (map (close_row p rel) rs))"
    using r(2-4) open_kids_close [OF dg_balD(1) [OF bal] op] by (auto simp: close_row_def)
next
  fix h q assume "h \<in> set (map (close_row p rel) rs)" and q: "deleteGroupParent (dg_rel h) = Some q"
  then obtain r where r: "r \<in> set rs" "h = close_row p rel r" by auto
  have "\<exists>g \<in> set rs. dg_key (dg_pass h) q g" using dg_balD(3) [OF bal r(1)] q r(2) by simp
  then show "(\<exists>g \<in> set (map (close_row p rel) rs). dg_key (dg_pass h) q g) \<or>
      (dg_pass h = p \<and> None = Some q \<and> open_kids p q (map (close_row p rel) rs) = 1)"
    by simp
qed

lemma groups_cleanup_insert:
  "(if sc then insertShardsTx p 0 now [cs] d else Inr ([], d)) = Inr (ids, d1) \<Longrightarrow>
   t_delete_groups d1 = t_delete_groups d"
  by (auto split: if_splits dest: insertShardsTx_frame(7))

text \<open>
  The walk keeps the balance, never opens or adds a row, and every group it closes had no open
  nested group.
\<close>

lemma close_walk:
  assumes "closeDeleteGroupTx p rel sc cs bc now d = Inr d'" "dg_bal p None (t_delete_groups d)"
    "g \<in> set (t_delete_groups d)" "dg_key p rel g" "closeable g"
  shows "dg_bal p None (t_delete_groups d') \<and>
    (\<forall>r s. open_kids r s (t_delete_groups d') \<le> open_kids r s (t_delete_groups d)) \<and>
    (\<forall>r s. (\<exists>h \<in> set (t_delete_groups d). dg_key r s h) = (\<exists>h \<in> set (t_delete_groups d'). dg_key r s h)) \<and>
    (\<forall>r s. (\<exists>h \<in> set (t_delete_groups d). dg_open r s h) \<longrightarrow> (\<exists>h \<in> set (t_delete_groups d'). dg_open r s h) \<or>
       open_kids r s (t_delete_groups d') = 0)"
  using assms
proof (induction "length rel" arbitrary: rel sc cs d g rule: less_induct)
  case less
  let ?rs = "t_delete_groups d"
  have op: "\<exists>g \<in> set ?rs. dg_open p rel g"
    using less.prems(3-5) by (auto simp: dg_open_def closeable_def)
  have dist: "distinct (map (\<lambda>g. (dg_pass g, dg_rel g)) ?rs)" by (rule dg_balD(1) [OF less.prems(2)])
  have k0: "open_kids p rel ?rs = 0"
    using dg_balD(2) [OF less.prems(2,3)] less.prems(4,5) by (auto simp: closeable_def dg_key_def)
  let ?cl = "close_rows p rel ?rs"
  have mono: "open_kids r s ?cl \<le> open_kids r s ?rs" for r s
    using open_kids_close [OF dist op, of r s] by (auto simp: close_rows_map split: if_splits)
  have keys: "(\<exists>h \<in> set ?rs. dg_key r s h) = (\<exists>h \<in> set ?cl. dg_key r s h)" for r s
    by (simp add: close_rows_map)
  have still: "(\<exists>h \<in> set ?rs. dg_open r s h) \<longrightarrow> (\<exists>h \<in> set ?cl. dg_open r s h) \<or> r = p \<and> s = rel" for r s
    by (auto simp: close_rows_map dg_open_def dg_key_def)
  have fin: "(\<exists>h \<in> set ?rs. dg_open r s h) \<longrightarrow> (\<exists>h \<in> set ?cl. dg_open r s h) \<or> open_kids r s ?cl = 0" for r s
    using still [of r s] mono [of p rel] k0 by auto
  have bal: "dg_bal p None ?cl" by (rule dg_bal_close [OF less.prems(2) op])
  from less.prems(1) show ?case
  proof (cases rule: closeDeleteGroup_step)
    case (top ids d1)
    have "t_delete_groups d' = ?cl"
      using top groups_cleanup_insert [OF top(1)] by (simp add: close_rows_def)
    then show ?thesis using bal mono keys fin by simp
  next
    case (stop ids d1 q)
    have "t_delete_groups d' = ?cl"
      using stop groups_cleanup_insert [OF stop(1)] by (simp add: close_rows_def)
    then show ?thesis using bal mono keys fin by simp
  next
    case (climb ids d1 q d3 h)
    have d3: "t_delete_groups d3 = ?cl"
      using climb groups_cleanup_insert [OF climb(1)] by (simp add: close_rows_def)
    have h: "h \<in> set (t_delete_groups d3)" "dg_key p q h"
      using find_SomeD [OF climb(4)] by (auto simp: dg_open_def)
    have IH: "dg_bal p None (t_delete_groups d') \<and>
      (\<forall>r s. open_kids r s (t_delete_groups d') \<le> open_kids r s (t_delete_groups d3)) \<and>
      (\<forall>r s. (\<exists>h \<in> set (t_delete_groups d3). dg_key r s h) = (\<exists>h \<in> set (t_delete_groups d'). dg_key r s h)) \<and>
      (\<forall>r s. (\<exists>h \<in> set (t_delete_groups d3). dg_open r s h) \<longrightarrow> (\<exists>h \<in> set (t_delete_groups d'). dg_open r s h) \<or>
         open_kids r s (t_delete_groups d') = 0)"
      by (rule less.hyps [OF deleteGroupParent_shorter [OF climb(2)] climb(6) _ h climb(5)])
        (simp add: d3 bal)
    have "(\<exists>h \<in> set (t_delete_groups d'). dg_open r s h) \<or> open_kids r s (t_delete_groups d') = 0"
      if "\<exists>h \<in> set ?rs. dg_open r s h" for r s
    proof (cases "\<exists>h \<in> set ?cl. dg_open r s h")
      case True
      then show ?thesis using conjunct2 [OF conjunct2 [OF conjunct2 [OF IH]]] unfolding d3 by simp
    next
      case False
      then have "open_kids r s ?cl = 0" using fin that by blast
      moreover have "open_kids r s (t_delete_groups d') \<le> open_kids r s ?cl" using IH unfolding d3 by blast
      ultimately show ?thesis by simp
    qed
    moreover have "open_kids r s (t_delete_groups d') \<le> open_kids r s ?rs" for r s
      using IH mono [of r s] unfolding d3 by (meson le_trans)
    moreover have "(\<exists>h \<in> set ?rs. dg_key r s h) = (\<exists>h \<in> set (t_delete_groups d'). dg_key r s h)" for r s
      using IH keys [of r s] unfolding d3 by blast
    ultimately show ?thesis using IH by blast
  qed
qed

text \<open>The delete-group operations write no table but the groups and the shard queue.\<close>

definition groups_only :: "db \<Rightarrow> db \<Rightarrow> bool" where
  "groups_only d d' \<longleftrightarrow> t_jobs d' = t_jobs d \<and> t_passes d' = t_passes d \<and> t_agents d' = t_agents d \<and>
     t_splits d' = t_splits d \<and> t_cursors d' = t_cursors d \<and> t_chunk_groups d' = t_chunk_groups d \<and>
     t_link_groups d' = t_link_groups d \<and> t_link_members d' = t_link_members d \<and> seq_jobs d' = seq_jobs d"

lemma groups_only_refl [simp]: "groups_only d d"
  by (simp add: groups_only_def)

lemma groups_only_trans: "groups_only d d' \<Longrightarrow> groups_only d' d'' \<Longrightarrow> groups_only d d''"
  by (simp add: groups_only_def)

lemma groups_only_update [simp]: "groups_only d (update_groups P f d') = groups_only d d'"
  by (simp add: groups_only_def update_groups_def)

lemma groups_only_insert [simp]: "groups_only d (insert_group g d') = groups_only d d'"
  by (simp add: groups_only_def insert_group_def)

lemma groups_only_insertShards: "insertShardsTx p par now nss d = Inr (ids, d') \<Longrightarrow> groups_only d d'"
  by (simp add: groups_only_def insertShardsTx_frame)

lemma groups_only_register [simp]: "groups_only d (registerPendingChildTx p c d') = groups_only d d'"
  by (induction p c d' rule: registerPendingChildTx.induct)
    (subst registerPendingChildTx.simps, auto simp: Let_def split: option.splits)

lemma groups_only_ensure [simp]: "groups_only d (ensure_group p rel d') = groups_only d d'"
  by (simp add: ensure_group_def)

lemma groups_only_close:
  "closeDeleteGroupTx p rel sc cs bc now d = Inr d' \<Longrightarrow> groups_only d d'"
proof (induction "length rel" arbitrary: rel sc cs d rule: less_induct)
  case less
  have i: "groups_only d d1"
    if "(if sc then insertShardsTx p 0 now [cs] d else Inr ([], d)) = Inr (ids, d1)" for ids d1
    using that groups_only_insertShards by (auto split: if_splits)
  from less.prems show ?case
  proof (cases rule: closeDeleteGroup_step)
    case (climb ids d1 parent d3 g)
    have "groups_only d3 d'" by (rule less.hyps [OF deleteGroupParent_shorter [OF climb(2)] climb(6)])
    moreover have "groups_only d d3" using i [OF climb(1)] climb(3) by simp
    ultimately show ?thesis by (rule groups_only_trans [rotated])
  qed (use i in auto)
qed

lemma bump_InrD:
  assumes "bumpAndMaybeCloseDeleteGroupTx p rel sc cs bc now d = Inr d'"
  obtains g where
    "List.find (dg_key p rel) (t_delete_groups (update_groups (dg_key p rel) (\<lambda>g. g\<lparr>dg_done := dg_done g + 1\<rparr>) d)) = Some g"
    "if closeable g
     then closeDeleteGroupTx p rel sc cs bc now (update_groups (dg_key p rel) (\<lambda>g. g\<lparr>dg_done := dg_done g + 1\<rparr>) d) = Inr d'
     else d' = update_groups (dg_key p rel) (\<lambda>g. g\<lparr>dg_done := dg_done g + 1\<rparr>) d"
  using assms by (auto simp: bumpAndMaybeCloseDeleteGroupTx_def Let_def split: option.splits if_splits)

lemma total_InrD:
  assumes "record_delete_total p now dt d = Inr d'"
  obtains g d2 where
    "d2 = update_groups (dg_key p (dt_DirRel dt)) (\<lambda>g. g\<lparr>dg_total := dg_total g + 1,
       done_streaming := (dt_LastBatch dt \<or> done_streaming g)\<rparr>) (ensure_group p (dt_DirRel dt) d)"
    "List.find (dg_key p (dt_DirRel dt)) (t_delete_groups d2) = Some g"
    "if closeable g then closeDeleteGroupTx p (dt_DirRel dt) (\<not> dt_NoSelfCleanup dt)
       (dt_BuildCleanup dt (dt_DirRel dt)) (dt_BuildCleanup dt) now d2 = Inr d' else d' = d2"
  using assms by (auto simp: record_delete_total_def Let_def split: option.splits if_splits)

lemma groups_only_bump:
  assumes "bumpAndMaybeCloseDeleteGroupTx p rel sc cs bc now d = Inr d'"
  shows "groups_only d d'"
proof -
  obtain g where "if closeable g
     then closeDeleteGroupTx p rel sc cs bc now (update_groups (dg_key p rel) (\<lambda>g. g\<lparr>dg_done := dg_done g + 1\<rparr>) d) = Inr d'
     else d' = update_groups (dg_key p rel) (\<lambda>g. g\<lparr>dg_done := dg_done g + 1\<rparr>) d"
    using bump_InrD [OF assms] by metis
  then have "groups_only (update_groups (dg_key p rel) (\<lambda>g. g\<lparr>dg_done := dg_done g + 1\<rparr>) d) d'"
    using groups_only_close groups_only_refl by presburger
  then show ?thesis by (rule groups_only_trans [rotated]) simp
qed

lemma groups_only_total:
  assumes "record_delete_total p now dt d = Inr d'"
  shows "groups_only d d'"
proof -
  obtain g d2 where
    d2: "d2 = update_groups (dg_key p (dt_DirRel dt)) (\<lambda>g. g\<lparr>dg_total := dg_total g + 1,
       done_streaming := (dt_LastBatch dt \<or> done_streaming g)\<rparr>) (ensure_group p (dt_DirRel dt) d)" and
    "if closeable g then closeDeleteGroupTx p (dt_DirRel dt) (\<not> dt_NoSelfCleanup dt)
       (dt_BuildCleanup dt (dt_DirRel dt)) (dt_BuildCleanup dt) now d2 = Inr d' else d' = d2"
    by (rule total_InrD [OF assms])
  then have "groups_only d2 d'" using groups_only_close groups_only_refl by presburger
  then show ?thesis by (rule groups_only_trans [rotated]) (simp add: d2)
qed

lemma groups_only_totals:
  "record_delete_totals p now dts d = Inr d' \<Longrightarrow> groups_only d d'"
  by (induction dts arbitrary: d)
    (auto split: sum.splits dest: groups_only_total intro: groups_only_trans)

text \<open>The balance through the public operations.\<close>

lemma delete_inv_eq: "delete_inv d = dg_bal p None (t_delete_groups d)"
  by (simp add: delete_inv_def dg_bal_None [of 0 _ p])

lemma find_group:
  "List.find (dg_key p rel) (t_delete_groups d) = Some g \<Longrightarrow>
   g \<in> set (t_delete_groups d) \<and> dg_key p rel g"
  by (auto dest: find_SomeD)

lemma has_group_iff: "has_group p rel d = (\<exists>h \<in> set (t_delete_groups d). dg_key p rel h)"
  by (simp add: has_group_def)

lemma delete_inv_bump:
  assumes b: "bumpAndMaybeCloseDeleteGroupTx p rel sc cs bc now d = Inr d'" and i: "delete_inv d"
  shows "delete_inv d'" "has_group r s d \<longleftrightarrow> has_group r s d'"
proof -
  let ?d1 = "update_groups (dg_key p rel) (\<lambda>g. g\<lparr>dg_done := dg_done g + 1\<rparr>) d"
  have bal: "dg_bal p None (t_delete_groups ?d1)"
    unfolding groups_update_groups
    by (rule dg_bal_neutral) (use i in \<open>auto simp: delete_inv_eq [of _ p]\<close>)
  have k: "has_group r s ?d1 = has_group r s d" for r s
    unfolding has_group_iff groups_update_groups by (rule dg_keys_update_where) simp
  obtain g where g: "List.find (dg_key p rel) (t_delete_groups ?d1) = Some g"
    "if closeable g then closeDeleteGroupTx p rel sc cs bc now ?d1 = Inr d' else d' = ?d1"
    by (rule bump_InrD [OF b])
  have *: "delete_inv d' \<and> (\<forall>r s. has_group r s d \<longleftrightarrow> has_group r s d')"
  proof (cases "closeable g")
    case True
    then have c: "closeDeleteGroupTx p rel sc cs bc now ?d1 = Inr d'" using g(2) by simp
    note W = close_walk [OF c bal find_group [OF g(1), THEN conjunct1] find_group [OF g(1), THEN conjunct2] True]
    have "has_group r s ?d1 = has_group r s d'" for r s
      using conjunct1 [OF conjunct2 [OF conjunct2 [OF W]]] unfolding has_group_iff by blast
    then show ?thesis using conjunct1 [OF W] k by (simp add: delete_inv_eq [of _ p])
  next
    case False
    then show ?thesis using g(2) bal k by (simp add: delete_inv_eq [of _ p])
  qed
  then show "delete_inv d'" "has_group r s d \<longleftrightarrow> has_group r s d'" by blast+
qed

lemma delete_inv_deferred:
  "close_deferred p bc now drs d = Inr d' \<Longrightarrow> delete_inv d \<Longrightarrow> \<forall>dr \<in> set drs. has_group p dr d \<Longrightarrow>
   delete_inv d'"
proof (induction drs arbitrary: d)
  case (Cons dr drs)
  have "insert_group (empty_group p dr 1 True) d = d" using Cons.prems(3) by (simp add: insert_group_def)
  then obtain d1 where d1: "bumpAndMaybeCloseDeleteGroupTx p dr True (bc dr) bc now d = Inr d1"
    "close_deferred p bc now drs d1 = Inr d'"
    using Cons.prems(1) by (auto split: sum.splits)
  show ?case
    by (rule Cons.IH [OF d1(2)])
      (use delete_inv_bump [OF d1(1) Cons.prems(2)] Cons.prems(3) in auto)
qed simp

lemma delete_inv_ensure:
  "delete_inv d \<Longrightarrow> delete_inv (ensure_group p rel d)"
  using dg_bal_ensure(1) by (simp add: delete_inv_eq [of _ p])

lemma has_group_ensure: "has_group r s d \<Longrightarrow> has_group r s (ensure_group p rel d)"
proof (cases "has_group p rel d")
  case False
  assume "has_group r s d"
  then have "has_group r s (insert_group (empty_group p rel 0 False) d)"
    by (auto simp: has_group_def groups_insert_group)
  then show ?thesis using False by (simp add: ensure_group_def has_group_register)
qed (simp add: ensure_group_def)

lemma delete_inv_total:
  assumes "record_delete_total p now dt d = Inr d'" "delete_inv d"
  shows "delete_inv d'"
proof -
  let ?rel = "dt_DirRel dt"
  obtain g d2 where d2: "d2 = update_groups (dg_key p ?rel) (\<lambda>g. g\<lparr>dg_total := dg_total g + 1,
      done_streaming := (dt_LastBatch dt \<or> done_streaming g)\<rparr>) (ensure_group p ?rel d)"
    and g: "List.find (dg_key p ?rel) (t_delete_groups d2) = Some g"
    "if closeable g then closeDeleteGroupTx p ?rel (\<not> dt_NoSelfCleanup dt) (dt_BuildCleanup dt ?rel)
       (dt_BuildCleanup dt) now d2 = Inr d' else d' = d2"
    by (rule total_InrD [OF assms(1)])
  have bal: "dg_bal p None (t_delete_groups d2)"
    unfolding d2 groups_update_groups
    by (rule dg_bal_neutral) (use delete_inv_ensure [OF assms(2)] in \<open>auto simp: delete_inv_eq [of _ p]\<close>)
  show ?thesis
  proof (cases "closeable g")
    case True
    then have c: "closeDeleteGroupTx p ?rel (\<not> dt_NoSelfCleanup dt) (dt_BuildCleanup dt ?rel)
       (dt_BuildCleanup dt) now d2 = Inr d'" using g(2) by simp
    show ?thesis
      using close_walk [OF c bal find_group [OF g(1), THEN conjunct1] find_group [OF g(1), THEN conjunct2] True]
      by (simp add: delete_inv_eq [of _ p])
  next
    case False
    then show ?thesis using g bal by (simp add: delete_inv_eq [of _ p])
  qed
qed

lemma delete_inv_totals:
  "record_delete_totals p now dts d = Inr d' \<Longrightarrow> delete_inv d \<Longrightarrow> delete_inv d'"
  by (induction dts arbitrary: d) (auto split: sum.splits dest: delete_inv_total)

lemma groups_sightings [simp]: "t_delete_groups (recordLinkSightingsTx p mx now sgs d) = t_delete_groups d"
  "t_splits (recordLinkSightingsTx p mx now sgs d) = t_splits d"
  unfolding recordLinkSightingsTx_def
  by (induction sgs arbitrary: d)
    (simp_all add: record_sighting_def refresh_link_group_def insert_link_member_def ensure_link_group_def Let_def)

lemma groups_chunk_groups [simp]:
  "t_delete_groups (fold (insert_chunk_group p) gs d) = t_delete_groups d"
  "t_splits (fold (insert_chunk_group p) gs d) = t_splits d"
  "t_link_groups (fold (insert_chunk_group p) gs d) = t_link_groups d"
  "t_link_members (fold (insert_chunk_group p) gs d) = t_link_members d"
  by (induction gs arbitrary: d) (simp_all add: insert_chunk_group_def)

lemma delete_inv_RecordSplit:
  assumes "RecordSplit parent seq shards groups sightings mx dts now d = Inr (ids, d')" "delete_inv d"
  shows "delete_inv d'"
  using assms(1)
proof (cases rule: RecordSplit_cases)
  case (3 ps d1 d4)
  have "delete_inv d4"
    by (rule delete_inv_totals [OF 3(4)])
      (use assms(2) insertShardsTx_frame(7) [OF 3(3)] in \<open>simp add: delete_inv_def\<close>)
  then show ?thesis using 3(5) by (simp add: delete_inv_def)
qed (use assms(2) in auto)

lemma delete_inv_CompleteDeleteRemainder:
  assumes "CompleteDeleteRemainder i l p rel res sc cs bc drs c now d = Inr d'" "delete_inv d"
    "\<forall>dr \<in> set drs. has_group p dr d"
  shows "delete_inv d'"
proof -
  let ?d2 = "accumulatePassCounters p c (update_shards (holds_lease i l) (\<lambda>s. s\<lparr>shard_state := ShardDone,
      shard_result := (case res of None \<Rightarrow> shard_result s | Some b \<Rightarrow> Some b), shard_updated := now\<rparr>) d)"
  obtain d3 where d3: "(if rel = '''' then Inr ?d2
      else bumpAndMaybeCloseDeleteGroupTx p rel sc cs bc now (ensure_group p rel ?d2)) = Inr d3"
    and cd: "close_deferred p bc now drs d3 = Inr d'"
    using assms(1) by (simp add: CompleteDeleteRemainder_def Let_def split: if_splits sum.splits)
  have i2: "delete_inv ?d2" "\<And>dr. has_group p dr ?d2 = has_group p dr d"
    using assms(2) by (simp_all add: delete_inv_def has_group_def)
  have "delete_inv d3 \<and> (\<forall>dr. has_group p dr d \<longrightarrow> has_group p dr d3)"
  proof (cases "rel = ''''")
    case True
    then show ?thesis using d3 i2 by auto
  next
    case False
    then have b: "bumpAndMaybeCloseDeleteGroupTx p rel sc cs bc now (ensure_group p rel ?d2) = Inr d3"
      using d3 by simp
    note B = delete_inv_bump [OF b delete_inv_ensure [OF i2(1)]]
    then show ?thesis using i2(2) has_group_ensure by blast
  qed
  then show ?thesis using delete_inv_deferred [OF cd] assms(3) by blast
qed

lemma RecordSplit_splits:
  assumes "RecordSplit parent seq shards groups sightings mx dts now d = Inr (ids, d')"
    "parent \<in> shard_id ` set (t_shards d)"
  shows "\<exists>sp. find_split parent (sint seq) d' = Some sp \<and> assigned_ids sp = ids"
  using assms(1)
proof (cases rule: RecordSplit_cases)
  case (3 ps d1 d4)
  have "t_splits d4 = t_splits d"
    using groups_only_totals [OF 3(4)] insertShardsTx_frame(4) [OF 3(3)] by (simp add: groups_only_def)
  then show ?thesis using 3(1) by (auto simp: 3(5) find_split_def find_append)
qed (use assms(2) in auto)

section \<open>Hardlink registry\<close>

definition gkey :: "link_group_row \<Rightarrow> int \<times> int \<times> int" where
  "gkey g = (lg_pass g, lg_dev g, lg_ino g)"

definition mkey :: "link_member_row \<Rightarrow> int \<times> int \<times> int" where
  "mkey m = (lm_pass m, lm_dev m, lm_ino m)"

lemma key_sel [simp]:
  "gkey \<lparr>lg_pass = p, lg_dev = a, lg_ino = b, nlink_expected = n, members_seen = c, anchor_rel = r,
     anchor_size = s, anchor_mtime = t, lg_state = st, lg_updated = u\<rparr> = (p, a, b)"
  "gkey (g\<lparr>members_seen := c, lg_updated := u, lg_state := st\<rparr>) = gkey g"
  "mkey \<lparr>lm_pass = p, lm_dev = a, lm_ino = b, lm_rel = r, lm_state = ms\<rparr> = (p, a, b)"
  "mkey (m\<lparr>lm_state := ms\<rparr>) = mkey m"
  by (simp_all add: gkey_def mkey_def)

text \<open>
  Keys are unique; every member has its group, and is the anchor exactly if it is the path the
  group names; every group has that member; and the group knows how many members it has, except
  for the groups in \<open>X\<close>, which are being recounted. Device and inode numbers are stored as the
  signed reading of a 64-bit value.
\<close>

definition link_ok :: "(int \<times> int \<times> int) set \<Rightarrow> link_group_row list \<Rightarrow> link_member_row list \<Rightarrow> bool" where
  "link_ok X gs ms \<longleftrightarrow>
     distinct (map gkey gs) \<and> distinct (map (\<lambda>m. (mkey m, lm_rel m)) ms) \<and>
     (\<forall>m \<in> set ms. \<exists>g \<in> set gs. gkey g = mkey m \<and> (lm_state m = MemberAnchor \<longleftrightarrow> lm_rel m = anchor_rel g)) \<and>
     (\<forall>g \<in> set gs. \<exists>m \<in> set ms. mkey m = gkey g \<and> lm_rel m = anchor_rel g) \<and>
     (\<forall>g \<in> set gs. gkey g \<in> X \<or> members_seen g = count_where (\<lambda>m. mkey m = gkey g) ms) \<and>
     (\<forall>m \<in> set ms. sint (word_of_int (lm_dev m) :: u64) = lm_dev m \<and> sint (word_of_int (lm_ino m) :: u64) = lm_ino m)"

definition link_inv :: "db \<Rightarrow> bool" where
  "link_inv d \<longleftrightarrow> link_ok {} (t_link_groups d) (t_link_members d)"

lemma link_okD:
  assumes "link_ok X gs ms"
  shows "distinct (map gkey gs)" "distinct (map (\<lambda>m. (mkey m, lm_rel m)) ms)"
    "m \<in> set ms \<Longrightarrow> \<exists>g \<in> set gs. gkey g = mkey m \<and> (lm_state m = MemberAnchor \<longleftrightarrow> lm_rel m = anchor_rel g)"
    "g \<in> set gs \<Longrightarrow> \<exists>m \<in> set ms. mkey m = gkey g \<and> lm_rel m = anchor_rel g"
    "g \<in> set gs \<Longrightarrow> gkey g \<notin> X \<Longrightarrow> members_seen g = count_where (\<lambda>m. mkey m = gkey g) ms"
    "m \<in> set ms \<Longrightarrow> sint (word_of_int (lm_dev m) :: u64) = lm_dev m"
    "m \<in> set ms \<Longrightarrow> sint (word_of_int (lm_ino m) :: u64) = lm_ino m"
  using assms unfolding link_ok_def by blast+

lemma lg_key_iff: "lg_key p dev ino g \<longleftrightarrow> gkey g = (p, dev, ino)"
  by (simp add: lg_key_def gkey_def)

lemma lm_group_iff: "lm_group p dev ino m \<longleftrightarrow> mkey m = (p, dev, ino)"
  by (simp add: lm_group_def mkey_def)

text \<open>A member of a group that is already known: any path but the anchor's, as a pending member.\<close>

lemma link_ok_add_member:
  assumes ok: "link_ok X gs ms" and g: "g \<in> set gs" "gkey g = mkey m"
    and m: "lm_state m = MemberPending" "(mkey m, lm_rel m) \<notin> (\<lambda>m. (mkey m, lm_rel m)) ` set ms"
    and r: "sint (word_of_int (lm_dev m) :: u64) = lm_dev m" "sint (word_of_int (lm_ino m) :: u64) = lm_ino m"
  shows "link_ok (insert (mkey m) X) gs (ms @ [m])"
proof -
  obtain m1 where m1: "m1 \<in> set ms" "mkey m1 = gkey g" "lm_rel m1 = anchor_rel g"
    using link_okD(4) [OF ok g(1)] by blast
  have "lm_rel m \<noteq> anchor_rel g" using m(2) m1 g(2) by (auto simp: image_iff)
  then have "\<exists>g \<in> set gs. gkey g = mkey m \<and> (lm_state m = MemberAnchor \<longleftrightarrow> lm_rel m = anchor_rel g)"
    using g m(1) by (intro bexI [of _ g]) auto
  moreover have "gkey h \<in> insert (mkey m) X \<or> members_seen h = count_where (\<lambda>x. mkey x = gkey h) (ms @ [m])"
    if h: "h \<in> set gs" for h
    using link_okD(5) [OF ok h] by auto
  moreover have "\<exists>x \<in> set (ms @ [m]). mkey x = gkey h \<and> lm_rel x = anchor_rel h" if h: "h \<in> set gs" for h
    using link_okD(4) [OF ok h] by auto
  ultimately show ?thesis
    using ok m(2) r unfolding link_ok_def by simp
qed

text \<open>The first sighting of a group brings the group and its anchor.\<close>

lemma link_ok_add_group:
  assumes ok: "link_ok X gs ms" and new: "gkey g \<notin> gkey ` set gs"
    and m: "mkey m = gkey g" "lm_rel m = anchor_rel g" "lm_state m = MemberAnchor"
    and r: "sint (word_of_int (lm_dev m) :: u64) = lm_dev m" "sint (word_of_int (lm_ino m) :: u64) = lm_ino m"
  shows "link_ok (insert (mkey m) X) (gs @ [g]) (ms @ [m])"
proof -
  have nom: "mkey x \<noteq> gkey g" if "x \<in> set ms" for x
    using link_okD(3) [OF ok that] new by (metis image_eqI)
  then have "(mkey m, lm_rel m) \<notin> (\<lambda>m. (mkey m, lm_rel m)) ` set ms" using m(1) by fastforce
  moreover have "gkey h \<in> insert (mkey m) X \<or> members_seen h = count_where (\<lambda>x. mkey x = gkey h) (ms @ [m])"
    if h: "h \<in> set (gs @ [g])" for h
    using link_okD(5) [OF ok, of h] h m(1) by auto
  moreover have "\<exists>h \<in> set (gs @ [g]). gkey h = mkey x \<and> (lm_state x = MemberAnchor \<longleftrightarrow> lm_rel x = anchor_rel h)"
    if x: "x \<in> set (ms @ [m])" for x
    using link_okD(3) [OF ok, of x] x m by auto
  moreover have "\<exists>x \<in> set (ms @ [m]). mkey x = gkey h \<and> lm_rel x = anchor_rel h" if h: "h \<in> set (gs @ [g])" for h
    using link_okD(4) [OF ok, of h] h m by auto
  ultimately show ?thesis
    using ok new r unfolding link_ok_def by simp
qed

text \<open>Recounting settles the group.\<close>

lemma link_ok_refresh:
  assumes ok: "link_ok {k} gs ms"
    and f: "\<And>g. gkey g = k \<Longrightarrow> gkey (f g) = gkey g \<and> anchor_rel (f g) = anchor_rel g \<and>
      members_seen (f g) = count_where (\<lambda>m. mkey m = k) ms"
  shows "link_ok {} (update_where (\<lambda>g. gkey g = k) f gs) ms"
proof -
  let ?gs = "update_where (\<lambda>g. gkey g = k) f gs"
  have mp: "map gkey ?gs = map gkey gs" by (rule map_update_where) (simp add: f)
  have fwd: "\<exists>h \<in> set ?gs. gkey h = gkey g \<and> anchor_rel h = anchor_rel g" if "g \<in> set gs" for g
    using update_where_in [OF that, of "\<lambda>g. gkey g = k" f] f [of g]
    by (intro bexI [of _ "if gkey g = k then f g else g"]) auto
  have bwd: "\<exists>g \<in> set gs. gkey h = gkey g \<and> anchor_rel h = anchor_rel g \<and>
      members_seen h = (if gkey g = k then count_where (\<lambda>m. mkey m = k) ms else members_seen g)" if "h \<in> set ?gs" for h
  proof -
    obtain g where g: "g \<in> set gs" "h = (if gkey g = k then f g else g)"
      using \<open>h \<in> set ?gs\<close> unfolding in_update_where_iff by blast
    then show ?thesis using f [of g] by (intro bexI [OF _ g(1)]) (simp split: if_splits)
  qed
  have "\<exists>g \<in> set ?gs. gkey g = mkey m \<and> (lm_state m = MemberAnchor \<longleftrightarrow> lm_rel m = anchor_rel g)"
    if "m \<in> set ms" for m
    using link_okD(3) [OF ok that] fwd by metis
  moreover have "\<exists>m \<in> set ms. mkey m = gkey h \<and> lm_rel m = anchor_rel h" if "h \<in> set ?gs" for h
    using bwd [OF that] link_okD(4) [OF ok] by metis
  moreover have "members_seen h = count_where (\<lambda>m. mkey m = gkey h) ms" if "h \<in> set ?gs" for h
    using bwd [OF that] link_okD(5) [OF ok] by (metis singletonD)
  ultimately show ?thesis using ok unfolding link_ok_def mp by simp
qed

lemma link_ok_mono: "link_ok X gs ms \<Longrightarrow> X \<subseteq> Y \<Longrightarrow> link_ok Y gs ms"
  unfolding link_ok_def by blast

lemma link_inv_record_sighting:
  assumes "link_inv d"
  shows "link_inv (record_sighting p mx now sg d)"
proof -
  let ?dev = "sint (nls_Dev sg)" and ?ino = "sint (nls_Ino sg)"
  let ?k = "(p, ?dev, ?ino)"
  let ?st = "if has_link_group p ?dev ?ino d then MemberPending else MemberAnchor"
  let ?d1 = "insert_link_member p ?dev ?ino (nls_RelPath sg) ?st (ensure_link_group p now sg d)"
  have ok: "link_ok {} (t_link_groups d) (t_link_members d)" using assms by (simp add: link_inv_def)
  have hg: "has_link_group p ?dev ?ino d \<longleftrightarrow> ?k \<in> gkey ` set (t_link_groups d)"
    unfolding has_link_group_def lg_key_iff by force
  have "link_ok {?k} (t_link_groups ?d1) (t_link_members ?d1)"
  proof (cases "has_link_group p ?dev ?ino d")
    case True
    then obtain g where g: "g \<in> set (t_link_groups d)" "gkey g = ?k" using hg by (metis imageE)
    let ?m = "\<lparr>lm_pass = p, lm_dev = ?dev, lm_ino = ?ino, lm_rel = nls_RelPath sg, lm_state = MemberPending\<rparr>"
    show ?thesis
    proof (cases "\<exists>m \<in> set (t_link_members d). lm_group p ?dev ?ino m \<and> lm_rel m = nls_RelPath sg")
      case ex: True
      then show ?thesis using True link_ok_mono [OF ok]
        by (simp add: insert_link_member_def ensure_link_group_def Let_def)
    next
      case False
      then have "(mkey ?m, lm_rel ?m) \<notin> (\<lambda>m. (mkey m, lm_rel m)) ` set (t_link_members d)"
        by (auto simp: lm_group_iff)
      from link_ok_add_member [OF ok g(1) _ _ this] g(2) show ?thesis using True False
        by (simp only: insert_link_member_def ensure_link_group_def Let_def if_True if_False) simp
    qed
  next
    case False
    let ?g = "\<lparr>lg_pass = p, lg_dev = ?dev, lg_ino = ?ino, nlink_expected = nls_Nlink sg,
       members_seen = 0, anchor_rel = nls_RelPath sg, anchor_size = sint (nls_Size sg),
       anchor_mtime = nls_MtimeNs sg, lg_state = AnchorCopied, lg_updated = now\<rparr>"
    let ?m = "\<lparr>lm_pass = p, lm_dev = ?dev, lm_ino = ?ino, lm_rel = nls_RelPath sg, lm_state = MemberAnchor\<rparr>"
    have new: "gkey ?g \<notin> gkey ` set (t_link_groups d)" using False hg by simp
    have "\<not> (\<exists>m \<in> set (t_link_members d). lm_group p ?dev ?ino m \<and> lm_rel m = nls_RelPath sg)"
      using link_okD(3) [OF ok] False by (force simp: has_link_group_def lg_key_iff lm_group_iff)
    then show ?thesis using False link_ok_add_group [OF ok new, of ?m]
      by (auto simp add: insert_link_member_def ensure_link_group_def Let_def)
  qed
  note link_ok_refresh [OF this]
  then show ?thesis
    by (auto simp: link_inv_def record_sighting_def refresh_link_group_def Let_def lg_key_iff [abs_def] lm_group_iff [abs_def])
qed

lemma link_inv_recordLinkSightings: "link_inv d \<Longrightarrow> link_inv (recordLinkSightingsTx p mx now sgs d)"
  unfolding recordLinkSightingsTx_def by (induction sgs arbitrary: d) (auto intro: link_inv_record_sighting)

lemma link_inv_frame:
  "t_link_groups d' = t_link_groups d \<Longrightarrow> t_link_members d' = t_link_members d \<Longrightarrow> link_inv d' = link_inv d"
  by (simp add: link_inv_def)

lemma link_inv_RecordSplit:
  assumes "RecordSplit parent seq shards groups sightings mx dts now d = Inr (ids, d')" "link_inv d"
  shows "link_inv d'"
  using assms(1)
proof (cases rule: RecordSplit_cases)
  case (3 ps d1 d4)
  let ?d2 = "fold (insert_chunk_group (shard_pass ps)) groups d1"
  have "link_inv ?d2" using assms(2) insertShardsTx_frame(8,9) [OF 3(3)] by (simp add: link_inv_def)
  then have "link_inv (recordLinkSightingsTx (shard_pass ps) mx now sightings ?d2)"
    by (rule link_inv_recordLinkSightings)
  then show ?thesis using groups_only_totals [OF 3(4)] 3(5) by (simp add: groups_only_def link_inv_def)
qed (use assms(2) in auto)

lemma link_ok_queue_members:
  assumes ok: "link_ok X gs ms"
    and P: "\<And>m. P m \<Longrightarrow> lm_state m = MemberPending"
  shows "link_ok X gs (update_where P (\<lambda>m. m\<lparr>lm_state := MemberQueued\<rparr>) ms)"
proof -
  let ?ms = "update_where P (\<lambda>m. m\<lparr>lm_state := MemberQueued\<rparr>) ms"
  have mp: "map (\<lambda>m. (mkey m, lm_rel m)) ?ms = map (\<lambda>m. (mkey m, lm_rel m)) ms"
    by (rule map_update_where) simp
  have cnt: "count_where (\<lambda>m. mkey m = k) ?ms = count_where (\<lambda>m. mkey m = k) ms" for k
    by (rule count_where_update_where_same) simp
  have bwd: "\<exists>m \<in> set ms. mkey x = mkey m \<and> lm_rel x = lm_rel m \<and> (lm_state x = MemberAnchor \<longleftrightarrow> lm_state m = MemberAnchor)"
    if "x \<in> set ?ms" for x
  proof -
    obtain m where m: "m \<in> set ms" "x = (if P m then m\<lparr>lm_state := MemberQueued\<rparr> else m)"
      using \<open>x \<in> set ?ms\<close> unfolding in_update_where_iff by blast
    then show ?thesis using P [of m] by (intro bexI [OF _ m(1)]) auto
  qed
  have fwd: "\<exists>x \<in> set ?ms. mkey x = mkey m \<and> lm_rel x = lm_rel m" if "m \<in> set ms" for m
    using update_where_in [OF that, of P "\<lambda>m. m\<lparr>lm_state := MemberQueued\<rparr>"]
    by (intro bexI [of _ "if P m then m\<lparr>lm_state := MemberQueued\<rparr> else m"]) auto
  have "\<exists>g \<in> set gs. gkey g = mkey x \<and> (lm_state x = MemberAnchor \<longleftrightarrow> lm_rel x = anchor_rel g)"
    if x: "x \<in> set ?ms" for x
  proof -
    obtain m where m: "m \<in> set ms" "mkey x = mkey m" "lm_rel x = lm_rel m"
      "lm_state x = MemberAnchor \<longleftrightarrow> lm_state m = MemberAnchor"
      using bwd [OF x] by blast
    then show ?thesis using link_okD(3) [OF ok m(1)] by auto
  qed
  moreover have "\<exists>m \<in> set ?ms. mkey m = gkey g \<and> lm_rel m = anchor_rel g" if g: "g \<in> set gs" for g
  proof -
    obtain m where m: "m \<in> set ms" "mkey m = gkey g" "lm_rel m = anchor_rel g"
      using link_okD(4) [OF ok g] by blast
    then show ?thesis using fwd [OF m(1)] by auto
  qed
  moreover have "sint (word_of_int (lm_dev x) :: u64) = lm_dev x \<and> sint (word_of_int (lm_ino x) :: u64) = lm_ino x"
    if x: "x \<in> set ?ms" for x
  proof -
    obtain m where m: "m \<in> set ms" "mkey x = mkey m" using bwd [OF x] by blast
    then show ?thesis using link_okD(6,7) [OF ok m(1)] by (simp add: mkey_def)
  qed
  ultimately show ?thesis using ok unfolding link_ok_def mp cnt by simp
qed

lemma link_inv_Mark:
  assumes "link_inv d"
  shows "link_inv (MarkLinkMembersQueued p ks d)"
proof -
  have "link_ok X gs ms \<Longrightarrow> link_ok X gs (fold (\<lambda>k. update_where (\<lambda>m. lm_group p (sint (lmk_Dev k)) (sint (lmk_Ino k)) m \<and>
       lm_rel m = lmk_RelPath k \<and> lm_state m = MemberPending) (\<lambda>m. m\<lparr>lm_state := MemberQueued\<rparr>)) ks ms)" for X gs ms
  proof (induction ks arbitrary: ms)
    case (Cons k ks)
    show ?case unfolding fold.simps comp_def
      by (rule Cons.IH, rule link_ok_queue_members [OF Cons.prems]) blast
  qed simp
  then show ?thesis using assms by (simp add: link_inv_def MarkLinkMembersQueued_def)
qed

lemma link_ok_delete:
  assumes ok: "link_ok X gs ms"
  shows "link_ok X (delete_where (\<lambda>g. gkey g \<in> K) gs) (delete_where (\<lambda>m. mkey m \<in> K) ms)"
proof -
  let ?gs = "delete_where (\<lambda>g. gkey g \<in> K) gs" and ?ms = "delete_where (\<lambda>m. mkey m \<in> K) ms"
  have "\<exists>g \<in> set ?gs. gkey g = mkey m \<and> (lm_state m = MemberAnchor \<longleftrightarrow> lm_rel m = anchor_rel g)"
    if m: "m \<in> set ?ms" for m
    using link_okD(3) [OF ok, of m] m by auto
  moreover have "\<exists>m \<in> set ?ms. mkey m = gkey g \<and> lm_rel m = anchor_rel g" if g: "g \<in> set ?gs" for g
    using link_okD(4) [OF ok, of g] g by auto
  moreover have "gkey g \<in> X \<or> members_seen g = count_where (\<lambda>m. mkey m = gkey g) ?ms" if g: "g \<in> set ?gs" for g
  proof -
    have "count_where (\<lambda>m. mkey m = gkey g \<and> mkey m \<notin> K) ms = count_where (\<lambda>m. mkey m = gkey g) ms"
      using g by (intro count_where_cong) auto
    then show ?thesis using link_okD(5) [OF ok, of g] g by (auto simp: count_where_delete_where)
  qed
  ultimately show ?thesis
    using ok by (simp add: link_ok_def distinct_map_delete_where)
qed

lemma link_inv_ReapLinkRegistry: "link_inv d \<Longrightarrow> link_inv (snd (ReapLinkRegistry p d))"
proof -
  assume i: "link_inv d"
  let ?keys = "set (map (\<lambda>g. (lg_dev g, lg_ino g))
     (take LinkRegistryReapBatchSize (filter (\<lambda>g. lg_pass g = p) (t_link_groups d))))"
  let ?K = "{k. fst k = p \<and> snd k \<in> ?keys}"
  have "link_ok {} (delete_where (\<lambda>g. gkey g \<in> ?K) (t_link_groups d)) (delete_where (\<lambda>m. mkey m \<in> ?K) (t_link_members d))"
    using i by (intro link_ok_delete) (simp add: link_inv_def)
  then show ?thesis by (simp add: link_inv_def ReapLinkRegistry_def Let_def gkey_def mkey_def)
qed

lemma link_inv_delete_job_rows: "link_inv d \<Longrightarrow> link_inv (delete_job_rows i d)"
proof -
  assume l: "link_inv d"
  let ?K = "{k. fst k \<in> passes_of i d}"
  have "link_ok {} (delete_where (\<lambda>g. gkey g \<in> ?K) (t_link_groups d)) (delete_where (\<lambda>m. mkey m \<in> ?K) (t_link_members d))"
    using l by (intro link_ok_delete) (simp add: link_inv_def)
  then show ?thesis by (simp add: link_inv_def delete_job_rows_def Let_def gkey_def mkey_def)
qed

lemma PendingLinkMembers_in:
  assumes "x \<in> set (PendingLinkMembers p d)"
  obtains m g where "m \<in> set (t_link_members d)" "lm_pass m = p" "lm_state m = MemberPending"
    "g \<in> set (t_link_groups d)" "gkey g = mkey m" "lg_state g = AnchorCopied"
    "lkm_RelPath x = lm_rel m" "lkm_AnchorRelPath x = anchor_rel g"
    "lkm_Dev x = word_of_int (lm_dev m)" "lkm_Ino x = word_of_int (lm_ino m)"
  using assms that unfolding PendingLinkMembers_def by (fastforce simp: lg_key_def gkey_def mkey_def)

text \<open>Marking keeps members and clears those it names.\<close>

lemma Mark_fold:
  fixes p :: int
  defines "u \<equiv> (\<lambda>k. update_where (\<lambda>m. lm_group p (sint (lmk_Dev k)) (sint (lmk_Ino k)) m \<and>
      lm_rel m = lmk_RelPath k \<and> lm_state m = MemberPending) (\<lambda>m. m\<lparr>lm_state := MemberQueued\<rparr>))"
  assumes "m \<in> set (fold u ks ms)" "lm_state m = MemberPending"
  shows "m \<in> set ms \<and> (\<forall>k \<in> set ks. \<not> (lm_group p (sint (lmk_Dev k)) (sint (lmk_Ino k)) m \<and> lm_rel m = lmk_RelPath k))"
  using assms(2)
proof (induction ks arbitrary: ms)
  case (Cons k ks)
  have mu: "m \<in> set (u k ms)" and
    r: "\<forall>k \<in> set ks. \<not> (lm_group p (sint (lmk_Dev k)) (sint (lmk_Ino k)) m \<and> lm_rel m = lmk_RelPath k)"
    using Cons.IH [of "u k ms"] Cons.prems by simp_all
  let ?P = "\<lambda>m. lm_group p (sint (lmk_Dev k)) (sint (lmk_Ino k)) m \<and> lm_rel m = lmk_RelPath k \<and> lm_state m = MemberPending"
  obtain x where x: "x \<in> set ms" "m = (if ?P x then x\<lparr>lm_state := MemberQueued\<rparr> else x)"
    using mu unfolding u_def in_update_where_iff by blast
  have "\<not> ?P x" using x(2) assms(3) by (cases "?P x") auto
  then show ?case using r x assms(3) by auto
qed simp

section \<open>Concrete groups\<close>

definition sample_chunk :: NewShard where
  "sample_chunk = \<lparr>ns_Kind = KindChunk, ns_RelPath = ''c'', ns_Payload = [], ns_TargetAgent = ''''\<rparr>"

text \<open>A file in two chunks, both leased.\<close>

definition sample_chunks :: db where
  "sample_chunks = (case InsertShards 1 0 0 [sample_chunk, sample_chunk] sample_base of
     Inl _ \<Rightarrow> sample_base
   | Inr (ids, d) \<Rightarrow> snd (LeaseShards int ''a'' 2 10 100 (insert_chunk_group 1
       \<lparr>ncg_RelPath = ''c'', ncg_TempName = ''t'', ncg_Size = 9, ncg_MtimeNs = 0, ncg_NChunks = 2\<rparr> d)))"

text \<open>A directory shard in an agent's hands.\<close>

definition sample_held :: db where
  "sample_held = sample_base\<lparr>t_shards := [\<lparr>shard_id = 1, shard_pass = 1, shard_parent = None, shard_kind = KindDir,
     shard_rel = ''a'', shard_payload = [], shard_priority = 0, shard_state = ShardLeased, shard_attempt = 1,
     lease_id = Some 9, lease_agent = Some ''a'', lease_expiry = Some 110, shard_result = None, shard_error = None,
     target_agent = None, shard_updated = 100\<rparr>], t_counts := [((1, KindDir, ShardLeased), 1)], seq_shards := 1\<rparr>"

lemma store_inv_sample_held: "store_inv sample_held"
  by (auto simp: store_inv_def jobs_inv_def queue_inv_def sample_held_def sample_base_def empty_db_def sample_job_def
      sample_pass_def rollup_ok_def counts_exact_def el_cap_def el_lease_def row_ok_def maxEntrylistPerAgent_def
      count_key_of_def count_of_def)

text \<open>A nested directory handed off while its parent is being emptied: two open groups.\<close>

definition sample_cleanup :: "path \<Rightarrow> NewShard" where
  "sample_cleanup rel = \<lparr>ns_Kind = KindDelete, ns_RelPath = rel, ns_Payload = [], ns_TargetAgent = ''''\<rparr>"

definition sample_total :: "path \<Rightarrow> DeleteGroupTotal" where
  "sample_total rel = \<lparr>dt_DirRel = rel, dt_LastBatch = True, dt_NoSelfCleanup = False, dt_BuildCleanup = sample_cleanup\<rparr>"

definition sample_split :: "store_error + int list \<times> db" where
  "sample_split = RecordSplit 1 7 [sample_chunk] []
     [\<lparr>nls_Dev = 1, nls_Ino = 2, nls_RelPath = ''a/x'', nls_Nlink = 2, nls_Size = 5, nls_MtimeNs = 0\<rparr>,
      \<lparr>nls_Dev = 1, nls_Ino = 2, nls_RelPath = ''a/y'', nls_Nlink = 2, nls_Size = 5, nls_MtimeNs = 0\<rparr>]
     0 [sample_total ''a/b''] 50 sample_held"

definition sample_groups :: db where
  "sample_groups = sample_held\<lparr>
    t_shards := t_shards sample_held @ [new_shard_row 2 1 1 50 sample_chunk],
    t_counts := [((1, KindDir, ShardLeased), 1), ((1, KindChunk, ShardQueued), 1)],
    t_splits := [\<lparr>split_parent = 1, split_seq = 7, assigned_ids = [2]\<rparr>],
    t_delete_groups :=
      [\<lparr>dg_pass = 1, dg_rel = ''a/b'', dg_total = 1, dg_done = 0,
          done_streaming = True, pending_children = 0, dg_closed = False\<rparr>,
       \<lparr>dg_pass = 1, dg_rel = ''a'', dg_total = 1, dg_done = 0,
          done_streaming = True, pending_children = 1, dg_closed = False\<rparr>],
    t_link_groups :=
      [\<lparr>lg_pass = 1, lg_dev = 1, lg_ino = 2, nlink_expected = 2,
          members_seen = 2, anchor_rel = ''a/x'', anchor_size = 5,
          anchor_mtime = 0, lg_state = AnchorCopied, lg_updated = 50\<rparr>],
    t_link_members :=
      [\<lparr>lm_pass = 1, lm_dev = 1, lm_ino = 2, lm_rel = ''a/x'', lm_state = MemberAnchor\<rparr>,
       \<lparr>lm_pass = 1, lm_dev = 1, lm_ino = 2, lm_rel = ''a/y'', lm_state = MemberPending\<rparr>],
    seq_shards := 2\<rparr>"

lemma inv_sample_held: "delete_inv sample_held" "link_inv sample_held"
proof -
  have "t_delete_groups sample_held = []" "t_link_groups sample_held = []" "t_link_members sample_held = []"
    by code_simp+
  then show "delete_inv sample_held" "link_inv sample_held"
    by (simp_all add: delete_inv_def dg_bal_def link_inv_def link_ok_def)
qed

lemma Inr_of_list:
  "(case x of Inl _ \<Rightarrow> [] | Inr d \<Rightarrow> f d) = i # is \<Longrightarrow> \<exists>d. x = Inr d \<and> f d = i # is"
  by (cases x) auto

lemma row_of_map: "map f rs = x # xs \<Longrightarrow> \<exists>r \<in> set rs. f r = x"
  by (cases rs) auto

lemma sample_split_Inr: "sample_split = Inr ([2], sample_groups)"
  by code_simp

lemma inv_sample_groups: "delete_inv sample_groups" "link_inv sample_groups" "store_inv sample_groups"
  by (rule delete_inv_RecordSplit [OF sample_split_Inr [unfolded sample_split_def] inv_sample_held(1)]
      link_inv_RecordSplit [OF sample_split_Inr [unfolded sample_split_def] inv_sample_held(2)]
      store_inv_RecordSplit [OF sample_split_Inr [unfolded sample_split_def] store_inv_sample_held])+

section \<open>Properties\<close>

text \<open>
  (C15) A large file is finalised exactly once, and by its last chunk: when the results of all
  \<open>n_chunks\<close> chunks of a fresh group land, in any order, every one but the last seeds nothing, the
  last seeds the finalize shard, and that is the only row the whole run adds to the queue.
\<close>

theorem finalize_seeded_once:
  assumes "complete_chunks p rel finalizeShard now results d = Inr (seeded, d')"
    and "group_of p rel d = Some g" "cg_state g = ChunkCopying" "n_done g = 0"
    and "n_chunks g = int (length results)" "results \<noteq> []"
  shows "seeded = replicate (length results - 1) False @ [True] \<and>
    length (t_shards d') = length (t_shards d) + 1 \<and>
    (\<exists>i. last (t_shards d') = new_shard_row i p 0 now finalizeShard)"
  using complete_chunks_flags [OF assms(1-3)] assms(4-6) by simp

theorem finalize_seeded_once_witness:
  "(case complete_chunks 1 ''c'' sample_chunk 105 [(2, 1, None), (1, 0, None)] sample_chunks of
      Inl _ \<Rightarrow> False | Inr (seeded, d') \<Rightarrow> seeded = [False, True] \<and> length (t_shards d') = 3)"
proof -
  let ?run = "complete_chunks 1 ''c'' sample_chunk 105 [(2, 1, None), (1, 0, None)] sample_chunks"
  have "\<not> isl ?run" by code_simp
  then obtain seeded d' where r: "?run = Inr (seeded, d')" by (metis isl_def old.prod.exhaust sum.exhaust_sel)
  have "map_option (\<lambda>g. (cg_state g, n_done g, n_chunks g)) (group_of 1 ''c'' sample_chunks) = Some (ChunkCopying, 0, 2)"
    by code_simp
  then obtain g where g: "group_of 1 ''c'' sample_chunks = Some g" "cg_state g = ChunkCopying" "n_done g = 0" "n_chunks g = 2"
    by auto
  have "length (t_shards sample_chunks) = 2" by code_simp
  with finalize_seeded_once [OF r g(1-3)] g(4) r show ?thesis by simp
qed



text \<open>
  No directory is cleaned up under a nested group: when a completed shard closes groups, on
  its own directory and up the chain of parents, every group that went from open to closed has no
  open nested group left, no new group appears, and no closed group reopens.
\<close>

theorem delete_group_closes_empty:
  assumes "bumpAndMaybeCloseDeleteGroupTx p rel seed cleanup build now d = Inr d'" "delete_inv d"
    and "g \<in> set (t_delete_groups d)" "\<not> dg_closed g"
    and "h \<in> set (t_delete_groups d')" "dg_key (dg_pass g) (dg_rel g) h" "dg_closed h"
  shows "open_kids (dg_pass g) (dg_rel g) (t_delete_groups d') = 0"
proof -
  let ?d1 = "update_groups (dg_key p rel) (\<lambda>g. g\<lparr>dg_done := dg_done g + 1\<rparr>) d"
  have bal: "dg_bal p None (t_delete_groups ?d1)"
    unfolding groups_update_groups
    by (rule dg_bal_neutral) (use assms(2) in \<open>auto simp: delete_inv_eq [of _ p]\<close>)
  have op: "\<exists>x \<in> set (t_delete_groups ?d1). dg_open (dg_pass g) (dg_rel g) x"
    unfolding groups_update_groups
    using update_where_in [OF assms(3), of "dg_key p rel" "\<lambda>g. g\<lparr>dg_done := dg_done g + 1\<rparr>"] assms(4)
    by (intro bexI [where x = "if dg_key p rel g then g\<lparr>dg_done := dg_done g + 1\<rparr> else g"])
      (auto simp: dg_open_def dg_key_def)
  obtain g1 where g1: "List.find (dg_key p rel) (t_delete_groups ?d1) = Some g1"
    "if closeable g1 then closeDeleteGroupTx p rel seed cleanup build now ?d1 = Inr d' else d' = ?d1"
    by (rule bump_InrD [OF assms(1)])
  have no: "\<not> (\<exists>x \<in> set rs. dg_open (dg_pass g) (dg_rel g) x)"
    if "distinct (map (\<lambda>g. (dg_pass g, dg_rel g)) rs)" "h \<in> set rs" for rs
    using key_unique [OF that, of _] assms(6,7) by (fastforce simp: dg_open_def dg_key_def)
  show ?thesis
  proof (cases "closeable g1")
    case True
    then have c: "closeDeleteGroupTx p rel seed cleanup build now ?d1 = Inr d'" using g1(2) by simp
    note W = close_walk [OF c bal find_group [OF g1(1), THEN conjunct1] find_group [OF g1(1), THEN conjunct2] True]
    have "\<not> (\<exists>x \<in> set (t_delete_groups d'). dg_open (dg_pass g) (dg_rel g) x)"
      using no [OF dg_balD(1) [OF conjunct1 [OF W]] assms(5)] .
    then show ?thesis using conjunct2 [OF conjunct2 [OF conjunct2 [OF W]]] op by blast
  next
    case False
    then have "d' = ?d1" using g1(2) by simp
    then show ?thesis using no [OF dg_balD(1) [OF bal]] op assms(5) by auto
  qed
qed

definition sample_closing :: "store_error + db" where
  "sample_closing = bumpAndMaybeCloseDeleteGroupTx 1 ''a/b'' True (sample_cleanup ''a/b'') sample_cleanup 60 sample_groups"

theorem delete_group_closes_empty_witness:
  "\<exists>d'. sample_closing = Inr d' \<and> open_kids 1 ''a/b'' (t_delete_groups d') = 0 \<and>
     map (\<lambda>g. (dg_rel g, dg_closed g)) (t_delete_groups d') = [(''a/b'', True), (''a'', False)]"
proof -
  have "(case sample_closing of Inl _ \<Rightarrow> [] | Inr d \<Rightarrow> map (\<lambda>g. (dg_rel g, dg_closed g)) (t_delete_groups d)) =
      [(''a/b'', True), (''a'', False)]" by code_simp
  from Inr_of_list [OF this] obtain d' where d': "sample_closing = Inr d'"
    and m: "map (\<lambda>g. (dg_rel g, dg_closed g)) (t_delete_groups d') = [(''a/b'', True), (''a'', False)]"
    by (elim exE conjE)
  have "map (\<lambda>g. (dg_pass g, dg_rel g, dg_closed g)) (t_delete_groups sample_groups) = [(1, ''a/b'', False), (1, ''a'', False)]"
    by code_simp
  from row_of_map [OF this] obtain g where gs: "g \<in> set (t_delete_groups sample_groups)"
    "(dg_pass g, dg_rel g, dg_closed g) = (1, ''a/b'', False)" by (elim bexE)
  then have g: "g \<in> set (t_delete_groups sample_groups)" "dg_pass g = 1" "dg_rel g = ''a/b''" "\<not> dg_closed g"
    by simp_all
  have "(case sample_closing of Inl _ \<Rightarrow> [] | Inr d \<Rightarrow> map (\<lambda>g. (dg_pass g, dg_rel g, dg_closed g)) (t_delete_groups d)) =
      [(1, ''a/b'', True), (1, ''a'', False)]" by code_simp
  then have "map (\<lambda>g. (dg_pass g, dg_rel g, dg_closed g)) (t_delete_groups d') = [(1, ''a/b'', True), (1, ''a'', False)]"
    by (simp only: d' sum.case)
  from row_of_map [OF this] obtain h where hs: "h \<in> set (t_delete_groups d')"
    "(dg_pass h, dg_rel h, dg_closed h) = (1, ''a/b'', True)" by (elim bexE)
  then have h: "h \<in> set (t_delete_groups d')" "dg_pass h = 1" "dg_rel h = ''a/b''" "dg_closed h" by simp_all
  have "dg_key (dg_pass g) (dg_rel g) h" using g h by (simp add: dg_key_def)
  from delete_group_closes_empty [OF d' [unfolded sample_closing_def] inv_sample_groups(1) g(1,4) h(1) this h(4)]
  have "open_kids 1 ''a/b'' (t_delete_groups d') = 0" by (simp only: g(2,3))
  with d' m show ?thesis by (intro exI [of _ d'] conjI)
qed

text \<open>
  A hardlink task never links a file to itself and only ever links to a copied anchor: the
  registry keeps, through every split, exactly one anchor per group, and the members it lists for
  linking differ from the anchor path they carry and belong to a group that has not fallen back.
\<close>

theorem link_tasks_sound:
  assumes "RecordSplit parent seq shards groups sightings mx totals now d = Inr (ids, d')" "link_inv d"
  shows "link_inv d' \<and> (\<forall>x \<in> set (PendingLinkMembers p d'). lkm_RelPath x \<noteq> lkm_AnchorRelPath x \<and>
    (\<exists>g \<in> set (t_link_groups d'). lg_pass g = p \<and> anchor_rel g = lkm_AnchorRelPath x \<and> lg_state g = AnchorCopied))"
proof -
  have l: "link_inv d'" by (rule link_inv_RecordSplit [OF assms])
  then have ok: "link_ok {} (t_link_groups d') (t_link_members d')" by (simp add: link_inv_def)
  have "lkm_RelPath x \<noteq> lkm_AnchorRelPath x \<and>
    (\<exists>g \<in> set (t_link_groups d'). lg_pass g = p \<and> anchor_rel g = lkm_AnchorRelPath x \<and> lg_state g = AnchorCopied)"
    if x: "x \<in> set (PendingLinkMembers p d')" for x
    using x
  proof (rule PendingLinkMembers_in)
    fix m g
    assume m: "m \<in> set (t_link_members d')" "lm_pass m = p" "lm_state m = MemberPending"
      and g: "g \<in> set (t_link_groups d')" "gkey g = mkey m" "lg_state g = AnchorCopied"
      and e: "lkm_RelPath x = lm_rel m" "lkm_AnchorRelPath x = anchor_rel g"
    obtain g' where g': "g' \<in> set (t_link_groups d')" "gkey g' = mkey m"
      "lm_state m = MemberAnchor \<longleftrightarrow> lm_rel m = anchor_rel g'"
      using link_okD(3) [OF ok m(1)] by blast
    have "g' = g" using key_unique [OF link_okD(1) [OF ok] g'(1) g(1)] g'(2) g(2) by simp
    then have "lm_rel m \<noteq> anchor_rel g" using g'(3) m(3) by simp
    moreover have "lg_pass g = p" using g(2) m(2) by (simp add: gkey_def mkey_def)
    ultimately show ?thesis using e g by auto
  qed
  then show ?thesis using l by blast
qed

theorem link_tasks_sound_witness:
  "link_inv sample_held \<and> map (\<lambda>x. (lkm_RelPath x, lkm_AnchorRelPath x)) (PendingLinkMembers 1 sample_groups) = [(''a/y'', ''a/x'')] \<and>
   lkm_RelPath (hd (PendingLinkMembers 1 sample_groups)) \<noteq> lkm_AnchorRelPath (hd (PendingLinkMembers 1 sample_groups))"
proof -
  have m: "map (\<lambda>x. (lkm_RelPath x, lkm_AnchorRelPath x)) (PendingLinkMembers 1 sample_groups) = [(''a/y'', ''a/x'')]"
    by code_simp
  have "PendingLinkMembers 1 sample_groups \<noteq> []" by code_simp
  then have "hd (PendingLinkMembers 1 sample_groups) \<in> set (PendingLinkMembers 1 sample_groups)" by (rule list.set_sel(1))
  then show ?thesis
    using link_tasks_sound [OF sample_split_Inr [unfolded sample_split_def] inv_sample_held(2), of 1]
      inv_sample_held(2) m by blast
qed

text \<open>
  Members are queued for linking at most once: after \<open>MarkLinkMembersQueued\<close> has been given
  every pending member, there is nothing left for a second seeding.
\<close>

theorem link_members_queued_once:
  assumes "link_inv d"
  shows "PendingLinkMembers p (MarkLinkMembersQueued p
     (map (\<lambda>x. \<lparr>lmk_Dev = lkm_Dev x, lmk_Ino = lkm_Ino x, lmk_RelPath = lkm_RelPath x\<rparr>) (PendingLinkMembers p d)) d) = []"
    (is "PendingLinkMembers p (MarkLinkMembersQueued p ?ks d) = []")
proof (rule ccontr)
  assume "PendingLinkMembers p (MarkLinkMembersQueued p ?ks d) \<noteq> []"
  then obtain x where "x \<in> set (PendingLinkMembers p (MarkLinkMembersQueued p ?ks d))" by (meson last_in_set)
  then show False
  proof (rule PendingLinkMembers_in)
    fix m g
    assume m: "m \<in> set (t_link_members (MarkLinkMembersQueued p ?ks d))" "lm_pass m = p" "lm_state m = MemberPending"
      and g: "g \<in> set (t_link_groups (MarkLinkMembersQueued p ?ks d))" "gkey g = mkey m" "lg_state g = AnchorCopied"
    have mm: "m \<in> set (t_link_members d)" and
      no: "\<forall>k \<in> set ?ks. \<not> (lm_group p (sint (lmk_Dev k)) (sint (lmk_Ino k)) m \<and> lm_rel m = lmk_RelPath k)"
      using Mark_fold [OF m(1) [unfolded MarkLinkMembersQueued_def, simplified] m(3)] by blast+
    have g': "g \<in> set (t_link_groups d)" using g(1) by (simp add: MarkLinkMembersQueued_def)
    let ?x = "\<lparr>lkm_Dev = word_of_int (lm_dev m), lkm_Ino = word_of_int (lm_ino m), lkm_RelPath = lm_rel m,
      lkm_AnchorRelPath = anchor_rel g, lkm_AnchorSize = word_of_int (anchor_size g), lkm_AnchorMtimeNs = anchor_mtime g\<rparr>"
    have "lg_key (lm_pass m) (lm_dev m) (lm_ino m) g" using g(2) by (simp add: lg_key_iff mkey_def)
    then have "?x \<in> set (PendingLinkMembers p d)"
      using mm m(2,3) g' g(3) unfolding PendingLinkMembers_def by (auto intro!: bexI [of _ m] image_eqI [of _ _ g])
    then have "\<lparr>lmk_Dev = lkm_Dev ?x, lmk_Ino = lkm_Ino ?x, lmk_RelPath = lkm_RelPath ?x\<rparr> \<in> set ?ks"
      by (metis (no_types, lifting) image_eqI list.set_map)
    moreover have "sint (word_of_int (lm_dev m) :: u64) = lm_dev m" "sint (word_of_int (lm_ino m) :: u64) = lm_ino m"
      using link_okD(6,7) assms mm unfolding link_inv_def by blast+
    ultimately show False using no m(2) by (auto simp: lm_group_def)
  qed
qed

theorem link_members_queued_once_witness:
  "link_inv sample_groups \<and> PendingLinkMembers 1 sample_groups \<noteq> [] \<and>
   PendingLinkMembers 1 (MarkLinkMembersQueued 1
     (map (\<lambda>x. \<lparr>lmk_Dev = lkm_Dev x, lmk_Ino = lkm_Ino x, lmk_RelPath = lkm_RelPath x\<rparr>) (PendingLinkMembers 1 sample_groups)) sample_groups) = []"
proof -
  have "PendingLinkMembers 1 sample_groups \<noteq> []" by code_simp
  then show ?thesis using link_members_queued_once [OF inv_sample_groups(2), of 1] inv_sample_groups(2) by blast
qed

text \<open>
  A retransmitted split is answered with the ids of the first and changes nothing, whatever
  the second copy carries.
\<close>

theorem RecordSplit_idempotent:
  assumes "RecordSplit parent seq shards groups sightings mx totals now d = Inr (ids, d')"
    and "parent \<in> shard_id ` set (t_shards d)"
  shows "RecordSplit parent seq shards' groups' sightings' mx' totals' now' d' = Inr (ids, d')"
  using RecordSplit_splits [OF assms] by (auto simp: RecordSplit_def)

theorem RecordSplit_idempotent_witness:
  "sample_split = Inr ([2], sample_groups) \<and>
   RecordSplit 1 7 [] [] [] 0 [] 99 sample_groups = Inr ([2], sample_groups)"
proof -
  have "1 \<in> shard_id ` set (t_shards sample_held)" by code_simp
  from RecordSplit_idempotent [OF sample_split_Inr [unfolded sample_split_def] this] sample_split_Inr
  show ?thesis by blast
qed

end
