(* ===== verification/Store_Machine.thy ===== *)
theory Store_Machine
  imports Store_Groups
begin

text \<open>
  The store (\<open>coordinator/internal/store/store.go\<close>) as a transition system.

  Every method of the store runs under one write lock and commits one transaction, so a run of the
  coordinator is, for the database, a sequence of these transactions in some order. \<open>store_step\<close> has
  one rule per method that writes; \<open>db_inv\<close> is the invariant of the job, pass, shard, rollup and
  hardlink tables, and the interpretation of \<open>invariant_system\<close> discharges it for every rule.
\<close>

section \<open>Operations that only touch other tables\<close>

definition db_inv :: "db \<Rightarrow> bool" where
  "db_inv d \<longleftrightarrow> store_inv d \<and> link_inv d"

lemma db_invI: "store_inv d \<Longrightarrow> link_inv d \<Longrightarrow> db_inv d"
  by (simp add: db_inv_def)

lemma db_invD: "db_inv d \<Longrightarrow> store_inv d" "db_inv d \<Longrightarrow> link_inv d" "db_inv d \<Longrightarrow> jobs_inv d" "db_inv d \<Longrightarrow> queue_inv d"
  by (simp_all add: db_inv_def store_inv_def)

text \<open>The registry tables as one column, to say that an operation leaves them alone.\<close>

definition links :: "db \<Rightarrow> link_group_row list \<times> link_member_row list" where
  "links d = (t_link_groups d, t_link_members d)"

lemma link_inv_links: "links d' = links d \<Longrightarrow> link_inv d' = link_inv d"
  by (simp add: links_def link_inv_def)

lemma links_ops [simp]:
  "links (insert_shard r d) = links d" "links (update_shards P f d) = links d" "links (delete_shards P d) = links d"
  "links (SetJobState i js now d) = links d" "links (SetPassState i ps now d) = links d"
  "links (accumulatePassCounters i c d) = links d" "links (set_chunk_state p rel cs d) = links d"
  "links (d\<lparr>t_jobs := tj\<rparr>) = links d" "links (d\<lparr>t_passes := tp\<rparr>) = links d" "links (d\<lparr>t_agents := ta\<rparr>) = links d"
  "links (d\<lparr>t_splits := ts\<rparr>) = links d" "links (d\<lparr>t_cursors := tc\<rparr>) = links d"
  "links (d\<lparr>t_chunk_groups := tg\<rparr>) = links d" "links (d\<lparr>t_journal_counts := tj'\<rparr>) = links d"
  "links (d\<lparr>t_delete_groups := dg\<rparr>) = links d"
  by (simp_all add: links_def insert_shard_def update_shards_def delete_shards_def SetJobState_def SetPassState_def
      accumulatePassCounters_def set_chunk_state_def split: option.splits)

lemma links_groups_only: "groups_only d d' \<Longrightarrow> links d' = links d"
  by (simp add: groups_only_def links_def)

lemma links_group_ops [simp]:
  "links (insert_group g d) = links d" "links (ensure_group p rel d) = links d" "links (update_groups P f d) = links d"
  by (rule links_groups_only; simp)+

lemma links_insertShardsTx: "insertShardsTx p par now nss d = Inr (ids, d') \<Longrightarrow> links d' = links d"
  by (simp add: links_def insertShardsTx_frame)

lemma links_insertShardsTx_sel:
  "insertShardsTx p par now nss d = Inr r \<Longrightarrow> links (snd r) = links d"
  by (cases r) (simp add: links_insertShardsTx)

lemma store_invI: "jobs_inv d \<Longrightarrow> queue_inv d \<Longrightarrow> store_inv d"
  by (simp add: store_inv_def)

section \<open>Every operation keeps the invariant\<close>

lemma db_inv_frame:
  "db_inv d \<Longrightarrow> t_jobs d' = t_jobs d \<Longrightarrow> t_passes d' = t_passes d \<Longrightarrow> t_shards d' = t_shards d \<Longrightarrow>
   t_counts d' = t_counts d \<Longrightarrow> links d' = links d \<Longrightarrow> seq_jobs d' = seq_jobs d \<Longrightarrow>
   seq_passes d' = seq_passes d \<Longrightarrow> seq_shards d' = seq_shards d \<Longrightarrow> db_inv d'"
  by (intro db_invI store_invI) (auto dest: db_invD link_inv_links intro: jobs_inv_frame queue_inv_frame)

lemma db_inv_queue:
  "db_inv d \<Longrightarrow> queue_inv d' \<Longrightarrow> jobs_inv d' \<Longrightarrow> links d' = links d \<Longrightarrow> db_inv d'"
  by (intro db_invI store_invI) (auto dest: db_invD link_inv_links)

lemma db_inv_CreateJob:
  assumes "CreateJob yaml name spec dry user now d = Inr (j, d')" "db_inv d"
  shows "db_inv d'"
proof (rule db_inv_queue [OF assms(2)])
  show "queue_inv d'" "links d' = links d"
    using assms db_invD(4) [OF assms(2)]
    by (auto simp: CreateJob_def Let_def links_def split: sum.splits option.splits if_splits intro: queue_inv_frame)
  show "jobs_inv d'" by (rule jobs_inv_CreateJob [OF assms(1) db_invD(3) [OF assms(2)]])
qed

lemma db_inv_CreatePass:
  assumes "CreatePass jobID n st now d = Inr (p, d')" "db_inv d"
  shows "db_inv d'"
proof (rule db_inv_queue [OF assms(2)])
  show "queue_inv d'" "links d' = links d"
    using assms db_invD(4) [OF assms(2)]
    by (auto simp: CreatePass_def Let_def links_def split: if_splits intro: queue_inv_frame)
  show "jobs_inv d'" by (rule jobs_inv_CreatePass [OF assms(1) db_invD(3) [OF assms(2)]])
qed

lemma db_inv_InsertShards:
  assumes "InsertShards p par now nss d = Inr (ids, d')" "db_inv d"
  shows "db_inv d'"
proof (rule db_invI)
  note i = assms(1) [unfolded InsertShards_def]
  show "store_inv d'" by (rule store_inv_insertShardsTx [OF i db_invD(1) [OF assms(2)]])
  show "link_inv d'" using link_inv_links [OF links_insertShardsTx [OF i]] db_invD(2) [OF assms(2)] by simp
qed

lemma db_inv_state_ops:
  assumes "db_inv d"
  shows "db_inv (SetJobState i js now d)" "db_inv (SetPassState i ps now d)" "db_inv (accumulatePassCounters i c d)"
  using db_invD(3,4) [OF assms] by (auto intro!: db_inv_queue [OF assms] wf_intros)

lemma db_inv_LeaseShards:
  assumes "db_inv d"
  shows "db_inv (snd (LeaseShards nl a n ttl now d))"
proof -
  obtain out d' where e: "LeaseShards nl a n ttl now d = (out, d')" by force
  have "links d' = links d"
    using e by (cases rule: LeaseShards_cases) (auto simp: links_def dest: grant_rows_frame)
  then show ?thesis
    using store_inv_LeaseShards [OF e db_invD(1) [OF assms]] link_inv_links [of d' d] db_invD(2) [OF assms] e
    by (simp add: db_invI)
qed

lemma db_inv_shardTransition:
  assumes "shardTransition i l to res err p c now d = Inr d'" "to \<noteq> ShardLeased" "db_inv d"
  shows "db_inv d'"
proof (rule db_inv_queue [OF assms(3)])
  show "queue_inv d'" "jobs_inv d'"
    using queue_inv_shardTransition [OF assms(1,2)] jobs_inv_shardTransition [OF assms(1)] db_invD(3,4) [OF assms(3)] by blast+
  show "links d' = links d" unfolding shardTransition_InrD(2) [OF assms(1)] by simp
qed

lemma db_inv_lease_ops:
  assumes "db_inv d"
  shows "db_inv (snd (RenewLeasesByID a ls ttl now d))" "db_inv (snd (ExpireLeases ms now d))"
    "db_inv (snd (ReapDoneShards p ks d))" "db_inv (snd (PruneStaleProbes p d))"
    "db_inv (snd (RetryParkedByJob name now d))" "db_inv (snd (DropParkedByJob name d))"
proof -
  note J = db_invD(3) [OF assms] and Q = db_invD(4) [OF assms]
  show "db_inv (snd (RenewLeasesByID a ls ttl now d))"
    by (rule db_inv_queue [OF assms queue_inv_Renew [OF Q]]) (use J in \<open>simp_all add: RenewLeasesByID_def Let_def\<close>)
  show "db_inv (snd (ExpireLeases ms now d))"
    by (rule db_inv_queue [OF assms queue_inv_ExpireLeases [OF Q]]) (use J in \<open>simp_all add: ExpireLeases_def Let_def\<close>)
  show "db_inv (snd (ReapDoneShards p ks d))"
    by (rule db_inv_queue [OF assms queue_inv_Reap [OF Q] jobs_inv_Reap [OF J]]) (simp add: ReapDoneShards_def Let_def)
  show "db_inv (snd (PruneStaleProbes p d))"
    by (rule db_inv_queue [OF assms]) (use J Q in \<open>auto simp: PruneStaleProbes_def Let_def intro: wf_intros\<close>)
  show "db_inv (snd (RetryParkedByJob name now d))"
    by (rule db_inv_queue [OF assms queue_inv_parked_ops(2) [OF Q]]) (use J in \<open>simp_all add: RetryParkedByJob_def Let_def\<close>)
  show "db_inv (snd (DropParkedByJob name d))"
    by (rule db_inv_queue [OF assms queue_inv_parked_ops(4) [OF Q]]) (use J in \<open>simp_all add: DropParkedByJob_def Let_def\<close>)
qed

lemma db_inv_parked_shard:
  "RetryParkedShard i now d = Inr d' \<Longrightarrow> db_inv d \<Longrightarrow> db_inv d'"
  "DropParkedShard i d = Inr d' \<Longrightarrow> db_inv d \<Longrightarrow> db_inv d'"
proof -
  show "db_inv d'" if "RetryParkedShard i now d = Inr d'" "db_inv d"
    using that db_invD(3) [OF that(2)] queue_inv_parked_ops(1) [OF that(1) db_invD(4) [OF that(2)]]
    by (intro db_inv_queue [OF that(2)]) (auto simp: RetryParkedShard_def Let_def split: if_splits)
  show "db_inv d'" if "DropParkedShard i d = Inr d'" "db_inv d"
    using that db_invD(3) [OF that(2)] queue_inv_parked_ops(3) [OF that(1) db_invD(4) [OF that(2)]]
    by (intro db_inv_queue [OF that(2)]) (auto simp: DropParkedShard_def Let_def split: if_splits)
qed

lemma db_inv_group_ops:
  "CompleteDataChunk i l p rel fs c now d = Inr (b, d') \<Longrightarrow> db_inv d \<Longrightarrow> db_inv d'"
  "CompleteFinalizeChunk i l p rel c now d = Inr d' \<Longrightarrow> db_inv d \<Longrightarrow> db_inv d'"
  "AbortChunkGroup i l p rel now d = Inr d' \<Longrightarrow> db_inv d \<Longrightarrow> db_inv d'"
  "CompleteDeleteRemainder i l p rel res seed cleanup build deferred c now d = Inr d' \<Longrightarrow> db_inv d \<Longrightarrow> db_inv d'"
proof -
  have def: "links d2 = links d1" if "close_deferred p build now deferred d1 = Inr d2" for d1 d2
    using that by (induction deferred arbitrary: d1)
      (auto split: sum.splits dest!: links_groups_only [OF groups_only_bump])
  have fin: "links d1 = links d" if "finish_chunk_shard i l now d = Inr d1" for d1
    using that by (auto simp: finish_chunk_shard_def split: if_splits)
  have k: "db_inv d'" if "store_inv d'" "links d' = links d" "db_inv d"
    using that link_inv_links [OF that(2)] by (auto intro: db_invI dest: db_invD)
  show "db_inv d'" if h: "CompleteDataChunk i l p rel fs c now d = Inr (b, d')" and i: "db_inv d"
  proof (rule k [OF store_inv_CompleteDataChunk [OF h db_invD(1) [OF i]] _ i])
    show "links d' = links d" using h
      by (auto simp: CompleteDataChunk_def Let_def split: sum.splits option.splits if_splits prod.splits
          dest!: fin links_insertShardsTx)
  qed
  show "db_inv d'" if h: "CompleteFinalizeChunk i l p rel c now d = Inr d'" and i: "db_inv d"
    by (rule k [OF store_inv_chunk_ops(1) [OF h db_invD(1) [OF i]] _ i])
      (use h in \<open>auto simp: CompleteFinalizeChunk_def split: sum.splits dest!: fin\<close>)
  show "db_inv d'" if h: "AbortChunkGroup i l p rel now d = Inr d'" and i: "db_inv d"
    by (rule k [OF store_inv_chunk_ops(2) [OF h db_invD(1) [OF i]] _ i])
      (use h in \<open>auto simp: AbortChunkGroup_def split: sum.splits dest!: fin\<close>)
  show "db_inv d'" if h: "CompleteDeleteRemainder i l p rel res seed cleanup build deferred c now d = Inr d'" and i: "db_inv d"
    by (rule k [OF store_inv_CompleteDeleteRemainder [OF h db_invD(1) [OF i]] _ i])
      (use h in \<open>auto simp: CompleteDeleteRemainder_def Let_def split: sum.splits if_splits
        dest!: links_groups_only [OF groups_only_bump] def\<close>)
qed

lemma db_inv_RecordSplit:
  assumes "RecordSplit parent seq shards groups sightings mx totals now d = Inr (ids, d')" "db_inv d"
  shows "db_inv d'"
  by (rule db_invI [OF store_inv_RecordSplit [OF assms(1) db_invD(1) [OF assms(2)]]
      link_inv_RecordSplit [OF assms(1) db_invD(2) [OF assms(2)]]])

lemma db_inv_link_ops:
  assumes "db_inv d"
  shows "db_inv (MarkLinkMembersQueued p ks d)" "db_inv (snd (ReapLinkRegistry p d))"
proof -
  have "store_inv (MarkLinkMembersQueued p ks d)" "store_inv (snd (ReapLinkRegistry p d))"
    using db_invD(1) [OF assms] by (simp_all add: MarkLinkMembersQueued_def ReapLinkRegistry_def Let_def)
  then show "db_inv (MarkLinkMembersQueued p ks d)" "db_inv (snd (ReapLinkRegistry p d))"
    using link_inv_Mark link_inv_ReapLinkRegistry db_invD(2) [OF assms] by (auto intro: db_invI)
qed

subsection \<open>Purging a job\<close>

lemma map_of_delete_where_fst:
  "map_of (delete_where (\<lambda>c. Q (fst c)) cs) k = (if Q k then None else map_of cs k)"
  by (induction cs) auto

lemma counts_exact_purge:
  assumes "counts_exact rs cs" "\<forall>r \<in> set rs. \<not> Q (shard_pass r)"
  shows "counts_exact rs (delete_where (\<lambda>c. Q (fst (fst c))) cs)"
proof (rule counts_exactI)
  show "distinct (map fst (delete_where (\<lambda>c. Q (fst (fst c))) cs))"
    by (rule distinct_map_delete_where [OF counts_exact_distinct [OF assms(1)]])
  fix k
  have "count_of k (delete_where (\<lambda>c. Q (fst (fst c))) cs) = (if Q (fst k) then 0 else count_of k cs)"
    using map_of_delete_where_fst [of "\<lambda>k. Q (fst k)" cs k] by (simp add: count_of_def)
  moreover have "count_where (\<lambda>r. count_key_of r = k) rs = 0" if "Q (fst k)"
    using that assms(2) by (auto simp: count_where_zero_iff count_key_of_def)
  ultimately show "count_of k (delete_where (\<lambda>c. Q (fst (fst c))) cs) =
      int (count_where (\<lambda>r. count_key_of r = k) rs)"
    using counts_exactD [OF assms(1), of k] by simp
qed

lemma queue_inv_purge:
  fixes sp :: "split_row list"
  assumes "queue_inv d" "\<And>p. pass_job p = i \<Longrightarrow> p \<in> set (t_passes d) \<Longrightarrow> Q (pass_id p)"
  defines "d1 \<equiv> delete_shards (\<lambda>s. Q (shard_pass s)) (d\<lparr>t_splits := sp\<rparr>)"
  shows "queue_inv (d1\<lparr>t_counts := delete_where (\<lambda>c. Q (fst (fst c))) (t_counts d1),
    t_passes := delete_where (\<lambda>p. pass_job p = i) (t_passes d1)\<rparr>)"
proof -
  have "queue_inv (d\<lparr>t_splits := sp\<rparr>)" by (rule queue_inv_frame [OF assms(1)]) simp_all
  then have q: "queue_inv d1" unfolding d1_def by (rule wf_intros)
  have out: "\<not> Q (shard_pass s)" if "s \<in> set (t_shards d1)" for s
    using that by (simp add: d1_def delete_shards_def)
  have tp: "t_passes d1 = t_passes d" by (simp add: d1_def)
  have "shard_pass s \<in> pass_id ` set (delete_where (\<lambda>p. pass_job p = i) (t_passes d1))" if s: "s \<in> set (t_shards d1)" for s
  proof -
    obtain p where p: "p \<in> set (t_passes d)" "shard_pass s = pass_id p"
      using queue_invD(5) [OF q s] tp by auto
    then have "pass_job p \<noteq> i" using assms(2) out [OF s] by metis
    then show ?thesis using p tp by auto
  qed
  then show ?thesis
    using q counts_exact_purge [of "t_shards d1" "t_counts d1" Q] out
    by (simp add: queue_inv_def rollup_ok_def)
qed

lemma jobs_inv_purge:
  assumes "jobs_inv d"
  shows "jobs_inv (d\<lparr>t_passes := delete_where (\<lambda>p. pass_job p = i) (t_passes d),
    t_jobs := delete_where (\<lambda>j. job_id j = i) (t_jobs d)\<rparr>)"
proof -
  have "pass_job p \<in> job_id ` set (delete_where (\<lambda>j. job_id j = i) (t_jobs d))"
    if "p \<in> set (t_passes d)" "pass_job p \<noteq> i" for p
    using jobs_invD(5) [OF assms that(1)] that(2) by auto
  then show ?thesis using assms by (auto simp: jobs_inv_def distinct_map_delete_where)
qed

lemma db_inv_DeleteJob:
  assumes "DeleteJob name d = Inr (i, d')" "db_inv d"
  shows "db_inv d'"
proof (rule db_invI)
  have d': "d' = delete_job_rows i d"
    using assms(1) by (auto simp: DeleteJob_def split: option.splits if_splits)
  show "link_inv d'" using link_inv_delete_job_rows db_invD(2) [OF assms(2)] d' by simp
  have P: "pass_id p \<in> passes_of i d" if "pass_job p = i" "p \<in> set (t_passes d)" for p
    using that by (auto simp: passes_of_def)
  let ?sp = "delete_where (\<lambda>s. split_parent s \<in> shard_id ` {s \<in> set (t_shards d). shard_pass s \<in> passes_of i d}) (t_splits d)"
  have "queue_inv d'"
    by (rule queue_inv_frame [OF queue_inv_purge [where Q = "\<lambda>p. p \<in> passes_of i d" and i = i and sp = ?sp,
          OF db_invD(4) [OF assms(2)] P]])
      (simp_all add: d' delete_job_rows_def Let_def delete_shards_def)
  moreover have "jobs_inv d'"
    by (rule jobs_inv_frame [OF jobs_inv_purge [OF db_invD(3) [OF assms(2)], of i]])
      (simp_all add: d' delete_job_rows_def Let_def delete_shards_def)
  ultimately show "store_inv d'" by (simp add: store_invI)
qed

section \<open>The store as a transition system\<close>

text \<open>
  One rule per method that commits a write transaction. A method that returns an error rolls its
  transaction back, so only the successful outcomes appear. The clock, the YAML parser, the lease-id
  generator and every argument an agent or an operator supplies are left open.
\<close>

inductive store_step :: "db \<Rightarrow> db \<Rightarrow> bool" where
  create_job: "CreateJob yaml name spec dry user now d = Inr (j, d') \<Longrightarrow> store_step d d'"
| delete_job: "DeleteJob name d = Inr (i, d') \<Longrightarrow> store_step d d'"
| set_job_state: "store_step d (SetJobState i js now d)"
| create_pass: "CreatePass i n ps now d = Inr (p, d') \<Longrightarrow> store_step d d'"
| set_pass_state: "store_step d (SetPassState i ps now d)"
| set_journal_counts: "store_step d (SetJournalTypeCounts i counts d)"
| upsert_agent: "store_step d (UpsertAgent a host ver minor now d)"
| set_agent_state: "store_step d (SetAgentState a astate d)"
| set_agent_enabled: "SetAgentEnabled a enabled d = Inr d' \<Longrightarrow> store_step d d'"
| touch_agents: "store_step d (TouchAgents stamps d)"
| set_journal_cursor: "store_step d (SetJournalCursor i a seq d)"
| insert_shards: "InsertShards i par now shards d = Inr (ids, d') \<Longrightarrow> store_step d d'"
| lease_shards: "store_step d (snd (LeaseShards newLeaseID a n ttl now d))"
| renew_leases: "store_step d (snd (RenewLeasesByID a leases ttl now d))"
| expire_leases: "store_step d (snd (ExpireLeases ms now d))"
| complete_shard: "CompleteShard i l p result c now d = Inr d' \<Longrightarrow> store_step d d'"
| requeue_shard: "RequeueShard i l err now d = Inr d' \<Longrightarrow> store_step d d'"
| release_shard: "ReleaseShard i l now d = Inr d' \<Longrightarrow> store_step d d'"
| park_shard: "ParkShard i l err now d = Inr d' \<Longrightarrow> store_step d d'"
| retry_parked: "RetryParkedShard i now d = Inr d' \<Longrightarrow> store_step d d'"
| retry_parked_job: "store_step d (snd (RetryParkedByJob name now d))"
| drop_parked: "DropParkedShard i d = Inr d' \<Longrightarrow> store_step d d'"
| drop_parked_job: "store_step d (snd (DropParkedByJob name d))"
| prune_probes: "store_step d (snd (PruneStaleProbes i d))"
| reap_shards: "store_step d (snd (ReapDoneShards i kinds d))"
| reap_registry: "store_step d (snd (ReapLinkRegistry i d))"
| mark_links: "store_step d (MarkLinkMembersQueued i keys d)"
| complete_data_chunk: "CompleteDataChunk i l p rel fs c now d = Inr (seeded, d') \<Longrightarrow> store_step d d'"
| complete_finalize: "CompleteFinalizeChunk i l p rel c now d = Inr d' \<Longrightarrow> store_step d d'"
| abort_chunks: "AbortChunkGroup i l p rel now d = Inr d' \<Longrightarrow> store_step d d'"
| complete_delete: "CompleteDeleteRemainder i l p rel result seed cleanup build deferred c now d = Inr d' \<Longrightarrow>
    store_step d d'"
| record_split: "RecordSplit parent seq shards groups sightings mx totals now d = Inr (ids, d') \<Longrightarrow> store_step d d'"

lemma db_inv_agent_ops:
  assumes "db_inv d"
  shows "db_inv (SetJournalTypeCounts i counts d)" "db_inv (UpsertAgent a host ver minor now d)"
    "db_inv (SetAgentState a astate d)" "db_inv (TouchAgents stamps d)" "db_inv (SetJournalCursor i a seq d)"
    "SetAgentEnabled a enabled d = Inr d' \<Longrightarrow> db_inv d'"
  by (rule db_inv_frame [OF assms]; auto simp: SetJournalTypeCounts_def UpsertAgent_def SetAgentState_def TouchAgents_def
      SetJournalCursor_def SetAgentEnabled_def split: if_splits)+

lemma db_inv_empty: "db_inv empty_db"
  by (simp add: db_inv_def store_inv_def jobs_inv_def queue_inv_def rollup_ok_def counts_exact_def el_cap_def
      empty_db_def maxEntrylistPerAgent_def link_inv_def link_ok_def)

lemma db_inv_step:
  assumes "db_inv d" "store_step d d'"
  shows "db_inv d'"
  using assms(2,1)
  by cases (auto simp: CompleteShard_def RequeueShard_def ReleaseShard_def ParkShard_def
      intro: db_inv_CreateJob db_inv_DeleteJob db_inv_state_ops db_inv_CreatePass db_inv_agent_ops db_inv_InsertShards
        db_inv_LeaseShards db_inv_lease_ops db_inv_shardTransition db_inv_parked_shard db_inv_link_ops db_inv_group_ops
        db_inv_RecordSplit)

interpretation store: invariant_system store_step "\<lambda>d. d = empty_db" db_inv
  by unfold_locales (auto intro: db_inv_empty db_inv_step)

text \<open>What the invariant says to a reader of the database.\<close>

lemma db_inv_reads:
  assumes "db_inv d"
  shows "ShardStateCounts p d ShardQueued = int (count_where (\<lambda>s. shard_pass s = p \<and> shard_state s = ShardQueued) (t_shards d))"
    "heldEL a d \<le> maxEntrylistPerAgent"
    "\<forall>s \<in> set (t_shards d). row_ok s \<and> (\<exists>ps \<in> set (t_passes d). \<exists>j \<in> set (t_jobs d). pass_id ps = shard_pass s \<and> job_id j = pass_job ps)"
proof -
  note J = db_invD(3) [OF assms] and Q = db_invD(4) [OF assms]
  show "ShardStateCounts p d ShardQueued = int (count_where (\<lambda>s. shard_pass s = p \<and> shard_state s = ShardQueued) (t_shards d))"
    using ShardStateCounts_eq [of d p ShardQueued] Q J by (simp add: queue_inv_def live_count_def)
  have "heldEL a d = int (count_where (el_lease a) (t_shards d))"
    by (simp add: heldEL_def el_lease_def conj_ac cong: count_where_cong)
  then show "heldEL a d \<le> maxEntrylistPerAgent" using queue_invD(6) [OF Q] by (simp add: el_cap_def)
  show "\<forall>s \<in> set (t_shards d). row_ok s \<and> (\<exists>ps \<in> set (t_passes d). \<exists>j \<in> set (t_jobs d). pass_id ps = shard_pass s \<and> job_id j = pass_job ps)"
  proof
    fix s
    assume s: "s \<in> set (t_shards d)"
    obtain ps where ps: "ps \<in> set (t_passes d)" "shard_pass s = pass_id ps" using queue_invD(5) [OF Q s] by blast
    moreover obtain j where "j \<in> set (t_jobs d)" "job_id j = pass_job ps" using jobs_invD(5) [OF J ps(1)] by force
    ultimately show "row_ok s \<and> (\<exists>ps \<in> set (t_passes d). \<exists>j \<in> set (t_jobs d). pass_id ps = shard_pass s \<and> job_id j = pass_job ps)"
      using queue_invD(3) [OF Q s] by force
  qed
qed

section \<open>Properties\<close>

text \<open>
  Whatever sequence of transactions the coordinator has committed since it created the database,
  in any interleaving of agents, operators and sweeps: the counts the scheduler reads are exact, no
  agent holds more entry-list leases than its quota, a leased shard always names its lease, its holder
  and its expiry while a queued or parked one has no lease, and every shard belongs to a pass of a
  job that still exists.
\<close>

theorem reachable_store_sound:
  assumes "store_step\<^sup>*\<^sup>* empty_db d"
  shows "ShardStateCounts p d ShardQueued = int (count_where (\<lambda>s. shard_pass s = p \<and> shard_state s = ShardQueued) (t_shards d)) \<and>
    heldEL a d \<le> maxEntrylistPerAgent \<and>
    (\<forall>s \<in> set (t_shards d). row_ok s \<and>
       (\<exists>ps \<in> set (t_passes d). \<exists>j \<in> set (t_jobs d). pass_id ps = shard_pass s \<and> job_id j = pass_job ps))"
  using db_inv_reads [OF store.inv_reachable [OF refl assms]] by simp

text \<open>A short life of a store: an agent connects, a job is created and started, its pass seeded and granted.\<close>

definition sample_run :: db where
  "sample_run =
     (let yaml = (\<lambda>_. Some (sample_spec ''''));
          d1 = UpsertAgent ''a'' ''h'' ''v'' 3 0 empty_db;
          d2 = (case CreateJob yaml ''j'' [] False ''u'' 1 d1 of Inl _ \<Rightarrow> d1 | Inr (j, d) \<Rightarrow> d);
          d3 = SetJobState 1 JobRunning 2 d2;
          d4 = (case CreatePass 1 1 PassScanning 3 d3 of Inl _ \<Rightarrow> d3 | Inr (p, d) \<Rightarrow> d);
          d5 = (case InsertShards 1 0 4 sample_shards d4 of Inl _ \<Rightarrow> d4 | Inr (i, d) \<Rightarrow> d)
      in snd (LeaseShards int ''a'' 2 10 100 d5))"

lemma steps_case:
  "(\<And>i e. x = Inr (i, e) \<Longrightarrow> store_step d e) \<Longrightarrow> store_step\<^sup>*\<^sup>* c d \<Longrightarrow>
   store_step\<^sup>*\<^sup>* c (case x of Inl _ \<Rightarrow> d | Inr (i, e) \<Rightarrow> e)"
  by (cases x) (auto intro: rtranclp.rtrancl_into_rtrancl)

lemma sample_run_reachable: "store_step\<^sup>*\<^sup>* empty_db sample_run"
proof -
  note more = rtranclp.rtrancl_into_rtrancl [where r = store_step, rotated]
  show ?thesis
    unfolding sample_run_def Let_def
    by (intro more [OF lease_shards] steps_case more [OF set_job_state] more [OF upsert_agent]
        rtranclp.rtrancl_refl) (auto intro: insert_shards create_pass create_job)
qed

theorem reachable_store_sound_witness:
  "store_step\<^sup>*\<^sup>* empty_db sample_run \<and> ShardStateCounts 1 sample_run ShardQueued = 1 \<and>
   heldEL ''a'' sample_run = 0 \<and> heldEL ''a'' sample_run \<le> maxEntrylistPerAgent"
proof -
  have n: "map (\<lambda>s. (shard_pass s, shard_state s, shard_kind s)) (t_shards sample_run) =
      [(1, ShardLeased, KindDir), (1, ShardQueued, KindEntryList), (1, ShardLeased, KindChunk)]"
    by code_simp
  have "count_where (\<lambda>s. shard_pass s = 1 \<and> shard_state s = ShardQueued) (t_shards sample_run) = 1"
    using n by (auto simp: map_eq_Cons_conv)
  moreover have "heldEL ''a'' sample_run = 0"
    using n by (auto simp: map_eq_Cons_conv heldEL_def)
  ultimately show ?thesis
    using reachable_store_sound [OF sample_run_reachable, of 1 "''a''"] sample_run_reachable by simp
qed

text \<open>The sample databases of the shard theory are within the invariant.\<close>

lemma db_inv_samples: "db_inv sample_base" "db_inv sample_db" "db_inv sample_leased" "db_inv sample_done"
proof -
  show b: "db_inv sample_base"
    by (rule db_invI [OF store_inv_sample_base]) (simp add: link_inv_def link_ok_def sample_base_def empty_db_def)
  show d: "db_inv sample_db" using b by (auto simp: sample_db_def split: sum.splits intro: db_inv_InsertShards)
  show l: "db_inv sample_leased" using d by (simp add: sample_leased_def db_inv_LeaseShards)
  show "db_inv sample_done" using l by (auto simp: sample_done_def CompleteShard_def split: sum.splits intro: db_inv_shardTransition)
qed

end
