(* ===== verification/Scheduler.thy ===== *)
theory Scheduler
  imports Proto Store_Machine "HOL-Library.Signed_Division"
begin

text \<open>
  The scheduler (\<open>coordinator/internal/scheduler/scheduler.go\<close>): how a work request becomes a grant,
  the per-job policy cache, the fleet snapshot that drives fan-out and fair shares, and the lease
  sweeper.

  The scheduler's state is the record \<open>Scheduler\<close>; the store is the database of \<open>Store_State\<close>. A method
  that calls the store several times threads the database through the calls, so a call that has
  already committed stays committed when a later one fails. Durations and clock readings are
  milliseconds. The YAML and protobuf libraries are the fields of \<open>sched_env\<close> and \<open>payload_codecs\<close>.
  Metrics and log lines are left out.
\<close>

section \<open>Policies\<close>

record SpreadPolicy =
  sp_Mode :: string
  TargetPerAgent :: u64

definition SpreadPolicy_of :: "JobSpec \<Rightarrow> SpreadPolicy" where
  "SpreadPolicy_of s = \<lparr>sp_Mode = SpreadMode (Tuning s), TargetPerAgent = SpreadTargetPerAgent (Tuning s)\<rparr>"

record jobPolicy =
  pol_opts :: JobOptions
  pol_spread :: SpreadPolicy
  pol_hardlinks :: string
  maxGrpScan :: u64

definition countsTTL :: int where "countsTTL = 250"

definition grantMaxItems :: int where "grantMaxItems = 64"

definition spreadSplitThreshold :: u64 where "spreadSplitThreshold = 4000"

record Scheduler =
  LeaseTTL :: int
  policies :: "int \<Rightarrow> jobPolicy option"
  countsAt :: "int option"
  sch_counts :: SchedulerCounts
  sch_agents :: int

text \<open>\<open>countsAt\<close> is \<open>None\<close> for Go's zero time, which lies further back than any TTL.\<close>

definition New :: "int \<Rightarrow> Scheduler" where
  "New leaseTTL = \<lparr>LeaseTTL = leaseTTL, policies = (\<lambda>_. None), countsAt = None,
     sch_counts = \<lparr>WalkPending = 0, Queued = 0\<rparr>, sch_agents = 0\<rparr>"

text \<open>\<open>agentsOK\<close> and \<open>countsOK\<close> say whether the two read queries succeed.\<close>

definition fleet :: "bool \<Rightarrow> bool \<Rightarrow> int \<Rightarrow> db \<Rightarrow> Scheduler \<Rightarrow> (int \<times> SchedulerCounts) \<times> Scheduler" where
  "fleet agentsOK countsOK now d s =
     (if (case countsAt s of None \<Rightarrow> False | Some t \<Rightarrow> now - t < countsTTL)
      then ((sch_agents s, sch_counts s), s)
      else let s1 = s\<lparr>countsAt := Some now\<rparr>;
               n = (if agentsOK then CountSchedulableAgents d else 1)
           in if \<not> countsOK
              then let s2 = s1\<lparr>sch_agents := max (sch_agents s1) 1\<rparr> in ((sch_agents s2, sch_counts s2), s2)
              else let c = SchedulerCounts_of d in ((n, c), s1\<lparr>sch_agents := n, sch_counts := c\<rparr>))"

text \<open>The product is an \<open>int64\<close>: it wraps, and the comparison reads it signed.\<close>

definition walkOverrides :: "jobPolicy \<Rightarrow> int \<Rightarrow> SchedulerCounts \<Rightarrow> WalkOverrides option" where
  "walkOverrides pol agents c =
     (let mode = sp_Mode (pol_spread pol);
          spread = (if mode = SpreadAlways then True
                    else if mode = SpreadOff then False
                    else WalkPending c < sint (word_of_int agents * TargetPerAgent (pol_spread pol)))
      in if \<not> spread then None
         else let t = oDirSplitThreshold (oTuning (pol_opts pol));
                  split = (if t > 0 \<and> t < spreadSplitThreshold then t else spreadSplitThreshold)
              in Some \<lparr>WalkBudget = Some 0, SplitThreshold = Some split\<rparr>)"

definition fairShare :: "int \<Rightarrow> int \<Rightarrow> int \<Rightarrow> int" where
  "fairShare credits queued agents =
     (if agents < 2 \<or> credits \<le> 0 \<or> queued \<ge> agents * credits then credits
      else let share = (queued + agents - 1) sdiv agents;
               share = (if share < 1 then 1 else share)
           in min share credits)"

section \<open>Resolving a job's policy\<close>

record sched_env =
  se_yaml :: "bytes \<Rightarrow> JobSpec option"
  se_marshal :: "JobOptions \<Rightarrow> bytes option"
  se_oor :: "f64 \<Rightarrow> u64"

datatype sched_error = SchedStore store_error | SchedSpec spec_error | SchedOptions spec_error

definition resolvePolicy :: "sched_env \<Rightarrow> int \<Rightarrow> db \<Rightarrow> sched_error + jobPolicy" where
  "resolvePolicy env jobID d =
     (case GetJobByID jobID d of
        Inl e \<Rightarrow> Inl (SchedStore e)
      | Inr job \<Rightarrow>
     (case ParseSpec (se_yaml env) (job_spec job) of
        Inl e \<Rightarrow> Inl (SchedSpec e)
      | Inr spec \<Rightarrow>
     (case ToJobOptions (se_marshal env) (se_oor env) spec (word_of_int jobID) (job_dry_run job) of
        Inl e \<Rightarrow> Inl (SchedOptions e)
      | Inr opts \<Rightarrow> Inr \<lparr>pol_opts = opts, pol_spread = SpreadPolicy_of spec,
          pol_hardlinks = Hardlinks (Metadata spec), maxGrpScan = HardlinksMaxGroupScan (Metadata spec)\<rparr>)))"

definition jobPolicy_of :: "sched_env \<Rightarrow> int \<Rightarrow> db \<Rightarrow> Scheduler \<Rightarrow> (sched_error + jobPolicy) \<times> Scheduler" where
  "jobPolicy_of env jobID d s =
     (case policies s jobID of
        Some p \<Rightarrow> (Inr p, s)
      | None \<Rightarrow>
          (case resolvePolicy env jobID d of
             Inl e \<Rightarrow> (Inl e, s)
           | Inr p \<Rightarrow> (Inr p, s\<lparr>policies := (policies s)(jobID \<mapsto> p)\<rparr>)))"

definition JobOptions_of :: "sched_env \<Rightarrow> int \<Rightarrow> db \<Rightarrow> Scheduler \<Rightarrow> (sched_error + JobOptions) \<times> Scheduler" where
  "JobOptions_of env jobID d s = apfst (map_sum id pol_opts) (jobPolicy_of env jobID d s)"

definition HardlinksPolicy :: "sched_env \<Rightarrow> int \<Rightarrow> db \<Rightarrow> Scheduler \<Rightarrow> (sched_error + string \<times> u64) \<times> Scheduler" where
  "HardlinksPolicy env jobID d s =
     apfst (map_sum id (\<lambda>pol. (pol_hardlinks pol, maxGrpScan pol))) (jobPolicy_of env jobID d s)"

definition InvalidateOptions :: "int \<Rightarrow> Scheduler \<Rightarrow> Scheduler" where
  "InvalidateOptions jobID s = s\<lparr>policies := (policies s)(jobID := None)\<rparr>"

section \<open>Building items\<close>

datatype build_error = UnmarshalError string | UnknownKind ShardKind

fun kindText :: "ShardKind \<Rightarrow> string" where
  "kindText KindDir = ''dir''"
| "kindText KindEntryList = ''entrylist''"
| "kindText KindChunk = ''chunk''"
| "kindText KindDirfix = ''dirfix''"
| "kindText KindVerify = ''verify''"
| "kindText KindDelete = ''delete''"
| "kindText KindProbe = ''probe''"
| "kindText KindLinkfix = ''linkfix''"
| "kindText KindReaped = ''reaped''"

fun buildErrorText :: "build_error \<Rightarrow> string" where
  "buildErrorText (UnmarshalError t) = t"
| "buildErrorText (UnknownKind k) = ''unknown shard kind '' @ [CHR 0x22] @ kindText k @ [CHR 0x22]"

definition withPayload :: "payload_codecs \<Rightarrow> 'm codec \<Rightarrow> ShardRow \<Rightarrow> ('m \<Rightarrow> item) \<Rightarrow> build_error + item" where
  "withPayload pc c row f =
     (case unmarshal c (sr_Payload row) of
        None \<Rightarrow> Inl (UnmarshalError (unmarshalText pc (sr_Payload row))) | Some m \<Rightarrow> Inr (f m))"

definition buildKind :: "payload_codecs \<Rightarrow> ShardRow \<Rightarrow> WalkOverrides option \<Rightarrow> build_error + item" where
  "buildKind pc row ov =
     (let sid = word_of_int (sr_ID row); jobID = word_of_int (sr_JobID row); passNo = word_of_int (sr_PassNo row)
      in case sr_Kind row of
           KindDir \<Rightarrow> Inr (WorkItem_Shard \<lparr>sh_ShardId = sid, sh_JobId = jobID, sh_PassNo = passNo,
             sh_RelPath = sr_RelPath row, sh_Overrides = ov\<rparr>)
         | KindEntryList \<Rightarrow> withPayload pc (pc_EntryList pc) row (\<lambda>m. WorkItem_EntryList
             (m\<lparr>el_ShardId := sid, el_JobId := jobID, EntryListShard.el_PassNo := passNo, el_Overrides := ov\<rparr>))
         | KindChunk \<Rightarrow> withPayload pc (pc_Chunk pc) row (\<lambda>m. WorkItem_Chunk
             (m\<lparr>ct_TaskId := sid, ct_JobId := jobID, ct_PassNo := passNo\<rparr>))
         | KindDirfix \<Rightarrow> withPayload pc (pc_Dirfix pc) row (\<lambda>m. WorkItem_Dirfix
             (m\<lparr>df_TaskId := sid, df_JobId := jobID, df_PassNo := passNo\<rparr>))
         | KindVerify \<Rightarrow> withPayload pc (pc_Verify pc) row (\<lambda>m. WorkItem_Verify
             (m\<lparr>vb_TaskId := sid, vb_JobId := jobID, vb_PassNo := passNo\<rparr>))
         | KindDelete \<Rightarrow> withPayload pc (pc_Delete pc) row (\<lambda>m. WorkItem_Delete
             (m\<lparr>db_TaskId := sid, db_JobId := jobID, db_PassNo := passNo\<rparr>))
         | KindProbe \<Rightarrow> Inr (WorkItem_Probe \<lparr>pt_TaskId = sid, pt_JobId = jobID\<rparr>)
         | KindLinkfix \<Rightarrow> withPayload pc (pc_LinkBatch pc) row (\<lambda>m. WorkItem_LinkBatch
             (m\<lparr>lt_TaskId := sid, lt_JobId := jobID, lt_PassNo := passNo\<rparr>))
         | KindReaped \<Rightarrow> Inl (UnknownKind KindReaped))"

definition buildItem :: "payload_codecs \<Rightarrow> Scheduler \<Rightarrow> ShardRow \<Rightarrow> WalkOverrides option \<Rightarrow> build_error + WorkItem" where
  "buildItem pc s row ov =
     map_sum id (\<lambda>it. \<lparr>wi_LeaseId = word_of_int (sr_LeaseID row),
       wi_LeaseTtlS = word_of_int (LeaseTTL s sdiv 1000), wi_Item = it\<rparr>) (buildKind pc row ov)"

section \<open>Grant\<close>

text \<open>
  The two loops of \<open>Grant\<close>. The first builds the items and parks the rows whose payload does not
  decode (the error of that parking is dropped); \<open>needOpts\<close> is the key set of the Go map, a list
  without duplicates. The second loop runs over it; Go visits the keys in any order.
\<close>

fun grantItems ::
    "sched_env \<Rightarrow> payload_codecs \<Rightarrow> int \<Rightarrow> int \<Rightarrow> SchedulerCounts \<Rightarrow> ShardRow list \<Rightarrow> db \<Rightarrow> Scheduler \<Rightarrow>
     (sched_error + WorkItem list \<times> int list) \<times> db \<times> Scheduler" where
  "grantItems env pc now agents counts [] d s = (Inr ([], []), d, s)"
| "grantItems env pc now agents counts (row # rows) d s =
     (case jobPolicy_of env (sr_JobID row) d s of
        (Inl e, s1) \<Rightarrow> (Inl e, d, s1)
      | (Inr pol, s1) \<Rightarrow>
          (case buildItem pc s1 row (walkOverrides pol agents counts) of
             Inl e \<Rightarrow>
               grantItems env pc now agents counts rows
                 (case ParkShard (sr_ID row) (sr_LeaseID row) (''unbuildable payload: '' @ buildErrorText e) now d of
                    Inl _ \<Rightarrow> d | Inr d1 \<Rightarrow> d1) s1
           | Inr it \<Rightarrow>
               (case grantItems env pc now agents counts rows d s1 of
                  (Inl e, r) \<Rightarrow> (Inl e, r)
                | (Inr (items, needOpts), r) \<Rightarrow> (Inr (it # items, List.insert (sr_JobID row) needOpts), r))))"

fun grantOptions ::
    "sched_env \<Rightarrow> (u64 \<Rightarrow> u64) \<Rightarrow> int list \<Rightarrow> db \<Rightarrow> Scheduler \<Rightarrow> (sched_error + JobOptions list) \<times> Scheduler" where
  "grantOptions env cached [] d s = (Inr [], s)"
| "grantOptions env cached (jobID # jobIDs) d s =
     (case jobPolicy_of env jobID d s of
        (Inl e, s1) \<Rightarrow> (Inl e, s1)
      | (Inr pol, s1) \<Rightarrow>
          (case grantOptions env cached jobIDs d s1 of
             (Inl e, s2) \<Rightarrow> (Inl e, s2)
           | (Inr opts, s2) \<Rightarrow>
               (Inr (if cached (word_of_int jobID) \<noteq> oOptionsHash (pol_opts pol) then pol_opts pol # opts else opts), s2)))"

definition cachedHash :: "CachedOptions list \<Rightarrow> u64 \<Rightarrow> u64" where
  "cachedHash cs j = (case map_of (rev (map (\<lambda>c. (co_JobId c, co_OptionsHash c)) cs)) j of None \<Rightarrow> 0 | Some h \<Rightarrow> h)"

definition Grant ::
    "sched_env \<Rightarrow> payload_codecs \<Rightarrow> (nat \<Rightarrow> int) \<Rightarrow> bool \<Rightarrow> bool \<Rightarrow> int \<Rightarrow> string \<Rightarrow> WorkRequest \<Rightarrow> db \<Rightarrow> Scheduler \<Rightarrow>
     (sched_error + WorkGrant) \<times> db \<times> Scheduler" where
  "Grant env pc newLeaseID agentsOK countsOK now agentID req d s =
     (let credits = uint (wr_ShardCredits req) + uint (wr_TaskCredits req);
          ((agents, counts), s1) = fleet agentsOK countsOK now d s;
          (rows, d1) = LeaseShards newLeaseID agentID
             (min (fairShare credits (Queued counts) agents) grantMaxItems) (LeaseTTL s1) now d
      in case grantItems env pc now agents counts rows d1 s1 of
           (Inl e, d2, s2) \<Rightarrow> (Inl e, d2, s2)
         | (Inr (items, needOpts), d2, s2) \<Rightarrow>
             (case grantOptions env (cachedHash (wr_Cached req)) needOpts d2 s2 of
                (Inl e, s3) \<Rightarrow> (Inl e, d2, s3)
              | (Inr opts, s3) \<Rightarrow> (Inr \<lparr>wg_Items = items, wg_Options = opts\<rparr>, d2, s3)))"

section \<open>The sweeper\<close>

text \<open>
  One tick of \<open>RunSweeper\<close>: the counts it adds to the metrics and, per expired lease, the labels
  (agent, kind, outcome) of its counter.
\<close>

definition sweepTick :: "int \<Rightarrow> int \<Rightarrow> db \<Rightarrow> (nat \<times> nat \<times> (string \<times> ShardKind \<times> string) list) \<times> db" where
  "sweepTick tick now d =
     (let (expired, d1) = ExpireLeases tick now d
      in ((count_where (\<lambda>e. \<not> el_Parked e) expired, count_where el_Parked expired,
           map (\<lambda>e. (if el_Agent e = '''' then ''unknown'' else el_Agent e, el_Kind e,
                     if el_Parked e then ''parked'' else ''requeued'')) expired), d1))"

section \<open>Policy lookups\<close>

lemma jobPolicy_of_Inr:
  assumes "jobPolicy_of env j d s = (Inr pol, s1)"
  shows "policies s1 j = Some pol" "policies s \<subseteq>\<^sub>m policies s1" "LeaseTTL s1 = LeaseTTL s"
    "policies s j = Some pol \<or> resolvePolicy env j d = Inr pol"
    "policies s1 = (policies s)(j \<mapsto> pol)"
  using assms by (auto simp: jobPolicy_of_def map_le_def split: option.splits sum.splits)

lemma jobPolicy_of_cached: "policies s j = Some pol \<Longrightarrow> jobPolicy_of env j d s = (Inr pol, s)"
  by (simp add: jobPolicy_of_def)

lemma jobPolicy_of_Inl: "jobPolicy_of env j d s = (Inl e, s1) \<Longrightarrow> s1 = s \<and> resolvePolicy env j d = Inl e"
  by (auto simp: jobPolicy_of_def split: option.splits sum.splits)

section \<open>What the loops of a grant do\<close>

lemma buildItem_lease: "buildItem pc s row ov = Inr it \<Longrightarrow> wi_LeaseId it = word_of_int (sr_LeaseID row)"
  by (auto simp: buildItem_def map_sum_def split: sum.splits)

text \<open>Parking takes a lease away and gives none.\<close>

lemma Park_leased:
  assumes "d1 = (case ParkShard i l err now d of Inl _ \<Rightarrow> d | Inr d1 \<Rightarrow> d1)" "t \<in> set (t_shards d1)" "shard_state t = ShardLeased"
  shows "t \<in> set (t_shards d) \<and> \<not> holds_lease i l t"
proof (cases "ParkShard i l err now d")
  case (Inl e)
  then have "d1 = d" using assms(1) by simp
  moreover have "\<forall>s \<in> set (t_shards d). \<not> holds_lease i l s" using Inl by (simp add: ParkShard_def shardTransition_Inl_iff)
  ultimately show ?thesis using assms(2) by blast
next
  case (Inr d2)
  then have "t_shards d1 = update_where (holds_lease i l)
      (\<lambda>s. s\<lparr>shard_state := ShardParked, shard_error := (if err = '''' then shard_error s else Some err),
             lease_id := None, shard_updated := now\<rparr>) (t_shards d)"
    using shardTransition_InrD(2) [of i l ShardParked None err 0 None now d d2] assms(1)
    by (simp add: ParkShard_def update_shards_def accumulatePassCounters_def)
  then obtain s where s: "s \<in> set (t_shards d)" "holds_lease i l s \<Longrightarrow> shard_state t = ShardParked"
      "\<not> holds_lease i l s \<Longrightarrow> t = s"
    using assms(2) by (auto simp: in_update_where_iff)
  then show ?thesis using assms(3) by (cases "holds_lease i l s") simp_all
qed

text \<open>
  A row of the grant either becomes an item, in order, with its job among the jobs whose options are
  needed, or no longer holds its lease.
\<close>

lemma grantItems_leased:
  assumes "grantItems env pc now agents counts rows d s = (Inr (items, needOpts), d', s')"
    "t \<in> set (t_shards d')" "shard_state t = ShardLeased"
  shows "t \<in> set (t_shards d) \<and>
    (\<forall>r \<in> set rows. holds_lease (sr_ID r) (sr_LeaseID r) t \<longrightarrow>
       (\<exists>it \<in> set items. wi_LeaseId it = word_of_int (sr_LeaseID r)) \<and> sr_JobID r \<in> set needOpts)"
  using assms(1)
proof (induction rows arbitrary: d s items needOpts)
  case Nil
  then show ?case using assms(2) by simp
next
  case (Cons r rows)
  obtain pol s1 where p: "jobPolicy_of env (sr_JobID r) d s = (Inr pol, s1)"
    using Cons.prems by (auto split: prod.splits sum.splits)
  show ?case
  proof (cases "buildItem pc s1 r (walkOverrides pol agents counts)")
    case (Inl e)
    let ?d1 = "case ParkShard (sr_ID r) (sr_LeaseID r) (''unbuildable payload: '' @ buildErrorText e) now d of Inl _ \<Rightarrow> d | Inr d1 \<Rightarrow> d1"
    have g: "grantItems env pc now agents counts rows ?d1 s1 = (Inr (items, needOpts), d', s')"
      using Cons.prems p Inl by simp
    have I: "t \<in> set (t_shards ?d1)"
      "\<forall>r \<in> set rows. holds_lease (sr_ID r) (sr_LeaseID r) t \<longrightarrow>
         (\<exists>it \<in> set items. wi_LeaseId it = word_of_int (sr_LeaseID r)) \<and> sr_JobID r \<in> set needOpts"
      using Cons.IH [OF g] by blast+
    show ?thesis using Park_leased [OF refl I(1) assms(3)] I(2) by simp
  next
    case (Inr it)
    obtain items2 need2 where g: "grantItems env pc now agents counts rows d s1 = (Inr (items2, need2), d', s')"
      and "items = it # items2" "needOpts = List.insert (sr_JobID r) need2"
      using Cons.prems p Inr by (auto split: prod.splits sum.splits)
    then show ?thesis using Cons.IH [OF g] buildItem_lease [OF Inr] by auto
  qed
qed

lemma grantItems_from_rows:
  assumes "grantItems env pc now agents counts rows d s = (Inr (items, needOpts), d', s')"
  shows "length items \<le> length rows \<and> wi_LeaseId ` set items \<subseteq> word_of_int ` sr_LeaseID ` set rows \<and>
    set needOpts \<subseteq> sr_JobID ` set rows \<and> set needOpts \<subseteq> dom (policies s') \<and> policies s \<subseteq>\<^sub>m policies s'"
  using assms
proof (induction rows arbitrary: d s items needOpts)
  case (Cons r rows)
  obtain pol s1 where p: "jobPolicy_of env (sr_JobID r) d s = (Inr pol, s1)"
    using Cons.prems by (auto split: prod.splits sum.splits)
  note P = jobPolicy_of_Inr [OF p]
  show ?case
  proof (cases "buildItem pc s1 r (walkOverrides pol agents counts)")
    case (Inl e)
    let ?d1 = "case ParkShard (sr_ID r) (sr_LeaseID r) (''unbuildable payload: '' @ buildErrorText e) now d of Inl _ \<Rightarrow> d | Inr d1 \<Rightarrow> d1"
    have g: "grantItems env pc now agents counts rows ?d1 s1 = (Inr (items, needOpts), d', s')"
      using Cons.prems p Inl by simp
    show ?thesis using Cons.IH [OF g] map_le_trans [OF P(2)] by auto
  next
    case (Inr it)
    obtain items2 need2 where g: "grantItems env pc now agents counts rows d s1 = (Inr (items2, need2), d', s')"
      and i: "items = it # items2" "needOpts = List.insert (sr_JobID r) need2"
      using Cons.prems p Inr by (auto split: prod.splits sum.splits)
    have "policies s' (sr_JobID r) = Some pol"
      using Cons.IH [OF g] P(1) by (force simp: map_le_def dom_def)
    then show ?thesis using Cons.IH [OF g] map_le_trans [OF P(2)] buildItem_lease [OF Inr] by (auto simp: i)
  qed
qed simp

text \<open>After the first loop every lookup of the second is a hit.\<close>

lemma grantOptions_cached:
  "set jobs \<subseteq> dom (policies s) \<Longrightarrow>
   grantOptions env cached jobs d s = (Inr (map (\<lambda>j. pol_opts (the (policies s j)))
     (filter (\<lambda>j. cached (word_of_int j) \<noteq> oOptionsHash (pol_opts (the (policies s j)))) jobs)), s)"
  by (induction jobs) (auto simp: jobPolicy_of_cached)

lemma grant_rows_jobs: "grant_rows a nl e now k rs d = (rs', d') \<Longrightarrow> map sr_JobID rs' = map sr_JobID rs"
  by (induction rs arbitrary: k d rs') (auto simp: Let_def split: prod.splits)

lemma LeaseShards_new:
  assumes "LeaseShards nl a n ttl now d = (rows, d1)" "store_inv d" "t \<in> set (t_shards d1)"
  shows "t \<in> set (t_shards d) \<or> lease_agent t = Some a \<and> (\<exists>r \<in> set rows. holds_lease (sr_ID r) (sr_LeaseID r) t \<and>
    (\<forall>p j. pass_job_of (shard_pass t) d = Some (p, j) \<longrightarrow> sr_JobID r = pass_job p))"
  using assms(1)
proof (cases rule: LeaseShards_cases)
  case 2
  let ?sel = "lease_selection a (nat n) d"
  have dist: "distinct (map shard_id (t_shards d))" using assms(2) by (simp add: store_inv_def queue_inv_def)
  note L = lease_selection_props [OF dist, where a = a and n = "nat n"] and F = grant_rows_frame(14) [OF 2(3)]
  obtain s where s: "s \<in> set (t_shards d)" "t = leased_as a nl (now + ttl) now 0 ?sel s"
    using assms(3) grant_rows_shards [OF L(2) 2(3)] by auto
  show ?thesis
  proof (cases "shard_id s \<in> sr_ID ` set ?sel")
    case True
    then obtain i where i: "i < length ?sel" "sr_ID (?sel ! i) = shard_id s" by (auto simp: in_set_conv_nth)
    have t: "t = lease_row a (nl i) (now + ttl) now s" using leased_as_nth [OF L(2) i(1)] i(2) s(2) by simp
    have "length rows = length ?sel" using F by (metis length_map)
    then have r: "rows ! i \<in> set rows" "sr_ID (rows ! i) = shard_id s" "sr_LeaseID (rows ! i) = nl i"
      "sr_JobID (rows ! i) = sr_JobID (?sel ! i)"
      using i F grant_rows_lease_ids [OF 2(3) i(1)] grant_rows_jobs [OF 2(3)] by (auto simp: list_eq_iff_nth_eq)
    have "?sel ! i = scan_row d s" by (rule selected_row(1) [OF dist nth_mem [OF i(1)] s(1) i(2) [symmetric]])
    then have "\<forall>p j. pass_job_of (shard_pass t) d = Some (p, j) \<longrightarrow> sr_JobID (rows ! i) = pass_job p"
      using r(4) by (simp add: t lease_row_def scan_row_def)
    then show ?thesis using r unfolding t by (intro disjI2 conjI bexI [of _ "rows ! i"]) (simp_all add: lease_row_def holds_lease_def)
  next
    case False
    then show ?thesis using s by (simp add: leased_as_absent)
  qed
qed (use assms in simp)

lemma LeaseShards_length: "LeaseShards nl a n ttl now d = (rows, d1) \<Longrightarrow> store_inv d \<Longrightarrow> int (length rows) \<le> max 0 n"
proof (erule LeaseShards_cases)
  assume 2: "0 < n" "grant_rows a nl (now + ttl) now 0 (lease_selection a (nat n) d) d = (rows, d1)" and "store_inv d"
  then have "distinct (map shard_id (t_shards d))" by (simp add: store_inv_def queue_inv_def)
  from lease_selection_props [OF this, where a = a and n = "nat n"] grant_rows_frame(14) [OF 2(2)] 2(1)
  show ?thesis by (metis length_map max_def nat_le_iff less_imp_le of_nat_le_iff int_nat_eq)
qed simp

text \<open>The steps of a successful grant.\<close>

lemma Grant_Inr:
  assumes "Grant env pc nl ok1 ok2 now a req d s = (Inr g, d', s')"
  obtains agents counts s1 rows d1 needOpts where
    "fleet ok1 ok2 now d s = ((agents, counts), s1)"
    "LeaseShards nl a (min (fairShare (uint (wr_ShardCredits req) + uint (wr_TaskCredits req)) (Queued counts) agents) grantMaxItems)
       (LeaseTTL s1) now d = (rows, d1)"
    "grantItems env pc now agents counts rows d1 s1 = (Inr (wg_Items g, needOpts), d', s')"
    "wg_Options g = map (\<lambda>j. pol_opts (the (policies s' j))) (filter (\<lambda>j.
       cachedHash (wr_Cached req) (word_of_int j) \<noteq> oOptionsHash (pol_opts (the (policies s' j)))) needOpts)"
    "set needOpts \<subseteq> dom (policies s')"
proof -
  obtain agents counts s1 where f: "fleet ok1 ok2 now d s = ((agents, counts), s1)" by (metis prod.exhaust)
  obtain rows d1 where l: "LeaseShards nl a (min (fairShare (uint (wr_ShardCredits req) + uint (wr_TaskCredits req)) (Queued counts) agents) grantMaxItems)
       (LeaseTTL s1) now d = (rows, d1)" by (metis prod.exhaust)
  obtain items needOpts s2 where i: "grantItems env pc now agents counts rows d1 s1 = (Inr (items, needOpts), d', s2)"
    and o: "\<exists>opts. grantOptions env (cachedHash (wr_Cached req)) needOpts d' s2 = (Inr opts, s') \<and>
      g = \<lparr>wg_Items = items, wg_Options = opts\<rparr>"
    using assms f l by (auto simp: Grant_def Let_def split: prod.splits sum.splits)
  have "set needOpts \<subseteq> dom (policies s2)" using grantItems_from_rows [OF i] by blast
  from grantOptions_cached [OF this, of env "cachedHash (wr_Cached req)" d'] o this i
  show ?thesis by (intro that [OF f l, of needOpts]) auto
qed

lemma fairShare_le: "0 \<le> credits \<Longrightarrow> fairShare credits queued agents \<le> credits"
  by (simp add: fairShare_def Let_def)

section \<open>Properties\<close>

text \<open>
  (C18) No lease is lost between the store and the agent: a grant carries at most \<open>grantMaxItems\<close> items
  and never more than the agent asked for, every shard that is leased after the grant and was not
  before belongs to this agent and its lease is the lease of an item of the grant, and the options
  of that shard's job are either in the grant or already cached by the agent under the same hash.
\<close>

theorem grant_carries_every_lease:
  assumes "Grant env pc nl ok1 ok2 now a req d s = (Inr g, d', s')" "store_inv d"
  shows "int (length (wg_Items g)) \<le> min 64 (uint (wr_ShardCredits req) + uint (wr_TaskCredits req)) \<and>
    (\<forall>t \<in> set (t_shards d'). shard_state t = ShardLeased \<and> t \<notin> set (t_shards d) \<longrightarrow>
       lease_agent t = Some a \<and>
       (\<exists>it \<in> set (wg_Items g). \<exists>l. lease_id t = Some l \<and> wi_LeaseId it = word_of_int l)) \<and>
    (\<forall>t \<in> set (t_shards d'). \<forall>p j. shard_state t = ShardLeased \<and> t \<notin> set (t_shards d) \<and>
       pass_job_of (shard_pass t) d = Some (p, j) \<longrightarrow>
       (\<exists>pol. policies s' (pass_job p) = Some pol \<and> (pol_opts pol \<in> set (wg_Options g) \<or>
          cachedHash (wr_Cached req) (word_of_int (pass_job p)) = oOptionsHash (pol_opts pol))))"
proof (rule Grant_Inr [OF assms(1)])
  fix agents and counts :: SchedulerCounts and s1 :: Scheduler and rows d1 needOpts
  let ?n = "min (fairShare (uint (wr_ShardCredits req) + uint (wr_TaskCredits req)) (Queued counts) agents) grantMaxItems"
  assume l: "LeaseShards nl a ?n (LeaseTTL s1) now d = (rows, d1)"
    and i: "grantItems env pc now agents counts rows d1 s1 = (Inr (wg_Items g, needOpts), d', s')"
    and o: "wg_Options g = map (\<lambda>j. pol_opts (the (policies s' j))) (filter (\<lambda>j.
       cachedHash (wr_Cached req) (word_of_int j) \<noteq> oOptionsHash (pol_opts (the (policies s' j)))) needOpts)"
    and dom: "set needOpts \<subseteq> dom (policies s')"
  have "int (length (wg_Items g)) \<le> int (length rows)" using grantItems_from_rows [OF i] by simp
  also have "\<dots> \<le> max 0 ?n" by (rule LeaseShards_length [OF l assms(2)])
  also have "\<dots> \<le> min 64 (uint (wr_ShardCredits req) + uint (wr_TaskCredits req))"
    using fairShare_le [of "uint (wr_ShardCredits req) + uint (wr_TaskCredits req)" "Queued counts" agents]
    by (simp add: grantMaxItems_def min_def max_def)
  finally have len: "int (length (wg_Items g)) \<le> min 64 (uint (wr_ShardCredits req) + uint (wr_TaskCredits req))" .
  have new: "lease_agent t = Some a \<and> (\<exists>r \<in> set rows. holds_lease (sr_ID r) (sr_LeaseID r) t \<and>
      (\<exists>it \<in> set (wg_Items g). wi_LeaseId it = word_of_int (sr_LeaseID r)) \<and> sr_JobID r \<in> set needOpts \<and>
      (\<forall>p j. pass_job_of (shard_pass t) d = Some (p, j) \<longrightarrow> sr_JobID r = pass_job p))"
    if "t \<in> set (t_shards d')" "shard_state t = ShardLeased" "t \<notin> set (t_shards d)" for t
    using grantItems_leased [OF i that(1,2)] LeaseShards_new [OF l assms(2), of t] that(3) by blast
  have "\<exists>pol. policies s' (pass_job p) = Some pol \<and> (pol_opts pol \<in> set (wg_Options g) \<or>
      cachedHash (wr_Cached req) (word_of_int (pass_job p)) = oOptionsHash (pol_opts pol))"
    if t: "t \<in> set (t_shards d')" "shard_state t = ShardLeased" "t \<notin> set (t_shards d)" "pass_job_of (shard_pass t) d = Some (p, j)" for t p j
  proof -
    have j: "pass_job p \<in> set needOpts" using new [OF t(1-3)] t(4) by metis
    then obtain pol where "policies s' (pass_job p) = Some pol" using dom by blast
    then show ?thesis using j unfolding o by force
  qed
  then show ?thesis using new len by (auto simp: holds_lease_def) blast+
qed

text \<open>
  A fair share is at least one shard and at most the request, is the whole request for a lone
  agent or a deep queue, and strands nothing: when every agent takes its share, the shares cover the
  whole queue or every request is filled.
\<close>

theorem fairShare_bounds:
  assumes "0 < credits" "0 \<le> queued" "1 \<le> agents"
  shows "1 \<le> fairShare credits queued agents \<and> fairShare credits queued agents \<le> credits \<and>
    (agents = 1 \<or> agents * credits \<le> queued \<longrightarrow> fairShare credits queued agents = credits) \<and>
    min queued (agents * credits) \<le> agents * fairShare credits queued agents \<and>
    (fairShare credits queued agents < credits \<longrightarrow> agents * (fairShare credits queued agents - 1) < max 1 queued)"
proof (cases "agents < 2 \<or> queued \<ge> agents * credits")
  case True
  then show ?thesis using assms by (auto simp: fairShare_def)
next
  case False
  define share where "share = (queued + agents - 1) div agents"
  have f: "fairShare credits queued agents = min (max 1 share) credits"
    using False assms by (auto simp: fairShare_def Let_def share_def signed_divide_int_def sgn_if max_def)
  have up: "queued \<le> agents * share" and lo: "agents * (share - 1) < queued"
  proof -
    have m: "agents * share = queued + agents - 1 - (queued + agents - 1) mod agents"
      by (simp add: share_def minus_mod_eq_mult_div)
    have "(queued + agents - 1) mod agents < agents" "0 \<le> (queued + agents - 1) mod agents" using assms(3) by simp_all
    then show "queued \<le> agents * share" "agents * (share - 1) < queued" using m by (simp_all add: right_diff_distrib)
  qed
  have "agents * share \<le> agents * max 1 share" using assms(3) by simp
  moreover have "agents * share \<le> 0" if "share < 1" using that assms(3) by (simp add: mult_nonneg_nonpos)
  ultimately show ?thesis using False assms up lo unfolding f by (auto simp: min_def max_def)
qed

text \<open>
  Fan-out only ever makes a job's shards smaller: an override stops all descent, its split
  threshold is between one and \<open>spreadSplitThreshold\<close> and not above a threshold the operator set;
  \<open>off\<close> never overrides, \<open>always\<close> always does, and \<open>auto\<close> does exactly while fewer walk shards are
  pending than the fleet's target, as long as the target fits 63 bits.
\<close>

theorem walkOverrides_bounds:
  assumes "0 \<le> agents" "agents * uint (TargetPerAgent (pol_spread pol)) < 2 ^ 63"
  defines "mode \<equiv> sp_Mode (pol_spread pol)" and "t \<equiv> oDirSplitThreshold (oTuning (pol_opts pol))"
  shows "(walkOverrides pol agents c \<noteq> None \<longleftrightarrow> mode = SpreadAlways \<or>
      mode \<noteq> SpreadOff \<and> WalkPending c < agents * uint (TargetPerAgent (pol_spread pol))) \<and>
    (\<forall>ov. walkOverrides pol agents c = Some ov \<longrightarrow> WalkBudget ov = Some 0 \<and>
       (\<exists>split. SplitThreshold ov = Some split \<and> 0 < split \<and> split \<le> spreadSplitThreshold \<and> (0 < t \<longrightarrow> split \<le> t)))"
proof -
  let ?T = "TargetPerAgent (pol_spread pol)"
  have "sint (word_of_int agents * ?T) = agents * uint ?T"
  proof -
    have w: "word_of_int agents * ?T = (word_of_int (agents * uint ?T) :: u64)" by simp
    have "sint (word_of_int n :: u64) = signed_take_bit 63 n" for n by transfer simp
    then have "sint (word_of_int (agents * uint ?T) :: u64) = signed_take_bit 63 (agents * uint ?T)" .
    also have "\<dots> = agents * uint ?T"
    proof (rule signed_take_bit_int_eq_self)
      have "0 \<le> agents * uint ?T" using assms(1) by simp
      moreover have "- (2 ^ 63) \<le> (0 :: int)" by simp
      ultimately show "- (2 ^ 63) \<le> agents * uint ?T" by linarith
    qed (rule assms(2))
    finally show ?thesis unfolding w .
  qed
  moreover have "SpreadAlways \<noteq> SpreadOff" by (simp add: SpreadAlways_def SpreadOff_def)
  moreover have "0 < spreadSplitThreshold" by (simp add: spreadSplitThreshold_def word_less_alt)
  ultimately show ?thesis
    by (auto simp: walkOverrides_def Let_def mode_def t_def not_less)
qed

section \<open>Witnesses\<close>

definition sample_opts :: JobOptions where
  "sample_opts = \<lparr>oJobId = 1, oJobName = ''j'', oSrcRoot = ''/s'', oDstRoot = ''/d'',
     oCopy = \<lparr>oChunkThreshold = 0, oChunkSize = 4, oBufferSize = 0, oPreserveSparse = False, oTempPrefix = ''.t'',
       oDirectWrite = False, oServerSideCopy = SSC_AUTO, oOnDestNewer = CONFLICT_OVERWRITE, oFsyncMode = FSYNC_BATCHED\<rparr>,
     oMetadata = \<lparr>oOwner = True, oMode = True, oTimes = True, oXattrs = False, oPosix = False, oNfs4 = False,
       oUntranslatable = UNTRANSLATABLE_WARN, oSpecials = False\<rparr>,
     oSampleRatePpm = 0, oOnMismatch = ON_MISMATCH_FAIL, oBandwidthPerAgent = 0, oIopsPerAgent = 0,
     oTuning = \<lparr>oShardBudget = 0, oDirSplitThreshold = 100, oEntrylistBatch = 0, oStatxBatch = 0, oMtimeSlopNs = 0,
       oDeleteSplitThreshold = 0, oDeleteSplitBatch = 0, oDeleteShardBudget = 0\<rparr>,
     oDryRun = False, oRequireMount = False, oFilters = [], oOptionsHash = 7\<rparr>"

definition sample_policy :: jobPolicy where
  "sample_policy = \<lparr>pol_opts = sample_opts, pol_spread = \<lparr>sp_Mode = SpreadAuto, TargetPerAgent = 32\<rparr>,
     pol_hardlinks = ''report'', maxGrpScan = 0\<rparr>"

definition sample_sched :: Scheduler where
  "sample_sched = (New 60000)\<lparr>policies := (\<lambda>_. Some sample_policy)\<rparr>"

definition no_codec :: "'m codec" where
  "no_codec = \<lparr>marshal = (\<lambda>_. None), unmarshal = (\<lambda>_. None)\<rparr>"

definition sample_pc :: payload_codecs where
  "sample_pc = \<lparr>pc_EntryList = no_codec, pc_Chunk = no_codec, pc_Dirfix = no_codec, pc_Verify = no_codec,
     pc_Delete = no_codec, pc_LinkBatch = no_codec, unmarshalText = (\<lambda>_. ''bad'')\<rparr>"

definition sample_env :: sched_env where
  "sample_env = \<lparr>se_yaml = (\<lambda>_. Some (sample_spec '''')), se_marshal = (\<lambda>_. Some []), se_oor = (\<lambda>_. 0)\<rparr>"

definition sample_req :: WorkRequest where
  "sample_req = \<lparr>wr_ShardCredits = 1, wr_TaskCredits = 1, wr_Cached = []\<rparr>"

text \<open>Of the two shards leased here the chunk's payload does not decode: it is parked, the directory is granted.\<close>

definition sample_grant :: "(sched_error + WorkGrant) \<times> db \<times> Scheduler" where
  "sample_grant = Grant sample_env sample_pc int True True 100 ''a'' sample_req sample_db sample_sched"

lemma sample_grant_eval:
  "(case fst sample_grant of Inl e \<Rightarrow> None | Inr g \<Rightarrow> Some (map wi_LeaseId (wg_Items g), map oJobId (wg_Options g))) = Some ([1], [1])"
  "map (\<lambda>t. (shard_id t, shard_state t, lease_id t)) (t_shards (fst (snd sample_grant))) =
     [(1, ShardLeased, Some 1), (2, ShardQueued, None), (3, ShardParked, None)]"
  by code_simp+

theorem grant_carries_every_lease_witness:
  "\<exists>g. fst sample_grant = Inr g \<and> length (wg_Items g) = 1 \<and> int (length (wg_Items g)) \<le> min 64 2"
proof -
  obtain g d' s' where g: "sample_grant = (Inr g, d', s')" "map wi_LeaseId (wg_Items g) = [1]"
  proof -
    obtain g where "fst sample_grant = Inr g" "map wi_LeaseId (wg_Items g) = [1]"
      using sample_grant_eval(1) by (cases "fst sample_grant") auto
    then show ?thesis using that [of g "fst (snd sample_grant)" "snd (snd sample_grant)"] by (metis prod.collapse)
  qed
  then have "length (wg_Items g) = 1" by (metis length_map length_Cons list.size(3) One_nat_def)
  moreover have "int (length (wg_Items g)) \<le> min 64 2"
    using conjunct1 [OF grant_carries_every_lease [OF g(1) [unfolded sample_grant_def] store_inv_sample]]
    by (simp add: sample_req_def)
  moreover have "fst sample_grant = Inr g" unfolding g(1) by simp
  ultimately show ?thesis by blast
qed

theorem fairShare_bounds_witness: "fairShare 48 10 4 = 3 \<and> 10 \<le> 4 * fairShare 48 10 4"
  using fairShare_bounds [of 48 10 4] by (simp add: fairShare_def signed_divide_int_def)

theorem walkOverrides_bounds_witness:
  "\<exists>ov. walkOverrides sample_policy 2 \<lparr>WalkPending = 5, Queued = 5\<rparr> = Some ov \<and> WalkBudget ov = Some 0 \<and> SplitThreshold ov = Some 100"
proof -
  have t: "TargetPerAgent (pol_spread sample_policy) = 32" "sp_Mode (pol_spread sample_policy) = SpreadAuto"
    by (simp_all add: sample_policy_def)
  then have "walkOverrides sample_policy 2 \<lparr>WalkPending = 5, Queued = 5\<rparr> \<noteq> None"
    using walkOverrides_bounds [of 2 sample_policy "\<lparr>WalkPending = 5, Queued = 5\<rparr>"]
    by (simp add: SpreadAuto_def SpreadOff_def)
  then show ?thesis
    by (auto simp: walkOverrides_def Let_def sample_policy_def sample_opts_def spreadSplitThreshold_def split: if_splits)
qed

section \<open>The policy cache\<close>

text \<open>
  What a policy is resolved from: the immutable columns of a job, and the sequence its id came from.
\<close>

definition specs :: "db \<Rightarrow> (int \<times> bytes \<times> bool) list \<times> int" where
  "specs d = (map (\<lambda>j. (job_id j, job_spec j, job_dry_run j)) (t_jobs d), seq_jobs d)"

lemma specs_ops [simp]:
  "specs (insert_shard r d) = specs d" "specs (update_shards P f d) = specs d" "specs (delete_shards P d) = specs d"
  "specs (SetJobState i js now d) = specs d" "specs (SetPassState i ps now d) = specs d"
  "specs (accumulatePassCounters i c d) = specs d" "specs (set_chunk_state p rel cs d) = specs d"
  "specs (d\<lparr>t_passes := tp\<rparr>) = specs d" "specs (d\<lparr>t_agents := ta\<rparr>) = specs d"
  "specs (d\<lparr>t_splits := ts\<rparr>) = specs d" "specs (d\<lparr>t_cursors := tc\<rparr>) = specs d"
  "specs (d\<lparr>t_chunk_groups := tg\<rparr>) = specs d" "specs (d\<lparr>t_journal_counts := tj'\<rparr>) = specs d"
  "specs (d\<lparr>t_delete_groups := dg\<rparr>) = specs d" "specs (d\<lparr>t_link_groups := lg\<rparr>) = specs d"
  "specs (d\<lparr>t_link_members := lm\<rparr>) = specs d" "specs (d\<lparr>seq_passes := sq\<rparr>) = specs d"
  by (simp_all add: specs_def insert_shard_def update_shards_def delete_shards_def SetJobState_def SetPassState_def
      accumulatePassCounters_def set_chunk_state_def map_update_where split: option.splits)

lemma specs_groups_only: "groups_only d d' \<Longrightarrow> specs d' = specs d"
  by (simp add: groups_only_def specs_def)

lemma specs_group_ops [simp]:
  "specs (insert_group g d) = specs d" "specs (ensure_group p rel d) = specs d" "specs (update_groups P f d) = specs d"
  by (rule specs_groups_only; simp)+

lemma specs_insertShardsTx: "insertShardsTx p par now nss d = Inr (ids, d') \<Longrightarrow> specs d' = specs d"
  by (simp add: specs_def insertShardsTx_frame)

lemma specs_LeaseShards [simp]: "specs (snd (LeaseShards nl a n ttl now d)) = specs d"
proof -
  obtain out d' where e: "LeaseShards nl a n ttl now d = (out, d')" by force
  then have "specs d' = specs d" by (cases rule: LeaseShards_cases) (auto simp: specs_def dest: grant_rows_frame)
  then show ?thesis using e by simp
qed

lemma specs_shardTransition: "shardTransition i l to res err p c now d = Inr d' \<Longrightarrow> specs d' = specs d"
  by (drule shardTransition_InrD(2)) simp

lemma specs_pair_ops [simp]:
  "specs (snd (RenewLeasesByID a ls ttl now d)) = specs d" "specs (snd (ExpireLeases ms now d)) = specs d"
  "specs (snd (ReapDoneShards p ks d)) = specs d" "specs (snd (PruneStaleProbes p d)) = specs d"
  "specs (snd (RetryParkedByJob name now d)) = specs d" "specs (snd (DropParkedByJob name d)) = specs d"
  "specs (snd (ReapLinkRegistry p d)) = specs d" "specs (MarkLinkMembersQueued p lks d) = specs d"
  "specs (TouchAgents stamps d) = specs d" "specs (SetAgentState a st d) = specs d"
  "specs (UpsertAgent a host ver minor now d) = specs d" "specs (SetJournalTypeCounts p counts d) = specs d"
  "specs (SetJournalCursor p a seq d) = specs d"
  by (simp_all add: RenewLeasesByID_def ExpireLeases_def ReapDoneShards_def PruneStaleProbes_def RetryParkedByJob_def
      DropParkedByJob_def ReapLinkRegistry_def MarkLinkMembersQueued_def TouchAgents_def SetAgentState_def UpsertAgent_def
      SetJournalTypeCounts_def SetJournalCursor_def Let_def)

lemma specs_fold_groups [simp]:
  "specs (fold (insert_chunk_group p) gs d) = specs d" "specs (recordLinkSightingsTx p mx now sgs d) = specs d"
  "specs (registerPendingChildTx p c d) = specs d"
proof -
  show "specs (fold (insert_chunk_group p) gs d) = specs d"
    by (induction gs arbitrary: d) (simp_all add: insert_chunk_group_def)
  show "specs (recordLinkSightingsTx p mx now sgs d) = specs d"
    unfolding recordLinkSightingsTx_def
    by (induction sgs arbitrary: d)
      (simp_all add: record_sighting_def refresh_link_group_def insert_link_member_def ensure_link_group_def Let_def)
  show "specs (registerPendingChildTx p c d) = specs d"
    by (induction p c d rule: registerPendingChildTx.induct)
      (subst registerPendingChildTx.simps, auto simp: Let_def split: option.splits)
qed

lemma specs_RecordSplit:
  "RecordSplit parent seq shards groups sightings mx dts now d = Inr (ids, d') \<Longrightarrow> specs d' = specs d"
  by (cases rule: RecordSplit_cases)
    (auto dest!: specs_groups_only [OF groups_only_totals] specs_insertShardsTx)

lemma specs_group_completions:
  "CompleteDataChunk i l p rel fs c now d = Inr (b, d') \<Longrightarrow> specs d' = specs d"
  "CompleteFinalizeChunk i l p rel c now d = Inr d' \<Longrightarrow> specs d' = specs d"
  "AbortChunkGroup i l p rel now d = Inr d' \<Longrightarrow> specs d' = specs d"
  "CompleteDeleteRemainder i l p rel res seed cleanup build deferred c now d = Inr d' \<Longrightarrow> specs d' = specs d"
proof -
  have def: "specs d2 = specs d1" if "close_deferred p build now deferred d1 = Inr d2" for d1 d2
    using that by (induction deferred arbitrary: d1)
      (auto split: sum.splits dest!: specs_groups_only [OF groups_only_bump])
  have fin: "specs d1 = specs d" if "finish_chunk_shard i l now d = Inr d1" for d1
    using that by (auto simp: finish_chunk_shard_def split: if_splits)
  show "specs d' = specs d" if "CompleteDataChunk i l p rel fs c now d = Inr (b, d')"
    using that by (auto simp: CompleteDataChunk_def Let_def split: sum.splits option.splits if_splits prod.splits
        dest!: fin specs_insertShardsTx)
  show "specs d' = specs d" if "CompleteFinalizeChunk i l p rel c now d = Inr d'"
    using that by (auto simp: CompleteFinalizeChunk_def split: sum.splits dest!: fin)
  show "specs d' = specs d" if "AbortChunkGroup i l p rel now d = Inr d'"
    using that by (auto simp: AbortChunkGroup_def split: sum.splits dest!: fin)
  show "specs d' = specs d" if "CompleteDeleteRemainder i l p rel res seed cleanup build deferred c now d = Inr d'"
    using that by (auto simp: CompleteDeleteRemainder_def Let_def split: sum.splits if_splits
        dest!: specs_groups_only [OF groups_only_bump] def)
qed

text \<open>A transaction drops jobs or adds one under a fresh id; it never edits the spec of a job.\<close>

definition specs_grow :: "db \<Rightarrow> db \<Rightarrow> bool" where
  "specs_grow d d' \<longleftrightarrow> seq_jobs d \<le> seq_jobs d' \<and>
     (\<forall>x \<in> set (fst (specs d')). x \<in> set (fst (specs d)) \<or> seq_jobs d < fst x)"

lemma specs_grow_eq: "specs d' = specs d \<Longrightarrow> specs_grow d d'"
  by (simp add: specs_grow_def specs_def)

lemma specs_grow_step: "store_step d d' \<Longrightarrow> specs_grow d d'"
proof (induction rule: store_step.induct)
  case (create_job yaml name spec dry user now d j d')
  then show ?case
    by (auto simp: specs_grow_def specs_def CreateJob_def Let_def split: sum.splits option.splits if_splits)
next
  case (delete_job name d i d')
  have "t_jobs d' = delete_where (\<lambda>j. job_id j = i) (t_jobs d) \<and> seq_jobs d' = seq_jobs d"
    using delete_job by (auto simp: DeleteJob_def delete_job_rows_def Let_def delete_shards_def split: option.splits if_splits)
  then show ?case by (auto simp: specs_grow_def specs_def)
qed (auto intro!: specs_grow_eq simp: CreatePass_def SetAgentEnabled_def InsertShards_def CompleteShard_def RequeueShard_def
    ReleaseShard_def ParkShard_def RetryParkedShard_def DropParkedShard_def Let_def split: if_splits
    dest: specs_shardTransition specs_insertShardsTx specs_group_completions specs_RecordSplit)

text \<open>
  A cached policy is what a fresh resolution of the job would give, as long as the job exists; its id
  came from the sequence, so no later job can take it over.
\<close>

definition coherent :: "sched_env \<Rightarrow> db \<Rightarrow> Scheduler \<Rightarrow> bool" where
  "coherent env d s \<longleftrightarrow> (\<forall>j pol. policies s j = Some pol \<longrightarrow>
     j \<le> seq_jobs d \<and> (j \<in> job_id ` set (t_jobs d) \<longrightarrow> resolvePolicy env j d = Inr pol))"

lemma resolvePolicy_spec:
  assumes "distinct (map job_id (t_jobs d))" "(j, spec, dry) \<in> set (fst (specs d))"
  shows "resolvePolicy env j d =
    (case ParseSpec (se_yaml env) spec of
       Inl e \<Rightarrow> Inl (SchedSpec e)
     | Inr sp \<Rightarrow> (case ToJobOptions (se_marshal env) (se_oor env) sp (word_of_int j) dry of
         Inl e \<Rightarrow> Inl (SchedOptions e)
       | Inr opts \<Rightarrow> Inr \<lparr>pol_opts = opts, pol_spread = SpreadPolicy_of sp,
           pol_hardlinks = Hardlinks (Metadata sp), maxGrpScan = HardlinksMaxGroupScan (Metadata sp)\<rparr>))"
proof -
  obtain job where job: "job \<in> set (t_jobs d)" "job_id job = j" "job_spec job = spec" "job_dry_run job = dry"
    using assms(2) by (auto simp: specs_def)
  then have "List.find (\<lambda>x. job_id x = j) (t_jobs d) = Some job"
    using find_key_some [OF assms(1) job(1)] by simp
  then show ?thesis using job by (simp add: resolvePolicy_def GetJobByID_def split: sum.splits)
qed

lemma resolvePolicy_id: "resolvePolicy env j d = Inr pol \<Longrightarrow> j \<in> job_id ` set (t_jobs d)"
  by (auto simp: resolvePolicy_def GetJobByID_def split: sum.splits option.splits dest: find_SomeD)

lemma coherent_grow:
  assumes "coherent env d s" "specs_grow d d'" "jobs_inv d" "jobs_inv d'"
  shows "coherent env d' s"
  unfolding coherent_def
proof (intro allI impI conjI)
  fix j pol
  assume p: "policies s j = Some pol"
  have le: "j \<le> seq_jobs d" using assms(1) p by (simp add: coherent_def)
  then show "j \<le> seq_jobs d'" using assms(2) by (simp add: specs_grow_def)
  assume "j \<in> job_id ` set (t_jobs d')"
  then obtain spec dry where x: "(j, spec, dry) \<in> set (fst (specs d'))" by (auto simp: specs_def)
  then have y: "(j, spec, dry) \<in> set (fst (specs d))" using assms(2) le by (force simp: specs_grow_def)
  then have "resolvePolicy env j d = Inr pol" using assms(1) p by (force simp: coherent_def specs_def)
  then show "resolvePolicy env j d' = Inr pol"
    unfolding resolvePolicy_spec [OF jobs_invD(1) [OF assms(4)] x] resolvePolicy_spec [OF jobs_invD(1) [OF assms(3)] y] .
qed

lemma coherent_lookup:
  assumes "coherent env d s" "jobs_inv d"
  shows "coherent env d (snd (jobPolicy_of env j d s))"
  unfolding coherent_def
proof (intro allI impI)
  fix i pol
  assume p: "policies (snd (jobPolicy_of env j d s)) i = Some pol"
  have "policies s i = Some pol \<or> resolvePolicy env i d = Inr pol"
    using p by (auto simp: jobPolicy_of_def split: option.splits sum.splits if_splits)
  then show "i \<le> seq_jobs d \<and> (i \<in> job_id ` set (t_jobs d) \<longrightarrow> resolvePolicy env i d = Inr pol)"
    using assms resolvePolicy_id [of env i d pol] by (auto simp: coherent_def jobs_inv_def)
qed

text \<open>The loops of a grant are lookups and parkings.\<close>

lemma coherent_grantItems:
  "coherent env d s \<Longrightarrow> db_inv d \<Longrightarrow> grantItems env pc now agents counts rows d s = (r, d', s') \<Longrightarrow>
   coherent env d' s' \<and> db_inv d'"
proof (induction rows arbitrary: d s r)
  case (Cons row rows)
  obtain r1 s1 where j: "jobPolicy_of env (sr_JobID row) d s = (r1, s1)" by force
  have c1: "coherent env d s1" using coherent_lookup [OF Cons.prems(1) db_invD(3) [OF Cons.prems(2)], of "sr_JobID row"] j by simp
  show ?case
  proof (cases r1)
    case (Inl e)
    then show ?thesis using Cons.prems j c1 by simp
  next
    case (Inr pol)
    show ?thesis
    proof (cases "buildItem pc s1 row (walkOverrides pol agents counts)")
      case e: (Inl e)
      let ?msg = "''unbuildable payload: '' @ buildErrorText e"
      let ?d1 = "case ParkShard (sr_ID row) (sr_LeaseID row) ?msg now d of Inl _ \<Rightarrow> d | Inr d1 \<Rightarrow> d1"
      have i: "db_inv ?d1" and g: "specs_grow d ?d1"
        using Cons.prems(2) db_inv_shardTransition [of _ _ ShardParked] specs_grow_eq [OF specs_shardTransition] specs_grow_eq [of d d]
        unfolding ParkShard_def by (auto split: sum.splits)
      have "coherent env ?d1 s1" by (rule coherent_grow [OF c1 g db_invD(3) [OF Cons.prems(2)] db_invD(3) [OF i]])
      then show ?thesis using Cons.IH [OF _ i] Cons.prems(3) j Inr e by simp
    next
      case (Inr it)
      then obtain r2 where "grantItems env pc now agents counts rows d s1 = (r2, d', s')"
        using Cons.prems(3) j \<open>r1 = Inr pol\<close> by (auto split: prod.splits sum.splits)
      then show ?thesis using Cons.IH [OF c1 Cons.prems(2)] by blast
    qed
  qed
qed auto

lemma coherent_grantOptions:
  "coherent env d s \<Longrightarrow> jobs_inv d \<Longrightarrow> grantOptions env cached jobs d s = (r, s') \<Longrightarrow> coherent env d s'"
proof (induction jobs arbitrary: s r)
  case (Cons j jobs)
  obtain r1 s1 where l: "jobPolicy_of env j d s = (r1, s1)" by force
  have c1: "coherent env d s1" using coherent_lookup [OF Cons.prems(1,2), of j] l by simp
  show ?case
  proof (cases r1)
    case (Inr pol)
    then obtain r2 where "grantOptions env cached jobs d s1 = (r2, s')"
      using Cons.prems(3) l by (auto split: prod.splits sum.splits)
    then show ?thesis using Cons.IH [OF c1 Cons.prems(2)] by blast
  qed (use Cons.prems l c1 in simp)
qed simp

lemma coherent_policies: "policies s' = policies s \<Longrightarrow> coherent env d s' = coherent env d s"
  by (simp add: coherent_def)

lemma policies_fleet: "policies (snd (fleet ok1 ok2 now d s)) = policies s"
  by (simp add: fleet_def Let_def)

lemma coherent_Grant:
  assumes "coherent env d s" "db_inv d" "Grant env pc nl ok1 ok2 now a req d s = (r, d', s')"
  shows "coherent env d' s' \<and> db_inv d'"
proof -
  obtain agents counts s1 where f: "fleet ok1 ok2 now d s = ((agents, counts), s1)" by (metis prod.exhaust)
  let ?n = "min (fairShare (uint (wr_ShardCredits req) + uint (wr_TaskCredits req)) (Queued counts) agents) grantMaxItems"
  obtain rows d1 where l: "LeaseShards nl a ?n (LeaseTTL s1) now d = (rows, d1)" by (metis prod.exhaust)
  have i1: "db_inv d1" using db_inv_LeaseShards [OF assms(2), of nl a ?n "LeaseTTL s1" now] l by simp
  have "coherent env d s1" using assms(1) coherent_policies policies_fleet [of ok1 ok2 now d s] f by (metis snd_conv)
  then have c1: "coherent env d1 s1"
    using coherent_grow specs_grow_eq specs_LeaseShards [of nl a ?n "LeaseTTL s1" now d] l
      db_invD(3) [OF assms(2)] db_invD(3) [OF i1] by (metis snd_conv)
  obtain r2 d2 s2 where g: "grantItems env pc now agents counts rows d1 s1 = (r2, d2, s2)" by (metis prod.exhaust)
  have c2: "coherent env d2 s2" "db_inv d2" using coherent_grantItems [OF c1 i1 g] by simp_all
  show ?thesis
  proof (cases r2)
    case (Inr x)
    obtain r3 s3 where "grantOptions env (cachedHash (wr_Cached req)) (snd x) d2 s2 = (r3, s3)" by force
    then show ?thesis using coherent_grantOptions [OF c2(1) db_invD(3) [OF c2(2)]] c2 assms(3) f l g Inr
      by (cases x) (auto simp: Grant_def Let_def split: sum.splits)
  qed (use assms(3) f l g c2 in \<open>simp add: Grant_def Let_def\<close>)
qed

text \<open>The scheduler beside the store: grants, policy lookups, invalidations and every transaction of the others.\<close>

inductive sched_step :: "sched_env \<Rightarrow> db \<times> Scheduler \<Rightarrow> db \<times> Scheduler \<Rightarrow> bool" for env where
  store_tx: "store_step d d' \<Longrightarrow> sched_step env (d, s) (d', s)"
| grant: "Grant env pc nl ok1 ok2 now a req d s = (r, d', s') \<Longrightarrow> sched_step env (d, s) (d', s')"
| lookup: "jobPolicy_of env j d s = (r, s') \<Longrightarrow> sched_step env (d, s) (d, s')"
| invalidate: "sched_step env (d, s) (d, InvalidateOptions j s)"

definition sched_inv :: "sched_env \<Rightarrow> db \<times> Scheduler \<Rightarrow> bool" where
  "sched_inv env x \<longleftrightarrow> db_inv (fst x) \<and> coherent env (fst x) (snd x)"

lemma sched_inv_step: "sched_step env x y \<Longrightarrow> sched_inv env x \<Longrightarrow> sched_inv env y"
proof (induction rule: sched_step.induct)
  case (store_tx d d' s)
  then have "db_inv d'" using store.inv_step [of d d'] by (simp add: sched_inv_def)
  then show ?case
    using store_tx coherent_grow [OF _ specs_grow_step [OF store_tx(1)], of env s] db_invD(3) by (simp add: sched_inv_def)
next
  case (lookup j d s r s')
  then show ?case using coherent_lookup [of env d s j] by (auto simp: sched_inv_def dest: db_invD)
next
  case (grant pc nl ok1 ok2 now a req d s r d' s')
  then show ?case using coherent_Grant [of env d s] by (simp add: sched_inv_def)
qed (auto simp: sched_inv_def coherent_def InvalidateOptions_def)

interpretation sched: invariant_system "sched_step env" "\<lambda>x. \<exists>ttl. x = (empty_db, New ttl)" "sched_inv env" for env
proof unfold_locales
  show "sched_inv env x" if "\<exists>ttl. x = (empty_db, New ttl)" for x
    using that db_inv_empty by (auto simp: sched_inv_def coherent_def New_def)
qed (rule sched_inv_step)

text \<open>
  The policy cache never serves a stale spec: in every state that grants, lookups, invalidations
  and the other transactions of the coordinator can reach from an empty database and a new scheduler,
  a lookup for an existing job answers exactly what resolving its stored spec afresh would.
\<close>

theorem policy_cache_coherent:
  assumes "(sched_step env)\<^sup>*\<^sup>* (empty_db, New ttl) (d, s)" "j \<in> job_id ` set (t_jobs d)"
  shows "fst (jobPolicy_of env j d s) = resolvePolicy env j d"
proof -
  have "sched_inv env (d, s)" by (rule sched.inv_reachable [OF _ assms(1)]) blast
  then show ?thesis using assms(2) by (auto simp: sched_inv_def coherent_def jobPolicy_of_def split: option.splits sum.splits)
qed

theorem policy_cache_coherent_witness:
  "fst (jobPolicy_of sample_env 1 sample_run (snd (jobPolicy_of sample_env 1 sample_run (New 60000)))) =
     resolvePolicy sample_env 1 sample_run"
proof -
  have s: "(sched_step sample_env)\<^sup>*\<^sup>* (empty_db, New 60000) (sample_run, New 60000)"
    using sample_run_reachable by (induction rule: rtranclp_induct) (auto intro: rtranclp.rtrancl_into_rtrancl store_tx)
  have "sched_step sample_env (sample_run, New 60000) (sample_run, snd (jobPolicy_of sample_env 1 sample_run (New 60000)))"
    by (rule lookup [where j = 1]) (rule prod.collapse [symmetric])
  then have r: "(sched_step sample_env)\<^sup>*\<^sup>* (empty_db, New 60000) (sample_run, snd (jobPolicy_of sample_env 1 sample_run (New 60000)))"
    using s by (rule rtranclp.rtrancl_into_rtrancl [rotated])
  have "map job_id (t_jobs sample_run) = [1]" by code_simp
  then have "1 \<in> job_id ` set (t_jobs sample_run)" by (auto simp: map_eq_Cons_conv)
  from policy_cache_coherent [OF r this] show ?thesis .
qed

end
