(* ===== verification/Passctrl.thy ===== *)
theory Passctrl
  imports Effects Journal Scheduler
begin

text \<open>
  The pass controller (\<open>coordinator/internal/passctrl/passctrl.go\<close>): starting, resuming and triggering
  jobs, seeding passes, the phase machine \<open>advance\<close>, the seeders that turn a pass's journal and
  registry into the next phase's shards, the deferred reaper, the convergence decision, and the
  parked-shard alerts and completion reports.

  A method is a computation over \<open>world\<close>: the database, the controller's in-memory maps, and the list of
  messages it has handed to the notifier and to the agent server, newest first. A Go map that is only
  used as a set is a list of keys, a channel the list of its buffered values. The journal files are
  read-only here; they, the clock and the library codecs are fields of \<open>pc_env\<close>. A loop that runs until
  a wall-clock deadline takes the number of rounds the clock allows.
\<close>

section \<open>State\<close>

definition deleteBatchSize :: nat where "deleteBatchSize = 1000"
definition verifyBatchSize :: nat where "verifyBatchSize = 500"
definition dirfixBatchSize :: nat where "dirfixBatchSize = 1000"
definition linkfixBatchSize :: nat where "linkfixBatchSize = 2000"
definition reapChanBuffer :: nat where "reapChanBuffer = 256"

type_synonym reapKey = "int \<times> bool"

record reapRequest =
  rr_job :: job_row
  rr_pass :: pass_row
  rr_kinds :: "ShardKind list"
  rr_registry :: bool

record parkedRollupState =
  lastSentAt :: "int option"
  pending :: "ParkedShard list"

record Controller =
  parkedAlerted :: "int list"
  parkedRollup :: "(string \<times> parkedRollupState) list"
  parkedAutoRetried :: "int list"
  reapCh :: "reapRequest list"
  reapInflight :: "reapKey list"

definition NewController :: Controller where
  "NewController = \<lparr>parkedAlerted = [], parkedRollup = [], parkedAutoRetried = [], reapCh = [], reapInflight = []\<rparr>"

record PassReport =
  pr_Job :: string
  pr_Src :: path
  pr_Dst :: path
  pr_PassNo :: int
  pr_IsDelete :: bool
  pr_DryRun :: bool
  pr_DurationMS :: int
  pr_FilesCopied :: int
  pr_BytesCopied :: int
  pr_MetaFixed :: int
  pr_Orphans :: int
  pr_VerifyOK :: int
  pr_VerifyFail :: int
  pr_Errors :: int
  pr_JobDone :: bool
  pr_Converged :: bool

record JobPass =
  jp_PassNo :: int
  jp_State :: PassState
  jp_IsDelete :: bool
  jp_DurationMS :: int
  jp_DeltaFiles :: int
  jp_DeltaBytes :: int
  jp_Orphans :: int
  jp_VerifyOK :: int
  jp_VerifyFail :: int
  jp_Errors :: int

record JobReport =
  rep_Job :: string
  rep_Src :: path
  rep_Dst :: path
  rep_State :: JobState
  rep_DryRun :: bool
  rep_Passes :: "JobPass list"
  rep_FilesCopied :: int
  rep_BytesCopied :: int
  rep_MetaFixed :: int
  rep_Errors :: int
  rep_FidelityExc :: int
  rep_VerifyOK :: int
  rep_VerifyFail :: int
  rep_Converged :: bool
  OrphansRemaining :: int
  DeletePassRan :: bool
  rep_ParkedShards :: int
  rep_LinksCreated :: int
  rep_LinkAnchorRaces :: int
  rep_LinkFallback :: int
  JournalSummary :: "(string \<times> int) list"

record ParkedShardRow =
  psr_PassNo :: int
  psr_Kind :: ShardKind
  psr_RelPath :: path
  psr_Attempt :: nat
  psr_Error :: string
  psr_LastAgent :: string

record ParkedShardsReport =
  psn_Job :: string
  psn_Src :: path
  psn_Dst :: path
  psn_Shards :: "ParkedShardRow list"

datatype message =
    JobDoneToAgents int
  | PassMail "string list" PassReport
  | JobMail "string list" JobReport
  | ParkedMail "string list" ParkedShardsReport

record world =
  m_db :: db
  m_ctl :: Controller
  m_out :: "message list"

text \<open>
  \<open>pe_notifier\<close> is the notifier's rollup window in milliseconds, \<open>None\<close> when email is not configured;
  \<open>pe_hook\<close> says whether \<open>NotifyJobDone\<close> is wired.
\<close>

record pc_env =
  pe_yaml :: "bytes \<Rightarrow> JobSpec option"
  pe_oor :: "f64 \<Rightarrow> u64"
  pe_jc :: journal_codecs
  pe_pc :: payload_codecs
  journalRoot :: string
  pe_files :: files
  pe_now :: int
  pe_notifier :: "int option"
  pe_hook :: bool

datatype pc_error =
    PStore store_error
  | PSpec spec_error
  | PMarshal
  | PJobState JobState
  | PActivePass int PassState
  | PNoCompletedPass
  | PNoOrphans int
  | PReadJournal "pc_error journal_error"
  | PReadOrphans "unit journal_error"

type_synonym 'a ctl = "(world, pc_error, 'a) eff"

definition readDB :: "(db \<Rightarrow> 'a) \<Rightarrow> 'a ctl" where
  "readDB f = getE (\<lambda>w. f (m_db w))"

definition callDB :: "(db \<Rightarrow> store_error + 'a) \<Rightarrow> 'a ctl" where
  "callDB f w = (map_sum PStore id (f (m_db w)), w)"

definition txDB :: "(db \<Rightarrow> store_error + 'a \<times> db) \<Rightarrow> 'a ctl" where
  "txDB t w = (case t (m_db w) of Inl e \<Rightarrow> (Inl (PStore e), w) | Inr (a, d) \<Rightarrow> (Inr a, w\<lparr>m_db := d\<rparr>))"

definition writeDB :: "(db \<Rightarrow> 'a \<times> db) \<Rightarrow> 'a ctl" where
  "writeDB f w = (Inr (fst (f (m_db w))), w\<lparr>m_db := snd (f (m_db w))\<rparr>)"

definition setDB :: "(db \<Rightarrow> db) \<Rightarrow> unit ctl" where
  "setDB f w = (Inr (), w\<lparr>m_db := f (m_db w)\<rparr>)"

definition onCtl :: "(Controller \<Rightarrow> Controller) \<Rightarrow> unit ctl" where
  "onCtl f = putE (\<lambda>w. w\<lparr>m_ctl := f (m_ctl w)\<rparr>)"

definition emit :: "message \<Rightarrow> unit ctl" where
  "emit m = putE (\<lambda>w. w\<lparr>m_out := m # m_out w\<rparr>)"

definition parseSpec :: "pc_env \<Rightarrow> job_row \<Rightarrow> JobSpec ctl" where
  "parseSpec env job = ofSum (map_sum PSpec id (ParseSpec (pe_yaml env) (job_spec job)))"

definition jobTerminal :: "pc_env \<Rightarrow> int \<Rightarrow> unit ctl" where
  "jobTerminal env jobID = (if pe_hook env then emit (JobDoneToAgents jobID) else returnE ())"

definition insertShards :: "pc_env \<Rightarrow> int \<Rightarrow> NewShard list \<Rightarrow> unit ctl" where
  "insertShards env passID shards = thenE (txDB (InsertShards passID 0 (pe_now env) shards)) (returnE ())"

definition setPassState :: "pc_env \<Rightarrow> int \<Rightarrow> PassState \<Rightarrow> unit ctl" where
  "setPassState env passID st = setDB (SetPassState passID st (pe_now env))"

definition setJobState :: "pc_env \<Rightarrow> int \<Rightarrow> JobState \<Rightarrow> unit ctl" where
  "setJobState env jobID st = setDB (SetJobState jobID st (pe_now env))"

text \<open>A shard literal with the fields the source leaves out at their zero values.\<close>

definition plainShard :: "ShardKind \<Rightarrow> path \<Rightarrow> bytes \<Rightarrow> NewShard" where
  "plainShard k rel payload = \<lparr>ns_Kind = k, ns_RelPath = rel, ns_Payload = payload, ns_TargetAgent = ''''\<rparr>"

section \<open>Starting and seeding\<close>

definition destinationFree :: "pc_env \<Rightarrow> job_row \<Rightarrow> unit ctl" where
  "destinationFree env job =
     bindE (parseSpec env job) (\<lambda>spec.
       callDB (\<lambda>d. case DestinationConflict (pe_yaml env) (job_name job) (DestinationPath spec) JobStatesRunning d of
                     None \<Rightarrow> Inr () | Some e \<Rightarrow> Inl e))"

definition seedPass :: "pc_env \<Rightarrow> int \<Rightarrow> int \<Rightarrow> unit ctl" where
  "seedPass env jobID passNo =
     bindE (readDB SchedulableAgents) (\<lambda>agents.
       if agents = []
       then bindE (txDB (CreatePass jobID passNo PassScanning (pe_now env))) (\<lambda>pass.
              insertShards env (pass_id pass) [plainShard KindDir '''' []])
       else bindE (txDB (CreatePass jobID passNo PassProbing (pe_now env))) (\<lambda>pass.
              insertShards env (pass_id pass)
                (map (\<lambda>a. (plainShard KindProbe '''' [])\<lparr>ns_TargetAgent := a\<rparr>) agents)))"

definition StartJob :: "pc_env \<Rightarrow> string \<Rightarrow> unit ctl" where
  "StartJob env name =
     bindE (callDB (GetJob name)) (\<lambda>job.
       if job_state job = JobReady
       then thenE (destinationFree env job)
              (thenE (setJobState env (job_id job) JobRunning) (seedPass env (job_id job) 1))
       else if job_state job = JobPaused
       then thenE (destinationFree env job) (setJobState env (job_id job) JobRunning)
       else failE (PJobState (job_state job)))"

definition ResumeJob :: "pc_env \<Rightarrow> string \<Rightarrow> unit ctl" where
  "ResumeJob env name =
     bindE (callDB (GetJob name)) (\<lambda>job.
       if job_state job \<noteq> JobPaused then failE (PJobState (job_state job))
       else thenE (destinationFree env job) (setJobState env (job_id job) JobRunning))"

section \<open>The deferred reaper\<close>

definition reapKey_of :: "reapRequest \<Rightarrow> reapKey" where
  "reapKey_of req = (pass_id (rr_pass req), rr_registry req)"

definition enqueueReq :: "reapRequest \<Rightarrow> Controller \<Rightarrow> Controller" where
  "enqueueReq req c =
     (let key = reapKey_of req
      in if key \<in> set (reapInflight c) then c
         else let c1 = c\<lparr>reapInflight := key # reapInflight c\<rparr>
              in if length (reapCh c1) < reapChanBuffer
                 then c1\<lparr>reapCh := reapCh c1 @ [req]\<rparr>
                 else c1\<lparr>reapInflight := filter (\<lambda>k. k \<noteq> key) (reapInflight c1)\<rparr>)"

definition enqueueReap :: "job_row \<Rightarrow> pass_row \<Rightarrow> ShardKind list \<Rightarrow> unit ctl" where
  "enqueueReap job pass kinds =
     onCtl (enqueueReq \<lparr>rr_job = job, rr_pass = pass, rr_kinds = kinds, rr_registry = False\<rparr>)"

definition enqueueReapLinkRegistry :: "job_row \<Rightarrow> pass_row \<Rightarrow> unit ctl" where
  "enqueueReapLinkRegistry job pass =
     onCtl (enqueueReq \<lparr>rr_job = job, rr_pass = pass, rr_kinds = [], rr_registry = True\<rparr>)"

fun doReapPhase :: "nat \<Rightarrow> int \<Rightarrow> ShardKind list \<Rightarrow> db \<Rightarrow> int \<times> db" where
  "doReapPhase 0 passID kinds d = (0, d)"
| "doReapPhase (Suc rounds) passID kinds d =
     (let (n, d1) = ReapDoneShards passID kinds d
      in if n < int ReapBatchSize then (n, d1)
         else let (n', d2) = doReapPhase rounds passID kinds d1 in (n + n', d2))"

fun doReapLinkRegistry :: "nat \<Rightarrow> int \<Rightarrow> db \<Rightarrow> int \<times> db" where
  "doReapLinkRegistry 0 passID d = (0, d)"
| "doReapLinkRegistry (Suc rounds) passID d =
     (let (n, d1) = ReapLinkRegistry passID d
      in if n < int LinkRegistryReapBatchSize then (n, d1)
         else let (n', d2) = doReapLinkRegistry rounds passID d1 in (n + n', d2))"

text \<open>One turn of \<open>runReapWorker\<close>: nothing to do on an empty channel.\<close>

definition reapWorker :: "nat \<Rightarrow> world \<Rightarrow> world" where
  "reapWorker rounds w =
     (case reapCh (m_ctl w) of
        [] \<Rightarrow> w
      | req # reqs \<Rightarrow>
          let passID = pass_id (rr_pass req);
              d = snd (if rr_registry req then doReapLinkRegistry rounds passID (m_db w)
                       else doReapPhase rounds passID (rr_kinds req) (m_db w));
              c = m_ctl w
          in w\<lparr>m_db := d, m_ctl := c\<lparr>reapCh := reqs,
                 reapInflight := filter (\<lambda>k. k \<noteq> reapKey_of req) (reapInflight c)\<rparr>\<rparr>)"

section \<open>Seeding the phases\<close>

definition marshalled :: "bytes option \<Rightarrow> bytes ctl" where
  "marshalled b = (case b of None \<Rightarrow> failE PMarshal | Some p \<Rightarrow> returnE p)"

fun reclaimShards :: "pc_env \<Rightarrow> (path \<times> string) list \<Rightarrow> NewShard list ctl" where
  "reclaimShards env [] = returnE []"
| "reclaimShards env ((rel, temp) # ts) =
     bindE (marshalled (marshal (pc_Chunk (pe_pc env))
             (empty_ChunkTask\<lparr>ct_RelPath := rel, ct_TempName := temp, ct_Reclaim := True\<rparr>))) (\<lambda>payload.
       bindE (reclaimShards env ts) (\<lambda>shards. returnE (plainShard KindChunk rel payload # shards)))"

definition seedTempReclaim :: "pc_env \<Rightarrow> pass_row \<Rightarrow> nat ctl" where
  "seedTempReclaim env pass =
     bindE (readDB (UnfinalizedChunkTemps (pass_id pass))) (\<lambda>temps.
       bindE (reclaimShards env temps) (\<lambda>shards.
         if shards = [] then returnE 0
         else thenE (insertShards env (pass_id pass) shards) (returnE (length shards))))"

definition linkEntry :: "LinkMember \<Rightarrow> LinkEntry" where
  "linkEntry m = \<lparr>le_AnchorRel = lkm_AnchorRelPath m, le_MemberRel = lkm_RelPath m,
     le_AnchorGen = Some \<lparr>fg_Size = lkm_AnchorSize m, fg_MtimeNs = lkm_AnchorMtimeNs m\<rparr>\<rparr>"

definition linkKey :: "LinkMember \<Rightarrow> LinkMemberKey" where
  "linkKey m = \<lparr>lmk_Dev = lkm_Dev m, lmk_Ino = lkm_Ino m, lmk_RelPath = lkm_RelPath m\<rparr>"

text \<open>The batch is kept as the members themselves: \<open>batchEntries\<close> and \<open>batchKeys\<close> are its two images.\<close>

definition flushLinkfix :: "pc_env \<Rightarrow> pass_row \<Rightarrow> LinkMember list \<Rightarrow> unit ctl" where
  "flushLinkfix env pass batch =
     (if batch = [] then returnE ()
      else bindE (marshalled (marshal (pc_LinkBatch (pe_pc env))
              \<lparr>lt_TaskId = 0, lt_JobId = word_of_int (pass_job pass), lt_PassNo = word_of_int (pass_no pass),
               lt_Links = map linkEntry batch\<rparr>)) (\<lambda>payload.
           thenE (insertShards env (pass_id pass) [plainShard KindLinkfix '''' payload])
             (setDB (MarkLinkMembersQueued (pass_id pass) (map linkKey batch)))))"

text \<open>A \<open>for\<close> loop over a streaming body: it stops at the first error.\<close>

fun streamAll :: "('r \<Rightarrow> 's \<Rightarrow> 'e option \<times> 's) \<Rightarrow> 'r list \<Rightarrow> 's \<Rightarrow> 'e option \<times> 's" where
  "streamAll fn [] s = (None, s)"
| "streamAll fn (r # rs) s = (case fn r s of (Some e, s1) \<Rightarrow> (Some e, s1) | (None, s1) \<Rightarrow> streamAll fn rs s1)"

definition finishStream ::
    "('x list \<Rightarrow> unit ctl) \<Rightarrow> pc_error option \<times> ('k \<times> 'x list \<times> nat \<times> world) \<Rightarrow> (pc_error + nat) \<times> world" where
  "finishStream flush r =
     (case r of (Some e, k, batch, n, w) \<Rightarrow> (Inl e, w)
      | (None, k, batch, n, w) \<Rightarrow> thenE (flush batch) (returnE n) w)"

definition seedLinkfix :: "pc_env \<Rightarrow> pass_row \<Rightarrow> nat ctl" where
  "seedLinkfix env pass =
     bindE (readDB (PendingLinkMembers (pass_id pass))) (\<lambda>members.
       if members = [] then returnE 0
       else (\<lambda>w. finishStream (flushLinkfix env pass)
              (streamAll (streamFn linkfixBatchSize (\<lambda>m (k :: unit). (Some m, k)) (flushLinkfix env pass)) members ((), [], 0, w))))"

definition depth :: "path \<Rightarrow> nat" where
  "depth p = count_list p (CHR ''/'')"

definition deepestFirst :: "('x \<Rightarrow> path) \<Rightarrow> 'x list \<Rightarrow> 'x list" where
  "deepestFirst f xs = sort_key (\<lambda>x. - int (depth (f x))) xs"

definition dirfixEntry :: "JournalRecord \<Rightarrow> unit \<Rightarrow> DirMeta option \<times> unit" where
  "dirfixEntry r k =
     (case jr_Src r of
        None \<Rightarrow> (None, k)
      | Some src \<Rightarrow>
          if jr_Type r \<noteq> JR_DIR_META then (None, k)
          else (Some \<lparr>dm_RelPath = jr_RelPath r, dm_Uid = si_Uid src, dm_Gid = si_Gid src, dm_Mode = si_Mode src,
                      dm_AtimeNs = si_AtimeNs src, dm_MtimeNs = si_MtimeNs src\<rparr>, k))"

definition flushDirfix :: "pc_env \<Rightarrow> pass_row \<Rightarrow> DirMeta list \<Rightarrow> unit ctl" where
  "flushDirfix env pass batch =
     (if batch = [] then returnE ()
      else bindE (marshalled (marshal (pc_Dirfix (pe_pc env))
              \<lparr>df_TaskId = 0, df_JobId = 0, df_PassNo = 0, df_Dirs = deepestFirst dm_RelPath batch\<rparr>)) (\<lambda>payload.
           insertShards env (pass_id pass) [plainShard KindDirfix '''' payload]))"

definition seedJournal ::
    "pc_env \<Rightarrow> job_row \<Rightarrow> pass_row \<Rightarrow> nat \<Rightarrow> (JournalRecord \<Rightarrow> 'k \<Rightarrow> 'x option \<times> 'k) \<Rightarrow> 'k \<Rightarrow> ('x list \<Rightarrow> unit ctl) \<Rightarrow> nat ctl" where
  "seedJournal env job pass sz entry k flush w =
     finishStream flush
       (apfst (map_option PReadJournal)
         (ReadRecords (pe_jc env) (journalRoot env) (job_id job) (pass_no pass) (streamFn sz entry flush)
           (pe_files env) (k, [], 0, w)))"

definition seedDirfix :: "pc_env \<Rightarrow> job_row \<Rightarrow> pass_row \<Rightarrow> nat ctl" where
  "seedDirfix env job pass = seedJournal env job pass dirfixBatchSize dirfixEntry () (flushDirfix env pass)"

definition pathBytes :: "path \<Rightarrow> bytes" where
  "pathBytes p = map of_char p"

text \<open>The state of the closure is \<open>firstCopied\<close>.\<close>

definition verifyEntry :: "u64 \<Rightarrow> JournalRecord \<Rightarrow> bool \<Rightarrow> VerifyEntry option \<times> bool" where
  "verifyEntry ppm r firstCopied =
     (if jr_Type r = JR_COPIED
      then (Some \<lparr>ve_RelPath = jr_RelPath r,
              ve_Checksum = (fnv64a (pathBytes (jr_RelPath r)) mod 1000000 < ppm \<or> firstCopied \<and> ppm > 0)\<rparr>, False)
      else if jr_Type r = JR_META_FIXED
      then (Some \<lparr>ve_RelPath = jr_RelPath r, ve_Checksum = False\<rparr>, firstCopied)
      else (None, firstCopied))"

definition flushVerify :: "pc_env \<Rightarrow> pass_row \<Rightarrow> VerifyEntry list \<Rightarrow> unit ctl" where
  "flushVerify env pass batch =
     (if batch = [] then returnE ()
      else bindE (marshalled (marshal (pc_Verify (pe_pc env))
              \<lparr>vb_TaskId = 0, vb_JobId = 0, vb_PassNo = 0, vb_Entries = batch\<rparr>)) (\<lambda>payload.
           insertShards env (pass_id pass) [plainShard KindVerify '''' payload]))"

definition seedVerify :: "pc_env \<Rightarrow> job_row \<Rightarrow> pass_row \<Rightarrow> nat ctl" where
  "seedVerify env job pass =
     bindE (parseSpec env job) (\<lambda>spec.
       if VerifyMode (Verify spec) = ''off'' then returnE 0
       else seedJournal env job pass verifyBatchSize
              (verifyEntry (f64_to_u64 (pe_oor env) (f64_scale (SampleRate (Verify spec)) 1000000))) True
              (flushVerify env pass))"

section \<open>Reports\<close>

definition opt0 :: "int option \<Rightarrow> int" where
  "opt0 x = (case x of None \<Rightarrow> 0 | Some v \<Rightarrow> v)"

definition notifyPassComplete :: "pc_env \<Rightarrow> job_row \<Rightarrow> pass_row \<Rightarrow> bool \<Rightarrow> bool \<Rightarrow> bool \<Rightarrow> unit ctl" where
  "notifyPassComplete env job pass isDelete jobDone converged =
     (case pe_notifier env of
        None \<Rightarrow> returnE ()
      | Some _ \<Rightarrow> ignoreE (bindE (parseSpec env job) (\<lambda>spec.
          let n = Notifications spec; c = pass_counters pass
          in if \<not> OnPassComplete n \<or> Recipients n = [] then returnE ()
             else emit (PassMail (Recipients n) \<lparr>
               pr_Job = job_name job, pr_Src = SourcePath spec, pr_Dst = DestinationPath spec,
               pr_PassNo = pass_no pass, pr_IsDelete = isDelete, pr_DryRun = job_dry_run job,
               pr_DurationMS = (case pass_started pass of None \<Rightarrow> 0 | Some t \<Rightarrow> pe_now env - t),
               pr_FilesCopied = FilesCopied c, pr_BytesCopied = BytesCopied c, pr_MetaFixed = MetaFixed c,
               pr_Orphans = Orphans c, pr_VerifyOK = VerifyOK c, pr_VerifyFail = VerifyFail c, pr_Errors = Errors c,
               pr_JobDone = jobDone, pr_Converged = converged\<rparr>))))"

definition recordJournalTypeCounts :: "pc_env \<Rightarrow> job_row \<Rightarrow> pass_row \<Rightarrow> unit ctl" where
  "recordJournalTypeCounts env job pass =
     (case journal_Summary (pe_jc env) (journalRoot env) (job_id job) [pass_no pass] (pe_files env) of
        Inl _ \<Rightarrow> returnE ()
      | Inr (counts, _) \<Rightarrow> setDB (SetJournalTypeCounts (pass_id pass) counts))"

definition jobParkedShards :: "string \<Rightarrow> db \<Rightarrow> ParkedShard list" where
  "jobParkedShards jobName d = filter (\<lambda>sh. pk_Job sh = jobName) (ParkedShards d)"

definition jobPass :: "pass_row \<Rightarrow> JobPass" where
  "jobPass p =
     (let c = pass_counters p
      in \<lparr>jp_PassNo = pass_no p, jp_State = pass_state p,
          jp_IsDelete = (pass_state p = PassDelete \<or> EntriesWalked c = 0 \<and> Orphans c > 0),
          jp_DurationMS = (case (pass_finished p, pass_started p) of (Some f, Some s) \<Rightarrow> f - s | _ \<Rightarrow> 0),
          jp_DeltaFiles = FilesCopied c + MetaFixed c, jp_DeltaBytes = BytesCopied c,
          jp_Orphans = Orphans c, jp_VerifyOK = VerifyOK c, jp_VerifyFail = VerifyFail c, jp_Errors = Errors c\<rparr>)"

definition addPass :: "pass_row \<Rightarrow> JobReport \<Rightarrow> JobReport" where
  "addPass p rep =
     (let c = pass_counters p;
          rep1 = rep\<lparr>rep_Passes := rep_Passes rep @ [jobPass p],
            rep_FilesCopied := rep_FilesCopied rep + FilesCopied c,
            rep_BytesCopied := rep_BytesCopied rep + BytesCopied c,
            rep_MetaFixed := rep_MetaFixed rep + MetaFixed c,
            rep_Errors := rep_Errors rep + Errors c,
            rep_FidelityExc := rep_FidelityExc rep + FidelityExceptions c,
            rep_VerifyOK := rep_VerifyOK rep + VerifyOK c,
            rep_VerifyFail := rep_VerifyFail rep + VerifyFail c,
            rep_LinksCreated := rep_LinksCreated rep + LinksCreated c,
            rep_LinkAnchorRaces := rep_LinkAnchorRaces rep + LinkAnchorRaces c,
            rep_LinkFallback := rep_LinkFallback rep + LinkFallback c\<rparr>
      in if EntriesWalked c > 0 then rep1\<lparr>OrphansRemaining := Orphans c\<rparr>
         else if Orphans c > 0 then rep1\<lparr>DeletePassRan := True, OrphansRemaining := 0\<rparr>
         else rep1)"

definition buildJobReport :: "job_row \<Rightarrow> db \<Rightarrow> JobReport" where
  "buildJobReport job d =
     (let rep = \<lparr>rep_Job = job_name job, rep_Src = '''', rep_Dst = '''', rep_State = job_state job,
            rep_DryRun = job_dry_run job, rep_Passes = [], rep_FilesCopied = 0, rep_BytesCopied = 0, rep_MetaFixed = 0,
            rep_Errors = 0, rep_FidelityExc = 0, rep_VerifyOK = 0, rep_VerifyFail = 0,
            rep_Converged = (job_state job = JobCompleted), OrphansRemaining = 0, DeletePassRan = False,
            rep_ParkedShards = 0, rep_LinksCreated = 0, rep_LinkAnchorRaces = 0, rep_LinkFallback = 0,
            JournalSummary = []\<rparr>;
          rep1 = fold addPass (ListPasses (job_id job) d) rep
      in rep1\<lparr>rep_ParkedShards := int (length (jobParkedShards (job_name job) d)),
              JournalSummary := fst (JournalTypeCounts (job_id job) d)\<rparr>)"

definition notifyJobComplete :: "pc_env \<Rightarrow> job_row \<Rightarrow> unit ctl" where
  "notifyJobComplete env job =
     (case pe_notifier env of
        None \<Rightarrow> returnE ()
      | Some _ \<Rightarrow> ignoreE (bindE (parseSpec env job) (\<lambda>spec.
          let n = Notifications spec
          in if \<not> OnJobComplete n \<or> Recipients n = [] then returnE ()
             else bindE (readDB (buildJobReport job)) (\<lambda>rep.
               emit (JobMail (Recipients n) (rep\<lparr>rep_Src := SourcePath spec, rep_Dst := DestinationPath spec\<rparr>))))))"

section \<open>Convergence\<close>

definition converged :: "JobSpec \<Rightarrow> pass_row \<Rightarrow> bool" where
  "converged spec pass =
     (let c = pass_counters pass; cw = Converge (Passes spec)
      in FilesCopied c = 0 \<and> MetaFixed c = 0 \<and> BytesCopied c = 0 \<or>
         DeltaFilesBelow cw > 0 \<and> word_of_int (FilesCopied c + MetaFixed c) < DeltaFilesBelow cw \<or>
         DeltaBytesBelow cw > 0 \<and> word_of_int (BytesCopied c) < DeltaBytesBelow cw)"

definition effectiveMax :: "JobSpec \<Rightarrow> job_row \<Rightarrow> int" where
  "effectiveMax spec job = (if job_dry_run job then 1 else MaxPasses (Passes spec))"

definition decideNextPass :: "pc_env \<Rightarrow> job_row \<Rightarrow> pass_row \<Rightarrow> (bool \<times> bool) ctl" where
  "decideNextPass env job pass =
     bindE (parseSpec env job) (\<lambda>spec.
       if converged spec pass \<or> pass_no pass \<ge> effectiveMax spec job
       then thenE (setJobState env (job_id job) JobCompleted)
              (thenE (jobTerminal env (job_id job)) (returnE (True, converged spec pass)))
       else if Schedule (Passes spec) = ''manual'' then returnE (False, False)
       else thenE (seedPass env (job_id job) (pass_no pass + 1)) (returnE (False, False)))"

section \<open>The phase machine\<close>

definition scanKinds :: "ShardKind list" where
  "scanKinds = [KindProbe, KindDir, KindEntryList, KindChunk]"

definition leaveProbing :: "pc_env \<Rightarrow> job_row \<Rightarrow> pass_row \<Rightarrow> unit ctl" where
  "leaveProbing env job pass =
     thenE (insertShards env (pass_id pass) [plainShard KindDir '''' []])
       (setPassState env (pass_id pass) PassScanning)"

definition leaveScanning :: "pc_env \<Rightarrow> job_row \<Rightarrow> pass_row \<Rightarrow> unit ctl" where
  "leaveScanning env job pass =
     thenE (seedTempReclaim env pass)
       (thenE (seedDirfix env job pass)
         (thenE (setPassState env (pass_id pass) PassDirfix)
           (enqueueReap job pass scanKinds)))"

definition leaveDirfix :: "pc_env \<Rightarrow> job_row \<Rightarrow> pass_row \<Rightarrow> unit ctl" where
  "leaveDirfix env job pass =
     thenE (seedLinkfix env pass)
       (thenE (setPassState env (pass_id pass) PassLinkfix)
         (thenE (enqueueReap job pass [KindDirfix])
           (enqueueReapLinkRegistry job pass)))"

definition leaveLinkfix :: "pc_env \<Rightarrow> job_row \<Rightarrow> pass_row \<Rightarrow> unit ctl" where
  "leaveLinkfix env job pass =
     thenE (seedVerify env job pass)
       (thenE (setPassState env (pass_id pass) PassVerify)
         (enqueueReap job pass [KindLinkfix]))"

definition leaveVerify :: "pc_env \<Rightarrow> job_row \<Rightarrow> pass_row \<Rightarrow> unit ctl" where
  "leaveVerify env job pass =
     thenE (setPassState env (pass_id pass) PassComplete)
       (thenE (recordJournalTypeCounts env job pass)
         (thenE (enqueueReap job pass [KindVerify])
           (bindE (decideNextPass env job pass) (\<lambda>(jobDone, conv).
             thenE (notifyPassComplete env job pass False jobDone conv)
               (if jobDone then notifyJobComplete env job else returnE ())))))"

definition leaveDelete :: "pc_env \<Rightarrow> job_row \<Rightarrow> pass_row \<Rightarrow> unit ctl" where
  "leaveDelete env job pass =
     thenE (setPassState env (pass_id pass) PassComplete)
       (thenE (recordJournalTypeCounts env job pass)
         (thenE (enqueueReap job pass [KindDelete])
           (thenE (setJobState env (job_id job) JobCompleted)
             (thenE (jobTerminal env (job_id job))
               (thenE (notifyPassComplete env job pass True True False)
                 (notifyJobComplete env job))))))"

definition leavePhase :: "pc_env \<Rightarrow> job_row \<Rightarrow> pass_row \<Rightarrow> unit ctl" where
  "leavePhase env job pass =
     (case pass_state pass of
        PassProbing \<Rightarrow> leaveProbing env job pass
      | PassScanning \<Rightarrow> leaveScanning env job pass
      | PassDirfix \<Rightarrow> leaveDirfix env job pass
      | PassLinkfix \<Rightarrow> leaveLinkfix env job pass
      | PassVerify \<Rightarrow> leaveVerify env job pass
      | PassDelete \<Rightarrow> leaveDelete env job pass
      | _ \<Rightarrow> returnE ())"

definition retryParked :: "pc_env \<Rightarrow> job_row \<Rightarrow> pass_row \<Rightarrow> unit ctl" where
  "retryParked env job pass =
     bindE (getE (\<lambda>w. pass_id pass \<in> set (parkedAutoRetried (m_ctl w)))) (\<lambda>alreadyRetried.
       if alreadyRetried then returnE ()
       else thenE (onCtl (\<lambda>c. c\<lparr>parkedAutoRetried := pass_id pass # parkedAutoRetried c\<rparr>))
              (thenE (writeDB (RetryParkedByJob (job_name job) (pe_now env))) (returnE ())))"

definition pruneProbes :: "pass_row \<Rightarrow> unit ctl" where
  "pruneProbes pass =
     (if pass_state pass = PassProbing then thenE (writeDB (PruneStaleProbes (pass_id pass))) (returnE ())
      else returnE ())"

definition advance :: "pc_env \<Rightarrow> job_row \<Rightarrow> unit ctl" where
  "advance env job =
     bindE (readDB (ActivePass (job_id job))) (\<lambda>active.
       case active of
         None \<Rightarrow> returnE ()
       | Some pass \<Rightarrow>
           thenE (pruneProbes pass)
             (bindE (readDB (ShardStateCounts (pass_id pass))) (\<lambda>counts.
               thenE (if pass_state pass = PassScanning \<and> counts ShardDone > 0
                      then enqueueReap job pass scanKinds else returnE ())
                 (if counts ShardQueued + counts ShardLeased > 0 then returnE ()
                  else if counts ShardParked > 0 then retryParked env job pass
                  else leavePhase env job pass))))"

section \<open>Parked-shard alerts\<close>

fun collectNew :: "int list \<Rightarrow> ParkedShard list \<Rightarrow> int list \<times> ParkedShard list" where
  "collectNew alerted [] = (alerted, [])"
| "collectNew alerted (sh # shs) =
     (if pk_ID sh \<in> set alerted then collectNew alerted shs
      else let (alerted', new) = collectNew (pk_ID sh # alerted) shs in (alerted', sh # new))"

definition windowOpen :: "int \<Rightarrow> int \<Rightarrow> parkedRollupState \<Rightarrow> bool" where
  "windowOpen now rollup st = (case lastSentAt st of None \<Rightarrow> True | Some t \<Rightarrow> now - t \<ge> rollup)"

definition rollupOf :: "string \<Rightarrow> (string \<times> parkedRollupState) list \<Rightarrow> parkedRollupState" where
  "rollupOf job rs = (case map_of rs job of None \<Rightarrow> \<lparr>lastSentAt = None, pending = []\<rparr> | Some st \<Rightarrow> st)"

text \<open>The first loop: for each job with new parks, send now or hold. The second flushes what the window releases.\<close>

fun sendOrHold ::
    "int \<Rightarrow> int \<Rightarrow> ParkedShard list \<Rightarrow> string list \<Rightarrow> (string \<times> parkedRollupState) list \<Rightarrow>
     (string \<times> ParkedShard list) list \<times> (string \<times> parkedRollupState) list" where
  "sendOrHold now rollup new [] rs = ([], rs)"
| "sendOrHold now rollup new (job # jobs) rs =
     (let st = rollupOf job rs; shards = filter (\<lambda>sh. pk_Job sh = job) new
      in if windowOpen now rollup st
         then let (send, rs1) = sendOrHold now rollup new jobs
                    (AList.update job \<lparr>lastSentAt = Some now, pending = []\<rparr> rs)
              in ((job, pending st @ shards) # send, rs1)
         else sendOrHold now rollup new jobs (AList.update job (st\<lparr>pending := pending st @ shards\<rparr>) rs))"

definition flushHeld ::
    "int \<Rightarrow> int \<Rightarrow> (string \<times> parkedRollupState) list \<Rightarrow> (string \<times> ParkedShard list) list \<times> (string \<times> parkedRollupState) list" where
  "flushHeld now rollup rs =
     (let due = (\<lambda>st. pending st \<noteq> [] \<and> windowOpen now rollup st)
      in (map (\<lambda>(job, st). (job, pending st)) (filter (\<lambda>(job, st). due st) rs),
          map (\<lambda>(job, st). (job, if due st then \<lparr>lastSentAt = Some now, pending = []\<rparr> else st)) rs))"

definition mergeSend :: "(string \<times> ParkedShard list) list \<Rightarrow> (string \<times> ParkedShard list) list \<Rightarrow> (string \<times> ParkedShard list) list" where
  "mergeSend a b = fold (\<lambda>(job, shs) acc. AList.update job ((case map_of acc job of None \<Rightarrow> [] | Some x \<Rightarrow> x) @ shs) acc) b a"

definition emailParkedShards :: "pc_env \<Rightarrow> job_row \<Rightarrow> ParkedShard list \<Rightarrow> unit ctl" where
  "emailParkedShards env job shards = ignoreE (bindE (parseSpec env job) (\<lambda>spec.
     if Recipients (Notifications spec) = [] \<or> shards = [] then returnE ()
     else emit (ParkedMail (Recipients (Notifications spec)) \<lparr>
       psn_Job = job_name job, psn_Src = SourcePath spec, psn_Dst = DestinationPath spec,
       psn_Shards = map (\<lambda>sh. \<lparr>psr_PassNo = pk_PassNo sh, psr_Kind = pk_Kind sh, psr_RelPath = pk_RelPath sh,
         psr_Attempt = pk_Attempt sh, psr_Error = pk_Error sh, psr_LastAgent = pk_LastAgent sh\<rparr>) shards\<rparr>)))"

definition decideAlerts :: "int \<Rightarrow> int \<Rightarrow> ParkedShard list \<Rightarrow> Controller \<Rightarrow> (string \<times> ParkedShard list) list \<times> Controller" where
  "decideAlerts now rollup parked c =
     (let (alerted, new) = collectNew (parkedAlerted c) parked;
          still = filter (\<lambda>i. i \<in> pk_ID ` set parked) alerted;
          (send1, rs1) = sendOrHold now rollup new (remdups (map pk_Job new)) (parkedRollup c);
          (send2, rs2) = flushHeld now rollup rs1
      in (mergeSend send1 send2, c\<lparr>parkedAlerted := still, parkedRollup := rs2\<rparr>))"

definition checkParkedShards :: "pc_env \<Rightarrow> unit ctl" where
  "checkParkedShards env =
     (case pe_notifier env of
        None \<Rightarrow> returnE ()
      | Some rollup \<Rightarrow>
          bindE (readDB ParkedShards) (\<lambda>parked.
            bindE (getE (\<lambda>w. fst (decideAlerts (pe_now env) rollup parked (m_ctl w)))) (\<lambda>toSend.
              thenE (onCtl (\<lambda>c. snd (decideAlerts (pe_now env) rollup parked c)))
                (eachE (\<lambda>(jobName, shards).
                   ignoreE (bindE (callDB (GetJob jobName)) (\<lambda>job. emailParkedShards env job shards))) toSend))))"

definition tick :: "pc_env \<Rightarrow> unit ctl" where
  "tick env =
     bindE (readDB ListJobs) (\<lambda>jobs.
       thenE (eachE (\<lambda>job. if job_state job \<noteq> JobRunning then returnE () else ignoreE (advance env job)) jobs)
         (ignoreE (checkParkedShards env)))"

section \<open>Manual passes\<close>

fun deleteShards :: "pc_env \<Rightarrow> path list list \<Rightarrow> NewShard list ctl" where
  "deleteShards env [] = returnE []"
| "deleteShards env (batch # batches) =
     bindE (marshalled (marshal (pc_Delete (pe_pc env)) (DeleteBatch_of batch))) (\<lambda>payload.
       bindE (deleteShards env batches) (\<lambda>shards. returnE (plainShard KindDelete '''' payload # shards)))"

definition seedDeletePass :: "pc_env \<Rightarrow> job_row \<Rightarrow> pass_row \<Rightarrow> int \<Rightarrow> unit ctl" where
  "seedDeletePass env job latest passNo =
     bindE (ofSum (map_sum PReadOrphans id
             (journal_Orphans (pe_jc env) (journalRoot env) (job_id job) (pass_no latest) (pe_files env)))) (\<lambda>orphans.
       if orphans = [] then failE (PNoOrphans (pass_no latest))
       else bindE (txDB (CreatePass (job_id job) passNo PassDelete (pe_now env))) (\<lambda>pass.
              bindE (deleteShards env (chunked deleteBatchSize (deepestFirst id orphans))) (\<lambda>shards.
                thenE (insertShards env (pass_id pass) shards)
                  (setJobState env (job_id job) JobRunning))))"

definition TriggerPass :: "pc_env \<Rightarrow> string \<Rightarrow> bool \<Rightarrow> unit ctl" where
  "TriggerPass env name deletePass =
     bindE (callDB (GetJob name)) (\<lambda>job.
       if job_state job \<noteq> JobRunning \<and> job_state job \<noteq> JobCompleted then failE (PJobState (job_state job))
       else bindE (readDB (ActivePass (job_id job))) (\<lambda>active.
         case active of
           Some p \<Rightarrow> failE (PActivePass (pass_no p) (pass_state p))
         | None \<Rightarrow>
             bindE (readDB (LatestPass (job_id job))) (\<lambda>latest.
               let nxt = (case latest of None \<Rightarrow> 1 | Some p \<Rightarrow> pass_no p + 1)
               in if deletePass
                  then (case latest of
                          None \<Rightarrow> failE PNoCompletedPass
                        | Some p \<Rightarrow> seedDeletePass env job p nxt)
                  else thenE (setJobState env (job_id job) JobRunning) (seedPass env (job_id job) nxt))))"

section \<open>What every method does, it does through the store and the maps\<close>

lemma runs_reads [runs_intros]:
  "runs view step (readDB f)" "runs view step (callDB g)" "runs view step (marshalled b)" "runs view step (parseSpec env job)"
  by (auto simp: readDB_def callDB_def marshalled_def parseSpec_def eff_defs intro!: runs_still split: option.splits)

text \<open>A streaming loop only acts through its flushes, whatever the files hold.\<close>

lemma streamFn_runs:
  assumes "\<And>b. runs view step (flush b)" "step\<^sup>*\<^sup>* u (view (snd (snd (snd st))))"
  shows "step\<^sup>*\<^sup>* u (view (snd (snd (snd (snd (streamFn sz entry flush r st))))))"
proof -
  obtain k batch n w where st: "st = (k, batch, n, w)" by (metis prod.exhaust)
  obtain x k1 where x: "entry r k = (x, k1)" by force
  show ?thesis
  proof (cases x)
    case (Some y)
    obtain res w1 where f: "flush (batch @ [y]) w = (res, w1)" by force
    then have "step\<^sup>*\<^sup>* u (view w1)" using runsD [OF assms(1) f] assms(2) st by simp
    then show ?thesis using assms(2) st x Some f by (simp add: streamFn_def split: sum.splits)
  qed (use assms(2) st x in \<open>simp add: streamFn_def\<close>)
qed

lemma streamAll_inv: "(\<And>r s. P s \<Longrightarrow> P (snd (fn r s))) \<Longrightarrow> P s \<Longrightarrow> P (snd (streamAll fn rs s))"
proof (induction rs arbitrary: s)
  case (Cons r rs)
  have "P (snd (fn r s))" using Cons.prems by blast
  then show ?case using Cons.IH [OF Cons.prems(1)] by (auto split: prod.splits option.splits)
qed simp

lemma finishStream_runs:
  assumes "\<And>b. runs view step (flush b)" "step\<^sup>*\<^sup>* u (view (snd (snd (snd (snd r)))))"
  shows "step\<^sup>*\<^sup>* u (view (snd (finishStream flush r)))"
proof -
  obtain e k batch n w where r: "r = (e, k, batch, n, w)" by (metis prod.exhaust)
  have "runs view step (thenE (flush batch) (returnE n))" by (intro runs_intros assms(1))
  then have "step\<^sup>*\<^sup>* (view w) (view (snd (thenE (flush batch) (returnE n) w)))" by (simp add: runs_def)
  then show ?thesis using assms(2) r by (auto simp: finishStream_def split: option.splits)
qed


text \<open>
  The contract a part of the world offers the controller: each primitive call changes it by \<open>step\<close>s.
  Then so does every method, on every branch and also when it fails half way.
\<close>

locale controller_calls =
  fixes view :: "world \<Rightarrow> 'd" and step :: "'d \<Rightarrow> 'd \<Rightarrow> bool"
  assumes insert_runs: "runs view step (insertShards env p shards)"
    and passState_runs: "runs view step (setPassState env p ps)"
    and jobState_runs: "runs view step (setJobState env j js)"
    and createPass_runs: "runs view step (txDB (CreatePass j n ps now))"
    and prune_runs: "runs view step (pruneProbes pass)"
    and retry_runs: "runs view step (writeDB (RetryParkedByJob name now))"
    and mark_runs: "runs view step (setDB (MarkLinkMembersQueued p keys))"
    and counts_runs: "runs view step (setDB (SetJournalTypeCounts p tcounts))"
    and reap_request_runs: "runs view step (onCtl (enqueueReq req))"
    and retried_runs: "runs view step (onCtl (\<lambda>c. c\<lparr>parkedAutoRetried := i # parkedAutoRetried c\<rparr>))"
    and alerts_runs: "runs view step (onCtl (\<lambda>c. snd (decideAlerts now rollup parked c)))"
    and emit_runs: "runs view step (emit m)"
begin

lemmas call_runs = insert_runs passState_runs jobState_runs createPass_runs prune_runs retry_runs mark_runs counts_runs
  reap_request_runs retried_runs alerts_runs emit_runs

lemmas method_intros = runs_intros call_runs

lemma enqueue_runs: "runs view step (enqueueReap job pass kinds)" "runs view step (enqueueReapLinkRegistry job pass)"
  "runs view step (jobTerminal env i)"
  unfolding enqueueReap_def enqueueReapLinkRegistry_def jobTerminal_def by (intro method_intros)+

lemma destinationFree_runs: "runs view step (destinationFree env job)"
  unfolding destinationFree_def by (intro method_intros)

lemma seedPass_runs: "runs view step (seedPass env j n)"
  unfolding seedPass_def by (intro method_intros)

lemma StartJob_runs: "runs view step (StartJob env name)"
  unfolding StartJob_def by (intro method_intros destinationFree_runs seedPass_runs)

lemma ResumeJob_runs: "runs view step (ResumeJob env name)"
  unfolding ResumeJob_def by (intro method_intros destinationFree_runs)

lemma seedJournal_runs:
  assumes "\<And>b. runs view step (flush b)"
  shows "runs view step (seedJournal env job pass sz entry k flush)"
  unfolding runs_def
proof
  fix w
  let ?R = "ReadRecords (pe_jc env) (journalRoot env) (job_id job) (pass_no pass) (streamFn sz entry flush) (pe_files env) (k, [], 0, w)"
  have "step\<^sup>*\<^sup>* (view w) (view (snd (snd (snd (snd ?R)))))"
    by (rule ReadRecords_inv [where P = "\<lambda>st. step\<^sup>*\<^sup>* (view w) (view (snd (snd (snd st))))"])
      (erule streamFn_runs [OF assms], simp)
  then have "step\<^sup>*\<^sup>* (view w) (view (snd (snd (snd (snd (apfst (map_option PReadJournal) ?R))))))" by simp
  from finishStream_runs [OF assms this]
  show "step\<^sup>*\<^sup>* (view w) (view (snd (seedJournal env job pass sz entry k flush w)))" by (simp add: seedJournal_def)
qed

lemma flush_runs:
  "runs view step (flushLinkfix env pass lb)" "runs view step (flushDirfix env pass mb)" "runs view step (flushVerify env pass vb)"
  unfolding flushLinkfix_def flushDirfix_def flushVerify_def by (intro method_intros)+

lemma seedTempReclaim_runs: "runs view step (seedTempReclaim env pass)"
proof -
  have "runs view step (reclaimShards env ts)" for ts
    by (induction env ts rule: reclaimShards.induct) (auto intro!: method_intros)
  then show ?thesis unfolding seedTempReclaim_def by (intro method_intros)
qed

lemma seedDirfix_runs: "runs view step (seedDirfix env job pass)"
  unfolding seedDirfix_def by (intro seedJournal_runs flush_runs)

lemma seedVerify_runs: "runs view step (seedVerify env job pass)"
  unfolding seedVerify_def by (intro method_intros seedJournal_runs flush_runs)

lemma seedLinkfix_runs: "runs view step (seedLinkfix env pass)"
proof -
  have "runs view step (\<lambda>w. finishStream (flushLinkfix env pass)
      (streamAll (streamFn linkfixBatchSize (\<lambda>m (k :: unit). (Some m, k)) (flushLinkfix env pass)) ms ((), [], 0, w)))" for ms
    unfolding runs_def
  proof
    fix w
    let ?R = "streamAll (streamFn linkfixBatchSize (\<lambda>m (k :: unit). (Some m, k)) (flushLinkfix env pass)) ms ((), [], 0, w)"
    have "step\<^sup>*\<^sup>* (view w) (view (snd (snd (snd (snd ?R)))))"
      by (rule streamAll_inv [where P = "\<lambda>st. step\<^sup>*\<^sup>* (view w) (view (snd (snd (snd st))))"])
        (erule streamFn_runs [OF flush_runs(1)], simp)
    from finishStream_runs [OF flush_runs(1) this]
    show "step\<^sup>*\<^sup>* (view w) (view (snd (finishStream (flushLinkfix env pass) ?R)))" .
  qed
  then show ?thesis unfolding seedLinkfix_def by (intro method_intros)
qed

lemmas seeder_runs = seedTempReclaim_runs seedDirfix_runs seedVerify_runs seedLinkfix_runs

lemma notify_runs:
  "runs view step (notifyPassComplete env job pass d1 d2 d3)" "runs view step (notifyJobComplete env job)"
  "runs view step (recordJournalTypeCounts env job pass)" "runs view step (emailParkedShards env job shards)"
  unfolding notifyPassComplete_def notifyJobComplete_def recordJournalTypeCounts_def emailParkedShards_def Let_def
  by (intro method_intros)+

lemma decideNextPass_runs: "runs view step (decideNextPass env job pass)"
  unfolding decideNextPass_def by (intro method_intros seedPass_runs enqueue_runs)

lemma leavePhase_runs: "runs view step (leavePhase env job pass)"
  unfolding leavePhase_def leaveProbing_def leaveScanning_def leaveDirfix_def leaveLinkfix_def leaveVerify_def leaveDelete_def
  by (cases "pass_state pass")
    (simp_all, (intro method_intros seeder_runs notify_runs decideNextPass_runs enqueue_runs)+)

lemma advance_runs: "runs view step (advance env job)"
  unfolding advance_def retryParked_def by (intro method_intros leavePhase_runs enqueue_runs)

lemma tick_runs: "runs view step (tick env)"
  unfolding tick_def checkParkedShards_def by (intro method_intros advance_runs notify_runs)

lemma TriggerPass_runs: "runs view step (TriggerPass env name del)"
proof -
  have "runs view step (deleteShards env bs)" for bs
    by (induction env bs rule: deleteShards.induct) (auto intro!: method_intros)
  then have "runs view step (seedDeletePass env job latest n)" for job latest n
    unfolding seedDeletePass_def by (intro method_intros)
  then show ?thesis unfolding TriggerPass_def Let_def by (intro method_intros seedPass_runs)
qed

end

subsection \<open>The database: every call is a transaction\<close>

lemma tx_runs_tx: "(\<And>d a d'. t d = Inr (a, d') \<Longrightarrow> store_step d d') \<Longrightarrow> runs m_db store_step (txDB t)"
  by (rule runsI) (auto simp: txDB_def split: sum.splits)

lemma tx_runs_write: "(\<And>d. store_step d (snd (f d))) \<Longrightarrow> runs m_db store_step (writeDB f)"
  by (rule runsI) (auto simp: writeDB_def)

lemma tx_runs_set: "(\<And>d. store_step d (f d)) \<Longrightarrow> runs m_db store_step (setDB f)"
  by (rule runsI) (auto simp: setDB_def)

lemma tx_calls:
  "runs m_db store_step (insertShards env p shards)" "runs m_db store_step (setPassState env p ps)"
  "runs m_db store_step (setJobState env j js)" "runs m_db store_step (txDB (CreatePass j n ps now))"
  "runs m_db store_step (pruneProbes pass)" "runs m_db store_step (writeDB (RetryParkedByJob name now))"
  "runs m_db store_step (setDB (MarkLinkMembersQueued p keys))" "runs m_db store_step (setDB (SetJournalTypeCounts p counts))"
  unfolding insertShards_def setPassState_def setJobState_def pruneProbes_def
  by (auto intro!: runs_intros tx_runs_tx tx_runs_write tx_runs_set intro: store_step.intros)

lemma tx_others: "runs m_db store_step (onCtl f)" "runs m_db store_step (emit m)"
  by (auto simp: onCtl_def emit_def putE_def intro: runs_still)

interpretation db: controller_calls m_db store_step
  by unfold_locales (rule tx_calls tx_others)+

lemma reap_runs:
  "store_step\<^sup>*\<^sup>* d (snd (doReapPhase n p ks d))" "store_step\<^sup>*\<^sup>* d (snd (doReapLinkRegistry n p d))"
proof (induction n arbitrary: d)
  case (Suc n)
  case 1
  have "store_step d (snd (ReapDoneShards p ks d))" by (rule reap_shards)
  then show ?case using Suc(1) [of "snd (ReapDoneShards p ks d)"] by (auto simp: Let_def split: prod.splits)
next
  case (Suc n)
  case 2
  have "store_step d (snd (ReapLinkRegistry p d))" by (rule reap_registry)
  then show ?case using Suc(2) [of "snd (ReapLinkRegistry p d)"] by (auto simp: Let_def split: prod.splits)
qed simp_all

lemma reapWorker_runs: "store_step\<^sup>*\<^sup>* (m_db w) (m_db (reapWorker n w))"
  using reap_runs by (auto simp: reapWorker_def Let_def split: list.splits)

subsection \<open>The reap queue: every call is an enqueue or leaves it alone\<close>

definition reapq_step :: "Controller \<Rightarrow> Controller \<Rightarrow> bool" where
  "reapq_step c c' \<longleftrightarrow> (\<exists>req. c' = enqueueReq req c) \<or> reapCh c' = reapCh c \<and> reapInflight c' = reapInflight c"

lemma reapq_still: "(\<And>w. m_ctl (snd (m w)) = m_ctl w) \<Longrightarrow> runs m_ctl reapq_step m"
  by (rule runs_still)

lemma reapq_onCtl: "(\<And>c. reapq_step c (f c)) \<Longrightarrow> runs m_ctl reapq_step (onCtl f)"
  by (rule runsI) (auto simp: onCtl_def putE_def)

lemma reapq_calls:
  "runs m_ctl reapq_step (insertShards env p shards)" "runs m_ctl reapq_step (setPassState env p ps)"
  "runs m_ctl reapq_step (setJobState env j js)" "runs m_ctl reapq_step (txDB t)"
  "runs m_ctl reapq_step (pruneProbes pass)" "runs m_ctl reapq_step (writeDB f)"
  "runs m_ctl reapq_step (setDB g)" "runs m_ctl reapq_step (emit m)"
  by (auto simp: insertShards_def setPassState_def setJobState_def pruneProbes_def emit_def txDB_def writeDB_def
      setDB_def eff_defs intro!: reapq_still split: sum.splits)

lemma reapq_ctl:
  "reapq_step c (enqueueReq req c)" "reapq_step c (c\<lparr>parkedAutoRetried := is\<rparr>)"
  "reapq_step c (snd (decideAlerts now rollup parked c))"
  by (auto simp: reapq_step_def decideAlerts_def Let_def split_beta)

interpretation reapq: controller_calls m_ctl reapq_step
  by unfold_locales (rule reapq_calls reapq_onCtl [OF reapq_ctl(1)] reapq_onCtl [OF reapq_ctl(2)] reapq_onCtl [OF reapq_ctl(3)])+

definition reap_queue_ok :: "Controller \<Rightarrow> bool" where
  "reap_queue_ok c \<longleftrightarrow> distinct (map reapKey_of (reapCh c)) \<and>
     set (reapInflight c) = reapKey_of ` set (reapCh c) \<and> length (reapCh c) \<le> reapChanBuffer"

lemma reap_queue_step: "reapq_step c c' \<Longrightarrow> reap_queue_ok c \<Longrightarrow> reap_queue_ok c'"
proof -
  have "reap_queue_ok (enqueueReq req c)" if "reap_queue_ok c" for req
    using that by (auto simp: reap_queue_ok_def enqueueReq_def Let_def)
  then show "reapq_step c c' \<Longrightarrow> reap_queue_ok c \<Longrightarrow> reap_queue_ok c'" by (auto simp: reapq_step_def) (simp add: reap_queue_ok_def)
qed

lemma reap_queue_steps: "reapq_step\<^sup>*\<^sup>* c c' \<Longrightarrow> reap_queue_ok c \<Longrightarrow> reap_queue_ok c'"
  by (induction rule: rtranclp_induct) (auto intro: reap_queue_step)

lemma reap_queue_worker: "reap_queue_ok (m_ctl w) \<Longrightarrow> reap_queue_ok (m_ctl (reapWorker n w))"
  by (auto simp: reapWorker_def reap_queue_ok_def Let_def split: list.splits)

end
