(* ===== verification/Pass_Phases.thy ===== *)
theory Pass_Phases
  imports Passctrl
begin

text \<open>
  What the pass controller promises: phases are walked in the documented order, every change the controller
  makes to the store is one of the store's transactions, the background reaper drains its queue, the
  start of a job is exclusive on its destination, the pass decision is the documented one, parked shards are
  retried at most once, and the shards seeded from the journal cover exactly the journalled work.
\<close>

section \<open>Phases\<close>

fun next_phase :: "PassState \<Rightarrow> PassState option" where
  "next_phase PassProbing = Some PassScanning"
| "next_phase PassScanning = Some PassDirfix"
| "next_phase PassDirfix = Some PassLinkfix"
| "next_phase PassLinkfix = Some PassVerify"
| "next_phase PassVerify = Some PassComplete"
| "next_phase PassDelete = Some PassComplete"
| "next_phase _ = None"

definition phases :: "db \<Rightarrow> (int \<times> PassState) list" where
  "phases d = map (\<lambda>p. (pass_id p, pass_state p)) (t_passes d)"

definition wphases :: "world \<Rightarrow> (int \<times> PassState) list" where
  "wphases w = phases (m_db w)"

text \<open>Reads change nothing at all.\<close>

lemma frames_reads [frames_intros]:
  "frames g (readDB f)" "frames g (callDB h)" "frames g (marshalled b)" "frames g (parseSpec env job)"
  by (simp_all add: frames_def readDB_def callDB_def marshalled_def parseSpec_def eff_defs split: option.splits)

lemma frames_calls:
  "frames wphases (onCtl h)" "frames wphases (emit m)" "frames wphases (jobTerminal env i)"
  "frames wphases (insertShards env p shards)" "frames wphases (setJobState env j js)" "frames wphases (pruneProbes pass)"
  "frames wphases (writeDB (RetryParkedByJob name now))" "frames wphases (setDB (MarkLinkMembersQueued p keys))"
  "frames wphases (setDB (SetJournalTypeCounts p counts))" "frames wphases (enqueueReap job pass kinds)"
  "frames wphases (enqueueReapLinkRegistry job pass)"
  by (auto simp: frames_def wphases_def phases_def onCtl_def emit_def jobTerminal_def insertShards_def setJobState_def SetJobState_def pruneProbes_def RetryParkedByJob_def
      PruneStaleProbes_def MarkLinkMembersQueued_def SetJournalTypeCounts_def enqueueReap_def enqueueReapLinkRegistry_def
      txDB_def writeDB_def setDB_def eff_defs Let_def update_shards_def delete_shards_def InsertShards_def
      split: option.splits sum.splits dest!: insertShardsTx_frame(2))

lemmas phase_intros = frames_intros frames_calls

lemma streamFn_frames:
  assumes "\<And>b. frames g (flush b)"
  shows "g (snd (snd (snd (snd (streamFn sz entry flush r st))))) = g (snd (snd (snd st)))"
proof -
  obtain k batch n w where st: "st = (k, batch, n, w)" by (metis prod.exhaust)
  obtain x k1 where x: "entry r k = (x, k1)" by force
  show ?thesis
  proof (cases x)
    case (Some y)
    obtain res w1 where f: "flush (batch @ [y]) w = (res, w1)" by force
    then have "g w1 = g w" using framesD [OF assms f] by simp
    then show ?thesis using st x Some f by (simp add: streamFn_def split: sum.splits)
  qed (use st x in \<open>simp add: streamFn_def\<close>)
qed

lemma finishStream_frames:
  assumes "\<And>b. frames g (flush b)" "g (snd (snd (snd (snd r)))) = u"
  shows "g (snd (finishStream flush r)) = u"
proof -
  obtain e k batch n w where r: "r = (e, k, batch, n, w)" by (metis prod.exhaust)
  have "frames g (thenE (flush batch) (returnE n))" by (intro frames_intros assms(1))
  then have "g (snd (thenE (flush batch) (returnE n) w)) = g w" by (simp add: frames_def)
  then show ?thesis using assms(2) r by (auto simp: finishStream_def split: option.splits)
qed

lemma seedJournal_frames:
  assumes "\<And>b. frames g (flush b)"
  shows "frames g (seedJournal env job pass sz entry k flush)"
  unfolding frames_def seedJournal_def
proof (rule allI, rule finishStream_frames [OF assms])
  fix w
  let ?R = "ReadRecords (pe_jc env) (journalRoot env) (job_id job) (pass_no pass) (streamFn sz entry flush) (pe_files env) (k, [], 0, w)"
  have "g (snd (snd (snd (snd ?R)))) = g w"
    by (rule ReadRecords_inv [where P = "\<lambda>st. g (snd (snd (snd st))) = g w"])
      (simp_all add: streamFn_frames [OF assms])
  then show "g (snd (snd (snd (snd (apfst (map_option PReadJournal) ?R))))) = g w" by simp
qed

lemma seeders_frames:
  assumes "\<And>p shards. frames g (insertShards env p shards)" "\<And>p keys. frames g (setDB (MarkLinkMembersQueued p keys))"
  shows "frames g (seedTempReclaim env pass)" "frames g (seedDirfix env job pass)" "frames g (seedVerify env job pass)"
    "frames g (seedLinkfix env pass)"
proof -
  have f: "frames g (flushLinkfix env pass lb)" "frames g (flushDirfix env pass mb)" "frames g (flushVerify env pass vb)" for lb mb vb
    unfolding flushLinkfix_def flushDirfix_def flushVerify_def by (intro frames_intros assms)+
  have "frames g (reclaimShards env ts)" for ts
    by (induction env ts rule: reclaimShards.induct) (auto intro!: frames_intros)
  then show "frames g (seedTempReclaim env pass)" unfolding seedTempReclaim_def by (intro frames_intros assms)
  show "frames g (seedDirfix env job pass)" unfolding seedDirfix_def by (intro seedJournal_frames f)
  show "frames g (seedVerify env job pass)" unfolding seedVerify_def by (intro frames_intros seedJournal_frames f assms)
  have "frames g (\<lambda>w. finishStream (flushLinkfix env pass)
      (streamAll (streamFn linkfixBatchSize (\<lambda>m (k :: unit). (Some m, k)) (flushLinkfix env pass)) ms ((), [], 0, w)))" for ms
    unfolding frames_def
  proof (rule allI, rule finishStream_frames [OF f(1)])
    fix w
    show "g (snd (snd (snd (snd (streamAll (streamFn linkfixBatchSize (\<lambda>m (k :: unit). (Some m, k)) (flushLinkfix env pass)) ms ((), [], 0, w)))))) = g w"
      by (rule streamAll_inv [where P = "\<lambda>st. g (snd (snd (snd st))) = g w"]) (simp_all add: streamFn_frames [OF f(1)])
  qed
  then show "frames g (seedLinkfix env pass)" unfolding seedLinkfix_def by (intro frames_intros assms)
qed

lemma phase_seeders:
  "frames wphases (seedTempReclaim env pass)" "frames wphases (seedDirfix env job pass)"
  "frames wphases (seedVerify env job pass)" "frames wphases (seedLinkfix env pass)"
  by (rule seeders_frames; rule frames_calls)+

lemma phase_notify:
  "frames wphases (notifyPassComplete env job pass d1 d2 d3)" "frames wphases (notifyJobComplete env job)"
  "frames wphases (recordJournalTypeCounts env job pass)"
  unfolding notifyPassComplete_def notifyJobComplete_def recordJournalTypeCounts_def Let_def
  by (intro phase_intros)+

text \<open>A pass that leaves its phase has its state overwritten; at most a new pass is added behind the others.\<close>

definition flip :: "int \<Rightarrow> PassState \<Rightarrow> (int \<times> PassState) list \<Rightarrow> (int \<times> PassState) list" where
  "flip i st ps = map (\<lambda>(j, s). (j, if j = i then st else s)) ps"

abbreviation extends :: "'a ctl \<Rightarrow> bool" where
  "extends \<equiv> runs wphases prefix"

lemma prefix_rtrancl: "prefix\<^sup>*\<^sup>* xs ys \<Longrightarrow> prefix xs ys"
  by (induction rule: rtranclp_induct) auto

lemma extends_frames: "frames wphases m \<Longrightarrow> extends m"
  by (simp add: frames_def runs_def)

lemma extendsD: "extends m \<Longrightarrow> m w = (r, w') \<Longrightarrow> prefix (wphases w) (wphases w')"
  by (rule prefix_rtrancl) (rule runsD)

lemma setPassState_phases: "setPassState env i st w = (r, w') \<Longrightarrow> wphases w' = flip i st (wphases w)"
  by (auto simp: setPassState_def setDB_def SetPassState_def wphases_def phases_def flip_def update_where_def)

lemma leave_then:
  assumes "extends B" "thenE (setPassState env i st) B w = (r, w')"
  shows "prefix (flip i st (wphases w)) (wphases w')"
proof -
  obtain r1 w1 where s: "setPassState env i st w = (r1, w1)" by force
  then have "B w1 = (r, w')" using assms(2) by (auto simp: thenE_def bindE_def setPassState_def setDB_def)
  from extendsD [OF assms(1) this] show ?thesis using setPassState_phases [OF s] by simp
qed

lemma leave_after:
  assumes "frames wphases A" "extends B" "thenE A (thenE (setPassState env i st) B) w = (r, w')"
  shows "wphases w' = wphases w \<or> prefix (flip i st (wphases w)) (wphases w')"
proof -
  obtain r1 w1 where a: "A w = (r1, w1)" by force
  have f: "wphases w1 = wphases w" using framesD [OF assms(1) a] .
  show ?thesis
  proof (cases r1)
    case (Inr x)
    then have "thenE (setPassState env i st) B w1 = (r, w')" using assms(3) a by (simp add: thenE_def [of A] bindE_def)
    from leave_then [OF assms(2) this] show ?thesis using f by simp
  qed (use assms(3) a f in \<open>simp add: thenE_def bindE_def\<close>)
qed

lemma thenE_assoc: "thenE (thenE a b) c = thenE a (thenE b c)"
  by (auto simp: fun_eq_iff thenE_def bindE_def split: prod.splits sum.splits)

lemma thenE_return: "thenE m (returnE ()) = m"
proof
  fix w :: 'a
  obtain r w1 where "m w = (r, w1)" by force
  then show "thenE m (returnE ()) w = m w" by (cases r) (simp_all add: thenE_def bindE_def returnE_def)
qed

lemma extends_seedPass: "extends (seedPass env j n)"
proof -
  have "extends (txDB (CreatePass j n st now))" for st now
    by (rule runsI, rule r_into_rtranclp)
      (auto simp: txDB_def CreatePass_def Let_def wphases_def phases_def split: sum.splits if_splits)
  then show ?thesis unfolding seedPass_def
    by (intro runs_intros extends_frames [OF frames_reads(1)] extends_frames [OF frames_calls(4)])
qed

lemma leavePhase_phases:
  assumes "leavePhase env job pass w = (r, w')"
  shows "wphases w' = wphases w \<or>
    (\<exists>st. next_phase (pass_state pass) = Some st \<and> prefix (flip (pass_id pass) st (wphases w)) (wphases w'))"
proof -
  have dec: "extends (decideNextPass env job pass)" unfolding decideNextPass_def
    by (intro runs_intros extends_seedPass extends_frames [OF frames_calls(3)] extends_frames [OF frames_calls(5)] extends_frames [OF frames_reads(4)])
  have ver: "extends (thenE (recordJournalTypeCounts env job pass) (thenE (enqueueReap job pass [KindVerify])
      (bindE (decideNextPass env job pass) (\<lambda>(jobDone, conv). thenE (notifyPassComplete env job pass False jobDone conv)
        (if jobDone then notifyJobComplete env job else returnE ())))))"
    by (intro runs_intros dec extends_frames [OF frames_calls(10)] extends_frames [OF phase_notify(1)] extends_frames [OF phase_notify(2)]
        extends_frames [OF phase_notify(3)])
  show ?thesis
  proof (cases "pass_state pass")
    case PassProbing
    have "extends (returnE () :: unit ctl)" by (intro runs_intros)
    from leave_after [OF frames_calls(4) this] show ?thesis
      using assms PassProbing unfolding leavePhase_def leaveProbing_def by (auto simp: thenE_return)
  next
    case PassScanning
    have "frames wphases (thenE (seedTempReclaim env pass) (seedDirfix env job pass))" by (intro frames_intros phase_seeders)
    from leave_after [OF this extends_frames [OF frames_calls(10)]] show ?thesis
      using assms PassScanning unfolding leavePhase_def leaveScanning_def by (auto simp: thenE_assoc)
  next
    case PassDirfix
    have "extends (thenE (enqueueReap job pass [KindDirfix]) (enqueueReapLinkRegistry job pass))"
      by (intro extends_frames phase_intros)
    from leave_after [OF phase_seeders(4) this] show ?thesis
      using assms PassDirfix unfolding leavePhase_def leaveDirfix_def by auto
  next
    case PassLinkfix
    from leave_after [OF phase_seeders(3) extends_frames [OF frames_calls(10)]] show ?thesis
      using assms PassLinkfix unfolding leavePhase_def leaveLinkfix_def by auto
  next
    case PassVerify
    from leave_then [OF ver] show ?thesis
      using assms PassVerify unfolding leavePhase_def leaveVerify_def by auto
  next
    case PassDelete
    have "extends (thenE (recordJournalTypeCounts env job pass) (thenE (enqueueReap job pass [KindDelete])
        (thenE (setJobState env (job_id job) JobCompleted) (thenE (jobTerminal env (job_id job))
          (thenE (notifyPassComplete env job pass True True False) (notifyJobComplete env job))))))"
      by (intro extends_frames phase_intros phase_notify)
    from leave_then [OF this] show ?thesis
      using assms PassDelete unfolding leavePhase_def leaveDelete_def by auto
  qed (use assms in \<open>simp_all add: leavePhase_def returnE_def\<close>)
qed

section \<open>Draining\<close>

definition unfinished :: "int \<Rightarrow> shard_row \<Rightarrow> bool" where
  "unfinished passID s \<longleftrightarrow> shard_pass s = passID \<and> shard_state s \<noteq> ShardDone"

definition stale_probe :: "db \<Rightarrow> shard_row \<Rightarrow> bool" where
  "stale_probe d s \<longleftrightarrow> shard_kind s = KindProbe \<and>
     (\<exists>a. target_agent s = Some a \<and> a \<notin> agent_id ` {g \<in> set (t_agents d). schedulable g})"

lemma counts_zero:
  assumes "db_inv d" "ShardStateCounts p d ShardQueued + ShardStateCounts p d ShardLeased \<le> 0" "ShardStateCounts p d ShardParked \<le> 0"
  shows "s \<in> set (t_shards d) \<Longrightarrow> \<not> unfinished p s"
proof -
  have c: "ShardStateCounts p d st = int (count_where (\<lambda>s. shard_pass s = p \<and> shard_state s = st) (t_shards d))" if "st \<noteq> ShardDone" for st
    using ShardStateCounts_eq [of d p st] db_invD(3,4) [OF assms(1)] that by (simp add: queue_inv_def live_count_def)
  have "count_where (\<lambda>s. shard_pass s = p \<and> shard_state s = st) (t_shards d) = 0" if "st \<noteq> ShardDone" for st
    using c [of ShardQueued] c [of ShardLeased] c [of ShardParked] assms(2,3) that by (cases st) auto
  then show "s \<in> set (t_shards d) \<Longrightarrow> \<not> unfinished p s"
    unfolding unfinished_def count_where_zero_iff by blast
qed

lemma prune_db:
  assumes "pruneProbes pass w = (r, w1)"
  shows "r = Inr ()" "t_passes (m_db w1) = t_passes (m_db w)" "m_ctl w1 = m_ctl w" "db_inv (m_db w) \<Longrightarrow> db_inv (m_db w1)"
    "s \<in> set (t_shards (m_db w)) \<Longrightarrow> s \<in> set (t_shards (m_db w1)) \<or> stale_probe (m_db w) s \<and> shard_pass s = pass_id pass"
    "t_jobs (m_db w1) = t_jobs (m_db w)" "m_out w1 = m_out w"
proof -
  have w1: "w1 = w \<or> w1 = w\<lparr>m_db := snd (PruneStaleProbes (pass_id pass) (m_db w))\<rparr>" and r: "r = Inr ()"
    using assms by (auto simp: pruneProbes_def writeDB_def eff_defs split: if_splits)
  show "r = Inr ()" by (rule r)
  show "t_passes (m_db w1) = t_passes (m_db w)" "m_ctl w1 = m_ctl w" "t_jobs (m_db w1) = t_jobs (m_db w)" "m_out w1 = m_out w"
    using w1 by (auto simp: PruneStaleProbes_def Let_def)
  show "db_inv (m_db w1)" if "db_inv (m_db w)" using w1 that db_inv_lease_ops(4) [OF that] by auto
  show "s \<in> set (t_shards (m_db w1)) \<or> stale_probe (m_db w) s \<and> shard_pass s = pass_id pass" if "s \<in> set (t_shards (m_db w))"
    using w1 that by (auto simp: PruneStaleProbes_def Let_def delete_shards_def stale_probe_def split: option.splits)
qed

lemma retryParked_phases: "frames wphases (retryParked env job pass)"
  unfolding retryParked_def by (intro phase_intros)

text \<open>What a call of \<open>advance\<close> on an active pass comes down to.\<close>

lemma advance_cases:
  assumes "advance env job w = (r, w')" "ActivePass (job_id job) (m_db w) = Some pass"
  obtains (draining) w1 where "pruneProbes pass w = (Inr (), w1)" "m_db w' = m_db w1" "r = Inr ()"
      "parkedAutoRetried (m_ctl w') = parkedAutoRetried (m_ctl w1)"
  | (parked) w1 w2 where "pruneProbes pass w = (Inr (), w1)" "m_db w2 = m_db w1"
      "parkedAutoRetried (m_ctl w2) = parkedAutoRetried (m_ctl w1)" "retryParked env job pass w2 = (r, w')"
      "ShardStateCounts (pass_id pass) (m_db w1) ShardQueued + ShardStateCounts (pass_id pass) (m_db w1) ShardLeased \<le> 0"
      "ShardStateCounts (pass_id pass) (m_db w1) ShardParked > 0"
  | (drained) w1 w2 where "pruneProbes pass w = (Inr (), w1)" "m_db w2 = m_db w1" "leavePhase env job pass w2 = (r, w')"
      "ShardStateCounts (pass_id pass) (m_db w1) ShardQueued + ShardStateCounts (pass_id pass) (m_db w1) ShardLeased \<le> 0"
      "ShardStateCounts (pass_id pass) (m_db w1) ShardParked \<le> 0"
proof -
  obtain r1 w1 where p: "pruneProbes pass w = (r1, w1)" by force
  have r1: "r1 = Inr ()" by (rule prune_db(1) [OF p])
  let ?counts = "ShardStateCounts (pass_id pass) (m_db w1)"
  let ?reap = "if pass_state pass = PassScanning \<and> ?counts ShardDone > 0 then enqueueReap job pass scanKinds else returnE ()"
  obtain w2 where e: "?reap w1 = (Inr (), w2)" "m_db w2 = m_db w1" "parkedAutoRetried (m_ctl w2) = parkedAutoRetried (m_ctl w1)"
  proof
    show "?reap w1 = (Inr (), snd (?reap w1))" "m_db (snd (?reap w1)) = m_db w1"
      "parkedAutoRetried (m_ctl (snd (?reap w1))) = parkedAutoRetried (m_ctl w1)"
      by (simp_all add: enqueueReap_def onCtl_def putE_def returnE_def enqueueReq_def Let_def)
  qed
  have "advance env job w = (if ?counts ShardQueued + ?counts ShardLeased > 0 then (Inr (), w2)
      else if ?counts ShardParked > 0 then retryParked env job pass w2 else leavePhase env job pass w2)"
    using assms(2) p r1 e by (simp add: advance_def thenE_def bindE_def readDB_def getE_def returnE_def)
  then show thesis
    using assms(1) p r1 e draining [of w1] parked [of w1 w2] drained [of w1 w2] by (auto split: if_splits)
qed

section \<open>Properties\<close>

text \<open>
  (C2) A pass only ever moves to the next phase, and only when its phase has drained: after a call of
  \<open>advance\<close> every pass is in the phase it was in, except that the active pass of the job may have moved
  one step along the chain, and then every shard of it was done, apart from mount probes pinned to
  agents that have left.
\<close>

theorem advance_phase_order:
  assumes "advance env job w = (r, w')" "db_inv (m_db w)" "(i, st) \<in> set (wphases w)"
  shows "\<exists>st'. (i, st') \<in> set (wphases w') \<and>
    (st' = st \<or> next_phase st = Some st' \<and>
       (\<exists>pass. ActivePass (job_id job) (m_db w) = Some pass \<and> pass_id pass = i) \<and>
       (\<forall>s \<in> set (t_shards (m_db w)). unfinished i s \<longrightarrow> stale_probe (m_db w) s))"
proof (cases "ActivePass (job_id job) (m_db w)")
  case None
  then have "w' = w" using assms(1) by (simp add: advance_def bindE_def readDB_def getE_def returnE_def)
  then show ?thesis using assms(3) by blast
next
  case (Some pass)
  have act: "pass \<in> set (t_passes (m_db w))" using ActivePass_SomeD [OF Some] by blast
  show ?thesis using assms(1) Some
  proof (cases rule: advance_cases)
    case (draining w1)
    then have "wphases w' = wphases w" using prune_db(2) by (simp add: wphases_def phases_def)
    then show ?thesis using assms(3) by auto
  next
    case (parked w1 w2)
    then have "wphases w' = wphases w"
      using prune_db(2) framesD [OF retryParked_phases parked(4)] by (simp add: wphases_def phases_def)
    then show ?thesis using assms(3) by auto
  next
    case (drained w1 w2)
    have ph: "wphases w2 = wphases w" using prune_db(2) [OF drained(1)] drained(2) by (simp add: wphases_def phases_def)
    have "db_inv (m_db w1)" by (rule prune_db(4) [OF drained(1) assms(2)])
    then have dr: "stale_probe (m_db w) s" if "s \<in> set (t_shards (m_db w))" "unfinished (pass_id pass) s" for s
      using counts_zero [OF _ drained(4,5)] prune_db(5) [OF drained(1) that(1)] that(2) by blast
    have st: "st = pass_state pass" if "i = pass_id pass"
    proof -
      obtain q where q: "q \<in> set (t_passes (m_db w))" "pass_id q = i" "pass_state q = st"
        using assms(3) by (auto simp: wphases_def phases_def)
      then have "q = pass" using act that jobs_invD(3) [OF db_invD(3) [OF assms(2)]] by (metis distinct_map inj_on_def)
      then show ?thesis using q by simp
    qed
    from leavePhase_phases [OF drained(3)] show ?thesis
    proof (elim disjE exE conjE)
      fix st1
      assume n: "next_phase (pass_state pass) = Some st1" and p: "prefix (flip (pass_id pass) st1 (wphases w2)) (wphases w')"
      have "(i, if i = pass_id pass then st1 else st) \<in> set (flip (pass_id pass) st1 (wphases w))"
        using assms(3) by (force simp: flip_def)
      then have m: "(i, if i = pass_id pass then st1 else st) \<in> set (wphases w')" using set_mono_prefix [OF p [unfolded ph]] by blast
      show ?thesis
      proof (cases "i = pass_id pass")
        case True
        then show ?thesis using m n st dr Some by (intro exI [of _ st1]) auto
      qed (use m in auto)
    qed (use ph assms(3) in auto)
  qed
qed


subsection \<open>The reaper\<close>

lemma take_ids:
  assumes "distinct (map f xs)"
  shows "filter (\<lambda>x. f x \<notin> f ` set (take n (filter P xs))) xs = filter (\<lambda>x. \<not> P x \<or> x \<in> set (drop n (filter P xs))) xs"
    "filter (\<lambda>x. f x \<in> f ` set (take n (filter P xs))) xs = take n (filter P xs)"
proof -
  have inj: "inj_on f (set xs)" and dx: "distinct xs" using assms by (simp_all add: distinct_map)
  have td: "x \<in> set (take n (filter P xs)) \<longleftrightarrow> P x \<and> x \<notin> set (drop n (filter P xs))" if "x \<in> set xs" for x
  proof -
    have "x \<in> set (filter P xs) \<longleftrightarrow> x \<in> set (take n (filter P xs)) \<or> x \<in> set (drop n (filter P xs))"
      by (metis append_take_drop_id set_append UnCI UnE)
    moreover have "set (take n (filter P xs)) \<inter> set (drop n (filter P xs)) = {}"
      using dx by (intro set_take_disj_set_drop_if_distinct) auto
    ultimately show ?thesis using that by auto
  qed
  have im: "f x \<in> f ` set (take n (filter P xs)) \<longleftrightarrow> x \<in> set (take n (filter P xs))" if "x \<in> set xs" for x
  proof -
    have "set (take n (filter P xs)) \<subseteq> set xs" by (auto dest: in_set_takeD)
    then show ?thesis using inj_on_image_mem_iff [OF inj that] by blast
  qed
  show "filter (\<lambda>x. f x \<notin> f ` set (take n (filter P xs))) xs = filter (\<lambda>x. \<not> P x \<or> x \<in> set (drop n (filter P xs))) xs"
    using im td by (intro filter_cong) auto
  have "filter (\<lambda>x. x \<in> set (take n (filter P xs))) xs = take n (filter P xs)"
    using dx
  proof (induction xs arbitrary: n)
    case (Cons y ys)
    show ?case
    proof (cases "P y \<and> 0 < n")
      case True
      then obtain k where k: "n = Suc k" by (auto simp: gr0_conv_Suc)
      have "filter (\<lambda>x. x \<in> set (take n (filter P (y # ys)))) ys = filter (\<lambda>x. x \<in> set (take k (filter P ys))) ys"
        using Cons.prems True k by (intro filter_cong) auto
      then show ?thesis using Cons True k by simp
    next
      case False
      then have "take n (filter P (y # ys)) = take n (filter P ys)" by auto
      moreover have "y \<notin> set (take n (filter P ys))" using Cons.prems by (auto dest: in_set_takeD)
      ultimately show ?thesis using Cons by simp
    qed
  qed simp
  then show "filter (\<lambda>x. f x \<in> f ` set (take n (filter P xs))) xs = take n (filter P xs)"
    using im by (metis (no_types, lifting) filter_cong)
qed

lemma ReapDoneShards_effect:
  assumes "distinct (map shard_id (t_shards d))" "ReapDoneShards p ks d = (n, d')"
  defines "m \<equiv> filter (reapable p ks) (t_shards d)"
  shows "n = int (min ReapBatchSize (length m))"
    "t_shards d' = filter (\<lambda>s. \<not> reapable p ks s \<or> s \<in> set (drop ReapBatchSize m)) (t_shards d)"
    "filter (reapable p ks) (t_shards d') = drop ReapBatchSize m"
proof -
  let ?ids = "map shard_id (take ReapBatchSize m)"
  note T = take_ids [OF assms(1), of ReapBatchSize "reapable p ks", folded m_def]
  have m0: "m = []" if "ks = []" using that by (simp add: m_def reapable_def)
  have ids: "reap_ids p ks d = ?ids" by (simp add: reap_ids_def m_def)
  have n: "n = int (count_where (\<lambda>s. shard_id s \<in> set ?ids) (t_shards d))"
    using assms(2) m0 unfolding ReapDoneShards_eq ids
    by (cases "ks = [] \<or> ?ids = []") (auto simp: Let_def count_where_def simp del: map_is_Nil_conv split: if_splits)
  have t: "t_shards d' = delete_where (\<lambda>s. shard_id s \<in> set ?ids) (t_shards d)"
    using ReapDoneShards_shards [of p ks d] assms(2) m0 ids by (auto simp: delete_where_id)
  show "n = int (min ReapBatchSize (length m))" using n T(2) by (simp add: count_where_def)
  show d: "t_shards d' = filter (\<lambda>s. \<not> reapable p ks s \<or> s \<in> set (drop ReapBatchSize m)) (t_shards d)"
    using t T(1) by (simp add: delete_where_def)
  have "filter (reapable p ks) (t_shards d') = filter (\<lambda>s. s \<in> set (drop ReapBatchSize m)) m"
    unfolding d m_def by (simp add: filter_filter) (rule filter_cong, auto)
  also have "\<dots> = drop ReapBatchSize m"
  proof -
    have "distinct m" using assms(1) by (simp add: m_def distinct_map)
    then have "set (take ReapBatchSize m) \<inter> set (drop ReapBatchSize m) = {}"
      by (simp add: set_take_disj_set_drop_if_distinct)
    moreover have "filter (\<lambda>s. s \<in> set ys) (xs @ ys) = ys" if "set xs \<inter> set ys = {}" for xs ys :: "shard_row list"
      using that by (induction xs) (auto intro: filter_True)
    ultimately have "filter (\<lambda>s. s \<in> set (drop ReapBatchSize m)) (take ReapBatchSize m @ drop ReapBatchSize m) = drop ReapBatchSize m"
      by blast
    then show ?thesis by simp
  qed
  finally show "filter (reapable p ks) (t_shards d') = drop ReapBatchSize m" .
qed

text \<open>
  (C22) The reap loop ends with the backlog gone: if the clock allows one more round than there are full
  batches of finished shards, the loop deletes every finished shard of the phase and nothing else,
  returns their number, and stops by itself, so a larger budget changes nothing.
\<close>

theorem doReapPhase_drains:
  assumes "db_inv d" "count_where (reapable p ks) (t_shards d) < rounds * ReapBatchSize"
  shows "fst (doReapPhase rounds p ks d) = int (count_where (reapable p ks) (t_shards d)) \<and>
    t_shards (snd (doReapPhase rounds p ks d)) = delete_where (reapable p ks) (t_shards d) \<and>
    doReapPhase (rounds + extra) p ks d = doReapPhase rounds p ks d"
  using assms
proof (induction rounds arbitrary: d)
  case (Suc rounds)
  have B: "0 < ReapBatchSize" by (simp add: ReapBatchSize_def)
  obtain n d1 where r: "ReapDoneShards p ks d = (n, d1)" by force
  let ?m = "filter (reapable p ks) (t_shards d)"
  note E = ReapDoneShards_effect [OF queue_invD(2) [OF db_invD(4) [OF Suc.prems(1)]] r]
  show ?case
  proof (cases "length ?m < ReapBatchSize")
    case True
    have "t_shards d1 = delete_where (reapable p ks) (t_shards d)" using E(2) True by (simp add: delete_where_def)
    then show ?thesis using r E(1) True by (simp add: count_where_def)
  next
    case False
    have i1: "db_inv d1" using db_inv_lease_ops(3) [OF Suc.prems(1), of p ks] r by simp
    have c: "count_where (reapable p ks) (t_shards d1) = length ?m - ReapBatchSize" using E(3) by (simp add: count_where_def)
    then have "count_where (reapable p ks) (t_shards d1) < rounds * ReapBatchSize"
      using Suc.prems(2) False by (simp add: count_where_def)
    note IH = Suc.IH [OF i1 this]
    have "delete_where (reapable p ks) (t_shards d1) = delete_where (reapable p ks) (t_shards d)"
      using E(2) by (auto simp: delete_where_def filter_filter intro: filter_cong)
    then show ?thesis using r E(1) False IH c by (simp add: count_where_def split_beta Let_def)
  qed
qed simp

subsection \<open>The reap queue, starting, converging, retrying\<close>

text \<open>
  The reap queue never holds two requests for the same pass and registry flag and never more than
  its buffer, and a key is marked in flight exactly while its request is queued, so no pass is ever
  locked out of reaping: every method of the controller and every turn of the worker keeps this.
\<close>

theorem reap_queue_sound:
  assumes "reap_queue_ok (m_ctl w)"
  shows "reap_queue_ok (m_ctl (snd (tick env w))) \<and> reap_queue_ok (m_ctl (snd (StartJob env name w))) \<and>
    reap_queue_ok (m_ctl (snd (TriggerPass env name del w))) \<and> reap_queue_ok (m_ctl (reapWorker rounds w))"
  using reapq.tick_runs reapq.StartJob_runs reapq.TriggerPass_runs reap_queue_steps reap_queue_worker assms
  unfolding runs_def by blast

text \<open>
  A job may run beside another only if their destination trees are disjoint; a spec that no longer
  parses has no destination to compare.
\<close>

definition running_beside :: "pc_env \<Rightarrow> job_row \<Rightarrow> path \<Rightarrow> db \<Rightarrow> bool" where
  "running_beside env job dst d \<longleftrightarrow> (\<exists>j \<in> set (t_jobs d). job_name j \<noteq> job_name job \<and> job_state j \<in> {JobRunning, JobPaused} \<and>
     (\<exists>spec. ParseSpec (pe_yaml env) (job_spec j) = Inr spec \<and> PathsOverlap dst (DestinationPath spec)))"

lemma destinationFree_iff:
  "destinationFree env job w = (Inr u, w') \<longleftrightarrow> w' = w \<and>
     (\<exists>spec. ParseSpec (pe_yaml env) (job_spec job) = Inr spec \<and> \<not> running_beside env job (DestinationPath spec) (m_db w))"
proof (cases "ParseSpec (pe_yaml env) (job_spec job)")
  case (Inr spec)
  have "DestinationConflict (pe_yaml env) (job_name job) (DestinationPath spec) JobStatesRunning (m_db w) = None \<longleftrightarrow>
      \<not> running_beside env job (DestinationPath spec) (m_db w)"
    by (auto simp: DestinationConflict_def destinationConflictRows_None_iff conflicts_with_def running_beside_def JobStatesRunning_def)
  then show ?thesis using Inr
    by (cases "DestinationConflict (pe_yaml env) (job_name job) (DestinationPath spec) JobStatesRunning (m_db w)")
      (auto simp: destinationFree_def bindE_def parseSpec_def ofSum_def callDB_def)
qed (simp add: destinationFree_def bindE_def parseSpec_def ofSum_def)

lemma destinationFree_world: "snd (destinationFree env job w) = w"
  by (auto simp: destinationFree_def bindE_def parseSpec_def ofSum_def callDB_def split: sum.splits)



text \<open>
  A pass blocked only by parked shards gets exactly one automatic retry: the first call of
  \<open>advance\<close> on it requeues every parked shard of the job with a fresh attempt count and remembers the
  pass; while the pass is remembered, another call in the same situation changes nothing in the database.
\<close>

theorem auto_retry_once:
  assumes "advance env job w = (r, w')" "ActivePass (job_id job) (m_db w) = Some pass" "pass_state pass \<noteq> PassProbing"
    and "ShardStateCounts (pass_id pass) (m_db w) ShardQueued + ShardStateCounts (pass_id pass) (m_db w) ShardLeased \<le> 0"
    and "0 < ShardStateCounts (pass_id pass) (m_db w) ShardParked"
  shows "r = Inr () \<and> pass_id pass \<in> set (parkedAutoRetried (m_ctl w')) \<and>
    m_db w' = (if pass_id pass \<in> set (parkedAutoRetried (m_ctl w)) then m_db w
               else snd (RetryParkedByJob (job_name job) (pe_now env) (m_db w))) \<and>
    (pass_id pass \<notin> set (parkedAutoRetried (m_ctl w)) \<longrightarrow>
       (\<forall>s \<in> set (t_shards (m_db w)). shard_state s = ShardParked \<and> shard_pass s \<in> job_passes_by_name (job_name job) (m_db w) \<longrightarrow>
          retry_row (pe_now env) s \<in> set (t_shards (m_db w'))))"
proof -
  have p: "pruneProbes pass w = (Inr (), w)" using assms(3) by (simp add: pruneProbes_def returnE_def)
  have R: "r = Inr () \<and> pass_id pass \<in> set (parkedAutoRetried (m_ctl w')) \<and>
    m_db w' = (if pass_id pass \<in> set (parkedAutoRetried (m_ctl w)) then m_db w
               else snd (RetryParkedByJob (job_name job) (pe_now env) (m_db w)))"
    using assms(1,2)
  proof (cases rule: advance_cases)
    case (parked w1 w2)
    have "w1 = w" using parked(1) p by simp
    then show ?thesis using parked(2-4)
      by (auto simp: retryParked_def bindE_def thenE_def getE_def returnE_def onCtl_def putE_def writeDB_def split: if_splits)
  next
    case (draining w1)
    then have w1: "w1 = w" using p by simp
    have "advance env job w = retryParked env job pass (snd ((if pass_state pass = PassScanning \<and>
        ShardStateCounts (pass_id pass) (m_db w) ShardDone > 0 then enqueueReap job pass scanKinds else returnE ()) w))"
      using assms(2,4,5) p by (auto simp: advance_def thenE_def bindE_def readDB_def getE_def returnE_def enqueueReap_def onCtl_def putE_def)
    then show ?thesis using assms(1)
      by (auto simp: retryParked_def bindE_def thenE_def getE_def returnE_def onCtl_def putE_def writeDB_def
          enqueueReap_def enqueueReq_def Let_def split: if_splits)
  next
    case (drained w1 w2)
    then show ?thesis using p assms(5) by simp
  qed
  moreover have "retry_row (pe_now env) s \<in> set (t_shards (snd (RetryParkedByJob (job_name job) (pe_now env) (m_db w))))"
    if "s \<in> set (t_shards (m_db w))" "shard_state s = ShardParked" "shard_pass s \<in> job_passes_by_name (job_name job) (m_db w)" for s
    using that by (auto simp: RetryParkedByJob_def Let_def update_shards_def update_where_def)
  ultimately show ?thesis by auto
qed

section \<open>What the seeders queue\<close>

text \<open>Everything a streaming loop flushed, as a sequence of successful flushes.\<close>

fun flushes :: "('x list \<Rightarrow> unit ctl) \<Rightarrow> 'x list list \<Rightarrow> world \<Rightarrow> world \<Rightarrow> bool" where
  "flushes flush [] w w' \<longleftrightarrow> w' = w"
| "flushes flush (b # bs) w w' \<longleftrightarrow> (\<exists>w1. flush b w = (Inr (), w1) \<and> flushes flush bs w1 w')"

lemma streamFn_apply:
  "streamFn sz entry flush r (k, batch, n, w) =
     (case entry r k of
        (None, k1) \<Rightarrow> (None, k1, batch, n, w)
      | (Some x, k1) \<Rightarrow>
          if length (batch @ [x]) \<ge> sz
          then (case flush (batch @ [x]) w of
                  (Inl e, w1) \<Rightarrow> (Some e, k1, batch @ [x], n + 1, w1)
                | (Inr _, w1) \<Rightarrow> (None, k1, [], n + 1, w1))
          else (None, k1, batch @ [x], n + 1, w))"
  by (simp add: streamFn_def)

lemma streamAll_flushes:
  assumes "streamAll (streamFn sz entry flush) rs (k, batch, n, w) = (None, k', batch', n', w')" "0 < sz" "length batch < sz"
  shows "\<exists>full. concat full @ batch' = batch @ entries_from entry k rs \<and> (\<forall>b \<in> set full. length b = sz) \<and> length batch' < sz \<and>
    n' = n + length (entries_from entry k rs) \<and> flushes flush full w w'"
  using assms(1,3)
proof (induction rs arbitrary: k batch n w)
  case Nil
  then show ?case by (intro exI [of _ "[]"]) simp
next
  case (Cons r rs)
  obtain x k1 where e: "entry r k = (x, k1)" by force
  show ?case
  proof (cases x)
    case None
    then have "streamAll (streamFn sz entry flush) rs (k1, batch, n, w) = (None, k', batch', n', w')"
      using Cons.prems(1) e by (simp add: streamFn_apply)
    from Cons.IH [OF this Cons.prems(2)] show ?thesis using e None by simp
  next
    case (Some y)
    show ?thesis
    proof (cases "length (batch @ [y]) \<ge> sz")
      case True
      then obtain w1 where f: "flush (batch @ [y]) w = (Inr (), w1)"
        and d: "streamAll (streamFn sz entry flush) rs (k1, [], n + 1, w1) = (None, k', batch', n', w')"
        using Cons.prems(1) e Some by (auto simp: streamFn_apply split: prod.splits sum.splits)
      from Cons.IH [OF d] assms(2) obtain full where full: "concat full @ batch' = entries_from entry k1 rs"
        "\<forall>b \<in> set full. length b = sz" "length batch' < sz" "n' = n + 1 + length (entries_from entry k1 rs)" "flushes flush full w1 w'"
        by auto
      have "length (batch @ [y]) = sz" using True Cons.prems(2) by simp
      then show ?thesis using full f e Some by (intro exI [of _ "(batch @ [y]) # full"]) auto
    next
      case False
      then have "streamAll (streamFn sz entry flush) rs (k1, batch @ [y], n + 1, w) = (None, k', batch', n', w')"
        using Cons.prems(1) e Some by (simp add: streamFn_apply)
      from Cons.IH [OF this] False show ?thesis using e Some by auto
    qed
  qed
qed

lemma chunked_concat:
  "0 < sz \<Longrightarrow> (\<forall>b \<in> set full. length b = sz) \<Longrightarrow> length rest < sz \<Longrightarrow>
   chunked sz (concat full @ rest) = full @ (if rest = [] then [] else [rest])"
  by (induction full) (simp_all add: chunked_full chunked_short)

lemma flushes_append: "flushes flush (xs @ ys) w w' \<longleftrightarrow> (\<exists>w1. flushes flush xs w w1 \<and> flushes flush ys w1 w')"
  by (induction xs arbitrary: w) auto

lemma deliver_streamAll: "deliver fn rs s = apfst (map_option CallbackError) (streamAll fn rs s)"
  by (induction rs arbitrary: s) (auto split: prod.splits option.splits)

text \<open>
  The contract of a seeder's \<open>flush\<close>: an empty batch is nothing to do, and a successful flush of a
  non-empty one appends one queued shard of the phase's kind whose payload carries that batch.
\<close>

locale batch_seeder =
  fixes flush :: "'x list \<Rightarrow> unit ctl" and passID :: int and kind :: ShardKind and carries_batch :: "'x list \<Rightarrow> bytes \<Rightarrow> bool"
  assumes flush_empty: "flush [] w = (Inr (), w)"
    and flush_shard: "b \<noteq> [] \<Longrightarrow> flush b w = (Inr u, w') \<Longrightarrow>
      \<exists>s. t_shards (m_db w') = t_shards (m_db w) @ [s] \<and> shard_pass s = passID \<and> shard_kind s = kind \<and>
        shard_state s = ShardQueued \<and> carries_batch b (shard_payload s)"
begin

definition seeded :: "'x list \<Rightarrow> shard_row \<Rightarrow> bool" where
  "seeded b s \<longleftrightarrow> shard_pass s = passID \<and> shard_kind s = kind \<and> shard_state s = ShardQueued \<and> carries_batch b (shard_payload s)"

lemma flushes_rows:
  "flushes flush bs w w' \<Longrightarrow> [] \<notin> set bs \<Longrightarrow> \<exists>rows. t_shards (m_db w') = t_shards (m_db w) @ rows \<and> list_all2 seeded bs rows"
proof (induction bs arbitrary: w)
  case (Cons b bs)
  then obtain w1 where f: "flush b w = (Inr (), w1)" "flushes flush bs w1 w'" by auto
  obtain s where s: "t_shards (m_db w1) = t_shards (m_db w) @ [s]" "seeded b s"
    using flush_shard [OF _ f(1)] Cons.prems(2) unfolding seeded_def by auto
  obtain rows where "t_shards (m_db w') = t_shards (m_db w1) @ rows" "list_all2 seeded bs rows"
    using Cons.IH [OF f(2)] Cons.prems(2) by auto
  then show ?case using s by (intro exI [of _ "s # rows"]) simp
qed simp

lemma stream_rows:
  assumes "finishStream flush (streamAll (streamFn sz entry flush) rs (k, [], 0, w)) = (Inr n, w')" "0 < sz"
  shows "n = length (entries_from entry k rs) \<and>
    (\<exists>rows. t_shards (m_db w') = t_shards (m_db w) @ rows \<and> list_all2 seeded (chunked sz (entries_from entry k rs)) rows)"
proof -
  obtain e k1 batch n1 w1 where s: "streamAll (streamFn sz entry flush) rs (k, [], 0, w) = (e, k1, batch, n1, w1)"
    by (metis prod.exhaust)
  have e: "e = None" and f: "flush batch w1 = (Inr (), w')" and n: "n = n1"
    using assms(1) s by (auto simp: finishStream_def thenE_def bindE_def returnE_def split: option.splits prod.splits sum.splits)
  from streamAll_flushes [OF s [unfolded e] assms(2)] assms(2) obtain full where full:
    "concat full @ batch = entries_from entry k rs" "\<forall>b \<in> set full. length b = sz" "length batch < sz"
    "n1 = length (entries_from entry k rs)" "flushes flush full w w1"
    by auto
  let ?bs = "full @ (if batch = [] then [] else [batch])"
  have c: "chunked sz (entries_from entry k rs) = ?bs"
    using chunked_concat [OF assms(2) full(2,3)] full(1) by simp
  have "flushes flush ?bs w w'" using full(5) f flush_empty by (auto simp: flushes_append)
  moreover have "[] \<notin> set ?bs" using full(2) assms(2) by auto
  ultimately show ?thesis using flushes_rows n full(4) unfolding c by blast
qed

end

lemma insertShards_one:
  "insertShards env p [ns] w = (Inr u, w') \<Longrightarrow>
   \<exists>s. t_shards (m_db w') = t_shards (m_db w) @ [s] \<and> shard_pass s = p \<and> shard_kind s = ns_Kind ns \<and>
     shard_state s = ShardQueued \<and> shard_payload s = ns_Payload ns"
  by (auto simp: insertShards_def thenE_def bindE_def txDB_def returnE_def InsertShards_def insertShardsTx.simps Let_def insert_shard_def
      new_shard_row_def split: sum.splits if_splits)

lemma marshalled_Inr: "marshalled b w = (Inr p, w') \<longleftrightarrow> b = Some p \<and> w' = w"
  by (auto simp: marshalled_def failE_def returnE_def split: option.splits)

interpretation dirfix: batch_seeder "flushDirfix env pass" "pass_id pass" KindDirfix
  "\<lambda>b payload. marshal (pc_Dirfix (pe_pc env)) \<lparr>df_TaskId = 0, df_JobId = 0, df_PassNo = 0, df_Dirs = deepestFirst dm_RelPath b\<rparr> = Some payload"
  for env pass
  by unfold_locales
    (auto simp: flushDirfix_def returnE_def bindE_Inr marshalled_Inr plainShard_def dest!: insertShards_one)

interpretation verify: batch_seeder "flushVerify env pass" "pass_id pass" KindVerify
  "\<lambda>b payload. marshal (pc_Verify (pe_pc env)) \<lparr>vb_TaskId = 0, vb_JobId = 0, vb_PassNo = 0, vb_Entries = b\<rparr> = Some payload"
  for env pass
  by unfold_locales
    (auto simp: flushVerify_def returnE_def bindE_Inr marshalled_Inr plainShard_def dest!: insertShards_one)

interpretation linkfix: batch_seeder "flushLinkfix env pass" "pass_id pass" KindLinkfix
  "\<lambda>b payload. marshal (pc_LinkBatch (pe_pc env)) \<lparr>lt_TaskId = 0, lt_JobId = word_of_int (pass_job pass),
     lt_PassNo = word_of_int (pass_no pass), lt_Links = map linkEntry b\<rparr> = Some payload"
  for env pass
  by unfold_locales
    (auto simp: flushLinkfix_def returnE_def bindE_Inr thenE_Inr marshalled_Inr plainShard_def setDB_def MarkLinkMembersQueued_def
      dest!: insertShards_one)


text \<open>The first copied file of a pass is always checksummed when sampling is on at all.\<close>

lemma verify_floor:
  "0 < ppm \<Longrightarrow> r \<in> set rs \<Longrightarrow> jr_Type r = JR_COPIED \<Longrightarrow> \<exists>e \<in> set (entries_from (verifyEntry ppm) True rs). ve_Checksum e"
proof (induction rs)
  case (Cons x rs)
  show ?case
  proof (cases "jr_Type x = JR_COPIED")
    case True
    then show ?thesis using Cons.prems(1) by (simp add: verifyEntry_def)
  next
    case False
    then have "r \<in> set rs" using Cons.prems by auto
    then show ?thesis using Cons.IH Cons.prems False by (auto simp: verifyEntry_def)
  qed
qed simp

lemma verify_paths:
  "map ve_RelPath (entries_from (verifyEntry ppm) k rs) = map jr_RelPath (filter (\<lambda>r. jr_Type r \<in> {JR_COPIED, JR_META_FIXED}) rs)"
  by (induction rs arbitrary: k) (auto simp: verifyEntry_def)

text \<open>
  What VERIFY checks is what the pass changed: on an intact journal a successful \<open>seedVerify\<close> queues
  every copied and every metadata-fixed path, in journal order, in batches of at most 500, and reports
  their number; with a sampling rate above zero, a pass that copied anything has at least one file
  checksummed; with verification off nothing is queued.
\<close>

theorem seedVerify_covers_journal:
  assumes "seedVerify env job pass w = (Inr n, w')" "journal_refines jw J" "0 \<le> job_id job" "0 \<le> pass_no pass"
    and "segments_named jw (job_id job) (pass_no pass)" "list_all (entry_ok (pe_jc env)) (J (job_id job, pass_no pass))"
    and "journalRoot env = w_root jw" "pe_files env = w_files jw" "ParseSpec (pe_yaml env) (job_spec job) = Inr spec"
  defines "rs \<equiv> recs (J (job_id job, pass_no pass))"
    and "ppm \<equiv> f64_to_u64 (pe_oor env) (f64_scale (SampleRate (Verify spec)) 1000000)"
  shows "if VerifyMode (Verify spec) = ''off'' then n = 0 \<and> w' = w
    else \<exists>batches rows. map ve_RelPath (concat batches) = map jr_RelPath (filter (\<lambda>r. jr_Type r \<in> {JR_COPIED, JR_META_FIXED}) rs) \<and>
      n = length (concat batches) \<and> t_shards (m_db w') = t_shards (m_db w) @ rows \<and>
      list_all2 (\<lambda>b s. length b \<le> 500 \<and> shard_pass s = pass_id pass \<and> shard_kind s = KindVerify \<and> shard_state s = ShardQueued \<and>
        marshal (pc_Verify (pe_pc env)) \<lparr>vb_TaskId = 0, vb_JobId = 0, vb_PassNo = 0, vb_Entries = b\<rparr> = Some (shard_payload s)) batches rows \<and>
      (0 < ppm \<and> (\<exists>r \<in> set rs. jr_Type r = JR_COPIED) \<longrightarrow> (\<exists>e \<in> set (concat batches). ve_Checksum e))"
proof (cases "VerifyMode (Verify spec) = ''off''")
  case True
  then show ?thesis using assms(1,9) by (simp add: seedVerify_def bindE_def parseSpec_def ofSum_def returnE_def)
next
  case False
  let ?es = "entries_from (verifyEntry ppm) True rs"
  note R = ReadRecords_refines [OF assms(2-6)]
  have "finishStream (flushVerify env pass) (apfst (map_option PReadJournal \<circ> map_option CallbackError)
      (streamAll (streamFn verifyBatchSize (verifyEntry ppm) (flushVerify env pass)) rs (True, [], 0, w))) = (Inr n, w')"
    using assms(1,9) False
    by (simp add: seedVerify_def bindE_def parseSpec_def ofSum_def seedJournal_def assms(7,8) R deliver_streamAll apfst_compose rs_def ppm_def)
  then have "finishStream (flushVerify env pass)
      (streamAll (streamFn verifyBatchSize (verifyEntry ppm) (flushVerify env pass)) rs (True, [], 0, w)) = (Inr n, w')"
    by (auto simp: finishStream_def apfst_def map_prod_def split: prod.splits option.splits)
  from verify.stream_rows [OF this] obtain rows where rows: "n = length ?es" "t_shards (m_db w') = t_shards (m_db w) @ rows"
    "list_all2 (verify.seeded pass env) (chunked 500 ?es) rows"
    by (auto simp: verifyBatchSize_def)
  have "list_all2 (\<lambda>b s. length b \<le> 500 \<and> verify.seeded pass env b s) (chunked 500 ?es) rows"
    using rows(3) chunked_sizes [OF nth_mem, of _ 500 ?es] by (simp add: list_all2_conv_all_nth)
  then show ?thesis using False rows(1,2) concat_chunked [of 500 ?es] verify_paths [of ppm True rs] verify_floor [of ppm _ rs]
    unfolding if_not_P [OF False]
    by (intro exI [of _ "chunked 500 ?es"] exI [of _ rows]) (auto simp: verify.seeded_def)
qed

section \<open>Instances\<close>

text \<open>An encoder that always succeeds, and a controller over the sample journal of one record \<open>r\<close>.\<close>

definition any_codec :: "'m codec" where
  "any_codec = \<lparr>marshal = (\<lambda>_. Some [9]), unmarshal = (\<lambda>_. None)\<rparr>"

definition sample_pe :: "JournalRecord \<Rightarrow> pc_env" where
  "sample_pe r = \<lparr>pe_yaml = (\<lambda>_. Some (sample_spec '''')), pe_oor = (\<lambda>_. 0), pe_jc = sample_jc r,
     pe_pc = \<lparr>pc_EntryList = any_codec, pc_Chunk = any_codec, pc_Dirfix = any_codec, pc_Verify = any_codec,
       pc_Delete = any_codec, pc_LinkBatch = any_codec, unmarshalText = (\<lambda>_. ''bad'')\<rparr>,
     journalRoot = ''/j'', pe_files = w_files sample_journal, pe_now = 100, pe_notifier = None, pe_hook = True\<rparr>"

definition dir_record :: JournalRecord where
  "dir_record = sample_record\<lparr>jr_Type := JR_DIR_META,
     jr_Src := Some \<lparr>si_Type = 4, si_Mode = 3, si_Uid = 1, si_Gid = 2, si_Size = 0, si_AtimeNs = 0, si_MtimeNs = 0,
       si_CtimeNs = 0, si_Dev = 1, si_Ino = 1, si_Nlink = 2, si_RdevMajor = 0, si_RdevMinor = 0, si_Blocks = 0\<rparr>\<rparr>"

definition copied_record :: JournalRecord where
  "copied_record = sample_record\<lparr>jr_Type := JR_COPIED\<rparr>"

definition world_of :: "db \<Rightarrow> world" where
  "world_of d = \<lparr>m_db = d, m_ctl = NewController, m_out = []\<rparr>"

theorem advance_phase_order_witness:
  "db_inv (m_db (world_of sample_base)) \<and> wphases (world_of sample_base) = [(1, PassScanning)] \<and>
   wphases (snd (advance (sample_pe dir_record) sample_job (world_of sample_base))) = [(1, PassDirfix)] \<and>
   (\<exists>st'. (1, st') \<in> set (wphases (snd (advance (sample_pe dir_record) sample_job (world_of sample_base)))) \<and>
      (st' = PassScanning \<or> next_phase PassScanning = Some st'))"
proof -
  let ?w = "world_of sample_base" and ?r = "advance (sample_pe dir_record) sample_job (world_of sample_base)"
  have i: "db_inv (m_db ?w)" using db_inv_samples(1) by (simp add: world_of_def)
  have p: "wphases ?w = [(1, PassScanning)]" "wphases (snd ?r) = [(1, PassDirfix)]" by code_simp+
  have "(1, PassScanning) \<in> set (wphases ?w)" using p(1) by simp
  from advance_phase_order [OF prod.collapse [symmetric, of ?r] i this] show ?thesis using i p by auto
qed

theorem doReapPhase_drains_witness:
  "db_inv sample_done \<and> fst (doReapPhase 1 1 [KindChunk] sample_done) = 1 \<and>
   map shard_kind (t_shards (snd (doReapPhase 1 1 [KindChunk] sample_done))) = [KindDir, KindEntryList] \<and>
   doReapPhase (1 + 5) 1 [KindChunk] sample_done = doReapPhase 1 1 [KindChunk] sample_done"
proof -
  have c: "count_where (reapable 1 [KindChunk]) (t_shards sample_done) = 1"
    "map shard_kind (delete_where (reapable 1 [KindChunk]) (t_shards sample_done)) = [KindDir, KindEntryList]" by code_simp+
  then have "count_where (reapable 1 [KindChunk]) (t_shards sample_done) < 1 * ReapBatchSize" by (simp add: ReapBatchSize_def)
  from doReapPhase_drains [OF db_inv_samples(4) this, of 5] c db_inv_samples(4) show ?thesis by simp
qed

theorem reap_queue_sound_witness:
  "reap_queue_ok NewController \<and> reap_queue_ok (m_ctl (snd (tick (sample_pe dir_record) (world_of sample_base)))) \<and>
   length (reapCh (m_ctl (snd (tick (sample_pe dir_record) (world_of sample_base))))) = 1"
proof -
  have i: "reap_queue_ok NewController" by (simp add: reap_queue_ok_def NewController_def)
  have "length (reapCh (m_ctl (snd (tick (sample_pe dir_record) (world_of sample_base))))) = 1" by code_simp
  then show ?thesis using i reap_queue_sound [of "world_of sample_base" "sample_pe dir_record"] by (simp add: world_of_def)
qed

definition sample_ready :: db where
  "sample_ready = sample_base\<lparr>t_jobs := [sample_job\<lparr>job_state := JobReady, job_running_since := None\<rparr>], t_passes := []\<rparr>"

lemma sample_parses: "\<exists>spec. ParseSpec (pe_yaml (sample_pe r)) b = Inr spec \<and> VerifyMode (Verify spec) \<noteq> ''off''"
proof -
  have "(case ParseSpec (\<lambda>_. Some (sample_spec '''')) [] of Inl _ \<Rightarrow> False | Inr spec \<Rightarrow> VerifyMode (Verify spec) \<noteq> ''off'')"
    by code_simp
  then obtain spec where "ParseSpec (\<lambda>_. Some (sample_spec '''')) [] = Inr spec" "VerifyMode (Verify spec) \<noteq> ''off''"
    by (auto split: sum.splits)
  then show ?thesis by (simp add: sample_pe_def ParseSpec_def)
qed



definition sample_parked :: db where
  "sample_parked =
     (let d1 = (case InsertShards 1 0 0 [plainShard KindDir ''d'' []] sample_base of Inl _ \<Rightarrow> sample_base | Inr (ids, d) \<Rightarrow> d);
          d2 = snd (LeaseShards int ''a'' 1 10 100 d1)
      in (case ParkShard 1 0 ''EIO'' 100 d2 of Inl _ \<Rightarrow> d2 | Inr d \<Rightarrow> d))"

theorem auto_retry_once_witness:
  "map shard_state (t_shards sample_parked) = [ShardParked] \<and>
   map (\<lambda>s. (shard_state s, shard_attempt s)) (t_shards (m_db (snd (advance (sample_pe dir_record) sample_job (world_of sample_parked))))) =
     [(ShardQueued, 0)] \<and>
   1 \<in> set (parkedAutoRetried (m_ctl (snd (advance (sample_pe dir_record) sample_job (world_of sample_parked)))))"
proof -
  let ?w = "world_of sample_parked"
  let ?r = "advance (sample_pe dir_record) sample_job ?w"
  have a: "ActivePass (job_id sample_job) (m_db ?w) = Some sample_pass" by code_simp
  have c: "ShardStateCounts (pass_id sample_pass) (m_db ?w) ShardQueued + ShardStateCounts (pass_id sample_pass) (m_db ?w) ShardLeased \<le> 0"
    "0 < ShardStateCounts (pass_id sample_pass) (m_db ?w) ShardParked" by code_simp+
  have s: "map shard_state (t_shards sample_parked) = [ShardParked]"
    "map (\<lambda>s. (shard_state s, shard_attempt s)) (t_shards (snd (RetryParkedByJob (job_name sample_job) (pe_now (sample_pe dir_record)) sample_parked))) =
       [(ShardQueued, 0)]" by code_simp+
  have "pass_state sample_pass \<noteq> PassProbing" "pass_id sample_pass = 1" "parkedAutoRetried (m_ctl ?w) = []" "m_db ?w = sample_parked"
    by (simp_all add: sample_pass_def world_of_def NewController_def)
  then show ?thesis using auto_retry_once [OF prod.collapse [symmetric, of ?r] a _ c] s by simp
qed


theorem seedVerify_covers_journal_witness:
  "\<exists>w' (batches :: VerifyEntry list list). seedVerify (sample_pe copied_record) sample_job sample_pass (world_of sample_base) = (Inr 2, w') \<and>
     map ve_RelPath (concat batches) = [''x'', ''x''] \<and> length (t_shards (m_db w')) = length batches"
proof -
  let ?r = "seedVerify (sample_pe copied_record) sample_job sample_pass (world_of sample_base)"
  have "fst ?r = Inr 2" by code_simp
  then have r: "?r = (Inr 2, snd ?r)" by (metis prod.collapse)
  have n: "job_id sample_job = 1" "pass_no sample_pass = 1" by (simp_all add: sample_job_def sample_pass_def)
  have e: "list_all (entry_ok (pe_jc (sample_pe copied_record))) (sample_entries copied_record (job_id sample_job, pass_no sample_pass))"
    using sample_entry_ok by (simp add: sample_entries_def sample_pe_def n)
  have jn: "segments_named sample_journal (job_id sample_job) (pass_no sample_pass)" unfolding n by (rule sample_named(1))
  have f: "journalRoot (sample_pe copied_record) = w_root sample_journal" "pe_files (sample_pe copied_record) = w_files sample_journal"
    by (simp_all add: sample_pe_def sample_named(2))
  obtain spec where spec: "ParseSpec (pe_yaml (sample_pe copied_record)) (job_spec sample_job) = Inr spec" "VerifyMode (Verify spec) \<noteq> ''off''"
    using sample_parses by blast
  have p: "map jr_RelPath (filter (\<lambda>r. jr_Type r \<in> {JR_COPIED, JR_META_FIXED}) (recs (sample_entries copied_record (job_id sample_job, pass_no sample_pass)))) = [''x'', ''x'']"
    by (simp add: n sample_entries_def recs_def copied_record_def sample_record_def)
  have b: "t_shards (m_db (world_of sample_base)) = []" by (simp add: world_of_def sample_base_def empty_db_def)
  have z: "0 \<le> job_id sample_job" "0 \<le> pass_no sample_pass" by (simp_all add: n)
  have len: "\<exists>bs rs. A bs \<and> C rs \<and> length bs = length rs"
    if "\<exists>bs rs. A bs \<and> B bs \<and> C rs \<and> list_all2 P bs rs \<and> D bs" for A B C D and P :: "VerifyEntry list \<Rightarrow> shard_row \<Rightarrow> bool"
    using that list_all2_lengthD by blast
  from len [OF seedVerify_covers_journal [OF r sample_refines z jn e f spec(1), unfolded if_not_P [OF spec(2)] p b]]
  obtain batches :: "VerifyEntry list list" and rows where "map ve_RelPath (concat batches) = [''x'', ''x'']"
    "t_shards (m_db (snd ?r)) = [] @ rows" "length batches = length rows" by (elim exE conjE)
  then show ?thesis using r by (intro exI [of _ "snd ?r"] exI [of _ batches]) simp
qed

section \<open>Where the code falls short\<close>

text \<open>
  Triggering a pass reopens a completed job without asking whether its destination is still free: with
  another job running into the same tree, both end up running.
\<close>

definition sample_two :: db where
  "sample_two = sample_base\<lparr>
     t_jobs := [sample_job\<lparr>job_state := JobCompleted\<rparr>, sample_job\<lparr>job_id := 2, job_name := ''k''\<rparr>],
     t_passes := [sample_pass\<lparr>pass_state := PassComplete\<rparr>], seq_jobs := 2\<rparr>"

theorem trigger_skips_destination_check:
  "running_beside (sample_pe dir_record) (sample_job\<lparr>job_state := JobCompleted\<rparr>) ''/d'' sample_two \<and>
   map job_state (t_jobs (m_db (snd (TriggerPass (sample_pe dir_record) ''j'' False (world_of sample_two))))) = [JobRunning, JobRunning] \<and>
   isl (fst (StartJob (sample_pe dir_record) ''k'' (world_of sample_two)))"
proof (intro conjI)
  obtain spec where spec: "ParseSpec (pe_yaml (sample_pe dir_record)) [] = Inr spec" "PathsOverlap ''/d'' (DestinationPath spec)"
  proof
    show "ParseSpec (pe_yaml (sample_pe dir_record)) [] = Inr (ApplyDefaults (sample_spec ''''))"
      by (simp add: sample_pe_def ParseSpec_sample)
    show "PathsOverlap ''/d'' (DestinationPath (ApplyDefaults (sample_spec '''')))" by code_simp
  qed
  then show "running_beside (sample_pe dir_record) (sample_job\<lparr>job_state := JobCompleted\<rparr>) ''/d'' sample_two"
    by (simp add: running_beside_def sample_two_def sample_job_def)
  show "map job_state (t_jobs (m_db (snd (TriggerPass (sample_pe dir_record) ''j'' False (world_of sample_two))))) = [JobRunning, JobRunning]"
    "isl (fst (StartJob (sample_pe dir_record) ''k'' (world_of sample_two)))" by code_simp+
qed

text \<open>
  The completion email reports the state of the job row it is handed. \<open>tick\<close> only hands down rows that it
  read as running, before \<open>advance\<close> completes the job: so the email of a converged job says it is running
  and has not converged.
\<close>

lemma addPass_state: "rep_State (fold addPass ps rep) = rep_State rep" "rep_Converged (fold addPass ps rep) = rep_Converged rep"
  by (induction ps arbitrary: rep) (simp_all add: addPass_def Let_def)

theorem completion_mail_is_stale:
  assumes "notifyJobComplete env job w = (r, w')" "job_state job = JobRunning"
  shows "m_out w' = m_out w \<or>
    (\<exists>rcp rep. m_out w' = JobMail rcp rep # m_out w \<and> rep_State rep = JobRunning \<and> \<not> rep_Converged rep)"
  using assms
  by (auto simp: notifyJobComplete_def ignoreE_def bindE_def parseSpec_def ofSum_def returnE_def readDB_def getE_def emit_def putE_def
      buildJobReport_def Let_def addPass_state split: option.splits sum.splits if_splits)

end
