(* ===== verification/Agentsrv.thy ===== *)
theory Agentsrv
  imports Effects Journal Scheduler
begin

text \<open>
  The agent server (\<open>coordinator/internal/agentsrv/server.go\<close>): the session handshake, the frame
  dispatcher and its handlers (heartbeats, work requests, splits, results, journal batches), the
  journal and heartbeat flushers, and the calls other components make into it (drain, job done).

  A method is a computation over \<open>Server\<close>: the database, the scheduler, the journal writer, the
  registered agents and the sessions. A session is the \<open>agentConn\<close> of one connection; the Go pointer
  is its number, and a number that was never handed out reads as a closed connection. The channel of
  outgoing frames is the list of queued frames, oldest first: a \<open>send\<close> that would wait for the writer
  to make room is not told apart from one that finds room. A handler is one step: the locks it takes
  are not modelled, and neither are metrics, log lines and deadlines.

  The clock, the libraries and what the operating system does to a write are fields of \<open>as_env\<close>; each
  step may have its own.
\<close>

section \<open>Messages\<close>

record Hello =
  he_AgentId :: string
  he_Hostname :: string
  he_ProtoMajor :: u32
  he_ProtoMinor :: u32
  he_AgentVersion :: string

record HelloAck =
  ha_Accepted :: bool
  ha_RejectReason :: string
  ha_ProtoMajor :: u32
  ha_HeartbeatIntervalS :: u32
  ha_LeaseTtlS :: u32
  ha_FleetEpoch :: u64

record InflightItem =
  if_LeaseId :: u64
  if_ShardId :: u64
  if_JobId :: u64
  if_Kind :: string
  if_RelPath :: path
  if_HeldMs :: u32
  if_RunningMs :: u32
  if_Running :: bool
  if_EntriesDone :: u64

record Heartbeat =
  hb_Seq :: u64
  hb_HeldLeaseIds :: "u64 list"
  hb_Inflight :: "InflightItem list"

record HeartbeatAck =
  hk_Seq :: u64
  hk_Pause :: bool
  hk_Drain :: bool

datatype Control_Command =
    CMD_UNSPECIFIED | CMD_PAUSE | CMD_RESUME | CMD_DRAIN | CMD_CANCEL_JOB | CMD_SHUTDOWN | CMD_LOG_LEVEL

record Control =
  cn_Command :: Control_Command
  cn_JobId :: u64

record ProtocolError =
  er_Code :: u32
  er_Message :: string

text \<open>The counters are those of the store; \<open>wall_ms\<close> only feeds a histogram and is left out.\<close>

record ShardResult =
  rs_ShardId :: u64
  rs_LeaseId :: u64
  rs_Status :: ResultStatus
  rs_Counters :: "counters option"
  rs_Error :: string
  rs_DeferredRmdirs :: "path list"

record TaskResult =
  tr_TaskId :: u64
  tr_LeaseId :: u64
  tr_Status :: ResultStatus
  tr_Error :: string

record JournalAck =
  AckedSeq :: u64

datatype sendFrame =
    FRAME_HELLO_ACK HelloAck
  | FRAME_HEARTBEAT_ACK HeartbeatAck
  | FRAME_WORK_GRANT WorkGrant
  | FRAME_SHARD_SPLIT_ACK ShardSplitAck
  | FRAME_JOURNAL_ACK JournalAck
  | FRAME_CONTROL Control
  | FRAME_ERROR ProtocolError

text \<open>The types of the frames an agent sends.\<close>

definition ft_HELLO :: FrameType where "ft_HELLO = 1"
definition ft_HEARTBEAT :: FrameType where "ft_HEARTBEAT = 3"
definition ft_WORK_REQUEST :: FrameType where "ft_WORK_REQUEST = 5"
definition ft_SHARD_SPLIT :: FrameType where "ft_SHARD_SPLIT = 7"
definition ft_SHARD_RESULT :: FrameType where "ft_SHARD_RESULT = 9"
definition ft_TASK_RESULT :: FrameType where "ft_TASK_RESULT = 10"
definition ft_JOURNAL_BATCH :: FrameType where "ft_JOURNAL_BATCH = 11"
definition ft_STATS_REPORT :: FrameType where "ft_STATS_REPORT = 13"
definition ft_ERROR :: FrameType where "ft_ERROR = 15"

section \<open>State\<close>

definition ProtoMajor :: u32 where "ProtoMajor = 1"
definition ProtoMinor :: u32 where "ProtoMinor = 3"
definition MinorInflight :: u32 where "MinorInflight = 1"

record Config =
  HeartbeatInterval :: int
  cfg_LeaseTTL :: int
  FleetEpoch :: u64
  MinAgentMinor :: u32

text \<open>
  \<open>conn_open\<close> is the TCP connection, \<open>writer_on\<close> whether the writer goroutine was started, \<open>stopped\<close> and
  \<open>writer_done\<close> the closed \<open>stop\<close> and \<open>done\<close> channels, \<open>on_wire\<close> what has been written to the socket.
\<close>

record agentConn =
  ac_id :: string
  ac_hostname :: string
  ac_protoMinor :: u32
  conn_open :: bool
  out_frames :: "sendFrame list"
  on_wire :: "sendFrame list"
  writer_on :: bool
  stopped :: bool
  writer_done :: bool
  ac_drain :: bool
  ac_pause :: bool
  jrnPending :: u64
  jrnAcked :: u64
  ac_inflight :: "InflightItem list"
  inflightAt :: "int option"
  lastHeartbeatMs :: int

definition newConn :: "string \<Rightarrow> string \<Rightarrow> u32 \<Rightarrow> agentConn" where
  "newConn i host minor = \<lparr>ac_id = i, ac_hostname = host, ac_protoMinor = minor, conn_open = True, out_frames = [],
     on_wire = [], writer_on = False, stopped = False, writer_done = False, ac_drain = False, ac_pause = False, jrnPending = 0, jrnAcked = 0,
     ac_inflight = [], inflightAt = None, lastHeartbeatMs = 0\<rparr>"

record Server =
  srv_cfg :: Config
  srv_db :: db
  srv_sched :: Scheduler
  srv_jw :: journal_writer
  srv_agents :: "(string \<times> nat) list"
  sessions :: "nat \<Rightarrow> agentConn"

definition NewServer :: "Config \<Rightarrow> db \<Rightarrow> Scheduler \<Rightarrow> journal_writer \<Rightarrow> Server" where
  "NewServer cfg d sched jw = \<lparr>srv_cfg = cfg, srv_db = d, srv_sched = sched, srv_jw = jw, srv_agents = [],
     sessions = (\<lambda>_. (newConn '''' '''' 0)\<lparr>conn_open := False, writer_done := True\<rparr>)\<rparr>"

record inbound =
  in_Hello :: "bytes \<Rightarrow> Hello option"
  in_Heartbeat :: "bytes \<Rightarrow> Heartbeat option"
  in_WorkRequest :: "bytes \<Rightarrow> WorkRequest option"
  in_ShardSplit :: "bytes \<Rightarrow> ShardSplit option"
  in_ShardResult :: "bytes \<Rightarrow> ShardResult option"
  in_TaskResults :: "bytes \<Rightarrow> TaskResult list option"
  in_JournalBatch :: "bytes \<Rightarrow> JournalBatch option"
  in_StatsReport :: "bytes \<Rightarrow> bool"
  in_ProtocolError :: "bytes \<Rightarrow> ProtocolError"

text \<open>
  \<open>ae_pick\<close> is the choice Go makes in a \<open>select\<close> when the closed channel and the other are both ready,
  \<open>ae_wrote\<close> whether the socket write of the step succeeds, \<open>ae_text\<close> the text of an error.
\<close>

datatype srv_error =
    SErrClosed
  | SStore store_error
  | SSched sched_error
  | SMarshal
  | SUnmarshal FrameType
  | SChunkSizeZero int
  | SJournal write_error
  | SAgentError ProtocolError
  | SUnexpectedFrame FrameType

record as_env =
  ae_sched :: sched_env
  ae_pc :: payload_codecs
  ae_in :: inbound
  ae_result :: "ShardResult \<Rightarrow> bytes option"
  ae_batch :: "JournalBatch codec"
  ae_leaseID :: "nat \<Rightarrow> int"
  ae_agentsOK :: bool
  ae_countsOK :: bool
  ae_now :: int
  ae_os :: append_os
  ae_sync :: "file_key \<Rightarrow> bool"
  ae_pick :: bool
  ae_wrote :: bool
  ae_text :: "srv_error \<Rightarrow> string"

type_synonym 'a srv = "(Server, srv_error, 'a) eff"

definition onConn :: "nat \<Rightarrow> (agentConn \<Rightarrow> agentConn) \<Rightarrow> Server \<Rightarrow> Server" where
  "onConn sid f s = s\<lparr>sessions := (sessions s)(sid := f (sessions s sid))\<rparr>"

definition setConn :: "nat \<Rightarrow> (agentConn \<Rightarrow> agentConn) \<Rightarrow> unit srv" where
  "setConn sid f = putE (onConn sid f)"

definition readStore :: "(db \<Rightarrow> store_error + 'a) \<Rightarrow> 'a srv" where
  "readStore f s = (map_sum SStore id (f (srv_db s)), s)"

definition txStore :: "(db \<Rightarrow> store_error + 'a \<times> db) \<Rightarrow> 'a srv" where
  "txStore t s = (case t (srv_db s) of Inl e \<Rightarrow> (Inl (SStore e), s) | Inr (a, d) \<Rightarrow> (Inr a, s\<lparr>srv_db := d\<rparr>))"

definition execStore :: "(db \<Rightarrow> store_error + db) \<Rightarrow> unit srv" where
  "execStore t = txStore (\<lambda>d. map_sum id (\<lambda>d'. ((), d')) (t d))"

definition setStore :: "(db \<Rightarrow> db) \<Rightarrow> unit srv" where
  "setStore f = putE (\<lambda>s. s\<lparr>srv_db := f (srv_db s)\<rparr>)"

definition callSched :: "(db \<Rightarrow> Scheduler \<Rightarrow> (sched_error + 'a) \<times> Scheduler) \<Rightarrow> 'a srv" where
  "callSched f s = (case f (srv_db s) (srv_sched s) of (r, sc) \<Rightarrow> (map_sum SSched id r, s\<lparr>srv_sched := sc\<rparr>))"

definition isNoRows :: "srv_error \<Rightarrow> bool" where
  "isNoRows e \<longleftrightarrow> e = SStore ErrNoRows \<or> e = SSched (SchedStore ErrNoRows)"

text \<open>A call whose \<open>sql.ErrNoRows\<close> the caller handles.\<close>

definition onNoRows :: "'a srv \<Rightarrow> 'a srv \<Rightarrow> 'a srv" where
  "onNoRows m h s = (case m s of (Inl e, s1) \<Rightarrow> if isNoRows e then h s1 else (Inl e, s1) | (Inr a, s1) \<Rightarrow> (Inr a, s1))"

definition send :: "as_env \<Rightarrow> nat \<Rightarrow> sendFrame \<Rightarrow> unit srv" where
  "send env sid f s =
     (if writer_done (sessions s sid) \<and> ae_pick env then (Inl SErrClosed, s)
      else (Inr (), onConn sid (\<lambda>ac. ac\<lparr>out_frames := out_frames ac @ [f]\<rparr>) s))"

text \<open>One turn of \<open>writeLoop\<close>; \<open>ae_pick\<close> is its choice between a queued frame and the closed \<open>stop\<close>.\<close>

definition writeTurn :: "as_env \<Rightarrow> nat \<Rightarrow> Server \<Rightarrow> Server" where
  "writeTurn env sid s =
     (let ac = sessions s sid
      in if \<not> writer_on ac \<or> writer_done ac then s
         else if stopped ac \<and> (ae_pick env \<or> out_frames ac = []) then onConn sid (\<lambda>ac. ac\<lparr>writer_done := True\<rparr>) s
         else case out_frames ac of
                [] \<Rightarrow> s
              | f # fs \<Rightarrow>
                  if ae_wrote env \<and> conn_open ac then onConn sid (\<lambda>ac. ac\<lparr>out_frames := fs, on_wire := on_wire ac @ [f]\<rparr>) s
                  else onConn sid (\<lambda>ac. ac\<lparr>out_frames := fs, conn_open := False, writer_done := True\<rparr>) s)"

definition Inflight :: "string \<Rightarrow> Server \<Rightarrow> InflightItem list \<times> int option \<times> bool \<times> bool" where
  "Inflight agentID s =
     (case map_of (srv_agents s) agentID of
        None \<Rightarrow> ([], None, False, False)
      | Some sid \<Rightarrow> let ac = sessions s sid in (ac_inflight ac, inflightAt ac, MinorInflight \<le> ac_protoMinor ac, True))"

definition ConnectedAgents :: "Server \<Rightarrow> string list" where
  "ConnectedAgents s = map fst (srv_agents s)"

section \<open>Sessions\<close>

definition helloAck :: "Config \<Rightarrow> Hello \<Rightarrow> HelloAck" where
  "helloAck cfg hello =
     (let ack = \<lparr>ha_Accepted = True, ha_RejectReason = '''', ha_ProtoMajor = ProtoMajor,
            ha_HeartbeatIntervalS = word_of_int (HeartbeatInterval cfg sdiv 1000),
            ha_LeaseTtlS = word_of_int (cfg_LeaseTTL cfg sdiv 1000), ha_FleetEpoch = FleetEpoch cfg\<rparr>
      in if he_ProtoMajor hello \<noteq> ProtoMajor
         then ack\<lparr>ha_Accepted := False, ha_RejectReason := ''protocol major '' @ fmt_d (uint (he_ProtoMajor hello)) @
                '' unsupported (want '' @ fmt_d (uint ProtoMajor) @ '')''\<rparr>
         else if he_ProtoMinor hello < MinAgentMinor cfg
         then ack\<lparr>ha_Accepted := False, ha_RejectReason := ''protocol minor '' @ fmt_d (uint (he_ProtoMinor hello)) @
                '' below the configured minimum '' @ fmt_d (uint (MinAgentMinor cfg)) @ ''; upgrade the agent''\<rparr>
         else ack)"

text \<open>\<open>writeSync\<close>: the frame goes to the socket directly.\<close>

definition writeSync :: "as_env \<Rightarrow> nat \<Rightarrow> sendFrame \<Rightarrow> bool srv" where
  "writeSync env sid f s =
     (if ae_wrote env \<and> conn_open (sessions s sid)
      then (Inr True, onConn sid (\<lambda>ac. ac\<lparr>on_wire := on_wire ac @ [f]\<rparr>) s) else (Inr False, s))"

definition closeConn :: "nat \<Rightarrow> unit srv" where
  "closeConn sid = setConn sid (\<lambda>ac. ac\<lparr>conn_open := False\<rparr>)"

text \<open>Newest wins: the connection of an older session of the agent is closed.\<close>

definition register :: "nat \<Rightarrow> string \<Rightarrow> unit srv" where
  "register sid i s =
     (Inr (), (case map_of (srv_agents s) i of None \<Rightarrow> s | Some old \<Rightarrow> onConn old (\<lambda>ac. ac\<lparr>conn_open := False\<rparr>) s)
       \<lparr>srv_agents := AList.update i sid (srv_agents s)\<rparr>)"

text \<open>
  \<open>handle\<close> up to its read loop, on the first frame of the connection \<open>sid\<close> (\<open>Inl\<close>: the read failed).
  The result says whether the read loop is entered.
\<close>

definition handshake :: "as_env \<Rightarrow> nat \<Rightarrow> wire_error + (FrameType \<times> bytes) \<Rightarrow> bool srv" where
  "handshake env sid first =
     (case first of
        Inl _ \<Rightarrow> thenE (closeConn sid) (returnE False)
      | Inr (ft, payload) \<Rightarrow>
          if ft \<noteq> ft_HELLO then thenE (closeConn sid) (returnE False)
          else (case in_Hello (ae_in env) payload of
            None \<Rightarrow> thenE (closeConn sid) (returnE False)
          | Some hello \<Rightarrow>
              if he_AgentId hello = '''' then thenE (closeConn sid) (returnE False)
              else thenE (setConn sid (\<lambda>_. newConn (he_AgentId hello) (he_Hostname hello) (he_ProtoMinor hello)))
                (bindE (getE (\<lambda>s. helloAck (srv_cfg s) hello)) (\<lambda>ack.
                  if \<not> ha_Accepted ack
                  then thenE (writeSync env sid (FRAME_HELLO_ACK ack)) (thenE (closeConn sid) (returnE False))
                  else thenE (register sid (he_AgentId hello))
                    (thenE (setStore (UpsertAgent (he_AgentId hello) (he_Hostname hello) (he_AgentVersion hello)
                              (unat (he_ProtoMinor hello)) (ae_now env)))
                      (bindE (writeSync env sid (FRAME_HELLO_ACK ack)) (\<lambda>wrote.
                        if \<not> wrote then thenE (closeConn sid) (returnE False)
                        else thenE (setConn sid (\<lambda>ac. ac\<lparr>writer_on := True\<rparr>)) (returnE True))))))))"

text \<open>The deferred function of \<open>handle\<close>, and the deferred close of the connection after it.\<close>

definition teardown :: "nat \<Rightarrow> unit srv" where
  "teardown sid =
     thenE (setConn sid (\<lambda>ac. ac\<lparr>stopped := True\<rparr>))
       (thenE (putE (\<lambda>s. if map_of (srv_agents s) (ac_id (sessions s sid)) = Some sid
                then s\<lparr>srv_agents := AList.delete (ac_id (sessions s sid)) (srv_agents s)\<rparr> else s))
         (bindE (getE (\<lambda>s. ac_id (sessions s sid))) (\<lambda>i.
           thenE (setStore (SetAgentState i ''disconnected'')) (closeConn sid))))"

section \<open>Heartbeats, drain and job completion\<close>

definition renewLeases :: "as_env \<Rightarrow> nat \<Rightarrow> int list \<Rightarrow> unit srv" where
  "renewLeases env sid held = putE (\<lambda>s. s\<lparr>srv_db :=
     snd (RenewLeasesByID (ac_id (sessions s sid)) held (cfg_LeaseTTL (srv_cfg s)) (ae_now env) (srv_db s))\<rparr>)"

definition onHeartbeat :: "as_env \<Rightarrow> nat \<Rightarrow> Heartbeat \<Rightarrow> unit srv" where
  "onHeartbeat env sid hb =
     thenE (setConn sid (\<lambda>ac. ac\<lparr>ac_inflight := hb_Inflight hb, inflightAt := Some (ae_now env)\<rparr>))
       (thenE (renewLeases env sid (map sint (hb_HeldLeaseIds hb)))
         (thenE (setConn sid (\<lambda>ac. ac\<lparr>lastHeartbeatMs := ae_now env\<rparr>))
           (bindE (getE (\<lambda>s. sessions s sid)) (\<lambda>ac.
             send env sid (FRAME_HEARTBEAT_ACK \<lparr>hk_Seq = hb_Seq hb, hk_Pause = ac_pause ac, hk_Drain = ac_drain ac\<rparr>)))))"

definition SetDrain :: "as_env \<Rightarrow> string \<Rightarrow> bool \<Rightarrow> bool srv" where
  "SetDrain env agentID drain =
     bindE (getE (\<lambda>s. map_of (srv_agents s) agentID)) (\<lambda>sid.
       case sid of
         None \<Rightarrow> returnE False
       | Some sid \<Rightarrow>
           thenE (setConn sid (\<lambda>ac. ac\<lparr>ac_drain := drain\<rparr>))
             (thenE (if drain then ignoreE (send env sid (FRAME_CONTROL \<lparr>cn_Command = CMD_DRAIN, cn_JobId = 0\<rparr>)) else returnE ())
               (returnE True)))"

definition NotifyJobDone :: "as_env \<Rightarrow> int \<Rightarrow> unit srv" where
  "NotifyJobDone env jobID =
     bindE (getE (\<lambda>s. map snd (srv_agents s))) (\<lambda>acs.
       eachE (\<lambda>sid. ignoreE (send env sid (FRAME_CONTROL \<lparr>cn_Command = CMD_CANCEL_JOB, cn_JobId = word_of_int jobID\<rparr>))) acs)"

definition flushHeartbeats :: "unit srv" where
  "flushHeartbeats = putE (\<lambda>s.
     let stamps = map (\<lambda>(i, sid). (i, lastHeartbeatMs (sessions s sid)))
                    (filter (\<lambda>(i, sid). lastHeartbeatMs (sessions s sid) > 0) (srv_agents s))
     in s\<lparr>srv_db := TouchAgents stamps (srv_db s)\<rparr>)"

section \<open>Work requests\<close>

definition callGrant :: "as_env \<Rightarrow> string \<Rightarrow> WorkRequest \<Rightarrow> WorkGrant srv" where
  "callGrant env agentID req s =
     (case Grant (ae_sched env) (ae_pc env) (ae_leaseID env) (ae_agentsOK env) (ae_countsOK env)
             (ae_now env) agentID req (srv_db s) (srv_sched s) of
        (r, d, sc) \<Rightarrow> (map_sum SSched id r, s\<lparr>srv_db := d, srv_sched := sc\<rparr>))"

definition onWorkRequest :: "as_env \<Rightarrow> nat \<Rightarrow> WorkRequest \<Rightarrow> unit srv" where
  "onWorkRequest env sid req =
     bindE (getE (\<lambda>s. sessions s sid)) (\<lambda>ac.
       if ac_drain ac \<or> ac_pause ac then send env sid (FRAME_WORK_GRANT \<lparr>wg_Items = [], wg_Options = []\<rparr>)
       else bindE (callGrant env (ac_id ac) req) (\<lambda>grant. send env sid (FRAME_WORK_GRANT grant)))"

section \<open>Splits\<close>

definition shard :: "ShardKind \<Rightarrow> path \<Rightarrow> bytes \<Rightarrow> NewShard" where
  "shard k rel payload = \<lparr>ns_Kind = k, ns_RelPath = rel, ns_Payload = payload, ns_TargetAgent = ''''\<rparr>"

text \<open>A payload whose marshalling error the source drops is nil then.\<close>

definition orNil :: "bytes option \<Rightarrow> bytes" where
  "orNil b = (case b of None \<Rightarrow> [] | Some p \<Rightarrow> p)"

definition deleteCleanupShard :: "payload_codecs \<Rightarrow> path \<Rightarrow> NewShard" where
  "deleteCleanupShard pc dirRel = shard KindDelete '''' (orNil (marshal (pc_Delete pc) (DeleteBatch_of [dirRel])))"

definition finalizeShard :: "payload_codecs \<Rightarrow> path \<Rightarrow> string \<Rightarrow> FileGen option \<Rightarrow> NewShard" where
  "finalizeShard pc rel temp gen = shard KindChunk rel (orNil (marshal (pc_Chunk pc)
     (empty_ChunkTask\<lparr>ct_RelPath := rel, ct_TempName := temp, ct_Finalize := True, ct_Gen := gen\<rparr>)))"

text \<open>A loop that builds one shard per element and returns at the first payload that does not marshal.\<close>

fun marshalShards :: "('x \<Rightarrow> ShardKind \<times> path \<times> bytes option) \<Rightarrow> 'x list \<Rightarrow> NewShard list srv" where
  "marshalShards f [] = returnE []"
| "marshalShards f (x # xs) =
     (case f x of (k, rel, payload) \<Rightarrow>
       (case payload of
          None \<Rightarrow> failE SMarshal
        | Some p \<Rightarrow> bindE (marshalShards f xs) (\<lambda>shs. returnE (shard k rel p # shs))))"

definition splitSubdirs :: "path list \<Rightarrow> NewShard list" where
  "splitSubdirs ds = map (\<lambda>d. shard KindDir d []) ds"

definition splitDeleteSubdirs :: "payload_codecs \<Rightarrow> path list \<Rightarrow> NewShard list srv" where
  "splitDeleteSubdirs pc ds = marshalShards (\<lambda>d. (KindDelete, d, marshal (pc_Delete pc) (DeleteBatch_of [d]))) ds"

definition subdirTotal :: "payload_codecs \<Rightarrow> path \<Rightarrow> DeleteGroupTotal" where
  "subdirTotal pc d = \<lparr>dt_DirRel = d, dt_LastBatch = True, dt_NoSelfCleanup = True, dt_BuildCleanup = deleteCleanupShard pc\<rparr>"

definition splitEntryLists :: "payload_codecs \<Rightarrow> (path \<times> path list) list \<Rightarrow> NewShard list srv" where
  "splitEntryLists pc els = marshalShards (\<lambda>(dir, names). (KindEntryList, dir, marshal (pc_EntryList pc)
     \<lparr>el_ShardId = 0, el_JobId = 0, EntryListShard.el_PassNo = 0, el_DirRel = dir, el_Names = names, el_Overrides = None\<rparr>)) els"

definition splitRemainders :: "payload_codecs \<Rightarrow> DeleteRemainder list \<Rightarrow> NewShard list srv" where
  "splitRemainders pc drs = marshalShards (\<lambda>dr. (KindDelete, dr_DirRel dr, marshal (pc_Delete pc)
     (DeleteBatch_of (map (\<lambda>name. dr_DirRel dr @ ''/'' @ name) (dr_Names dr))))) drs"

definition remainderTotal :: "payload_codecs \<Rightarrow> DeleteRemainder \<Rightarrow> DeleteGroupTotal" where
  "remainderTotal pc dr = \<lparr>dt_DirRel = dr_DirRel dr, dt_LastBatch = (dr_TotalChildren dr > 0), dt_NoSelfCleanup = False,
     dt_BuildCleanup = deleteCleanupShard pc\<rparr>"

subsection \<open>Big files\<close>

text \<open>\<open>int((bf.Size + chunkSize - 1) / chunkSize)\<close>: the sum wraps at 64 bits and the quotient is read signed.\<close>

definition nChunks :: "u64 \<Rightarrow> u64 \<Rightarrow> int" where
  "nChunks sz chunkSize = (let n = sint ((sz + chunkSize - 1) div chunkSize) in if n < 1 then 1 else n)"

definition tempName :: "string \<Rightarrow> int \<Rightarrow> int \<Rightarrow> int \<Rightarrow> nat \<Rightarrow> string" where
  "tempName pfx jobID passNo parentShardID i =
     pfx @ fmt_int 16 jobID @ ''-'' @ fmt_int 16 passNo @ ''.'' @ fmt_int 16 parentShardID @ ''.'' @ fmt_int 16 (int i)"

definition chunkAt :: "BigFile \<Rightarrow> u64 \<Rightarrow> string \<Rightarrow> nat \<Rightarrow> ChunkTask" where
  "chunkAt bf chunkSize temp c =
     (let off = of_nat c * chunkSize;
          len = (if off + chunkSize > bf_Size bf then bf_Size bf - off else chunkSize)
      in empty_ChunkTask\<lparr>ct_RelPath := bf_RelPath bf, ct_Offset := off, ct_Length := len,
           ct_Gen := Some \<lparr>fg_Size = bf_Size bf, fg_MtimeNs = bf_MtimeNs bf\<rparr>, ct_CreateTemp := (c = 0), ct_TempName := temp\<rparr>)"

definition fileChunks :: "BigFile \<Rightarrow> u64 \<Rightarrow> string \<Rightarrow> ChunkTask list" where
  "fileChunks bf chunkSize temp = map (chunkAt bf chunkSize temp) [0..<nat (nChunks (bf_Size bf) chunkSize)]"

definition chunkGroup :: "BigFile \<Rightarrow> u64 \<Rightarrow> string \<Rightarrow> NewChunkGroup" where
  "chunkGroup bf chunkSize temp = \<lparr>ncg_RelPath = bf_RelPath bf, ncg_TempName = temp, ncg_Size = bf_Size bf,
     ncg_MtimeNs = bf_MtimeNs bf, ncg_NChunks = nChunks (bf_Size bf) chunkSize\<rparr>"

definition planBigFiles :: "as_env \<Rightarrow> int \<Rightarrow> BigFile list \<Rightarrow> (NewShard list \<times> NewChunkGroup list) srv" where
  "planBigFiles env parentShardID bigs =
     bindE (readStore (ShardJobPass parentShardID)) (\<lambda>(jobID, passNo).
       bindE (callSched (JobOptions_of (ae_sched env) jobID)) (\<lambda>opts.
         let chunkSize = oChunkSize (oCopy opts);
             pfx = (if oTempPrefix (oCopy opts) = '''' then ''.drsync.tmp.'' else oTempPrefix (oCopy opts));
             named = map (\<lambda>(i, bf). (bf, tempName pfx jobID passNo parentShardID i)) (enumerate 0 bigs)
         in if chunkSize = 0 then failE (SChunkSizeZero jobID)
            else bindE (marshalShards (\<lambda>ct. (KindChunk, ct_RelPath ct, marshal (pc_Chunk (ae_pc env)) ct))
                   (concat (map (\<lambda>(bf, temp). fileChunks bf chunkSize temp) named))) (\<lambda>shards.
                 returnE (shards, map (\<lambda>(bf, temp). chunkGroup bf chunkSize temp) named))))"

subsection \<open>Link sightings\<close>

definition sighting :: "LinkSighting \<Rightarrow> NewLinkSighting" where
  "sighting w = \<lparr>nls_Dev = ls_Dev w, nls_Ino = ls_Ino w, nls_RelPath = ls_RelPath w, nls_Nlink = unat (ls_Nlink w),
     nls_Size = ls_Size w, nls_MtimeNs = ls_MtimeNs w\<rparr>"

definition planLinkSightings :: "as_env \<Rightarrow> int \<Rightarrow> LinkSighting list \<Rightarrow> (NewLinkSighting list \<times> u64) srv" where
  "planLinkSightings env parentShardID wire =
     (if wire = [] then returnE ([], 0)
      else bindE (readStore (ShardJobPass parentShardID)) (\<lambda>(jobID, _).
        bindE (callSched (HardlinksPolicy (ae_sched env) jobID)) (\<lambda>(mode, maxGroupScan).
          if mode \<noteq> ''preserve'' then returnE ([], 0)
          else returnE (map sighting wire, maxGroupScan))))"

definition splitAck :: "ShardSplit \<Rightarrow> int list \<Rightarrow> sendFrame" where
  "splitAck sp ids = FRAME_SHARD_SPLIT_ACK
     \<lparr>sa_ParentShardId = sp_ParentShardId sp, sa_Seq = sp_Seq sp, sa_AssignedShardIds = map word_of_int ids\<rparr>"

definition recordSplit ::
    "as_env \<Rightarrow> ShardSplit \<Rightarrow> NewShard list \<Rightarrow> NewChunkGroup list \<Rightarrow> NewLinkSighting list \<Rightarrow> u64 \<Rightarrow> DeleteGroupTotal list \<Rightarrow> int list srv" where
  "recordSplit env sp shards groups sightings maxGroupScan totals =
     txStore (RecordSplit (sint (sp_ParentShardId sp)) (sp_Seq sp) shards groups sightings maxGroupScan totals (ae_now env))"

text \<open>
  The two plans may find the parent shard gone; then the split is acknowledged without ids. The plans
  and what follows them are nested as in the source: \<open>None\<close> is the early return.
\<close>

definition onShardSplit :: "as_env \<Rightarrow> nat \<Rightarrow> ShardSplit \<Rightarrow> unit srv" where
  "onShardSplit env sid sp =
     bindE (splitDeleteSubdirs (ae_pc env) (sp_DeleteSubdirs sp)) (\<lambda>delSub.
     bindE (splitEntryLists (ae_pc env) (sp_EntryLists sp)) (\<lambda>els.
     bindE (splitRemainders (ae_pc env) (sp_DeleteRemainders sp)) (\<lambda>rems.
     let shards = splitSubdirs (sp_Subdirs sp) @ delSub @ els @ rems;
         totals = map (subdirTotal (ae_pc env)) (sp_DeleteSubdirs sp) @ map (remainderTotal (ae_pc env)) (sp_DeleteRemainders sp);
         parent = sint (sp_ParentShardId sp)
     in bindE (if sp_BigFiles sp = [] then returnE (Some ([], []))
               else onNoRows (bindE (planBigFiles env parent (sp_BigFiles sp)) (\<lambda>r. returnE (Some r))) (returnE None)) (\<lambda>plan.
        case plan of
          None \<Rightarrow> send env sid (splitAck sp [])
        | Some (chunks, groups) \<Rightarrow>
            bindE (onNoRows (bindE (planLinkSightings env parent (sp_LinkSightings sp)) (\<lambda>r. returnE (Some r))) (returnE None)) (\<lambda>links.
              case links of
                None \<Rightarrow> send env sid (splitAck sp [])
              | Some (sightings, maxGroupScan) \<Rightarrow>
                  bindE (recordSplit env sp (shards @ chunks) groups sightings maxGroupScan totals) (\<lambda>ids.
                    send env sid (splitAck sp ids)))))))"

section \<open>Results\<close>

definition completeChunk :: "as_env \<Rightarrow> int \<Rightarrow> int \<Rightarrow> int \<Rightarrow> bytes \<Rightarrow> ShardResult \<Rightarrow> unit srv" where
  "completeChunk env passID shardID leaseID payload r =
     (case unmarshal (pc_Chunk (ae_pc env)) payload of
        None \<Rightarrow> failE (SUnmarshal ft_SHARD_RESULT)
      | Some ct \<Rightarrow>
          if ct_Reclaim ct
          then execStore (CompleteShard shardID leaseID passID (ae_result env r) (rs_Counters r) (ae_now env))
          else if ct_Finalize ct
          then execStore (CompleteFinalizeChunk shardID leaseID passID (ct_RelPath ct) (rs_Counters r) (ae_now env))
          else thenE (txStore (CompleteDataChunk shardID leaseID passID (ct_RelPath ct)
                 (finalizeShard (ae_pc env) (ct_RelPath ct) (ct_TempName ct) (ct_Gen ct)) (rs_Counters r) (ae_now env)))
               (returnE ()))"

definition isHandoff :: "payload_codecs \<Rightarrow> path \<Rightarrow> bytes \<Rightarrow> bool" where
  "isHandoff pc rel payload \<longleftrightarrow> rel \<noteq> '''' \<and>
     (case unmarshal (pc_Delete pc) payload of None \<Rightarrow> False | Some b \<Rightarrow> db_RelPaths b = [rel])"

definition completeOK :: "as_env \<Rightarrow> ShardResult \<Rightarrow> unit srv" where
  "completeOK env r =
     (let shardID = sint (rs_ShardId r); leaseID = sint (rs_LeaseId r)
      in bindE (readStore (ShardMeta shardID)) (\<lambda>(passID, kind, payload, rel).
           if kind = KindChunk then completeChunk env passID shardID leaseID payload r
           else if kind = KindDelete
           then execStore (CompleteDeleteRemainder shardID leaseID passID rel (ae_result env r)
                  (\<not> isHandoff (ae_pc env) rel payload) (deleteCleanupShard (ae_pc env) rel) (deleteCleanupShard (ae_pc env))
                  (rs_DeferredRmdirs r) (rs_Counters r) (ae_now env))
           else execStore (CompleteShard shardID leaseID passID (ae_result env r) (rs_Counters r) (ae_now env))))"

definition requeue :: "as_env \<Rightarrow> ShardResult \<Rightarrow> unit srv" where
  "requeue env r = execStore (RequeueShard (sint (rs_ShardId r)) (sint (rs_LeaseId r)) (rs_Error r) (ae_now env))"

definition srcChanged :: "as_env \<Rightarrow> ShardResult \<Rightarrow> unit srv" where
  "srcChanged env r =
     (let shardID = sint (rs_ShardId r); leaseID = sint (rs_LeaseId r)
      in bindE (readStore (ShardMeta shardID)) (\<lambda>(passID, kind, payload, rel).
           if kind = KindChunk
           then (case unmarshal (pc_Chunk (ae_pc env)) payload of
                   None \<Rightarrow> failE (SUnmarshal ft_SHARD_RESULT)
                 | Some ct \<Rightarrow> execStore (AbortChunkGroup shardID leaseID passID (ct_RelPath ct) (ae_now env)))
           else requeue env r))"

text \<open>The error of a result that names an expired lease is dropped.\<close>

definition dropMismatch :: "unit srv \<Rightarrow> unit srv" where
  "dropMismatch m s = (case m s of (Inl e, s1) \<Rightarrow> (if e = SStore ErrLeaseMismatch then (Inr (), s1) else (Inl e, s1)) | r \<Rightarrow> r)"

definition resultStep :: "as_env \<Rightarrow> ShardResult \<Rightarrow> unit srv" where
  "resultStep env r =
     (case rs_Status r of
        RESULT_OK \<Rightarrow> completeOK env r
      | RESULT_SRC_CHANGED \<Rightarrow> srcChanged env r
      | RESULT_TRANSIENT \<Rightarrow> requeue env r
      | RESULT_MOUNT_SICK \<Rightarrow> requeue env r
      | RESULT_RELEASED \<Rightarrow> execStore (ReleaseShard (sint (rs_ShardId r)) (sint (rs_LeaseId r)) (ae_now env))
      | _ \<Rightarrow> execStore (ParkShard (sint (rs_ShardId r)) (sint (rs_LeaseId r)) (rs_Error r) (ae_now env)))"

definition onShardResult :: "as_env \<Rightarrow> ShardResult \<Rightarrow> unit srv" where
  "onShardResult env r = dropMismatch (resultStep env r)"

definition onTaskResults :: "as_env \<Rightarrow> TaskResult list \<Rightarrow> unit srv" where
  "onTaskResults env rs = eachE (\<lambda>r. onShardResult env \<lparr>rs_ShardId = tr_TaskId r, rs_LeaseId = tr_LeaseId r,
     rs_Status = tr_Status r, rs_Counters = None, rs_Error = tr_Error r, rs_DeferredRmdirs = []\<rparr>) rs"

section \<open>The journal\<close>

definition onJournalBatch :: "as_env \<Rightarrow> nat \<Rightarrow> JournalBatch \<Rightarrow> unit srv" where
  "onJournalBatch env sid b s =
     (case Append (ae_batch env) (ae_os env) b (srv_jw s) of
        (Some e, w) \<Rightarrow> (Inl (SJournal e), s\<lparr>srv_jw := w\<rparr>)
      | (None, w) \<Rightarrow> (Inr (), onConn sid (\<lambda>ac. ac\<lparr>jrnPending := max (jrnPending ac) (jb_Seq b)\<rparr>) (s\<lparr>srv_jw := w\<rparr>)))"

definition ackTargets :: "Server \<Rightarrow> (nat \<times> u64) list" where
  "ackTargets s = map (\<lambda>(i, sid). (sid, jrnPending (sessions s sid)))
     (filter (\<lambda>(i, sid). jrnPending (sessions s sid) > jrnAcked (sessions s sid)) (srv_agents s))"

definition ackOne :: "as_env \<Rightarrow> nat \<times> u64 \<Rightarrow> unit srv" where
  "ackOne env t =
     (case t of (sid, seq) \<Rightarrow>
        thenE (setConn sid (\<lambda>ac. ac\<lparr>jrnAcked := max (jrnAcked ac) seq\<rparr>))
          (ignoreE (send env sid (FRAME_JOURNAL_ACK \<lparr>AckedSeq = seq\<rparr>))))"

definition flushAndAck :: "as_env \<Rightarrow> unit srv" where
  "flushAndAck env =
     bindE (getE ackTargets) (\<lambda>targets.
       if targets = [] then returnE ()
       else bindE (\<lambda>s. case Flush (ae_sync env) (srv_jw s) of (ok, w) \<Rightarrow> (Inr ok, s\<lparr>srv_jw := w\<rparr>)) (\<lambda>ok.
         if \<not> ok then returnE () else eachE (ackOne env) targets))"

section \<open>Dispatch\<close>

definition decoded :: "FrameType \<Rightarrow> 'm option \<Rightarrow> ('m \<Rightarrow> unit srv) \<Rightarrow> unit srv" where
  "decoded ft m f = (case m of None \<Rightarrow> failE (SUnmarshal ft) | Some x \<Rightarrow> f x)"

definition dispatch :: "as_env \<Rightarrow> nat \<Rightarrow> FrameType \<Rightarrow> bytes \<Rightarrow> unit srv" where
  "dispatch env sid ft payload =
     (let i = ae_in env
      in if ft = ft_HEARTBEAT then decoded ft (in_Heartbeat i payload) (onHeartbeat env sid)
         else if ft = ft_WORK_REQUEST then decoded ft (in_WorkRequest i payload) (onWorkRequest env sid)
         else if ft = ft_SHARD_SPLIT then decoded ft (in_ShardSplit i payload) (onShardSplit env sid)
         else if ft = ft_SHARD_RESULT then decoded ft (in_ShardResult i payload) (onShardResult env)
         else if ft = ft_TASK_RESULT then decoded ft (in_TaskResults i payload) (onTaskResults env)
         else if ft = ft_JOURNAL_BATCH then decoded ft (in_JournalBatch i payload) (onJournalBatch env sid)
         else if ft = ft_STATS_REPORT then (if in_StatsReport i payload then returnE () else failE (SUnmarshal ft))
         else if ft = ft_ERROR then failE (SAgentError (in_ProtocolError i payload))
         else failE (SUnexpectedFrame ft))"

text \<open>One turn of the read loop of \<open>handle\<close> (\<open>Inl\<close>: the read failed); the result says whether it goes on.\<close>

definition readTurn :: "as_env \<Rightarrow> nat \<Rightarrow> wire_error + (FrameType \<times> bytes) \<Rightarrow> Server \<Rightarrow> bool \<times> Server" where
  "readTurn env sid frame s =
     (case frame of
        Inl _ \<Rightarrow> (False, snd (teardown sid s))
      | Inr (ft, payload) \<Rightarrow>
          (case dispatch env sid ft payload s of
             (Inr _, s1) \<Rightarrow> (True, s1)
           | (Inl e, s1) \<Rightarrow>
               (False, snd (teardown sid (snd (send env sid (FRAME_ERROR \<lparr>er_Code = 1, er_Message = ae_text env e\<rparr>) s1))))))"

end
