(* ===== verification/Agent_Sessions.thy ===== *)
theory Agent_Sessions
  imports Agentsrv
begin

text \<open>
  What the agent server promises: agents only run the store's transactions, the chunks of a big file
  cover it exactly and its temporary name is its own, one session per agent, increasing journal
  acknowledgements that are only sent for durable batches, no work for drained agents, stale results
  dropped, and the version check of the handshake.
\<close>

section \<open>What a handler does, it does through a few calls\<close>

lemma runs_srv [runs_intros]:
  "runs view step (readStore f)"
  "runs view step m \<Longrightarrow> runs view step h \<Longrightarrow> runs view step (onNoRows m h)"
  "runs view step m' \<Longrightarrow> runs view step (dropMismatch m')"
  "(\<And>x. runs view step (f' x)) \<Longrightarrow> runs view step (decoded ft y f')"
proof -
  show "runs view step (readStore f)" by (rule runs_still) (simp add: readStore_def)
  show "runs view step (onNoRows m h)" if "runs view step m" "runs view step h"
  proof (rule runsI)
    fix s r s'
    assume o: "onNoRows m h s = (r, s')"
    obtain r1 s1 where m: "m s = (r1, s1)" by force
    have "step\<^sup>*\<^sup>* (view s) (view s1)" by (rule runsD [OF that(1) m])
    moreover have "step\<^sup>*\<^sup>* (view s1) (view s')"
      using o m runsD [OF that(2), of s1 r s'] by (auto simp: onNoRows_def split: sum.splits if_splits)
    ultimately show "step\<^sup>*\<^sup>* (view s) (view s')" by (rule rtranclp_trans)
  qed
  show "runs view step (dropMismatch m')" if "runs view step m'"
  proof (rule runsI)
    fix s r s'
    assume o: "dropMismatch m' s = (r, s')"
    obtain r1 s1 where m: "m' s = (r1, s1)" by force
    have "s' = s1" using o m by (auto simp: dropMismatch_def split: sum.splits if_splits)
    then show "step\<^sup>*\<^sup>* (view s) (view s')" using runsD [OF that m] by simp
  qed
  show "runs view step (decoded ft y f')" if "\<And>x. runs view step (f' x)"
    unfolding decoded_def by (intro runs_intros that)
qed

lemma runs_marshalShards [runs_intros]: "runs view step (marshalShards f xs)"
  by (induction xs) (auto intro!: runs_intros split: prod.splits)

definition is_ack :: "sendFrame \<Rightarrow> bool" where
  "is_ack f \<longleftrightarrow> (case f of FRAME_JOURNAL_ACK _ \<Rightarrow> True | _ \<Rightarrow> False)"

text \<open>
  The contract of the calls a frame handler is made of, for a part of the server that \<open>view\<close> selects:
  each changes it by \<open>step\<close>s. Then so does the handling of any frame, also when it fails half way.
\<close>

locale handler_calls =
  fixes view :: "Server \<Rightarrow> 'd" and step :: "'d \<Rightarrow> 'd \<Rightarrow> bool"
  assumes send_runs: "\<not> is_ack f \<Longrightarrow> runs view step (send env sid f)"
    and inflight_runs: "runs view step (setConn sid (\<lambda>ac. ac\<lparr>ac_inflight := items, inflightAt := since\<rparr>))"
    and stamp_runs: "runs view step (setConn sid (\<lambda>ac. ac\<lparr>lastHeartbeatMs := t\<rparr>))"
    and renew_runs: "runs view step (renewLeases env sid held)"
    and grant_runs: "runs view step (callGrant env i req)"
    and options_runs: "runs view step (callSched (JobOptions_of se j))"
    and hardlinks_runs: "runs view step (callSched (HardlinksPolicy se j))"
    and split_runs: "runs view step (recordSplit env sp shards groups sightings mx totals)"
    and complete_runs: "runs view step (execStore (CompleteShard i1 l p res c now))"
    and finalize_runs: "runs view step (execStore (CompleteFinalizeChunk i1 l p rel c now))"
    and chunk_runs: "runs view step (txStore (CompleteDataChunk i1 l p rel fs c now))"
    and remainder_runs: "runs view step (execStore (CompleteDeleteRemainder i1 l p rel res seed cl build deferred c now))"
    and abort_runs: "runs view step (execStore (AbortChunkGroup i1 l p rel now))"
    and requeue_runs: "runs view step (execStore (RequeueShard i1 l err now))"
    and release_runs: "runs view step (execStore (ReleaseShard i1 l now))"
    and park_runs: "runs view step (execStore (ParkShard i1 l err now))"
    and journal_runs: "runs view step (onJournalBatch env sid b)"
begin

lemmas call_runs = inflight_runs stamp_runs renew_runs grant_runs options_runs hardlinks_runs split_runs complete_runs finalize_runs chunk_runs
  remainder_runs abort_runs requeue_runs release_runs park_runs journal_runs

lemma reply_runs:
  "runs view step (send env sid (FRAME_HEARTBEAT_ACK a))" "runs view step (send env sid (FRAME_WORK_GRANT g))"
  "runs view step (send env sid (splitAck sp ids))" "runs view step (send env sid (FRAME_CONTROL c))"
  "runs view step (send env sid (FRAME_ERROR e))"
  by (rule send_runs; simp add: is_ack_def splitAck_def)+

lemmas handler_intros = runs_intros call_runs reply_runs

lemma onHeartbeat_runs: "runs view step (onHeartbeat env sid hb)"
  unfolding onHeartbeat_def by (intro handler_intros)

lemma onWorkRequest_runs: "runs view step (onWorkRequest env sid req)"
  unfolding onWorkRequest_def by (intro handler_intros)

lemma plans_run: "runs view step (planBigFiles env p bigs)" "runs view step (planLinkSightings env p ws)"
  unfolding planBigFiles_def planLinkSightings_def Let_def by (intro handler_intros)+

lemma onShardSplit_runs: "runs view step (onShardSplit env sid sp)"
  unfolding onShardSplit_def Let_def splitDeleteSubdirs_def splitEntryLists_def splitRemainders_def
  by (intro handler_intros plans_run)

lemma onShardResult_runs: "runs view step (onShardResult env r)"
proof -
  have "runs view step (completeOK env r)" unfolding completeOK_def completeChunk_def Let_def by (intro handler_intros)
  moreover have "runs view step (srcChanged env r)" unfolding srcChanged_def requeue_def Let_def by (intro handler_intros)
  moreover have "runs view step (requeue env r)" unfolding requeue_def by (intro handler_intros)
  ultimately have "runs view step (resultStep env r)"
    unfolding resultStep_def by (cases "rs_Status r") (simp_all add: release_runs park_runs)
  then show ?thesis unfolding onShardResult_def by (rule runs_intros)
qed

lemma dispatch_runs: "runs view step (dispatch env sid ft payload)"
  unfolding dispatch_def Let_def onTaskResults_def
  by (intro handler_intros onHeartbeat_runs onWorkRequest_runs onShardSplit_runs onShardResult_runs)

lemma controls_run: "runs view step (NotifyJobDone env j)"
  unfolding NotifyJobDone_def by (intro handler_intros)

end

section \<open>The database\<close>

lemma grantItems_steps: "store_step\<^sup>*\<^sup>* d (fst (snd (grantItems env pc now agents counts rows d s)))"
proof (induction rows arbitrary: d s)
  case (Cons row rows)
  obtain r s1 where p: "jobPolicy_of env (sr_JobID row) d s = (r, s1)" by force
  show ?case
  proof (cases r)
    case (Inr pol)
    show ?thesis
    proof (cases "buildItem pc s1 row (walkOverrides pol agents counts)")
      case (Inl e)
      let ?park = "ParkShard (sr_ID row) (sr_LeaseID row) (''unbuildable payload: '' @ buildErrorText e) now d"
      let ?d = "case ?park of Inl _ \<Rightarrow> d | Inr d1 \<Rightarrow> d1"
      have "store_step\<^sup>*\<^sup>* d ?d" by (cases ?park) (auto intro: park_shard)
      from rtranclp_trans [OF this Cons.IH [of ?d s1]] show ?thesis using p Inr Inl by simp
    next
      case (Inr it)
      then show ?thesis using p \<open>r = Inr pol\<close> Cons.IH [of d s1] by (auto split: prod.splits sum.splits)
    qed
  qed (use p in simp)
qed simp

lemma Grant_steps: "store_step\<^sup>*\<^sup>* d (fst (snd (Grant env pc nl aok cok now i req d s)))"
proof -
  obtain agents counts s1 where f: "fleet aok cok now d s = ((agents, counts), s1)" by (metis prod.exhaust)
  let ?n = "min (fairShare (uint (wr_ShardCredits req) + uint (wr_TaskCredits req)) (Queued counts) agents) grantMaxItems"
  obtain rows d1 where l: "LeaseShards nl i ?n (LeaseTTL s1) now d = (rows, d1)" by force
  obtain r d2 s2 where g: "grantItems env pc now agents counts rows d1 s1 = (r, d2, s2)" by (metis prod.exhaust)
  have "store_step d d1" using lease_shards [of d nl i ?n "LeaseTTL s1" now] l by simp
  moreover have "store_step\<^sup>*\<^sup>* d1 d2" using grantItems_steps [of d1 env pc now agents counts rows s1] g by simp
  moreover have "fst (snd (Grant env pc nl aok cok now i req d s)) = d2"
    using f l g by (auto simp: Grant_def Let_def split: sum.splits prod.splits)
  ultimately show ?thesis by simp
qed

lemma db_runs_tx: "(\<And>d a d'. t d = Inr (a, d') \<Longrightarrow> store_step d d') \<Longrightarrow> runs srv_db store_step (txStore t)"
  by (rule runsI) (auto simp: txStore_def split: sum.splits)

lemma db_runs_exec: "(\<And>d d'. t d = Inr d' \<Longrightarrow> store_step d d') \<Longrightarrow> runs srv_db store_step (execStore t)"
  unfolding execStore_def by (rule db_runs_tx) (auto simp: map_sum_def split: sum.splits)

lemma db_runs_set: "(\<And>d. store_step d (f d)) \<Longrightarrow> runs srv_db store_step (setStore f)"
  by (rule runsI) (auto simp: setStore_def putE_def)

lemma db_same:
  "runs srv_db store_step (setConn sid f)" "runs srv_db store_step (send env sid fr)" "runs srv_db store_step (callSched g)"
  "runs srv_db store_step (onJournalBatch env sid b)" "runs srv_db store_step (writeSync env sid fr)" "runs srv_db store_step (register sid i)"
  by (rule runs_still; simp add: setConn_def putE_def onConn_def send_def callSched_def onJournalBatch_def writeSync_def register_def
      split: prod.splits option.splits)+

lemma db_grant: "runs srv_db store_step (callGrant env i req)"
proof (rule runsI)
  fix s r s'
  assume "callGrant env i req s = (r, s')"
  then have "srv_db s' = fst (snd (Grant (ae_sched env) (ae_pc env) (ae_leaseID env) (ae_agentsOK env) (ae_countsOK env)
      (ae_now env) i req (srv_db s) (srv_sched s)))"
    by (auto simp: callGrant_def split: prod.splits)
  then show "store_step\<^sup>*\<^sup>* (srv_db s) (srv_db s')" by (simp add: Grant_steps)
qed

lemma db_renew: "runs srv_db store_step (renewLeases env sid held)"
  by (rule runsI) (auto simp: renewLeases_def putE_def intro: renew_leases)

interpretation hdb: handler_calls srv_db store_step
  by unfold_locales
    (auto simp: recordSplit_def intro!: db_same db_grant db_renew db_runs_tx db_runs_exec
      intro: record_split complete_shard complete_finalize complete_data_chunk complete_delete abort_chunks requeue_shard
        release_shard park_shard)

lemma hdb_sessions:
  "runs srv_db store_step (handshake env sid first)" "runs srv_db store_step (teardown sid)"
  "runs srv_db store_step flushHeartbeats" "runs srv_db store_step (SetDrain env i b)" "runs srv_db store_step (flushAndAck env)"
proof -
  have u: "runs srv_db store_step (setStore (UpsertAgent a host ver minor now))" for a host ver minor now
    by (rule db_runs_set) (rule upsert_agent)
  show "runs srv_db store_step (handshake env sid first)"
    unfolding handshake_def closeConn_def by (intro runs_intros db_same u)
  have d: "runs srv_db store_step (setStore (SetAgentState i st))" for i st
    by (rule db_runs_set) (rule set_agent_state)
  have p: "runs srv_db store_step (putE (\<lambda>s. if map_of (srv_agents s) (ac_id (sessions s sid)) = Some sid
                then s\<lparr>srv_agents := AList.delete (ac_id (sessions s sid)) (srv_agents s)\<rparr> else s))"
    by (rule runs_still) (simp add: putE_def)
  show "runs srv_db store_step (teardown sid)" unfolding teardown_def closeConn_def by (intro runs_intros db_same d p)
  show "runs srv_db store_step flushHeartbeats"
    by (rule runsI) (auto simp: flushHeartbeats_def putE_def Let_def intro: touch_agents)
  show "runs srv_db store_step (SetDrain env i b)" unfolding SetDrain_def by (intro runs_intros db_same)
  have f: "runs srv_db store_step (\<lambda>s. case Flush (ae_sync env) (srv_jw s) of (ok, w) \<Rightarrow> (Inr ok, s\<lparr>srv_jw := w\<rparr>))"
    by (rule runs_still) (simp split: prod.splits)
  show "runs srv_db store_step (flushAndAck env)" unfolding flushAndAck_def ackOne_def by (intro runs_intros db_same f)
qed

lemma readTurn_steps: "store_step\<^sup>*\<^sup>* (srv_db s) (srv_db (snd (readTurn env sid frame s)))"
proof -
  have t: "store_step\<^sup>*\<^sup>* (srv_db s1) (srv_db (snd (teardown sid s1)))" for s1
    using hdb_sessions(2) by (simp add: runs_def)
  show ?thesis
  proof (cases frame)
    case (Inr f)
    obtain ft payload where f: "f = (ft, payload)" by force
    obtain r s1 where d: "dispatch env sid ft payload s = (r, s1)" by force
    have "store_step\<^sup>*\<^sup>* (srv_db s) (srv_db s1)" by (rule runsD [OF hdb.dispatch_runs d])
    moreover have "srv_db (snd (send env sid fr s1)) = srv_db s1" for fr by (simp add: send_def onConn_def)
    ultimately show ?thesis using t Inr f d
      by (auto simp: readTurn_def split: sum.splits) (metis rtranclp_trans)
  qed (use t in \<open>simp add: readTurn_def\<close>)
qed


section \<open>Big files\<close>

lemma ranges_concat:
  "concat (map (\<lambda>c. [c * C ..< c * C + min C (S - c * C)]) [0..<n]) = [0..<min S (n * C)]"
proof (induction n)
  case (Suc n)
  show ?case
  proof (cases "n * C \<le> S")
    case True
    have "[0..<n * C] @ [n * C ..< n * C + min C (S - n * C)] = [0..<n * C + min C (S - n * C)]"
      using upt_add_eq_append [of 0 "n * C" "min C (S - n * C)"] by simp
    moreover have "n * C + min C (S - n * C) = min S (Suc n * C)" using True by auto
    moreover have "min S (n * C) = n * C" using True by simp
    ultimately show ?thesis using Suc by (simp only: upt_Suc_append map_append concat_append list.map concat.simps append_Nil2 zero_le)
  next
    case False
    then show ?thesis using Suc by (simp add: min_def)
  qed
qed simp

lemma sint_small: "unat (x :: u64) < 2 ^ 63 \<Longrightarrow> sint x = int (unat x)"
proof -
  assume "unat x < 2 ^ 63"
  then have "int (unat x) < int (2 ^ 63)" by (simp only: of_nat_less_iff)
  then have "uint x < 2 ^ 63" by simp
  moreover have "0 \<le> uint x" by simp
  ultimately have "- (2 ^ 63) \<le> uint x \<and> uint x < 2 ^ 63" by linarith
  then have "signed_take_bit 63 (uint x) = uint x" by (simp add: signed_take_bit_int_eq_self_iff)
  then show ?thesis by (simp add: sint_uint)
qed

lemma nChunks_nat:
  assumes "0 < cs" "unat sz + unat cs \<le> 2 ^ 63"
  shows "nChunks sz cs = int (max 1 ((unat sz + unat cs - 1) div unat cs))"
proof -
  let ?q = "(unat sz + unat cs - 1) div unat cs"
  have c: "0 < unat cs" using assms(1) by (simp add: unat_gt_0)
  have s: "unat (sz + cs) = unat sz + unat cs"
    using assms(2) by (subst unat_add_lem [THEN iffD1]) simp_all
  have "(1 :: u64) \<le> sz + cs" using s c by (simp add: word_le_nat_alt)
  then have "unat (sz + cs - 1) = unat sz + unat cs - 1" using s by (simp add: unat_sub)
  then have q: "unat ((sz + cs - 1) div cs) = ?q" by (simp add: unat_div)
  have "?q \<le> unat sz + unat cs - 1" by simp
  then have "?q < 2 ^ 63" using assms(2) c by linarith
  then have "sint ((sz + cs - 1) div cs) = int ?q"
    using sint_small [of "(sz + cs - 1) div cs", unfolded q] by blast
  then show ?thesis by (simp add: nChunks_def Let_def max_def)
qed

lemma chunkAt_range:
  assumes "0 < cs" "unat (bf_Size bf) + unat cs \<le> 2 ^ 63" "c < max 1 ((unat (bf_Size bf) + unat cs - 1) div unat cs)"
  shows "unat (ct_Offset (chunkAt bf cs temp c)) = c * unat cs"
    "unat (ct_Length (chunkAt bf cs temp c)) = min (unat cs) (unat (bf_Size bf) - c * unat cs)"
proof -
  let ?S = "unat (bf_Size bf)" and ?C = "unat cs"
  have C: "0 < ?C" using assms(1) by (simp add: unat_gt_0)
  have le: "c * ?C \<le> ?S"
  proof (cases "c = 0")
    case False
    then have "Suc c \<le> (?S + ?C - 1) div ?C" using assms(3) by auto
    then have "Suc c * ?C \<le> ?S + ?C - 1" using C by (metis div_times_less_eq_dividend le_trans mult_le_mono1)
    then show ?thesis using C by simp
  qed simp
  have off: "unat (of_nat c * cs) = c * ?C"
  proof -
    have c': "c \<le> c * ?C" using C by simp
    have p: "(2 :: nat) ^ 63 < 2 ^ 64" by simp
    with c' have c: "c < 2 ^ 64" using le assms(2) by linarith
    then have n: "unat (of_nat c :: u64) = c" by (simp add: unat_of_nat take_bit_nat_eq_self)
    have "c * ?C < 2 ^ 64" using le assms(2) p by linarith
    then show ?thesis using n unat_mult_lem [of "of_nat c :: u64" cs] by simp
  qed
  have sum: "unat (of_nat c * cs + cs) = c * ?C + ?C"
    using off le assms(2) by (subst unat_add_lem [THEN iffD1]) simp_all
  show "unat (ct_Offset (chunkAt bf cs temp c)) = c * ?C" using off by (simp add: chunkAt_def Let_def)
  have sub: "unat (bf_Size bf - of_nat c * cs) = ?S - c * ?C"
    using off le by (simp add: unat_sub word_le_nat_alt)
  show "unat (ct_Length (chunkAt bf cs temp c)) = min ?C (?S - c * ?C)"
    using sum sub by (auto simp: chunkAt_def Let_def word_less_nat_alt min_def)
qed

text \<open>
  (C14) The chunks of a big file cover it exactly: their byte ranges, in order, are the file from the first
  byte to the last, each used once; there are as many as the group waits for, none is longer than the
  chunk size, all write the same temporary file and only the first creates it. (The sizes must leave
  room for the rounding in 64 bits.)
\<close>

theorem chunks_partition_file:
  assumes "0 < chunkSize" "unat (bf_Size bf) + unat chunkSize \<le> 2 ^ 63"
  shows "concat (map (\<lambda>ct. [unat (ct_Offset ct) ..< unat (ct_Offset ct) + unat (ct_Length ct)]) (fileChunks bf chunkSize temp)) =
      [0..<unat (bf_Size bf)] \<and>
    int (length (fileChunks bf chunkSize temp)) = ncg_NChunks (chunkGroup bf chunkSize temp) \<and>
    (\<forall>ct \<in> set (fileChunks bf chunkSize temp). ct_Length ct \<le> chunkSize \<and> ct_TempName ct = temp \<and> \<not> ct_Finalize ct) \<and>
    filter ct_CreateTemp (fileChunks bf chunkSize temp) = take 1 (fileChunks bf chunkSize temp)"
proof -
  let ?S = "unat (bf_Size bf)" and ?C = "unat chunkSize"
  let ?N = "max 1 ((?S + ?C - 1) div ?C)"
  note R = chunkAt_range [OF assms]
  have C: "0 < ?C" using assms(1) by (simp add: unat_gt_0)
  have n: "nat (nChunks (bf_Size bf) chunkSize) = ?N" using nChunks_nat [OF assms] by simp
  then have f: "fileChunks bf chunkSize temp = map (chunkAt bf chunkSize temp) [0..<?N]" by (simp only: fileChunks_def)
  have "concat (map (\<lambda>ct. [unat (ct_Offset ct) ..< unat (ct_Offset ct) + unat (ct_Length ct)]) (fileChunks bf chunkSize temp)) =
      concat (map (\<lambda>c. [c * ?C ..< c * ?C + min ?C (?S - c * ?C)]) [0..<?N])"
    unfolding f map_map by (rule arg_cong [where f = concat], rule map_cong) (simp_all add: R)
  also have "\<dots> = [0..<min ?S (?N * ?C)]" by (rule ranges_concat)
  also have "min ?S (?N * ?C) = ?S"
  proof -
    have "?S + ?C - 1 < ((?S + ?C - 1) div ?C) * ?C + ?C" using dividend_less_div_times [OF C, of "?S + ?C - 1"] by linarith
    then have "?S \<le> ((?S + ?C - 1) div ?C) * ?C" by linarith
    also have "\<dots> \<le> ?N * ?C" by (rule mult_le_mono1) simp
    finally show ?thesis by simp
  qed
  finally have 1: "concat (map (\<lambda>ct. [unat (ct_Offset ct) ..< unat (ct_Offset ct) + unat (ct_Length ct)]) (fileChunks bf chunkSize temp)) =
      [0..<?S]" .
  have 2: "int (length (fileChunks bf chunkSize temp)) = ncg_NChunks (chunkGroup bf chunkSize temp)"
    using nChunks_nat [OF assms] f by (simp add: chunkGroup_def)
  have 3: "ct_Length ct \<le> chunkSize \<and> ct_TempName ct = temp \<and> \<not> ct_Finalize ct" if "ct \<in> set (fileChunks bf chunkSize temp)" for ct
    using that R(2) by (auto simp: f word_le_nat_alt chunkAt_def empty_ChunkTask_def Let_def)
  obtain m where m: "[0..<?N] = 0 # [1..<Suc m]" "?N = Suc m"
    by (metis One_nat_def Suc_le_D max.cobounded1 upt_conv_Cons zero_less_Suc)
  have "filter ct_CreateTemp (map (chunkAt bf chunkSize temp) [1..<Suc m]) = []"
    by (auto simp: filter_empty_conv chunkAt_def Let_def)
  then have "filter ct_CreateTemp (fileChunks bf chunkSize temp) = take 1 (fileChunks bf chunkSize temp)"
    unfolding f m(1) by (simp add: chunkAt_def Let_def)
  with 1 2 3 show ?thesis by blast
qed

text \<open>
  A temporary name identifies its file: within one prefix, two chunk groups share a name only if they
  are the same file of the same split of the same pass of the same job. So no two groups write into
  each other's temporary, and the (job, pass) tag an agent reads back is the group's.
\<close>

theorem temp_names_unique:
  assumes "0 \<le> job" "0 \<le> job'"
  shows "tempName pfx job pass parent i = tempName pfx job' pass' parent' i' \<longleftrightarrow>
    job = job' \<and> pass = pass' \<and> parent = parent' \<and> i = i'"
proof
  assume eq: "tempName pfx job pass parent i = tempName pfx job' pass' parent' i'"
  have d: "CHR ''.'' \<notin> set (fmt_int 16 n)" for n by (rule fmt_int_no_sep) (simp add: hex_chars_def)
  have e: "fmt_int 16 job @ CHR ''-'' # (fmt_int 16 pass @ CHR ''.'' # (fmt_int 16 parent @ CHR ''.'' # fmt_int 16 (int i))) =
      fmt_int 16 job' @ CHR ''-'' # (fmt_int 16 pass' @ CHR ''.'' # (fmt_int 16 parent' @ CHR ''.'' # fmt_int 16 (int i')))"
    using eq by (simp add: tempName_def)
  note j = field_inj [OF fmt_int_no_minus [OF assms(1)] fmt_int_no_minus [OF assms(2)] e]
  note p = field_inj [OF d d j [THEN conjunct2]]
  note q = field_inj [OF d d p [THEN conjunct2]]
  from j p q show "job = job' \<and> pass = pass' \<and> parent = parent' \<and> i = i'" using fmt_int_inj [of 16] by force
qed simp

section \<open>Sessions\<close>

definition acks_of :: "sendFrame list \<Rightarrow> u64 list" where
  "acks_of fs = concat (map (\<lambda>f. case f of FRAME_JOURNAL_ACK a \<Rightarrow> [AckedSeq a] | _ \<Rightarrow> []) fs)"

text \<open>Every journal acknowledgement of a session, written or still queued.\<close>

definition acks :: "agentConn \<Rightarrow> u64 list" where
  "acks ac = acks_of (on_wire ac @ out_frames ac)"

lemma acks_of_append [simp]: "acks_of (fs @ gs) = acks_of fs @ acks_of gs"
  by (simp add: acks_of_def)

lemma acks_of_other [simp]: "\<not> is_ack f \<Longrightarrow> acks_of [f] = []"
  by (simp add: acks_of_def is_ack_def split: sendFrame.splits)

text \<open>What a frame of an agent may change of a session: never its identity, its flags or its acknowledgements.\<close>

definition quiet_conn :: "agentConn \<Rightarrow> agentConn \<Rightarrow> bool" where
  "quiet_conn a b \<longleftrightarrow> ac_id b = ac_id a \<and> ac_drain b = ac_drain a \<and> ac_pause b = ac_pause a \<and>
     jrnAcked b = jrnAcked a \<and> jrnPending a \<le> jrnPending b \<and> acks b = acks a"

lemma quiet_conn_refl [simp]: "quiet_conn a a"
  by (simp add: quiet_conn_def)

lemma quiet_conn_trans: "quiet_conn a b \<Longrightarrow> quiet_conn b c \<Longrightarrow> quiet_conn a c"
  by (auto simp: quiet_conn_def)

definition conns :: "Server \<Rightarrow> (string \<times> nat) list \<times> (nat \<Rightarrow> agentConn)" where
  "conns s = (srv_agents s, sessions s)"

definition quiet :: "(string \<times> nat) list \<times> (nat \<Rightarrow> agentConn) \<Rightarrow> (string \<times> nat) list \<times> (nat \<Rightarrow> agentConn) \<Rightarrow> bool" where
  "quiet a b \<longleftrightarrow> fst b = fst a \<and> (\<forall>sid. quiet_conn (snd a sid) (snd b sid))"

lemma quiet_rtranclp: "quiet\<^sup>*\<^sup>* a b \<longleftrightarrow> quiet a b"
proof
  show "quiet\<^sup>*\<^sup>* a b \<Longrightarrow> quiet a b"
    by (induction rule: rtranclp_induct) (auto simp: quiet_def intro: quiet_conn_trans)
qed simp

lemma quietD: "quiet (conns s) (conns s') \<Longrightarrow> srv_agents s' = srv_agents s" "quiet (conns s) (conns s') \<Longrightarrow> quiet_conn (sessions s sid) (sessions s' sid)"
  by (auto simp: quiet_def conns_def)

lemma quiet_still: "(\<And>s. conns (snd (m s)) = conns s) \<Longrightarrow> runs conns quiet m"
  by (rule runs_still)

lemma quiet_setConn: "(\<And>ac. quiet_conn ac (f ac)) \<Longrightarrow> runs conns quiet (setConn sid f)"
  by (simp add: runs_def quiet_rtranclp quiet_def conns_def setConn_def putE_def onConn_def)

lemma quiet_send: "\<not> is_ack f \<Longrightarrow> runs conns quiet (send env sid f)"
  by (simp add: runs_def quiet_rtranclp quiet_def conns_def send_def onConn_def quiet_conn_def acks_def)

lemma quiet_journal: "runs conns quiet (onJournalBatch env sid b)"
  by (simp add: runs_def quiet_rtranclp quiet_def conns_def onJournalBatch_def onConn_def quiet_conn_def acks_def
      split: prod.splits option.splits)

lemma quiet_db:
  "runs conns quiet (txStore t)" "runs conns quiet (execStore e)" "runs conns quiet (setStore f)" "runs conns quiet (callSched g)"
  "runs conns quiet (callGrant env i req)" "runs conns quiet (renewLeases env sid held)"
  by (rule quiet_still; simp add: conns_def txStore_def execStore_def setStore_def putE_def callSched_def callGrant_def renewLeases_def
      split: sum.splits prod.splits)+

interpretation hq: handler_calls conns quiet
  by unfold_locales
    (auto simp: recordSplit_def quiet_conn_def acks_def intro!: quiet_db quiet_journal quiet_send quiet_setConn)

lemma dispatch_quiet: "dispatch env sid ft payload s = (r, s') \<Longrightarrow> quiet (conns s) (conns s')"
  using runsD [OF hq.dispatch_runs] quiet_rtranclp by blast

text \<open>The end of a session takes the agent out of the table if the session is still the agent's, and nothing else.\<close>

lemma teardown_conns:
  "srv_agents (snd (teardown sid s)) = (if map_of (srv_agents s) (ac_id (sessions s sid)) = Some sid
     then AList.delete (ac_id (sessions s sid)) (srv_agents s) else srv_agents s)"
  "quiet_conn (sessions s i) (sessions (snd (teardown sid s)) i)"
  by (simp_all add: teardown_def closeConn_def setStore_def setConn_def eff_defs onConn_def quiet_conn_def acks_def)

lemma readTurn_conns:
  "set (srv_agents (snd (readTurn env sid frame s))) \<subseteq> set (srv_agents s)"
  "distinct (map fst (srv_agents s)) \<Longrightarrow> distinct (map fst (srv_agents (snd (readTurn env sid frame s))))"
  "quiet_conn (sessions s i) (sessions (snd (readTurn env sid frame s)) i)"
proof -
  let ?P = "\<lambda>s'. set (srv_agents s') \<subseteq> set (srv_agents s) \<and>
      (distinct (map fst (srv_agents s)) \<longrightarrow> distinct (map fst (srv_agents s'))) \<and> quiet_conn (sessions s i) (sessions s' i)"
  have down: "?P (snd (teardown sid s1))" if "quiet (conns s) (conns s1)" for s1
    using quietD(1) [OF that] quiet_conn_trans [OF quietD(2) [OF that, of i] teardown_conns(2) [of s1 i sid]]
    by (auto simp: teardown_conns(1) AList.delete_eq distinct_map_filter)
  have "?P (snd (readTurn env sid frame s))"
  proof (cases frame)
    case (Inl e)
    then show ?thesis using down [of s] by (simp add: readTurn_def quiet_def)
  next
    case (Inr f)
    obtain ft payload where f: "f = (ft, payload)" by force
    obtain r s1 where d: "dispatch env sid ft payload s = (r, s1)" by force
    have q: "quiet (conns s) (conns s1)" by (rule dispatch_quiet [OF d])
    show ?thesis
    proof (cases r)
      case (Inl e)
      let ?fr = "FRAME_ERROR \<lparr>er_Code = 1, er_Message = ae_text env e\<rparr>"
      obtain r2 s2 where sd: "send env sid ?fr s1 = (r2, s2)" by force
      have "quiet (conns s1) (conns s2)" using runsD [OF hq.reply_runs(5) sd] quiet_rtranclp by blast
      then have "quiet (conns s) (conns s2)" using q by (auto simp: quiet_def intro: quiet_conn_trans)
      from down [OF this] show ?thesis using Inr f d Inl sd by (simp add: readTurn_def)
    next
      case (Inr u)
      then show ?thesis using \<open>frame = Inr f\<close> f d quietD(1) [OF q] quietD(2) [OF q] by (simp add: readTurn_def)
    qed
  qed
  then show "set (srv_agents (snd (readTurn env sid frame s))) \<subseteq> set (srv_agents s)"
    "distinct (map fst (srv_agents s)) \<Longrightarrow> distinct (map fst (srv_agents (snd (readTurn env sid frame s))))"
    "quiet_conn (sessions s i) (sessions (snd (readTurn env sid frame s)) i)"
    by blast+
qed

section \<open>The server as a transition system\<close>

text \<open>
  One rule per event: a connection's first frame, a frame (or read error) of a session, a turn of a
  writer, the flushers, the calls of the API and the controller, and whatever the other components do to
  the shared store, scheduler and journal.
\<close>

inductive srv_step :: "Server \<Rightarrow> Server \<Rightarrow> bool" where
  connect: "ac_id (sessions s sid) = '''' \<Longrightarrow> srv_step s (snd (handshake env sid first s))"
| frame: "srv_step s (snd (readTurn env sid f s))"
| writer: "srv_step s (writeTurn env sid s)"
| journal_flush: "srv_step s (snd (flushAndAck env s))"
| heartbeat_flush: "srv_step s (snd (flushHeartbeats s))"
| drain: "srv_step s (snd (SetDrain env i b s))"
| job_done: "srv_step s (snd (NotifyJobDone env j s))"
| store: "store_step (srv_db s) d \<Longrightarrow> srv_step s (s\<lparr>srv_db := d\<rparr>)"
| sched: "srv_step s (s\<lparr>srv_sched := sc\<rparr>)"
| journal: "srv_step s (s\<lparr>srv_jw := w\<rparr>)"

definition conn_ok :: "agentConn \<Rightarrow> bool" where
  "conn_ok ac \<longleftrightarrow> sorted_wrt (<) (acks ac) \<and> (\<forall>a \<in> set (acks ac). a \<le> jrnAcked ac) \<and> jrnAcked ac \<le> jrnPending ac"

definition agents_ok :: "(string \<times> nat) list \<Rightarrow> (nat \<Rightarrow> agentConn) \<Rightarrow> bool" where
  "agents_ok ags ss \<longleftrightarrow> distinct (map fst ags) \<and> (\<forall>(i, sid) \<in> set ags. i \<noteq> '''' \<and> ac_id (ss sid) = i)"

definition srv_ok :: "Server \<Rightarrow> bool" where
  "srv_ok s \<longleftrightarrow> agents_ok (srv_agents s) (sessions s) \<and> (\<forall>sid. conn_ok (sessions s sid)) \<and> db_inv (srv_db s)"

lemma srv_okI: "agents_ok (srv_agents s) (sessions s) \<Longrightarrow> (\<And>sid. conn_ok (sessions s sid)) \<Longrightarrow> db_inv (srv_db s) \<Longrightarrow> srv_ok s"
  by (simp add: srv_ok_def)

lemma conn_ok_quiet: "conn_ok a \<Longrightarrow> quiet_conn a b \<Longrightarrow> conn_ok b"
  by (auto simp: conn_ok_def quiet_conn_def)

lemma conn_ok_new: "conn_ok (newConn i h m)"
  by (simp add: conn_ok_def newConn_def acks_def acks_of_def)

lemma agents_ok_mono:
  "agents_ok ags ss \<Longrightarrow> set ags' \<subseteq> set ags \<Longrightarrow> distinct (map fst ags') \<Longrightarrow> (\<And>sid. ac_id (ss' sid) = ac_id (ss sid)) \<Longrightarrow> agents_ok ags' ss'"
  by (auto simp: agents_ok_def)

lemma agents_ok_sids: "agents_ok ags ss \<Longrightarrow> distinct (map snd ags)"
proof (induction ags)
  case (Cons a ags)
  obtain i sid where a: "a = (i, sid)" by force
  have "sid \<notin> snd ` set ags"
  proof
    assume "sid \<in> snd ` set ags"
    then obtain j where "(j, sid) \<in> set ags" by auto
    then have "j = i" using Cons.prems by (auto simp: agents_ok_def a)
    then show False using Cons.prems \<open>(j, sid) \<in> set ags\<close> by (force simp: agents_ok_def a)
  qed
  then show ?case using Cons by (auto simp: agents_ok_def a)
qed simp

lemma srv_ok_quiet:
  assumes "srv_ok s" "quiet (conns s) (conns s')" "db_inv (srv_db s')"
  shows "srv_ok s'"
proof (rule srv_okI [OF _ _ assms(3)])
  show "agents_ok (srv_agents s') (sessions s')"
    using assms(1) quietD(1) [OF assms(2)] quietD(2) [OF assms(2)]
    by (auto simp: srv_ok_def quiet_conn_def agents_ok_def)
  show "conn_ok (sessions s' sid)" for sid
    using assms(1) quietD(2) [OF assms(2), of sid] conn_ok_quiet by (auto simp: srv_ok_def)
qed

lemma srv_ok_steps: "srv_ok s \<Longrightarrow> store_step\<^sup>*\<^sup>* (srv_db s) d \<Longrightarrow> db_inv d"
  using store.inv_steps by (auto simp: srv_ok_def)

lemma srv_ok_readTurn:
  assumes "srv_ok s"
  shows "srv_ok (snd (readTurn env sid f s))"
proof (rule srv_okI)
  have q: "quiet_conn (sessions s i) (sessions (snd (readTurn env sid f s)) i)" for i by (rule readTurn_conns(3))
  show "agents_ok (srv_agents (snd (readTurn env sid f s))) (sessions (snd (readTurn env sid f s)))"
    by (rule agents_ok_mono [of "srv_agents s" "sessions s"])
      (use assms q readTurn_conns(1,2) in \<open>auto simp: srv_ok_def agents_ok_def quiet_conn_def\<close>)
  show "conn_ok (sessions (snd (readTurn env sid f s)) i)" for i
    using conn_ok_quiet [OF _ q] assms by (simp add: srv_ok_def)
  show "db_inv (srv_db (snd (readTurn env sid f s)))" by (rule srv_ok_steps [OF assms readTurn_steps])
qed

lemma set_alist_update: "set (AList.update k v al) \<subseteq> insert (k, v) (set al)"
  by (induction al) auto

lemma srv_ok_register:
  assumes "srv_ok s" "ac_id (sessions s sid) = i" "i \<noteq> ''''" "sid \<notin> snd ` set (srv_agents s)" "register sid i s = (r, s')"
  shows "srv_ok s'" "sessions s' sid = sessions s sid" "srv_db s' = srv_db s"
proof -
  have ss: "ac_id (sessions s' k) = ac_id (sessions s k)" "quiet_conn (sessions s k) (sessions s' k)" for k
    using assms(5) by (auto simp: register_def onConn_def quiet_conn_def acks_def split: option.splits if_splits)
  have ag: "srv_agents s' = AList.update i sid (srv_agents s)" and db: "srv_db s' = srv_db s"
    using assms(5) by (auto simp: register_def onConn_def split: option.splits)
  have "agents_ok (srv_agents s') (sessions s')"
    using assms(1-3) ss(1) ag set_alist_update [of i sid "srv_agents s"] by (auto simp: srv_ok_def agents_ok_def distinct_update)
  then show "srv_ok s'" using assms(1) ss(2) db conn_ok_quiet by (auto simp: srv_ok_def)
  have "old \<noteq> sid" if "map_of (srv_agents s) i = Some old" for old
    using map_of_SomeD [OF that] assms(4) by force
  then show "sessions s' sid = sessions s sid"
    using assms(5) by (auto simp: register_def onConn_def split: option.splits)
  show "srv_db s' = srv_db s" by (rule db)
qed

lemma srv_ok_handshake:
  assumes "srv_ok s" "ac_id (sessions s sid) = ''''"
  shows "srv_ok (snd (handshake env sid first s))"
proof -
  have close: "srv_ok (snd (closeConn sid s1))" if "srv_ok s1" for s1
    by (rule srv_ok_quiet [OF that])
      (use that in \<open>auto simp: closeConn_def setConn_def putE_def onConn_def quiet_def conns_def quiet_conn_def acks_def srv_ok_def\<close>)
  have wrote: "srv_ok s2" if "srv_ok s1" "writeSync env sid (FRAME_HELLO_ACK ack) s1 = (r, s2)" "out_frames (sessions s1 sid) = []" for s1 s2 r ack
    by (rule srv_ok_quiet [OF that(1)])
      (use that in \<open>auto simp: writeSync_def onConn_def quiet_def conns_def quiet_conn_def acks_def acks_of_def srv_ok_def split: if_splits\<close>)
  have out: "sid \<notin> snd ` set (srv_agents s)" using assms by (force simp: srv_ok_def agents_ok_def)
  show ?thesis
  proof (cases "\<exists>payload hello. first = Inr (ft_HELLO, payload) \<and> in_Hello (ae_in env) payload = Some hello \<and> he_AgentId hello \<noteq> ''''")
    case False
    then have "snd (handshake env sid first s) = snd (closeConn sid s)"
      by (auto simp: handshake_def closeConn_def setConn_def eff_defs split: sum.splits option.splits if_splits)
    then show ?thesis using close [OF assms(1)] by simp
  next
    case True
    then obtain payload hello where h: "first = Inr (ft_HELLO, payload)" "in_Hello (ae_in env) payload = Some hello" "he_AgentId hello \<noteq> ''''"
      by blast
    let ?i = "he_AgentId hello" and ?ack = "helloAck (srv_cfg s) hello"
    let ?s1 = "onConn sid (\<lambda>_. newConn ?i (he_Hostname hello) (he_ProtoMinor hello)) s"
    have s1: "srv_ok ?s1" "out_frames (sessions ?s1 sid) = []" "ac_id (sessions ?s1 sid) = ?i" "sid \<notin> snd ` set (srv_agents ?s1)"
      using assms(1) out conn_ok_new by (auto simp: srv_ok_def agents_ok_def onConn_def) (force simp: newConn_def)+
    show ?thesis
    proof (cases "ha_Accepted ?ack")
      case False
      obtain r s2 where w: "writeSync env sid (FRAME_HELLO_ACK ?ack) ?s1 = (r, s2)" by force
      have "\<exists>b. r = Inr b" using w by (auto simp: writeSync_def split: if_splits)
      then have "snd (handshake env sid first s) = snd (closeConn sid s2)"
        using h False w by (auto simp: handshake_def setConn_def closeConn_def eff_defs onConn_def)
      then show ?thesis using close [OF wrote [OF s1(1) w s1(2)]] by simp
    next
      case True
      obtain r2 s2 where g: "register sid ?i ?s1 = (r2, s2)" by force
      note reg = srv_ok_register [OF s1(1,3) h(3) s1(4) g]
      let ?s3 = "s2\<lparr>srv_db := UpsertAgent ?i (he_Hostname hello) (he_AgentVersion hello) (unat (he_ProtoMinor hello)) (ae_now env) (srv_db s2)\<rparr>"
      have s3: "srv_ok ?s3"
        by (rule srv_ok_quiet [OF reg(1)])
          (use srv_ok_steps [OF reg(1)] in \<open>auto simp: quiet_def conns_def intro: upsert_agent\<close>)
      obtain r4 s4 where w: "writeSync env sid (FRAME_HELLO_ACK ?ack) ?s3 = (r4, s4)" by force
      have s4: "srv_ok s4" by (rule wrote [OF s3 w]) (use reg(2) s1(2) in simp)
      have b: "r2 = Inr ()" "r4 = Inr True \<or> r4 = Inr False" using g w by (auto simp: register_def writeSync_def split: if_splits)
      have "snd (handshake env sid first s) = snd (closeConn sid s4) \<or>
          snd (handshake env sid first s) = onConn sid (\<lambda>ac. ac\<lparr>writer_on := True\<rparr>) s4"
        using h True g w b by (auto simp: handshake_def setConn_def closeConn_def setStore_def eff_defs onConn_def)
      moreover have "srv_ok (onConn sid (\<lambda>ac. ac\<lparr>writer_on := True\<rparr>) s4)"
        by (rule srv_ok_quiet [OF s4])
          (use s4 in \<open>auto simp: onConn_def quiet_def conns_def quiet_conn_def acks_def srv_ok_def\<close>)
      ultimately show ?thesis using close [OF s4] by auto
    qed
  qed
qed

lemma srv_ok_writeTurn:
  assumes "srv_ok s"
  shows "srv_ok (writeTurn env sid s)"
proof -
  have c: "conn_ok (sessions s k)" for k using assms by (simp add: srv_ok_def)
  have one: "srv_ok (onConn sid f s)" if "conn_ok (f (sessions s sid))" "ac_id (f (sessions s sid)) = ac_id (sessions s sid)" for f
    using assms that by (auto simp: srv_ok_def agents_ok_def onConn_def)
  let ?ac = "sessions s sid"
  have fin: "srv_ok (onConn sid (\<lambda>ac. ac\<lparr>writer_done := True\<rparr>) s)"
    by (rule one) (use c [of sid] in \<open>simp_all add: conn_ok_def acks_def\<close>)
  have moved: "srv_ok (onConn sid (\<lambda>ac. ac\<lparr>out_frames := fs, on_wire := on_wire ac @ [f]\<rparr>) s)"
    "srv_ok (onConn sid (\<lambda>ac. ac\<lparr>out_frames := fs, conn_open := False, writer_done := True\<rparr>) s)" if "out_frames ?ac = f # fs" for f fs
  proof -
    have a: "acks ?ac = acks_of (on_wire ?ac) @ acks_of [f] @ acks_of fs" using that by (simp add: acks_def acks_of_def)
    show "srv_ok (onConn sid (\<lambda>ac. ac\<lparr>out_frames := fs, on_wire := on_wire ac @ [f]\<rparr>) s)"
      by (rule one, rule conn_ok_quiet [OF c [of sid]]) (simp_all add: quiet_conn_def acks_def acks_of_def that)
    show "srv_ok (onConn sid (\<lambda>ac. ac\<lparr>out_frames := fs, conn_open := False, writer_done := True\<rparr>) s)"
      by (rule one) (use c [of sid] a in \<open>auto simp: conn_ok_def acks_def sorted_wrt_append\<close>)
  qed
  show ?thesis using assms fin moved by (auto simp: writeTurn_def Let_def split: list.splits)
qed

lemma ackOne_effect:
  assumes "ackOne env (sid, seq) s = (r, s')" "srv_ok s" "jrnAcked (sessions s sid) < seq" "seq \<le> jrnPending (sessions s sid)"
  shows "r = Inr ()" "srv_ok s'" "\<And>k. k \<noteq> sid \<Longrightarrow> sessions s' k = sessions s k" "srv_agents s' = srv_agents s" "srv_jw s' = srv_jw s"
proof -
  let ?ac = "(sessions s sid)\<lparr>jrnAcked := seq\<rparr>"
  have c: "conn_ok (sessions s sid)" using assms(2) by (simp add: srv_ok_def)
  have m: "max (jrnAcked (sessions s sid)) seq = seq" using assms(3) by simp
  have s': "s' = onConn sid (\<lambda>_. ?ac) s \<or>
      s' = onConn sid (\<lambda>_. ?ac\<lparr>out_frames := out_frames ?ac @ [FRAME_JOURNAL_ACK \<lparr>AckedSeq = seq\<rparr>]\<rparr>) s" and r: "r = Inr ()"
    using assms(1) m by (auto simp: ackOne_def setConn_def send_def onConn_def eff_defs split: if_splits)
  show "r = Inr ()" by (rule r)
  have "\<forall>a \<in> set (acks (sessions s sid)). a < seq" using c assms(3) by (auto simp: conn_ok_def)
  then have "conn_ok ?ac" "conn_ok (?ac\<lparr>out_frames := out_frames ?ac @ [FRAME_JOURNAL_ACK \<lparr>AckedSeq = seq\<rparr>]\<rparr>)"
    using c assms(4) by (auto simp: conn_ok_def acks_def acks_of_def sorted_wrt_append less_imp_le)
  then show "srv_ok s'" using s' assms(2) by (auto simp: srv_ok_def agents_ok_def onConn_def)
  show "\<And>k. k \<noteq> sid \<Longrightarrow> sessions s' k = sessions s k" "srv_agents s' = srv_agents s" "srv_jw s' = srv_jw s"
    using s' by (auto simp: onConn_def)
qed

lemma acks_effect:
  "srv_ok s \<Longrightarrow> distinct (map fst ts) \<Longrightarrow>
   (\<forall>(sid, seq) \<in> set ts. jrnAcked (sessions s sid) < seq \<and> seq \<le> jrnPending (sessions s sid)) \<Longrightarrow>
   srv_ok (snd (eachE (ackOne env) ts s)) \<and> srv_jw (snd (eachE (ackOne env) ts s)) = srv_jw s"
proof (induction ts arbitrary: s)
  case (Cons t ts)
  obtain sid seq where t: "t = (sid, seq)" by force
  obtain r s1 where o: "ackOne env (sid, seq) s = (r, s1)" by force
  note E = ackOne_effect [OF o Cons.prems(1)]
  have p: "jrnAcked (sessions s sid) < seq" "seq \<le> jrnPending (sessions s sid)" using Cons.prems(3) t by auto
  have "\<forall>(k, q) \<in> set ts. jrnAcked (sessions s1 k) < q \<and> q \<le> jrnPending (sessions s1 k)"
  proof (safe)
    fix k q
    assume kq: "(k, q) \<in> set ts"
    then have "k \<noteq> sid" using Cons.prems(2) t by force
    then have e: "sessions s1 k = sessions s k" by (rule E(3) [OF p])
    show "jrnAcked (sessions s1 k) < q" "q \<le> jrnPending (sessions s1 k)" using Cons.prems(3) kq unfolding e by auto
  qed
  then show ?case using Cons.IH [OF E(2) [OF p]] Cons.prems(2) t o E(1,5) [OF p] by (simp add: thenE_def bindE_def)
qed (simp add: returnE_def)

lemma ackTargets_ok:
  assumes "srv_ok s"
  shows "distinct (map fst (ackTargets s))"
    "\<forall>(sid, seq) \<in> set (ackTargets s). jrnAcked (sessions s sid) < seq \<and> seq \<le> jrnPending (sessions s sid)"
proof -
  have "distinct (map snd (srv_agents s))" using assms agents_ok_sids by (auto simp: srv_ok_def)
  then have "distinct (map snd (filter P (srv_agents s)))" for P by (rule distinct_map_filter)
  then show "distinct (map fst (ackTargets s))" by (simp add: ackTargets_def comp_def case_prod_unfold)
qed (auto simp: ackTargets_def)

lemma flushAndAck_cases:
  assumes "srv_ok s"
  obtains (quiet) "sessions (snd (flushAndAck env s)) = sessions s" "srv_agents (snd (flushAndAck env s)) = srv_agents s"
      "srv_db (snd (flushAndAck env s)) = srv_db s"
  | (acked) w where "Flush (ae_sync env) (srv_jw s) = (True, w)" "srv_jw (snd (flushAndAck env s)) = w"
      "srv_ok (snd (flushAndAck env s))"
proof -
  obtain ok w where f: "Flush (ae_sync env) (srv_jw s) = (ok, w)" by force
  let ?s1 = "s\<lparr>srv_jw := w\<rparr>"
  have s1: "srv_ok ?s1" using assms by (simp add: srv_ok_def)
  have e: "snd (flushAndAck env s) = (if ackTargets s = [] then s else if \<not> ok then ?s1 else snd (eachE (ackOne env) (ackTargets s) ?s1))"
    using f by (simp add: flushAndAck_def eff_defs)
  show thesis
  proof (cases "ackTargets s = [] \<or> \<not> ok")
    case True
    then show thesis using e quiet by (auto split: if_splits)
  next
    case False
    have "srv_ok (snd (eachE (ackOne env) (ackTargets s) ?s1)) \<and> srv_jw (snd (eachE (ackOne env) (ackTargets s) ?s1)) = srv_jw ?s1"
      by (rule acks_effect [OF s1]) (use ackTargets_ok [OF assms] in simp_all)
    then show thesis using False e f acked [of w] by simp
  qed
qed

lemma srv_ok_others: "srv_ok (s\<lparr>srv_sched := sc\<rparr>) = srv_ok s" "srv_ok (s\<lparr>srv_jw := w\<rparr>) = srv_ok s"
  by (simp_all add: srv_ok_def)

lemma srv_ok_step:
  assumes "srv_ok s" "srv_step s s'"
  shows "srv_ok s'"
  using assms(2,1)
proof cases
  case (journal_flush env)
  from assms(1) show ?thesis
  proof (cases rule: flushAndAck_cases [where env = env])
    case quiet
    then show ?thesis using assms(1) journal_flush by (simp add: srv_ok_def)
  qed (use journal_flush in simp)
next
  case heartbeat_flush
  have "store_step\<^sup>*\<^sup>* (srv_db s) (srv_db s')" using hdb_sessions(3) heartbeat_flush by (simp add: runs_def)
  then show ?thesis using srv_ok_steps [OF assms(1)] srv_ok_quiet [OF assms(1)] heartbeat_flush
    by (simp add: flushHeartbeats_def putE_def Let_def quiet_def conns_def)
next
  case (drain env i b)
  have "srv_ok (snd (SetDrain env i b s))"
  proof (cases "map_of (srv_agents s) i")
    case (Some sid)
    let ?s1 = "onConn sid (\<lambda>ac. ac\<lparr>ac_drain := b\<rparr>) s"
    have s1: "srv_ok ?s1" using assms(1) by (auto simp: srv_ok_def agents_ok_def onConn_def conn_ok_def acks_def)
    let ?f = "FRAME_CONTROL \<lparr>cn_Command = CMD_DRAIN, cn_JobId = 0\<rparr>"
    obtain r s2 where sd: "send env sid ?f ?s1 = (r, s2)" by force
    have "quiet (conns ?s1) (conns s2)" using runsD [OF hq.reply_runs(4) sd] quiet_rtranclp by blast
    moreover have "srv_db s2 = srv_db ?s1" using sd by (auto simp: send_def onConn_def split: if_splits)
    ultimately have "srv_ok s2" using srv_ok_quiet [OF s1] s1 by (auto simp: srv_ok_def)
    then show ?thesis using Some s1 sd by (cases b) (simp_all add: SetDrain_def setConn_def eff_defs)
  qed (use assms(1) in \<open>simp add: SetDrain_def eff_defs\<close>)
  then show ?thesis using drain by simp
next
  case (job_done env j)
  have "quiet (conns s) (conns s')" using hq.controls_run [of env j] quiet_rtranclp job_done by (simp add: runs_def)
  moreover have "store_step\<^sup>*\<^sup>* (srv_db s) (srv_db s')" using hdb.controls_run [of env j] job_done by (simp add: runs_def)
  ultimately show ?thesis using srv_ok_quiet [OF assms(1)] srv_ok_steps [OF assms(1)] by blast
next
  case (store d)
  then show ?thesis using assms(1) srv_ok_steps [OF assms(1), of d] by (auto simp: srv_ok_def)
qed (auto simp: srv_ok_handshake srv_ok_readTurn srv_ok_writeTurn srv_ok_others)

interpretation srv: invariant_system srv_step "\<lambda>s. \<exists>cfg d sc w. s = NewServer cfg d sc w \<and> db_inv d" srv_ok
proof
  show "srv_ok s" if "\<exists>cfg d sc w. s = NewServer cfg d sc w \<and> db_inv d" for s
    using that by (auto simp: NewServer_def srv_ok_def agents_ok_def conn_ok_def newConn_def acks_def acks_of_def)
qed (rule srv_ok_step)

lemma Flush_data: "map (\<lambda>(n, x). (n, f_data x)) (w_files (snd (Flush ok w))) = map (\<lambda>(n, x). (n, f_data x)) (w_files w)"
proof -
  have u: "map_of fs k = Some x \<Longrightarrow> map (\<lambda>(n, x). (n, f_data x)) (AList.update k (x\<lparr>f_synced := m\<rparr>) fs) = map (\<lambda>(n, x). (n, f_data x)) fs" for fs k x m
    by (induction fs) auto
  have "map (\<lambda>(n, x). (n, f_data x)) (fold sync_file ks fs) = map (\<lambda>(n, x). (n, f_data x)) fs" for ks fs
  proof (induction ks arbitrary: fs)
    case (Cons k ks)
    then show ?case using u by (auto simp: sync_file_def split: option.splits)
  qed simp
  then show ?thesis by (simp add: Flush_def Let_def)
qed

section \<open>Properties of sessions\<close>

text \<open>
  (C12) In every state the server can reach, whatever agents connect, send, replay or drop: an agent id is
  registered with at most one session and that session is the agent's own; the journal acknowledgements
  of a session, sent or queued, strictly increase and never pass the highest batch of that session that
  was appended; and the store is within its invariant.
\<close>

theorem reachable_server_sound:
  assumes "srv_step\<^sup>*\<^sup>* (NewServer cfg d sc w) s" "db_inv d"
  shows "distinct (map fst (srv_agents s)) \<and> (\<forall>(i, sid) \<in> set (srv_agents s). ac_id (sessions s sid) = i) \<and>
    sorted_wrt (<) (acks (sessions s sid')) \<and> (\<forall>a \<in> set (acks (sessions s sid')). a \<le> jrnPending (sessions s sid')) \<and>
    db_inv (srv_db s)"
proof -
  have "srv_ok s" using srv.inv_reachable [OF _ assms(1)] assms(2) by blast
  then have "agents_ok (srv_agents s) (sessions s)" "conn_ok (sessions s sid')" "db_inv (srv_db s)" by (simp_all add: srv_ok_def)
  then show ?thesis by (auto simp: agents_ok_def conn_ok_def intro: order_trans)
qed


subsection \<open>Drain\<close>

text \<open>Any number of frames of any sessions, each handled with its own environment.\<close>

definition frames_run :: "(as_env \<times> nat \<times> (wire_error + FrameType \<times> bytes)) list \<Rightarrow> Server \<Rightarrow> Server" where
  "frames_run fs s = fold (\<lambda>(env, sid, f) s. snd (readTurn env sid f s)) fs s"

lemma frames_run_conn: "quiet_conn (sessions s k) (sessions (frames_run fs s) k)"
proof (induction fs arbitrary: s)
  case (Cons x fs)
  obtain env sid f where x: "x = (env, sid, f)" by (metis prod.exhaust)
  then show ?case
    using quiet_conn_trans [OF readTurn_conns(3) Cons.IH] by (simp add: frames_run_def)
qed (simp add: frames_run_def)

text \<open>
  A drained agent gets no work: once the operator has drained a connected agent, no frame of any
  agent changes that, and every later work request of its session is answered with an empty grant and
  leases nothing; its heartbeats are told to drain.
\<close>

theorem drained_agent_gets_no_work:
  fixes env :: as_env and fs :: "(as_env \<times> nat \<times> (wire_error + FrameType \<times> bytes)) list"
  assumes "map_of (srv_agents s) i = Some sid"
  defines "s1 \<equiv> frames_run fs (snd (SetDrain env i True s))"
  shows "onWorkRequest env' sid req s1 = send env' sid (FRAME_WORK_GRANT \<lparr>wg_Items = [], wg_Options = []\<rparr>) s1 \<and>
    srv_db (snd (onWorkRequest env' sid req s1)) = srv_db s1 \<and>
    (writer_done (sessions s1 sid) \<or> (\<exists>p. out_frames (sessions (snd (onHeartbeat env' sid hb s1)) sid) =
       out_frames (sessions s1 sid) @ [FRAME_HEARTBEAT_ACK \<lparr>hk_Seq = hb_Seq hb, hk_Pause = p, hk_Drain = True\<rparr>]))"
proof -
  have "ac_drain (sessions (snd (SetDrain env i True s)) sid)"
    using assms(1) by (simp add: SetDrain_def setConn_def send_def onConn_def eff_defs)
  then have d: "ac_drain (sessions s1 sid)"
    using frames_run_conn [of "snd (SetDrain env i True s)" sid fs] by (simp add: s1_def quiet_conn_def)
  then have w: "onWorkRequest env' sid req s1 = send env' sid (FRAME_WORK_GRANT \<lparr>wg_Items = [], wg_Options = []\<rparr>) s1"
    by (simp add: onWorkRequest_def bindE_def getE_def)
  moreover have "srv_db (snd (send env' sid f s1)) = srv_db s1" for f by (simp add: send_def onConn_def)
  moreover have "out_frames (sessions (snd (onHeartbeat env' sid hb s1)) sid) = out_frames (sessions s1 sid) @
      [FRAME_HEARTBEAT_ACK \<lparr>hk_Seq = hb_Seq hb, hk_Pause = ac_pause (sessions s1 sid), hk_Drain = True\<rparr>]"
    if "\<not> writer_done (sessions s1 sid)"
    using that d by (simp add: onHeartbeat_def renewLeases_def setConn_def send_def onConn_def eff_defs)
  ultimately show ?thesis by auto
qed

subsection \<open>Results\<close>

lemma exec_mismatch:
  "t (srv_db s) = Inl ErrLeaseMismatch \<Longrightarrow> execStore t s = (Inl (SStore ErrLeaseMismatch), s)"
  "u (srv_db s) = Inl ErrLeaseMismatch \<Longrightarrow> txStore u s = (Inl (SStore ErrLeaseMismatch), s)"
  by (simp_all add: execStore_def txStore_def)

lemma no_lease:
  assumes "count_where (holds_lease i l) (t_shards d) = 0"
  shows "CompleteShard i l p res c now d = Inl ErrLeaseMismatch" "RequeueShard i l err now d = Inl ErrLeaseMismatch"
    "ReleaseShard i l now d = Inl ErrLeaseMismatch" "ParkShard i l err now d = Inl ErrLeaseMismatch"
    "CompleteDataChunk i l p rel fs c now d = Inl ErrLeaseMismatch" "CompleteFinalizeChunk i l p rel c now d = Inl ErrLeaseMismatch"
    "AbortChunkGroup i l p rel now d = Inl ErrLeaseMismatch"
    "CompleteDeleteRemainder i l p rel res seed cl build deferred c now d = Inl ErrLeaseMismatch"
  using assms
  by (simp_all add: CompleteShard_def RequeueShard_def ReleaseShard_def ParkShard_def shardTransition_def CompleteDataChunk_def
      CompleteFinalizeChunk_def AbortChunkGroup_def finish_chunk_shard_def CompleteDeleteRemainder_def)

text \<open>
  A stale result is dropped: when no row holds the lease a result names (it expired, or the result is
  delivered twice), the result changes nothing in the server, whatever its status, and the session goes
  on. The shard must still have its row; a result for a row that is gone ends the session with an error
  when it reports success or a changed source.
\<close>

theorem stale_result_dropped:
  assumes "count_where (holds_lease (sint (rs_ShardId r)) (sint (rs_LeaseId r))) (t_shards (srv_db s)) = 0"
    and "ShardMeta (sint (rs_ShardId r)) (srv_db s) = Inr (p, kind, payload, rel)"
    and "kind = KindChunk \<longrightarrow> unmarshal (pc_Chunk (ae_pc env)) payload \<noteq> None"
  shows "onShardResult env r s = (Inr (), s)"
proof -
  note X = exec_mismatch [where s = s] no_lease [OF assms(1)]
  have q: "requeue env r s = (Inl (SStore ErrLeaseMismatch), s)" by (simp add: requeue_def X)
  have m: "readStore (ShardMeta (sint (rs_ShardId r))) s = (Inr (p, kind, payload, rel), s)"
    using assms(2) by (simp add: readStore_def)
  have "completeOK env r s = (Inl (SStore ErrLeaseMismatch), s)"
    using m assms(3) by (auto simp: completeOK_def Let_def bindE_def thenE_def completeChunk_def X)
  moreover have "srcChanged env r s = (Inl (SStore ErrLeaseMismatch), s)"
    using m assms(3) q by (auto simp: srcChanged_def Let_def bindE_def X)
  ultimately have "resultStep env r s = (Inl (SStore ErrLeaseMismatch), s)"
    using q by (auto simp: resultStep_def X split: ResultStatus.splits)
  then show ?thesis by (simp add: onShardResult_def dropMismatch_def)
qed

theorem reaped_result_ends_session:
  assumes "in_ShardResult (ae_in env) payload = Some r" "rs_Status r \<in> {RESULT_OK, RESULT_SRC_CHANGED}"
    and "sint (rs_ShardId r) \<notin> shard_id ` set (t_shards (srv_db s))"
  shows "\<not> fst (readTurn env sid (Inr (ft_SHARD_RESULT, payload)) s)"
proof -
  have "List.find (\<lambda>x. shard_id x = sint (rs_ShardId r)) (t_shards (srv_db s)) = None"
    using assms(3) by (force simp: find_None_iff)
  then have "readStore (ShardMeta (sint (rs_ShardId r))) s = (Inl (SStore ErrNoRows), s)"
    by (simp add: readStore_def ShardMeta_def)
  then have "onShardResult env r s = (Inl (SStore ErrNoRows), s)"
    using assms(2) by (auto simp: onShardResult_def dropMismatch_def resultStep_def completeOK_def srcChanged_def Let_def bindE_def)
  then show ?thesis using assms(1)
    by (simp add: readTurn_def dispatch_def decoded_def ft_HEARTBEAT_def ft_WORK_REQUEST_def ft_SHARD_SPLIT_def ft_SHARD_RESULT_def)
qed

subsection \<open>The handshake\<close>

text \<open>
  The handshake: a session is entered exactly when the first frame is a well-formed hello of a named
  agent with the coordinator's major version, a minor version not below the operator's floor, and the
  acknowledgement reaches the socket. Then the session is the agent's, an older one is closed, and the
  agent is connected in the store; a version mismatch changes no registration and no row.
\<close>

theorem handshake_version:
  fixes env :: as_env and s :: Server and sid :: nat
  assumes "in_Hello (ae_in env) payload = Some hello" "he_AgentId hello \<noteq> ''''" "sid \<notin> snd ` set (srv_agents s)"
  defines "ok \<equiv> he_ProtoMajor hello = 1 \<and> MinAgentMinor (srv_cfg s) \<le> he_ProtoMinor hello"
    and "s' \<equiv> snd (handshake env sid (Inr (ft_HELLO, payload)) s)"
  shows "fst (handshake env sid (Inr (ft_HELLO, payload)) s) = Inr (ok \<and> ae_wrote env) \<and>
    (ok \<longrightarrow> map_of (srv_agents s') (he_AgentId hello) = Some sid \<and> ac_id (sessions s' sid) = he_AgentId hello \<and>
       (\<forall>old. map_of (srv_agents s) (he_AgentId hello) = Some old \<longrightarrow> \<not> conn_open (sessions s' old)) \<and>
       (\<exists>a \<in> set (t_agents (srv_db s')). agent_id a = he_AgentId hello \<and> agent_state a = ''connected'')) \<and>
    (\<not> ok \<longrightarrow> srv_agents s' = srv_agents s \<and> srv_db s' = srv_db s \<and> \<not> conn_open (sessions s' sid) \<and>
       (ae_wrote env \<longrightarrow> (\<exists>ack. on_wire (sessions s' sid) = [FRAME_HELLO_ACK ack] \<and> \<not> ha_Accepted ack)))"
proof -
  have a: "ha_Accepted (helloAck (srv_cfg s) hello) \<longleftrightarrow> ok"
    by (auto simp: helloAck_def Let_def ok_def ProtoMajor_def)
  have up: "\<exists>a \<in> set (t_agents (UpsertAgent i h v m t d)). agent_id a = i \<and> agent_state a = ''connected''" for i h v m t d
  proof (cases "i \<in> agent_id ` set (t_agents d)")
    case True
    then obtain x where x: "x \<in> set (t_agents d)" "agent_id x = i" by blast
    let ?a = "x\<lparr>agent_hostname := h, agent_version := v, agent_proto_minor := m, agent_state := ''connected'', agent_last_heartbeat := t\<rparr>"
    have "?a \<in> set (t_agents (UpsertAgent i h v m t d))" using True x by (auto simp: UpsertAgent_def update_where_def image_iff)
    then show ?thesis using x(2) by (intro bexI [of _ ?a]) simp_all
  qed (simp add: UpsertAgent_def)
  have new: "old \<noteq> sid" if "map_of (srv_agents s) (he_AgentId hello) = Some old" for old
    using map_of_SomeD [OF that] assms(3) by force
  show ?thesis
  proof (cases ok)
    case True
    then show ?thesis using a assms(1,2) up new
      by (auto simp: s'_def handshake_def register_def writeSync_def setConn_def closeConn_def setStore_def eff_defs onConn_def
          newConn_def update_conv' split: option.splits)
  next
    case False
    then show ?thesis using a assms(1,2)
      by (auto simp: s'_def handshake_def writeSync_def setConn_def closeConn_def eff_defs onConn_def newConn_def)
  qed
qed

section \<open>Instances\<close>

definition sample_hello :: Hello where
  "sample_hello = \<lparr>he_AgentId = ''a'', he_Hostname = ''h'', he_ProtoMajor = 1, he_ProtoMinor = 3, he_AgentVersion = ''v''\<rparr>"

definition sample_result :: ShardResult where
  "sample_result = \<lparr>rs_ShardId = 1, rs_LeaseId = 99, rs_Status = RESULT_OK, rs_Counters = None, rs_Error = '''', rs_DeferredRmdirs = []\<rparr>"

definition sample_in :: inbound where
  "sample_in = \<lparr>in_Hello = (\<lambda>b. if b = [1] then Some sample_hello else None), in_Heartbeat = (\<lambda>_. None), in_WorkRequest = (\<lambda>_. None),
     in_ShardSplit = (\<lambda>_. None), in_ShardResult = (\<lambda>_. Some sample_result), in_TaskResults = (\<lambda>_. None),
     in_JournalBatch = (\<lambda>_. Some sample_batch), in_StatsReport = (\<lambda>_. True),
     in_ProtocolError = (\<lambda>_. \<lparr>er_Code = 0, er_Message = ''''\<rparr>)\<rparr>"

definition sample_ae :: as_env where
  "sample_ae = \<lparr>ae_sched = sample_env, ae_pc = sample_pc, ae_in = sample_in, ae_result = (\<lambda>_. None), ae_batch = sample_codec,
     ae_leaseID = int, ae_agentsOK = True, ae_countsOK = True, ae_now = 100, ae_os = os_ok, ae_sync = (\<lambda>_. True),
     ae_pick = False, ae_wrote = True, ae_text = (\<lambda>_. ''e'')\<rparr>"

definition sample_cfg :: Config where
  "sample_cfg = \<lparr>HeartbeatInterval = 5000, cfg_LeaseTTL = 60000, FleetEpoch = 1, MinAgentMinor = 1\<rparr>"

definition sample_server :: Server where
  "sample_server = NewServer sample_cfg sample_leased (Scheduler.New 60000) (NewWriter ''/j'' [])"

text \<open>The agent connects, sends a journal batch, and the flusher runs.\<close>

definition sample_connected :: Server where
  "sample_connected = snd (handshake sample_ae 0 (Inr (ft_HELLO, [1])) sample_server)"

definition sample_batched :: Server where
  "sample_batched = snd (readTurn sample_ae 0 (Inr (ft_JOURNAL_BATCH, [])) sample_connected)"

definition sample_acked :: Server where
  "sample_acked = snd (flushAndAck sample_ae sample_batched)"

lemma sample_reachable: "srv_step\<^sup>*\<^sup>* sample_server sample_batched" "srv_step\<^sup>*\<^sup>* sample_server sample_acked"
proof -
  have "ac_id (sessions sample_server 0) = ''''" by (simp add: sample_server_def NewServer_def newConn_def)
  then have "srv_step sample_server sample_connected" unfolding sample_connected_def by (rule connect)
  moreover have "srv_step sample_connected sample_batched" unfolding sample_batched_def by (rule frame)
  moreover have "srv_step sample_batched sample_acked" unfolding sample_acked_def by (rule journal_flush)
  ultimately show "srv_step\<^sup>*\<^sup>* sample_server sample_batched" "srv_step\<^sup>*\<^sup>* sample_server sample_acked"
    by (meson converse_rtranclp_into_rtranclp rtranclp.rtrancl_refl)+
qed

theorem reachable_server_sound_witness:
  "acks (sessions sample_acked 0) = [1] \<and> jrnPending (sessions sample_acked 0) = 1 \<and> map fst (srv_agents sample_acked) = [''a''] \<and>
   sorted_wrt (<) (acks (sessions sample_acked 0)) \<and> db_inv (srv_db sample_acked)"
proof -
  have "acks (sessions sample_acked 0) = [1]" "jrnPending (sessions sample_acked 0) = 1" "map fst (srv_agents sample_acked) = [''a'']"
    by code_simp+
  then show ?thesis
    using reachable_server_sound [OF sample_reachable(2) [unfolded sample_server_def] db_inv_samples(3), of 0] by simp
qed

theorem chunks_partition_file_witness:
  "map (\<lambda>ct. (ct_Offset ct, ct_Length ct)) (fileChunks \<lparr>bf_RelPath = ''f'', bf_Size = 10, bf_MtimeNs = 0\<rparr> 4 ''t'') = [(0, 4), (4, 4), (8, 2)] \<and>
   concat (map (\<lambda>ct. [unat (ct_Offset ct) ..< unat (ct_Offset ct) + unat (ct_Length ct)])
     (fileChunks \<lparr>bf_RelPath = ''f'', bf_Size = 10, bf_MtimeNs = 0\<rparr> 4 ''t'')) = [0..<10]"
proof -
  have "map (\<lambda>ct. (ct_Offset ct, ct_Length ct)) (fileChunks \<lparr>bf_RelPath = ''f'', bf_Size = 10, bf_MtimeNs = 0\<rparr> 4 ''t'') = [(0, 4), (4, 4), (8, 2)]"
    by code_simp
  then show ?thesis
    using chunks_partition_file [of 4 "\<lparr>bf_RelPath = ''f'', bf_Size = 10, bf_MtimeNs = 0\<rparr>" "''t''"] by simp
qed

theorem temp_names_unique_witness:
  "tempName ''.drsync.tmp.'' 1 2 255 0 = ''.drsync.tmp.1-2.ff.0'' \<and> tempName ''.drsync.tmp.'' 1 2 255 0 \<noteq> tempName ''.drsync.tmp.'' 1 2 255 1"
proof -
  have "tempName ''.drsync.tmp.'' 1 2 255 0 = ''.drsync.tmp.1-2.ff.0''" by code_simp
  then show ?thesis using temp_names_unique [of 1 1 "''.drsync.tmp.''" 2 255 0 2 255 1] by simp
qed

theorem stale_result_dropped_witness:
  "count_where (holds_lease 1 99) (t_shards (srv_db sample_server)) = 0 \<and>
   onShardResult sample_ae sample_result sample_server = (Inr (), sample_server)"
proof -
  have c: "count_where (holds_lease 1 99) (t_shards (srv_db sample_server)) = 0" by code_simp
  have i: "sint (rs_ShardId sample_result) = 1" "sint (rs_LeaseId sample_result) = 99" by code_simp+
  have "(case ShardMeta 1 (srv_db sample_server) of Inl _ \<Rightarrow> False | Inr (p, k, b, rel) \<Rightarrow> k = KindDir)" by code_simp
  then obtain p b rel where m: "ShardMeta 1 (srv_db sample_server) = Inr (p, KindDir, b, rel)"
    by (auto split: sum.splits prod.splits)
  show ?thesis using c stale_result_dropped [of sample_result sample_server p KindDir b rel sample_ae] m unfolding i by simp
qed

theorem handshake_version_witness:
  "fst (handshake sample_ae 0 (Inr (ft_HELLO, [1])) sample_server) = Inr True \<and>
   map_of (srv_agents sample_connected) ''a'' = Some 0 \<and> ac_id (sessions sample_connected 0) = ''a''"
proof -
  have h: "in_Hello (ae_in sample_ae) [1] = Some sample_hello" "he_AgentId sample_hello \<noteq> ''''" "0 \<notin> snd ` set (srv_agents sample_server)"
    by (simp_all add: sample_ae_def sample_in_def sample_hello_def sample_server_def NewServer_def)
  have "he_ProtoMajor sample_hello = 1 \<and> MinAgentMinor (srv_cfg sample_server) \<le> he_ProtoMinor sample_hello" "ae_wrote sample_ae"
    "he_AgentId sample_hello = ''a''"
    by (simp_all add: sample_hello_def sample_server_def NewServer_def sample_cfg_def sample_ae_def)
  then show ?thesis using handshake_version [OF h] unfolding sample_connected_def by simp
qed

theorem drained_agent_gets_no_work_witness:
  "map_of (srv_agents sample_connected) ''a'' = Some 0 \<and>
   out_frames (sessions (snd (onWorkRequest sample_ae 0 sample_req (frames_run [] (snd (SetDrain sample_ae ''a'' True sample_connected))))) 0) =
     [FRAME_CONTROL \<lparr>cn_Command = CMD_DRAIN, cn_JobId = 0\<rparr>, FRAME_WORK_GRANT \<lparr>wg_Items = [], wg_Options = []\<rparr>] \<and>
   srv_db (snd (onWorkRequest sample_ae 0 sample_req (frames_run [] (snd (SetDrain sample_ae ''a'' True sample_connected))))) =
     srv_db (frames_run [] (snd (SetDrain sample_ae ''a'' True sample_connected)))"
proof -
  have m: "map_of (srv_agents sample_connected) ''a'' = Some 0" by code_simp
  let ?s = "frames_run [] (snd (SetDrain sample_ae ''a'' True sample_connected))"
  have "out_frames (sessions (snd (send sample_ae 0 (FRAME_WORK_GRANT \<lparr>wg_Items = [], wg_Options = []\<rparr>) ?s)) 0) =
     [FRAME_CONTROL \<lparr>cn_Command = CMD_DRAIN, cn_JobId = 0\<rparr>, FRAME_WORK_GRANT \<lparr>wg_Items = [], wg_Options = []\<rparr>]" by code_simp
  moreover note g = drained_agent_gets_no_work [OF m, where fs = "[]" and env = sample_ae and env' = sample_ae and req = sample_req]
  ultimately have "out_frames (sessions (snd (onWorkRequest sample_ae 0 sample_req ?s)) 0) =
     [FRAME_CONTROL \<lparr>cn_Command = CMD_DRAIN, cn_JobId = 0\<rparr>, FRAME_WORK_GRANT \<lparr>wg_Items = [], wg_Options = []\<rparr>]"
    by (simp only: g [THEN conjunct1])
  then show ?thesis using m g [THEN conjunct2, THEN conjunct1] by (intro conjI)
qed


section \<open>Where the code falls short\<close>

text \<open>
  When the acknowledgement of the handshake cannot be written, \<open>handle\<close> returns before it installs its
  clean-up: the dead session stays registered, with no writer to empty its queue, and the agent stays
  connected in the store.
\<close>

theorem failed_hello_stays_registered:
  "let r = handshake (sample_ae\<lparr>ae_wrote := False\<rparr>) 0 (Inr (ft_HELLO, [1])) sample_server
   in fst r = Inr False \<and> map_of (srv_agents (snd r)) ''a'' = Some 0 \<and> \<not> conn_open (sessions (snd r) 0) \<and>
      \<not> writer_on (sessions (snd r) 0) \<and> \<not> writer_done (sessions (snd r) 0) \<and>
      map agent_state (t_agents (srv_db (snd r))) = [''connected'']"
  by code_simp

text \<open>
  The rounding of the chunk count wraps: a file within a chunk of \<open>2\<^sup>6\<^sup>4\<close> bytes is planned as one
  chunk that covers none of it past the chunk size.
\<close>

theorem chunk_count_wraps:
  "map (\<lambda>ct. (ct_Offset ct, ct_Length ct)) (fileChunks \<lparr>bf_RelPath = ''f'', bf_Size = - 1, bf_MtimeNs = 0\<rparr> 1024 ''t'') = [(0, 1024)]"
  by code_simp

text \<open>
  A batch that an agent sends again, because its connection was lost before the acknowledgement, is
  appended again: the sequence number is only compared within one session and the store's journal
  cursor is never consulted.
\<close>

definition sample_replayed :: Server where
  "sample_replayed =
     snd (readTurn sample_ae 1 (Inr (ft_JOURNAL_BATCH, []))
       (snd (handshake sample_ae 1 (Inr (ft_HELLO, [1])) (snd (readTurn sample_ae 0 (Inl EOF) sample_batched)))))"

theorem replayed_batch_appended_twice:
  "map (length \<circ> f_data \<circ> snd) (w_files (srv_jw sample_batched)) = [7] \<and>
   map (length \<circ> f_data \<circ> snd) (w_files (srv_jw sample_replayed)) = [14]"
  by code_simp

text \<open>
  An agent that reconnects while its old connection is still being torn down ends up registered and
  connected but disconnected in the store: the old session's clean-up leaves the registration to the new
  session, but sets the state of the agent unconditionally. No later frame sets it back.
\<close>

definition sample_reconnected :: Server where
  "sample_reconnected = snd (readTurn sample_ae 0 (Inl EOF) (snd (handshake sample_ae 1 (Inr (ft_HELLO, [1])) sample_connected)))"

theorem reconnect_leaves_disconnected:
  "map_of (srv_agents sample_reconnected) ''a'' = Some 1 \<and> conn_open (sessions sample_reconnected 1) \<and>
   map agent_state (t_agents (srv_db sample_reconnected)) = [''disconnected''] \<and> SchedulableAgents (srv_db sample_reconnected) = []"
  by code_simp

end
