(* ===== verification/Coordinator.thy ===== *)
theory Coordinator
  imports Pass_Phases Agent_Sessions
begin

text \<open>
  The daemon (\<open>cmd/drsyncd\<close>) runs one agent server and one pass controller over one store. A step is an
  event of the server, which includes what the API and the sweeper commit to the store, or a call of
  the controller on the same store.
\<close>

record coordinator =
  co_srv :: Server
  co_ctl :: Controller
  co_out :: "message list"

definition toWorld :: "coordinator \<Rightarrow> world" where
  "toWorld c = \<lparr>m_db = srv_db (co_srv c), m_ctl = co_ctl c, m_out = co_out c\<rparr>"

definition fromWorld :: "coordinator \<Rightarrow> world \<Rightarrow> coordinator" where
  "fromWorld c w = \<lparr>co_srv = (co_srv c)\<lparr>srv_db := m_db w\<rparr>, co_ctl = m_ctl w, co_out = m_out w\<rparr>"

definition onWorld :: "(world \<Rightarrow> world) \<Rightarrow> coordinator \<Rightarrow> coordinator" where
  "onWorld f c = fromWorld c (f (toWorld c))"

definition fresh_coordinator :: "Config \<Rightarrow> int \<Rightarrow> string \<Rightarrow> coordinator" where
  "fresh_coordinator cfg ttl dir = \<lparr>co_srv = NewServer cfg empty_db (Scheduler.New ttl) (NewWriter dir []), co_ctl = NewController, co_out = []\<rparr>"

inductive coord_step :: "coordinator \<Rightarrow> coordinator \<Rightarrow> bool" where
  served: "srv_step (co_srv c) s \<Longrightarrow> coord_step c (c\<lparr>co_srv := s\<rparr>)"
| ticked: "coord_step c (onWorld (\<lambda>w. snd (tick env w)) c)"
| started: "coord_step c (onWorld (\<lambda>w. snd (StartJob env name w)) c)"
| resumed: "coord_step c (onWorld (\<lambda>w. snd (ResumeJob env name w)) c)"
| triggered: "coord_step c (onWorld (\<lambda>w. snd (TriggerPass env name del w)) c)"
| reaped: "coord_step c (onWorld (reapWorker rounds) c)"

definition coord_ok :: "coordinator \<Rightarrow> bool" where
  "coord_ok c \<longleftrightarrow> srv_ok (co_srv c) \<and> reap_queue_ok (co_ctl c)"

lemma coord_ok_onWorld:
  assumes "coord_ok c" "\<And>w. store_step\<^sup>*\<^sup>* (m_db w) (m_db (f w))" "\<And>w. reap_queue_ok (m_ctl w) \<Longrightarrow> reap_queue_ok (m_ctl (f w))"
  shows "coord_ok (onWorld f c)"
proof -
  let ?w = "toWorld c"
  have w: "m_db ?w = srv_db (co_srv c)" "m_ctl ?w = co_ctl c" by (simp_all add: toWorld_def)
  have "store_step\<^sup>*\<^sup>* (srv_db (co_srv c)) (m_db (f ?w))" using assms(2) [of ?w] w by simp
  then have "srv_ok ((co_srv c)\<lparr>srv_db := m_db (f ?w)\<rparr>)"
    using assms(1) store.inv_steps by (auto simp: coord_ok_def srv_ok_def)
  moreover have "reap_queue_ok (m_ctl (f ?w))" using assms(1) assms(3) [of ?w] w by (simp add: coord_ok_def)
  ultimately show ?thesis by (simp add: coord_ok_def onWorld_def fromWorld_def)
qed

lemma coord_ok_step:
  assumes "coord_ok c" "coord_step c c'"
  shows "coord_ok c'"
proof -
  have ctl: "reap_queue_ok (m_ctl (snd (m w)))" if "runs m_ctl reapq_step m" "reap_queue_ok (m_ctl w)" for w and m :: "'a ctl"
    using that reap_queue_steps unfolding runs_def by blast
  note db = db.tick_runs db.StartJob_runs db.ResumeJob_runs db.TriggerPass_runs
  note rq = reapq.tick_runs reapq.StartJob_runs reapq.ResumeJob_runs reapq.TriggerPass_runs
  from assms(2,1) show ?thesis
  proof cases
    case (served s)
    then show ?thesis using assms(1) srv_ok_step by (auto simp: coord_ok_def)
  qed (use assms(1) db rq reapWorker_runs reap_queue_worker in
      \<open>auto intro!: coord_ok_onWorld ctl simp: runs_def\<close>)
qed

interpretation coord: invariant_system coord_step "\<lambda>c. \<exists>cfg ttl dir. c = fresh_coordinator cfg ttl dir" coord_ok
proof unfold_locales
  show "coord_ok c" if fresh: "\<exists>cfg ttl dir. c = fresh_coordinator cfg ttl dir" for c
  proof -
    obtain cfg ttl dir where c: "c = fresh_coordinator cfg ttl dir" using fresh by blast
    have "srv_ok (NewServer cfg empty_db (Scheduler.New ttl) (NewWriter dir []))" by (rule srv.inv_init) (use db_inv_empty in blast)
    then show ?thesis by (simp add: c coord_ok_def fresh_coordinator_def reap_queue_ok_def NewController_def)
  qed
qed (rule coord_ok_step)


end
