(* ===== verification/Gotext.thy ===== *)
theory Gotext
  imports Wire Gofmt
begin

text \<open>
  What the HTTP side of the coordinator uses of Go's standard library to take text apart and put it
  together: \<open>strings.SplitN\<close>, \<open>strings.TrimSpace\<close>, \<open>strings.ToUpper\<close>, \<open>strconv.ParseInt\<close>,
  \<open>net.SplitHostPort\<close>, unpadded URL base64 and 64-bit big-endian integers. Strings are byte strings;
  the functions act on their ASCII characters, and leave bytes above 127 alone.

  The locale \<open>dotted_field\<close> is what a value has to be written as to become a field of a
  dot-separated token.
\<close>

section \<open>Splitting\<close>

fun SplitN :: "nat \<Rightarrow> char \<Rightarrow> string \<Rightarrow> string list" where
  "SplitN 0 c s = []"
| "SplitN (Suc 0) c s = [s]"
| "SplitN (Suc (Suc n)) c s =
     (if c \<in> set s then takeWhile (\<lambda>x. x \<noteq> c) s # SplitN (Suc n) c (tl (dropWhile (\<lambda>x. x \<noteq> c) s)) else [s])"

lemma cut_at:
  "c \<notin> set a \<Longrightarrow> takeWhile (\<lambda>x. x \<noteq> c) (a @ c # b) = a \<and> dropWhile (\<lambda>x. x \<noteq> c) (a @ c # b) = c # b"
  by (induction a) auto

lemma SplitN_append [simp]:
  "c \<notin> set a \<Longrightarrow> SplitN (Suc (Suc n)) c (a @ c # b) = a # SplitN (Suc n) c b"
  by (simp add: cut_at)

lemma SplitN_join: "s \<noteq> [] \<Longrightarrow> SplitN (Suc n) c s = x # xs \<Longrightarrow> s = x @ concat (map (\<lambda>y. c # y) xs)"
proof (induction n arbitrary: s x xs)
  case (Suc n)
  show ?case
  proof (cases "c \<in> set s")
    case True
    then have d: "dropWhile (\<lambda>x. x \<noteq> c) s \<noteq> []" by (auto simp: dropWhile_eq_Nil_conv)
    then have h: "dropWhile (\<lambda>x. x \<noteq> c) s = c # tl (dropWhile (\<lambda>x. x \<noteq> c) s)"
      using hd_dropWhile [OF d] by (cases "dropWhile (\<lambda>x. x \<noteq> c) s") auto
    let ?r = "tl (dropWhile (\<lambda>x. x \<noteq> c) s)"
    have s: "s = takeWhile (\<lambda>x. x \<noteq> c) s @ c # ?r" using h takeWhile_dropWhile_id [of "\<lambda>x. x \<noteq> c" s] by simp
    have x: "x = takeWhile (\<lambda>x. x \<noteq> c) s" and xs: "SplitN (Suc n) c ?r = xs" using Suc.prems True by auto
    show ?thesis
    proof (cases "?r = []")
      case True
      then have "xs = [[]]" using xs by (cases n) auto
      then show ?thesis using s x True by simp
    next
      case False
      then obtain y ys where ys: "xs = y # ys" using xs by (cases n) (auto split: if_splits)
      then have "?r = y @ concat (map (\<lambda>y. c # y) ys)" using Suc.IH False xs by blast
      then show ?thesis using s x ys by simp
    qed
  qed (use Suc.prems in simp)
qed simp

lemma SplitN_three:
  assumes "SplitN 3 c s = [x, y, z]"
  shows "s = x @ c # y @ c # z" "c \<notin> set x" "c \<notin> set y"
proof -
  have "s \<noteq> []" using assms by (auto simp: numeral_3_eq_3)
  then show "s = x @ c # y @ c # z" using SplitN_join [of s 2 c x "[y, z]"] assms by (simp add: numeral_3_eq_3)
  show "c \<notin> set x" "c \<notin> set y" using assms by (auto simp: numeral_3_eq_3 split: if_splits dest: set_takeWhileD)
qed

definition upper_char :: "char \<Rightarrow> char" where
  "upper_char c = (let k = of_char c :: nat in if 97 \<le> k \<and> k \<le> 122 then char_of (k - 32) else c)"

definition ToUpper :: "string \<Rightarrow> string" where
  "ToUpper s = map upper_char s"

definition space_chars :: string where
  "space_chars = map char_of [9, 10, 11, 12, 13, 32 :: nat]"

definition TrimSpace :: "string \<Rightarrow> string" where
  "TrimSpace s = rev (dropWhile (\<lambda>c. c \<in> set space_chars) (rev (dropWhile (\<lambda>c. c \<in> set space_chars) s)))"

section \<open>Numbers\<close>

text \<open>\<open>strconv.ParseInt(s, 10, 64)\<close>, and \<open>Atoi\<close> on a 64-bit platform.\<close>

definition parse_nat :: "string \<Rightarrow> nat option" where
  "parse_nat s = (if s \<noteq> [] \<and> list_all (\<lambda>c. let k = of_char c :: nat in 48 \<le> k \<and> k \<le> 57) s then Some (digits_val 10 s) else None)"

definition ParseInt :: "string \<Rightarrow> int option" where
  "ParseInt s =
     (case s of
        [] \<Rightarrow> None
      | c # r \<Rightarrow>
          if c = CHR ''-'' then (case parse_nat r of None \<Rightarrow> None | Some n \<Rightarrow> if n \<le> 2 ^ 63 then Some (- int n) else None)
          else (case parse_nat (if c = CHR ''+'' then r else s) of
                  None \<Rightarrow> None | Some n \<Rightarrow> if n < 2 ^ 63 then Some (int n) else None))"

section \<open>Addresses\<close>

text \<open>\<open>net.SplitHostPort\<close>, the host; \<open>None\<close> is any of its errors.\<close>

definition last_colon :: "string \<Rightarrow> nat option" where
  "last_colon s = (if CHR '':'' \<in> set s then Some (length s - 1 - length (takeWhile (\<lambda>c. c \<noteq> CHR '':'') (rev s))) else None)"

definition SplitHostPort :: "string \<Rightarrow> string option" where
  "SplitHostPort s =
     (case last_colon s of
        None \<Rightarrow> None
      | Some i \<Rightarrow>
          if s ! 0 = CHR ''[''
          then (if CHR '']'' \<notin> set s then None
                else let e = length (takeWhile (\<lambda>c. c \<noteq> CHR '']'') s)
                     in if e + 1 \<noteq> i then None
                        else if CHR ''['' \<in> set (drop 1 s) \<or> CHR '']'' \<in> set (drop (e + 1) s) then None
                        else Some (drop 1 (take e s)))
          else if CHR '':'' \<in> set (take i s) then None
          else if CHR ''['' \<in> set s \<or> CHR '']'' \<in> set s then None
          else Some (take i s))"

lemma SplitHostPort_plain:
  assumes "h \<noteq> []" "set h \<inter> {CHR '':'', CHR ''['', CHR '']''} = {}" "set p \<inter> {CHR '':'', CHR ''['', CHR '']''} = {}"
  shows "SplitHostPort (h @ CHR '':'' # p) = Some h"
proof -
  have "takeWhile (\<lambda>c. c \<noteq> CHR '':'') (rev p @ CHR '':'' # rev h) = rev p"
    using assms(3) by (subst takeWhile_tail) (auto simp: takeWhile_eq_all_conv)
  then have "last_colon (h @ CHR '':'' # p) = Some (length h)" by (simp add: last_colon_def)
  moreover have "(h @ CHR '':'' # p) ! 0 \<noteq> CHR ''[''" using assms(1,2) by (cases h) auto
  ultimately show ?thesis using assms by (auto simp: SplitHostPort_def)
qed

section \<open>Base64 (encoding/base64, RawURLEncoding)\<close>

definition bytes_of :: "string \<Rightarrow> bytes" where
  "bytes_of s = map of_char s"

definition string_of :: "bytes \<Rightarrow> string" where
  "string_of b = map (\<lambda>x. char_of (unat x)) b"

lemma unat_of_char: "unat (of_char c :: byte) = of_char c"
proof -
  have "(of_char c :: byte) = of_nat (of_char c)" by (simp add: of_nat_of_char)
  then show ?thesis using unat_of_nat [of "of_char c", where 'a = 8] by simp
qed

lemma string_of_bytes_of [simp]: "string_of (bytes_of s) = s"
  by (induction s) (simp_all add: string_of_def bytes_of_def unat_of_char)

definition b64_alphabet :: string where
  "b64_alphabet = ''ABCDEFGHIJKLMNOPQRSTUVWXYZabcdefghijklmnopqrstuvwxyz0123456789-_''"

definition b64_sym :: "nat \<Rightarrow> char" where
  "b64_sym n = b64_alphabet ! (n mod 64)"

text \<open>The decoder's table: the position of a symbol, \<open>None\<close> for a character that is not one.\<close>

definition b64_val :: "char \<Rightarrow> nat option" where
  "b64_val c = (let k = length (takeWhile (\<lambda>x. x \<noteq> c) b64_alphabet) in if k < 64 then Some k else None)"

text \<open>The six-bit groups of a byte string, the last one filled with zero bits.\<close>

fun b64_groups :: "bytes \<Rightarrow> nat list" where
  "b64_groups [] = []"
| "b64_groups [a] = (let v = unat a * 16 in [v div 64, v])"
| "b64_groups [a, b] = (let v = (unat a * 256 + unat b) * 4 in [v div 4096, v div 64, v])"
| "b64_groups (a # b # c # r) =
     (let v = (unat a * 256 + unat b) * 256 + unat c in v div 262144 # v div 4096 # v div 64 # v # b64_groups r)"

definition b64_encode :: "bytes \<Rightarrow> string" where
  "b64_encode b = map b64_sym (b64_groups b)"

fun b64_bytes :: "nat list \<Rightarrow> bytes option" where
  "b64_bytes [] = Some []"
| "b64_bytes [p] = None"
| "b64_bytes [p, q] = Some [of_nat ((p * 64 + q) div 16)]"
| "b64_bytes [p, q, r] = (let v = (p * 64 + q) * 64 + r in Some [of_nat (v div 1024), of_nat (v div 4)])"
| "b64_bytes (p # q # r # s # t) =
     (let v = ((p * 64 + q) * 64 + r) * 64 + s
      in map_option (\<lambda>bs. of_nat (v div 65536) # of_nat (v div 256) # of_nat v # bs) (b64_bytes t))"

text \<open>The decoder skips line breaks and does not look at the unused bits of the last symbol.\<close>

definition b64_decode :: "string \<Rightarrow> bytes option" where
  "b64_decode s =
     (let cs = filter (\<lambda>c. c \<noteq> CHR 0x0A \<and> c \<noteq> CHR 0x0D) s
      in if list_all (\<lambda>c. b64_val c \<noteq> None) cs then b64_bytes (map (the \<circ> b64_val) cs) else None)"

lemma b64_val_sym: "b64_val (b64_sym n) = Some (n mod 64)"
proof -
  have all: "\<forall>k \<in> set [0..<64]. b64_val (b64_alphabet ! k) = Some k" by code_simp
  then have "b64_val (b64_alphabet ! (n mod 64)) = Some (n mod 64)" by (rule bspec) simp
  then show ?thesis by (simp add: b64_sym_def)
qed

lemma b64_sym_plain: "b64_sym n \<noteq> CHR 0x0A" "b64_sym n \<noteq> CHR 0x0D" "b64_sym n \<noteq> CHR ''.''"
proof -
  have "length b64_alphabet = 64" by code_simp
  then have "b64_sym n \<in> set b64_alphabet" by (simp add: b64_sym_def)
  moreover have "CHR 0x0A \<notin> set b64_alphabet" "CHR 0x0D \<notin> set b64_alphabet" "CHR ''.'' \<notin> set b64_alphabet" by code_simp+
  ultimately show "b64_sym n \<noteq> CHR 0x0A" "b64_sym n \<noteq> CHR 0x0D" "b64_sym n \<noteq> CHR ''.''" by metis+
qed

lemma b64_encode_no_dot [simp]: "CHR ''.'' \<notin> set (b64_encode b)"
  using b64_sym_plain by (auto simp: b64_encode_def) metis

lemma b64_decode_syms: "b64_decode (map b64_sym ns) = b64_bytes (map (\<lambda>n. n mod 64) ns)"
proof -
  have "filter (\<lambda>c. c \<noteq> CHR 0x0A \<and> c \<noteq> CHR 0x0D) (map b64_sym ns) = map b64_sym ns"
    by (auto simp: filter_id_conv b64_sym_plain)
  then show ?thesis by (simp add: b64_decode_def list_all_iff b64_val_sym comp_def)
qed

lemma unat_byte_less: "unat (b :: byte) < 256"
  using unsigned_less [of b] by simp

lemma of_nat_byte: "n mod 256 = unat b \<Longrightarrow> of_nat n = (b :: byte)"
  using unat_of_nat [of n, where 'a = 8] by (simp add: word_unat_eq_iff)

lemma byte_digits: "y < 256 \<Longrightarrow> (x * 256 + y) div 256 = (x :: nat)" "y < 256 \<Longrightarrow> (x * 256 + y) mod 256 = (y :: nat)"
  by auto

lemma b64_regroup:
  fixes v :: nat
  assumes "v < 16777216"
  shows "((v div 262144 mod 64 * 64 + v div 4096 mod 64) * 64 + v div 64 mod 64) * 64 + v mod 64 = v"
proof -
  have d: "v div 4096 = v div 64 div 64" "v div 262144 = v div 64 div 64 div 64" by (simp_all add: div_mult2_eq [symmetric])
  have "v div 64 div 64 div 64 < 64" using assms by (simp add: div_mult2_eq [symmetric] less_mult_imp_div_less)
  then show ?thesis unfolding d
    using div_mult_mod_eq [of v 64] div_mult_mod_eq [of "v div 64" 64] div_mult_mod_eq [of "v div 64 div 64" 64] by simp
qed

lemma b64_bytes_groups: "b64_bytes (map (\<lambda>n. n mod 64) (b64_groups b)) = Some b"
proof (induction b rule: b64_groups.induct)
  case (2 a)
  let ?v = "unat a * 16"
  have "?v div 64 mod 64 * 64 + ?v mod 64 = ?v" using unat_byte_less [of a] div_mult_mod_eq [of ?v 64] by auto
  then show ?case by (simp only: b64_groups.simps Let_def list.map b64_bytes.simps) (simp add: of_nat_byte unat_byte_less)
next
  case (3 a b)
  let ?v = "(unat a * 256 + unat b) * 4"
  have "?v < 262144" using unat_byte_less [of a] unat_byte_less [of b] by simp
  then have "((?v div 4096 mod 64 * 64 + ?v div 64 mod 64) * 64 + ?v mod 64) = ?v" using b64_regroup [of ?v] by simp
  moreover have "?v div 1024 mod 256 = unat a" "?v div 4 mod 256 = unat b" using unat_byte_less [of a] unat_byte_less [of b] by auto
  then have "of_nat (?v div 1024) = a" "of_nat (?v div 4) = b" by (simp_all only: of_nat_byte)
  ultimately show ?case by (simp only: b64_groups.simps Let_def list.map b64_bytes.simps)
next
  case (4 a b c r)
  let ?v = "(unat a * 256 + unat b) * 256 + unat c"
  have "?v < 16777216" using unat_byte_less [of a] unat_byte_less [of b] unat_byte_less [of c] by simp
  note v = b64_regroup [OF this]
  have "?v div 256 = unat a * 256 + unat b" "?v div 256 div 256 = unat a"
    using unat_byte_less [of b] unat_byte_less [of c] by (simp_all only: byte_digits)
  moreover have "?v div 65536 = ?v div 256 div 256" by (simp add: div_mult2_eq [symmetric])
  ultimately have "?v div 65536 mod 256 = unat a" "?v div 256 mod 256 = unat b" "?v mod 256 = unat c"
    using unat_byte_less [of a] unat_byte_less [of b] unat_byte_less [of c] by (simp_all only: byte_digits mod_less)
  then have "of_nat (?v div 65536) = a" "of_nat (?v div 256) = b" "of_nat ?v = c" by (simp_all only: of_nat_byte)
  then show ?case by (simp only: b64_groups.simps Let_def list.map b64_bytes.simps v 4 option.map)
qed simp

lemma b64_roundtrip [simp]: "b64_decode (b64_encode b) = Some b"
  by (simp add: b64_encode_def b64_decode_syms b64_bytes_groups)

section \<open>Big-endian integers\<close>

definition PutUint64 :: "64 word \<Rightarrow> bytes" where
  "PutUint64 v = [ucast (drop_bit 56 v), ucast (drop_bit 48 v), ucast (drop_bit 40 v), ucast (drop_bit 32 v),
     ucast (drop_bit 24 v), ucast (drop_bit 16 v), ucast (drop_bit 8 v), ucast v]"

fun Uint64 :: "bytes \<Rightarrow> 64 word" where
  "Uint64 (b0 # b1 # b2 # b3 # b4 # b5 # b6 # b7 # _) =
     ucast b7 OR push_bit 8 (ucast b6) OR push_bit 16 (ucast b5) OR push_bit 24 (ucast b4) OR
     push_bit 32 (ucast b3) OR push_bit 40 (ucast b2) OR push_bit 48 (ucast b1) OR push_bit 56 (ucast b0)"
| "Uint64 _ = 0"

lemma length_PutUint64 [simp]: "length (PutUint64 v) = 8"
  by (simp add: PutUint64_def)

lemma Uint64_Put [simp]: "Uint64 (PutUint64 v) = v"
proof -
  have "bit (Uint64 (PutUint64 v)) n = bit v n" if n: "n < 64" for n
  proof -
    consider "n < 8" | "8 \<le> n" "n < 16" | "16 \<le> n" "n < 24" | "24 \<le> n" "n < 32"
      | "32 \<le> n" "n < 40" | "40 \<le> n" "n < 48" | "48 \<le> n" "n < 56" | "56 \<le> n" "n < 64" using n by linarith
    then show ?thesis unfolding PutUint64_def Uint64.simps by cases (simp_all add: bit_simps less_diff_conv2)
  qed
  then show ?thesis by (intro bit_word_eqI) simp
qed

section \<open>Fields of dotted tokens\<close>

locale dotted_field =
  fixes enc :: "'a \<Rightarrow> string"
    and dec :: "string \<Rightarrow> 'a option"
    and ok :: "'a \<Rightarrow> bool"
  assumes dec_enc: "ok x \<Longrightarrow> dec (enc x) = Some x"
    and no_dot: "CHR ''.'' \<notin> set (enc x)"
begin

lemma first_field: "SplitN (Suc (Suc n)) CHR ''.'' (enc x @ CHR ''.'' # rest) = enc x # SplitN (Suc n) CHR ''.'' rest"
  by (rule SplitN_append [OF no_dot])

lemma enc_inj: "ok x \<Longrightarrow> ok y \<Longrightarrow> enc x = enc y \<Longrightarrow> x = y"
  by (metis dec_enc option.inject)

lemma field_boundary: "enc x @ CHR ''.'' # r = enc y @ CHR ''.'' # s \<Longrightarrow> enc x = enc y \<and> r = s"
  by (metis cut_at no_dot list.inject)

end

end
