(* ===== verification/Authn.thy ===== *)
theory Authn
  imports Gotext Spec
begin

text \<open>
  Logins (\<open>coordinator/internal/authn\<close>): the configuration and its allow list (\<open>config.go\<close>,
  \<open>authn.go\<close>), host accounts (\<open>local.go\<close>), Active Directory (\<open>ad.go\<close>), and the signed session
  tokens (\<open>session.go\<close>).

  Parameters are HMAC-SHA256 (\<open>mac\<close>), the crypt library, the LDAP library and what the host answers: the
  shadow file, the account database, the directory server. Times are nanoseconds since the epoch.
\<close>

section \<open>Configuration\<close>

record AllowList =
  al_Users :: "string list"
  al_Groups :: "string list"

record LDAPConfig =
  ldap_URL :: string
  StartTLS :: bool
  InsecureSkipVerify :: bool
  BindDN :: string
  BindPassword :: string
  BaseDN :: string
  UserFilter :: string
  GroupAttribute :: string

record AuthConfig =
  auth_Mode :: string
  auth_Allow :: AllowList
  auth_LDAP :: LDAPConfig
  SessionTTLMinutes :: int

record User =
  Username :: string
  Groups :: "string list"

definition Allowed :: "AuthConfig \<Rightarrow> User \<Rightarrow> bool" where
  "Allowed c u =
     (if list_ex (\<lambda>n. n = Username u) (al_Users (auth_Allow c)) then True
      else if al_Groups (auth_Allow c) = [] then False
      else list_ex (\<lambda>g. g \<in> set (al_Groups (auth_Allow c))) (Groups u))"

definition auth_applyDefaults :: "AuthConfig \<Rightarrow> AuthConfig" where
  "auth_applyDefaults c =
     (let c1 = (if SessionTTLMinutes c = 0 then c\<lparr>SessionTTLMinutes := 480\<rparr> else c); l = auth_LDAP c1;
          l1 = (if UserFilter l = '''' then l\<lparr>UserFilter := ''(sAMAccountName=%s)''\<rparr> else l);
          l2 = (if GroupAttribute l1 = '''' then l1\<lparr>GroupAttribute := ''memberOf''\<rparr> else l1)
      in if auth_Mode c = ''ad'' then c1\<lparr>auth_LDAP := l2\<rparr> else c1)"

datatype auth_error = MissingURL | MissingBindDN | MissingBaseDN | BadMode string | NobodyAllowed
  | ReadFailed | ParseFailed

definition auth_validate :: "AuthConfig \<Rightarrow> auth_error option" where
  "auth_validate c =
     (let nobody = (if al_Users (auth_Allow c) = [] \<and> al_Groups (auth_Allow c) = [] then Some NobodyAllowed else None)
      in if auth_Mode c = ''local'' then nobody
         else if auth_Mode c = ''ad''
         then (if ldap_URL (auth_LDAP c) = '''' then Some MissingURL
               else if BindDN (auth_LDAP c) = '''' then Some MissingBindDN
               else if BaseDN (auth_LDAP c) = '''' then Some MissingBaseDN
               else nobody)
         else Some (BadMode (auth_Mode c)))"

text \<open>What reading a file gave: its bytes, that it is absent, or another failure.\<close>

datatype file_read = FileData bytes | FileAbsent | FileFailed

definition LoadConfig :: "(bytes \<Rightarrow> AuthConfig option) \<Rightarrow> file_read \<Rightarrow> bool \<Rightarrow> auth_error + AuthConfig option" where
  "LoadConfig yaml f missingOK =
     (case f of
        FileAbsent \<Rightarrow> if missingOK then Inr None else Inl ReadFailed
      | FileFailed \<Rightarrow> Inl ReadFailed
      | FileData b \<Rightarrow>
          (case yaml b of
             None \<Rightarrow> Inl ParseFailed
           | Some c \<Rightarrow>
               let c1 = auth_applyDefaults c
               in case auth_validate c1 of Some e \<Rightarrow> Inl e | None \<Rightarrow> Inr (Some c1)))"

section \<open>Host accounts\<close>

text \<open>
  \<open>bufio.Scanner\<close> over a file: its lines without the line break and a carriage return before it, up to
  the first line that does not fit the 64 KiB buffer (which stops the scan with an error; its caller
  here fails either way).
\<close>

definition dropCR :: "string \<Rightarrow> string" where
  "dropCR l = (if l \<noteq> [] \<and> last l = CHR 0x0D then butlast l else l)"

definition MaxScanTokenSize :: int where
  "MaxScanTokenSize = 64 * 1024"

function scanLines :: "string \<Rightarrow> string list" where
  "scanLines s =
     (if s = [] then []
      else let l = takeWhile (\<lambda>c. c \<noteq> CHR 0x0A) s
           in if int (length l) \<ge> MaxScanTokenSize then []
              else dropCR l # scanLines (drop (length l + 1) s))"
  by pat_completeness auto
termination by (relation "measure length") auto

declare scanLines.simps [simp del]

record host =
  shadow :: file_read
  hashSupported :: "string \<Rightarrow> bool"
  cryptVerify :: "string \<Rightarrow> string \<Rightarrow> bool"
  lookupUser :: "string \<Rightarrow> string list option"
  lookupGroup :: "string \<Rightarrow> string option"

definition locked_hash :: "string \<Rightarrow> bool" where
  "locked_hash h \<longleftrightarrow> h = '''' \<or> prefix ''!'' h \<or> prefix ''*'' h"

fun shadowLines :: "string \<Rightarrow> string list \<Rightarrow> string option" where
  "shadowLines username [] = None"
| "shadowLines username (l # ls) =
     (case SplitN 3 CHR '':'' l of
        u # h # _ \<Rightarrow> if u \<noteq> username then shadowLines username ls
                     else if locked_hash h then None else Some h
      | _ \<Rightarrow> shadowLines username ls)"

definition shadowHash :: "host \<Rightarrow> string \<Rightarrow> string option" where
  "shadowHash h username =
     (case shadow h of
        FileData b \<Rightarrow> shadowLines username (scanLines (string_of b))
      | _ \<Rightarrow> None)"

definition verifyCrypt :: "host \<Rightarrow> string \<Rightarrow> string \<Rightarrow> bool" where
  "verifyCrypt h hsh password = (if \<not> hashSupported h hsh then False else cryptVerify h hsh password)"

definition localGroups :: "host \<Rightarrow> string \<Rightarrow> string list option" where
  "localGroups h username = map_option (List.map_filter (lookupGroup h)) (lookupUser h username)"

definition Local_Authenticate :: "host \<Rightarrow> string \<Rightarrow> string \<Rightarrow> User option" where
  "Local_Authenticate h username password =
     (if username = '''' \<or> password = '''' then None
      else case shadowHash h username of
             None \<Rightarrow> None
           | Some hsh \<Rightarrow>
               if \<not> verifyCrypt h hsh password then None
               else map_option (\<lambda>gs. \<lparr>Username = username, Groups = gs\<rparr>) (localGroups h username))"

section \<open>Active Directory\<close>

text \<open>
  The directory as the LDAP library shows it: whether the n-th connection is made and upgraded, whether a
  bind is accepted, what a search returns, how a filter is built from its format and the login name, and
  how a distinguished name parses. \<open>binds\<close> is the trace of bind requests: whether the connection was
  encrypted, the name and the password.
\<close>

record entry =
  e_DN :: string
  e_attrs :: "string \<Rightarrow> string list"

record directory =
  dialURL :: "nat \<Rightarrow> bool"
  startTLS_ok :: "nat \<Rightarrow> bool"
  bind_ok :: "string \<Rightarrow> string \<Rightarrow> bool"
  fmt_filter :: "string \<Rightarrow> string \<Rightarrow> string"
  search :: "string \<Rightarrow> string \<Rightarrow> entry list option"
  parseDN :: "string \<Rightarrow> (string \<times> string) list list option"

type_synonym binds = "(bool \<times> string \<times> string) list"

text \<open>\<open>dial\<close>: \<open>None\<close> is a failure, otherwise whether the connection is encrypted.\<close>

definition dial :: "directory \<Rightarrow> LDAPConfig \<Rightarrow> nat \<Rightarrow> bool option" where
  "dial dir cfg n =
     (if \<not> dialURL dir n then None
      else if prefix ''ldaps://'' (ldap_URL cfg) then Some True
      else if StartTLS cfg then (if startTLS_ok dir n then Some True else None)
      else Some False)"

definition groupCN :: "directory \<Rightarrow> string \<Rightarrow> string" where
  "groupCN dir dn =
     (case parseDN dir dn of
        Some (rdn # _) \<Rightarrow> (case List.find (\<lambda>(t, v). ToUpper t = ''CN'') rdn of Some (t, v) \<Rightarrow> v | None \<Rightarrow> dn)
      | _ \<Rightarrow> dn)"

definition AD_Authenticate :: "directory \<Rightarrow> LDAPConfig \<Rightarrow> string \<Rightarrow> string \<Rightarrow> User option \<times> binds" where
  "AD_Authenticate dir cfg username password =
     (if username = '''' \<or> password = '''' then (None, [])
      else case dial dir cfg 0 of
        None \<Rightarrow> (None, [])
      | Some tls \<Rightarrow>
          let b1 = [(tls, BindDN cfg, BindPassword cfg)]
          in if \<not> bind_ok dir (BindDN cfg) (BindPassword cfg) then (None, b1)
             else case search dir (BaseDN cfg) (fmt_filter dir (UserFilter cfg) username) of
               Some [en] \<Rightarrow>
                 (case dial dir cfg 1 of
                    None \<Rightarrow> (None, b1)
                  | Some tls2 \<Rightarrow>
                      let b2 = b1 @ [(tls2, e_DN en, password)]
                      in if \<not> bind_ok dir (e_DN en) password then (None, b2)
                         else (Some \<lparr>Username = username, Groups = map (groupCN dir) (e_attrs en (GroupAttribute cfg))\<rparr>, b2))
             | _ \<Rightarrow> (None, b1))"

datatype Authenticator = LocalAuthenticator | ADAuthenticator LDAPConfig

definition authn_New :: "AuthConfig \<Rightarrow> Authenticator option" where
  "authn_New cfg =
     (if auth_Mode cfg = ''local'' then Some LocalAuthenticator
      else if auth_Mode cfg = ''ad'' then Some (ADAuthenticator (auth_LDAP cfg)) else None)"

definition Authenticate :: "host \<Rightarrow> directory \<Rightarrow> Authenticator \<Rightarrow> string \<Rightarrow> string \<Rightarrow> User option" where
  "Authenticate h dir a username password =
     (case a of
        LocalAuthenticator \<Rightarrow> Local_Authenticate h username password
      | ADAuthenticator cfg \<Rightarrow> fst (AD_Authenticate dir cfg username password))"

section \<open>Sessions\<close>

definition CookieName :: string where
  "CookieName = ''drsync_session''"

type_synonym mac = "bytes \<Rightarrow> bytes \<Rightarrow> bytes"

record SessionManager =
  sm_secret :: bytes
  sm_ttl :: int

definition Unix :: "int \<Rightarrow> int" where
  "Unix t = t div 10 ^ 9"

text \<open>
  The secret file before and after, and the secret. \<open>rnd\<close> is what the random source gives, \<open>mk\<close> whether
  the directory can be made, \<open>wr\<close> how many bytes a failing write leaves behind.
\<close>

definition loadOrCreateSecret :: "bytes option \<Rightarrow> bool \<Rightarrow> nat option \<Rightarrow> bytes option \<Rightarrow> bytes option \<times> bytes option" where
  "loadOrCreateSecret rnd mk wr file =
     (if file \<noteq> None \<and> length (the file) = 32 then (file, file)
      else case rnd of
        None \<Rightarrow> (None, file)
      | Some secret \<Rightarrow>
          if \<not> mk then (None, file)
          else case wr of
                 Some n \<Rightarrow> (None, Some (take n secret))
               | None \<Rightarrow> (Some secret, Some secret))"

definition NewSessionManager :: "bytes option \<Rightarrow> bool \<Rightarrow> nat option \<Rightarrow> int \<Rightarrow> bytes option \<Rightarrow> SessionManager option \<times> bytes option" where
  "NewSessionManager rnd mk wr ttl file =
     (case loadOrCreateSecret rnd mk wr file of (s, file') \<Rightarrow> (map_option (\<lambda>x. \<lparr>sm_secret = x, sm_ttl = ttl\<rparr>) s, file'))"

definition sign :: "mac \<Rightarrow> SessionManager \<Rightarrow> string \<Rightarrow> string" where
  "sign mac m payload = b64_encode (mac (sm_secret m) (bytes_of payload))"

definition formatInt64 :: "int \<Rightarrow> string" where
  "formatInt64 v = b64_encode (PutUint64 (word_of_int v))"

definition parseInt64 :: "string \<Rightarrow> int option" where
  "parseInt64 s = (case b64_decode s of None \<Rightarrow> None | Some b \<Rightarrow> if length b \<noteq> 8 then None else Some (sint (Uint64 b)))"

definition Session_Issue :: "mac \<Rightarrow> SessionManager \<Rightarrow> int \<Rightarrow> string \<Rightarrow> string" where
  "Session_Issue mac m now username =
     (let payload = b64_encode (bytes_of username) @ CHR ''.'' # formatInt64 (Unix (now + sm_ttl m))
      in payload @ CHR ''.'' # sign mac m payload)"

definition Session_Verify :: "mac \<Rightarrow> SessionManager \<Rightarrow> int \<Rightarrow> string \<Rightarrow> string option" where
  "Session_Verify mac m now token =
     (case SplitN 3 CHR ''.'' token of
        [encUser, expStr, sig] \<Rightarrow>
          if sig \<noteq> sign mac m (encUser @ CHR ''.'' # expStr) then None
          else (case parseInt64 expStr of
                  None \<Rightarrow> None
                | Some ex \<Rightarrow> if Unix now > ex then None else map_option string_of (b64_decode encUser))
      | _ \<Rightarrow> None)"

section \<open>Fields of a session token\<close>

interpretation user_field: dotted_field "\<lambda>u. b64_encode (bytes_of u)" "\<lambda>s. map_option string_of (b64_decode s)" "\<lambda>_. True"
  by unfold_locales simp_all

interpretation expiry_field: dotted_field formatInt64 parseInt64 "\<lambda>v. - (2 ^ 63) \<le> v \<and> v < 2 ^ 63"
proof unfold_locales
  show "parseInt64 (formatInt64 v) = Some v" if "- (2 ^ 63) \<le> v \<and> v < 2 ^ 63" for v
  proof -
    have "sint (word_of_int v :: 64 word) = v" using that by (simp add: signed_of_int signed_take_bit_int_eq_self)
    then show ?thesis by (simp add: parseInt64_def formatInt64_def)
  qed
qed (simp add: formatInt64_def)

lemma sign_inj: "sign mac m p = sign mac m q \<Longrightarrow> mac (sm_secret m) (bytes_of p) = mac (sm_secret m) (bytes_of q)"
  unfolding sign_def by (metis b64_roundtrip option.inject)

lemma Session_Verify_parts:
  assumes "CHR ''.'' \<notin> set a" "CHR ''.'' \<notin> set b"
  shows "Session_Verify mac m now (a @ CHR ''.'' # b @ CHR ''.'' # sig) =
     (if sig \<noteq> sign mac m (a @ CHR ''.'' # b) then None
      else case parseInt64 b of
             None \<Rightarrow> None
           | Some ex \<Rightarrow> if Unix now > ex then None else map_option string_of (b64_decode a))"
proof -
  have "SplitN 3 CHR ''.'' (a @ CHR ''.'' # b @ CHR ''.'' # sig) = [a, b, sig]"
    using SplitN_append [OF assms(1), of 1 "b @ CHR ''.'' # sig"] SplitN_append [OF assms(2), of 0 sig] by (simp add: numeral_3_eq_3)
  then show ?thesis unfolding Session_Verify_def by simp
qed

lemma Session_Verify_Some:
  assumes "Session_Verify mac m now tok = Some u"
  obtains a b ex where "tok = a @ CHR ''.'' # b @ CHR ''.'' # sign mac m (a @ CHR ''.'' # b)"
    "CHR ''.'' \<notin> set a" "CHR ''.'' \<notin> set b" "parseInt64 b = Some ex" "Unix now \<le> ex" "map_option string_of (b64_decode a) = Some u"
proof -
  obtain a b sig where sp: "SplitN 3 CHR ''.'' tok = [a, b, sig]"
    using assms by (auto simp: Session_Verify_def split: list.splits)
  note parts = SplitN_three [OF sp]
  have v: "Session_Verify mac m now (a @ CHR ''.'' # b @ CHR ''.'' # sig) = Some u" using assms parts(1) by simp
  then have "sig = sign mac m (a @ CHR ''.'' # b)" "\<exists>ex. parseInt64 b = Some ex \<and> Unix now \<le> ex"
      "map_option string_of (b64_decode a) = Some u"
    unfolding Session_Verify_parts [OF parts(2,3)] by (auto split: if_splits option.splits)
  then show ?thesis using that parts by blast
qed

lemma loadOrCreateSecret_keeps:
  assumes "loadOrCreateSecret (Some r) mk wr file = (Some s, file')" "length r = 32"
  shows "loadOrCreateSecret rnd mk' wr' file' = (Some s, file')"
  using assms by (auto simp: loadOrCreateSecret_def split: if_splits option.splits)

lemma Session_Verify_Issue:
  assumes "sm_secret m2 = sm_secret m" "- (2 ^ 63) \<le> Unix (now + sm_ttl m)" "Unix (now + sm_ttl m) < 2 ^ 63"
  shows "Session_Verify mac m2 t (Session_Issue mac m now u) = (if Unix t \<le> Unix (now + sm_ttl m) then Some u else None)"
  unfolding Session_Issue_def Let_def append_assoc append_Cons
  by (subst Session_Verify_parts [OF user_field.no_dot expiry_field.no_dot])
    (use assms in \<open>simp add: sign_def expiry_field.dec_enc\<close>)

section \<open>Properties\<close>

text \<open>
  Round trip of session tokens, also across a restart: a token is accepted, with exactly the name it
  was issued for, up to the second its lifetime ends and never after, by the manager that issued it
  and by any that later loads the secret it left on disk. Names are arbitrary byte strings.
\<close>

theorem session_token_roundtrip:
  assumes "NewSessionManager (Some r) mk wr ttl file = (Some m, file')" "length r = 32"
    and "NewSessionManager rnd mk' wr' ttl' file' = (m', file'')"
    and "- (2 ^ 63) \<le> Unix (now + ttl)" "Unix (now + ttl) < 2 ^ 63"
  shows "\<exists>m2. m' = Some m2 \<and> file'' = file' \<and> (\<forall>t u. Session_Verify mac m2 t (Session_Issue mac m now u) = (if Unix t \<le> Unix (now + ttl) then Some u else None))"
proof -
  have "loadOrCreateSecret (Some r) mk wr file = (Some (sm_secret m), file')" and ttl: "sm_ttl m = ttl"
    using assms(1) by (auto simp: NewSessionManager_def split: prod.splits)
  then have l: "loadOrCreateSecret rnd mk' wr' file' = (Some (sm_secret m), file')"
    using loadOrCreateSecret_keeps assms(2) by blast
  let ?m2 = "\<lparr>sm_secret = sm_secret m, sm_ttl = ttl'\<rparr>"
  have "m' = Some ?m2" "file'' = file'" using assms(3) by (auto simp: NewSessionManager_def l)
  moreover have "Session_Verify mac ?m2 t (Session_Issue mac m now u) = (if Unix t \<le> Unix (now + ttl) then Some u else None)" for t u
    using Session_Verify_Issue [of ?m2 m now] assms(4,5) by (simp add: ttl)
  ultimately show ?thesis by blast
qed

definition sample_mac :: mac where
  "sample_mac k b = k @ rev b"

theorem session_token_roundtrip_witness:
  "NewSessionManager (Some (replicate 32 7)) True None (3600 * 10 ^ 9) None =
     (Some \<lparr>sm_secret = replicate 32 7, sm_ttl = 3600 * 10 ^ 9\<rparr>, Some (replicate 32 7)) \<and>
   Session_Verify sample_mac \<lparr>sm_secret = replicate 32 7, sm_ttl = 60\<rparr> (3601 * 10 ^ 9)
     (Session_Issue sample_mac \<lparr>sm_secret = replicate 32 7, sm_ttl = 3600 * 10 ^ 9\<rparr> (10 ^ 9) ''ann'') = Some ''ann'' \<and>
   Session_Verify sample_mac \<lparr>sm_secret = replicate 32 7, sm_ttl = 60\<rparr> (3602 * 10 ^ 9)
     (Session_Issue sample_mac \<lparr>sm_secret = replicate 32 7, sm_ttl = 3600 * 10 ^ 9\<rparr> (10 ^ 9) ''ann'') = None"
proof -
  let ?r = "replicate 32 7 :: bytes"
  have 1: "NewSessionManager (Some ?r) True None (3600 * 10 ^ 9) None = (Some \<lparr>sm_secret = ?r, sm_ttl = 3600 * 10 ^ 9\<rparr>, Some ?r)"
    by (simp add: NewSessionManager_def loadOrCreateSecret_def)
  have 2: "NewSessionManager None False None 60 (Some ?r) = (Some \<lparr>sm_secret = ?r, sm_ttl = 60\<rparr>, Some ?r)"
    by (simp add: NewSessionManager_def loadOrCreateSecret_def)
  show ?thesis using 1 session_token_roundtrip [OF 1 _ 2, of "10 ^ 9" sample_mac] by (simp add: Unix_def)
qed

text \<open>
  A session cannot be extended or handed to another name without computing a MAC: a token that is
  accepted and carries the signature of some issued token either is that token or shows two different
  payloads with the same MAC under the secret.
\<close>

theorem session_forgery_needs_collision:
  assumes "Session_Verify mac m t tok = Some u" "tok = p @ CHR ''.'' # sign mac m q"
  shows "p = q \<or> (bytes_of p \<noteq> bytes_of q \<and> mac (sm_secret m) (bytes_of p) = mac (sm_secret m) (bytes_of q))"
proof -
  obtain a b where tok: "tok = (a @ CHR ''.'' # b) @ CHR ''.'' # sign mac m (a @ CHR ''.'' # b)"
    by (rule Session_Verify_Some [OF assms(1)]) simp
  have nd: "CHR ''.'' \<notin> set (rev (sign mac m x))" for x by (simp add: sign_def)
  have "rev (sign mac m (a @ CHR ''.'' # b)) @ CHR ''.'' # rev (a @ CHR ''.'' # b) = rev (sign mac m q) @ CHR ''.'' # rev p"
    using arg_cong [OF trans [OF sym [OF tok] assms(2)], of rev] by simp
  then have "rev (sign mac m (a @ CHR ''.'' # b)) = rev (sign mac m q)" "rev (a @ CHR ''.'' # b) = rev p"
    using cut_at [OF nd] by (metis list.inject)+
  then have "mac (sm_secret m) (bytes_of p) = mac (sm_secret m) (bytes_of q)" using sign_inj by (metis rev_rev_ident)
  then show ?thesis by (metis string_of_bytes_of)
qed

text \<open>With a MAC that is constant, a token for another name carries the signature of an issued one.\<close>

theorem session_forgery_needs_collision_witness:
  "Session_Verify (\<lambda>k b. [1]) \<lparr>sm_secret = [], sm_ttl = 5\<rparr> 0
     ((b64_encode (bytes_of ''bob'') @ CHR ''.'' # formatInt64 9) @ CHR ''.'' #
       sign (\<lambda>k b. [1]) \<lparr>sm_secret = [], sm_ttl = 5\<rparr> (b64_encode (bytes_of ''ann'') @ CHR ''.'' # formatInt64 9)) = Some ''bob'' \<and>
   bytes_of (b64_encode (bytes_of ''bob'') @ CHR ''.'' # formatInt64 9) \<noteq> bytes_of (b64_encode (bytes_of ''ann'') @ CHR ''.'' # formatInt64 9)"
proof -
  let ?mac = "\<lambda>k b. [1] :: bytes" and ?m = "\<lparr>sm_secret = [], sm_ttl = 5\<rparr>"
  let ?p = "b64_encode (bytes_of ''bob'') @ CHR ''.'' # formatInt64 9" and ?q = "b64_encode (bytes_of ''ann'') @ CHR ''.'' # formatInt64 9"
  have 1: "Session_Verify ?mac ?m 0 (?p @ CHR ''.'' # sign ?mac ?m ?q) = Some ''bob''"
    unfolding append_assoc append_Cons
    by (subst Session_Verify_parts [OF user_field.no_dot expiry_field.no_dot]) (simp add: sign_def expiry_field.dec_enc Unix_def)
  have "?p \<noteq> ?q" using user_field.field_boundary [of "''bob''" "formatInt64 9" "''ann''" "formatInt64 9"] user_field.enc_inj by auto
  then show ?thesis using 1 session_forgery_needs_collision [OF 1 refl] by simp
qed

text \<open>
  (C32) Directory logins: when the URL or the configuration asks for TLS, no name or password is bound on
  an unencrypted connection; a login succeeds only for a non-empty name and password whose search has
  exactly one entry, with that password accepted for that entry, after the service account was.
\<close>

theorem AD_login_safe:
  assumes "AD_Authenticate dir cfg username password = (r, bs)"
  shows "(StartTLS cfg \<or> prefix ''ldaps://'' (ldap_URL cfg) \<longrightarrow> list_all fst bs) \<and>
    (r \<noteq> None \<longrightarrow> username \<noteq> '''' \<and> password \<noteq> '''' \<and> bind_ok dir (BindDN cfg) (BindPassword cfg) \<and>
      (\<exists>en. search dir (BaseDN cfg) (fmt_filter dir (UserFilter cfg) username) = Some [en] \<and> bind_ok dir (e_DN en) password \<and>
        map snd bs = [(BindDN cfg, BindPassword cfg), (e_DN en, password)] \<and>
        r = Some \<lparr>Username = username, Groups = map (groupCN dir) (e_attrs en (GroupAttribute cfg))\<rparr>))"
proof -
  have d: "dial dir cfg n = Some b \<Longrightarrow> StartTLS cfg \<or> prefix ''ldaps://'' (ldap_URL cfg) \<Longrightarrow> b" for n b
    by (auto simp: dial_def split: if_splits)
  show ?thesis using assms unfolding AD_Authenticate_def Let_def
    by (auto split: if_splits option.splits list.splits dest: d)
qed

definition sample_dir :: directory where
  "sample_dir = \<lparr>dialURL = (\<lambda>_. True), startTLS_ok = (\<lambda>_. True), bind_ok = (\<lambda>dn pw. pw = ''s3cret''),
     fmt_filter = (\<lambda>f u. u), search = (\<lambda>base u. Some [\<lparr>e_DN = u, e_attrs = (\<lambda>_. [''x''])\<rparr>]),
     parseDN = (\<lambda>dn. Some [[(''cn'', ''admins'')]])\<rparr>"

definition sample_ldap :: LDAPConfig where
  "sample_ldap = \<lparr>ldap_URL = ''ldap://dc'', StartTLS = True, InsecureSkipVerify = False, BindDN = ''svc'', BindPassword = ''s3cret'',
     BaseDN = ''dc'', UserFilter = ''(sAMAccountName=%s)'', GroupAttribute = ''memberOf''\<rparr>"

theorem AD_login_safe_witness:
  "AD_Authenticate sample_dir sample_ldap ''ann'' ''s3cret'' =
     (Some \<lparr>Username = ''ann'', Groups = [''admins'']\<rparr>, [(True, ''svc'', ''s3cret''), (True, ''ann'', ''s3cret'')]) \<and>
   bind_ok sample_dir ''svc'' ''s3cret''"
proof -
  have 1: "AD_Authenticate sample_dir sample_ldap ''ann'' ''s3cret'' =
     (Some \<lparr>Username = ''ann'', Groups = [''admins'']\<rparr>, [(True, ''svc'', ''s3cret''), (True, ''ann'', ''s3cret'')])" by code_simp
  have "BindDN sample_ldap = ''svc''" "BindPassword sample_ldap = ''s3cret''" by (simp_all add: sample_ldap_def)
  then show ?thesis using 1 AD_login_safe [OF 1] by simp
qed

section \<open>Accounts and allow lists\<close>

lemma Allowed_iff:
  "Allowed c u \<longleftrightarrow> Username u \<in> set (al_Users (auth_Allow c)) \<or> set (Groups u) \<inter> set (al_Groups (auth_Allow c)) \<noteq> {}"
  by (auto simp: Allowed_def list_ex_iff)

text \<open>An accepted configuration names an authenticator and somebody it lets in, and sessions have a lifetime.\<close>

lemma LoadConfig_usable:
  assumes "LoadConfig yaml f missingOK = Inr (Some c)"
  shows "(\<exists>a. authn_New c = Some a) \<and> (\<exists>u. Allowed c u) \<and> SessionTTLMinutes c \<noteq> 0"
proof -
  obtain b raw where c: "c = auth_applyDefaults raw" and v: "auth_validate c = None"
    using assms by (auto simp: LoadConfig_def Let_def split: file_read.splits option.splits if_splits)
  have mode: "auth_Mode c = ''local'' \<or> auth_Mode c = ''ad''" and some: "al_Users (auth_Allow c) \<noteq> [] \<or> al_Groups (auth_Allow c) \<noteq> []"
    using v by (auto simp: auth_validate_def Let_def split: if_splits)
  have "\<exists>a. authn_New c = Some a" using mode by (auto simp: authn_New_def)
  moreover have "\<exists>u. Allowed c u"
  proof (cases "al_Users (auth_Allow c) = []")
    case True
    then have "Allowed c \<lparr>Username = '''', Groups = [hd (al_Groups (auth_Allow c))]\<rparr>" using some by (simp add: Allowed_iff)
    then show ?thesis by blast
  next
    case False
    then have "Allowed c \<lparr>Username = hd (al_Users (auth_Allow c)), Groups = []\<rparr>" by (simp add: Allowed_iff)
    then show ?thesis by blast
  qed
  moreover have "SessionTTLMinutes c \<noteq> 0" by (auto simp: c auth_applyDefaults_def Let_def)
  ultimately show ?thesis by blast
qed

lemma shadowLines_unlocked: "shadowLines u ls = Some h \<Longrightarrow> \<not> locked_hash h \<and> (\<exists>l \<in> set ls. prefix (u @ CHR '':'' # h) l)"
proof (induction u ls rule: shadowLines.induct)
  case (2 u l ls)
  show ?case
  proof (cases "SplitN 3 CHR '':'' l")
    case (Cons a as)
    show ?thesis
    proof (cases as)
      case (Cons b bs)
      have l: "l \<noteq> []" using \<open>SplitN 3 CHR '':'' l = a # as\<close> Cons by (auto simp: numeral_3_eq_3)
      have "SplitN (Suc 2) CHR '':'' l = a # as" using \<open>SplitN 3 CHR '':'' l = a # as\<close> by simp
      then have "prefix (a @ CHR '':'' # b) l" using SplitN_join [OF l, of 2 "CHR '':''" a as] Cons by (auto simp: prefix_def)
      then show ?thesis using 2 Cons \<open>SplitN 3 CHR '':'' l = a # as\<close> by (auto split: if_splits)
    qed (use 2 \<open>SplitN 3 CHR '':'' l = a # as\<close> in auto)
  qed (use 2 in auto)
qed simp

text \<open>A host login needs a password and an account of the shadow file that is not locked.\<close>

lemma Local_login_safe:
  assumes "Local_Authenticate h username password = Some u"
  shows "username \<noteq> '''' \<and> password \<noteq> '''' \<and> Username u = username \<and>
    (\<exists>hsh. shadowHash h username = Some hsh \<and> \<not> locked_hash hsh \<and> hashSupported h hsh \<and> cryptVerify h hsh password)"
proof -
  have "\<not> locked_hash hsh" if "shadowHash h username = Some hsh" for hsh
    using that shadowLines_unlocked by (auto simp: shadowHash_def split: file_read.splits)
  then show ?thesis using assms by (auto simp: Local_Authenticate_def verifyCrypt_def split: if_splits option.splits)
qed

end
