(* ===== verification/Api.thy ===== *)
theory Api
  imports Coordinator Authn
begin

text \<open>
  The HTTP side of the coordinator that checks credentials and changes state
  (\<open>coordinator/internal/api/api.go\<close>, \<open>auth_login.go\<close>) and its configuration
  (\<open>cmd/drsyncd/main.go\<close>): bearer tokens and session cookies, login with its failure limiter, and the
  handlers that submit, start, pause, resume, cancel and purge jobs, trigger passes, enable agents and
  act on parked shards.

  A request is what \<open>net/http\<close> has parsed; a handler is a computation over \<open>api\<close>, the coordinator and the
  limiter, whose result is the response. An early return after \<open>httpErr\<close> is a failure of the
  computation with that response. The texts of error messages are kept as the values they are built from.
  JSON bodies are decoded by \<open>encoding/json\<close>, a field of \<open>api_env\<close>. Log lines are left out.
\<close>

section \<open>Requests and responses\<close>

record request =
  rq_method :: string
  rq_path :: "string list"
  rq_query :: "(string \<times> string) list"
  rq_header :: "(string \<times> string) list"
  rq_cookie :: "string option"
  rq_body :: "bytes option"
  rq_length :: int
  rq_remote :: string

definition lookup_or_empty :: "(string \<times> string) list \<Rightarrow> string \<Rightarrow> string" where
  "lookup_or_empty kv k = (case map_of kv k of None \<Rightarrow> '''' | Some v \<Rightarrow> v)"

definition query :: "request \<Rightarrow> string \<Rightarrow> string" where
  "query rq = lookup_or_empty (rq_query rq)"

definition header :: "request \<Rightarrow> string \<Rightarrow> string" where
  "header rq = lookup_or_empty (rq_header rq)"

datatype json = JStr string | JInt int | JBool bool | JArr "json list" | JObj "(string \<times> json) list"

datatype err_text =
    Msg string
  | StoreErr store_error
  | CtlErr pc_error
  | SpecErr spec_error
  | JournalErr "unit journal_error"
  | DestConflictMsg string string path path
  | ExpectedState string JobState JobState
  | NotFinished string
  | NoParkedShard int

datatype response_body =
    JSON json
  | ErrorBody err_text
  | YAML bytes
  | Plain string
  | Console
  | MetricsPage
  | EventStream
  | NoBody

record cookie =
  ck_name :: string
  ck_value :: string
  ck_secure :: bool
  ck_maxAge :: int

record response =
  rs_code :: nat
  rs_body :: response_body
  rs_cookie :: "cookie option"

definition httpErr :: "nat \<Rightarrow> err_text \<Rightarrow> response" where
  "httpErr code e = \<lparr>rs_code = code, rs_body = ErrorBody e, rs_cookie = None\<rparr>"

definition writeJSON :: "nat \<Rightarrow> json \<Rightarrow> response" where
  "writeJSON code v = \<lparr>rs_code = code, rs_body = JSON v, rs_cookie = None\<rparr>"

definition reply :: "response_body \<Rightarrow> response" where
  "reply b = \<lparr>rs_code = 200, rs_body = b, rs_cookie = None\<rparr>"

section \<open>State\<close>

record failState =
  fs_count :: int
  fs_lockedTill :: int

type_synonym loginLimiter = "(string \<times> failState) list"

record api =
  a_co :: coordinator
  a_limiter :: loginLimiter

record CoordinatorInfo =
  ci_FleetEpoch :: string
  ci_LeaseTTLS :: int
  ci_MTLS :: bool
  ci_Version :: string

text \<open>
  The fields of the API server that are set once. \<open>SetAuth\<close> sets the login configuration, the
  authenticator and the session manager together; the hooks say which of the agent server's and the
  journal writer's functions are attached.
\<close>

record api_cfg =
  api_token :: string
  api_login :: "(AuthConfig \<times> Authenticator \<times> SessionManager) option"
  httpsEnabled :: bool
  api_info :: CoordinatorInfo
  hook_inflight :: bool
  hook_drain :: bool
  hook_done :: bool
  hook_drop :: bool

text \<open>The clock in nanoseconds, the libraries, the host and the directory as one request sees them.\<close>

record api_env =
  en_now :: int
  en_pc :: pc_env
  en_as :: as_env
  en_mac :: mac
  en_host :: host
  en_dir :: directory
  dec_trigger :: "bytes \<Rightarrow> (bool \<times> string) option"
  dec_login :: "bytes \<Rightarrow> (string \<times> string) option"
  errnoName :: "int \<Rightarrow> string"

definition UnixMilli :: "int \<Rightarrow> int" where
  "UnixMilli t = t div 10 ^ 6"

type_synonym 'a http = "(api, response, 'a) eff"

definition api_db :: "api \<Rightarrow> db" where
  "api_db s = srv_db (co_srv (a_co s))"

definition readApi :: "(db \<Rightarrow> 'a) \<Rightarrow> 'a http" where
  "readApi f = getE (\<lambda>s. f (api_db s))"

definition onServer :: "(Server \<Rightarrow> Server) \<Rightarrow> api \<Rightarrow> api" where
  "onServer f s = s\<lparr>a_co := (a_co s)\<lparr>co_srv := f (co_srv (a_co s))\<rparr>\<rparr>"

text \<open>A store call whose error the handler looks at.\<close>

definition callStore :: "(db \<Rightarrow> store_error + 'a \<times> db) \<Rightarrow> (store_error + 'a) http" where
  "callStore t s =
     (case t (api_db s) of
        Inl e \<Rightarrow> (Inr (Inl e), s)
      | Inr (a, d) \<Rightarrow> (Inr (Inr a), onServer (\<lambda>sv. sv\<lparr>srv_db := d\<rparr>) s))"

definition execApi :: "(db \<Rightarrow> store_error + db) \<Rightarrow> (store_error + unit) http" where
  "execApi t = callStore (\<lambda>d. map_sum id (\<lambda>d'. ((), d')) (t d))"

definition callCtl :: "unit ctl \<Rightarrow> (pc_error + unit) http" where
  "callCtl m s = (case m (toWorld (a_co s)) of (r, w) \<Rightarrow> (Inr r, s\<lparr>a_co := fromWorld (a_co s) w\<rparr>))"

definition callSrv :: "'a srv \<Rightarrow> unit http" where
  "callSrv m s = (Inr (), onServer (\<lambda>sv. snd (m sv)) s)"

section \<open>Credentials\<close>

definition validBearerToken :: "api_cfg \<Rightarrow> request \<Rightarrow> bool" where
  "validBearerToken cfg rq =
     (let got = header rq ''Authorization'';
          got' = (if got = '''' \<and> query rq ''token'' \<noteq> '''' then ''Bearer '' @ query rq ''token'' else got)
      in got' = ''Bearer '' @ api_token cfg)"

definition sessionUser :: "api_cfg \<Rightarrow> api_env \<Rightarrow> request \<Rightarrow> string option" where
  "sessionUser cfg env rq =
     (case (api_login cfg, rq_cookie rq) of
        (Some (_, _, sm), Some c) \<Rightarrow> Session_Verify (en_mac env) sm (en_now env) c
      | _ \<Rightarrow> None)"

definition validSessionCookie :: "api_cfg \<Rightarrow> api_env \<Rightarrow> request \<Rightarrow> bool" where
  "validSessionCookie cfg env rq \<longleftrightarrow> sessionUser cfg env rq \<noteq> None"

definition auth :: "api_cfg \<Rightarrow> api_env \<Rightarrow> request \<Rightarrow> response http \<Rightarrow> response http" where
  "auth cfg env rq nxt =
     (if api_token cfg = '''' \<and> api_login cfg = None then nxt
      else if api_token cfg \<noteq> '''' \<and> validBearerToken cfg rq then nxt
      else if api_login cfg \<noteq> None \<and> validSessionCookie cfg env rq then nxt
      else failE (httpErr 401 (Msg ''invalid or missing credentials'')))"

definition requestUsername :: "api_cfg \<Rightarrow> api_env \<Rightarrow> request \<Rightarrow> string" where
  "requestUsername cfg env rq =
     (case sessionUser cfg env rq of
        Some u \<Rightarrow> if u \<noteq> '''' then u else header rq ''X-Drsync-Username''
      | None \<Rightarrow> header rq ''X-Drsync-Username'')"

section \<open>Login\<close>

definition maxLoginFailures :: int where "maxLoginFailures = 5"

definition loginLockout :: int where "loginLockout = 30 * 10 ^ 9"

definition limiter_allowed :: "int \<Rightarrow> string \<Rightarrow> loginLimiter \<Rightarrow> bool" where
  "limiter_allowed now k l = (case map_of l k of None \<Rightarrow> True | Some fs \<Rightarrow> now > fs_lockedTill fs)"

text \<open>The zero \<open>time.Time\<close> of a new entry lies before every clock reading.\<close>

definition zeroTime :: int where
  "zeroTime = - 62135596800 * 10 ^ 9"

definition recordFailure :: "int \<Rightarrow> string \<Rightarrow> loginLimiter \<Rightarrow> loginLimiter" where
  "recordFailure now k l =
     (let fs = (case map_of l k of None \<Rightarrow> \<lparr>fs_count = 0, fs_lockedTill = zeroTime\<rparr> | Some fs \<Rightarrow> fs);
          fs1 = fs\<lparr>fs_count := fs_count fs + 1\<rparr>
      in AList.update k (if fs_count fs1 \<ge> maxLoginFailures then \<lparr>fs_count = 0, fs_lockedTill = now + loginLockout\<rparr> else fs1) l)"

definition recordSuccess :: "string \<Rightarrow> loginLimiter \<Rightarrow> loginLimiter" where
  "recordSuccess k l = AList.delete k l"

definition clientIP :: "request \<Rightarrow> string" where
  "clientIP rq =
     (let fwd = header rq ''X-Forwarded-For'';
          addr = (if fwd \<noteq> '''' then TrimSpace (hd (SplitN 2 CHR '','' fwd)) else rq_remote rq)
      in case SplitHostPort addr of Some host \<Rightarrow> host | None \<Rightarrow> addr)"

definition setLimiter :: "(loginLimiter \<Rightarrow> loginLimiter) \<Rightarrow> unit http" where
  "setLimiter f = putE (\<lambda>s. s\<lparr>a_limiter := f (a_limiter s)\<rparr>)"

text \<open>
  What a reader sees of a body behind a limit. \<open>io.LimitReader\<close> ends there silently; for the decoder behind
  \<open>http.MaxBytesReader\<close>, which stops after the first value, a value that is cut off is an error either way.
\<close>

fun limitReader :: "int \<Rightarrow> bytes \<Rightarrow> bytes" where
  "limitReader n [] = []"
| "limitReader n (x # xs) = (if n \<le> 0 then [] else x # limitReader (n - 1) xs)"

definition handleLogin :: "api_cfg \<Rightarrow> api_env \<Rightarrow> request \<Rightarrow> response http" where
  "handleLogin cfg env rq =
     (case api_login cfg of
        None \<Rightarrow> failE (httpErr 404 (Msg ''interactive login is not configured on this coordinator''))
      | Some (acfg, auther, sm) \<Rightarrow>
          (case (case rq_body rq of None \<Rightarrow> None | Some b \<Rightarrow> dec_login env (limitReader 4096 b)) of
             None \<Rightarrow> failE (httpErr 400 (Msg ''invalid request body''))
           | Some (username, password) \<Rightarrow>
               let key = clientIP rq
               in bindE (getE (\<lambda>s. limiter_allowed (en_now env) key (a_limiter s))) (\<lambda>ok.
                    if \<not> ok then failE (httpErr 429 (Msg ''too many failed login attempts, try again shortly''))
                    else case Authenticate (en_host env) (en_dir env) auther username password of
                      None \<Rightarrow> thenE (setLimiter (recordFailure (en_now env) key))
                                (failE (httpErr 401 (Msg ''invalid username or password'')))
                    | Some user \<Rightarrow>
                        if \<not> Allowed acfg user
                        then thenE (setLimiter (recordFailure (en_now env) key))
                               (failE (httpErr 401 (Msg ''invalid username or password'')))
                        else thenE (setLimiter (recordSuccess key))
                               (returnE ((writeJSON 200 (JObj [(''username'', JStr (Username user))]))\<lparr>rs_cookie :=
                                  Some \<lparr>ck_name = CookieName, ck_value = Session_Issue (en_mac env) sm (en_now env) (Username user),
                                        ck_secure = httpsEnabled cfg, ck_maxAge = SessionTTLMinutes acfg * 60\<rparr>\<rparr>)))))"

definition handleLogout :: "api_cfg \<Rightarrow> response http" where
  "handleLogout cfg = returnE ((writeJSON 200 (JObj [(''status'', JStr ''ok'')]))\<lparr>rs_cookie :=
     Some \<lparr>ck_name = CookieName, ck_value = '''', ck_secure = httpsEnabled cfg, ck_maxAge = - 1\<rparr>\<rparr>)"

definition handleWhoAmI :: "api_cfg \<Rightarrow> api_env \<Rightarrow> request \<Rightarrow> response http" where
  "handleWhoAmI cfg env rq = returnE (writeJSON 200 (JObj [
     (''username'', JStr (case sessionUser cfg env rq of None \<Rightarrow> '''' | Some u \<Rightarrow> u)),
     (''login_configured'', JBool (api_login cfg \<noteq> None)),
     (''token_required'', JBool (api_token cfg \<noteq> '''' \<and> api_login cfg = None))]))"

section \<open>Names of states\<close>

fun jobStateName :: "JobState \<Rightarrow> string" where
  "jobStateName JobCreated = ''CREATED''"
| "jobStateName JobReady = ''READY''"
| "jobStateName JobRunning = ''RUNNING''"
| "jobStateName JobPaused = ''PAUSED''"
| "jobStateName JobCompleted = ''COMPLETED''"
| "jobStateName JobCancelled = ''CANCELLED''"
| "jobStateName JobFailed = ''FAILED''"

section \<open>Jobs\<close>

text \<open>The fields that are omitted when they are empty.\<close>

definition omitempty_str :: "string \<Rightarrow> string \<Rightarrow> (string \<times> json) list" where
  "omitempty_str k v = (if v = '''' then [] else [(k, JStr v)])"

definition omitempty_int :: "string \<Rightarrow> int \<Rightarrow> (string \<times> json) list" where
  "omitempty_int k v = (if v = 0 then [] else [(k, JInt v)])"

definition jobView :: "job_row \<Rightarrow> json list \<Rightarrow> json" where
  "jobView j passes = JObj ([(''name'', JStr (job_name j)), (''state'', JStr (jobStateName (job_state j))),
     (''dry_run'', JBool (job_dry_run j))] @ omitempty_str ''username'' (job_username j) @
     (if passes = [] then [] else [(''passes'', JArr passes)]))"

definition submitJob :: "api_cfg \<Rightarrow> api_env \<Rightarrow> request \<Rightarrow> response http" where
  "submitJob cfg env rq =
     (case rq_body rq of
        None \<Rightarrow> failE (httpErr 400 (Msg ''read body''))
      | Some raw \<Rightarrow>
          let body = limitReader (2 ^ 20) raw
          in case ParseSpec (pe_yaml (en_pc env)) body of
               Inl e \<Rightarrow> failE (httpErr 422 (SpecErr e))
             | Inr spec \<Rightarrow>
                 bindE (callStore (CreateJob (pe_yaml (en_pc env)) (SpecName spec) body (query rq ''dry_run'' = ''true'')
                          (requestUsername cfg env rq) (UnixMilli (en_now env)))) (\<lambda>r.
                   case r of
                     Inl e \<Rightarrow> failE (httpErr 409 (case e of
                                ErrDestinationConflict other dst otherDst \<Rightarrow> DestConflictMsg '''' other dst otherDst
                              | _ \<Rightarrow> StoreErr e))
                   | Inr job \<Rightarrow> returnE (writeJSON 201 (jobView job []))))"

definition dropJournal :: "api_cfg \<Rightarrow> int \<Rightarrow> unit http" where
  "dropJournal cfg jobID =
     (if hook_drop cfg then putE (onServer (\<lambda>sv. sv\<lparr>srv_jw := DropJob jobID (srv_jw sv)\<rparr>)) else returnE ())"

definition purgeJob :: "api_cfg \<Rightarrow> string \<Rightarrow> response http" where
  "purgeJob cfg name =
     bindE (callStore (DeleteJob name)) (\<lambda>r.
       case r of
         Inl e \<Rightarrow> failE (case e of
                    ErrNoRows \<Rightarrow> httpErr 404 (Msg ''no such job'')
                  | ErrJobActive \<Rightarrow> httpErr 409 (NotFinished name)
                  | _ \<Rightarrow> httpErr 500 (StoreErr e))
       | Inr i \<Rightarrow> thenE (dropJournal cfg i) (returnE (writeJSON 200 (JObj [(''purged'', JStr name)]))))"

definition terminalNames :: "string list" where
  "terminalNames = map jobStateName [JobCompleted, JobCancelled, JobFailed]"

definition purgeMatches :: "string \<Rightarrow> int \<Rightarrow> job_row \<Rightarrow> bool" where
  "purgeMatches sel cutoff j \<longleftrightarrow> TerminalJobState (job_state j) \<and>
     (sel = ''TERMINAL'' \<or> sel = jobStateName (job_state j)) \<and> \<not> (cutoff > 0 \<and> job_updated_at j \<ge> cutoff)"

fun purgeLoop :: "api_cfg \<Rightarrow> string \<Rightarrow> int \<Rightarrow> bool \<Rightarrow> job_row list \<Rightarrow> string list http" where
  "purgeLoop cfg sel cutoff dryRun [] = returnE []"
| "purgeLoop cfg sel cutoff dryRun (j # js) =
     (if \<not> purgeMatches sel cutoff j then purgeLoop cfg sel cutoff dryRun js
      else if dryRun then bindE (purgeLoop cfg sel cutoff dryRun js) (\<lambda>p. returnE (job_name j # p))
      else bindE (callStore (DeleteJob (job_name j))) (\<lambda>r.
             case r of
               Inl e \<Rightarrow> purgeLoop cfg sel cutoff dryRun js
             | Inr i \<Rightarrow> thenE (dropJournal cfg i)
                         (bindE (purgeLoop cfg sel cutoff dryRun js) (\<lambda>p. returnE (job_name j # p)))))"

text \<open>The cutoff of a bulk purge; \<open>None\<close> is an \<open>older_than_ms\<close> that is refused.\<close>

definition purgeCutoff :: "int \<Rightarrow> string \<Rightarrow> int option" where
  "purgeCutoff now v =
     (if v = '''' then Some 0
      else case ParseInt v of
             None \<Rightarrow> None
           | Some ms \<Rightarrow> if ms < 0 then None else Some (if ms > 0 then UnixMilli now - ms else 0))"

definition purgeJobs :: "api_cfg \<Rightarrow> api_env \<Rightarrow> request \<Rightarrow> response http" where
  "purgeJobs cfg env rq =
     (let up = ToUpper (query rq ''state''); sel = (if up = '''' then ''COMPLETED'' else up)
      in if sel \<noteq> ''TERMINAL'' \<and> sel \<notin> set terminalNames
         then failE (httpErr 400 (Msg ''state must be completed, cancelled, failed or terminal''))
         else case purgeCutoff (en_now env) (query rq ''older_than_ms'') of
                None \<Rightarrow> failE (httpErr 400 (Msg ''older_than_ms must be a non-negative integer''))
              | Some cutoff \<Rightarrow>
                  let dryRun = (query rq ''dry_run'' = ''true'')
                  in bindE (readApi ListJobs) (\<lambda>jobs.
                       bindE (purgeLoop cfg sel cutoff dryRun jobs) (\<lambda>purged.
                         returnE (writeJSON 200 (JObj [(''purged'', JArr (map JStr purged)),
                           (''count'', JInt (int (length purged))), (''dry_run'', JBool dryRun)])))))"

datatype action = Start | Pause | Resume | Cancel

fun actionName :: "action \<Rightarrow> string" where
  "actionName Start = ''start''"
| "actionName Pause = ''pause''"
| "actionName Resume = ''resume''"
| "actionName Cancel = ''cancel''"

datatype act_error = ACtl pc_error | AStore store_error | AExpected string JobState JobState

definition setState :: "api_env \<Rightarrow> string \<Rightarrow> JobState \<Rightarrow> JobState \<Rightarrow> (act_error + unit) http" where
  "setState env name fr to =
     bindE (readApi (GetJob name)) (\<lambda>r.
       case r of
         Inl e \<Rightarrow> returnE (Inl (AStore e))
       | Inr job \<Rightarrow>
           if job_state job \<noteq> fr then returnE (Inl (AExpected name (job_state job) fr))
           else thenE (callStore (\<lambda>d. Inr ((), SetJobState (job_id job) to (UnixMilli (en_now env)) d))) (returnE (Inr ())))"

definition cancelJob :: "api_cfg \<Rightarrow> api_env \<Rightarrow> string \<Rightarrow> (act_error + unit) http" where
  "cancelJob cfg env name =
     bindE (readApi (GetJob name)) (\<lambda>r.
       case r of
         Inl e \<Rightarrow> returnE (Inl (AStore e))
       | Inr job \<Rightarrow>
           thenE (callStore (\<lambda>d. Inr ((), SetJobState (job_id job) JobCancelled (UnixMilli (en_now env)) d)))
             (thenE (if hook_done cfg then callSrv (NotifyJobDone (en_as env) (job_id job)) else returnE ())
               (returnE (Inr ()))))"

definition runAction :: "api_cfg \<Rightarrow> api_env \<Rightarrow> action \<Rightarrow> string \<Rightarrow> (act_error + unit) http" where
  "runAction cfg env a name =
     (case a of
        Start \<Rightarrow> bindE (callCtl (StartJob (en_pc env) name)) (\<lambda>r. returnE (map_sum ACtl id r))
      | Pause \<Rightarrow> setState env name JobRunning JobPaused
      | Resume \<Rightarrow> bindE (callCtl (ResumeJob (en_pc env) name)) (\<lambda>r. returnE (map_sum ACtl id r))
      | Cancel \<Rightarrow> cancelJob cfg env name)"

definition actionError :: "action \<Rightarrow> act_error \<Rightarrow> response" where
  "actionError a e =
     (case e of
        ACtl (PStore ErrNoRows) \<Rightarrow> httpErr 404 (Msg ''no such job'')
      | AStore ErrNoRows \<Rightarrow> httpErr 404 (Msg ''no such job'')
      | ACtl (PStore (ErrDestinationConflict other dst otherDst)) \<Rightarrow> httpErr 409 (DestConflictMsg (actionName a) other dst otherDst)
      | ACtl e' \<Rightarrow> httpErr 409 (CtlErr e')
      | AStore e' \<Rightarrow> httpErr 409 (StoreErr e')
      | AExpected name st fr \<Rightarrow> httpErr 409 (ExpectedState name st fr))"

definition jobAction :: "api_cfg \<Rightarrow> api_env \<Rightarrow> action \<Rightarrow> string \<Rightarrow> response http" where
  "jobAction cfg env a name =
     bindE (runAction cfg env a name) (\<lambda>r.
       case r of
         Inl e \<Rightarrow> failE (actionError a e)
       | Inr _ \<Rightarrow> returnE (writeJSON 200 (JObj [(''job'', JStr name), (''action'', JStr (actionName a))])))"

definition triggerPass :: "api_env \<Rightarrow> request \<Rightarrow> string \<Rightarrow> response http" where
  "triggerPass env rq name =
     (case (if rq_length rq > 0 then (case rq_body rq of None \<Rightarrow> None | Some b \<Rightarrow> dec_trigger env b) else Some (False, '''')) of
        None \<Rightarrow> failE (httpErr 400 (Msg ''decode body''))
      | Some (del, confirm) \<Rightarrow>
          if del \<and> confirm \<noteq> name then failE (httpErr 412 (Msg ''delete pass requires confirm == job name''))
          else bindE (callCtl (TriggerPass (en_pc env) name del)) (\<lambda>r.
                 case r of
                   Inl e \<Rightarrow> failE (httpErr 409 (CtlErr e))
                 | Inr _ \<Rightarrow> returnE (writeJSON 202 (JObj [(''job'', JStr name), (''delete'', JBool del)]))))"

section \<open>Agents and parked shards\<close>

definition setAgentEnabled :: "api_cfg \<Rightarrow> api_env \<Rightarrow> bool \<Rightarrow> string \<Rightarrow> response http" where
  "setAgentEnabled cfg env enabled i =
     bindE (execApi (SetAgentEnabled i enabled)) (\<lambda>r.
       case r of
         Inl e \<Rightarrow> failE (if e = ErrNoRows then httpErr 404 (Msg ''no such agent'') else httpErr 500 (StoreErr e))
       | Inr _ \<Rightarrow>
           thenE (if hook_drain cfg then callSrv (SetDrain (en_as env) i (\<not> enabled)) else returnE ())
             (returnE (writeJSON 200 (JObj [(''agent'', JStr i), (''enabled'', JBool enabled)]))))"

definition parkedShardAction :: "api_env \<Rightarrow> bool \<Rightarrow> string \<Rightarrow> response http" where
  "parkedShardAction env retry v =
     (case ParseInt v of
        None \<Rightarrow> failE (httpErr 400 (Msg ''invalid shard id''))
      | Some i \<Rightarrow>
          bindE (execApi (if retry then RetryParkedShard i (UnixMilli (en_now env)) else DropParkedShard i)) (\<lambda>r.
            case r of
              Inl e \<Rightarrow> failE (if e = ErrNotParked then httpErr 404 (NoParkedShard i) else httpErr 500 (StoreErr e))
            | Inr _ \<Rightarrow> returnE (writeJSON 200 (JObj [(''shard_id'', JInt i),
                        (''action'', JStr (if retry then ''retry'' else ''drop''))]))))"

definition parkedJobAction :: "api_env \<Rightarrow> bool \<Rightarrow> string \<Rightarrow> response http" where
  "parkedJobAction env retry name =
     bindE (callStore (\<lambda>d. Inr (if retry then RetryParkedByJob name (UnixMilli (en_now env)) d else DropParkedByJob name d))) (\<lambda>r.
       case r of
         Inl e \<Rightarrow> failE (httpErr 500 (StoreErr e))
       | Inr n \<Rightarrow> returnE (writeJSON 200 (JObj [(''job'', JStr name),
                    (''action'', JStr (if retry then ''retry'' else ''drop'')), (''count'', JInt n)])))"

section \<open>Configuration at start\<close>

text \<open>The parts of \<open>run\<close> that decide which credentials the API asks for; an \<open>Inl\<close> stops the daemon.\<close>

datatype stat_result = StatAbsent | StatFailed | StatPerm "32 word"

datatype start_error = TokenStat | TokenPerm | TokenRead | TokenEmpty | LoginConfig auth_error | LoginMode | LoginSecret

definition loadAPIToken :: "stat_result \<Rightarrow> file_read \<Rightarrow> bool \<Rightarrow> start_error + string" where
  "loadAPIToken st f missingOK =
     (case st of
        StatAbsent \<Rightarrow> if missingOK then Inr '''' else Inl TokenStat
      | StatFailed \<Rightarrow> Inl TokenStat
      | StatPerm perm \<Rightarrow>
          if perm AND 63 \<noteq> 0 then Inl TokenPerm
          else (case f of
                  FileData b \<Rightarrow> let token = TrimSpace (string_of b) in if token = '''' then Inl TokenEmpty else Inr token
                | _ \<Rightarrow> Inl TokenRead))"

record start_env =
  se_tokenStat :: stat_result
  se_tokenFile :: file_read
  se_tokenDefault :: bool
  se_authFile :: file_read
  se_authDefault :: bool
  se_authYAML :: "bytes \<Rightarrow> AuthConfig option"
  se_random :: "bytes option"
  se_mkdir :: bool
  se_write :: "nat option"
  se_secret :: "bytes option"

definition startLogin :: "start_env \<Rightarrow> start_error + (AuthConfig \<times> Authenticator \<times> SessionManager) option" where
  "startLogin e =
     (case LoadConfig (se_authYAML e) (se_authFile e) (se_authDefault e) of
        Inl x \<Rightarrow> Inl (LoginConfig x)
      | Inr None \<Rightarrow> Inr None
      | Inr (Some c) \<Rightarrow>
          (case authn_New c of
             None \<Rightarrow> Inl LoginMode
           | Some a \<Rightarrow>
               (case fst (NewSessionManager (se_random e) (se_mkdir e) (se_write e) (SessionTTLMinutes c * 60 * 10 ^ 9) (se_secret e)) of
                  None \<Rightarrow> Inl LoginSecret
                | Some sm \<Rightarrow> Inr (Some (c, a, sm)))))"

definition startApi :: "start_env \<Rightarrow> CoordinatorInfo \<Rightarrow> bool \<Rightarrow> start_error + api_cfg" where
  "startApi e info https =
     (case loadAPIToken (se_tokenStat e) (se_tokenFile e) (se_tokenDefault e) of
        Inl x \<Rightarrow> Inl x
      | Inr token \<Rightarrow>
          (case startLogin e of
             Inl x \<Rightarrow> Inl x
           | Inr l \<Rightarrow> Inr \<lparr>api_token = token, api_login = l, httpsEnabled = https, api_info = info,
                        hook_inflight = True, hook_drain = True, hook_done = True, hook_drop = True\<rparr>))"

end
