(* ===== verification/Api_Query.thy ===== *)
theory Api_Query
  imports Api
begin

text \<open>
  The read-side endpoints of the API: job, pass and agent views of \<open>api.go\<close>, and \<open>query.go\<close> with the
  error browser, the journal query, the migration report and the queue view. None of them changes state.

  A JSON object whose field is omitted when empty lists the field only when it is not; objects that Go
  builds from a map are listed in the order the code mentions the keys. \<open>sort.Slice\<close> may reorder equal
  elements; the model sorts stably. \<open>unix.ErrnoName\<close> is a field of \<open>api_env\<close>.
\<close>

section \<open>Views\<close>

fun passStateName :: "PassState \<Rightarrow> string" where
  "passStateName PassPending = ''PENDING''"
| "passStateName PassProbing = ''PROBING''"
| "passStateName PassScanning = ''SCANNING''"
| "passStateName PassDirfix = ''DIRFIX''"
| "passStateName PassLinkfix = ''LINKFIX''"
| "passStateName PassVerify = ''VERIFY''"
| "passStateName PassDelete = ''DELETE''"
| "passStateName PassComplete = ''COMPLETE''"

fun shardStateName :: "ShardState \<Rightarrow> string" where
  "shardStateName ShardQueued = ''QUEUED''"
| "shardStateName ShardLeased = ''LEASED''"
| "shardStateName ShardDone = ''DONE''"
| "shardStateName ShardParked = ''PARKED''"

fun kindName :: "ShardKind \<Rightarrow> string" where
  "kindName KindDir = ''dir''"
| "kindName KindEntryList = ''entrylist''"
| "kindName KindChunk = ''chunk''"
| "kindName KindDirfix = ''dirfix''"
| "kindName KindVerify = ''verify''"
| "kindName KindDelete = ''delete''"
| "kindName KindProbe = ''probe''"
| "kindName KindLinkfix = ''linkfix''"
| "kindName KindReaped = ''reaped''"

definition durationRunning :: "int \<Rightarrow> JobState \<Rightarrow> int option \<Rightarrow> int" where
  "durationRunning now st since =
     (case since of
        Some t \<Rightarrow> if st \<noteq> JobRunning then 0 else if UnixMilli now - t > 0 then UnixMilli now - t else 0
      | None \<Rightarrow> 0)"

record passView =
  pv_PassNo :: int
  pv_State :: PassState
  pv_c :: counters
  pv_StartedAtMs :: int
  pv_FinishedAtMs :: int
  pv_DurationMs :: int

definition passViewOf :: "int \<Rightarrow> pass_row \<Rightarrow> passView" where
  "passViewOf now p =
     (let v = \<lparr>pv_PassNo = pass_no p, pv_State = pass_state p, pv_c = pass_counters p,
               pv_StartedAtMs = 0, pv_FinishedAtMs = 0, pv_DurationMs = 0\<rparr>
      in case pass_started p of
           None \<Rightarrow> v
         | Some st \<Rightarrow>
             let v1 = v\<lparr>pv_StartedAtMs := st, pv_FinishedAtMs := (case pass_finished p of None \<Rightarrow> 0 | Some f \<Rightarrow> f)\<rparr>;
                 en = (case pass_finished p of None \<Rightarrow> UnixMilli now | Some f \<Rightarrow> f)
             in if en - st > 0 then v1\<lparr>pv_DurationMs := en - st\<rparr> else v1)"

definition passFields :: "passView \<Rightarrow> (string \<times> json) list" where
  "passFields v = (let c = pv_c v in
     [(''pass_no'', JInt (pv_PassNo v)), (''state'', JStr (passStateName (pv_State v))),
      (''entries_walked'', JInt (EntriesWalked c)), (''files_copied'', JInt (FilesCopied c)),
      (''bytes_copied'', JInt (BytesCopied c)), (''meta_fixed'', JInt (MetaFixed c)),
      (''orphans'', JInt (Orphans c)), (''errors'', JInt (Errors c)),
      (''fidelity_exceptions'', JInt (FidelityExceptions c)), (''verify_ok'', JInt (VerifyOK c)),
      (''verify_fail'', JInt (VerifyFail c)), (''links_created'', JInt (LinksCreated c)),
      (''link_anchor_races'', JInt (LinkAnchorRaces c)), (''link_fallback'', JInt (LinkFallback c)),
      (''skipped_newer'', JInt (SkippedNewer c))] @
     omitempty_int ''started_at_ms'' (pv_StartedAtMs v) @ omitempty_int ''finished_at_ms'' (pv_FinishedAtMs v) @
     [(''duration_ms'', JInt (pv_DurationMs v))])"

definition jobListView :: "int \<Rightarrow> JobSummary \<Rightarrow> json" where
  "jobListView now x = (let j = js_Job x in JObj (
     [(''name'', JStr (job_name j)), (''state'', JStr (jobStateName (job_state j))), (''dry_run'', JBool (job_dry_run j))] @
     omitempty_str ''username'' (job_username j) @ [(''pass_count'', JInt (js_Passes x))] @
     omitempty_int ''pass_no'' (js_LatestPassNo x) @
     (case js_LatestPassState x of None \<Rightarrow> [] | Some st \<Rightarrow> [(''pass_state'', JStr (passStateName st))]) @
     [(''entries_walked'', JInt (js_LatestEntriesWalked x)), (''files_copied'', JInt (js_FilesCopied x)),
      (''bytes_copied'', JInt (js_BytesCopied x)), (''errors'', JInt (js_Errors x)),
      (''created_at_ms'', JInt (job_created_at j)), (''updated_at_ms'', JInt (job_updated_at j))] @
     omitempty_int ''duration_running_ms'' (durationRunning now (job_state j) (job_running_since j))))"

definition listJobs :: "api_env \<Rightarrow> response http" where
  "listJobs env = bindE (readApi JobSummaries) (\<lambda>js. returnE (writeJSON 200 (JArr (map (jobListView (en_now env)) js))))"

definition jobOr404 :: "string \<Rightarrow> job_row http" where
  "jobOr404 name =
     bindE (readApi (GetJob name)) (\<lambda>r.
       case r of
         Inl e \<Rightarrow> failE (if e = ErrNoRows then httpErr 404 (Msg ''no such job'') else httpErr 500 (StoreErr e))
       | Inr job \<Rightarrow> returnE job)"

definition effectivePass :: "db \<Rightarrow> pass_row \<Rightarrow> pass_row" where
  "effectivePass d p =
     (if pass_state p = PassComplete then p
      else p\<lparr>pass_state := EffectiveState (pass_state p) (ShardKindsPresent (pass_id p) d)\<rparr>)"

definition getJob :: "api_env \<Rightarrow> string \<Rightarrow> response http" where
  "getJob env name =
     bindE (jobOr404 name) (\<lambda>job.
       bindE (readApi (\<lambda>d. map (effectivePass d) (ListPasses (job_id job) d))) (\<lambda>passes.
         returnE (writeJSON 200 (jobView job (map (JObj \<circ> passFields \<circ> passViewOf (en_now env)) passes)))))"

definition getJobSpec :: "string \<Rightarrow> response http" where
  "getJobSpec name = bindE (jobOr404 name) (\<lambda>job. returnE (reply (YAML (job_spec job))))"

definition getInfo :: "api_cfg \<Rightarrow> response http" where
  "getInfo cfg = (let i = api_info cfg in returnE (writeJSON 200 (JObj [(''fleet_epoch'', JStr (ci_FleetEpoch i)),
     (''lease_ttl_s'', JInt (ci_LeaseTTLS i)), (''mtls'', JBool (ci_MTLS i)), (''version'', JStr (ci_Version i))])))"

section \<open>Agents\<close>

definition agentView :: "string list \<Rightarrow> agent_row \<Rightarrow> json" where
  "agentView live a = JObj [(''id'', JStr (agent_id a)), (''hostname'', JStr (agent_hostname a)),
     (''version'', JStr (agent_version a)), (''proto_minor'', JInt (int (agent_proto_minor a))),
     (''stale'', JBool (agent_proto_minor a < unat ProtoMinor)), (''state'', JStr (agent_state a)),
     (''connected'', JBool (agent_id a \<in> set live)), (''enabled'', JBool (agent_enabled a)),
     (''last_heartbeat_ms'', JInt (agent_last_heartbeat a))]"

definition listAgents :: "response http" where
  "listAgents =
     bindE (readApi ListAgents) (\<lambda>agents.
       bindE (getE (\<lambda>s. ConnectedAgents (co_srv (a_co s)))) (\<lambda>live.
         returnE (writeJSON 200 (JArr (map (agentView live) agents)))))"

definition inflightView :: "InflightItem \<Rightarrow> json" where
  "inflightView it = JObj [(''lease_id'', JInt (uint (if_LeaseId it))), (''shard_id'', JInt (uint (if_ShardId it))),
     (''job_id'', JInt (uint (if_JobId it))), (''kind'', JStr (if_Kind it)), (''rel_path'', JStr (if_RelPath it)),
     (''held_ms'', JInt (uint (if_HeldMs it))), (''running_ms'', JInt (uint (if_RunningMs it))),
     (''running'', JBool (if_Running it)), (''entries_done'', JInt (uint (if_EntriesDone it)))]"

definition getAgentInflight :: "api_cfg \<Rightarrow> string \<Rightarrow> response http" where
  "getAgentInflight cfg i =
     (if \<not> hook_inflight cfg then failE (httpErr 503 (Msg ''agent server not attached''))
      else bindE (getE (\<lambda>s. Inflight i (co_srv (a_co s)))) (\<lambda>(items, since, reports, connected).
        if \<not> connected then failE (httpErr 404 (Msg ''agent not connected''))
        else returnE (writeJSON 200 (JObj [(''agent'', JStr i), (''supported'', JBool reports),
               (''reported_at_ms'', JInt (case since of None \<Rightarrow> 0 | Some t \<Rightarrow> t)),
               (''inflight'', JArr (map inflightView (sort_key (\<lambda>it. - uint (if_RunningMs it)) items)))]))))"

section \<open>Pass detail\<close>

definition allShardStates :: "ShardState list" where
  "allShardStates = [ShardQueued, ShardLeased, ShardDone, ShardParked]"

text \<open>\<open>ShardStateCounts\<close> as a Go map: only states with a count are keys.\<close>

definition shardCounts :: "int \<Rightarrow> db \<Rightarrow> json" where
  "shardCounts passID d = JObj (map (\<lambda>st. (shardStateName st, JInt (ShardStateCounts passID d st)))
     (filter (\<lambda>st. ShardStateCounts passID d st > 0) allShardStates))"

definition getPass :: "api_env \<Rightarrow> string \<Rightarrow> string \<Rightarrow> response http" where
  "getPass env name v =
     bindE (jobOr404 name) (\<lambda>job.
       case ParseInt v of
         None \<Rightarrow> failE (httpErr 400 (Msg ''bad pass number''))
       | Some n \<Rightarrow>
           bindE (readApi (PassByNo (job_id job) n)) (\<lambda>r.
             case r of
               Inl e \<Rightarrow> failE (if e = ErrNoRows then httpErr 404 (Msg ''no such pass'') else httpErr 500 (StoreErr e))
             | Inr p \<Rightarrow>
                 bindE (readApi (shardCounts (pass_id p))) (\<lambda>shards.
                   let st = (case pass_started p of None \<Rightarrow> 0 | Some t \<Rightarrow> t)
                   in returnE (writeJSON 200 (JObj ([(''job'', JStr (job_name job)),
                        (''pass'', JObj (passFields (passViewOf (en_now env) p))), (''shards'', shards),
                        (''started_at_ms'', JInt st)] @
                        (case pass_finished p of
                           None \<Rightarrow> []
                         | Some f \<Rightarrow> [(''finished_at_ms'', JInt f), (''duration_ms'', JInt (f - st))])))))))"

section \<open>Paging through the journal\<close>

definition defaultPageLimit :: int where "defaultPageLimit = 1000"
definition maxPageLimit :: int where "maxPageLimit = 10000"
definition scanAll :: int where "scanAll = 2 ^ 63 - 1"

definition pageParams :: "request \<Rightarrow> pass_row list \<Rightarrow> response + (int list \<times> int \<times> int)" where
  "pageParams rq allPasses =
     (let badLimit = httpErr 400 (Msg ''bad limit''); q = query rq ''pass'';
          limitOf = (\<lambda>v. if v = '''' then Some defaultPageLimit
                        else case ParseInt v of None \<Rightarrow> None | Some n \<Rightarrow> if n < 1 then None else Some (min n maxPageLimit));
          offsetOf = (\<lambda>v. if v = '''' then Some 0 else case ParseInt v of None \<Rightarrow> None | Some n \<Rightarrow> if n < 0 then None else Some n)
      in if allPasses = [] then Inl (httpErr 404 (Msg ''job has no passes yet''))
         else case (if q = '''' \<or> q = ''all'' then Some (map pass_no allPasses)
                    else if q = ''latest'' then Some [pass_no (last allPasses)]
                    else map_option (\<lambda>n. [n]) (ParseInt q)) of
                None \<Rightarrow> Inl (httpErr 400 (Msg ''bad pass parameter''))
              | Some passes \<Rightarrow>
                  (case limitOf (query rq ''limit'') of
                     None \<Rightarrow> Inl badLimit
                   | Some limit \<Rightarrow>
                       (case offsetOf (query rq ''offset'') of
                          None \<Rightarrow> Inl (httpErr 400 (Msg ''bad offset''))
                        | Some offset \<Rightarrow> Inr (passes, limit, offset))))"

text \<open>
  The callback of \<open>scanJournal\<close>: the matches skipped and emitted so far, whether the page was cut, and what
  \<open>emit\<close> has gathered. Its error stands for \<open>errPageFull\<close>.
\<close>

type_synonym 'x page = "int \<times> int \<times> bool \<times> 'x"

definition pageFn ::
    "int \<Rightarrow> int \<Rightarrow> (JournalRecord \<Rightarrow> bool) \<Rightarrow> (int \<Rightarrow> JournalRecord \<Rightarrow> 'x \<Rightarrow> 'x) \<Rightarrow> int \<Rightarrow> (unit, 'x page) callback" where
  "pageFn limit offset mat em pn r st =
     (case st of (skipped, emitted, truncated, x) \<Rightarrow>
        if \<not> mat r then (None, st)
        else if skipped < offset then (None, skipped + 1, emitted, truncated, x)
        else if emitted \<ge> limit then (Some (), skipped, emitted, True, x)
        else (None, skipped, emitted + 1, truncated, em pn r x))"

fun scanPasses ::
    "journal_codecs \<Rightarrow> string \<Rightarrow> files \<Rightarrow> int \<Rightarrow> (int \<Rightarrow> (unit, 'x page) callback) \<Rightarrow> int list \<Rightarrow> 'x page \<Rightarrow>
     unit journal_error + 'x page" where
  "scanPasses jc rootDir fs jobID fn [] st = Inr st"
| "scanPasses jc rootDir fs jobID fn (pn # pns) st =
     (case ReadRecords jc rootDir jobID pn (fn pn) fs st of
        (Some (CallbackError _), st1) \<Rightarrow> if fst (snd (snd st1)) then Inr st1 else scanPasses jc rootDir fs jobID fn pns st1
      | (Some e, st1) \<Rightarrow> Inl e
      | (None, st1) \<Rightarrow> if fst (snd (snd st1)) then Inr st1 else scanPasses jc rootDir fs jobID fn pns st1)"

definition scanJournal ::
    "journal_codecs \<Rightarrow> string \<Rightarrow> files \<Rightarrow> int \<Rightarrow> int list \<Rightarrow> int \<Rightarrow> int \<Rightarrow> (JournalRecord \<Rightarrow> bool) \<Rightarrow>
     (int \<Rightarrow> JournalRecord \<Rightarrow> 'x \<Rightarrow> 'x) \<Rightarrow> 'x \<Rightarrow> unit journal_error + bool \<times> 'x" where
  "scanJournal jc rootDir fs jobID passes limit offset mat em x =
     map_sum id (\<lambda>(skipped, emitted, truncated, x). (truncated, x))
       (scanPasses jc rootDir fs jobID (pageFn limit offset mat em) passes (0, 0, False, x))"

section \<open>Records\<close>

definition zpad :: "nat \<Rightarrow> string \<Rightarrow> string" where
  "zpad n s = replicate (n - length s) (CHR ''0'') @ s"

definition errnoClass :: "api_env \<Rightarrow> int \<Rightarrow> string" where
  "errnoClass env n = (if errnoName env n \<noteq> '''' then errnoName env n else fmt_d n)"

definition typeLabel :: "JournalRecord \<Rightarrow> string" where
  "typeLabel r = TrimPrefix (typeName (jr_Type r)) ''JR_''"

definition recView :: "api_env \<Rightarrow> int \<Rightarrow> JournalRecord \<Rightarrow> json" where
  "recView env pn r = JObj (
     [(''pass'', JInt pn), (''type'', JStr (typeLabel r)), (''rel_path'', JStr (jr_RelPath r)), (''ts_ns'', JInt (jr_TsNs r))] @
     (case jr_Src r of
        None \<Rightarrow> []
      | Some s \<Rightarrow> [(''src'', JObj [(''mode'', JStr (zpad 4 (fmt_nat 8 (unat (si_Mode s))))), (''uid'', JInt (uint (si_Uid s))),
          (''gid'', JInt (uint (si_Gid s))), (''size'', JInt (uint (si_Size s))), (''mtime_ns'', JInt (si_MtimeNs s)),
          (''nlink'', JInt (uint (si_Nlink s)))])]) @
     (if jr_Xxh3Lo r \<noteq> 0 \<or> jr_Xxh3Hi r \<noteq> 0
      then [(''xxh3'', JStr (zpad 16 (fmt_nat 16 (unat (jr_Xxh3Hi r))) @ zpad 16 (fmt_nat 16 (unat (jr_Xxh3Lo r)))))] else []) @
     (if jr_Errno r \<noteq> 0 then [(''errno'', JInt (jr_Errno r)), (''class'', JStr (errnoClass env (jr_Errno r)))] else []) @
     omitempty_str ''detail'' (jr_Detail r))"

definition classOf :: "api_env \<Rightarrow> JournalRecord \<Rightarrow> string" where
  "classOf env r = (if jr_Type r = JR_VERIFY_FAIL then ''VERIFY_FAIL'' else errnoClass env (jr_Errno r))"

definition errorMatch :: "api_env \<Rightarrow> string \<Rightarrow> string \<Rightarrow> JournalRecord \<Rightarrow> bool" where
  "errorMatch env cls pathPrefix r \<longleftrightarrow>
     (jr_Type r = JR_ERROR \<or> jr_Type r = JR_FIDELITY_EXCEPTION \<or> jr_Type r = JR_VERIFY_FAIL) \<and>
     (pathPrefix = '''' \<or> prefix pathPrefix (jr_RelPath r)) \<and> (cls = '''' \<or> classOf env r = cls)"

definition journalMatch :: "string \<Rightarrow> string \<Rightarrow> JournalRecord \<Rightarrow> bool" where
  "journalMatch typeFilter pathPrefix r \<longleftrightarrow>
     (typeFilter = '''' \<or> typeLabel r = typeFilter) \<and> (pathPrefix = '''' \<or> prefix pathPrefix (jr_RelPath r))"

definition histogram :: "(string \<times> int) list \<Rightarrow> json" where
  "histogram h = JObj (map (\<lambda>(k, n). (k, JInt n)) h)"

text \<open>A scan on the journal files as they are, with a failure answered as an internal error.\<close>

definition scanHere ::
    "api_env \<Rightarrow> job_row \<Rightarrow> int list \<Rightarrow> int \<Rightarrow> int \<Rightarrow> (JournalRecord \<Rightarrow> bool) \<Rightarrow> (int \<Rightarrow> JournalRecord \<Rightarrow> 'x \<Rightarrow> 'x) \<Rightarrow> 'x \<Rightarrow>
     (bool \<times> 'x) http" where
  "scanHere env job passes limit offset mat em x =
     bindE (getE (\<lambda>s. srv_jw (co_srv (a_co s)))) (\<lambda>jw.
       case scanJournal (pe_jc (en_pc env)) (w_root jw) (w_files jw) (job_id job) passes limit offset mat em x of
         Inl e \<Rightarrow> failE (httpErr 500 (JournalErr e))
       | Inr r \<Rightarrow> returnE r)"

definition getErrors :: "api_env \<Rightarrow> request \<Rightarrow> string \<Rightarrow> response http" where
  "getErrors env rq name =
     bindE (jobOr404 name) (\<lambda>job.
       bindE (readApi (ListPasses (job_id job))) (\<lambda>allPasses.
         case pageParams rq allPasses of
           Inl resp \<Rightarrow> failE resp
         | Inr (passes, limit, offset) \<Rightarrow>
             bindE (scanHere env job passes limit offset (errorMatch env (query rq ''class'') (query rq ''path''))
                      (\<lambda>pn r (byClass, recs). (bump_type (classOf env r) byClass, recs @ [recView env pn r])) ([], []))
               (\<lambda>(truncated, byClass, recs).
                  returnE (writeJSON 200 (JObj [(''job'', JStr (job_name job)), (''count'', JInt (int (length recs))),
                    (''truncated'', JBool truncated), (''by_class'', histogram byClass), (''errors'', JArr recs)])))))"

definition summaryReply :: "job_row \<Rightarrow> (string \<times> int) list \<times> int \<Rightarrow> response" where
  "summaryReply job r = writeJSON 200 (JObj [(''job'', JStr (job_name job)), (''summary'', histogram (fst r)), (''total'', JInt (snd r))])"

definition getJournal :: "api_env \<Rightarrow> request \<Rightarrow> string \<Rightarrow> response http" where
  "getJournal env rq name =
     bindE (jobOr404 name) (\<lambda>job.
       bindE (readApi (ListPasses (job_id job))) (\<lambda>allPasses.
         case pageParams rq allPasses of
           Inl resp \<Rightarrow> failE resp
         | Inr (passes, limit, offset) \<Rightarrow>
             let typeFilter = TrimPrefix (ToUpper (query rq ''type'')) ''JR_''; pathPrefix = query rq ''path'';
                 mat = journalMatch typeFilter pathPrefix
             in if query rq ''summary'' = ''true''
                then (if typeFilter = '''' \<and> pathPrefix = ''''
                      then bindE (getE (\<lambda>s. srv_jw (co_srv (a_co s)))) (\<lambda>jw.
                             case journal_Summary (pe_jc (en_pc env)) (w_root jw) (job_id job) passes (w_files jw) of
                               Inl e \<Rightarrow> failE (httpErr 500 (JournalErr e))
                             | Inr r \<Rightarrow> returnE (summaryReply job r))
                      else bindE (scanHere env job passes scanAll 0 mat
                                    (\<lambda>pn r (byType, n). (bump_type (typeLabel r) byType, n + 1)) ([], 0))
                             (\<lambda>(truncated, r). returnE (summaryReply job r)))
                else bindE (scanHere env job passes limit offset mat (\<lambda>pn r recs. recs @ [recView env pn r]) [])
                       (\<lambda>(truncated, recs). returnE (writeJSON 200 (JObj [(''job'', JStr (job_name job)),
                          (''count'', JInt (int (length recs))), (''truncated'', JBool truncated), (''records'', JArr recs)])))))"

section \<open>Migration report\<close>

definition passReport :: "int \<Rightarrow> pass_row \<Rightarrow> json" where
  "passReport now p = (let c = pass_counters p in JObj (
     filter (\<lambda>(k, v). k \<noteq> ''duration_ms'') (passFields (passViewOf now p)) @
     (case (pass_finished p, pass_started p) of
        (Some f, Some st) \<Rightarrow> omitempty_int ''duration_ms'' (f - st) | _ \<Rightarrow> []) @
     [(''delta_files'', JInt (FilesCopied c + MetaFixed c)), (''delta_bytes'', JInt (BytesCopied c))]))"

definition orphanStep :: "pass_row \<Rightarrow> int \<times> bool \<Rightarrow> int \<times> bool" where
  "orphanStep p st =
     (case st of (orphans, deletePd) \<Rightarrow>
        if EntriesWalked (pass_counters p) > 0 then (Orphans (pass_counters p), deletePd)
        else if Orphans (pass_counters p) > 0 then (0, True) else (orphans, deletePd))"

definition total :: "(counters \<Rightarrow> int) \<Rightarrow> pass_row list \<Rightarrow> int" where
  "total f ps = sum_list (map (f \<circ> pass_counters) ps)"

definition reportTotals :: "pass_row list \<Rightarrow> json" where
  "reportTotals ps = JObj [(''files_copied'', JInt (total FilesCopied ps)), (''bytes_copied'', JInt (total BytesCopied ps)),
     (''meta_fixed'', JInt (total MetaFixed ps)), (''errors'', JInt (total Errors ps)),
     (''fidelity_exceptions'', JInt (total FidelityExceptions ps)), (''verify_ok'', JInt (total VerifyOK ps)),
     (''verify_fail'', JInt (total VerifyFail ps)), (''links_created'', JInt (total LinksCreated ps)),
     (''link_anchor_races'', JInt (total LinkAnchorRaces ps)), (''link_fallback'', JInt (total LinkFallback ps)),
     (''skipped_newer'', JInt (total SkippedNewer ps))]"

definition parkedView :: "ParkedShard \<Rightarrow> json" where
  "parkedView sh = JObj [(''shard_id'', JInt (pk_ID sh)), (''pass_no'', JInt (pk_PassNo sh)), (''kind'', JStr (kindName (pk_Kind sh))),
     (''rel_path'', JStr (pk_RelPath sh)), (''attempt'', JInt (int (pk_Attempt sh))), (''error'', JStr (pk_Error sh)),
     (''parked_at_ms'', JInt (pk_UpdatedAt sh))]"

definition jobReport :: "int \<Rightarrow> job_row \<Rightarrow> db \<Rightarrow> json" where
  "jobReport now job d =
     (let ps = ListPasses (job_id job) d; (orphans, deletePd) = fold orphanStep ps (0, False);
          parkedHere = filter (\<lambda>sh. pk_Job sh = job_name job) (ParkedShards d);
          (jsum, jtotal) = JournalTypeCounts (job_id job) d
      in JObj [(''job'', JStr (job_name job)), (''state'', JStr (jobStateName (job_state job))),
          (''dry_run'', JBool (job_dry_run job)), (''created_at_ms'', JInt (job_created_at job)),
          (''duration_running_ms'', JInt (durationRunning now (job_state job) (job_running_since job))),
          (''passes'', JArr (map (passReport now) ps)), (''totals'', reportTotals ps),
          (''converged'', JBool (job_state job = JobCompleted)), (''orphans_remaining'', JInt orphans),
          (''delete_pass_ran'', JBool deletePd), (''parked_shards'', JArr (map parkedView parkedHere)),
          (''parked_shard_count'', JInt (int (length parkedHere))), (''journal_summary'', histogram jsum),
          (''journal_summary_total'', JInt jtotal)])"

definition getReport :: "api_env \<Rightarrow> string \<Rightarrow> response http" where
  "getReport env name =
     bindE (jobOr404 name) (\<lambda>job. bindE (readApi (jobReport (en_now env) job)) (\<lambda>v. returnE (writeJSON 200 v)))"

section \<open>Queue view\<close>

definition bucketView :: "QueueRow \<Rightarrow> json" where
  "bucketView q = JObj [(''job'', JStr (q_Job q)), (''pass_no'', JInt (q_PassNo q)), (''kind'', JStr (kindName (q_Kind q))),
     (''state'', JStr (shardStateName (q_State q))), (''count'', JInt (q_Count q))]"

definition parkedQueueView :: "ParkedShard \<Rightarrow> json" where
  "parkedQueueView sh = JObj [(''shard_id'', JInt (pk_ID sh)), (''job'', JStr (pk_Job sh)), (''pass_no'', JInt (pk_PassNo sh)),
     (''kind'', JStr (kindName (pk_Kind sh))), (''rel_path'', JStr (pk_RelPath sh)), (''attempt'', JInt (int (pk_Attempt sh))),
     (''error'', JStr (pk_Error sh)), (''last_agent'', JStr (pk_LastAgent sh)), (''parked_at_ms'', JInt (pk_UpdatedAt sh))]"

definition getQueue :: "response http" where
  "getQueue =
     bindE (readApi QueueSummary) (\<lambda>rows.
       bindE (readApi ParkedShards) (\<lambda>parked.
         returnE (writeJSON 200 (JObj [(''depth'', JArr (map bucketView (sort_key (\<lambda>q. (q_Job q, q_PassNo q)) rows))),
           (''parked'', JArr (map parkedQueueView parked))]))))"

section \<open>Pages are pieces of the journal\<close>

text \<open>The page after the matches \<open>seen\<close>, while it is not full.\<close>

definition page_state :: "nat \<Rightarrow> (int \<times> JournalRecord \<Rightarrow> 'y) \<Rightarrow> (int \<times> JournalRecord) list \<Rightarrow> 'y list page" where
  "page_state offset g seen =
     (int (min offset (length seen)), int (length seen - offset), False, map g (drop offset seen))"

definition full_page :: "nat \<Rightarrow> nat \<Rightarrow> (int \<times> JournalRecord \<Rightarrow> 'y) \<Rightarrow> (int \<times> JournalRecord) list \<Rightarrow> 'y list page" where
  "full_page limit offset g seen = (int offset, int limit, True, map g (take limit (drop offset seen)))"

lemma deliver_page:
  assumes "length seen \<le> offset + limit"
  shows "deliver (pageFn (int limit) (int offset) mat (\<lambda>pn r acc. acc @ [g (pn, r)]) pn) rs (page_state offset g seen) =
    (let found = seen @ map (Pair pn) (filter mat rs)
     in if length found \<le> offset + limit then (None, page_state offset g found)
        else (Some (CallbackError ()), full_page limit offset g found))"
  using assms
proof (induction rs arbitrary: seen)
  case Nil
  then show ?case by simp
next
  case (Cons r rs)
  let ?fn = "pageFn (int limit) (int offset) mat (\<lambda>pn r acc. acc @ [g (pn, r)]) pn"
  show ?case
  proof (cases "mat r")
    case False
    then have "?fn r (page_state offset g seen) = (None, page_state offset g seen)" by (simp add: pageFn_def page_state_def)
    then show ?thesis using Cons False by simp
  next
    case True
    show ?thesis
    proof (cases "length seen = offset + limit")
      case full: True
      then have "?fn r (page_state offset g seen) = (Some (), full_page limit offset g seen)"
        using True by (simp add: pageFn_def page_state_def full_page_def)
      then show ?thesis using full True by (simp add: full_page_def)
    next
      case room: False
      have "?fn r (page_state offset g seen) = (None, page_state offset g (seen @ [(pn, r)]))"
        using True room Cons.prems by (auto simp: pageFn_def page_state_def)
      then show ?thesis using Cons.IH [of "seen @ [(pn, r)]"] room Cons.prems True by simp
    qed
  qed
qed

lemma scanPasses_pages:
  fixes g :: "int \<times> JournalRecord \<Rightarrow> 'y"
  assumes "\<And>pn (fn :: (unit, 'y list page) callback) s. pn \<in> set passes \<Longrightarrow> ReadRecords jc rootDir jobID pn fn fs s = deliver fn (R pn) s" "length seen \<le> offset + limit"
  shows "scanPasses jc rootDir fs jobID (pageFn (int limit) (int offset) mat (\<lambda>pn r acc. acc @ [g (pn, r)])) passes (page_state offset g seen) =
    (let found = seen @ concat (map (\<lambda>pn. map (Pair pn) (filter mat (R pn))) passes)
     in Inr (if length found \<le> offset + limit then page_state offset g found else full_page limit offset g found))"
  using assms
proof (induction passes arbitrary: seen)
  case (Cons pn pns)
  let ?seen = "seen @ map (Pair pn) (filter mat (R pn))"
  have rd: "ReadRecords jc rootDir jobID pn fn fs s = deliver fn (R pn) s" for fn :: "(unit, 'y list page) callback" and s using Cons.prems(1) [of pn fn s] by simp
  show ?case
  proof (cases "length ?seen \<le> offset + limit")
    case True
    have "\<not> fst (snd (snd (page_state offset g ?seen)))" by (simp add: page_state_def)
    then show ?thesis using Cons.IH [OF _ True] Cons.prems True by (simp add: rd deliver_page [OF Cons.prems(2)] Let_def)
  next
    case False
    have "fst (snd (snd (full_page limit offset g ?seen)))" by (simp add: full_page_def)
    then show ?thesis using False by (simp add: rd deliver_page [OF Cons.prems(2)] Let_def full_page_def)
  qed
qed simp

lemma concat_pages: "concat (map (\<lambda>k. take m (drop (k * m) xs)) [0..<n]) = take (n * m) xs"
proof (induction n)
  case (Suc n)
  have "take (n * m) xs @ take m (drop (n * m) xs) = take (n * m + m) xs" by (simp add: take_add)
  then show ?case using Suc by (simp add: add.commute)
qed simp

text \<open>
  (C27) Paging loses and repeats nothing: over an intact journal, page \<open>k\<close> of a query with any filter is the
  \<open>k\<close>-th piece of the matching records of the requested passes in order, it is marked as cut exactly
  when matches remain behind it, and the first \<open>n\<close> pages joined are the first matches.
\<close>

theorem journal_pages:
  fixes mat :: "JournalRecord \<Rightarrow> bool" and g :: "int \<Rightarrow> JournalRecord \<Rightarrow> 'a" and limit :: nat
  assumes R: "journal_refines w J" and j: "0 \<le> job"
    and ps: "\<forall>pn \<in> set passes. 0 \<le> pn \<and> segments_named w job pn \<and> list_all (entry_ok jc) (J (job, pn))"
  defines "found \<equiv> concat (map (\<lambda>pn. map (g pn) (filter mat (recs (J (job, pn))))) passes)"
  defines "page \<equiv> \<lambda>k. scanJournal jc (w_root w) (w_files w) job passes (int limit) (int (k * limit)) mat (\<lambda>pn r acc. acc @ [g pn r]) []"
  shows "page k = Inr (length found > k * limit + limit, take limit (drop (k * limit) found)) \<and>
    concat (map (\<lambda>k. case page k of Inl _ \<Rightarrow> [] | Inr p \<Rightarrow> snd p) [0..<n]) = take (n * limit) found"
proof -
  let ?g = "\<lambda>(pn, r). g pn r" and ?all = "concat (map (\<lambda>pn. map (Pair pn) (filter mat (recs (J (job, pn))))) passes)"
  have rd: "ReadRecords jc (w_root w) job pn fn (w_files w) s = deliver fn (recs (J (job, pn))) s" if "pn \<in> set passes"
    for pn and fn :: "(unit, 'a list page) callback" and s
    using ReadRecords_refines [OF R j, of pn jc fn s] ps that by simp
  have found: "found = map ?g ?all" by (simp add: found_def map_concat comp_def)
  have page: "page k = Inr (length found > k * limit + limit, take limit (drop (k * limit) found))" for k
  proof -
    have "page k = map_sum id (\<lambda>(sk, n, tr, x). (tr, x))
        (scanPasses jc (w_root w) (w_files w) job (pageFn (int limit) (int (k * limit)) mat (\<lambda>pn r acc. acc @ [?g (pn, r)])) passes (page_state (k * limit) ?g []))"
      by (simp add: page_def scanJournal_def page_state_def)
    also have "\<dots> = Inr (length found > k * limit + limit, take limit (drop (k * limit) found))"
      by (subst scanPasses_pages [OF rd]) (auto simp: Let_def found page_state_def full_page_def take_map drop_map)
    finally show ?thesis .
  qed
  have "(\<lambda>k. case page k of Inl _ \<Rightarrow> [] | Inr p \<Rightarrow> snd p) = (\<lambda>k. take limit (drop (k * limit) found))" by (simp add: page fun_eq_iff)
  then show ?thesis using page concat_pages by metis
qed

theorem journal_pages_witness:
  "scanJournal (sample_jc sample_record) ''/j'' (w_files sample_journal) 1 [1] 1 0 (\<lambda>_. True) (\<lambda>pn r acc. acc @ [(pn, jr_RelPath r)]) [] = Inr (True, [(1, ''x'')]) \<and>
   scanJournal (sample_jc sample_record) ''/j'' (w_files sample_journal) 1 [1] 1 1 (\<lambda>_. True) (\<lambda>pn r acc. acc @ [(pn, jr_RelPath r)]) [] = Inr (False, [(1, ''x'')])"
proof -
  let ?jc = "sample_jc sample_record"
  have ok: "list_all (entry_ok ?jc) (sample_entries sample_record (1, 1))" using sample_entry_ok by (simp add: sample_entries_def)
  have "\<forall>pn \<in> set [1]. 0 \<le> pn \<and> segments_named sample_journal 1 pn \<and> list_all (entry_ok ?jc) (sample_entries sample_record (1, pn))"
    using ok sample_named(1) by simp
  note p = journal_pages [OF sample_refines [of sample_record] _ this, where g = "\<lambda>pn r. (pn, jr_RelPath r)" and mat = "\<lambda>_. True" and limit = 1]
  show ?thesis using p [of 0 0] p [of 1 0] by (simp add: sample_named(2) sample_entries_def recs_def sample_record_def)
qed

text \<open>
  The two ways of summing up the journal disagree: a record that a retried shard wrote twice is counted
  once without a filter and twice with one.
\<close>

lemma filtered_summary_counts_repeats:
  "journal_Summary (sample_jc sample_record) ''/j'' 1 [1] (w_files sample_journal) = Inr ([(''ORPHAN'', 1)], 1)"
  "scanJournal (sample_jc sample_record) ''/j'' (w_files sample_journal) 1 [1] scanAll 0 (journalMatch ''ORPHAN'' '''')
     (\<lambda>pn r (byType, n). (bump_type (typeLabel r) byType, n + 1)) ([], 0 :: int) = Inr (False, [(''ORPHAN'', 2)], 2)"
  by code_simp+

end
