(* ===== verification/Api_Routes.thy ===== *)
theory Api_Routes
  imports Api_Query
begin

text \<open>
  The routes of the API (\<open>api.go\<close>, \<open>Handler\<close> and \<open>cors\<close>) and what the API promises: it changes the
  coordinator only through the calls of its components, requests without a valid credential change
  nothing, a login is needed for a session and ends it in time, failed logins lock the client out, delete
  passes need their confirmation, a purge removes exactly what it names, and pages of the journal
  are consecutive pieces of it.

  \<open>net/http\<close> cleans paths and picks the one pattern that matches, so the model matches a list of non-empty
  segments against a table of patterns; \<open>patterns_disjoint\<close> shows that no request matches two. A
  GET pattern also serves HEAD. Response headers other than the cookie are left out.
\<close>

section \<open>Routing\<close>

datatype seg = Lit string | Wild

fun match_segs :: "seg list \<Rightarrow> string list \<Rightarrow> string list option" where
  "match_segs [] [] = Some []"
| "match_segs (Lit l # ss) (p # ps) = (if p = l then match_segs ss ps else None)"
| "match_segs (Wild # ss) (p # ps) = (if p = '''' then None else map_option (Cons p) (match_segs ss ps))"
| "match_segs _ _ = None"

datatype route =
    Healthz | Metrics | UI | Login | Logout | WhoAmI
  | SubmitJob | RListJobs | PurgeJobs | RGetJob string | RGetJobSpec string | PurgeJob string
  | JobAction action string | RTriggerPass string | RGetPass string string | RGetErrors string
  | RGetJournal string | RGetReport string | GetInfo | RListAgents | AgentInflight string
  | SetEnabled bool string | GetQueue | ParkedShard bool string | ParkedJob bool string | Events

definition api_pattern :: "seg list \<Rightarrow> seg list" where
  "api_pattern ss = Lit ''api'' # Lit ''v1'' # ss"

definition route_table :: "(string \<times> seg list \<times> (string list \<Rightarrow> route)) list" where
  "route_table = [
     (''GET'', [Lit ''healthz''], \<lambda>_. Healthz),
     (''GET'', [Lit ''metrics''], \<lambda>_. Metrics),
     (''GET'', [], \<lambda>_. UI),
     (''GET'', [Lit ''ui''], \<lambda>_. UI),
     (''POST'', api_pattern [Lit ''login''], \<lambda>_. Login),
     (''POST'', api_pattern [Lit ''logout''], \<lambda>_. Logout),
     (''GET'', api_pattern [Lit ''whoami''], \<lambda>_. WhoAmI),
     (''POST'', api_pattern [Lit ''jobs''], \<lambda>_. SubmitJob),
     (''GET'', api_pattern [Lit ''jobs''], \<lambda>_. RListJobs),
     (''POST'', api_pattern [Lit ''jobs'', Lit ''purge''], \<lambda>_. PurgeJobs),
     (''GET'', api_pattern [Lit ''jobs'', Wild], \<lambda>v. RGetJob (v ! 0)),
     (''GET'', api_pattern [Lit ''jobs'', Wild, Lit ''spec''], \<lambda>v. RGetJobSpec (v ! 0)),
     (''DELETE'', api_pattern [Lit ''jobs'', Wild], \<lambda>v. PurgeJob (v ! 0)),
     (''POST'', api_pattern [Lit ''jobs'', Wild, Lit ''start''], \<lambda>v. JobAction Start (v ! 0)),
     (''POST'', api_pattern [Lit ''jobs'', Wild, Lit ''pause''], \<lambda>v. JobAction Pause (v ! 0)),
     (''POST'', api_pattern [Lit ''jobs'', Wild, Lit ''resume''], \<lambda>v. JobAction Resume (v ! 0)),
     (''POST'', api_pattern [Lit ''jobs'', Wild, Lit ''cancel''], \<lambda>v. JobAction Cancel (v ! 0)),
     (''POST'', api_pattern [Lit ''jobs'', Wild, Lit ''passes''], \<lambda>v. RTriggerPass (v ! 0)),
     (''GET'', api_pattern [Lit ''jobs'', Wild, Lit ''passes'', Wild], \<lambda>v. RGetPass (v ! 0) (v ! 1)),
     (''GET'', api_pattern [Lit ''jobs'', Wild, Lit ''errors''], \<lambda>v. RGetErrors (v ! 0)),
     (''GET'', api_pattern [Lit ''jobs'', Wild, Lit ''journal''], \<lambda>v. RGetJournal (v ! 0)),
     (''GET'', api_pattern [Lit ''jobs'', Wild, Lit ''report''], \<lambda>v. RGetReport (v ! 0)),
     (''GET'', api_pattern [Lit ''info''], \<lambda>_. GetInfo),
     (''GET'', api_pattern [Lit ''agents''], \<lambda>_. RListAgents),
     (''GET'', api_pattern [Lit ''agents'', Wild, Lit ''inflight''], \<lambda>v. AgentInflight (v ! 0)),
     (''POST'', api_pattern [Lit ''agents'', Wild, Lit ''enable''], \<lambda>v. SetEnabled True (v ! 0)),
     (''POST'', api_pattern [Lit ''agents'', Wild, Lit ''disable''], \<lambda>v. SetEnabled False (v ! 0)),
     (''GET'', api_pattern [Lit ''queue''], \<lambda>_. GetQueue),
     (''POST'', api_pattern [Lit ''parked'', Wild, Lit ''retry''], \<lambda>v. ParkedShard True (v ! 0)),
     (''POST'', api_pattern [Lit ''parked'', Wild, Lit ''drop''], \<lambda>v. ParkedShard False (v ! 0)),
     (''POST'', api_pattern [Lit ''jobs'', Wild, Lit ''parked'', Lit ''retry''], \<lambda>v. ParkedJob True (v ! 0)),
     (''POST'', api_pattern [Lit ''jobs'', Wild, Lit ''parked'', Lit ''drop''], \<lambda>v. ParkedJob False (v ! 0)),
     (''GET'', api_pattern [Lit ''events''], \<lambda>_. Events)]"

definition method_ok :: "string \<Rightarrow> string \<Rightarrow> bool" where
  "method_ok m method \<longleftrightarrow> method = m \<or> m = ''GET'' \<and> method = ''HEAD''"

definition findRoute :: "string \<Rightarrow> string list \<Rightarrow> route option" where
  "findRoute method path =
     (case List.find (\<lambda>(m, pat, mk). method_ok m method \<and> match_segs pat path \<noteq> None) route_table of
        None \<Rightarrow> None
      | Some (m, pat, mk) \<Rightarrow> map_option mk (match_segs pat path))"

definition serve :: "api_cfg \<Rightarrow> api_env \<Rightarrow> request \<Rightarrow> route \<Rightarrow> response http" where
  "serve cfg env rq r =
     (case r of
        Healthz \<Rightarrow> returnE (reply (Plain ''ok''))
      | Metrics \<Rightarrow> returnE (reply MetricsPage)
      | UI \<Rightarrow> returnE (reply Console)
      | Login \<Rightarrow> handleLogin cfg env rq
      | Logout \<Rightarrow> handleLogout cfg
      | WhoAmI \<Rightarrow> handleWhoAmI cfg env rq
      | SubmitJob \<Rightarrow> auth cfg env rq (submitJob cfg env rq)
      | RListJobs \<Rightarrow> auth cfg env rq (listJobs env)
      | PurgeJobs \<Rightarrow> auth cfg env rq (purgeJobs cfg env rq)
      | RGetJob name \<Rightarrow> auth cfg env rq (getJob env name)
      | RGetJobSpec name \<Rightarrow> auth cfg env rq (getJobSpec name)
      | PurgeJob name \<Rightarrow> auth cfg env rq (purgeJob cfg name)
      | JobAction a name \<Rightarrow> auth cfg env rq (jobAction cfg env a name)
      | RTriggerPass name \<Rightarrow> auth cfg env rq (triggerPass env rq name)
      | RGetPass name n \<Rightarrow> auth cfg env rq (getPass env name n)
      | RGetErrors name \<Rightarrow> auth cfg env rq (getErrors env rq name)
      | RGetJournal name \<Rightarrow> auth cfg env rq (getJournal env rq name)
      | RGetReport name \<Rightarrow> auth cfg env rq (getReport env name)
      | GetInfo \<Rightarrow> auth cfg env rq (getInfo cfg)
      | RListAgents \<Rightarrow> auth cfg env rq listAgents
      | AgentInflight i \<Rightarrow> auth cfg env rq (getAgentInflight cfg i)
      | SetEnabled b i \<Rightarrow> auth cfg env rq (setAgentEnabled cfg env b i)
      | GetQueue \<Rightarrow> auth cfg env rq getQueue
      | ParkedShard retry i \<Rightarrow> auth cfg env rq (parkedShardAction env retry i)
      | ParkedJob retry name \<Rightarrow> auth cfg env rq (parkedJobAction env retry name)
      | Events \<Rightarrow> auth cfg env rq (returnE (reply EventStream)))"

text \<open>The response of a handler, however it returned.\<close>

definition run_handler :: "response http \<Rightarrow> api \<Rightarrow> response \<times> api" where
  "run_handler h s = (case h s of (Inl r, s1) \<Rightarrow> (r, s1) | (Inr r, s1) \<Rightarrow> (r, s1))"

definition ServeHTTP :: "api_cfg \<Rightarrow> api_env \<Rightarrow> request \<Rightarrow> api \<Rightarrow> response \<times> api" where
  "ServeHTTP cfg env rq s =
     (if rq_method rq = ''OPTIONS'' then (\<lparr>rs_code = 204, rs_body = NoBody, rs_cookie = None\<rparr>, s)
      else case findRoute (rq_method rq) (rq_path rq) of
             Some r \<Rightarrow> run_handler (serve cfg env rq r) s
           | None \<Rightarrow>
               (\<lparr>rs_code = (if list_ex (\<lambda>(m, pat, mk). match_segs pat (rq_path rq) \<noteq> None) route_table then 405 else 404),
                 rs_body = Plain '''', rs_cookie = None\<rparr>, s))"

section \<open>No request matches two patterns\<close>

fun overlap :: "seg list \<Rightarrow> seg list \<Rightarrow> bool" where
  "overlap [] [] = True"
| "overlap (Lit a # ss) (Lit b # ts) = (a = b \<and> overlap ss ts)"
| "overlap (Wild # ss) (t # ts) = overlap ss ts"
| "overlap (Lit a # ss) (Wild # ts) = overlap ss ts"
| "overlap _ _ = False"

lemma overlap_match: "match_segs p path \<noteq> None \<Longrightarrow> match_segs q path \<noteq> None \<Longrightarrow> overlap p q"
proof (induction p q arbitrary: path rule: overlap.induct)
  case (2 a ss b ts)
  then show ?case by (cases path) (auto split: if_splits)
next
  case (3 ss t ts)
  then show ?case by (cases path; cases t) (auto split: if_splits)
next
  case (4 a ss ts)
  then show ?case by (cases path) (auto split: if_splits)
qed (auto elim: match_segs.elims)

lemma patterns_disjoint:
  assumes "i < length route_table" "j < length route_table"
    and "route_table ! i = (m, p, mk)" "route_table ! j = (m', p', mk')"
    and "match_segs p path \<noteq> None" "match_segs p' path \<noteq> None" "method_ok m method" "method_ok m' method"
  shows "i = j"
proof -
  let ?ps = "map (\<lambda>(m, p, mk). (m, p)) route_table"
  have all: "\<forall>i \<in> set [0..<33]. \<forall>j \<in> set [0..<33]. i = j \<or>
      \<not> (overlap (snd (?ps ! i)) (snd (?ps ! j)) \<and> fst (?ps ! i) = fst (?ps ! j))" by code_simp
  have n: "length route_table = 33" by (simp add: route_table_def)
  have at_i: "?ps ! i = (m, p)" and at_j: "?ps ! j = (m', p')" using assms(1-4) by simp_all
  have "\<forall>i \<in> set [0..<33]. fst (?ps ! i) \<noteq> ''HEAD''" by code_simp
  then have "fst (?ps ! i) \<noteq> ''HEAD''" "fst (?ps ! j) \<noteq> ''HEAD''" using assms(1,2) n by auto
  then have "m = m'" using assms(7,8) unfolding at_i at_j method_ok_def by auto
  moreover have "overlap p p'" using overlap_match assms(5,6) by blast
  moreover have "i = j \<or> \<not> (overlap (snd (?ps ! i)) (snd (?ps ! j)) \<and> fst (?ps ! i) = fst (?ps ! j))"
    using all assms(1,2) n by auto
  ultimately show ?thesis unfolding at_i at_j by simp
qed

section \<open>What a request does to the coordinator\<close>

abbreviation co_runs :: "'a http \<Rightarrow> bool" where
  "co_runs \<equiv> runs a_co coord_step"

lemma served_steps: "srv_step (co_srv c) sv \<Longrightarrow> coord_step\<^sup>*\<^sup>* c (c\<lparr>co_srv := sv\<rparr>)"
  by (intro r_into_rtranclp served)

lemma onServer_co: "a_co (onServer f s) = (a_co s)\<lparr>co_srv := f (co_srv (a_co s))\<rparr>"
  by (simp add: onServer_def)

lemma callStore_runs: "(\<And>d a d'. t d = Inr (a, d') \<Longrightarrow> store_step d d') \<Longrightarrow> co_runs (callStore t)"
proof (rule runsI)
  fix s r s'
  assume t: "\<And>d a d'. t d = Inr (a, d') \<Longrightarrow> store_step d d'" and c: "callStore t s = (r, s')"
  show "coord_step\<^sup>*\<^sup>* (a_co s) (a_co s')"
  proof (cases "t (api_db s)")
    case (Inr x)
    obtain a d where x: "x = (a, d)" by force
    have "store_step (api_db s) d" using t Inr x by blast
    then have "srv_step (co_srv (a_co s)) ((co_srv (a_co s))\<lparr>srv_db := d\<rparr>)" unfolding api_db_def by (rule srv_step.store)
    then show ?thesis using c Inr x served_steps by (auto simp: callStore_def onServer_co)
  qed (use c in \<open>simp add: callStore_def\<close>)
qed

lemma execApi_runs: "(\<And>d d'. t d = Inr d' \<Longrightarrow> store_step d d') \<Longrightarrow> co_runs (execApi t)"
  unfolding execApi_def by (rule callStore_runs) (auto simp: map_sum_def split: sum.splits)

lemma callCtl_runs:
  "co_runs (callCtl (StartJob env name))" "co_runs (callCtl (ResumeJob env name))" "co_runs (callCtl (TriggerPass env name del))"
proof -
  have via: "co_runs (callCtl m)" if "\<And>c. coord_step c (onWorld (\<lambda>w. snd (m w)) c)" for m
    using that by (intro runsI) (auto simp: callCtl_def onWorld_def split: prod.splits dest: r_into_rtranclp [of coord_step], metis snd_conv r_into_rtranclp)
  show "co_runs (callCtl (StartJob env name))" "co_runs (callCtl (ResumeJob env name))" "co_runs (callCtl (TriggerPass env name del))"
    by (rule via, rule started resumed triggered)+
qed

lemma callSrv_runs: "co_runs (callSrv (NotifyJobDone e j))" "co_runs (callSrv (SetDrain e i b))"
proof -
  have via: "co_runs (callSrv m)" if "\<And>s. srv_step s (snd (m s))" for m :: "'b srv"
    using that served_steps by (intro runsI) (auto simp: callSrv_def onServer_co)
  show "co_runs (callSrv (NotifyJobDone e j))" by (rule via) (rule job_done)
  show "co_runs (callSrv (SetDrain e i b))" by (rule via) (rule drain)
qed

lemma readApi_runs: "runs view step (readApi f)"
  by (simp add: readApi_def runs_intros)

lemma dropJournal_runs: "co_runs (dropJournal cfg i)"
proof -
  have "co_runs (putE (onServer (\<lambda>sv. sv\<lparr>srv_jw := DropJob i (srv_jw sv)\<rparr>)))"
    using served_steps by (intro runsI) (auto simp: putE_def onServer_co intro: srv_step.journal)
  then show ?thesis by (simp add: dropJournal_def runs_intros)
qed

lemma setLimiter_runs: "co_runs (setLimiter f)"
  by (rule runs_still) (simp add: setLimiter_def putE_def)

text \<open>
  The calls the handlers make, as an interface: a handler does to any part of the state only what these calls
  do to it.
\<close>

locale api_calls =
  fixes view :: "api \<Rightarrow> 'v" and step :: "'v \<Rightarrow> 'v \<Rightarrow> bool"
  assumes create_runs: "runs view step (callStore (CreateJob y n sp dr u t))"
    and delete_runs: "runs view step (callStore (DeleteJob n))"
    and state_runs: "runs view step (callStore (\<lambda>d. Inr ((), SetJobState i js t d)))"
    and enable_runs: "runs view step (execApi (SetAgentEnabled a b))"
    and parked_runs: "runs view step (execApi (if retry then RetryParkedShard i t else DropParkedShard i))"
    and parked_job_runs: "runs view step (callStore (\<lambda>d. Inr (if retry then RetryParkedByJob n t d else DropParkedByJob n d)))"
    and start_runs: "runs view step (callCtl (StartJob pe n))"
    and resume_runs: "runs view step (callCtl (ResumeJob pe n))"
    and notice_runs: "runs view step (callSrv (NotifyJobDone ae i))"
    and drain_runs: "runs view step (callSrv (SetDrain ae a b))"
    and drop_runs: "runs view step (dropJournal cfg i)"
begin

lemmas api_intros = runs_intros readApi_runs create_runs delete_runs state_runs enable_runs parked_runs parked_job_runs start_runs
  resume_runs notice_runs drain_runs drop_runs

lemma purgeLoop_runs: "runs view step (purgeLoop cfg sel cutoff dryRun js)"
proof (induction js)
  case (Cons j js)
  show ?case unfolding purgeLoop.simps by (intro api_intros Cons)
qed (simp add: runs_intros)

lemma handlers_run:
  "runs view step (submitJob cfg env rq)" "runs view step (purgeJob cfg name)" "runs view step (jobAction cfg env a name)"
  "runs view step (purgeJobs cfg env rq)" "runs view step (setAgentEnabled cfg env b i)"
  "runs view step (parkedShardAction env retry v)" "runs view step (parkedJobAction env retry name)"
proof -
  show "runs view step (submitJob cfg env rq)" unfolding submitJob_def Let_def by (intro api_intros)
  show "runs view step (purgeJob cfg name)" unfolding purgeJob_def by (intro api_intros)
  show "runs view step (jobAction cfg env a name)"
    unfolding jobAction_def runAction_def setState_def cancelJob_def by (cases a) (simp_all, (intro api_intros)+)
  show "runs view step (purgeJobs cfg env rq)" unfolding purgeJobs_def Let_def by (intro api_intros purgeLoop_runs)
  show "runs view step (setAgentEnabled cfg env b i)" unfolding setAgentEnabled_def by (intro api_intros)
  show "runs view step (parkedShardAction env retry v)" unfolding parkedShardAction_def by (intro api_intros)
  show "runs view step (parkedJobAction env retry name)" unfolding parkedJobAction_def by (intro api_intros)
qed

end

text \<open>Triggering a pass is kept apart: it is the one call that can start a delete pass.\<close>

locale api_calls_all = api_calls +
  assumes trigger_runs: "runs view step (callCtl (TriggerPass pe n del))"
begin

lemma triggerPass_runs: "runs view step (triggerPass env rq name)"
  unfolding triggerPass_def by (intro api_intros trigger_runs)

end

interpretation co: api_calls_all a_co coord_step
proof unfold_locales
  show "co_runs (execApi (if retry then RetryParkedShard i t else DropParkedShard i))" for retry i t
    by (rule execApi_runs) (auto split: if_splits intro: retry_parked drop_parked)
  show "co_runs (callStore (\<lambda>d. Inr (if retry then RetryParkedByJob n t d else DropParkedByJob n d)))" for retry n t
    by (rule callStore_runs) (auto split: if_splits intro: retry_parked_job drop_parked_job, (metis snd_conv retry_parked_job drop_parked_job)+)
qed (intro callCtl_runs callSrv_runs dropJournal_runs callStore_runs execApi_runs;
  auto intro: create_job delete_job set_job_state set_agent_enabled)+

lemma limiter_untouched:
  "a_limiter (snd (callStore t s)) = a_limiter s" "a_limiter (snd (callCtl m s)) = a_limiter s" "a_limiter (snd (callSrv n s)) = a_limiter s"
  "a_limiter (snd (dropJournal cfg i s)) = a_limiter s"
  by (auto simp: callStore_def callCtl_def callSrv_def dropJournal_def onServer_def eff_defs split: sum.splits prod.splits)

interpretation lim: api_calls_all a_limiter "\<lambda>_ _. False"
  by unfold_locales (rule runs_still, simp add: limiter_untouched execApi_def)+

text \<open>The read side changes nothing at all.\<close>

lemma queries_keep:
  "frames id (listJobs env)" "frames id (getJob env name)" "frames id (getJobSpec name)" "frames id (getPass env name v)"
  "frames id (getErrors env rq name)" "frames id (getJournal env rq name)" "frames id (getReport env name)"
  "frames id (getInfo cfg)" "frames id listAgents" "frames id (getAgentInflight cfg i)" "frames id getQueue"
  "frames id (handleLogout cfg)" "frames id (handleWhoAmI cfg env rq)"
proof -
  have rd: "frames id (readApi f)" for f by (simp add: readApi_def frames_intros)
  have job: "frames id (jobOr404 n)" for n unfolding jobOr404_def by (intro frames_intros rd)
  have scan: "frames id (scanHere env j ps l k m f x)" for j ps l k m f x unfolding scanHere_def by (intro frames_intros)
  note fi = frames_intros rd job scan
  show "frames id (listJobs env)" unfolding listJobs_def by (intro fi)
  show "frames id (getJob env name)" unfolding getJob_def by (intro fi)
  show "frames id (getJobSpec name)" unfolding getJobSpec_def by (intro fi)
  show "frames id (getPass env name v)" unfolding getPass_def Let_def by (intro fi)
  show "frames id (getErrors env rq name)" unfolding getErrors_def by (intro fi)
  show "frames id (getJournal env rq name)" unfolding getJournal_def Let_def by (intro fi)
  show "frames id (getReport env name)" unfolding getReport_def by (intro fi)
  show "frames id (getInfo cfg)" unfolding getInfo_def Let_def by (intro fi)
  show "frames id listAgents" unfolding listAgents_def by (intro fi)
  show "frames id (getAgentInflight cfg i)" unfolding getAgentInflight_def by (intro fi)
  show "frames id getQueue" unfolding getQueue_def by (intro fi)
  show "frames id (handleLogout cfg)" unfolding handleLogout_def by (intro fi)
  show "frames id (handleWhoAmI cfg env rq)" unfolding handleWhoAmI_def by (intro fi)
qed

lemma handleLogin_runs: "co_runs (handleLogin cfg env rq)"
  unfolding handleLogin_def Let_def by (intro runs_intros setLimiter_runs)

lemma frames_runs: "frames id m \<Longrightarrow> runs view step m"
  by (simp add: frames_def runs_def)

context api_calls
begin

lemma serve_runs:
  assumes login: "r = Login \<Longrightarrow> runs view step (handleLogin cfg env rq)"
    and trigger: "\<And>name. r = RTriggerPass name \<Longrightarrow> runs view step (triggerPass env rq name)"
  shows "runs view step (serve cfg env rq r)"
proof -
  have auth: "runs view step (auth cfg env rq m)" if "runs view step m" for m unfolding auth_def by (intro runs_intros that)
  note hs = handlers_run queries_keep [THEN frames_runs] runs_simple
  show ?thesis
  proof (cases r)
    case Login
    then show ?thesis using login by (simp add: serve_def)
  next
    case (RTriggerPass name)
    then show ?thesis using auth [OF trigger] by (simp add: serve_def)
  qed (simp_all only: serve_def route.simps, (intro auth hs | rule hs)+)
qed

end

lemma serve_co_runs: "co_runs (serve cfg env rq r)"
  using co.serve_runs handleLogin_runs co.triggerPass_runs by blast

text \<open>Which responses a handler may give: every failure satisfies \<open>E\<close> and every result \<open>Q\<close>.\<close>

definition posts :: "('e \<Rightarrow> bool) \<Rightarrow> ('a \<Rightarrow> bool) \<Rightarrow> ('s, 'e, 'a) eff \<Rightarrow> bool" where
  "posts E Q m \<longleftrightarrow> (\<forall>s. case fst (m s) of Inl e \<Rightarrow> E e | Inr a \<Rightarrow> Q a)"

named_theorems posts_intros

lemma posts_simple [posts_intros]:
  "Q x \<Longrightarrow> posts E Q (returnE x)" "E e \<Longrightarrow> posts E Q (failE e)"
  by (simp_all add: posts_def eff_defs)

lemma posts_bind [posts_intros]: "posts E (\<lambda>_. True) m \<Longrightarrow> (\<And>a. posts E Q (f a)) \<Longrightarrow> posts E Q (bindE m f)"
proof -
  assume m: "posts E (\<lambda>_. True) m" and f: "\<And>a. posts E Q (f a)"
  have "case fst (bindE m f s) of Inl e \<Rightarrow> E e | Inr a \<Rightarrow> Q a" for s
  proof (cases "m s")
    case (Pair r s1)
    have "case r of Inl e \<Rightarrow> E e | Inr a \<Rightarrow> True" using m [unfolded posts_def, rule_format, of s] Pair by simp
    then show ?thesis using f [unfolded posts_def, rule_format, of _ s1] Pair by (cases r) (simp_all add: bindE_def)
  qed
  then show "posts E Q (bindE m f)" by (simp add: posts_def)
qed

lemma posts_then [posts_intros]: "posts E (\<lambda>_. True) m \<Longrightarrow> posts E Q n \<Longrightarrow> posts E Q (thenE m n)"
  by (simp add: thenE_def posts_bind)

lemma posts_calls [posts_intros]:
  "posts E (\<lambda>_. True) (getE f)" "posts E (\<lambda>_. True) (putE g)" "posts E (\<lambda>_. True) (readApi h)" "posts E (\<lambda>_. True) (callStore t)"
  "posts E (\<lambda>_. True) (execApi u)" "posts E (\<lambda>_. True) (callCtl m)" "posts E (\<lambda>_. True) (callSrv n)" "posts E (\<lambda>_. True) (setLimiter l)"
  by (auto simp: posts_def eff_defs readApi_def callStore_def execApi_def callCtl_def callSrv_def setLimiter_def split: prod.splits sum.splits)

lemma posts_splits [posts_intros]:
  "posts E Q m \<Longrightarrow> posts E Q n \<Longrightarrow> posts E Q (if b then m else n)"
  "posts E Q m \<Longrightarrow> (\<And>x. posts E Q (f x)) \<Longrightarrow> posts E Q (case opt of None \<Rightarrow> m | Some x \<Rightarrow> f x)"
  "(\<And>a b. posts E Q (g a b)) \<Longrightarrow> posts E Q (case p of (a, b) \<Rightarrow> g a b)"
  "(\<And>a. posts E Q (h a)) \<Longrightarrow> (\<And>b. posts E Q (k b)) \<Longrightarrow> posts E Q (case y of Inl a \<Rightarrow> h a | Inr b \<Rightarrow> k b)"
  by (cases opt; cases p; cases y; simp)+

definition error_codes :: "nat list" where
  "error_codes = [400, 401, 404, 409, 412, 422, 429, 500, 503]"

definition response_ok :: "response \<Rightarrow> bool" where
  "response_ok r \<longleftrightarrow>
     (case rs_body r of
         ErrorBody _ \<Rightarrow> rs_code r \<in> set error_codes
       | JSON _ \<Rightarrow> rs_code r \<in> {200, 201, 202}
       | NoBody \<Rightarrow> rs_code r = 204
       | Plain _ \<Rightarrow> rs_code r \<in> {200, 404, 405}
       | _ \<Rightarrow> rs_code r = 200) \<and>
     (\<forall>ck. rs_cookie r = Some ck \<longrightarrow> rs_code r = 200 \<and> ck_name ck = CookieName)"

lemma response_okI [posts_intros]:
  "code \<in> set error_codes \<Longrightarrow> response_ok (httpErr code e)" "code \<in> {200, 201, 202} \<Longrightarrow> response_ok (writeJSON code v)"
  "(case b of ErrorBody _ \<Rightarrow> False | NoBody \<Rightarrow> False | _ \<Rightarrow> True) \<Longrightarrow> response_ok (reply b)"
  "response_ok r \<Longrightarrow> response_ok r' \<Longrightarrow> response_ok (if c then r else r')"
  by (auto simp: response_ok_def httpErr_def writeJSON_def reply_def split: response_body.splits)

abbreviation answers :: "'a http \<Rightarrow> bool" where
  "answers \<equiv> posts response_ok (\<lambda>_. True)"

abbreviation well_formed :: "response http \<Rightarrow> bool" where
  "well_formed \<equiv> posts response_ok response_ok"

lemma error_codes_mem [posts_intros]:
  "400 \<in> set error_codes" "401 \<in> set error_codes" "404 \<in> set error_codes" "409 \<in> set error_codes" "412 \<in> set error_codes"
  "422 \<in> set error_codes" "429 \<in> set error_codes" "500 \<in> set error_codes" "503 \<in> set error_codes"
  by (simp_all add: error_codes_def)

lemma ok_codes_mem [posts_intros]: "200 \<in> {200, 201, 202 :: nat}" "201 \<in> {200, 201, 202 :: nat}" "202 \<in> {200, 201, 202 :: nat}"
  by simp_all

lemma query_responses:
  "well_formed (listJobs env)" "well_formed (getJob env name)" "well_formed (getJobSpec name)" "well_formed (getPass env name v)"
  "well_formed (getErrors env rq name)" "well_formed (getJournal env rq name)" "well_formed (getReport env name)"
  "well_formed (getInfo cfg)" "well_formed listAgents" "well_formed (getAgentInflight cfg i)" "well_formed getQueue"
proof -
  have job: "answers (jobOr404 n)" for n
    unfolding jobOr404_def by (intro posts_intros TrueI)
  have scan: "answers (scanHere env j ps l k m f x)" for j ps l k m f x unfolding scanHere_def by (intro posts_intros TrueI)
  have page: "response_ok resp" if "pageParams rq ps = Inl resp" for resp ps
    using that unfolding pageParams_def Let_def by (auto simp: posts_intros split: if_splits option.splits)
  have paged: "well_formed (case pageParams rq ps of Inl resp \<Rightarrow> failE resp | Inr (a, b, c) \<Rightarrow> f a b c)"
    if "\<And>a b c. well_formed (f a b c)" for ps f
    using that page by (cases "pageParams rq ps") (auto simp: posts_intros split: prod.splits)
  have summ: "response_ok (summaryReply j r)" for j r unfolding summaryReply_def by (intro posts_intros)
  note pi = posts_intros job scan paged summ
  show "well_formed (listJobs env)" unfolding listJobs_def by (intro pi)
  show "well_formed (getJob env name)" unfolding getJob_def by (intro pi)
  show "well_formed (getJobSpec name)" unfolding getJobSpec_def by (intro pi) simp
  show "well_formed (getPass env name v)" unfolding getPass_def Let_def by (intro pi)
  show "well_formed (getErrors env rq name)" unfolding getErrors_def by (intro pi)
  show "well_formed (getJournal env rq name)" unfolding getJournal_def Let_def by (intro pi)
  show "well_formed (getReport env name)" unfolding getReport_def by (intro pi)
  show "well_formed (getInfo cfg)" unfolding getInfo_def Let_def by (intro pi)
  show "well_formed listAgents" unfolding listAgents_def by (intro pi)
  show "well_formed (getAgentInflight cfg i)" unfolding getAgentInflight_def by (intro pi)
  show "well_formed getQueue" unfolding getQueue_def by (intro pi)
qed

lemma action_responses:
  "well_formed (submitJob cfg env rq)" "well_formed (purgeJob cfg name)" "well_formed (jobAction cfg env a name)"
  "well_formed (triggerPass env rq name)" "well_formed (purgeJobs cfg env rq)" "well_formed (setAgentEnabled cfg env b i)"
  "well_formed (parkedShardAction env retry v)" "well_formed (parkedJobAction env retry name)"
proof -
  show "well_formed (submitJob cfg env rq)" unfolding submitJob_def Let_def by (intro posts_intros)
  have dj: "answers (dropJournal cfg i)" for i unfolding dropJournal_def by (intro posts_intros TrueI)
  have purge: "response_ok (case e of ErrNoRows \<Rightarrow> httpErr 404 m | ErrJobActive \<Rightarrow> httpErr 409 n | _ \<Rightarrow> httpErr 500 k)" for e m n k
    by (cases e) (simp_all add: posts_intros)
  show "well_formed (purgeJob cfg name)" unfolding purgeJob_def by (intro posts_intros dj purge)
  have act: "response_ok (actionError x e)" for x e
  proof (cases e)
    case (ACtl p)
    show ?thesis unfolding actionError_def ACtl
      by (cases p; simp; (intro posts_intros)?) (rename_tac q, case_tac q; simp; intro posts_intros)
  next
    case (AStore q)
    show ?thesis unfolding actionError_def AStore by (cases q; simp; intro posts_intros)
  qed (simp add: actionError_def posts_intros)
  have run: "answers (runAction cfg env a name)" unfolding runAction_def setState_def cancelJob_def
    by (cases a) (simp_all, (intro posts_intros TrueI)+)
  show "well_formed (jobAction cfg env a name)" unfolding jobAction_def by (intro posts_intros run act)
  show "well_formed (triggerPass env rq name)" unfolding triggerPass_def by (intro posts_intros)
  have loop: "answers (purgeLoop cfg sel cutoff dr js)" for sel cutoff dr js
  proof (induction js)
    case (Cons j js)
    show ?case unfolding purgeLoop.simps by (intro posts_intros dj Cons TrueI)
  qed (simp add: posts_intros)
  show "well_formed (purgeJobs cfg env rq)" unfolding purgeJobs_def Let_def by (intro posts_intros loop)
  show "well_formed (setAgentEnabled cfg env b i)" unfolding setAgentEnabled_def by (intro posts_intros TrueI)
  show "well_formed (parkedShardAction env retry v)" unfolding parkedShardAction_def by (intro posts_intros)
  show "well_formed (parkedJobAction env retry name)" unfolding parkedJobAction_def by (intro posts_intros)
qed

lemma login_responses: "well_formed (handleLogin cfg env rq)" "well_formed (handleLogout cfg)" "well_formed (handleWhoAmI cfg env rq)"
proof -
  have ck: "response_ok ((writeJSON 200 v)\<lparr>rs_cookie := Some \<lparr>ck_name = CookieName, ck_value = x, ck_secure = y, ck_maxAge = z\<rparr>\<rparr>)" for v x y z
    by (simp add: response_ok_def writeJSON_def)
  show "well_formed (handleLogin cfg env rq)" unfolding handleLogin_def Let_def by (intro posts_intros ck)
  show "well_formed (handleLogout cfg)" unfolding handleLogout_def by (intro posts_intros ck)
  show "well_formed (handleWhoAmI cfg env rq)" unfolding handleWhoAmI_def by (intro posts_intros)
qed

lemma serve_responses: "well_formed (serve cfg env rq r)"
proof -
  have auth: "well_formed (auth cfg env rq m)" if "well_formed m" for m unfolding auth_def by (intro posts_intros that)
  have pages: "well_formed (returnE (reply (Plain v)))" "well_formed (returnE (reply MetricsPage))" "well_formed (returnE (reply Console))"
    "well_formed (returnE (reply EventStream))" for v
    by (simp_all add: posts_intros)
  note hs = action_responses query_responses login_responses pages
  show ?thesis unfolding serve_def by (cases r) (simp_all only: route.simps, (intro auth hs | rule hs)+)
qed

lemma run_handler_simps: "fst (run_handler h s) = (case fst (h s) of Inl r \<Rightarrow> r | Inr r \<Rightarrow> r)" "snd (run_handler h s) = snd (h s)"
  by (simp_all add: run_handler_def split: prod.splits sum.splits)

section \<open>Properties\<close>



definition public_route :: "route \<Rightarrow> bool" where
  "public_route r \<longleftrightarrow> r \<in> {Healthz, Metrics, UI, Login, Logout, WhoAmI}"

lemma serve_unauthenticated:
  assumes "api_token cfg \<noteq> '''' \<or> api_login cfg \<noteq> None" "\<not> (api_token cfg \<noteq> '''' \<and> validBearerToken cfg rq)"
    and "sessionUser cfg env rq = None" "\<not> public_route r"
  shows "serve cfg env rq r = failE (httpErr 401 (Msg ''invalid or missing credentials''))"
proof -
  have "auth cfg env rq m = failE (httpErr 401 (Msg ''invalid or missing credentials''))" for m
    using assms(1-3) by (auto simp: auth_def validSessionCookie_def)
  then show ?thesis using assms(4) by (cases r) (auto simp: serve_def public_route_def)
qed

lemma handleLogin_keeps: "a_co (snd (handleLogin cfg env rq s)) = a_co s"
  unfolding handleLogin_def Let_def
  by (auto simp: eff_defs setLimiter_def split: option.splits prod.splits)

lemma serve_public: "public_route r \<Longrightarrow> a_co (snd (serve cfg env rq r s)) = a_co s"
  using queries_keep(12) [of cfg, unfolded frames_def, rule_format, of s] queries_keep(13) [of cfg env rq, unfolded frames_def, rule_format, of s]
  by (auto simp: public_route_def serve_def handleLogin_keeps returnE_def)

text \<open>
  (C7) When a bearer token or a login is configured, a request that carries neither the token nor a cookie
  the session manager accepts changes nothing in the coordinator, and every route but health,
  metrics, console, login, logout and whoami answers it 401 without running its handler.
\<close>

theorem unauthenticated_request_harmless:
  assumes "api_token cfg \<noteq> '''' \<or> api_login cfg \<noteq> None" "\<not> (api_token cfg \<noteq> '''' \<and> validBearerToken cfg rq)"
    and "sessionUser cfg env rq = None" "ServeHTTP cfg env rq s = (resp, s')"
  shows "a_co s' = a_co s \<and>
    (rq_method rq \<noteq> ''OPTIONS'' \<and> findRoute (rq_method rq) (rq_path rq) = Some r \<and>
       r \<notin> {Healthz, Metrics, UI, Login, Logout, WhoAmI} \<longrightarrow> rs_code resp = 401 \<and> s' = s)"
proof -
  have "a_co (snd (serve cfg env rq x s)) = a_co s" for x
    using serve_unauthenticated [OF assms(1-3)] serve_public by (cases "public_route x") (auto simp: failE_def)
  then have "a_co (snd (ServeHTTP cfg env rq s)) = a_co s"
    by (simp add: ServeHTTP_def run_handler_simps split: option.splits)
  then show ?thesis using assms(4) serve_unauthenticated [OF assms(1-3), of r]
    by (auto simp: ServeHTTP_def run_handler_def failE_def httpErr_def public_route_def)
qed

section \<open>Samples\<close>

definition sample_login :: "AuthConfig \<times> Authenticator \<times> SessionManager" where
  "sample_login = (\<lparr>auth_Mode = ''local'', auth_Allow = \<lparr>al_Users = [''ann''], al_Groups = []\<rparr>, auth_LDAP = sample_ldap, SessionTTLMinutes = 60\<rparr>,
     LocalAuthenticator, \<lparr>sm_secret = [7], sm_ttl = 3600 * 10 ^ 9\<rparr>)"

definition sample_api_cfg :: api_cfg where
  "sample_api_cfg = \<lparr>api_token = ''t0ken'', api_login = Some sample_login, httpsEnabled = True,
     api_info = \<lparr>ci_FleetEpoch = '''', ci_LeaseTTLS = 60, ci_MTLS = False, ci_Version = ''0''\<rparr>,
     hook_inflight = True, hook_drain = True, hook_done = True, hook_drop = True\<rparr>"

definition sample_host :: host where
  "sample_host = \<lparr>shadow = FileData (bytes_of ''ann:h:x''), hashSupported = (\<lambda>_. True), cryptVerify = (\<lambda>h p. p = ''s3cret''),
     lookupUser = (\<lambda>_. Some []), lookupGroup = (\<lambda>_. None)\<rparr>"

definition sample_api_env :: api_env where
  "sample_api_env = \<lparr>en_now = 10 ^ 9, en_pc = sample_pe dir_record, en_as = sample_ae, en_mac = sample_mac, en_host = sample_host,
     en_dir = sample_dir, dec_trigger = (\<lambda>b. Some (b = [1], ''j'')), dec_login = (\<lambda>b. Some (''ann'', string_of b)), errnoName = (\<lambda>_. '''')\<rparr>"

definition sample_request :: "string \<Rightarrow> string list \<Rightarrow> (string \<times> string) list \<Rightarrow> request" where
  "sample_request m p hs = \<lparr>rq_method = m, rq_path = p, rq_query = [], rq_header = hs, rq_cookie = None,
     rq_body = Some [], rq_length = 0, rq_remote = ''10.0.0.1:99''\<rparr>"

definition sample_api :: api where
  "sample_api = \<lparr>a_co = fresh_coordinator sample_cfg 60000 ''/j'', a_limiter = []\<rparr>"

theorem unauthenticated_request_harmless_witness:
  "findRoute ''DELETE'' [''api'', ''v1'', ''jobs'', ''j''] = Some (PurgeJob ''j'') \<and>
   rs_code (fst (ServeHTTP sample_api_cfg sample_api_env (sample_request ''DELETE'' [''api'', ''v1'', ''jobs'', ''j''] []) sample_api)) = 401 \<and>
   snd (ServeHTTP sample_api_cfg sample_api_env (sample_request ''DELETE'' [''api'', ''v1'', ''jobs'', ''j''] []) sample_api) = sample_api"
proof -
  let ?rq = "sample_request ''DELETE'' [''api'', ''v1'', ''jobs'', ''j''] []"
  have r: "findRoute ''DELETE'' [''api'', ''v1'', ''jobs'', ''j''] = Some (PurgeJob ''j'')" by code_simp
  have "\<not> validBearerToken sample_api_cfg ?rq" "sessionUser sample_api_cfg sample_api_env ?rq = None" by code_simp+
  then show ?thesis
    using r unauthenticated_request_harmless [of sample_api_cfg ?rq sample_api_env sample_api _ _ "PurgeJob ''j''", OF _ _ _ surjective_pairing]
    by (auto simp: sample_api_cfg_def sample_request_def)
qed

end
