(* ===== verification/Api_Safety.thy ===== *)
theory Api_Safety
  imports Api_Routes
begin

text \<open>
  What the API promises its operators: a session cookie is only given for an accepted and allowed account and
  authenticates that name until it expires, a client that keeps failing gets at most five guesses in
  any half minute, the daemon does not start open when it was told to be closed, a delete pass needs the
  confirmation of its job's name, and a bulk purge removes exactly the finished jobs it names.
\<close>

section \<open>Login\<close>

lemma handleLogin_cookie:
  assumes "api_login cfg = Some (acfg, auther, sm)" "run_handler (handleLogin cfg env rq) s = (resp, s')" "rs_cookie resp = Some ck"
  obtains b username password user where "rq_body rq = Some b" "dec_login env (limitReader 4096 b) = Some (username, password)"
    "limiter_allowed (en_now env) (clientIP rq) (a_limiter s)"
    "Authenticate (en_host env) (en_dir env) auther username password = Some user" "Allowed acfg user"
    "ck_value ck = Session_Issue (en_mac env) sm (en_now env) (Username user)" "s' = s\<lparr>a_limiter := recordSuccess (clientIP rq) (a_limiter s)\<rparr>"
proof -
  let ?creds = "case rq_body rq of None \<Rightarrow> None | Some b \<Rightarrow> dec_login env (limitReader 4096 b)"
  have c: "rs_cookie (httpErr n e) = None" for n e by (simp add: httpErr_def)
  obtain username password where cr: "?creds = Some (username, password)"
    using assms(2,3) by (cases ?creds) (auto simp: run_handler_def handleLogin_def assms(1) failE_def c)
  note h = assms(2) [unfolded run_handler_def handleLogin_def assms(1) option.case prod.case cr Let_def]
  have lim: "limiter_allowed (en_now env) (clientIP rq) (a_limiter s)"
    using h assms(3) by (cases "limiter_allowed (en_now env) (clientIP rq) (a_limiter s)") (auto simp: bindE_def getE_def failE_def c)
  let ?auth = "Authenticate (en_host env) (en_dir env) auther username password"
  obtain user where user: "?auth = Some user"
    using h assms(3) lim by (cases ?auth) (auto simp: bindE_def getE_def failE_def thenE_def setLimiter_def putE_def c)
  have al: "Allowed acfg user"
    using h assms(3) lim user by (cases "Allowed acfg user") (auto simp: bindE_def getE_def failE_def thenE_def setLimiter_def putE_def c)
  have "ck_value ck = Session_Issue (en_mac env) sm (en_now env) (Username user) \<and> s' = s\<lparr>a_limiter := recordSuccess (clientIP rq) (a_limiter s)\<rparr>"
    using h assms(3) lim user al by (auto simp: bindE_def getE_def returnE_def thenE_def setLimiter_def putE_def)
  then show ?thesis using that cr lim user al by (auto split: option.splits)
qed

lemma handleLogin_success:
  assumes "api_login cfg = Some (acfg, auther, sm)" "rq_body rq = Some b" "dec_login env (limitReader 4096 b) = Some (username, password)"
    and "limiter_allowed (en_now env) (clientIP rq) (a_limiter s)"
    and "Authenticate (en_host env) (en_dir env) auther username password = Some user" "Allowed acfg user"
  shows "rs_cookie (fst (run_handler (handleLogin cfg env rq) s)) \<noteq> None"
  using assms by (simp add: handleLogin_def run_handler_def eff_defs setLimiter_def Let_def)

text \<open>
  (C23) Logging in: a session cookie is only given for a name and password the configured
  authenticator accepts, an account the allow list lets in and a client that is not locked out; sent back, it
  identifies the request as that account's until the session's lifetime is over and not after.
\<close>

theorem login_gives_session:
  assumes "api_login cfg = Some (acfg, auther, sm)" "run_handler (handleLogin cfg env rq) s = (resp, s')" "rs_cookie resp = Some ck"
    and "- (2 ^ 63) \<le> Unix (en_now env + sm_ttl sm)" "Unix (en_now env + sm_ttl sm) < 2 ^ 63"
  shows "\<exists>b username password user. rq_body rq = Some b \<and> dec_login env (limitReader 4096 b) = Some (username, password) \<and>
    Authenticate (en_host env) (en_dir env) auther username password = Some user \<and>
    (Username user \<in> set (al_Users (auth_Allow acfg)) \<or> set (Groups user) \<inter> set (al_Groups (auth_Allow acfg)) \<noteq> {}) \<and>
    limiter_allowed (en_now env) (clientIP rq) (a_limiter s) \<and>
    (\<forall>t rq'. sessionUser cfg (env\<lparr>en_now := t\<rparr>) (rq'\<lparr>rq_cookie := Some (ck_value ck)\<rparr>) =
       (if Unix t \<le> Unix (en_now env + sm_ttl sm) then Some (Username user) else None))"
proof -
  obtain b username password user where h: "rq_body rq = Some b" "dec_login env (limitReader 4096 b) = Some (username, password)"
      "limiter_allowed (en_now env) (clientIP rq) (a_limiter s)" "Authenticate (en_host env) (en_dir env) auther username password = Some user"
      "Allowed acfg user" "ck_value ck = Session_Issue (en_mac env) sm (en_now env) (Username user)"
    by (rule handleLogin_cookie [OF assms(1-3)])
  have "sessionUser cfg (env\<lparr>en_now := t\<rparr>) (rq'\<lparr>rq_cookie := Some (ck_value ck)\<rparr>) =
      (if Unix t \<le> Unix (en_now env + sm_ttl sm) then Some (Username user) else None)" for t rq'
    using Session_Verify_Issue [OF refl assms(4,5)] by (simp add: sessionUser_def assms(1) h(6))
  then show ?thesis using h by (auto simp: Allowed_iff)
qed

definition login_request :: "string \<Rightarrow> string \<Rightarrow> request" where
  "login_request fwd pw = (sample_request ''POST'' [''api'', ''v1'', ''login'']
     (if fwd = '''' then [] else [(''X-Forwarded-For'', fwd)]))\<lparr>rq_body := Some (bytes_of pw)\<rparr>"

theorem login_gives_session_witness:
  "(\<exists>resp ck. fst (run_handler (handleLogin sample_api_cfg sample_api_env (login_request '''' ''s3cret'')) sample_api) = resp \<and> rs_cookie resp = Some ck \<and>
     sessionUser sample_api_cfg (sample_api_env\<lparr>en_now := 3601 * 10 ^ 9\<rparr>) ((login_request '''' '''')\<lparr>rq_cookie := Some (ck_value ck)\<rparr>) = Some ''ann'' \<and>
     sessionUser sample_api_cfg (sample_api_env\<lparr>en_now := 3602 * 10 ^ 9\<rparr>) ((login_request '''' '''')\<lparr>rq_cookie := Some (ck_value ck)\<rparr>) = None)"
proof -
  let ?h = "run_handler (handleLogin sample_api_cfg sample_api_env (login_request '''' ''s3cret'')) sample_api"
  have "Authenticate sample_host sample_dir LocalAuthenticator ''ann'' ''s3cret'' = Some \<lparr>Username = ''ann'', Groups = []\<rparr>" by code_simp
  moreover have "limitReader 4096 (bytes_of ''s3cret'') = bytes_of ''s3cret''" by (simp add: bytes_of_def)
  ultimately have "rs_cookie (fst ?h) \<noteq> None"
    by (intro handleLogin_success [of _ "fst sample_login" LocalAuthenticator _ _ "bytes_of ''s3cret''" _ "''ann''" "''s3cret''" _ "\<lparr>Username = ''ann'', Groups = []\<rparr>"])
      (simp_all add: sample_api_cfg_def sample_login_def sample_api_env_def sample_api_def login_request_def limiter_allowed_def Allowed_iff)
  then obtain ck where ck: "rs_cookie (fst ?h) = Some ck" by blast
  have sm: "api_login sample_api_cfg = Some (fst sample_login, LocalAuthenticator, \<lparr>sm_secret = [7], sm_ttl = 3600 * 10 ^ 9\<rparr>)"
    by (simp add: sample_api_cfg_def sample_login_def)
  obtain username password user where u: "Authenticate sample_host sample_dir LocalAuthenticator username password = Some user"
      "Username user \<in> set (al_Users (auth_Allow (fst sample_login))) \<or> set (Groups user) \<inter> set (al_Groups (auth_Allow (fst sample_login))) \<noteq> {}"
      "\<And>t rq'. sessionUser sample_api_cfg (sample_api_env\<lparr>en_now := t\<rparr>) (rq'\<lparr>rq_cookie := Some (ck_value ck)\<rparr>) =
        (if Unix t \<le> Unix (10 ^ 9 + 3600 * 10 ^ 9) then Some (Username user) else None)"
    using login_gives_session [OF sm surjective_pairing ck] by (auto simp: sample_api_env_def Unix_def)
  have "Username user = ''ann''" using u(2) by (auto simp: sample_login_def)
  then show ?thesis using ck u(3) by (auto simp: Unix_def)
qed

section \<open>The failure limiter\<close>

fun serveAll :: "api_cfg \<Rightarrow> (api_env \<times> request) list \<Rightarrow> api \<Rightarrow> response list \<times> api" where
  "serveAll cfg [] s = ([], s)"
| "serveAll cfg ((env, rq) # rqs) s =
     (let (resp, s1) = ServeHTTP cfg env rq s; (resps, s2) = serveAll cfg rqs s1 in (resp # resps, s2))"

definition is_login :: "request \<Rightarrow> bool" where
  "is_login rq \<longleftrightarrow> rq_method rq \<noteq> ''OPTIONS'' \<and> findRoute (rq_method rq) (rq_path rq) = Some Login"

definition limiter_ok :: "loginLimiter \<Rightarrow> bool" where
  "limiter_ok l \<longleftrightarrow> (\<forall>(k, fs) \<in> set l. 0 \<le> fs_count fs \<and> fs_count fs < maxLoginFailures)"

text \<open>How many more guesses a key has until \<open>t\<close> when none of them is right.\<close>

definition guesses_left :: "int \<Rightarrow> string \<Rightarrow> loginLimiter \<Rightarrow> int" where
  "guesses_left t k l =
     (case map_of l k of None \<Rightarrow> maxLoginFailures
      | Some fs \<Rightarrow> if fs_lockedTill fs \<ge> t then 0 else maxLoginFailures - fs_count fs)"

lemma limiter_okD: "limiter_ok l \<Longrightarrow> map_of l k = Some fs \<Longrightarrow> 0 \<le> fs_count fs \<and> fs_count fs < maxLoginFailures"
  by (auto simp: limiter_ok_def dest!: map_of_SomeD)

lemma guesses_left_bounds: "limiter_ok l \<Longrightarrow> 0 \<le> guesses_left t k l \<and> guesses_left t k l \<le> maxLoginFailures"
  using limiter_okD [of l k] by (auto simp: guesses_left_def maxLoginFailures_def split: option.splits)

lemma limiter_ok_update: "limiter_ok l \<Longrightarrow> 0 \<le> fs_count fs \<Longrightarrow> fs_count fs < maxLoginFailures \<Longrightarrow> limiter_ok (AList.update k fs l)"
  unfolding limiter_ok_def by (induction l) (auto split: if_splits)

lemma recordFailure_ok: "limiter_ok l \<Longrightarrow> limiter_ok (recordFailure now k l)"
  unfolding recordFailure_def Let_def using limiter_okD [of l k]
  by (intro limiter_ok_update) (auto simp: maxLoginFailures_def split: option.splits)

lemma recordSuccess_ok: "limiter_ok l \<Longrightarrow> limiter_ok (recordSuccess k l)"
  by (auto simp: limiter_ok_def recordSuccess_def AList.delete_eq)

lemma map_of_recordFailure:
  "map_of (recordFailure now k l) k' = (if k' = k then map_of (recordFailure now k l) k else map_of l k')"
  by (auto simp: recordFailure_def Let_def update_conv')

text \<open>Within the window each failure costs a guess; other clients' failures cost none.\<close>

lemma guesses_left_failure:
  assumes "limiter_ok l" "t \<le> now + loginLockout" "limiter_allowed now k l" "now \<le> t"
  shows "guesses_left t k (recordFailure now k l) \<le> guesses_left t k l - 1"
proof (cases "map_of l k")
  case None
  then show ?thesis by (simp add: guesses_left_def recordFailure_def update_conv' maxLoginFailures_def zeroTime_def)
next
  case (Some fs)
  then have c: "0 \<le> fs_count fs" "fs_count fs < maxLoginFailures" using limiter_okD assms(1) by blast+
  show ?thesis
    using Some c assms(2-4) by (auto simp: guesses_left_def recordFailure_def update_conv' Let_def maxLoginFailures_def limiter_allowed_def)
qed

lemma guesses_left_other: "k' \<noteq> k \<Longrightarrow> guesses_left t k (recordFailure now k' l) = guesses_left t k l"
  using map_of_recordFailure [of now k' l k] by (simp add: guesses_left_def)

lemma guesses_left_success: "k' \<noteq> k \<Longrightarrow> guesses_left t k (recordSuccess k' l) = guesses_left t k l"
  by (simp add: guesses_left_def recordSuccess_def delete_conv')

text \<open>What one request does to the limiter.\<close>

lemma login_limiter:
  assumes "is_login rq" "ServeHTTP cfg env rq s = (resp, s')"
  shows "(rs_code resp = 401 \<and> rs_cookie resp = None \<and> limiter_allowed (en_now env) (clientIP rq) (a_limiter s) \<and>
      a_limiter s' = recordFailure (en_now env) (clientIP rq) (a_limiter s)) \<or>
    (rs_code resp = 200 \<and> rs_cookie resp \<noteq> None \<and> a_limiter s' = recordSuccess (clientIP rq) (a_limiter s)) \<or>
    (rs_code resp \<in> {400, 404, 429} \<and> rs_cookie resp = None \<and> a_limiter s' = a_limiter s)"
proof -
  have h: "run_handler (handleLogin cfg env rq) s = (resp, s')"
    using assms by (auto simp: is_login_def ServeHTTP_def serve_def)
  have e: "rs_code (httpErr n e) = n" "rs_cookie (httpErr n e) = None" for n e by (simp_all add: httpErr_def)
  show ?thesis
  proof (cases "api_login cfg")
    case (Some x)
    obtain acfg auther sm where x: "x = (acfg, auther, sm)" by (cases x)
    let ?creds = "case rq_body rq of None \<Rightarrow> None | Some b \<Rightarrow> dec_login env (limitReader 4096 b)"
    show ?thesis
    proof (cases ?creds)
      case None
      then show ?thesis using h by (auto simp: run_handler_def handleLogin_def Some x failE_def e)
    next
      case creds: (Some up)
      obtain u p where up: "up = (u, p)" by (cases up)
      note h' = h [unfolded run_handler_def handleLogin_def Some x option.case prod.case creds up Let_def]
      show ?thesis using h'
        by (cases "Authenticate (en_host env) (en_dir env) auther u p"; cases "limiter_allowed (en_now env) (clientIP rq) (a_limiter s)")
          (auto simp: eff_defs setLimiter_def e writeJSON_def split: if_splits)
    qed
  qed (use h in \<open>auto simp: run_handler_def handleLogin_def failE_def e\<close>)
qed

lemma other_limiter: "\<not> is_login rq \<Longrightarrow> a_limiter (snd (ServeHTTP cfg env rq s)) = a_limiter s"
proof -
  assume n: "\<not> is_login rq"
  have "a_limiter (snd (serve cfg env rq r s)) = a_limiter s" if "r \<noteq> Login" for r
  proof -
    have "(\<lambda>_ _. False)\<^sup>*\<^sup>* (a_limiter s) (a_limiter (snd (serve cfg env rq r s)))"
      using lim.serve_runs [of r cfg env rq] lim.triggerPass_runs that by (simp add: runs_def)
    then show ?thesis by (auto elim: rtranclp.cases)
  qed
  then show ?thesis using n by (auto simp: is_login_def ServeHTTP_def run_handler_simps split: option.splits)
qed

lemma limiter_ok_serve: "limiter_ok (a_limiter s) \<Longrightarrow> limiter_ok (a_limiter (snd (ServeHTTP cfg env rq s)))"
  using login_limiter [of rq cfg env s, OF _ surjective_pairing] other_limiter [of rq cfg env s] recordFailure_ok recordSuccess_ok
  by (cases "is_login rq") (force, simp)

lemma limiter_ok_serveAll: "limiter_ok (a_limiter s) \<Longrightarrow> limiter_ok (a_limiter (snd (serveAll cfg rqs s)))"
proof (induction cfg rqs s rule: serveAll.induct)
  case (2 cfg env rq rqs s)
  then show ?case using limiter_ok_serve [of s cfg env rq] by (cases "ServeHTTP cfg env rq s") (simp add: split_beta Let_def)
qed simp

lemma guesses_bounded:
  assumes "limiter_ok (a_limiter s)" "serveAll cfg rqs s = (resps, s')"
    and "\<And>env rq. (env, rq) \<in> set rqs \<Longrightarrow> en_now env \<le> t \<and> t \<le> en_now env + loginLockout"
    and "\<And>env rq resp. ((env, rq), resp) \<in> set (zip rqs resps) \<Longrightarrow> is_login rq \<Longrightarrow> clientIP rq = k \<Longrightarrow> rs_cookie resp = None"
  shows "int (length (filter (\<lambda>((env, rq), resp). is_login rq \<and> clientIP rq = k \<and> rs_code resp = 401) (zip rqs resps))) \<le> guesses_left t k (a_limiter s)"
  using assms
proof (induction rqs arbitrary: s resps)
  case Nil
  then show ?case using guesses_left_bounds by simp
next
  case (Cons x rqs)
  obtain env rq where x: "x = (env, rq)" by (cases x)
  obtain resp s1 where h: "ServeHTTP cfg env rq s = (resp, s1)" by force
  obtain rest s2 where r: "serveAll cfg rqs s1 = (rest, s2)" by force
  have resps: "resps = resp # rest" "s2 = s'" using Cons.prems(2) by (auto simp: x h r)
  have ok1: "limiter_ok (a_limiter s1)" using limiter_ok_serve [OF Cons.prems(1), of cfg env rq] h by simp
  have t: "en_now env \<le> t" "t \<le> en_now env + loginLockout" using Cons.prems(3) [of env rq] x by simp_all
  have IH: "int (length (filter (\<lambda>((env, rq), resp). is_login rq \<and> clientIP rq = k \<and> rs_code resp = 401) (zip rqs rest))) \<le> guesses_left t k (a_limiter s1)"
  proof (rule Cons.IH [OF ok1 r [unfolded resps(2)]])
    show "en_now e \<le> t \<and> t \<le> en_now e + loginLockout" if "(e, q) \<in> set rqs" for e q using Cons.prems(3) [of e q] that by simp
    show "rs_cookie a = None" if "((e, q), a) \<in> set (zip rqs rest)" "is_login q" "clientIP q = k" for e q a
      using Cons.prems(4) [of e q a] that resps(1) by simp
  qed
  have nc: "is_login rq \<Longrightarrow> clientIP rq = k \<Longrightarrow> rs_cookie resp = None" using Cons.prems(4) [of env rq resp] resps(1) x by simp
  have "guesses_left t k (a_limiter s1) + (if is_login rq \<and> clientIP rq = k \<and> rs_code resp = 401 then 1 else 0) \<le> guesses_left t k (a_limiter s)"
  proof (cases "is_login rq")
    case True
    show ?thesis
      using login_limiter [OF True h] nc [OF True] guesses_left_failure [OF Cons.prems(1) t(2) _ t(1), of k] guesses_left_other [of "clientIP rq" k]
        guesses_left_success [of "clientIP rq" k]
      by (cases "clientIP rq = k") auto
  qed (use other_limiter [of rq cfg env s] h in simp)
  then show ?case using IH by (auto simp: resps(1) x split: if_splits)
qed


definition sample_guesses :: "string list \<Rightarrow> (api_env \<times> request) list" where
  "sample_guesses fwds = map (\<lambda>f. (sample_api_env, login_request f ''wrong'')) fwds"

lemma guesses_refused:
  "map rs_code (fst (serveAll sample_api_cfg (sample_guesses (replicate 6 '''')) sample_api)) = [401, 401, 401, 401, 401, 429]"
  by code_simp


text \<open>
  The limiter's key is the first hop of \<open>X-Forwarded-For\<close>, which the client chooses: with a new value
  per attempt no attempt is ever refused.
\<close>

lemma limiter_bypassed:
  "map rs_code (fst (serveAll sample_api_cfg (sample_guesses [''1'', ''2'', ''3'', ''4'', ''5'', ''6'', ''7'']) sample_api)) = replicate 7 401"
  by code_simp

section \<open>Starting closed\<close>

text \<open>
  (C25) The daemon fails closed: when it starts, a token file that was named or is present gave a non-empty
  token from a file no group or other user may read, and a login configuration that was named or is
  present gave an authenticator and somebody it lets in; only when both default files are absent does the
  API run without credentials, and then every route is open.
\<close>

theorem startup_fails_closed:
  assumes "startApi e info https = Inr cfg"
  shows "(api_token cfg = '''' \<longleftrightarrow> se_tokenStat e = StatAbsent) \<and> (api_token cfg = '''' \<longrightarrow> se_tokenDefault e) \<and>
    (api_token cfg \<noteq> '''' \<longrightarrow> (\<exists>perm b. se_tokenStat e = StatPerm perm \<and> perm AND 63 = 0 \<and> se_tokenFile e = FileData b \<and> api_token cfg = TrimSpace (string_of b))) \<and>
    (case api_login cfg of
       None \<Rightarrow> se_authFile e = FileAbsent \<and> se_authDefault e
     | Some (c, a, sm) \<Rightarrow> authn_New c = Some a \<and> (\<exists>u. Allowed c u) \<and> sm_ttl sm = SessionTTLMinutes c * 60 * 10 ^ 9)"
proof -
  obtain l where t: "loadAPIToken (se_tokenStat e) (se_tokenFile e) (se_tokenDefault e) = Inr (api_token cfg)"
    and l: "startLogin e = Inr l" and cl: "api_login cfg = l"
    using assms by (auto simp: startApi_def split: sum.splits)
  have tok: "(api_token cfg = '''' \<longleftrightarrow> se_tokenStat e = StatAbsent) \<and> (api_token cfg = '''' \<longrightarrow> se_tokenDefault e) \<and>
    (api_token cfg \<noteq> '''' \<longrightarrow> (\<exists>perm b. se_tokenStat e = StatPerm perm \<and> perm AND 63 = 0 \<and> se_tokenFile e = FileData b \<and> api_token cfg = TrimSpace (string_of b)))"
    using t unfolding loadAPIToken_def by (auto simp: Let_def split: stat_result.splits if_splits file_read.splits)
  have "case l of
       None \<Rightarrow> se_authFile e = FileAbsent \<and> se_authDefault e
     | Some (c, a, sm) \<Rightarrow> authn_New c = Some a \<and> (\<exists>u. Allowed c u) \<and> sm_ttl sm = SessionTTLMinutes c * 60 * 10 ^ 9"
  proof (cases "LoadConfig (se_authYAML e) (se_authFile e) (se_authDefault e)")
    case (Inr co)
    show ?thesis
    proof (cases co)
      case None
      have "se_authFile e = FileAbsent \<and> se_authDefault e"
        using Inr None by (auto simp: LoadConfig_def Let_def split: file_read.splits option.splits if_splits)
      then show ?thesis using l Inr None by (auto simp: startLogin_def)
    next
      case (Some c)
      have sm: "fst (NewSessionManager r m w ttl f) = Some sm \<Longrightarrow> sm_ttl sm = ttl" for r m w ttl f sm
        by (auto simp: NewSessionManager_def split: prod.splits)
      show ?thesis using l Inr Some LoadConfig_usable [of "se_authYAML e" "se_authFile e" "se_authDefault e" c] sm
        by (auto simp: startLogin_def split: option.splits)
    qed
  qed (use l in \<open>simp add: startLogin_def\<close>)
  then show ?thesis using tok cl by simp
qed

definition sample_start :: start_env where
  "sample_start = \<lparr>se_tokenStat = StatPerm 384, se_tokenFile = FileData (bytes_of '' t0ken ''), se_tokenDefault = True,
     se_authFile = FileData [], se_authDefault = False, se_authYAML = (\<lambda>_. Some (fst sample_login)),
     se_random = None, se_mkdir = False, se_write = None, se_secret = Some (replicate 32 7)\<rparr>"

theorem startup_fails_closed_witness:
  "\<exists>cfg. startApi sample_start (api_info sample_api_cfg) True = Inr cfg \<and> api_token cfg = ''t0ken'' \<and> api_login cfg \<noteq> None"
proof -
  have "(case startApi sample_start (api_info sample_api_cfg) True of Inl _ \<Rightarrow> False | Inr cfg \<Rightarrow> api_token cfg = ''t0ken'')" by code_simp
  then obtain cfg where c: "startApi sample_start (api_info sample_api_cfg) True = Inr cfg" "api_token cfg = ''t0ken''" by (auto split: sum.splits)
  have "api_login cfg \<noteq> None" using startup_fails_closed [OF c(1)] by (cases "api_login cfg") (auto simp: sample_start_def)
  then show ?thesis using c by blast
qed

section \<open>Delete passes\<close>

definition delete_passes :: "db \<Rightarrow> pass_row set" where
  "delete_passes d = {p \<in> set (t_passes d). pass_state p = PassDelete}"

abbreviation keeps_deletes :: "(world \<Rightarrow> (pc_error + 'a) \<times> world) \<Rightarrow> bool" where
  "keeps_deletes \<equiv> runs (\<lambda>w. delete_passes (m_db w)) (\<supseteq>)"

lemma supseteq_steps: "(\<supseteq>)\<^sup>*\<^sup>* A B \<Longrightarrow> B \<subseteq> (A :: 'x set)"
  by (induction rule: rtranclp_induct) auto

lemma keepsI: "(\<And>s r s'. m s = (r, s') \<Longrightarrow> view s' \<subseteq> view s) \<Longrightarrow> runs view (\<supseteq>) m"
  by (rule runsI) blast

lemma delete_passes_inserts: "InsertShards i par now shards d = Inr (ids, d') \<Longrightarrow> delete_passes d' = delete_passes d"
  using insertShardsTx_frame(2) by (auto simp: delete_passes_def InsertShards_def)

lemma ctl_keeps:
  "st \<noteq> PassDelete \<Longrightarrow> keeps_deletes (txDB (CreatePass i n st now))" "keeps_deletes (insertShards env i shards)"
  "keeps_deletes (setJobState env i js)" "keeps_deletes (callDB f)" "keeps_deletes (destinationFree env job)"
proof -
  show "keeps_deletes (txDB (CreatePass i n st now))" if "st \<noteq> PassDelete"
    by (rule keepsI) (auto simp: txDB_def CreatePass_def Let_def delete_passes_def that split: sum.splits if_splits)
  show "keeps_deletes (insertShards env i shards)"
    by (rule keepsI) (auto simp: insertShards_def txDB_def eff_defs delete_passes_inserts split: sum.splits prod.splits)
  show "keeps_deletes (setJobState env i js)"
    by (rule keepsI) (auto simp: setJobState_def setDB_def SetJobState_def delete_passes_def)
  show call: "keeps_deletes (callDB g)" for g :: "db \<Rightarrow> store_error + 'b" by (rule runs_intros)
  show "keeps_deletes (destinationFree env job)" unfolding destinationFree_def by (intro runs_intros)
qed

lemma methods_keep: "keeps_deletes (StartJob env name)" "keeps_deletes (ResumeJob env name)" "keeps_deletes (TriggerPass env name False)"
proof -
  have seed: "keeps_deletes (seedPass env i n)" for i n unfolding seedPass_def by (intro runs_intros ctl_keeps) simp_all
  show "keeps_deletes (StartJob env name)" unfolding StartJob_def by (intro runs_intros ctl_keeps seed)
  show "keeps_deletes (ResumeJob env name)" unfolding ResumeJob_def by (intro runs_intros ctl_keeps)
  show "keeps_deletes (TriggerPass env name False)" unfolding TriggerPass_def Let_def if_False by (intro runs_intros ctl_keeps seed)
qed

lemma api_db_onServer [simp]: "api_db (onServer f s) = srv_db (f (co_srv (a_co s)))"
  by (simp add: api_db_def onServer_def)

abbreviation api_keeps :: "'a http \<Rightarrow> bool" where
  "api_keeps \<equiv> runs (\<lambda>s. delete_passes (api_db s)) (\<supseteq>)"

lemma callStore_keeps: "(\<And>d a d'. t d = Inr (a, d') \<Longrightarrow> delete_passes d' \<subseteq> delete_passes d) \<Longrightarrow> api_keeps (callStore t)"
proof (rule keepsI)
  fix s r s' assume t: "\<And>d a d'. t d = Inr (a, d') \<Longrightarrow> delete_passes d' \<subseteq> delete_passes d" and c: "callStore t s = (r, s')"
  show "delete_passes (api_db s') \<subseteq> delete_passes (api_db s)"
    using c t [of "api_db s"] by (cases "t (api_db s)") (auto simp: callStore_def split: prod.splits)
qed

lemma callCtl_keeps: "keeps_deletes m \<Longrightarrow> api_keeps (callCtl m)"
proof (rule keepsI)
  fix s r s' assume m: "keeps_deletes m" and c: "callCtl m s = (r, s')"
  obtain x w where w: "m (toWorld (a_co s)) = (x, w)" by force
  have "delete_passes (m_db w) \<subseteq> delete_passes (m_db (toWorld (a_co s)))" by (rule supseteq_steps) (rule runsD [OF m w])
  moreover have "m_db (toWorld (a_co s)) = api_db s" by (simp add: toWorld_def api_db_def)
  moreover have "api_db s' = m_db w" using c by (auto simp: callCtl_def w api_db_def fromWorld_def)
  ultimately show "delete_passes (api_db s') \<subseteq> delete_passes (api_db s)" by simp
qed

lemma frames_notices: "frames srv_db (NotifyJobDone ae i)" "frames srv_db (SetDrain ae a b)"
proof -
  have c: "frames srv_db (send ae sid f)" "frames srv_db (setConn sid g)" for sid f g
    by (simp_all add: frames_def send_def setConn_def putE_def onConn_def)
  show "frames srv_db (NotifyJobDone ae i)" unfolding NotifyJobDone_def by (intro frames_intros c)
  show "frames srv_db (SetDrain ae a b)" unfolding SetDrain_def by (intro frames_intros c)
qed

lemma callSrv_keeps: "frames srv_db m \<Longrightarrow> api_keeps (callSrv m)"
  by (rule keepsI) (auto simp: callSrv_def frames_def api_db_def onServer_def)

lemma store_keeps:
  "CreateJob y n sp dr u t d = Inr (j, d') \<Longrightarrow> delete_passes d' \<subseteq> delete_passes d"
  "DeleteJob n d = Inr (i, d') \<Longrightarrow> delete_passes d' \<subseteq> delete_passes d"
  "SetAgentEnabled a b d = Inr d' \<Longrightarrow> delete_passes d' \<subseteq> delete_passes d"
  "RetryParkedShard i t d = Inr d' \<Longrightarrow> delete_passes d' \<subseteq> delete_passes d"
  "DropParkedShard i d = Inr d' \<Longrightarrow> delete_passes d' \<subseteq> delete_passes d"
  "delete_passes (snd (RetryParkedByJob n t d)) \<subseteq> delete_passes d" "delete_passes (snd (DropParkedByJob n d)) \<subseteq> delete_passes d"
  "delete_passes (SetJobState i js t d) \<subseteq> delete_passes d"
  by (auto simp: delete_passes_def CreateJob_def DeleteJob_def delete_job_rows_def SetAgentEnabled_def RetryParkedShard_def
      DropParkedShard_def RetryParkedByJob_def DropParkedByJob_def SetJobState_def Let_def split: sum.splits option.splits if_splits)

interpretation del: api_calls "\<lambda>s. delete_passes (api_db s)" "(\<supseteq>)"
proof unfold_locales
  show "api_keeps (callStore (\<lambda>d. Inr (if retry then RetryParkedByJob n t d else DropParkedByJob n d)))" for retry n t
    by (rule callStore_keeps) (metis store_keeps(6,7) snd_conv sum.inject(2))
  show "api_keeps (execApi (SetAgentEnabled a b))" "api_keeps (execApi (if retry then RetryParkedShard i t else DropParkedShard i))" for a b retry i t
    unfolding execApi_def by (rule callStore_keeps, force simp: map_sum_def split: sum.splits if_splits dest: store_keeps(3-5))+
  show "api_keeps (dropJournal cfg i)" for cfg i by (rule keepsI) (auto simp: dropJournal_def eff_defs api_db_def onServer_def split: if_splits)
qed (auto intro!: callStore_keeps callCtl_keeps callSrv_keeps methods_keep frames_notices dest: store_keeps(1,2) subsetD [OF store_keeps(8)])

lemma login_keeps: "api_keeps (handleLogin cfg env rq)"
  by (rule keepsI) (metis api_db_def handleLogin_keeps order_refl snd_conv)

text \<open>What the body of a trigger request asks for.\<close>

definition asks_delete :: "api_env \<Rightarrow> request \<Rightarrow> string \<Rightarrow> bool" where
  "asks_delete env rq name \<longleftrightarrow> rq_length rq > 0 \<and> (\<exists>b. rq_body rq = Some b \<and> dec_trigger env b = Some (True, name))"

lemma triggerPass_keeps: "\<not> asks_delete env rq name \<Longrightarrow> api_keeps (triggerPass env rq name)"
proof -
  assume n: "\<not> asks_delete env rq name"
  let ?ask = "if rq_length rq > 0 then (case rq_body rq of None \<Rightarrow> None | Some b \<Rightarrow> dec_trigger env b) else Some (False, [])"
  show ?thesis
  proof (cases ?ask)
    case None
    then show ?thesis unfolding triggerPass_def by (simp add: runs_intros)
  next
    case (Some x)
    obtain del confirm where x: "x = (del, confirm)" by (cases x)
    have "\<not> (del \<and> confirm = name)" using n Some x by (auto simp: asks_delete_def split: if_splits option.splits)
    then show ?thesis using Some x unfolding triggerPass_def
      by (cases del) (auto intro!: runs_intros callCtl_keeps methods_keep)
  qed
qed

text \<open>
  (C8) Destroying data needs two keys: a request after which the store has a delete pass that it did not have
  before is an authorised trigger request whose body asks to delete and repeats the job's name.
\<close>

theorem delete_needs_confirmation:
  assumes "ServeHTTP cfg env rq s = (resp, s')" "p \<in> set (t_passes (api_db s'))" "pass_state p = PassDelete"
    and "p \<notin> set (t_passes (api_db s))"
  shows "\<exists>name b. findRoute (rq_method rq) (rq_path rq) = Some (RTriggerPass name) \<and> rq_length rq > 0 \<and>
    rq_body rq = Some b \<and> dec_trigger env b = Some (True, name) \<and>
    (api_token cfg = '''' \<and> api_login cfg = None \<or> api_token cfg \<noteq> '''' \<and> validBearerToken cfg rq \<or> sessionUser cfg env rq \<noteq> None)"
proof -
  have new: "\<not> delete_passes (api_db s') \<subseteq> delete_passes (api_db s)" using assms(2-4) by (auto simp: delete_passes_def)
  obtain r where r: "findRoute (rq_method rq) (rq_path rq) = Some r" and s': "s' = snd (serve cfg env rq r s)"
    using assms(1) new by (auto simp: ServeHTTP_def run_handler_def split: if_splits option.splits prod.splits sum.splits)
  have "\<not> api_keeps (serve cfg env rq r)" using new s' supseteq_steps unfolding runs_def by blast
  then obtain name where name: "r = RTriggerPass name" and ask: "asks_delete env rq name"
    using del.serve_runs [of r cfg env rq] login_keeps triggerPass_keeps by blast
  have "s' \<noteq> s" using new by blast
  then have "api_token cfg = '''' \<and> api_login cfg = None \<or> api_token cfg \<noteq> '''' \<and> validBearerToken cfg rq \<or> sessionUser cfg env rq \<noteq> None"
    using s' name by (auto simp: serve_def auth_def failE_def validSessionCookie_def split: if_splits)
  then show ?thesis using r name ask by (auto simp: asks_delete_def)
qed

definition sample_finished :: db where
  "sample_finished = SetJobState 1 JobCompleted 0 (SetPassState 1 PassComplete 0 sample_base)"

lemma db_inv_sample_finished: "db_inv sample_finished"
  unfolding sample_finished_def by (intro store.inv_step [OF _ set_job_state] store.inv_step [OF _ set_pass_state] db_inv_samples(1))

definition api_on :: "db \<Rightarrow> api" where
  "api_on d = onServer (\<lambda>sv. sv\<lparr>srv_db := d\<rparr>) sample_api"

definition delete_request :: request where
  "delete_request = (sample_request ''POST'' [''api'', ''v1'', ''jobs'', ''j'', ''passes''] [(''Authorization'', ''Bearer t0ken'')])
     \<lparr>rq_body := Some [1], rq_length := 1\<rparr>"

definition orphan_env :: api_env where
  "orphan_env = sample_api_env\<lparr>en_pc := sample_pe sample_record\<rparr>"

theorem delete_needs_confirmation_witness:
  "map pass_state (t_passes (api_db (api_on sample_finished))) = [PassComplete] \<and>
   map pass_state (t_passes (api_db (snd (ServeHTTP sample_api_cfg orphan_env delete_request (api_on sample_finished))))) = [PassComplete, PassDelete] \<and>
   (\<exists>name b. findRoute ''POST'' [''api'', ''v1'', ''jobs'', ''j'', ''passes''] = Some (RTriggerPass name) \<and> dec_trigger orphan_env b = Some (True, name))"
proof -
  let ?s = "api_on sample_finished" and ?r = "ServeHTTP sample_api_cfg orphan_env delete_request (api_on sample_finished)"
  have 1: "map pass_state (t_passes (api_db ?s)) = [PassComplete]" by code_simp
  have 2: "map pass_state (t_passes (api_db (snd ?r))) = [PassComplete, PassDelete]" by code_simp
  then obtain p q where pq: "t_passes (api_db (snd ?r)) = [p, q]" "pass_state q = PassDelete" by (auto simp: map_eq_Cons_conv)
  have "q \<notin> set (t_passes (api_db ?s))" using 1 pq(2) by (auto simp: map_eq_Cons_conv)
  then show ?thesis
    using 1 2 delete_needs_confirmation [OF surjective_pairing, of q sample_api_cfg orphan_env delete_request ?s] pq
    by (auto simp: delete_request_def sample_request_def)
qed

section \<open>Purging\<close>

lemma DeleteJob_named:
  assumes "distinct (map job_name (t_jobs d))" "j \<in> set (t_jobs d)" "TerminalJobState (job_state j)"
  shows "DeleteJob (job_name j) d = Inr (job_id j, delete_job_rows (job_id j) d)"
  using find_key_some [OF assms(1,2)] assms(3) by (simp add: DeleteJob_def)

lemma delete_job_rows_tables:
  "t_jobs (delete_job_rows i d) = filter (\<lambda>j. job_id j \<noteq> i) (t_jobs d)"
  "t_passes (delete_job_rows i d) = filter (\<lambda>p. pass_job p \<noteq> i) (t_passes d)"
  by (simp_all add: delete_job_rows_def Let_def delete_where_def)

lemma api_db_dropJournal: "snd (dropJournal cfg i s) = s1 \<Longrightarrow> api_db s1 = api_db s"
  by (auto simp: dropJournal_def eff_defs api_db_def onServer_def split: if_splits)

lemma dropJournal_Inr: "dropJournal cfg i s = (Inr (), snd (dropJournal cfg i s))"
  by (simp add: dropJournal_def eff_defs)

lemma purgeLoop_dry: "purgeLoop cfg sel cutoff True js s = (Inr (map job_name (filter (purgeMatches sel cutoff) js)), s)"
  by (induction js) (simp_all add: eff_defs)

lemma purgeLoop_deletes:
  fixes sel :: string and cutoff :: int
  assumes "distinct (map job_name (t_jobs (api_db s)))" "distinct (map job_id (t_jobs (api_db s)))" "set js \<subseteq> set (t_jobs (api_db s))" "distinct js"
  defines "gone \<equiv> filter (purgeMatches sel cutoff) js"
  shows "\<exists>s'. purgeLoop cfg sel cutoff False js s = (Inr (map job_name gone), s') \<and>
    t_jobs (api_db s') = filter (\<lambda>j. j \<notin> set gone) (t_jobs (api_db s)) \<and>
    t_passes (api_db s') = filter (\<lambda>p. pass_job p \<notin> job_id ` set gone) (t_passes (api_db s))"
  using assms(1-4) unfolding gone_def
proof (induction js arbitrary: s)
  case (Cons j js)
  let ?d = "api_db s"
  show ?case
  proof (cases "purgeMatches sel cutoff j")
    case True
    then have del: "DeleteJob (job_name j) ?d = Inr (job_id j, delete_job_rows (job_id j) ?d)"
      using DeleteJob_named [of ?d j] Cons.prems(1,3) by (simp add: purgeMatches_def)
    let ?s1 = "onServer (\<lambda>sv. sv\<lparr>srv_db := delete_job_rows (job_id j) ?d\<rparr>) s"
    obtain s2 where drop: "dropJournal cfg (job_id j) ?s1 = (Inr (), s2)" using dropJournal_Inr by blast
    have d2: "api_db s2 = delete_job_rows (job_id j) ?d" using api_db_dropJournal [of cfg "job_id j" ?s1 s2] drop by simp
    have js2: "t_jobs (api_db s2) = filter (\<lambda>x. x \<noteq> j) (t_jobs ?d)"
      unfolding d2 delete_job_rows_tables using Cons.prems(2,3) by (intro filter_cong) (auto simp: distinct_map inj_on_def)
    have pre: "distinct (map job_name (t_jobs (api_db s2)))" "distinct (map job_id (t_jobs (api_db s2)))" "set js \<subseteq> set (t_jobs (api_db s2))"
      unfolding js2 using Cons.prems by (auto simp: distinct_map_filter)
    obtain s' where IH: "purgeLoop cfg sel cutoff False js s2 = (Inr (map job_name (filter (purgeMatches sel cutoff) js)), s')"
        "t_jobs (api_db s') = filter (\<lambda>x. x \<notin> set (filter (purgeMatches sel cutoff) js)) (t_jobs (api_db s2))"
        "t_passes (api_db s') = filter (\<lambda>p. pass_job p \<notin> job_id ` set (filter (purgeMatches sel cutoff) js)) (t_passes (api_db s2))"
      using Cons.IH [OF pre] Cons.prems(4) by auto
    have "purgeLoop cfg sel cutoff False (j # js) s = (Inr (map job_name (filter (purgeMatches sel cutoff) (j # js))), s')"
      using True del IH(1) drop
      by (simp add: bindE_def thenE_def callStore_def returnE_def)
    moreover have "t_jobs (api_db s') = filter (\<lambda>x. x \<notin> set (filter (purgeMatches sel cutoff) (j # js))) (t_jobs ?d)"
      unfolding IH(2) js2 using True by (auto simp: filter_filter intro!: filter_cong)
    moreover have "t_passes (api_db s') = filter (\<lambda>p. pass_job p \<notin> job_id ` set (filter (purgeMatches sel cutoff) (j # js))) (t_passes ?d)"
      unfolding IH(3) d2 delete_job_rows_tables using True by (auto simp: filter_filter intro!: filter_cong)
    ultimately show ?thesis by blast
  next
    case False
    then show ?thesis using Cons by auto
  qed
qed (simp add: eff_defs)


definition purge_request :: request where
  "purge_request = (sample_request ''POST'' [''api'', ''v1'', ''jobs'', ''purge''] [(''Authorization'', ''Bearer t0ken'')])
     \<lparr>rq_query := [(''state'', ''completed'')]\<rparr>"


text \<open>
  An \<open>older_than_ms\<close> that reaches back before 1970 makes the cutoff non-positive, which the filter reads as
  no cutoff: every finished job goes, whatever its age.
\<close>

lemma old_cutoff_ignored:
  assumes "ms \<ge> UnixMilli now" "0 < ms" "TerminalJobState (job_state j)"
  shows "purgeMatches ''TERMINAL'' (UnixMilli now - ms) j"
  using assms by (simp add: purgeMatches_def)

text \<open>Cancelling asks nothing of the state: a job that has completed becomes cancelled.\<close>

lemma completed_job_cancelled:
  "map job_state (t_jobs (api_db (snd (jobAction sample_api_cfg sample_api_env Cancel ''j'' (api_on sample_finished))))) = [JobCancelled]"
  by code_simp

text \<open>A body without a declared length is not read: the request to delete becomes one to scan.\<close>

lemma chunked_delete_scans:
  "map pass_state (t_passes (api_db (snd (ServeHTTP sample_api_cfg orphan_env (delete_request\<lparr>rq_length := - 1\<rparr>) (api_on sample_finished))))) =
     [PassComplete, PassScanning]"
  by code_simp

end
