(* ===== verification/Events.thy ===== *)
theory Events
  imports Coordinator
begin

text \<open>
  The event feed (\<open>coordinator/internal/events/events.go\<close>): a bus that fans events out to buffered
  subscribers and drops what does not fit, and the poller that turns the difference between two
  snapshots of the store into events.

  The tag and the data map of an event are one constructor of \<open>event_data\<close>. A subscriber's channel is the
  list of its buffered events; the bus numbers its subscribers. Agents come and go in the order
  the agent server lists them, where Go's maps have no order.
\<close>

section \<open>Events\<close>

record stats =
  st_passState :: PassState
  st_entries_walked :: int
  st_files_copied :: int
  st_bytes_copied :: int
  st_meta_fixed :: int
  st_orphans :: int
  st_errors :: int
  st_verify_ok :: int
  st_verify_fail :: int
  st_shards :: "ShardState \<Rightarrow> int"

datatype event_data =
    JobStateEvent JobState "JobState option"
  | PassStateEvent PassState "PassState option"
  | StatsEvent stats
  | AgentEvent string bool
  | ParkedAlert int ShardKind path string nat
  | Hello

record Event =
  ev_TsMs :: int
  ev_Job :: string
  ev_PassNo :: int
  ev_Data :: event_data

definition event :: "string \<Rightarrow> int \<Rightarrow> event_data \<Rightarrow> Event" where
  "event job passNo x = \<lparr>ev_TsMs = 0, ev_Job = job, ev_PassNo = passNo, ev_Data = x\<rparr>"

section \<open>The bus\<close>

record Bus =
  subs :: "(nat \<times> Event list) list"
  next_sub :: nat

definition NewBus :: Bus where
  "NewBus = \<lparr>subs = [], next_sub = 0\<rparr>"

definition subBuffer :: nat where
  "subBuffer = 256"

definition Subscribe :: "Bus \<Rightarrow> nat \<times> Bus" where
  "Subscribe b = (next_sub b, b\<lparr>subs := subs b @ [(next_sub b, [])], next_sub := next_sub b + 1\<rparr>)"

definition cancelSub :: "nat \<Rightarrow> Bus \<Rightarrow> Bus" where
  "cancelSub i b = b\<lparr>subs := filter (\<lambda>(k, q). k \<noteq> i) (subs b)\<rparr>"

definition stamp :: "int \<Rightarrow> Event \<Rightarrow> Event" where
  "stamp now e = (if ev_TsMs e = 0 then e\<lparr>ev_TsMs := now\<rparr> else e)"

definition Publish :: "int \<Rightarrow> Event \<Rightarrow> Bus \<Rightarrow> Bus" where
  "Publish now e b = b\<lparr>subs := map (\<lambda>(k, q). (k, if length q < subBuffer then q @ [stamp now e] else q)) (subs b)\<rparr>"

text \<open>The frame a subscriber is greeted with.\<close>

definition helloEvent :: "int \<Rightarrow> Event" where
  "helloEvent now = \<lparr>ev_TsMs = now, ev_Job = [], ev_PassNo = 0, ev_Data = Hello\<rparr>"

text \<open>One turn of a subscriber's loop in \<open>eventsWS\<close>: it takes the oldest buffered event.\<close>

definition receive :: "nat \<Rightarrow> Bus \<Rightarrow> Event option \<times> Bus" where
  "receive i b =
     (case map_of (subs b) i of
        Some (e # q) \<Rightarrow> (Some e, b\<lparr>subs := map (\<lambda>(k, q'). (k, if k = i then q else q')) (subs b)\<rparr>)
      | _ \<Rightarrow> (None, b))"

section \<open>The poller\<close>

record Poller =
  jobStates :: "(string \<times> JobState) list"
  passStates :: "(string \<times> PassState) list"
  agentsLive :: "string list"
  parkedSeen :: "int list"
  primed :: bool

text \<open>The store reads of one tick, each of which may fail.\<close>

datatype query = QListJobs | QListPasses int | QShardKinds int | QStateCounts int | QStatsKinds int | QParked

definition NewPoller :: Poller where
  "NewPoller = \<lparr>jobStates = [], passStates = [], agentsLive = [], parkedSeen = [], primed = False\<rparr>"

definition terminal :: "JobState \<Rightarrow> bool" where
  "terminal st \<longleftrightarrow> st = JobCompleted \<or> st = JobCancelled \<or> st = JobFailed"

definition passKey :: "string \<Rightarrow> int \<Rightarrow> string" where
  "passKey job passNo = job @ ''/'' @ fmt_d passNo"

definition tickPass :: "db \<Rightarrow> job_row \<Rightarrow> pass_row \<Rightarrow> Poller \<Rightarrow> Event list \<times> Poller" where
  "tickPass d j ps p =
     (let eff = EffectiveState (pass_state ps) (ShardKindsPresent (pass_id ps) d);
          key = passKey (job_name j) (pass_no ps); prev = map_of (passStates p) key
      in if prev = Some eff then ([], p)
         else (if primed p \<and> (prev \<noteq> None \<or> eff \<noteq> PassComplete)
               then [event (job_name j) (pass_no ps) (PassStateEvent eff prev)] else [],
               p\<lparr>passStates := AList.update key eff (passStates p)\<rparr>))"

text \<open>The loop over the passes of a job; a failed read leaves the whole function.\<close>

fun tickPassLoop :: "(query \<Rightarrow> bool) \<Rightarrow> db \<Rightarrow> job_row \<Rightarrow> pass_row list \<Rightarrow> Poller \<Rightarrow> bool \<times> Event list \<times> Poller" where
  "tickPassLoop fails d j [] p = (True, [], p)"
| "tickPassLoop fails d j (ps # rest) p =
     (if fails (QShardKinds (pass_id ps)) then (False, [], p)
      else let (es, p1) = tickPass d j ps p; (ok, es', p2) = tickPassLoop fails d j rest p1 in (ok, es @ es', p2))"

definition statsFrame :: "db \<Rightarrow> job_row \<Rightarrow> pass_row \<Rightarrow> Event" where
  "statsFrame d j ps =
     (let c = pass_counters ps
      in event (job_name j) (pass_no ps)
           (StatsEvent \<lparr>st_passState = EffectiveState (pass_state ps) (ShardKindsPresent (pass_id ps) d),
              st_entries_walked = EntriesWalked c, st_files_copied = FilesCopied c, st_bytes_copied = BytesCopied c,
              st_meta_fixed = MetaFixed c, st_orphans = Orphans c, st_errors = Errors c,
              st_verify_ok = VerifyOK c, st_verify_fail = VerifyFail c, st_shards = ShardStateCounts (pass_id ps) d\<rparr>))"

definition tickPasses :: "(query \<Rightarrow> bool) \<Rightarrow> db \<Rightarrow> job_row \<Rightarrow> Poller \<Rightarrow> Event list \<times> Poller" where
  "tickPasses fails d j p =
     (let passes = ListPasses (job_id j) d
      in if fails (QListPasses (job_id j)) \<or> passes = [] then ([], p)
         else let (ok, es, p1) = tickPassLoop fails d j passes p; ps = last passes
              in (es @ (if ok \<and> job_state j = JobRunning \<and> primed p
                          \<and> \<not> fails (QStateCounts (pass_id ps)) \<and> \<not> fails (QStatsKinds (pass_id ps))
                        then [statsFrame d j ps] else []), p1))"

definition tickJob :: "(query \<Rightarrow> bool) \<Rightarrow> db \<Rightarrow> job_row \<Rightarrow> Poller \<Rightarrow> Event list \<times> Poller" where
  "tickJob fails d j p =
     (let prev = map_of (jobStates p) (job_name j); changed = (prev \<noteq> Some (job_state j));
          p1 = p\<lparr>jobStates := AList.update (job_name j) (job_state j) (jobStates p)\<rparr>;
          es = (if changed \<and> primed p then [event (job_name j) 0 (JobStateEvent (job_state j) prev)] else [])
      in if terminal (job_state j) \<and> \<not> changed then (es, p1)
         else let (es', p2) = tickPasses fails d j p1 in (es @ es', p2))"

fun tickJobLoop :: "(query \<Rightarrow> bool) \<Rightarrow> db \<Rightarrow> job_row list \<Rightarrow> Poller \<Rightarrow> Event list \<times> Poller" where
  "tickJobLoop fails d [] p = ([], p)"
| "tickJobLoop fails d (j # js) p = (let (es, p1) = tickJob fails d j p; (es', p2) = tickJobLoop fails d js p1 in (es @ es', p2))"

definition tickJobs :: "(query \<Rightarrow> bool) \<Rightarrow> db \<Rightarrow> Poller \<Rightarrow> Event list \<times> Poller" where
  "tickJobs fails d p = (if fails QListJobs then ([], p) else tickJobLoop fails d (ListJobs d) p)"

definition tickAgents :: "string list \<Rightarrow> Poller \<Rightarrow> Event list \<times> Poller" where
  "tickAgents conn p =
     (let live = remdups conn;
          up = filter (\<lambda>i. i \<notin> set (agentsLive p)) live; down = filter (\<lambda>i. i \<notin> set live) (agentsLive p)
      in (if primed p then map (\<lambda>i. event [] 0 (AgentEvent i True)) up @ map (\<lambda>i. event [] 0 (AgentEvent i False)) down else [],
          p\<lparr>agentsLive := live\<rparr>))"

definition parkedEvent :: "ParkedShard \<Rightarrow> Event" where
  "parkedEvent sh = event (pk_Job sh) (pk_PassNo sh) (ParkedAlert (pk_ID sh) (pk_Kind sh) (pk_RelPath sh) (pk_Error sh) (pk_Attempt sh))"

definition tickParked :: "(query \<Rightarrow> bool) \<Rightarrow> db \<Rightarrow> Poller \<Rightarrow> Event list \<times> Poller" where
  "tickParked fails d p =
     (if fails QParked then ([], p)
      else let parked = ParkedShards d
           in (if primed p then map parkedEvent (filter (\<lambda>sh. pk_ID sh \<notin> set (parkedSeen p)) parked) else [],
               p\<lparr>parkedSeen := map pk_ID parked\<rparr>))"

definition pollerTick :: "(query \<Rightarrow> bool) \<Rightarrow> db \<Rightarrow> string list \<Rightarrow> Poller \<Rightarrow> Event list \<times> Poller" where
  "pollerTick fails d conn p =
     (let (e1, p1) = tickJobs fails d p; (e2, p2) = tickAgents conn p1; (e3, p3) = tickParked fails d p2
      in (e1 @ e2 @ e3, p3\<lparr>primed := True\<rparr>))"

definition publishTick :: "(query \<Rightarrow> bool) \<Rightarrow> int \<Rightarrow> coordinator \<Rightarrow> Poller \<times> Bus \<Rightarrow> Poller \<times> Bus" where
  "publishTick fails now c pb =
     (case pollerTick fails (srv_db (co_srv c)) (ConnectedAgents (co_srv c)) (fst pb) of
        (es, p) \<Rightarrow> (p, fold (Publish now) es (snd pb)))"


section \<open>What the feed tells a consumer\<close>

text \<open>A consumer's picture of the coordinator, moved by the events it sees.\<close>

record feed_view =
  v_jobs :: "string \<rightharpoonup> JobState"
  v_passes :: "string \<rightharpoonup> PassState"
  v_agents :: "string set"

definition follow :: "Event \<Rightarrow> feed_view \<Rightarrow> feed_view" where
  "follow e v =
     (case ev_Data e of
        JobStateEvent st _ \<Rightarrow> v\<lparr>v_jobs := (v_jobs v)(ev_Job e \<mapsto> st)\<rparr>
      | PassStateEvent st _ \<Rightarrow> v\<lparr>v_passes := (v_passes v)(passKey (ev_Job e) (ev_PassNo e) \<mapsto> st)\<rparr>
      | AgentEvent i up \<Rightarrow> v\<lparr>v_agents := (if up then insert i (v_agents v) else v_agents v - {i})\<rparr>
      | _ \<Rightarrow> v)"

text \<open>The picture is the poller's own baseline, but for passes that were complete when first seen.\<close>

definition follows :: "feed_view \<Rightarrow> Poller \<Rightarrow> bool" where
  "follows v p \<longleftrightarrow> v_jobs v = map_of (jobStates p) \<and>
     (\<forall>k. v_passes v k = map_of (passStates p) k \<or> v_passes v k = None \<and> map_of (passStates p) k = Some PassComplete) \<and>
     v_agents v = set (agentsLive p)"

text \<open>A piece of the tick keeps a primed poller primed and its consumers' pictures right.\<close>

definition informs :: "(Poller \<Rightarrow> Event list \<times> Poller) \<Rightarrow> bool" where
  "informs f \<longleftrightarrow> (\<forall>p v. primed p \<longrightarrow> follows v p \<longrightarrow> primed (snd (f p)) \<and> follows (fold follow (fst (f p)) v) (snd (f p)))"

lemma informsI:
  assumes "\<And>p v. primed p \<Longrightarrow> follows v p \<Longrightarrow> primed (snd (f p)) \<and> follows (fold follow (fst (f p)) v) (snd (f p))"
  shows "informs f"
  using assms by (simp add: informs_def)

lemma informs_seq:
  assumes "informs f" "informs g"
  shows "informs (\<lambda>p. (fst (f p) @ fst (g (snd (f p))), snd (g (snd (f p)))))"
proof (rule informsI)
  fix p v assume "primed p" "follows v p"
  with assms(1) have "primed (snd (f p))" "follows (fold follow (fst (f p)) v) (snd (f p))" by (simp_all add: informs_def)
  with assms(2) show "primed (snd (fst (f p) @ fst (g (snd (f p))), snd (g (snd (f p))))) \<and>
    follows (fold follow (fst (fst (f p) @ fst (g (snd (f p))), snd (g (snd (f p))))) v) (snd (fst (f p) @ fst (g (snd (f p))), snd (g (snd (f p)))))"
    by (simp add: informs_def)
qed

lemma informs_skip: "informs (\<lambda>p. ([], p))"
  by (simp add: informs_def)

lemma tickPass_informs: "informs (tickPass d j ps)"
proof (rule informsI)
  fix p v assume p: "primed p" and v: "follows v p"
  let ?k = "passKey (job_name j) (pass_no ps)"
  have "v_passes v ?k = map_of (passStates p) ?k \<or> v_passes v ?k = None" using v by (auto simp: follows_def)
  then show "primed (snd (tickPass d j ps p)) \<and> follows (fold follow (fst (tickPass d j ps p)) v) (snd (tickPass d j ps p))"
    using p v by (auto simp: tickPass_def Let_def follows_def follow_def event_def update_conv')
qed

lemma statsFrame_informs: "informs (\<lambda>p. (if c p then [statsFrame d j ps] else [], p))"
  by (rule informsI) (simp add: statsFrame_def Let_def follow_def event_def)

lemma tickPassLoop_informs: "informs (\<lambda>p. snd (tickPassLoop fails d j pss p))"
proof (induction pss)
  case Nil
  then show ?case using informs_skip by simp
next
  case (Cons ps pss)
  show ?case
    using informs_seq [OF tickPass_informs [of d j ps] Cons.IH] informs_skip
    by (cases "fails (QShardKinds (pass_id ps))") (simp_all add: case_prod_unfold Let_def)
qed

lemma tickPasses_informs: "informs (tickPasses fails d j)"
proof (rule informsI)
  fix p v assume p: "primed p" and v: "follows v p"
  obtain ok es p1 where r: "tickPassLoop fails d j (ListPasses (job_id j) d) p = (ok, es, p1)" by (cases "tickPassLoop fails d j (ListPasses (job_id j) d) p") auto
  have "primed p1 \<and> follows (fold follow es v) p1"
    using tickPassLoop_informs [of fails d j "ListPasses (job_id j) d"] p v r unfolding informs_def by (metis fst_conv snd_conv)
  then show "primed (snd (tickPasses fails d j p)) \<and> follows (fold follow (fst (tickPasses fails d j p)) v) (snd (tickPasses fails d j p))"
    using p v r by (auto simp: tickPasses_def Let_def statsFrame_def follow_def event_def)
qed

lemma tickJob_informs: "informs (tickJob fails d j)"
proof (rule informsI)
  fix p v assume p: "primed p" and v: "follows v p"
  define p1 where "p1 = p\<lparr>jobStates := AList.update (job_name j) (job_state j) (jobStates p)\<rparr>"
  define es where "es = (if map_of (jobStates p) (job_name j) \<noteq> Some (job_state j)
    then [event (job_name j) 0 (JobStateEvent (job_state j) (map_of (jobStates p) (job_name j)))] else [])"
  have p1: "primed p1" "follows (fold follow es v) p1"
    using p v by (auto simp: p1_def es_def follows_def follow_def event_def update_conv' fun_upd_idem)
  have "tickJob fails d j p = (es, p1) \<or>
    tickJob fails d j p = (es @ fst (tickPasses fails d j p1), snd (tickPasses fails d j p1))"
    using p by (auto simp: tickJob_def Let_def p1_def es_def case_prod_unfold)
  then show "primed (snd (tickJob fails d j p)) \<and> follows (fold follow (fst (tickJob fails d j p)) v) (snd (tickJob fails d j p))"
    using p1 tickPasses_informs [of fails d j] unfolding informs_def by auto
qed

lemma tickJobs_informs: "informs (tickJobs fails d)"
proof -
  have "informs (tickJobLoop fails d js)" for js
  proof (induction js)
    case Nil
    then show ?case using informs_skip by (simp add: informs_def)
  next
    case (Cons j js)
    then show ?case using informs_seq [OF tickJob_informs [of fails d j] Cons.IH] by (simp add: case_prod_unfold Let_def informs_def)
  qed
  then show ?thesis by (simp add: tickJobs_def informs_def)
qed

lemma follow_agents_up:
  "fold follow (map (\<lambda>i. event [] 0 (AgentEvent i True)) up) v = v\<lparr>v_agents := set up \<union> v_agents v\<rparr>"
  by (induction up arbitrary: v) (simp_all add: follow_def event_def)

lemma follow_agents_down:
  "fold follow (map (\<lambda>i. event [] 0 (AgentEvent i False)) down) v = v\<lparr>v_agents := v_agents v - set down\<rparr>"
  by (induction down arbitrary: v) (simp_all add: follow_def event_def Diff_insert2 [symmetric])

lemma tickAgents_informs: "informs (tickAgents conn)"
  by (rule informsI) (auto simp: tickAgents_def Let_def follow_agents_up follow_agents_down follows_def)

lemma follow_parked: "fold follow (map parkedEvent shs) v = v"
  by (induction shs) (simp_all add: follow_def parkedEvent_def event_def)

lemma tickParked_informs: "informs (tickParked fails d)"
  by (rule informsI) (simp add: tickParked_def Let_def follow_parked follows_def)

lemma pollerTick_informs: "informs (pollerTick fails d conn)"
proof -
  have "informs (\<lambda>p. ([], p\<lparr>primed := True\<rparr>))" by (rule informsI) (simp add: follows_def)
  from informs_seq [OF informs_seq [OF tickJobs_informs [of fails d] informs_seq [OF tickAgents_informs [of conn] tickParked_informs [of fails d]]] this]
  show ?thesis unfolding informs_def by (simp add: pollerTick_def case_prod_unfold Let_def)
qed


section \<open>The baseline and the store\<close>

lemma tickPass_jobs [simp]: "jobStates (snd (tickPass d j ps p)) = jobStates p"
  by (simp add: tickPass_def Let_def)

lemma tickPassLoop_jobs [simp]: "jobStates (snd (snd (tickPassLoop fails d j pss p))) = jobStates p"
  by (induction pss arbitrary: p) (simp_all add: case_prod_unfold Let_def)

lemma tickJob_jobs:
  "map_of (jobStates (snd (tickJob fails d j p))) = (map_of (jobStates p))(job_name j \<mapsto> job_state j)"
  by (simp add: tickJob_def tickPasses_def Let_def case_prod_unfold update_conv')

lemma tickJobLoop_jobs:
  assumes "distinct (map job_name js)"
  shows "map_of (jobStates (snd (tickJobLoop fails d js p))) = map_of (jobStates p) ++ map_of (map (\<lambda>j. (job_name j, job_state j)) js)"
  using assms
proof (induction js arbitrary: p)
  case (Cons j js)
  have "job_name j \<notin> dom (map_of (map (\<lambda>j. (job_name j, job_state j)) js))"
    using Cons.prems by (simp add: dom_map_of_conv_image_fst image_image)
  then show ?case using Cons tickJob_jobs [of fails d j p]
    by (auto simp: case_prod_unfold Let_def fun_eq_iff map_add_def dom_def split: option.splits)
qed simp

lemma tickJobs_jobs:
  assumes "jobs_inv d" "\<not> fails QListJobs" "j \<in> set (t_jobs d)"
  shows "map_of (jobStates (snd (tickJobs fails d p))) (job_name j) = Some (job_state j)"
proof -
  have d: "distinct (map job_name (ListJobs d))"
    using jobs_invD(2) [OF assms(1)] by (simp add: ListJobs_def distinct_map)
  have "map_of (map (\<lambda>j. (job_name j, job_state j)) (ListJobs d)) (job_name j) = Some (job_state j)"
    using d assms(3) by (intro map_of_is_SomeI) (auto simp: ListJobs_def comp_def)
  then show ?thesis using assms(2) tickJobLoop_jobs [OF d] by (simp add: tickJobs_def)
qed

text \<open>Jobs and passes tell nothing of parked shards, and nothing of agents.\<close>

definition is_parked :: "Event \<Rightarrow> bool" where
  "is_parked e \<longleftrightarrow> (case ev_Data e of ParkedAlert _ _ _ _ _ \<Rightarrow> True | _ \<Rightarrow> False)"

definition parks_nothing :: "(Poller \<Rightarrow> Event list \<times> Poller) \<Rightarrow> bool" where
  "parks_nothing f \<longleftrightarrow> (\<forall>p. filter is_parked (fst (f p)) = [] \<and> parkedSeen (snd (f p)) = parkedSeen p
     \<and> primed (snd (f p)) = primed p \<and> (\<not> primed p \<longrightarrow> fst (f p) = []))"

lemma tickPass_parks: "parks_nothing (tickPass d j ps)"
  by (simp add: parks_nothing_def tickPass_def Let_def event_def is_parked_def)

lemma tickPassLoop_parks: "parks_nothing (\<lambda>p. snd (tickPassLoop fails d j pss p))"
  unfolding parks_nothing_def
proof (induction pss)
  case (Cons ps pss)
  then show ?case using tickPass_parks [of d j ps] by (simp add: case_prod_unfold Let_def parks_nothing_def)
qed simp

lemma tickPasses_parks: "parks_nothing (tickPasses fails d j)"
  using tickPassLoop_parks [of fails d j "ListPasses (job_id j) d"]
  by (simp add: parks_nothing_def tickPasses_def Let_def case_prod_unfold statsFrame_def event_def is_parked_def)

lemma tickJob_parks: "parks_nothing (tickJob fails d j)"
  using tickPasses_parks [of fails d j]
  by (simp add: parks_nothing_def tickJob_def Let_def case_prod_unfold event_def is_parked_def)

lemma tickJobs_parks: "parks_nothing (tickJobs fails d)"
proof -
  have "parks_nothing (tickJobLoop fails d js)" for js
    unfolding parks_nothing_def
  proof (induction js)
    case (Cons j js)
    then show ?case using tickJob_parks [of fails d j] by (simp add: case_prod_unfold Let_def parks_nothing_def)
  qed simp
  then show ?thesis by (simp add: tickJobs_def parks_nothing_def)
qed

lemma tickAgents_parks: "parks_nothing (tickAgents conn)"
  by (auto simp: parks_nothing_def tickAgents_def Let_def event_def is_parked_def filter_empty_conv)

lemma parkedEvents_parked: "filter is_parked (map parkedEvent shs) = map parkedEvent shs"
  by (induction shs) (simp_all add: parkedEvent_def event_def is_parked_def)

text \<open>The first tick seeds the baseline and publishes nothing.\<close>

lemma pollerTick_silent:
  "\<not> primed p \<Longrightarrow> fst (pollerTick fails d conn p) = []"
  using tickJobs_parks [of fails d] tickAgents_parks [of conn]
  by (simp add: pollerTick_def case_prod_unfold Let_def parks_nothing_def tickParked_def)

lemma pollerTick_parked:
  assumes "primed p"
  shows "filter is_parked (fst (pollerTick fails d conn p)) =
    (if fails QParked then [] else map parkedEvent (filter (\<lambda>sh. pk_ID sh \<notin> set (parkedSeen p)) (ParkedShards d)))"
  using assms tickJobs_parks [of fails d] tickAgents_parks [of conn]
  by (simp add: pollerTick_def case_prod_unfold Let_def parks_nothing_def tickParked_def parkedEvents_parked)

lemma tickAgents_frame [simp]:
  "jobStates (snd (tickAgents conn p)) = jobStates p" "jobStates (snd (tickParked fails d p)) = jobStates p"
  "agentsLive (snd (tickAgents conn p)) = remdups conn" "agentsLive (snd (tickParked fails d p)) = agentsLive p"
  by (simp_all add: tickAgents_def tickParked_def Let_def)

text \<open>
  (C30) One tick of a poller that has its baseline, whatever reads of the store fail in it: a consumer
  whose picture was the poller's baseline and who follows the published events has the new baseline as
  its picture (but for passes that were already complete when first seen, which are not announced); it
  then knows exactly the agents that are connected, and, when the jobs could be listed, every job of
  the store with the state it has there; when the parked shards could be read, those announced are
  exactly those that the previous tick did not know.
\<close>

theorem feed_follows_store:
  assumes "primed p" "follows v p" "jobs_inv d"
    and tick: "pollerTick fails d conn p = (es, p')"
  shows "follows (fold follow es v) p' \<and> v_agents (fold follow es v) = set conn \<and>
    (\<not> fails QListJobs \<longrightarrow> (\<forall>j \<in> set (t_jobs d). v_jobs (fold follow es v) (job_name j) = Some (job_state j))) \<and>
    (\<not> fails QParked \<longrightarrow>
      filter is_parked es = map parkedEvent (filter (\<lambda>sh. pk_ID sh \<notin> set (parkedSeen p)) (ParkedShards d)) \<and>
      parkedSeen p' = map pk_ID (ParkedShards d))"
proof -
  have f: "follows (fold follow es v) p'"
    using pollerTick_informs [of fails d conn] assms unfolding informs_def by (metis fst_conv snd_conv)
  have "agentsLive p' = remdups conn" "jobStates p' = jobStates (snd (tickJobs fails d p))"
    using tick by (auto simp: pollerTick_def Let_def split: prod.splits)
      (metis snd_conv tickAgents_frame)+
  then have "v_agents (fold follow es v) = set conn"
    "\<not> fails QListJobs \<longrightarrow> (\<forall>j \<in> set (t_jobs d). v_jobs (fold follow es v) (job_name j) = Some (job_state j))"
    using f tickJobs_jobs [OF assms(3)] by (auto simp: follows_def)
  moreover have "\<not> fails QParked \<Longrightarrow> parkedSeen p' = map pk_ID (ParkedShards d)"
    using tick by (auto simp: pollerTick_def tickParked_def Let_def split: prod.splits)
  ultimately show ?thesis using f pollerTick_parked [OF assms(1), of fails d conn] tick by (auto simp: prod_eq_iff)
qed


section \<open>Delivery\<close>

text \<open>What happens on the bus: subscribers come and go, the poller publishes, a subscriber takes its next event.\<close>

datatype bus_op = Joined | Left nat | Published int Event | Took nat

definition bus_step :: "bus_op \<Rightarrow> Bus \<Rightarrow> Bus" where
  "bus_step x b =
     (case x of Joined \<Rightarrow> snd (Subscribe b) | Left i \<Rightarrow> cancelSub i b | Published now e \<Rightarrow> Publish now e b | Took i \<Rightarrow> snd (receive i b))"

fun received :: "nat \<Rightarrow> bus_op list \<Rightarrow> Bus \<Rightarrow> Event list" where
  "received i [] b = []"
| "received i (x # xs) b =
     (case x of Took k \<Rightarrow> (if k = i then (case fst (receive i b) of None \<Rightarrow> [] | Some e \<Rightarrow> [e]) else []) | _ \<Rightarrow> []) @
     received i xs (bus_step x b)"

definition published :: "bus_op list \<Rightarrow> Event list" where
  "published xs = concat (map (\<lambda>x. case x of Published now e \<Rightarrow> [stamp now e] | _ \<Rightarrow> []) xs)"

definition pending :: "nat \<Rightarrow> Bus \<Rightarrow> Event list" where
  "pending i b = (case map_of (subs b) i of None \<Rightarrow> [] | Some q \<Rightarrow> q)"

definition bus_ok :: "Bus \<Rightarrow> bool" where
  "bus_ok b \<longleftrightarrow> (\<forall>(k, q) \<in> set (subs b). k < next_sub b \<and> length q \<le> subBuffer) \<and> distinct (map fst (subs b))"

lemma map_of_map_snd: "map_of (map (\<lambda>(k, q). (k, f k q)) xs) i = map_option (f i) (map_of xs i)"
  by (induction xs) auto

lemma map_of_filter_key: "map_of (filter (\<lambda>(k, q). P k) xs) i = (if P i then map_of xs i else None)"
  by (induction xs) auto

lemma map_fst_map_snd: "map (fst \<circ> (\<lambda>(k, q). (k, f k q))) xs = map fst xs"
  by (induction xs) auto

lemma pending_Publish:
  "map_of (subs (Publish now e b)) i =
     map_option (\<lambda>q. if length q < subBuffer then q @ [stamp now e] else q) (map_of (subs b) i)"
  by (simp add: Publish_def map_of_map_snd)

lemma bus_ok_step:
  assumes "bus_ok b"
  shows "bus_ok (bus_step x b)"
proof (cases x)
  case Joined
  then show ?thesis using assms by (force simp: bus_ok_def bus_step_def Subscribe_def)
next
  case (Left i)
  then show ?thesis using assms by (auto simp: bus_ok_def bus_step_def cancelSub_def distinct_map_filter)
next
  case (Published now e)
  then show ?thesis using assms by (auto simp: bus_ok_def bus_step_def Publish_def map_fst_map_snd)
next
  case (Took i)
  then show ?thesis using assms
    by (fastforce simp: bus_ok_def bus_step_def receive_def map_fst_map_snd dest!: map_of_SomeD split: option.splits list.splits)
qed

definition bus_reach :: "Bus \<Rightarrow> bool" where
  "bus_reach b \<longleftrightarrow> (\<exists>xs. b = fold bus_step xs NewBus)"

lemma bus_reach_ok: "bus_reach b \<Longrightarrow> bus_ok b"
proof -
  have "bus_ok b \<Longrightarrow> bus_ok (fold bus_step xs b)" for xs b by (induction xs arbitrary: b) (simp_all add: bus_ok_step)
  moreover have "bus_ok NewBus" by (simp add: bus_ok_def NewBus_def)
  ultimately show "bus_reach b \<Longrightarrow> bus_ok b" by (auto simp: bus_reach_def)
qed

text \<open>A subscriber that stays: its history is what it took and what waits for it.\<close>

lemma stays_step:
  assumes ok: "bus_ok b" and sub: "map_of (subs b) i = Some q" and x: "x \<noteq> Left i"
  shows "\<exists>q'. map_of (subs (bus_step x b)) i = Some q' \<and>
    received i [x] b @ q' = q @ (if \<exists>now e. x = Published now e \<and> length q < subBuffer then published [x] else [])"
  using assms
  by (cases x)
    (auto simp: bus_step_def Subscribe_def cancelSub_def map_of_filter_key pending_Publish published_def map_of_map_snd
        receive_def bus_ok_def dest: map_of_SomeD split: option.splits list.splits)


lemma stays_steps:
  assumes "bus_ok b" "map_of (subs b) i = Some q" "Left i \<notin> set xs"
  shows "\<exists>q' zs. map_of (subs (fold bus_step xs b)) i = Some q' \<and> received i xs b @ q' = q @ zs \<and>
    subseq zs (published xs) \<and> (length q + length (published xs) \<le> subBuffer \<longrightarrow> zs = published xs)"
  using assms
proof (induction xs arbitrary: b q)
  case Nil
  then show ?case by (simp add: published_def)
next
  case (Cons x xs)
  let ?z = "if \<exists>now e. x = Published now e \<and> length q < subBuffer then published [x] else []"
  from stays_step [OF Cons.prems(1,2), of x] Cons.prems(3) obtain q1 where
    q1: "map_of (subs (bus_step x b)) i = Some q1" "received i [x] b @ q1 = q @ ?z" by auto
  from Cons.IH [OF bus_ok_step [OF Cons.prems(1)] q1(1)] Cons.prems(3) obtain q' zs where
    IH: "map_of (subs (fold bus_step xs (bus_step x b))) i = Some q'" "received i xs (bus_step x b) @ q' = q1 @ zs"
      "subseq zs (published xs)" "length q1 + length (published xs) \<le> subBuffer \<longrightarrow> zs = published xs" by auto
  have p: "published (x # xs) = published [x] @ published xs" by (simp add: published_def)
  have r: "received i (x # xs) b = received i [x] b @ received i xs (bus_step x b)" by simp
  have "subseq (?z @ zs) (published (x # xs))" using IH(3) by (auto simp: p intro: list_emb_append2 list_emb_append_mono)
  moreover have "?z @ zs = published (x # xs)" if "length q + length (published (x # xs)) \<le> subBuffer"
  proof -
    have z: "?z = published [x]" using that by (cases x) (auto simp: p published_def)
    have "length (received i [x] b @ q1) = length q + length (published [x])" using q1(2) z by simp
    then have "length q1 + length (published xs) \<le> subBuffer" using that by (simp add: p)
    then show ?thesis using z IH(4) p by simp
  qed
  moreover have "received i (x # xs) b @ q' = q @ ?z @ zs" using q1(2) IH(2) r by simp
  ultimately show ?case using IH(1) by auto
qed

text \<open>
  (C31) Delivery on the event bus, whatever other subscribers do: what a subscriber has taken since it
  joined, followed by what waits in its buffer, is the sequence of the events published since, in
  order and with at most some of them left out; at most 256 of them wait; and as long as no more than
  256 were published, none is left out.
\<close>

theorem bus_delivers_in_order:
  assumes "bus_reach b" "Subscribe b = (i, b1)" "Left i \<notin> set xs"
    and "b2 = fold bus_step xs b1"
  shows "subseq (received i xs b1 @ pending i b2) (published xs) \<and> length (pending i b2) \<le> 256 \<and>
    (length (published xs) \<le> 256 \<longrightarrow> received i xs b1 @ pending i b2 = published xs)"
proof -
  have ok: "bus_ok b" by (rule bus_reach_ok) fact
  then have b1: "bus_ok b1" "map_of (subs b1) i = Some []"
    using bus_ok_step [OF ok, of Joined] assms(2)
    by (auto simp: bus_step_def Subscribe_def bus_ok_def map_add_def dest: map_of_SomeD split: option.splits)
  have "bus_ok (fold bus_step ys c)" if "bus_ok c" for ys c using that by (induction ys arbitrary: c) (simp_all add: bus_ok_step)
  from this [OF b1(1)] have "bus_ok b2" by (simp add: assms(4))
  moreover from stays_steps [OF b1 assms(3)] obtain q zs where
    "map_of (subs b2) i = Some q" "received i xs b1 @ q = zs" "subseq zs (published xs)"
    "length (published xs) \<le> subBuffer \<longrightarrow> zs = published xs" by (auto simp: assms(4))
  ultimately show ?thesis by (auto simp: pending_def subBuffer_def bus_ok_def dest!: map_of_SomeD)
qed

theorem bus_delivers_in_order_witness:
  "received 1 [Published 7 (event ''nightly'' 0 (JobStateEvent JobRunning None)), Took 1, Published 8 (event [] 0 (AgentEvent ''a1'' True)), Took 0]
     (snd (Subscribe (snd (Subscribe NewBus)))) =
   [(event ''nightly'' 0 (JobStateEvent JobRunning None))\<lparr>ev_TsMs := 7\<rparr>]"
proof -
  let ?xs = "[Published 7 (event ''nightly'' 0 (JobStateEvent JobRunning None)), Took 1, Published 8 (event [] 0 (AgentEvent ''a1'' True)), Took 0]"
  let ?b1 = "snd (Subscribe (snd (Subscribe NewBus)))"
  have r: "bus_reach (snd (Subscribe NewBus))"
    unfolding bus_reach_def by (rule exI [of _ "[Joined]"]) (simp add: bus_step_def)
  have "received 1 ?xs ?b1 @ pending 1 (fold bus_step ?xs ?b1) = published ?xs"
    using bus_delivers_in_order [OF r _ _ refl, of 1 ?b1 ?xs] by (simp add: Subscribe_def NewBus_def published_def)
  moreover have "pending 1 (fold bus_step ?xs ?b1) = [stamp 8 (event [] 0 (AgentEvent ''a1'' True))]"
    by (simp add: pending_def bus_step_def Subscribe_def NewBus_def Publish_def receive_def subBuffer_def)
  ultimately show ?thesis by (simp add: published_def stamp_def event_def)
qed

definition sample_poller :: Poller where
  "sample_poller = snd (pollerTick (\<lambda>_. False) empty_db [''a0''] NewPoller)"

theorem feed_follows_store_witness:
  "let es = fst (pollerTick (\<lambda>_. False) sample_db [''a1''] sample_poller);
       v = fold follow es \<lparr>v_jobs = Map.empty, v_passes = Map.empty, v_agents = {''a0''}\<rparr>
   in v_jobs v ''j'' = Some JobRunning \<and> v_agents v = {''a1''}"
proof -
  have jobs: "jobs_inv sample_db" by code_simp
  have t: "t_jobs sample_db = [sample_job]" by code_simp
  have "primed sample_poller" "jobStates sample_poller = []" "passStates sample_poller = []" "agentsLive sample_poller = [''a0'']"
    by (simp_all add: sample_poller_def pollerTick_def tickJobs_def ListJobs_def empty_db_def tickAgents_def tickParked_def NewPoller_def Let_def)
  then have p: "primed sample_poller" "follows \<lparr>v_jobs = Map.empty, v_passes = Map.empty, v_agents = {''a0''}\<rparr> sample_poller"
    by (simp_all add: follows_def)
  show ?thesis
    using feed_follows_store [of sample_poller "\<lparr>v_jobs = Map.empty, v_passes = Map.empty, v_agents = {''a0''}\<rparr>"
        sample_db "\<lambda>_. False" "[''a1'']", OF p jobs prod.collapse [symmetric]]
    by (simp add: Let_def t sample_job_def)
qed

end
