(* ===== verification/Render.thy ===== *)
theory Render
  imports Api_Query
begin

text \<open>
  The mails of the coordinator (\<open>notify/render.go\<close>): numbers for readers, the HTML body and the plain
  text body of the three reports. Strings are bytes in UTF-8, so the dash and the delta of the
  templates are written as their bytes. In the HTML templates \<open>~\<close> stands for the quotation mark.
\<close>

section \<open>UTF-8\<close>

text \<open>
  The length of the first rune of a string (\<open>utf8.DecodeRuneInString\<close>): a well-formed sequence counts as
  one rune, any other byte alone.
\<close>

definition cont_byte :: "nat \<Rightarrow> nat \<Rightarrow> char \<Rightarrow> bool" where
  "cont_byte lo hi c = (let k = of_char c in lo \<le> k \<and> k \<le> hi)"

definition second_range :: "nat \<Rightarrow> nat \<times> nat" where
  "second_range k =
     (if k = 0xE0 then (0xA0, 0xBF) else if k = 0xED then (0x80, 0x9F)
      else if k = 0xF0 then (0x90, 0xBF) else if k = 0xF4 then (0x80, 0x8F) else (0x80, 0xBF))"

definition rune_len :: "string \<Rightarrow> nat" where
  "rune_len s =
     (case s of
        [] \<Rightarrow> 0
      | c # cs \<Rightarrow>
          let k = of_char c; n = (if k < 0xC2 then 1 else if k < 0xE0 then 2 else if k < 0xF0 then 3 else if k < 0xF5 then 4 else (1::nat))
          in if 1 < n \<and> n \<le> length s \<and> (case second_range k of (lo, hi) \<Rightarrow> cont_byte lo hi (cs ! 0))
               \<and> list_all (cont_byte 0x80 0xBF) (take (n - 2) (drop 1 cs))
             then n else 1)"

function RuneCount :: "string \<Rightarrow> nat" where
  "RuneCount s = (if s = [] then 0 else Suc (RuneCount (drop (rune_len s) s)))"
  by pat_completeness auto
termination
proof (relation "measure length")
  show "(drop (rune_len s) s, s) \<in> measure length" if "s \<noteq> []" for s
    using that by (cases s) (auto simp: rune_len_def Let_def)
qed simp

declare RuneCount.simps [simp del]

text \<open>\<open>%-*s\<close> and \<open>%*s\<close>: padded to a width in runes, on the right and on the left.\<close>

definition padRight :: "nat \<Rightarrow> string \<Rightarrow> string" where
  "padRight w s = s @ replicate (w - RuneCount s) (CHR '' '')"

definition padLeft :: "nat \<Rightarrow> string \<Rightarrow> string" where
  "padLeft w s = replicate (w - RuneCount s) (CHR '' '') @ s"

section \<open>Numbers\<close>

text \<open>The loop of \<open>commas\<close>: a comma before every digit that has a multiple of three digits from it to the end.\<close>

fun groupDigits :: "bool \<Rightarrow> string \<Rightarrow> string" where
  "groupDigits first [] = []"
| "groupDigits first (c # cs) =
     (if \<not> first \<and> length (c # cs) mod 3 = 0 then [CHR '','', c] else [c]) @ groupDigits False cs"

text \<open>Negation of an \<open>int64\<close> wraps at the least number.\<close>

definition commas :: "int \<Rightarrow> string" where
  "commas n =
     (let neg = n < 0; n' = (if neg then sint (- (word_of_int n :: 64 word)) else n); s = fmt_d n'; sign = (if neg then ''-'' else [])
      in if length s \<le> 3 then sign @ s else sign @ groupDigits True s)"

function unitLoop :: "int \<Rightarrow> int \<Rightarrow> nat \<Rightarrow> int \<times> nat" where
  "unitLoop x dv e = (if x \<ge> 1024 then unitLoop (x div 1024) (dv * 1024) (Suc e) else (dv, e))"
  by pat_completeness auto
termination by (relation "measure (\<lambda>(x, dv, e). nat x)") auto

declare unitLoop.simps [simp del]

text \<open>\<open>%.1f\<close> of a non-negative number: correctly rounded, ties to even.\<close>

definition fmt_1f :: "rat \<Rightarrow> string" where
  "fmt_1f r = (let t = round_even (10 * r) in fmt_d (t div 10) @ ''.'' @ fmt_d (t mod 10))"

text \<open>The divisor is a power of two, so the division of the rounded numbers is exact.\<close>

definition humanBytes :: "int \<Rightarrow> string" where
  "humanBytes n =
     (if n < 1024 then fmt_d n @ '' B''
      else case unitLoop (n div 1024) 1024 0 of
        (dv, e) \<Rightarrow> fmt_1f (round64 (of_int n) / of_int dv) @ '' '' @ [''KMGTPE'' ! e] @ ''iB'')"

definition humanDuration :: "int \<Rightarrow> string" where
  "humanDuration ms =
     (if ms \<le> 0 then ''0s''
      else let s = ms div 1000
           in if s < 60 then fmt_d s @ ''s''
              else let m = s div 60; s' = s mod 60
                   in if m < 60 then fmt_d m @ ''m '' @ fmt_d s' @ ''s''
                      else fmt_d (m div 60) @ ''h '' @ fmt_d (m mod 60) @ ''m'')"

definition verifyText :: "int \<Rightarrow> int \<Rightarrow> string" where
  "verifyText ok fail = (if fail > 0 then commas ok @ '' ok / '' @ commas fail @ '' FAIL'' else commas ok @ '' ok'')"

definition yesNo :: "bool \<Rightarrow> string" where
  "yesNo b = (if b then ''yes'' else ''no'')"

definition truncate :: "string \<Rightarrow> nat \<Rightarrow> string" where
  "truncate s n = (if length s \<le> n then s else take n s)"

definition capitalize :: "string \<Rightarrow> string" where
  "capitalize s = (if s = [] then s else ToUpper (take 1 s) @ drop 1 s)"


section \<open>HTML\<close>

definition markup :: "string \<Rightarrow> string" where
  "markup t = map (\<lambda>c. if c = CHR ''~'' then CHR 0x22 else c) t"

text \<open>\<open>html.EscapeString\<close>.\<close>

definition escape_char :: "char \<Rightarrow> string" where
  "escape_char c =
     (if c = CHR ''&'' then ''&amp;'' else if c = CHR 0x27 then ''&#39;'' else if c = CHR ''<'' then ''&lt;''
      else if c = CHR ''>'' then ''&gt;'' else if c = CHR 0x22 then ''&#34;'' else [c])"

definition EscapeString :: "string \<Rightarrow> string" where
  "EscapeString s = concat (map escape_char s)"

definition colInk :: string where "colInk = ''#1f2933''"
definition colMuted :: string where "colMuted = ''#6b7280''"
definition colLine :: string where "colLine = ''#e5e7eb''"
definition colPanel :: string where "colPanel = ''#f9fafb''"
definition colPage :: string where "colPage = ''#f4f5f7''"
definition colGreen :: string where "colGreen = ''#0f7b4f''"
definition colAmber :: string where "colAmber = ''#b45309''"
definition colRed :: string where "colRed = ''#b91c1c''"
definition colAccent :: string where "colAccent = ''#2563eb''"

definition emDash :: string where "emDash = [CHR 0xE2, CHR 0x80, CHR 0x94]"
definition Delta :: string where "Delta = [CHR 0xCE, CHR 0x94]"

definition monospace :: string where
  "monospace = ''font-family:ui-monospace,SFMono-Regular,Menlo,Consolas,monospace;''"

definition rowColor :: "nat \<Rightarrow> string" where
  "rowColor i = (if i mod 2 = 1 then colPanel else ''#ffffff'')"

definition tableOpen :: "string \<Rightarrow> string" where
  "tableOpen extra = markup ''<table role=~presentation~ width=~100%~ cellpadding=~0~ cellspacing=~0~ style=~border-collapse:collapse;border:1px solid ''
     @ colLine @ '';border-radius:8px;overflow:hidden;'' @ extra @ markup ''~>''"

definition metricsRow :: "nat \<times> string \<times> string \<Rightarrow> string" where
  "metricsRow r = (case r of (i, label, value) \<Rightarrow>
     markup ''<tr style=~background:'' @ rowColor i @ markup '';~>'' @
     markup ''<td style=~padding:10px 16px;font-size:13px;color:'' @ colMuted @ '';border-bottom:1px solid '' @ colLine @ markup '';~>'' @
       EscapeString label @ ''</td>'' @
     markup ''<td align=~right~ style=~padding:10px 16px;font-size:13px;font-weight:600;color:'' @ colInk @ '';border-bottom:1px solid '' @ colLine @
       markup '';font-variant-numeric:tabular-nums;~>'' @ EscapeString value @ ''</td>'' @ ''</tr>'')"

definition metricsTable :: "(string \<times> string) list \<Rightarrow> string" where
  "metricsTable rows = tableOpen [] @ concat (map metricsRow (List.enumerate 0 rows)) @ ''</table>''"

definition sectionTitle :: "string \<Rightarrow> string \<Rightarrow> string" where
  "sectionTitle pad t = markup ''<div style=~font-size:13px;font-weight:600;color:'' @ colInk @ '';padding:'' @ pad @ markup '';~>'' @ t @ ''</div>''"

definition headerCell :: "string \<Rightarrow> string \<Rightarrow> string" where
  "headerCell align h = markup ''<td align=~'' @ align @ markup ''~ style=~padding:8px 12px;color:#ffffff;font-weight:600;~>'' @ EscapeString h @ ''</td>''"

definition trajectoryCell :: "string \<times> string \<Rightarrow> string" where
  "trajectoryCell c = (case c of (v, align) \<Rightarrow>
     markup ''<td align=~'' @ align @ markup ''~ style=~padding:8px 12px;color:'' @ (if align = ''left'' then colMuted else colInk) @
       '';border-top:1px solid '' @ colLine @ markup '';font-variant-numeric:tabular-nums;~>'' @ EscapeString v @ ''</td>'')"

definition trajectoryRow :: "nat \<times> JobPass \<Rightarrow> string" where
  "trajectoryRow r = (case r of (i, p) \<Rightarrow>
     markup ''<tr style=~background:'' @ rowColor i @ markup '';~>'' @
     concat (map trajectoryCell
       [(fmt_d (jp_PassNo p) @ (if jp_IsDelete p then '' (del)'' else []), ''left''), (passStateName (jp_State p), ''left''),
        (humanDuration (jp_DurationMS p), ''right''), (commas (jp_DeltaFiles p), ''right''), (humanBytes (jp_DeltaBytes p), ''right''),
        (commas (jp_Orphans p), ''right''), (verifyText (jp_VerifyOK p) (jp_VerifyFail p), ''right''), (commas (jp_Errors p), ''right'')]) @
     ''</tr>'')"

definition passTrajectoryHTML :: "JobPass list \<Rightarrow> string" where
  "passTrajectoryHTML passes =
     (if passes = [] then []
      else sectionTitle ''6px 0 8px 0'' ''Pass trajectory'' @ tableOpen ''font-size:12px;'' @
        markup ''<tr style=~background:'' @ colInk @ markup '';~>'' @
        concat (map (\<lambda>(i, h). headerCell (if i \<ge> 2 then ''right'' else ''left'') h)
          (List.enumerate 0 [''Pass'', ''State'', ''Duration'', Delta @ '' files'', Delta @ '' bytes'', ''Orphans'', ''Verify'', ''Errors''])) @ ''</tr>'' @
        concat (map trajectoryRow (List.enumerate 0 passes)) @ ''</table>'')"

definition journalTypes :: "(string \<times> string) list" where
  "journalTypes =
     [(''COPIED'', ''copied''), (''META_FIXED'', ''meta fixed''), (''DELETED'', ''deleted''), (''DIR_META'', ''dir meta''),
      (''SKIPPED_CLEAN'', ''skipped (clean)''), (''VERIFY_OK'', ''verify ok''), (''LINK_CREATED'', ''hardlinks created''),
      (''WOULD_COPY'', ''would copy (dry-run)''), (''WOULD_DELETE'', ''would delete (dry-run)''), (''NLINK_DUP'', ''hardlink duplicates''),
      (''ORPHAN'', ''orphans observed''), (''SRC_CHANGED'', ''source changed mid-copy''), (''LINK_FALLBACK'', ''hardlink groups fell back''),
      (''ERROR'', ''errors''), (''FIDELITY_EXCEPTION'', ''fidelity exceptions''), (''VERIFY_FAIL'', ''verify failed'')]"

definition journalSummaryRows :: "(string \<times> int) list \<Rightarrow> (string \<times> string) list" where
  "journalSummaryRows counts =
     concat (map (\<lambda>(key, label). case map_of counts key of Some c \<Rightarrow> if c > 0 then [(label, commas c)] else [] | None \<Rightarrow> []) journalTypes)"

definition journalSummaryHTML :: "(string \<times> int) list \<Rightarrow> string" where
  "journalSummaryHTML counts =
     (let rows = journalSummaryRows counts
      in if rows = [] then [] else sectionTitle ''10px 0 8px 0'' ''Journal summary (all passes)'' @ metricsTable rows)"

definition parkedCell :: "nat \<times> string \<Rightarrow> string" where
  "parkedCell c = (case c of (ci, v) \<Rightarrow>
     markup ''<td align=~left~ style=~padding:8px 12px;color:'' @ (if ci = 2 then colInk else if ci = 5 then colRed else colMuted) @
       '';border-top:1px solid '' @ colLine @ '';'' @ (if ci = 2 then monospace @ ''word-break:break-all;'' else []) @ markup ''~>'' @
       EscapeString v @ ''</td>'')"

definition parkedRow :: "nat \<times> ParkedShardRow \<Rightarrow> string" where
  "parkedRow r = (case r of (i, sh) \<Rightarrow>
     markup ''<tr style=~background:'' @ rowColor i @ markup '';~>'' @
     concat (map parkedCell (List.enumerate 0
       [fmt_d (psr_PassNo sh), kindName (psr_Kind sh), psr_RelPath sh, fmt_d (int (psr_Attempt sh)), psr_LastAgent sh, psr_Error sh])) @
     ''</tr>'')"

definition parkedShardsHTML :: "ParkedShardRow list \<Rightarrow> string" where
  "parkedShardsHTML shards =
     (if shards = [] then []
      else sectionTitle ''6px 0 8px 0'' ''Parked shards'' @ tableOpen ''font-size:12px;'' @
        markup ''<tr style=~background:'' @ colInk @ markup '';~>'' @
        concat (map (headerCell ''left'') [''Pass'', ''Kind'', ''Path'', ''Attempts'', ''Last agent'', ''Error'']) @ ''</tr>'' @
        concat (map parkedRow (List.enumerate 0 shards)) @ ''</table>'')"


definition pathLine :: "string \<Rightarrow> string \<Rightarrow> string" where
  "pathLine label p =
     (if p = [] then []
      else ''<div>'' @ label @ markup '' <span style=~'' @ monospace @ ''color:'' @ colInk @ markup '';~>'' @ EscapeString p @ ''</span></div>'')"

definition pill :: "string \<Rightarrow> string \<Rightarrow> string \<Rightarrow> string" where
  "pill color margin t =
     markup ''<span style=~display:inline-block;background:'' @ color @
     '';color:#ffffff;font-size:12px;font-weight:600;padding:5px 12px;border-radius:999px;'' @ margin @
     markup ''text-transform:uppercase;letter-spacing:0.4px;~>'' @ t @ ''</span>''"

text \<open>The frame of every mail: header band, title with the job and its trees, status, metrics, extra section, note, footer.\<close>

definition htmlHead :: "string \<Rightarrow> string \<Rightarrow> string \<Rightarrow> string \<Rightarrow> string" where
  "htmlHead job src dst title =
     markup ''<div style=~margin:0;padding:24px 0;background:'' @ colPage @
       '';font-family:-apple-system,Segoe UI,Roboto,Helvetica,Arial,sans-serif;color:'' @ colInk @ markup '';~>'' @
     markup ''<table role=~presentation~ width=~100%~ cellpadding=~0~ cellspacing=~0~ style=~border-collapse:collapse;~><tr><td align=~center~>'' @
     markup ''<table role=~presentation~ width=~600~ cellpadding=~0~ cellspacing=~0~ style=~width:600px;max-width:600px;border-collapse:collapse;background:#ffffff;border:1px solid ''
       @ colLine @ markup '';border-radius:10px;overflow:hidden;~>'' @
     markup ''<tr><td style=~background:'' @ colInk @ markup '';padding:20px 28px;~>'' @
     markup ''<span style=~color:#ffffff;font-size:18px;font-weight:700;letter-spacing:0.3px;~>drsync</span>'' @
     markup ''<span style=~color:#9aa5b1;font-size:13px;font-weight:500;padding-left:10px;~>migration notification</span>'' @ ''</td></tr>'' @
     markup ''<tr><td style=~padding:28px 28px 8px 28px;~>'' @
     markup ''<div style=~font-size:20px;font-weight:700;color:'' @ colInk @ markup '';~>'' @ EscapeString title @ ''</div>'' @
     markup ''<div style=~font-size:14px;color:'' @ colMuted @ markup '';padding-top:4px;~>job <span style=~font-weight:600;color:'' @ colInk @ markup '';~>'' @
       EscapeString job @ ''</span></div>'' @
     (if src \<noteq> [] \<or> dst \<noteq> []
      then markup ''<div style=~font-size:13px;color:'' @ colMuted @ markup '';padding-top:8px;line-height:1.6;word-break:break-all;~>'' @
        pathLine ''source'' src @ pathLine ''destination'' dst @ ''</div>'' else [])"

definition htmlDoc :: "string \<Rightarrow> string \<Rightarrow> string \<Rightarrow> string \<Rightarrow> string \<Rightarrow> string \<Rightarrow> bool \<Rightarrow> string \<Rightarrow> string \<Rightarrow> string \<Rightarrow> string" where
  "htmlDoc job src dst title statusText statusColor dryRun note metrics extra =
     htmlHead job src dst title @
     markup ''<div style=~padding-top:14px;~>'' @ pill statusColor [] (EscapeString statusText) @
     (if dryRun then pill colMuted ''margin-left:8px;'' ''dry run'' else []) @ ''</div></td></tr>'' @
     markup ''<tr><td style=~padding:16px 28px 8px 28px;~>'' @ metrics @ ''</td></tr>'' @
     (if extra \<noteq> [] then markup ''<tr><td style=~padding:8px 28px 8px 28px;~>'' @ extra @ ''</td></tr>'' else []) @
     (if note \<noteq> []
      then markup ''<tr><td style=~padding:8px 28px 20px 28px;~><div style=~background:'' @ colPanel @ '';border-left:3px solid '' @ colAccent @
        '';border-radius:4px;padding:12px 14px;font-size:13px;color:'' @ colInk @ markup '';~>'' @ EscapeString note @ ''</div></td></tr>'' else []) @
     markup ''<tr><td style=~padding:18px 28px;border-top:1px solid '' @ colLine @ markup '';~>'' @
     markup ''<div style=~font-size:12px;color:'' @ colMuted @
       markup '';~>Automated message from the drsync coordinator. You are receiving this because this job's spec lists you as a notification recipient.</div>'' @
     ''</td></tr>'' @ ''</table></td></tr></table></div>''"

section \<open>Plain text\<close>

abbreviation nl :: string where "nl \<equiv> [CHR 0x0A]"

definition optLine :: "string \<Rightarrow> string \<Rightarrow> string" where
  "optLine label v = (if v = [] then [] else label @ v @ nl)"

definition rule44 :: string where
  "rule44 = replicate 44 (CHR ''-'') @ nl"

definition rowLines :: "(string \<times> string) list \<Rightarrow> string" where
  "rowLines rows =
     (let width = fold (\<lambda>r w. if length (fst r) > w then length (fst r) else w) rows 0
      in concat (map (\<lambda>(l, v). ''  '' @ padRight width l @ ''  '' @ v @ nl) rows))"

definition journalSummaryText :: "(string \<times> int) list \<Rightarrow> string" where
  "journalSummaryText counts =
     (let rows = journalSummaryRows counts
      in if rows = [] then [] else nl @ ''Journal summary (all passes):'' @ nl @ rowLines rows)"

definition footerText :: "string \<Rightarrow> string" where
  "footerText note = (if note = [] then [] else nl @ note @ nl) @ nl @ ''--'' @ nl @ ''Automated message from the drsync coordinator.'' @ nl"

definition trajectoryLine :: "JobPass \<Rightarrow> string" where
  "trajectoryLine p =
     ''  '' @ padRight 4 (fmt_d (jp_PassNo p) @ (if jp_IsDelete p then ''d'' else [])) @ ''  '' @ padRight 10 (truncate (passStateName (jp_State p)) 10) @
     ''  '' @ padLeft 8 (humanDuration (jp_DurationMS p)) @ ''  '' @ padLeft 8 (commas (jp_DeltaFiles p)) @ ''  '' @ padLeft 10 (humanBytes (jp_DeltaBytes p)) @
     ''  '' @ padLeft 7 (commas (jp_Orphans p)) @ ''  '' @ padRight 12 (verifyText (jp_VerifyOK p) (jp_VerifyFail p)) @ ''  '' @ padLeft 6 (commas (jp_Errors p)) @ nl"

definition textDoc :: "string \<Rightarrow> string \<Rightarrow> string \<Rightarrow> string \<Rightarrow> string \<Rightarrow> bool \<Rightarrow> string \<Rightarrow> (string \<times> string) list \<Rightarrow> JobPass list \<Rightarrow> string" where
  "textDoc job src dst title statusText dryRun note rows passes =
     ''drsync '' @ emDash @ '' '' @ title @ nl @ ''job: '' @ job @ nl @ optLine ''source: '' src @ optLine ''destination: '' dst @
     ''status: '' @ statusText @ nl @ (if dryRun then ''mode: DRY RUN (no data modified)'' @ nl else []) @ rule44 @ rowLines rows @
     (if passes = [] then []
      else nl @ ''Pass trajectory:'' @ nl @
        ''  pass  state       duration      '' @ Delta @ ''files      '' @ Delta @ ''bytes  orphans  verify        errors'' @ nl @
        concat (map trajectoryLine passes)) @
     footerText note"

definition parkedLine :: "ParkedShardRow \<Rightarrow> string" where
  "parkedLine sh =
     ''  '' @ padRight 4 (fmt_d (psr_PassNo sh)) @ ''  '' @ padRight 10 (truncate (kindName (psr_Kind sh)) 10) @ ''  '' @ padRight 40 (truncate (psr_RelPath sh) 40) @
     ''  '' @ padLeft 8 (fmt_d (int (psr_Attempt sh))) @ ''  '' @ padRight 12 (truncate (psr_LastAgent sh) 12) @ ''  '' @ psr_Error sh @ nl"

definition parkedShardsText :: "string \<Rightarrow> string \<Rightarrow> string \<Rightarrow> string \<Rightarrow> ParkedShardRow list \<Rightarrow> string" where
  "parkedShardsText job src dst note shards =
     ''drsync '' @ emDash @ '' Shards parked, action required'' @ nl @ ''job: '' @ job @ nl @ optLine ''source: '' src @ optLine ''destination: '' dst @ rule44 @
     (if shards = [] then []
      else nl @ ''Parked shards:'' @ nl @
        ''  pass  kind        path                                     attempts  last agent    error'' @ nl @ concat (map parkedLine shards)) @
     footerText note"

section \<open>The three mails\<close>

record email =
  em_subject :: string
  em_html :: string
  em_text :: string

definition passStatus :: "PassReport \<Rightarrow> string \<times> string" where
  "passStatus r =
     (if pr_Errors r > 0 \<or> pr_VerifyFail r > 0 then (''with errors'', colRed)
      else if pr_JobDone r \<and> pr_Converged r then (''converged'', colGreen) else (''ok'', colGreen))"

definition passRows :: "PassReport \<Rightarrow> (string \<times> string) list" where
  "passRows r =
     (if pr_IsDelete r then [(''Orphans removed'', commas (pr_Orphans r)), (''Errors'', commas (pr_Errors r))]
      else [(''Files copied'', commas (pr_FilesCopied r)), (''Bytes copied'', humanBytes (pr_BytesCopied r)), (''Metadata fixed'', commas (pr_MetaFixed r)),
            (''Orphans observed'', commas (pr_Orphans r)), (''Verify'', verifyText (pr_VerifyOK r) (pr_VerifyFail r)), (''Errors'', commas (pr_Errors r))]) @
     [(''Duration'', humanDuration (pr_DurationMS r))]"

definition passNote :: "PassReport \<Rightarrow> string" where
  "passNote r =
     (if \<not> pr_JobDone r then []
      else if pr_Converged r then ''This was the final pass '' @ emDash @ '' the job has converged and is now COMPLETED.''
      else ''This was the final pass '' @ emDash @ '' the job is now COMPLETED.'')"

definition renderPass :: "PassReport \<Rightarrow> email" where
  "renderPass r =
     (let kind = (if pr_IsDelete r then ''delete pass'' else ''pass''); (statusText, statusColor) = passStatus r;
          title = capitalize kind @ '' '' @ fmt_d (pr_PassNo r) @ '' complete''; rows = passRows r; note = passNote r
      in \<lparr>em_subject = pr_Job r @ '' '' @ emDash @ '' '' @ kind @ '' '' @ fmt_d (pr_PassNo r) @ '' complete ('' @ statusText @ '')'',
          em_html = htmlDoc (pr_Job r) (pr_Src r) (pr_Dst r) title statusText statusColor (pr_DryRun r) note (metricsTable rows) [],
          em_text = textDoc (pr_Job r) (pr_Src r) (pr_Dst r) title statusText (pr_DryRun r) note rows []\<rparr>)"

definition jobStatus :: "JobReport \<Rightarrow> string \<times> string" where
  "jobStatus r =
     (if rep_ParkedShards r > 0 then (''needs attention'', colAmber)
      else if rep_Errors r > 0 \<or> rep_VerifyFail r > 0 then (''with errors'', colRed)
      else if rep_Converged r then (''converged'', colGreen) else (''completed'', colGreen))"

definition hardlinkText :: "JobReport \<Rightarrow> string" where
  "hardlinkText r = commas (rep_LinksCreated r) @ '' linked'' @
     (if rep_LinkFallback r > 0 then '', '' @ commas (rep_LinkFallback r) @ '' fell back to independent copy'' else []) @
     (if rep_LinkAnchorRaces r > 0 then '', '' @ commas (rep_LinkAnchorRaces r) @ '' anchor race(s)'' else [])"

definition jobRows :: "JobReport \<Rightarrow> (string \<times> string) list" where
  "jobRows r =
     [(''Passes'', commas (int (length (rep_Passes r)))), (''Files copied'', commas (rep_FilesCopied r)), (''Bytes copied'', humanBytes (rep_BytesCopied r)),
      (''Metadata fixed'', commas (rep_MetaFixed r)), (''Verify'', verifyText (rep_VerifyOK r) (rep_VerifyFail r)),
      (''Fidelity exceptions'', commas (rep_FidelityExc r)), (''Errors'', commas (rep_Errors r)), (''Converged'', yesNo (rep_Converged r)),
      (''Orphans remaining'', commas (OrphansRemaining r)), (''Delete pass ran'', yesNo (DeletePassRan r))] @
     (if rep_LinksCreated r + rep_LinkAnchorRaces r + rep_LinkFallback r > 0 then [(''Hardlinks'', hardlinkText r)] else []) @
     (if rep_ParkedShards r > 0 then [(''Parked shards'', commas (rep_ParkedShards r) @ '' '' @ emDash @ '' operator attention required'')] else [])"

definition jobNote :: "JobReport \<Rightarrow> string" where
  "jobNote r =
     (if rep_ParkedShards r > 0 then fmt_d (rep_ParkedShards r) @ '' shard(s) are parked and need operator attention (see `drsync queue`).''
      else if \<not> rep_Converged r then ''The job stopped without reaching a zero-delta fixpoint (pass ceiling reached).'' else [])"

definition renderJob :: "JobReport \<Rightarrow> email" where
  "renderJob r =
     (let (statusText, statusColor) = jobStatus r; rows = jobRows r; note = jobNote r; title = ''Migration complete''
      in \<lparr>em_subject = rep_Job r @ '' '' @ emDash @ '' migration complete ('' @ statusText @ '')'',
          em_html = htmlDoc (rep_Job r) (rep_Src r) (rep_Dst r) title statusText statusColor (rep_DryRun r) note (metricsTable rows)
            (passTrajectoryHTML (rep_Passes r) @ journalSummaryHTML (JournalSummary r)),
          em_text = textDoc (rep_Job r) (rep_Src r) (rep_Dst r) title statusText (rep_DryRun r) note rows (rep_Passes r) @
            journalSummaryText (JournalSummary r)\<rparr>)"

definition renderParkedShards :: "ParkedShardsReport \<Rightarrow> email" where
  "renderParkedShards r =
     (let n = fmt_d (int (length (psn_Shards r)));
          note = n @ '' shard(s) hit their retry ceiling and are parked. Review with `drsync queue` or the WebUI's Queue & shards view, then `drsync queue retry <shard-id>` (after fixing the underlying cause) or `drsync queue drop <shard-id>` to accept the gap.''
      in \<lparr>em_subject = psn_Job r @ '' '' @ emDash @ '' '' @ n @ '' shard(s) parked, operator attention required'',
          em_html = htmlDoc (psn_Job r) (psn_Src r) (psn_Dst r) (''Shards parked '' @ emDash @ '' action required'') ''needs attention'' colAmber False note []
            (parkedShardsHTML (psn_Shards r)),
          em_text = parkedShardsText (psn_Job r) (psn_Src r) (psn_Dst r) note (psn_Shards r)\<rparr>)"


section \<open>Numbers are exact\<close>

lemma length_groupDigits: "length (groupDigits False s) = length s + length s div 3"
proof (induction s)
  case (Cons c cs)
  then show ?case by (cases "length (c # cs) mod 3 = 0") (auto, presburger+)
qed simp

lemma groupDigits_digits:
  assumes "CHR '','' \<notin> set s"
  shows "filter (\<lambda>c. c \<noteq> CHR '','') (groupDigits b s) = s"
  using assms by (induction b s rule: groupDigits.induct) auto

lemma groupDigits_commas:
  assumes "CHR '','' \<notin> set s" "i < length (groupDigits False s)"
  shows "groupDigits False s ! i = CHR '','' \<longleftrightarrow> (length (groupDigits False s) - i) mod 4 = 0"
  using assms
proof (induction s arbitrary: i)
  case (Cons c cs)
  let ?g = "groupDigits False cs" and ?n = "length (c # cs)"
  have IH: "j < length ?g \<Longrightarrow> ?g ! j = CHR '','' \<longleftrightarrow> (length ?g - j) mod 4 = 0" for j using Cons by simp
  have l: "length ?g = length cs + length cs div 3" by (rule length_groupDigits)
  show ?case
  proof (cases "?n mod 3 = 0")
    case True
    then have "length cs = 3 * (length cs div 3) + 2" by simp presburger
    then obtain q where q: "length cs = 3 * q + 2" by blast
    then have "length ?g = 4 * q + 2" using l by simp
    then show ?thesis using Cons.prems True IH by (auto simp: nth_Cons' q) presburger+
  next
    case False
    then have "length ?g mod 4 \<noteq> 3" using l by simp presburger
    then show ?thesis using Cons.prems False IH by (auto simp: nth_Cons') presburger+
  qed
qed simp

lemma groupDigits_first:
  assumes "s \<noteq> []"
  shows "groupDigits True s = hd s # groupDigits False (tl s)"
  using assms by (cases s) simp_all

lemma unitLoop_range:
  assumes "unitLoop x dv e = (dv', e')" "0 \<le> x" "x * dv \<le> n" "n < (x + 1) * dv" "0 < dv" "dv = 1024 ^ Suc e" "1 \<le> x"
  shows "dv' = 1024 ^ Suc e' \<and> dv' \<le> n \<and> n < 1024 * dv'"
  using assms
proof (induction x dv e rule: unitLoop.induct)
  case (1 x dv e)
  show ?case
  proof (cases "x \<ge> 1024")
    case True
    have r: "unitLoop (x div 1024) (dv * 1024) (Suc e) = (dv', e')" using 1(2) True by (subst (asm) unitLoop.simps) simp
    have "x div 1024 * 1024 \<le> x" "x + 1 \<le> (x div 1024 + 1) * 1024" by presburger+
    then have "x div 1024 * 1024 * dv \<le> x * dv" "(x + 1) * dv \<le> (x div 1024 + 1) * 1024 * dv"
      using 1(6) by (meson mult_right_mono order_less_imp_le)+
    then have "x div 1024 * 1024 * dv \<le> n" "n < (x div 1024 + 1) * 1024 * dv" using 1(4,5) by linarith+
    then have "x div 1024 * (dv * 1024) \<le> n" "n < (x div 1024 + 1) * (dv * 1024)" by (simp_all only: mult.assoc mult.commute [of dv 1024])
    moreover have "1 \<le> x div 1024" using True by linarith
    ultimately show ?thesis using 1(1) [OF True r] 1(6,7) by simp
  next
    case False
    then have e: "dv' = dv" "e' = e" using 1(2) by (subst (asm) unitLoop.simps, simp)+
    have "dv \<le> x * dv" using 1(6,8) mult_right_mono [of 1 x dv] by simp
    moreover have "(x + 1) * dv \<le> 1024 * dv" using False 1(6) by (intro mult_right_mono) auto
    ultimately have "dv \<le> n" "n < 1024 * dv" using 1(4,5) by linarith+
    then show ?thesis using e 1(7) by simp
  qed
qed


lemma comma_not_digit: "CHR '','' \<notin> set (fmt_d n)"
  by (rule fmt_int_no_sep) (simp add: hex_chars_def)

lemma commas_eq:
  assumes "- (2 ^ 63) < n" "n < 2 ^ 63"
  shows "commas n = (if n < 0 then ''-'' else []) @ (let s = fmt_d \<bar>n\<bar> in if length s \<le> 3 then s else groupDigits True s)"
proof (cases "n < 0")
  case True
  have "- (word_of_int n :: 64 word) = word_of_int (- n)" by simp
  then have "sint (- (word_of_int n :: 64 word)) = - n"
    using assms True by (simp only: signed_of_int) (simp add: signed_take_bit_int_eq_self)
  then show ?thesis using True by (simp add: commas_def Let_def)
qed (simp add: commas_def Let_def)

lemma groupDigits_shape:
  assumes "CHR '','' \<notin> set s" "s \<noteq> []" "i < length (groupDigits True s)" "groupDigits True s ! i = CHR '',''"
  shows "i > 0 \<and> (length (groupDigits True s) - i) mod 4 = 0"
proof -
  have g: "groupDigits True s = hd s # groupDigits False (tl s)" by (rule groupDigits_first) fact
  have "hd s \<noteq> CHR '',''" using assms(1,2) by (cases s) auto
  then obtain j where j: "i = Suc j" using assms(3,4) g by (cases i) auto
  have "CHR '','' \<notin> set (tl s)" using assms(1,2) by (cases s) auto
  then show ?thesis using groupDigits_commas [of "tl s" j] assms(3,4) by (simp add: g j)
qed

text \<open>
  The numbers in a mail are exact and readable: without its commas a count is the decimal number, and every comma
  stands before a multiple of three digits with another digit in front of it; the unit of a size is always
  one of the six letters, and the size is at least one and below 1024 of that unit.
\<close>

theorem mail_numbers_exact:
  assumes n: "- (2 ^ 63) < n" "n < 2 ^ 63" and b: "1024 \<le> b" "b < 2 ^ 63"
  shows "filter (\<lambda>c. c \<noteq> CHR '','') (commas n) = fmt_d n \<and>
    (\<forall>i < length (commas n). commas n ! i = CHR '','' \<longrightarrow> (length (commas n) - i) mod 4 = 0 \<and> i > 0) \<and>
    (\<exists>e < 6. humanBytes b = fmt_1f (round64 (of_int b) / 1024 ^ Suc e) @ '' '' @ [''KMGTPE'' ! e] @ ''iB'' \<and>
       1024 ^ Suc e \<le> b \<and> b < 1024 * 1024 ^ Suc e)"
proof (intro conjI)
  let ?s = "fmt_d \<bar>n\<bar>" and ?m = "if n < 0 then ''-'' else []"
  have d: "fmt_d n = ?m @ ?s" by (simp add: fmt_int_def)
  have ne: "?s \<noteq> []" by (simp add: fmt_int_def fmt_nat_nonempty)
  have c: "CHR '','' \<notin> set ?s" by (rule comma_not_digit)
  show "filter (\<lambda>c. c \<noteq> CHR '','') (commas n) = fmt_d n"
    using groupDigits_digits [OF c, of True] c by (auto simp: commas_eq [OF n] Let_def d filter_id_conv)
  show "\<forall>i < length (commas n). commas n ! i = CHR '','' \<longrightarrow> (length (commas n) - i) mod 4 = 0 \<and> i > 0"
  proof (intro allI impI)
    fix i assume i: "i < length (commas n)" "commas n ! i = CHR '',''"
    let ?t = "if length ?s \<le> 3 then ?s else groupDigits True ?s"
    have e: "commas n = ?m @ ?t" by (simp add: commas_eq [OF n] Let_def)
    obtain k where k: "i = length ?m + k" "?t ! k = CHR '',''" "k < length ?t"
      using i unfolding e by (cases i; cases "n < 0") (auto split: if_splits)
    have "\<not> length ?s \<le> 3" using k(2,3) c by (metis nth_mem)
    then show "(length (commas n) - i) mod 4 = 0 \<and> i > 0" using groupDigits_shape [OF c ne, of k] k by (simp add: e)
  qed
  obtain dv e where u: "unitLoop (b div 1024) 1024 0 = (dv, e)" by force
  have r: "dv = 1024 ^ Suc e" "dv \<le> b" "b < 1024 * dv" proof -
    have "b div 1024 * 1024 \<le> b" "b < (b div 1024 + 1) * 1024" by presburger+
    then have "dv = 1024 ^ Suc e \<and> dv \<le> b \<and> b < 1024 * dv" using unitLoop_range [OF u, of b] b by simp
    then show "dv = 1024 ^ Suc e" "dv \<le> b" "b < 1024 * dv" by blast+
  qed
  have "(1024::int) ^ Suc e < 1024 ^ 7" using r b by simp
  then have "e < 6" by (subst (asm) power_strict_increasing_iff) simp_all
  then show "\<exists>e < 6. humanBytes b = fmt_1f (round64 (of_int b) / 1024 ^ Suc e) @ '' '' @ [''KMGTPE'' ! e] @ ''iB'' \<and>
       1024 ^ Suc e \<le> b \<and> b < 1024 * 1024 ^ Suc e"
    using r b u by (intro exI [of _ e]) (simp add: humanBytes_def)
qed

theorem mail_numbers_exact_witness:
  "commas (- 1234567) = ''-1,234,567'' \<and> filter (\<lambda>c. c \<noteq> CHR '','') (commas (- 1234567)) = fmt_d (- 1234567) \<and> humanBytes 1536 = ''1.5 KiB''"
proof -
  have "commas (- 1234567) = ''-1,234,567''" by (simp add: commas_eq fmt_int_def fmt_nat.simps digit_def)
  moreover have "unitLoop 1 1024 0 = (1024, 0)" by (simp add: unitLoop.simps)
  moreover have "fmt_1f (3 / 2) = ''1.5''" "round64 1536 = 1536" by code_simp+
  ultimately have "commas (- 1234567) = ''-1,234,567''" "humanBytes 1536 = ''1.5 KiB''" by (simp_all add: humanBytes_def fmt_int_def)
  then show ?thesis using mail_numbers_exact [of "- 1234567" 1536] by simp
qed

text \<open>The least 64-bit number is its own negation: \<open>commas\<close> gives it two signs.\<close>

lemma commas_min: "commas (- (2 ^ 63)) = ''--9,223,372,036,854,775,808''"
  by (simp add: commas_def fmt_int_def fmt_nat.simps digit_def)

section \<open>Text never becomes markup\<close>

text \<open>The characters that open and close tags and attribute values.\<close>

definition marks :: "string \<Rightarrow> string" where
  "marks s = filter (\<lambda>c. c \<in> {CHR ''<'', CHR ''>'', CHR 0x22, CHR 0x27}) s"

lemma marks_append [simp]: "marks (s @ t) = marks s @ marks t"
  by (simp add: marks_def)

lemma marks_Nil [simp]: "marks [] = []"
  by (simp add: marks_def)

lemma marks_EscapeString [simp]: "marks (EscapeString s) = []"
  by (induction s) (auto simp: EscapeString_def escape_char_def marks_def)

lemma marks_concat: "marks (concat xs) = concat (map marks xs)"
  by (induction xs) simp_all

lemma marks_htmlDoc:
  assumes "(src = []) = (src' = [])" "(dst = []) = (dst' = [])" "(note = []) = (note' = [])" "(extra = []) = (extra' = [])"
    and "marks metrics = marks metrics'" "marks extra = marks extra'"
  shows "marks (htmlDoc job src dst title st color dry note metrics extra) = marks (htmlDoc job' src' dst' title' st' color dry note' metrics' extra')"
  using assms by (auto simp: htmlDoc_def htmlHead_def pathLine_def pill_def simp del: append_Cons append.simps)

lemma marks_parkedCell: "marks (parkedCell (i, v)) = marks (parkedCell (i, v'))"
  by (simp add: parkedCell_def del: append_Cons append.simps)

lemma marks_parkedRow: "marks (parkedRow (i, sh)) = marks (parkedRow (i, sh'))"
  by (simp del: append_Cons append.simps add: parkedRow_def marks_concat comp_def enumerate_simps
      marks_parkedCell [of _ "fmt_d (psr_PassNo sh)" "fmt_d (psr_PassNo sh')"] marks_parkedCell [of _ "kindName (psr_Kind sh)" "kindName (psr_Kind sh')"]
      marks_parkedCell [of _ "psr_RelPath sh" "psr_RelPath sh'"] marks_parkedCell [of _ "fmt_d (int (psr_Attempt sh))" "fmt_d (int (psr_Attempt sh'))"]
      marks_parkedCell [of _ "psr_LastAgent sh" "psr_LastAgent sh'"] marks_parkedCell [of _ "psr_Error sh" "psr_Error sh'"])

lemma marks_parkedShardsHTML:
  assumes "length shs = length shs'"
  shows "marks (parkedShardsHTML shs) = marks (parkedShardsHTML shs')"
proof -
  have "map (marks \<circ> parkedRow) (List.enumerate n shs) = map (marks \<circ> parkedRow) (List.enumerate n shs')" for n
    using assms by (induction shs shs' arbitrary: n rule: list_induct2) (simp_all add: marks_parkedRow)
  moreover have "shs = [] \<longleftrightarrow> shs' = []" using assms by (cases shs; cases shs') simp_all
  ultimately show ?thesis by (simp add: parkedShardsHTML_def marks_concat del: append_Cons append.simps)
qed


text \<open>The markup of a mail does not depend on the texts in it.\<close>

lemma marks_renderPass:
  assumes "(src = []) = (pr_Src r = [])" "(dst = []) = (pr_Dst r = [])"
  shows "marks (em_html (renderPass (r\<lparr>pr_Job := job, pr_Src := src, pr_Dst := dst\<rparr>))) = marks (em_html (renderPass r))"
proof -
  let ?r = "r\<lparr>pr_Job := job, pr_Src := src, pr_Dst := dst\<rparr>"
  have s: "passStatus ?r = passStatus r" "passRows ?r = passRows r" "passNote ?r = passNote r" "pr_DryRun ?r = pr_DryRun r"
    by (simp_all add: passStatus_def passRows_def passNote_def)
  obtain st col where p: "passStatus r = (st, col)" by force
  show ?thesis unfolding renderPass_def Let_def s p prod.case email.select_convs
    by (rule marks_htmlDoc) (use assms in simp_all)
qed

lemma marks_renderJob:
  assumes "(src = []) = (rep_Src r = [])" "(dst = []) = (rep_Dst r = [])"
  shows "marks (em_html (renderJob (r\<lparr>rep_Job := job, rep_Src := src, rep_Dst := dst\<rparr>))) = marks (em_html (renderJob r))"
proof -
  let ?r = "r\<lparr>rep_Job := job, rep_Src := src, rep_Dst := dst\<rparr>"
  have s: "jobStatus ?r = jobStatus r" "jobRows ?r = jobRows r" "jobNote ?r = jobNote r" "rep_DryRun ?r = rep_DryRun r"
      "rep_Passes ?r = rep_Passes r" "JournalSummary ?r = JournalSummary r"
    by (simp_all add: jobStatus_def jobRows_def jobNote_def hardlinkText_def)
  obtain st col where p: "jobStatus r = (st, col)" by force
  show ?thesis unfolding renderJob_def Let_def s p prod.case email.select_convs
    by (rule marks_htmlDoc) (use assms in simp_all)
qed

lemma marks_renderParked:
  assumes "(src = []) = (psn_Src r = [])" "(dst = []) = (psn_Dst r = [])" "length shs = length (psn_Shards r)"
  shows "marks (em_html (renderParkedShards \<lparr>psn_Job = job, psn_Src = src, psn_Dst = dst, psn_Shards = shs\<rparr>)) = marks (em_html (renderParkedShards r))"
proof -
  have "shs = [] \<longleftrightarrow> psn_Shards r = []" using assms(3) by (cases shs; cases "psn_Shards r") simp_all
  then have "parkedShardsHTML shs = [] \<longleftrightarrow> parkedShardsHTML (psn_Shards r) = []" by (simp add: parkedShardsHTML_def sectionTitle_def markup_def)
  then show ?thesis unfolding renderParkedShards_def Let_def email.select_convs ParkedShardsReport.select_convs assms(3)
    by (intro marks_htmlDoc marks_parkedShardsHTML) (use assms in simp_all)
qed

text \<open>
  (C37) No text in a mail becomes markup: whatever the job's name, its trees, and, in the alert, the paths, agents and error
  texts of the parked shards are, the sequence of angle brackets and quotation marks of the HTML body is the same.
\<close>

theorem mail_text_is_no_markup:
  assumes "(src = []) = (pr_Src p = [])" "(dst = []) = (pr_Dst p = [])"
    and "(src = []) = (rep_Src j = [])" "(dst = []) = (rep_Dst j = [])"
    and "(src = []) = (psn_Src k = [])" "(dst = []) = (psn_Dst k = [])" "length shs = length (psn_Shards k)"
  shows "marks (em_html (renderPass (p\<lparr>pr_Job := job, pr_Src := src, pr_Dst := dst\<rparr>))) = marks (em_html (renderPass p)) \<and>
    marks (em_html (renderJob (j\<lparr>rep_Job := job, rep_Src := src, rep_Dst := dst\<rparr>))) = marks (em_html (renderJob j)) \<and>
    marks (em_html (renderParkedShards \<lparr>psn_Job = job, psn_Src = src, psn_Dst = dst, psn_Shards = shs\<rparr>)) = marks (em_html (renderParkedShards k))"
  using marks_renderPass [OF assms(1,2)] marks_renderJob [OF assms(3,4)] marks_renderParked [OF assms(5-7)] by blast

definition sample_row :: "string \<Rightarrow> ParkedShardRow" where
  "sample_row e = \<lparr>psr_PassNo = 1, psr_Kind = KindDir, psr_RelPath = ''a'', psr_Attempt = 5, psr_Error = e, psr_LastAgent = ''n1''\<rparr>"

definition sample_pass_report :: PassReport where
  "sample_pass_report = \<lparr>pr_Job = ''j'', pr_Src = ''/a'', pr_Dst = ''/b'', pr_PassNo = 1, pr_IsDelete = False, pr_DryRun = False, pr_DurationMS = 5,
     pr_FilesCopied = 1, pr_BytesCopied = 2, pr_MetaFixed = 0, pr_Orphans = 0, pr_VerifyOK = 0, pr_VerifyFail = 0, pr_Errors = 0,
     pr_JobDone = False, pr_Converged = False\<rparr>"

definition sample_job_report :: JobReport where
  "sample_job_report = \<lparr>rep_Job = ''j'', rep_Src = ''/a'', rep_Dst = ''/b'', rep_State = JobCompleted, rep_DryRun = False, rep_Passes = [],
     rep_FilesCopied = 1, rep_BytesCopied = 2, rep_MetaFixed = 0, rep_Errors = 0, rep_FidelityExc = 0, rep_VerifyOK = 0, rep_VerifyFail = 0,
     rep_Converged = True, OrphansRemaining = 0, DeletePassRan = False, rep_ParkedShards = 0, rep_LinksCreated = 0, rep_LinkAnchorRaces = 0,
     rep_LinkFallback = 0, JournalSummary = []\<rparr>"

theorem mail_text_is_no_markup_witness:
  "marks (em_html (renderParkedShards \<lparr>psn_Job = ''<script>'', psn_Src = ''/s'', psn_Dst = ''/d'', psn_Shards = [sample_row ''</td><b>'']\<rparr>)) =
   marks (em_html (renderParkedShards \<lparr>psn_Job = ''j'', psn_Src = ''/a'', psn_Dst = ''/b'', psn_Shards = [sample_row ''io'']\<rparr>))"
  using mail_text_is_no_markup [of "''/s''" sample_pass_report "''/d''" sample_job_report
      "\<lparr>psn_Job = ''j'', psn_Src = ''/a'', psn_Dst = ''/b'', psn_Shards = [sample_row ''io'']\<rparr>" "[sample_row ''</td><b>'']" "''<script>''"]
  by (simp add: sample_pass_report_def sample_job_report_def)

end
