(* ===== verification/Notify.thy ===== *)
theory Notify
  imports Render
begin

text \<open>
  Email delivery (\<open>notify/notify.go\<close>): the SMTP configuration, which reports become mails, the message with its
  headers and quoted-printable parts, and one SMTP transaction as the sequence of what is sent on the
  connection, in the clear or encrypted. The server's answers and \<open>mail.ParseAddress\<close> are parameters.
\<close>

section \<open>Configuration\<close>

record SMTPConfig =
  smtp_Host :: string
  smtp_Port :: int
  smtp_Username :: string
  smtp_Password :: string
  smtp_From :: string
  smtp_Security :: string
  smtp_HELO :: string
  SubjectPrefix :: string
  TimeoutSeconds :: int
  ParkedShardRollupSeconds :: int

datatype smtp_error = SMTPRead | SMTPParse | NoHost | NoFrom | BadFrom string | BadSecurity string

text \<open>\<open>hostname\<close> is the result of \<open>os.Hostname\<close>.\<close>

definition smtp_applyDefaults :: "string option \<Rightarrow> SMTPConfig \<Rightarrow> SMTPConfig" where
  "smtp_applyDefaults hostname c =
     (let sec = (if smtp_Security c = [] then ''starttls'' else smtp_Security c)
      in c\<lparr>smtp_Security := sec,
           smtp_Port := (if smtp_Port c = 0 then (if sec = ''tls'' then 465 else if sec = ''none'' then 25 else 587) else smtp_Port c),
           SubjectPrefix := (if SubjectPrefix c = [] then ''[drsync]'' else SubjectPrefix c),
           TimeoutSeconds := (if TimeoutSeconds c = 0 then 30 else TimeoutSeconds c),
           ParkedShardRollupSeconds := (if ParkedShardRollupSeconds c = 0 then 300 else ParkedShardRollupSeconds c),
           smtp_HELO := (if smtp_HELO c = [] then (case hostname of Some h \<Rightarrow> h | None \<Rightarrow> ''localhost'') else smtp_HELO c)\<rparr>)"

definition smtp_validate :: "(string \<Rightarrow> string option) \<Rightarrow> SMTPConfig \<Rightarrow> smtp_error option" where
  "smtp_validate parseAddress c =
     (if smtp_Host c = [] then Some NoHost
      else if smtp_From c = [] then Some NoFrom
      else if parseAddress (smtp_From c) = None then Some (BadFrom (smtp_From c))
      else if smtp_Security c \<in> {''starttls'', ''tls'', ''none''} then None
      else Some (BadSecurity (smtp_Security c)))"

definition smtp_LoadConfig ::
  "(string \<Rightarrow> string option) \<Rightarrow> string option \<Rightarrow> (bytes \<Rightarrow> SMTPConfig option) \<Rightarrow> file_read \<Rightarrow> bool \<Rightarrow> smtp_error + SMTPConfig option" where
  "smtp_LoadConfig parseAddress hostname yaml f missingOK =
     (case f of
        FileAbsent \<Rightarrow> if missingOK then Inr None else Inl SMTPRead
      | FileFailed \<Rightarrow> Inl SMTPRead
      | FileData b \<Rightarrow>
          (case yaml b of
             None \<Rightarrow> Inl SMTPParse
           | Some c \<Rightarrow>
               let c' = smtp_applyDefaults hostname c
               in case smtp_validate parseAddress c' of Some e \<Rightarrow> Inl e | None \<Rightarrow> Inr (Some c')))"

section \<open>Which reports are sent\<close>

text \<open>A sender is its configuration, \<open>None\<close> when mail is disabled.\<close>

definition sender_Enabled :: "SMTPConfig option \<Rightarrow> bool" where
  "sender_Enabled s \<longleftrightarrow> s \<noteq> None"

definition ParkedShardRollup :: "SMTPConfig option \<Rightarrow> int" where
  "ParkedShardRollup s = (case s of None \<Rightarrow> 0 | Some c \<Rightarrow> ParkedShardRollupSeconds c * 1000)"

definition sendAsync :: "SMTPConfig \<Rightarrow> string list \<Rightarrow> email \<Rightarrow> (string list \<times> email)" where
  "sendAsync c to e = (to, e\<lparr>em_subject := (if SubjectPrefix c \<noteq> [] then SubjectPrefix c @ '' '' @ em_subject e else em_subject e)\<rparr>)"

text \<open>What the three methods hand to the delivery goroutine for a message of the controller.\<close>

definition mailOf :: "SMTPConfig option \<Rightarrow> message \<Rightarrow> (string list \<times> email) option" where
  "mailOf s m =
     (case s of
        None \<Rightarrow> None
      | Some c \<Rightarrow>
          (case m of
             PassMail to r \<Rightarrow> if to = [] then None else Some (sendAsync c to (renderPass r))
           | JobMail to r \<Rightarrow> if to = [] then None else Some (sendAsync c to (renderJob r))
           | ParkedMail to r \<Rightarrow> if to = [] \<or> psn_Shards r = [] then None else Some (sendAsync c to (renderParkedShards r))
           | JobDoneToAgents _ \<Rightarrow> None))"

section \<open>The message\<close>

abbreviation crlf :: string where "crlf \<equiv> [CHR 0x0D, CHR 0x0A]"

text \<open>\<open>mime.QEncoding.Encode\<close> with the character set \<open>utf-8\<close>.\<close>

definition upperhex :: "nat \<Rightarrow> char" where
  "upperhex n = ''0123456789ABCDEF'' ! (n mod 16)"

definition hexEscape :: "char \<Rightarrow> string" where
  "hexEscape c = (let k = of_char c in [CHR ''='', upperhex (k div 16), upperhex (k mod 16)])"

definition needsEncoding :: "string \<Rightarrow> bool" where
  "needsEncoding s = list_ex (\<lambda>c. let k = (of_char c :: nat) in (k < 32 \<or> k > 126) \<and> k \<noteq> 9) s"

definition qPlain :: "char \<Rightarrow> bool" where
  "qPlain c \<longleftrightarrow> (let k = (of_char c :: nat) in 32 \<le> k \<and> k \<le> 126) \<and> c \<notin> {CHR ''='', CHR ''?'', CHR ''_''}"

definition writeQChar :: "char \<Rightarrow> string" where
  "writeQChar c = (if c = CHR '' '' then ''_'' else if qPlain c then [c] else hexEscape c)"

definition openWord :: string where "openWord = ''=?utf-8?q?''"
definition closeWord :: string where "closeWord = ''?=''"

definition maxContentLen :: nat where "maxContentLen = 63"

function qEncode :: "nat \<Rightarrow> string \<Rightarrow> string" where
  "qEncode cur s =
     (case s of
        [] \<Rightarrow> []
      | c # _ \<Rightarrow>
          let (runeLen, encLen) = (if qPlain c then (1, 1) else (rune_len s, 3 * rune_len s)); fits = cur + encLen \<le> maxContentLen
          in (if fits then [] else closeWord @ '' '' @ openWord) @ concat (map writeQChar (take runeLen s)) @
             qEncode ((if fits then cur else 0) + encLen) (drop runeLen s))"
  by pat_completeness auto
termination
proof (relation "measure (length \<circ> snd)")
  have pos: "0 < rune_len s" if "s \<noteq> []" for s using that by (cases s) (auto simp: rune_len_def Let_def)
  show "((((if fits then cur else 0) + encLen), drop runeLen s), cur, s) \<in> measure (length \<circ> snd)"
    if "s = c # cs" "x = (if qPlain c then (1, 1) else (rune_len s, 3 * rune_len s))" "(runeLen, encLen) = x" "fits = (cur + encLen \<le> maxContentLen)"
    for cur s c cs x runeLen encLen fits
    using that pos [of s] by (auto split: if_splits)
qed simp

declare qEncode.simps [simp del]

definition QEncoding :: "string \<Rightarrow> string" where
  "QEncoding s = (if needsEncoding s then openWord @ qEncode 0 s @ closeWord else s)"


text \<open>
  The quoted-printable writer of a part: finished output, the line being filled, and whether the last
  line break was a bare carriage return.
\<close>

record qp =
  qp_out :: string
  qp_line :: string
  qp_cr :: bool

definition qpSoftBreak :: "qp \<Rightarrow> qp" where
  "qpSoftBreak w = w\<lparr>qp_out := qp_out w @ qp_line w @ ''='' @ crlf, qp_line := []\<rparr>"

definition qpEncode :: "char \<Rightarrow> qp \<Rightarrow> qp" where
  "qpEncode c w = (let w1 = (if 75 < length (qp_line w) + 3 then qpSoftBreak w else w) in w1\<lparr>qp_line := qp_line w1 @ hexEscape c\<rparr>)"

definition qpCheckLast :: "qp \<Rightarrow> qp" where
  "qpCheckLast w =
     (if qp_line w \<noteq> [] \<and> last (qp_line w) \<in> {CHR '' '', CHR 0x09}
      then qpEncode (last (qp_line w)) (w\<lparr>qp_line := butlast (qp_line w)\<rparr>) else w)"

definition qpWrite :: "char \<Rightarrow> qp \<Rightarrow> qp" where
  "qpWrite c w =
     (if c = CHR 0x0A \<or> c = CHR 0x0D
      then if qp_cr w \<and> c = CHR 0x0A then w\<lparr>qp_cr := False\<rparr>
           else let w1 = qpCheckLast w in w1\<lparr>qp_out := qp_out w1 @ qp_line w1 @ crlf, qp_line := [], qp_cr := (qp_cr w1 \<or> c = CHR 0x0D)\<rparr>
      else let w1 = (if length (qp_line w) = 75 then qpSoftBreak w else w) in w1\<lparr>qp_line := qp_line w1 @ [c], qp_cr := False\<rparr>)"

definition qpByte :: "char \<Rightarrow> qp \<Rightarrow> qp" where
  "qpByte c w =
     (let k = (of_char c :: nat)
      in if 33 \<le> k \<and> k \<le> 126 \<and> c \<noteq> CHR ''='' \<or> c \<in> {CHR '' '', CHR 0x09, CHR 0x0A, CHR 0x0D} then qpWrite c w else qpEncode c w)"

definition quotedPrintable :: "string \<Rightarrow> string" where
  "quotedPrintable body = (let w = qpCheckLast (fold qpByte body \<lparr>qp_out = [], qp_line = [], qp_cr = False\<rparr>) in qp_out w @ qp_line w)"

definition writePart :: "string \<Rightarrow> string \<Rightarrow> string \<Rightarrow> string" where
  "writePart boundary contentType body =
     ''--'' @ boundary @ crlf @ ''Content-Type: '' @ contentType @ crlf @
     ''Content-Transfer-Encoding: quoted-printable'' @ crlf @ crlf @ quotedPrintable body @ crlf"

fun joinComma :: "string list \<Rightarrow> string" where
  "joinComma [] = []"
| "joinComma [x] = x"
| "joinComma (x # xs) = x @ '', '' @ joinComma xs"

text \<open>\<open>date\<close> is the formatted clock, \<open>tok1\<close> and \<open>tok2\<close> the two random tokens (twelve bytes in hex).\<close>

definition buildMIME :: "string \<Rightarrow> string \<Rightarrow> string \<Rightarrow> string \<Rightarrow> string list \<Rightarrow> string \<Rightarrow> string \<Rightarrow> string \<Rightarrow> string" where
  "buildMIME date tok1 tok2 from to subject text html =
     (let boundary = ''drsync_'' @ tok1
      in ''From: '' @ from @ crlf @ ''To: '' @ joinComma to @ crlf @ ''Subject: '' @ QEncoding subject @ crlf @ ''Date: '' @ date @ crlf @
         ''Message-ID: <'' @ tok2 @ ''@drsync>'' @ crlf @ ''MIME-Version: 1.0'' @ crlf @
         ''Content-Type: multipart/alternative; boundary='' @ [CHR 0x22] @ boundary @ [CHR 0x22] @ crlf @ crlf @
         writePart boundary ''text/plain; charset=UTF-8'' text @ writePart boundary ''text/html; charset=UTF-8'' html @
         ''--'' @ boundary @ ''--'' @ crlf)"

section \<open>One SMTP transaction\<close>

datatype smtp_cmd = EHLO string | HELO string | STARTTLS | AUTH string string | MAIL string | RCPT string | DATA | BODY string | QUIT

text \<open>What was sent, each command with whether the connection was encrypted.\<close>

type_synonym smtp_trace = "(bool \<times> smtp_cmd) list"

text \<open>
  The network and the server: whether the connection (with TLS from the start or not) and the greeting succeed, whether
  STARTTLS is offered and its handshake succeeds, and whether the last command of a trace is accepted.
\<close>

record smtp_server =
  sv_dial :: "bool \<Rightarrow> bool"
  sv_greets :: bool
  sv_offers :: bool
  sv_handshake :: bool
  sv_accepts :: "smtp_trace \<Rightarrow> bool"

datatype send_error = DialFailed | GreetFailed | HeloFailed | NoSTARTTLS | STARTTLSFailed | AuthFailed | BadSender | MailFailed | RcptFailed string | DataFailed | QuitFailed

definition issue :: "smtp_server \<Rightarrow> bool \<Rightarrow> smtp_cmd \<Rightarrow> smtp_trace \<Rightarrow> bool \<times> smtp_trace" where
  "issue sv tls c tr = (sv_accepts sv (tr @ [(tls, c)]), tr @ [(tls, c)])"

text \<open>\<open>smtp.validateLine\<close>.\<close>

definition oneLine :: "string \<Rightarrow> bool" where
  "oneLine s \<longleftrightarrow> CHR 0x0A \<notin> set s \<and> CHR 0x0D \<notin> set s"

definition isLocalhost :: "string \<Rightarrow> bool" where
  "isLocalhost h \<longleftrightarrow> h \<in> {''localhost'', ''127.0.0.1'', ''::1''}"

text \<open>\<open>smtp.Client.Hello\<close>: greets again in the old way when the first greeting is refused; only the first one learns the extensions.\<close>

definition hello :: "smtp_server \<Rightarrow> bool \<Rightarrow> string \<Rightarrow> (bool \<times> bool) \<times> smtp_trace" where
  "hello sv tls name =
     (case issue sv tls (EHLO name) [] of
        (ok, tr) \<Rightarrow> if ok then ((True, True), tr) else case issue sv tls (HELO name) tr of (ok1, tr1) \<Rightarrow> ((ok1, False), tr1))"

text \<open>\<open>smtp.Client.Auth\<close> with \<open>PlainAuth\<close>: the password is not given on a clear connection to another host.\<close>

definition authPlain :: "smtp_server \<Rightarrow> SMTPConfig \<Rightarrow> bool \<Rightarrow> smtp_trace \<Rightarrow> bool \<times> smtp_trace" where
  "authPlain sv c tls tr =
     (if \<not> tls \<and> \<not> isLocalhost (smtp_Host c) then (False, snd (issue sv tls QUIT tr))
      else case issue sv tls (AUTH (smtp_Username c) (smtp_Password c)) tr of
        (ok, tr1) \<Rightarrow> if ok then (True, tr1) else (False, snd (issue sv tls QUIT tr1)))"

fun rcptAll :: "smtp_server \<Rightarrow> bool \<Rightarrow> string list \<Rightarrow> smtp_trace \<Rightarrow> send_error option \<times> smtp_trace" where
  "rcptAll sv tls [] tr = (None, tr)"
| "rcptAll sv tls (r # rs) tr =
     (if \<not> oneLine r then (Some (RcptFailed r), tr)
      else case issue sv tls (RCPT r) tr of (ok, tr1) \<Rightarrow> if ok then rcptAll sv tls rs tr1 else (Some (RcptFailed r), tr1))"

definition transmit :: "smtp_server \<Rightarrow> bool \<Rightarrow> string \<Rightarrow> smtp_trace \<Rightarrow> send_error option \<times> smtp_trace" where
  "transmit sv tls msg tr =
     (case issue sv tls DATA tr of
        (ok, tr1) \<Rightarrow>
          if \<not> ok then (Some DataFailed, tr1)
          else case issue sv tls (BODY msg) tr1 of
            (ok2, tr2) \<Rightarrow>
              if \<not> ok2 then (Some DataFailed, tr2)
              else case issue sv tls QUIT tr2 of (ok3, tr3) \<Rightarrow> (if ok3 then None else Some QuitFailed, tr3))"

definition envelope ::
  "(string \<Rightarrow> string option) \<Rightarrow> smtp_server \<Rightarrow> SMTPConfig \<Rightarrow> bool \<Rightarrow> string list \<Rightarrow> string \<Rightarrow> smtp_trace \<Rightarrow> send_error option \<times> smtp_trace" where
  "envelope parseAddress sv c tls to msg tr =
     (case parseAddress (smtp_From c) of
        None \<Rightarrow> (Some BadSender, tr)
      | Some from \<Rightarrow>
          if \<not> oneLine from then (Some MailFailed, tr)
          else case issue sv tls (MAIL from) tr of
            (ok, tr1) \<Rightarrow>
              if \<not> ok then (Some MailFailed, tr1)
              else case rcptAll sv tls to tr1 of
                (Some e, tr2) \<Rightarrow> (Some e, tr2)
              | (None, tr2) \<Rightarrow> transmit sv tls msg tr2)"

definition afterTLS ::
  "(string \<Rightarrow> string option) \<Rightarrow> smtp_server \<Rightarrow> SMTPConfig \<Rightarrow> bool \<Rightarrow> string list \<Rightarrow> string \<Rightarrow> smtp_trace \<Rightarrow> send_error option \<times> smtp_trace" where
  "afterTLS parseAddress sv c tls to msg tr =
     (if smtp_Username c = [] then envelope parseAddress sv c tls to msg tr
      else case authPlain sv c tls tr of (ok, tr1) \<Rightarrow> if ok then envelope parseAddress sv c tls to msg tr1 else (Some AuthFailed, tr1))"

definition smtp_deliver ::
  "(string \<Rightarrow> string option) \<Rightarrow> smtp_server \<Rightarrow> SMTPConfig \<Rightarrow> string list \<Rightarrow> string \<Rightarrow> send_error option \<times> smtp_trace" where
  "smtp_deliver parseAddress sv c to msg =
     (let tls = smtp_Security c = ''tls''
      in if \<not> sv_dial sv tls then (Some DialFailed, [])
         else if \<not> sv_greets sv then (Some GreetFailed, [])
         else if \<not> oneLine (smtp_HELO c) then (Some HeloFailed, [])
         else case hello sv tls (smtp_HELO c) of
           ((ok, ext), tr) \<Rightarrow>
             if \<not> ok then (Some HeloFailed, tr)
             else if smtp_Security c = ''starttls''
             then if \<not> (ext \<and> sv_offers sv) then (Some NoSTARTTLS, tr)
                  else case issue sv tls STARTTLS tr of
                    (ok1, tr1) \<Rightarrow>
                      if \<not> ok1 \<or> \<not> sv_handshake sv then (Some STARTTLSFailed, tr1)
                      else case issue sv True (EHLO (smtp_HELO c)) tr1 of
                        (ok2, tr2) \<Rightarrow> if \<not> ok2 then (Some STARTTLSFailed, tr2) else afterTLS parseAddress sv c True to msg tr2
             else afterTLS parseAddress sv c tls to msg tr)"

definition smtp_send ::
  "(string \<Rightarrow> string option) \<Rightarrow> smtp_server \<Rightarrow> string \<Rightarrow> string \<Rightarrow> string \<Rightarrow> SMTPConfig \<Rightarrow> string list \<times> email \<Rightarrow> send_error option \<times> smtp_trace" where
  "smtp_send parseAddress sv date tok1 tok2 c m =
     (case m of (to, e) \<Rightarrow> smtp_deliver parseAddress sv c to (buildMIME date tok1 tok2 (smtp_From c) to (em_subject e) (em_text e) (em_html e)))"


section \<open>What a transaction sends\<close>

definition greeting :: "smtp_cmd \<Rightarrow> bool" where
  "greeting c \<longleftrightarrow> (\<exists>h. c = EHLO h \<or> c = HELO h) \<or> c = STARTTLS"

lemma rcptAll_sends:
  assumes "rcptAll sv tls to tr = (r, tr')"
  obtains xs where "tr' = tr @ map (\<lambda>a. (tls, RCPT a)) xs" "prefix xs to" "r = None \<Longrightarrow> xs = to"
proof -
  have "\<exists>xs. tr' = tr @ map (\<lambda>a. (tls, RCPT a)) xs \<and> prefix xs to \<and> (r = None \<longrightarrow> xs = to)"
    using assms
  proof (induction to arbitrary: tr)
    case (Cons a to)
    show ?case
    proof (cases "oneLine a \<and> sv_accepts sv (tr @ [(tls, RCPT a)])")
      case True
      then obtain xs where "tr' = (tr @ [(tls, RCPT a)]) @ map (\<lambda>a. (tls, RCPT a)) xs" "prefix xs to" "r = None \<longrightarrow> xs = to"
        using Cons.IH [of "tr @ [(tls, RCPT a)]"] Cons.prems by (auto simp: issue_def)
      then show ?thesis by (intro exI [of _ "a # xs"]) simp
    next
      case False
      then have "(tr' = tr \<or> tr' = tr @ map (\<lambda>a. (tls, RCPT a)) [a]) \<and> r \<noteq> None" using Cons.prems by (auto simp: issue_def split: if_splits)
      then show ?thesis by (metis append_Nil2 list.map(1) Nil_prefix prefix_Cons)
    qed
  qed simp
  then show ?thesis using that by blast
qed

lemma transmit_sends:
  assumes "transmit sv tls msg tr = (r, tr')"
  shows "\<exists>n. tr' = tr @ map (Pair tls) (take n [DATA, BODY msg, QUIT]) \<and> (r = None \<longrightarrow> n = 3)"
proof -
  have "tr' = tr @ map (Pair tls) (take 1 [DATA, BODY msg, QUIT]) \<and> r \<noteq> None \<or>
    tr' = tr @ map (Pair tls) (take 2 [DATA, BODY msg, QUIT]) \<and> r \<noteq> None \<or> tr' = tr @ map (Pair tls) (take 3 [DATA, BODY msg, QUIT])"
    using assms by (auto simp: transmit_def issue_def numeral_eq_Suc split: if_splits)
  then show ?thesis by blast
qed

text \<open>The envelope is one of the beginnings of the whole transaction, all on the same connection.\<close>

lemma envelope_sends:
  assumes "envelope pa sv c tls to msg tr = (r, tr')"
  shows "\<exists>xs. tr' = tr @ map (Pair tls) xs \<and>
    (xs = [] \<and> r \<noteq> None \<or> (\<exists>frm. pa (smtp_From c) = Some frm \<and> prefix xs (MAIL frm # map RCPT to @ [DATA, BODY msg, QUIT]) \<and>
       (r = None \<longrightarrow> xs = MAIL frm # map RCPT to @ [DATA, BODY msg, QUIT])))"
proof (cases "pa (smtp_From c)")
  case (Some frm)
  let ?tr1 = "tr @ [(tls, MAIL frm)]" and ?all = "MAIL frm # map RCPT to @ [DATA, BODY msg, QUIT]"
  show ?thesis
  proof (cases "oneLine frm \<and> sv_accepts sv ?tr1")
    case True
    obtain r1 tr2 where r1: "rcptAll sv tls to ?tr1 = (r1, tr2)" by force
    obtain rs where rs: "tr2 = ?tr1 @ map (\<lambda>a. (tls, RCPT a)) rs" "prefix rs to" "r1 = None \<Longrightarrow> rs = to" by (rule rcptAll_sends [OF r1]) blast
    have pre: "prefix (MAIL frm # map RCPT rs) ?all" using rs(2) by (auto simp: prefix_def)
    have "\<exists>ys. tr' = tr @ map (Pair tls) (MAIL frm # map RCPT rs @ ys) \<and> (r1 \<noteq> None \<and> ys = [] \<and> r \<noteq> None \<or>
        r1 = None \<and> prefix ys [DATA, BODY msg, QUIT] \<and> (r = None \<longrightarrow> ys = [DATA, BODY msg, QUIT]))"
    proof (cases r1)
      case None
      then have "transmit sv tls msg tr2 = (r, tr')" using assms True r1 Some by (simp add: envelope_def issue_def)
      from transmit_sends [OF this] obtain n where
        "tr' = tr2 @ map (Pair tls) (take n [DATA, BODY msg, QUIT])" "r = None \<longrightarrow> n = 3" by blast
      then show ?thesis using rs(1) None
        by (intro exI [of _ "take n [DATA, BODY msg, QUIT]"]) (auto simp: comp_def take_is_prefix)
    next
      case (Some e)
      then show ?thesis using assms True r1 rs(1) \<open>pa (smtp_From c) = Some frm\<close> by (auto simp: envelope_def issue_def comp_def)
    qed
    then obtain ys where ys: "tr' = tr @ map (Pair tls) (MAIL frm # map RCPT rs @ ys)" "r1 \<noteq> None \<and> ys = [] \<and> r \<noteq> None \<or>
        r1 = None \<and> prefix ys [DATA, BODY msg, QUIT] \<and> (r = None \<longrightarrow> ys = [DATA, BODY msg, QUIT])" by blast
    then have "prefix (MAIL frm # map RCPT rs @ ys) ?all \<and> (r = None \<longrightarrow> MAIL frm # map RCPT rs @ ys = ?all)" using pre rs(3) by auto
    then show ?thesis using ys(1) Some by blast
  next
    case False
    then have "(tr' = tr \<or> tr' = tr @ map (Pair tls) [MAIL frm]) \<and> r \<noteq> None"
      using assms Some by (auto simp: envelope_def issue_def split: if_splits)
    then show ?thesis using Some by (metis append_Nil2 list.map(1) Nil_prefix prefix_Cons)
  qed
qed (use assms in \<open>auto simp: envelope_def\<close>)

lemma envelope_mail: "x \<in> set xs \<Longrightarrow> prefix xs (MAIL frm # map RCPT to @ [DATA, BODY msg, QUIT]) \<Longrightarrow> \<not> greeting x \<and> (\<forall>u p. x \<noteq> AUTH u p)"
  by (auto simp: greeting_def dest!: set_mono_prefix)

text \<open>What follows the greetings: an authentication that is never in the clear to another host, and the envelope.\<close>

lemma afterTLS_sends:
  assumes "afterTLS pa sv c tls to msg tr = (r, tr')"
  shows "\<exists>xs. tr' = tr @ map (Pair tls) xs \<and> (\<forall>x \<in> set xs. \<not> greeting x \<and> (\<forall>u p. x = AUTH u p \<longrightarrow> tls \<or> isLocalhost (smtp_Host c))) \<and>
    (\<forall>m. BODY m \<in> set xs \<longrightarrow> m = msg \<and> RCPT ` set to \<subseteq> set xs) \<and>
    (r = None \<longrightarrow> (\<exists>frm. pa (smtp_From c) = Some frm \<and> suffix (MAIL frm # map RCPT to @ [DATA, BODY msg, QUIT]) xs))"
proof -
  have env: "\<exists>xs. tr' = t @ map (Pair tls) xs \<and> (\<forall>x \<in> set xs. \<not> greeting x \<and> (\<forall>u p. x \<noteq> AUTH u p)) \<and>
      (\<forall>m. BODY m \<in> set xs \<longrightarrow> m = msg \<and> RCPT ` set to \<subseteq> set xs) \<and>
      (r = None \<longrightarrow> (\<exists>frm. pa (smtp_From c) = Some frm \<and> xs = MAIL frm # map RCPT to @ [DATA, BODY msg, QUIT]))"
    if e: "envelope pa sv c tls to msg t = (r, tr')" for t
  proof -
    obtain xs where xs: "tr' = t @ map (Pair tls) xs" "xs = [] \<and> r \<noteq> None \<or> (\<exists>frm. pa (smtp_From c) = Some frm \<and>
        prefix xs (MAIL frm # map RCPT to @ [DATA, BODY msg, QUIT]) \<and> (r = None \<longrightarrow> xs = MAIL frm # map RCPT to @ [DATA, BODY msg, QUIT]))"
      using envelope_sends [OF e] by blast
    have body: "m = msg \<and> RCPT ` set to \<subseteq> set xs" if b: "BODY m \<in> set xs" and pre: "prefix xs (MAIL frm # map RCPT to @ [DATA, BODY msg, QUIT])" for frm m
    proof -
      have "\<not> prefix xs (MAIL frm # map RCPT to @ [DATA])" using b by (auto dest!: set_mono_prefix)
      moreover have "prefix (MAIL frm # map RCPT to @ [DATA]) (MAIL frm # map RCPT to @ [DATA, BODY msg, QUIT])" by (simp add: prefix_def)
      ultimately have "prefix (MAIL frm # map RCPT to @ [DATA]) xs" using prefix_same_cases pre by blast
      then have "RCPT ` set to \<subseteq> set xs" by (auto dest!: set_mono_prefix)
      moreover have "BODY m \<in> set (MAIL frm # map RCPT to @ [DATA, BODY msg, QUIT])" using b set_mono_prefix [OF pre] by blast
      ultimately show ?thesis by auto
    qed
    show ?thesis using xs(2)
    proof (elim disjE exE conjE)
      fix frm assume frm: "pa (smtp_From c) = Some frm" and pre: "prefix xs (MAIL frm # map RCPT to @ [DATA, BODY msg, QUIT])"
        and fin: "r = None \<longrightarrow> xs = MAIL frm # map RCPT to @ [DATA, BODY msg, QUIT]"
      have "\<forall>x \<in> set xs. \<not> greeting x \<and> (\<forall>u p. x \<noteq> AUTH u p)" using envelope_mail [OF _ pre] by blast
      moreover have "\<forall>m. BODY m \<in> set xs \<longrightarrow> m = msg \<and> RCPT ` set to \<subseteq> set xs" using body [OF _ pre] by blast
      ultimately show ?thesis using xs(1) frm fin by blast
    qed (use xs(1) in simp)
  qed
  show ?thesis
  proof (cases "smtp_Username c = []")
    case True
    then show ?thesis using env [of tr] assms by (auto simp: afterTLS_def)
  next
    case False
    let ?a = "AUTH (smtp_Username c) (smtp_Password c)"
    show ?thesis
    proof (cases "(tls \<or> isLocalhost (smtp_Host c)) \<and> sv_accepts sv (tr @ [(tls, ?a)])")
      case True
      then have "envelope pa sv c tls to msg (tr @ [(tls, ?a)]) = (r, tr')"
        using assms False by (auto simp: afterTLS_def authPlain_def issue_def split: if_splits)
      from env [OF this] obtain xs where xs: "tr' = (tr @ [(tls, ?a)]) @ map (Pair tls) xs" "\<forall>x \<in> set xs. \<not> greeting x \<and> (\<forall>u p. x \<noteq> AUTH u p)"
        "\<forall>m. BODY m \<in> set xs \<longrightarrow> m = msg \<and> RCPT ` set to \<subseteq> set xs"
        "r = None \<longrightarrow> (\<exists>frm. pa (smtp_From c) = Some frm \<and> xs = MAIL frm # map RCPT to @ [DATA, BODY msg, QUIT])" by blast
      then show ?thesis using True by (intro exI [of _ "?a # xs"]) (auto simp: greeting_def suffix_ConsI)
    next
      case no: False
      then have "r = Some AuthFailed \<and> (tr' = tr @ map (Pair tls) [QUIT] \<or> (tls \<or> isLocalhost (smtp_Host c)) \<and> tr' = tr @ map (Pair tls) [?a, QUIT])"
        using assms False by (auto simp: afterTLS_def authPlain_def issue_def split: if_splits)
      then obtain xs where "r = Some AuthFailed" "tr' = tr @ map (Pair tls) xs" "xs = [QUIT] \<or> (tls \<or> isLocalhost (smtp_Host c)) \<and> xs = [?a, QUIT]" by blast
      then show ?thesis by (intro exI [of _ xs]) (auto simp: greeting_def)
    qed
  qed
qed


text \<open>
  (C36) One delivery: when STARTTLS or TLS is configured nothing but greetings and the request for encryption is sent in the
  clear; the password is never sent in the clear except to the local host; the body is the given message and
  only follows when every recipient was named; and a delivery that reports success has sent the sender, every
  recipient, the message and the farewell, in this order.
\<close>

theorem smtp_delivery_safe:
  assumes "smtp_deliver pa sv c to msg = (r, tr)"
  shows "(\<forall>(enc, x) \<in> set tr. \<not> enc \<longrightarrow> (smtp_Security c \<in> {''starttls'', ''tls''} \<longrightarrow> greeting x) \<and> (\<forall>u p. x = AUTH u p \<longrightarrow> isLocalhost (smtp_Host c))) \<and>
    (\<forall>m. BODY m \<in> snd ` set tr \<longrightarrow> m = msg \<and> RCPT ` set to \<subseteq> snd ` set tr) \<and>
    (r = None \<longrightarrow> (\<exists>sender. pa (smtp_From c) = Some sender \<and> suffix (MAIL sender # map RCPT to @ [DATA, BODY msg, QUIT]) (map snd tr)))"
proof -
  let ?done = "r = None \<longrightarrow> (\<exists>sender. pa (smtp_From c) = Some sender \<and> suffix (MAIL sender # map RCPT to @ [DATA, BODY msg, QUIT]) (map snd tr))"
  have main: "(\<forall>(enc, x) \<in> set tr. \<not> enc \<longrightarrow> (smtp_Security c \<in> {''starttls'', ''tls''} \<longrightarrow> greeting x) \<and> (\<forall>u p. x = AUTH u p \<longrightarrow> isLocalhost (smtp_Host c))) \<and>
      (\<forall>m. BODY m \<in> snd ` set tr \<longrightarrow> m = msg \<and> RCPT ` set to \<subseteq> snd ` set tr) \<and> ?done"
    if a: "afterTLS pa sv c enc to msg t = (r, tr)" and t: "\<forall>x \<in> set t. greeting (snd x)" and e: "enc \<or> smtp_Security c \<notin> {''starttls'', ''tls''}" for enc t
  proof -
    obtain xs where xs: "tr = t @ map (Pair enc) xs" "\<forall>x \<in> set xs. \<not> greeting x \<and> (\<forall>u p. x = AUTH u p \<longrightarrow> enc \<or> isLocalhost (smtp_Host c))"
        "\<forall>m. BODY m \<in> set xs \<longrightarrow> m = msg \<and> RCPT ` set to \<subseteq> set xs"
        "r = None \<longrightarrow> (\<exists>sender. pa (smtp_From c) = Some sender \<and> suffix (MAIL sender # map RCPT to @ [DATA, BODY msg, QUIT]) xs)"
      using afterTLS_sends [OF a] by blast
    have g: "x \<noteq> AUTH u p \<and> x \<noteq> BODY m" if "greeting x" for x u p m using that by (auto simp: greeting_def)
    have s: "snd ` set tr = snd ` set t \<union> set xs" "map snd tr = map snd t @ xs" by (simp_all add: xs(1) image_Un comp_def image_image)
    have "\<forall>(en, x) \<in> set tr. \<not> en \<longrightarrow> (smtp_Security c \<in> {''starttls'', ''tls''} \<longrightarrow> greeting x) \<and> (\<forall>u p. x = AUTH u p \<longrightarrow> isLocalhost (smtp_Host c))"
      unfolding xs(1) using t e g xs(2) by fastforce
    moreover have "\<forall>m. BODY m \<in> snd ` set tr \<longrightarrow> m = msg \<and> RCPT ` set to \<subseteq> snd ` set tr" 
    proof (intro allI impI)
      fix m assume "BODY m \<in> snd ` set tr"
      moreover have "BODY m \<notin> snd ` set t" using t g by (metis imageE)
      ultimately have "BODY m \<in> set xs" by (simp add: s)
      then show "m = msg \<and> RCPT ` set to \<subseteq> snd ` set tr" using xs(3) unfolding s by blast
    qed
    moreover have ?done unfolding s using xs(4) by (metis suffix_appendI)
    ultimately show ?thesis by blast
  qed
  show ?thesis
  proof (cases "r = None \<or> (\<exists>x \<in> set tr. \<not> greeting (snd x))")
    case False
    then show ?thesis by (auto simp: greeting_def)
  next
    case True
    let ?h = "smtp_HELO c" and ?tls = "smtp_Security c = ''tls''"
    have "afterTLS pa sv c True to msg [(False, EHLO ?h), (False, STARTTLS), (True, EHLO ?h)] = (r, tr) \<or>
        afterTLS pa sv c ?tls to msg [(?tls, EHLO ?h)] = (r, tr) \<and> smtp_Security c \<noteq> ''starttls'' \<or>
        afterTLS pa sv c ?tls to msg [(?tls, EHLO ?h), (?tls, HELO ?h)] = (r, tr) \<and> smtp_Security c \<noteq> ''starttls''"
      using assms True unfolding smtp_deliver_def hello_def issue_def Let_def greeting_def by (auto split: if_splits)
    then show ?thesis
    proof (elim disjE conjE)
      assume "afterTLS pa sv c True to msg [(False, EHLO ?h), (False, STARTTLS), (True, EHLO ?h)] = (r, tr)"
      then show ?thesis by (rule main) (auto simp: greeting_def)
    next
      assume "afterTLS pa sv c ?tls to msg [(?tls, EHLO ?h)] = (r, tr)" "smtp_Security c \<noteq> ''starttls''"
      then show ?thesis by (intro main) (auto simp: greeting_def)
    next
      assume "afterTLS pa sv c ?tls to msg [(?tls, EHLO ?h), (?tls, HELO ?h)] = (r, tr)" "smtp_Security c \<noteq> ''starttls''"
      then show ?thesis by (intro main) (auto simp: greeting_def)
    qed
  qed
qed


definition sample_smtp :: SMTPConfig where
  "sample_smtp = \<lparr>smtp_Host = ''mx'', smtp_Port = 587, smtp_Username = ''u'', smtp_Password = ''p'', smtp_From = ''a@b'', smtp_Security = ''starttls'',
     smtp_HELO = ''co'', SubjectPrefix = ''[drsync]'', TimeoutSeconds = 30, ParkedShardRollupSeconds = 300\<rparr>"

definition sample_server_ok :: smtp_server where
  "sample_server_ok = \<lparr>sv_dial = (\<lambda>_. True), sv_greets = True, sv_offers = True, sv_handshake = True, sv_accepts = (\<lambda>_. True)\<rparr>"

theorem smtp_delivery_safe_witness:
  "smtp_deliver Some sample_server_ok sample_smtp [''x@y.z''] ''hi'' =
     (None, [(False, EHLO ''co''), (False, STARTTLS), (True, EHLO ''co''), (True, AUTH ''u'' ''p''), (True, MAIL ''a@b''), (True, RCPT ''x@y.z''),
        (True, DATA), (True, BODY ''hi''), (True, QUIT)]) \<and>
   suffix [MAIL ''a@b'', RCPT ''x@y.z'', DATA, BODY ''hi'', QUIT] (map snd (snd (smtp_deliver Some sample_server_ok sample_smtp [''x@y.z''] ''hi'')))"
proof -
  have d: "smtp_deliver Some sample_server_ok sample_smtp [''x@y.z''] ''hi'' =
     (None, [(False, EHLO ''co''), (False, STARTTLS), (True, EHLO ''co''), (True, AUTH ''u'' ''p''), (True, MAIL ''a@b''), (True, RCPT ''x@y.z''),
        (True, DATA), (True, BODY ''hi''), (True, QUIT)])" by code_simp
  show ?thesis using smtp_delivery_safe [OF d] d by (auto simp: sample_smtp_def)
qed

section \<open>Headers\<close>

lemma oneLine_append [simp]: "oneLine (s @ t) \<longleftrightarrow> oneLine s \<and> oneLine t"
  by (auto simp: oneLine_def)

lemma oneLine_Nil [simp]: "oneLine []"
  by (simp add: oneLine_def)

lemma oneLine_Cons [simp]: "oneLine (c # s) \<longleftrightarrow> c \<noteq> CHR 0x0A \<and> c \<noteq> CHR 0x0D \<and> oneLine s"
  by (auto simp: oneLine_def)

lemma upperhex_no_break: "upperhex n \<noteq> CHR 0x0A" "upperhex n \<noteq> CHR 0x0D"
proof -
  have "upperhex n \<in> set ''0123456789ABCDEF''" unfolding upperhex_def by (rule nth_mem) simp
  then show "upperhex n \<noteq> CHR 0x0A" "upperhex n \<noteq> CHR 0x0D" by auto
qed

lemma oneLine_writeQChar: "oneLine (writeQChar c)"
proof -
  have "qPlain c \<Longrightarrow> c \<noteq> CHR 0x0A \<and> c \<noteq> CHR 0x0D" by (auto simp: qPlain_def)
  then show ?thesis by (auto simp: writeQChar_def hexEscape_def Let_def upperhex_no_break)
qed

lemma oneLine_concat: "oneLine (concat (map writeQChar s))"
  by (induction s) (simp_all add: oneLine_writeQChar)

lemma oneLine_qEncode: "oneLine (qEncode cur s)"
proof (induction cur s rule: qEncode.induct)
  case (1 cur s)
  show ?case
  proof (cases s)
    case (Cons c cs)
    obtain rl el where x: "(if qPlain c then (1, 1) else (rune_len s, 3 * rune_len s)) = (rl, el)" by fastforce
    have "qEncode cur s = (if cur + el \<le> maxContentLen then [] else closeWord @ '' '' @ openWord) @ concat (map writeQChar (take rl s)) @
        qEncode ((if cur + el \<le> maxContentLen then cur else 0) + el) (drop rl s)"
      by (subst qEncode.simps) (simp only: Cons list.case x [unfolded Cons] prod.case Let_def)
    then show ?thesis using 1 [OF Cons refl x [symmetric] refl] by (simp add: oneLine_concat openWord_def closeWord_def)
  qed (simp add: qEncode.simps)
qed

lemma oneLine_QEncoding: "oneLine (QEncoding s)"
proof (cases "needsEncoding s")
  case True
  then show ?thesis by (simp add: QEncoding_def oneLine_qEncode openWord_def closeWord_def)
next
  case False
  then have "c \<in> set s \<Longrightarrow> c \<noteq> CHR 0x0A \<and> c \<noteq> CHR 0x0D" for c
    by (auto simp: needsEncoding_def list_ex_iff Let_def)
  then show ?thesis using False by (auto simp: QEncoding_def oneLine_def)
qed

lemma emailRe_oneLine:
  assumes "emailRe a"
  shows "oneLine a"
proof -
  let ?l = "takeWhile (\<lambda>c. c \<noteq> CHR ''@'') a"
  have e: "list_all emailChar ?l" "list_all emailChar (drop (Suc (length ?l)) a)" "length ?l < length a"
    using assms by (simp_all add: emailRe_def Let_def)
  have d: "drop (length ?l) a = a ! length ?l # drop (Suc (length ?l)) a" using e(3) by (simp add: Cons_nth_drop_Suc)
  have "a ! length ?l = CHR ''@''" using nth_length_takeWhile [OF e(3)] by simp
  moreover have one: "list_all emailChar s \<Longrightarrow> oneLine s" for s by (auto simp: list_all_iff emailChar_def oneLine_def)
  ultimately have "oneLine (?l @ drop (length ?l) a)" using one [OF e(1)] one [OF e(2)] by (simp add: d)
  moreover have "?l @ drop (length ?l) a = a" by (metis takeWhile_dropWhile_id dropWhile_eq_drop)
  ultimately show ?thesis by simp
qed

lemma checkRecipients_oneLine: "checkRecipients i to = None \<Longrightarrow> oneLine (joinComma to)"
proof (induction to arbitrary: i rule: joinComma.induct)
  case (3 x y ys)
  then show ?case by (auto simp: emailRe_oneLine split: if_splits)
qed (auto simp: emailRe_oneLine split: if_splits)

text \<open>
  No header can be injected: for recipients a job spec accepts, whatever the subject is (it carries the job's name), the
  message starts with exactly its seven header lines and an empty line.
\<close>

theorem mail_header_lines:
  assumes "checkRecipients 0 to = None" "oneLine frm" "oneLine date" "oneLine tok1" "oneLine tok2"
  shows "\<exists>hs body. buildMIME date tok1 tok2 frm to subject text html = concat (map (\<lambda>h. h @ crlf) hs) @ crlf @ body \<and>
    length hs = 7 \<and> list_all oneLine hs \<and> hs ! 0 = ''From: '' @ frm \<and> hs ! 1 = ''To: '' @ joinComma to \<and>
    prefix ''Subject: '' (hs ! 2) \<and> (\<not> needsEncoding subject \<longrightarrow> hs ! 2 = ''Subject: '' @ subject)"
proof -
  let ?b = "''drsync_'' @ tok1"
  let ?hs = "[''From: '' @ frm, ''To: '' @ joinComma to, ''Subject: '' @ QEncoding subject, ''Date: '' @ date, ''Message-ID: <'' @ tok2 @ ''@drsync>'',
    ''MIME-Version: 1.0'', ''Content-Type: multipart/alternative; boundary='' @ [CHR 0x22] @ ?b @ [CHR 0x22]]"
  let ?body = "writePart ?b ''text/plain; charset=UTF-8'' text @ writePart ?b ''text/html; charset=UTF-8'' html @ ''--'' @ ?b @ ''--'' @ crlf"
  have "buildMIME date tok1 tok2 frm to subject text html = concat (map (\<lambda>h. h @ crlf) ?hs) @ crlf @ ?body"
    unfolding buildMIME_def Let_def by simp
  moreover have "list_all oneLine ?hs" using assms checkRecipients_oneLine oneLine_QEncoding by simp
  ultimately show ?thesis by (intro exI [of _ ?hs] exI [of _ ?body]) (simp add: QEncoding_def)
qed

theorem mail_header_lines_witness:
  "let m = buildMIME ''now'' ''ab'' ''cd'' ''d@e'' [''x@y.z''] [CHR ''j'', CHR 0x0A, CHR ''B''] ''t'' ''h''
   in \<exists>hs body. m = concat (map (\<lambda>h. h @ crlf) hs) @ crlf @ body \<and> length hs = 7 \<and> list_all oneLine hs \<and> hs ! 1 = ''To: x@y.z''"
proof -
  have "checkRecipients 0 [''x@y.z''] = None" by code_simp
  then show ?thesis using mail_header_lines [of "[''x@y.z'']" "''d@e''" "''now''" "''ab''" "''cd''"] by (fastforce simp: Let_def)
qed

end
