(* ===== verification/Daemon.thy ===== *)
theory Daemon
  imports Api_Safety Events Notify
begin

text \<open>
  The process (\<open>cmd/drsyncd/main.go\<close>): which listeners it opens with which keys
  (\<open>certs/certs.go\<close>, \<open>buildTLS\<close>), and all components running together over one store. A step
  of the daemon is a step of the coordinator, an HTTP request, a turn of the poller or of a
  subscriber of its events, or the end of the process and its start on the files it left.
\<close>

section \<open>Transport security\<close>

record certs_Config =
  CertFile :: string
  KeyFile :: string

datatype tls_error = CertsRead | CertsParse | CertsHalf | KeyPair | TLSFlags | CARead | CAEmpty

text \<open>The certificate file names stand for the certificates; \<open>LoadX509KeyPair\<close> of the library says which pairs load.\<close>

definition certs_LoadConfig :: "(bytes \<Rightarrow> certs_Config option) \<Rightarrow> file_read \<Rightarrow> tls_error + certs_Config option" where
  "certs_LoadConfig yaml f =
     (case f of
        FileAbsent \<Rightarrow> Inr None
      | FileFailed \<Rightarrow> Inl CertsRead
      | FileData b \<Rightarrow>
          (case yaml b of
             None \<Rightarrow> Inl CertsParse
           | Some c \<Rightarrow>
               if CertFile c = [] \<and> KeyFile c = [] then Inr None
               else if CertFile c = [] \<or> KeyFile c = [] then Inl CertsHalf
               else Inr (Some c)))"

datatype client_auth = NoClientCert | RequireAndVerifyClientCert

record tls_Config =
  tls_cert :: "string \<times> string"
  tls_client :: client_auth
  tls_minVersion :: nat

definition TLSConfig :: "(string \<Rightarrow> string \<Rightarrow> bool) \<Rightarrow> certs_Config option \<Rightarrow> tls_error + tls_Config option" where
  "TLSConfig loads c =
     (case c of
        None \<Rightarrow> Inr None
      | Some c \<Rightarrow>
          if \<not> loads (CertFile c) (KeyFile c) then Inl KeyPair
          else Inr (Some \<lparr>tls_cert = (CertFile c, KeyFile c), tls_client = NoClientCert, tls_minVersion = 12\<rparr>))"

definition buildTLS ::
  "(string \<Rightarrow> string \<Rightarrow> bool) \<Rightarrow> (string \<Rightarrow> file_read) \<Rightarrow> (bytes \<Rightarrow> bool) \<Rightarrow> string \<Rightarrow> string \<Rightarrow> string \<Rightarrow> tls_error + tls_Config option" where
  "buildTLS loads readFile appendCerts cert key ca =
     (if cert = [] \<and> key = [] \<and> ca = [] then Inr None
      else if cert = [] \<or> key = [] \<or> ca = [] then Inl TLSFlags
      else if \<not> loads cert key then Inl KeyPair
      else case readFile ca of
             FileData pem \<Rightarrow>
               if appendCerts pem then Inr (Some \<lparr>tls_cert = (cert, key), tls_client = RequireAndVerifyClientCert, tls_minVersion = 13\<rparr>)
               else Inl CAEmpty
           | _ \<Rightarrow> Inl CARead)"

section \<open>Start\<close>

text \<open>
  The flags and files \<open>main\<close> and \<open>run\<close> read, and what the operating system and the libraries make of them;
  durations are in milliseconds.
\<close>

record run_env =
  re_logLevelOK :: bool
  re_minMinor :: nat
  re_start :: start_env
  re_mkdir :: bool
  re_openStore :: bool
  re_openJournals :: bool
  re_smtpFile :: file_read
  re_smtpDefault :: bool
  re_smtpYAML :: "bytes \<Rightarrow> SMTPConfig option"
  re_parseAddress :: "string \<Rightarrow> string option"
  re_hostname :: "string option"
  re_cert :: string
  re_key :: string
  re_ca :: string
  re_loads :: "string \<Rightarrow> string \<Rightarrow> bool"
  re_readFile :: "string \<Rightarrow> file_read"
  re_appendCerts :: "bytes \<Rightarrow> bool"
  re_certsFile :: file_read
  re_certsYAML :: "bytes \<Rightarrow> certs_Config option"
  re_listen :: bool
  re_leaseTTL :: int
  re_hbEvery :: int
  re_epoch :: u64
  re_dataDir :: string

datatype run_error = RunFlags | RunMinor | RunStart start_error | RunIO | RunSMTP smtp_error | RunTLS tls_error | RunListen

record daemon =
  dm_cfg :: api_cfg
  dm_api :: api
  dm_agentTLS :: "tls_Config option"
  dm_httpTLS :: "tls_Config option"
  dm_smtp :: "SMTPConfig option"
  dm_poller :: Poller
  dm_bus :: Bus

definition coordinatorVersion :: string where
  "coordinatorVersion = ''0.1.1''"

text \<open>The components as \<open>run\<close> wires them over the database and the journal files.\<close>

definition newCoordinator :: "run_env \<Rightarrow> db \<Rightarrow> files \<Rightarrow> coordinator" where
  "newCoordinator e d fs =
     \<lparr>co_srv = NewServer \<lparr>HeartbeatInterval = re_hbEvery e, cfg_LeaseTTL = re_leaseTTL e, FleetEpoch = re_epoch e, MinAgentMinor = of_nat (re_minMinor e)\<rparr>
        (rebuild_counts d) (Scheduler.New (re_leaseTTL e)) (NewWriter (re_dataDir e @ ''/journals'') fs),
      co_ctl = NewController, co_out = []\<rparr>"

definition infoOf :: "run_env \<Rightarrow> tls_Config option \<Rightarrow> CoordinatorInfo" where
  "infoOf e agentTLS = \<lparr>ci_FleetEpoch = zpad 16 (fmt_nat 16 (unat (re_epoch e))), ci_LeaseTTLS = re_leaseTTL e sdiv 1000,
     ci_MTLS = (agentTLS \<noteq> None), ci_Version = coordinatorVersion\<rparr>"

definition run :: "run_env \<Rightarrow> db \<Rightarrow> files \<Rightarrow> run_error + daemon" where
  "run e d fs =
     (if \<not> re_logLevelOK e then Inl RunFlags
      else if re_minMinor e > unat ProtoMinor then Inl RunMinor
      else case loadAPIToken (se_tokenStat (re_start e)) (se_tokenFile (re_start e)) (se_tokenDefault (re_start e)) of
        Inl x \<Rightarrow> Inl (RunStart x)
      | Inr token \<Rightarrow>
          if \<not> re_mkdir e \<or> \<not> re_openStore e \<or> \<not> re_openJournals e then Inl RunIO
          else case smtp_LoadConfig (re_parseAddress e) (re_hostname e) (re_smtpYAML e) (re_smtpFile e) (re_smtpDefault e) of
            Inl x \<Rightarrow> Inl (RunSMTP x)
          | Inr smtp \<Rightarrow>
              (case buildTLS (re_loads e) (re_readFile e) (re_appendCerts e) (re_cert e) (re_key e) (re_ca e) of
                 Inl x \<Rightarrow> Inl (RunTLS x)
               | Inr agentTLS \<Rightarrow>
                   (case startLogin (re_start e) of
                      Inl x \<Rightarrow> Inl (RunStart x)
                    | Inr login \<Rightarrow>
                        (case certs_LoadConfig (re_certsYAML e) (re_certsFile e) of
                           Inl x \<Rightarrow> Inl (RunTLS x)
                         | Inr c \<Rightarrow>
                             (case TLSConfig (re_loads e) c of
                                Inl x \<Rightarrow> Inl (RunTLS x)
                              | Inr httpTLS \<Rightarrow>
                                  if \<not> re_listen e then Inl RunListen
                                  else Inr
                                    \<lparr>dm_cfg = \<lparr>api_token = token, api_login = login, httpsEnabled = (httpTLS \<noteq> None), api_info = infoOf e agentTLS,
                                       hook_inflight = True, hook_drain = True, hook_done = True, hook_drop = True\<rparr>,
                                     dm_api = \<lparr>a_co = newCoordinator e d fs, a_limiter = []\<rparr>,
                                     dm_agentTLS = agentTLS, dm_httpTLS = httpTLS, dm_smtp = smtp,
                                     dm_poller = NewPoller, dm_bus = NewBus\<rparr>)))))"

text \<open>The wiring of the API is that of \<open>startApi\<close>.\<close>

lemma run_startApi:
  assumes "run e d fs = Inr dm"
  shows "startApi (re_start e) (infoOf e (dm_agentTLS dm)) (dm_httpTLS dm \<noteq> None) = Inr (dm_cfg dm)"
  using assms by (auto simp: run_def startApi_def split: if_splits sum.splits)


section \<open>Listeners\<close>

text \<open>
  (C33) The listeners fail closed: a daemon that starts has an agent listener that demands a client certificate of the given authority over TLS 1.3,
  or none of the three flags was given; its HTTP listener has TLS 1.2 or better with the configured pair, or the configuration is absent or
  names no files; session cookies are marked secure exactly in the first case; an SMTP configuration in use has a host, a valid sender and
  one of the three kinds of security.
\<close>

theorem listeners_fail_closed:
  assumes "run e d fs = Inr dm"
  shows "(case dm_agentTLS dm of
      None \<Rightarrow> re_cert e = [] \<and> re_key e = [] \<and> re_ca e = []
    | Some t \<Rightarrow> tls_client t = RequireAndVerifyClientCert \<and> tls_minVersion t = 13 \<and> tls_cert t = (re_cert e, re_key e) \<and>
        re_loads e (re_cert e) (re_key e) \<and> (\<exists>pem. re_readFile e (re_ca e) = FileData pem \<and> re_appendCerts e pem)) \<and>
    (case dm_httpTLS dm of
      None \<Rightarrow> re_certsFile e = FileAbsent \<or> (\<exists>b c. re_certsFile e = FileData b \<and> re_certsYAML e b = Some c \<and> CertFile c = [] \<and> KeyFile c = [])
    | Some t \<Rightarrow> tls_minVersion t = 12 \<and> re_loads e (fst (tls_cert t)) (snd (tls_cert t))) \<and>
    (httpsEnabled (dm_cfg dm) \<longleftrightarrow> dm_httpTLS dm \<noteq> None) \<and>
    (case dm_smtp dm of
      None \<Rightarrow> re_smtpFile e = FileAbsent \<and> re_smtpDefault e
    | Some c \<Rightarrow> smtp_Host c \<noteq> [] \<and> re_parseAddress e (smtp_From c) \<noteq> None \<and> smtp_Security c \<in> {''starttls'', ''tls'', ''none''})"
proof -
  obtain smtp agentTLS c httpTLS where
    smtp: "smtp_LoadConfig (re_parseAddress e) (re_hostname e) (re_smtpYAML e) (re_smtpFile e) (re_smtpDefault e) = Inr smtp"
    and ag: "buildTLS (re_loads e) (re_readFile e) (re_appendCerts e) (re_cert e) (re_key e) (re_ca e) = Inr agentTLS"
    and c: "certs_LoadConfig (re_certsYAML e) (re_certsFile e) = Inr c" and h: "TLSConfig (re_loads e) c = Inr httpTLS"
    and dm: "dm_smtp dm = smtp" "dm_agentTLS dm = agentTLS" "dm_httpTLS dm = httpTLS" "httpsEnabled (dm_cfg dm) = (httpTLS \<noteq> None)"
    using assms by (auto simp: run_def split: if_splits sum.splits)
  have "case agentTLS of
      None \<Rightarrow> re_cert e = [] \<and> re_key e = [] \<and> re_ca e = []
    | Some t \<Rightarrow> tls_client t = RequireAndVerifyClientCert \<and> tls_minVersion t = 13 \<and> tls_cert t = (re_cert e, re_key e) \<and>
        re_loads e (re_cert e) (re_key e) \<and> (\<exists>pem. re_readFile e (re_ca e) = FileData pem \<and> re_appendCerts e pem)"
    using ag by (auto simp: buildTLS_def split: if_splits file_read.splits)
  moreover have "case httpTLS of
      None \<Rightarrow> re_certsFile e = FileAbsent \<or> (\<exists>b c. re_certsFile e = FileData b \<and> re_certsYAML e b = Some c \<and> CertFile c = [] \<and> KeyFile c = [])
    | Some t \<Rightarrow> tls_minVersion t = 12 \<and> re_loads e (fst (tls_cert t)) (snd (tls_cert t))"
    using c h by (auto simp: certs_LoadConfig_def TLSConfig_def split: if_splits file_read.splits option.splits)
  moreover have "case smtp of
      None \<Rightarrow> re_smtpFile e = FileAbsent \<and> re_smtpDefault e
    | Some c \<Rightarrow> smtp_Host c \<noteq> [] \<and> re_parseAddress e (smtp_From c) \<noteq> None \<and> smtp_Security c \<in> {''starttls'', ''tls'', ''none''}"
    using smtp by (auto simp: smtp_LoadConfig_def smtp_validate_def Let_def split: if_splits file_read.splits option.splits)
  ultimately show ?thesis using dm by simp
qed

definition sample_run_env :: run_env where
  "sample_run_env = \<lparr>re_logLevelOK = True, re_minMinor = 0, re_start = sample_start, re_mkdir = True, re_openStore = True, re_openJournals = True,
     re_smtpFile = FileAbsent, re_smtpDefault = True, re_smtpYAML = (\<lambda>_. None), re_parseAddress = Some, re_hostname = None,
     re_cert = ''c'', re_key = ''k'', re_ca = ''a'', re_loads = (\<lambda>_ _. True), re_readFile = (\<lambda>_. FileData []), re_appendCerts = (\<lambda>_. True),
     re_certsFile = FileAbsent, re_certsYAML = (\<lambda>_. None), re_listen = True, re_leaseTTL = 30000, re_hbEvery = 5000, re_epoch = 7, re_dataDir = ''/d''\<rparr>"

lemma sample_run_env_starts:
  "\<exists>dm. run sample_run_env d fs = Inr dm \<and> dm_httpTLS dm = None \<and> dm_agentTLS dm \<noteq> None \<and> a_co (dm_api dm) = newCoordinator sample_run_env d fs"
proof -
  have "case loadAPIToken (se_tokenStat sample_start) (se_tokenFile sample_start) (se_tokenDefault sample_start) of Inl _ \<Rightarrow> False | Inr _ \<Rightarrow> True"
    "case startLogin sample_start of Inl _ \<Rightarrow> False | Inr _ \<Rightarrow> True" by code_simp+
  then obtain token login where
    "loadAPIToken (se_tokenStat sample_start) (se_tokenFile sample_start) (se_tokenDefault sample_start) = Inr token" "startLogin sample_start = Inr login"
    by (auto split: sum.splits)
  then show ?thesis by (auto simp: run_def sample_run_env_def smtp_LoadConfig_def buildTLS_def certs_LoadConfig_def TLSConfig_def)
qed

theorem listeners_fail_closed_witness:
  "\<exists>dm t. run sample_run_env empty_db [] = Inr dm \<and> dm_agentTLS dm = Some t \<and> tls_client t = RequireAndVerifyClientCert \<and> \<not> httpsEnabled (dm_cfg dm)"
proof -
  obtain dm where r: "run sample_run_env empty_db [] = Inr dm" and n: "dm_httpTLS dm = None" "dm_agentTLS dm \<noteq> None" using sample_run_env_starts by blast
  then show ?thesis using listeners_fail_closed [OF r] by (auto split: option.splits)
qed

text \<open>
  A certificate configuration that was named explicitly but is missing does not stop the daemon: it serves plain HTTP, and its
  session cookies are not marked secure.
\<close>

lemma missing_certs_config_serves_http:
  assumes "re_certsFile e = FileAbsent" "run e d fs = Inr dm"
  shows "dm_httpTLS dm = None \<and> \<not> httpsEnabled (dm_cfg dm)"
  using assms by (auto simp: run_def certs_LoadConfig_def TLSConfig_def split: if_splits sum.splits)


section \<open>Steps\<close>

text \<open>
  \<open>inner\<close> is any step of the agent server and the controller, \<open>request\<close> an HTTP request, \<open>polled\<close> a turn of the poller, \<open>joined\<close>, \<open>left\<close>
  and \<open>took\<close> what subscribers do, and \<open>restarted\<close> the end of the process, at any moment, and a start on its database and on what is left of its
  journal files.
\<close>

inductive daemon_step :: "daemon \<Rightarrow> daemon \<Rightarrow> bool" where
  inner: "coord_step (a_co (dm_api x)) c \<Longrightarrow> daemon_step x (x\<lparr>dm_api := (dm_api x)\<lparr>a_co := c\<rparr>\<rparr>)"
| request: "daemon_step x (x\<lparr>dm_api := snd (ServeHTTP (dm_cfg x) env rq (dm_api x))\<rparr>)"
| polled: "publishTick fails now (a_co (dm_api x)) (dm_poller x, dm_bus x) = (p, b) \<Longrightarrow> daemon_step x (x\<lparr>dm_poller := p, dm_bus := b\<rparr>)"
| joined: "daemon_step x (x\<lparr>dm_bus := snd (Subscribe (dm_bus x))\<rparr>)"
| left: "daemon_step x (x\<lparr>dm_bus := cancelSub i (dm_bus x)\<rparr>)"
| took: "daemon_step x (x\<lparr>dm_bus := snd (receive i (dm_bus x))\<rparr>)"
| restarted: "run e (srv_db (co_srv (a_co (dm_api x)))) (w_files (crash keep (srv_jw (co_srv (a_co (dm_api x)))))) = Inr y \<Longrightarrow> daemon_step x y"

definition daemon_ok :: "daemon \<Rightarrow> bool" where
  "daemon_ok x \<longleftrightarrow> coord_ok (a_co (dm_api x)) \<and> limiter_ok (a_limiter (dm_api x)) \<and> bus_ok (dm_bus x)"

text \<open>Opening a sound database changes nothing.\<close>

lemma rebuild_counts_sound:
  assumes "db_inv d"
  shows "rebuild_counts d = d"
proof -
  have "rollup_ok d" using assms by (simp add: db_inv_def store_inv_def queue_inv_def)
  then have "t_shards d = []" if "t_counts d = []"
    using that counts_exact_key_present [of "t_shards d" "t_counts d"] by (cases "t_shards d") (auto simp: rollup_ok_def)
  then show ?thesis by (auto simp: rebuild_counts_def)
qed

lemma run_ok:
  assumes "run e d fs = Inr y" "db_inv d"
  shows "daemon_ok y"
proof -
  have y: "dm_api y = \<lparr>a_co = newCoordinator e d fs, a_limiter = []\<rparr>" "dm_bus y = NewBus"
    using assms(1) by (auto simp: run_def split: if_splits sum.splits)
  have "srv_ok (co_srv (newCoordinator e d fs))"
    unfolding newCoordinator_def coordinator.select_convs rebuild_counts_sound [OF assms(2)] by (rule srv.inv_init) (use assms(2) in blast)
  then show ?thesis
    by (simp add: daemon_ok_def y coord_ok_def newCoordinator_def reap_queue_ok_def NewController_def limiter_ok_def bus_ok_def NewBus_def)
qed

lemma bus_ok_publish: "bus_ok b \<Longrightarrow> bus_ok (fold (Publish now) es b)"
proof (induction es arbitrary: b)
  case (Cons e es)
  then show ?case using bus_ok_step [of b "Published now e"] by (simp add: bus_step_def)
qed simp

lemma daemon_ok_step:
  assumes "daemon_ok x" "daemon_step x y"
  shows "daemon_ok y"
  using assms(2)
proof cases
  case (inner c)
  then show ?thesis using assms(1) coord_ok_step by (auto simp: daemon_ok_def)
next
  case (request env rq)
  have "coord_step\<^sup>*\<^sup>* (a_co (dm_api x)) (a_co (snd (run_handler (serve (dm_cfg x) env rq r) (dm_api x))))" for r
    using serve_co_runs [of "dm_cfg x" env rq r] by (simp add: runs_def run_handler_simps)
  then have "coord_step\<^sup>*\<^sup>* (a_co (dm_api x)) (a_co (snd (ServeHTTP (dm_cfg x) env rq (dm_api x))))" by (simp add: ServeHTTP_def split: option.splits)
  then show ?thesis using request assms(1) coord.inv_steps limiter_ok_serve by (auto simp: daemon_ok_def)
next
  case (polled fails now p b)
  then show ?thesis using assms(1) bus_ok_publish by (auto simp: daemon_ok_def publishTick_def split: prod.splits)
next
  case joined
  then show ?thesis using assms(1) bus_ok_step [of "dm_bus x" Joined] by (simp add: daemon_ok_def bus_step_def)
next
  case (left i)
  then show ?thesis using assms(1) bus_ok_step [of "dm_bus x" "Left i"] by (simp add: daemon_ok_def bus_step_def)
next
  case (took i)
  then show ?thesis using assms(1) bus_ok_step [of "dm_bus x" "Took i"] by (simp add: daemon_ok_def bus_step_def)
next
  case (restarted e keep)
  then show ?thesis using assms(1) by (intro run_ok) (auto simp: daemon_ok_def coord_ok_def srv_ok_def)
qed

interpretation daemon: invariant_system daemon_step "\<lambda>x. \<exists>e. run e empty_db [] = Inr x" daemon_ok
  by unfold_locales (use run_ok db_inv_empty daemon_ok_step in blast)+

end
