(* ===== verification/Gostrings.thy ===== *)
theory Gostrings
  imports Gotext
begin

text \<open>
  What the operator's tools use of Go's \<open>strings\<close> and \<open>net/url\<close>: splitting, searching and joining, quoting, and the escapes of
  paths and queries with their inverse.
\<close>

section \<open>Strings\<close>

text \<open>\<open>strings.Split\<close>, \<open>strings.Index\<close>, \<open>strings.Join\<close> and \<open>%q\<close> (of printable ASCII text).\<close>

definition Split :: "char \<Rightarrow> string \<Rightarrow> string list" where
  "Split c s = SplitN (Suc (length s)) c s"

fun Index :: "string \<Rightarrow> string \<Rightarrow> nat option" where
  "Index [] p = (if p = [] then Some 0 else None)"
| "Index (x # s) p = (if prefix p (x # s) then Some 0 else map_option Suc (Index s p))"

fun Join :: "string \<Rightarrow> string list \<Rightarrow> string" where
  "Join sep [] = []"
| "Join sep [x] = x"
| "Join sep (x # xs) = x @ sep @ Join sep xs"

definition Quote :: "string \<Rightarrow> string" where
  "Quote s = CHR 0x22 # concat (map (\<lambda>c. if c = CHR 0x22 \<or> c = CHR 0x5C then [CHR 0x5C, c] else [c]) s) @ [CHR 0x22]"

lemma space_chars_set: "set space_chars = {CHR 0x09, CHR 0x0A, CHR 0x0B, CHR 0x0C, CHR 0x0D, CHR '' ''}"
  by code_simp

lemma TrimSpace_ends:
  assumes "s \<noteq> [] \<longrightarrow> hd s \<notin> set space_chars \<and> last s \<notin> set space_chars"
  shows "TrimSpace s = s"
proof (cases s)
  case (Cons x xs)
  then have "dropWhile (\<lambda>c. c \<in> set space_chars) s = s" "dropWhile (\<lambda>c. c \<in> set space_chars) (rev s) = rev s"
    using assms by (simp_all add: dropWhile_eq_self_iff hd_rev del: rev.simps)
  then show ?thesis by (simp add: TrimSpace_def)
qed (simp add: TrimSpace_def)

lemma Index_absent [simp]: "x \<notin> set s \<Longrightarrow> Index s (x # p) = None"
  by (induction s) auto

lemma Index_found [simp]:
  "x \<notin> set s \<Longrightarrow> Index (s @ x # t) [x] = Some (length s)"
  "x \<notin> set s \<Longrightarrow> Index (s @ x # y # t) [x, y] = Some (length s)"
  by (induction s) auto

lemma SplitN_Join:
  "ts \<noteq> [] \<Longrightarrow> length ts \<le> Suc n \<Longrightarrow> \<forall>t \<in> set ts. c \<notin> set t \<Longrightarrow> SplitN (Suc n) c (Join [c] ts) = ts"
proof (induction "[c]" ts arbitrary: n rule: Join.induct)
  case (2 x)
  then show ?case by (cases n) auto
next
  case (3 x y ys)
  then obtain m where m: "n = Suc m" by (cases n) auto
  have "SplitN (Suc m) c (Join [c] (y # ys)) = y # ys" using 3 m by (intro 3(1)) auto
  then show ?case using 3(4) m by (simp add: cut_at)
qed simp

lemma Split_Join:
  assumes "ts \<noteq> []" "\<forall>t \<in> set ts. c \<notin> set t"
  shows "Split c (Join [c] ts) = ts"
proof -
  have "length ts \<le> Suc (length (Join [c] ts))" by (induction "[c]" ts rule: Join.induct) auto
  then show ?thesis unfolding Split_def using assms by (intro SplitN_Join)
qed

lemma Join_ends:
  "ts \<noteq> [] \<Longrightarrow> \<forall>t \<in> set ts. t \<noteq> [] \<Longrightarrow> Join sep ts \<noteq> [] \<and> hd (Join sep ts) = hd (hd ts) \<and> last (Join sep ts) = last (last ts)"
  by (induction sep ts rule: Join.induct) auto

section \<open>Escaping (net/url)\<close>

definition alnum :: "char \<Rightarrow> bool" where
  "alnum c = (let k = of_char c :: nat in 48 \<le> k \<and> k \<le> 57 \<or> 65 \<le> k \<and> k \<le> 90 \<or> 97 \<le> k \<and> k \<le> 122)"

definition hexUpper :: "nat \<Rightarrow> char" where
  "hexUpper n = ''0123456789ABCDEF'' ! (n mod 16)"

definition percent :: "char \<Rightarrow> string" where
  "percent c = (let k = of_char c :: nat in [CHR ''%'', hexUpper (k div 16), hexUpper k])"

text \<open>The characters \<open>shouldEscape\<close> leaves alone in a path segment and in a query component.\<close>

definition keepPath :: "char \<Rightarrow> bool" where
  "keepPath c \<longleftrightarrow> alnum c \<or> c \<in> set ''-_.~$&+=:@''"

definition keepQuery :: "char \<Rightarrow> bool" where
  "keepQuery c \<longleftrightarrow> alnum c \<or> c \<in> set ''-_.~''"

definition PathEscape :: "string \<Rightarrow> string" where
  "PathEscape s = concat (map (\<lambda>c. if keepPath c then [c] else percent c) s)"

definition QueryEscape :: "string \<Rightarrow> string" where
  "QueryEscape s = concat (map (\<lambda>c. if keepQuery c then [c] else if c = CHR '' '' then ''+'' else percent c) s)"

definition unhex :: "char \<Rightarrow> nat option" where
  "unhex c = (let k = of_char c :: nat
     in if 48 \<le> k \<and> k \<le> 57 then Some (k - 48) else if 97 \<le> k \<and> k \<le> 102 then Some (k - 87)
        else if 65 \<le> k \<and> k \<le> 70 then Some (k - 55) else None)"

fun unescape :: "bool \<Rightarrow> string \<Rightarrow> string option" where
  "unescape q [] = Some []"
| "unescape q (c # s) =
     (if c = CHR ''%''
      then (case s of
              a # b # r \<Rightarrow>
                (case (unhex a, unhex b) of
                   (Some x, Some y) \<Rightarrow> map_option ((#) (char_of (16 * x + y))) (unescape q r)
                 | _ \<Rightarrow> None)
            | _ \<Rightarrow> None)
      else map_option ((#) (if q \<and> c = CHR ''+'' then CHR '' '' else c)) (unescape q s))"

lemma hexUpper_table: "\<forall>k \<in> set [0..<16]. unhex (hexUpper k) = Some k \<and> alnum (hexUpper k)"
  by code_simp

lemma hexUpper_val: "unhex (hexUpper n) = Some (n mod 16)" "alnum (hexUpper n)"
  using hexUpper_table bspec [of "set [0..<16]" _ "n mod 16"] by (auto simp: hexUpper_def)

lemma alnum_plain: "alnum c \<Longrightarrow> c \<notin> set ''%/?#+&= ''"
  by (auto simp: alnum_def Let_def)

lemma keep_plain: "keepPath c \<Longrightarrow> c \<notin> set ''%/?# ''" "keepQuery c \<Longrightarrow> c \<notin> set ''%&=?#+ ''"
  using alnum_plain [of c] by (auto simp: keepPath_def keepQuery_def)

lemma unescape_percent: "unescape q (percent c @ r) = map_option ((#) c) (unescape q r)"
proof -
  have "of_char c < (256 :: nat)" by simp
  then have "of_char c div 16 < (16 :: nat)" by (simp add: less_mult_imp_div_less)
  then show ?thesis by (simp add: percent_def Let_def hexUpper_val)
qed

text \<open>Escaping and unescaping cancel out, and an escaped text holds none of the characters that delimit a URL.\<close>

lemma PathUnescape_PathEscape [simp]: "unescape False (PathEscape s @ r) = map_option ((@) s) (unescape False r)"
proof (induction s)
  case (Cons c s)
  have "unescape False ((if keepPath c then [c] else percent c) @ t) = map_option ((#) c) (unescape False t)" for t
    using keep_plain(1) [of c] by (simp add: unescape_percent)
  then show ?case using Cons by (simp add: PathEscape_def option.map_comp comp_def)
qed (simp add: PathEscape_def option.map_ident)

lemma QueryUnescape_QueryEscape [simp]: "unescape True (QueryEscape s @ r) = map_option ((@) s) (unescape True r)"
proof (induction s)
  case (Cons c s)
  have "unescape True ((if keepQuery c then [c] else if c = CHR '' '' then ''+'' else percent c) @ t) = map_option ((#) c) (unescape True t)" for t
    using keep_plain(2) [of c] by (simp add: unescape_percent)
  then show ?case using Cons by (simp add: QueryEscape_def option.map_comp comp_def)
qed (simp add: QueryEscape_def option.map_ident)

lemma percent_chars: "x \<in> set (percent c) \<Longrightarrow> x = CHR ''%'' \<or> keepPath x \<and> keepQuery x"
  using hexUpper_val(2) by (auto simp: percent_def Let_def keepPath_def keepQuery_def)

lemma PathEscape_chars: "x \<in> set (PathEscape s) \<Longrightarrow> keepPath x \<or> x = CHR ''%''"
  by (auto simp: PathEscape_def split: if_splits dest: percent_chars)

lemma QueryEscape_chars: "x \<in> set (QueryEscape s) \<Longrightarrow> keepQuery x \<or> x = CHR ''+'' \<or> x = CHR ''%''"
  by (auto simp: QueryEscape_def split: if_splits dest: percent_chars)

lemma keep_delims: "\<not> keepPath CHR ''/''" "\<not> keepPath CHR ''?''" "\<not> keepQuery CHR ''&''" "\<not> keepQuery CHR ''=''"
  by code_simp+

lemma PathEscape_delims: "CHR ''/'' \<notin> set (PathEscape s)" "CHR ''?'' \<notin> set (PathEscape s)"
  using PathEscape_chars [of "CHR ''/''" s] PathEscape_chars [of "CHR ''?''" s] by (auto simp: keep_delims)

lemma QueryEscape_delims: "CHR ''&'' \<notin> set (QueryEscape s)" "CHR ''='' \<notin> set (QueryEscape s)"
  using QueryEscape_chars [of "CHR ''&''" s] QueryEscape_chars [of "CHR ''=''" s] by (auto simp: keep_delims)

lemma unescape_escape [simp]: "unescape False (PathEscape s) = Some s" "unescape True (QueryEscape s) = Some s"
  using PathUnescape_PathEscape [of s "[]"] QueryUnescape_QueryEscape [of s "[]"] by simp_all

lemma escape_Nil_iff [simp]: "PathEscape s = [] \<longleftrightarrow> s = []"
proof
  assume "PathEscape s = []"
  then have "unescape False [] = Some s" using unescape_escape(1) [of s] by simp
  then show "s = []" by simp
qed (simp add: PathEscape_def)

text \<open>
  The path and query of a request line, as the server's router sees them: the segments of the path and the pairs of the
  query, each unescaped. \<open>None\<close>: not a valid URL, or a path the router redirects because it is not clean.
\<close>

definition splitPath :: "string \<Rightarrow> string list option" where
  "splitPath p =
     (case p of
        CHR ''/'' # r \<Rightarrow>
          let segs = Split CHR ''/'' r; dec = map (unescape False) segs
          in if None \<in> set dec \<or> list_ex (\<lambda>s. s \<in> {[], ''.'', ''..''}) segs then None else Some (map the dec)
      | _ \<Rightarrow> None)"

definition splitPair :: "string \<Rightarrow> (string \<times> string) option" where
  "splitPair kv =
     (case (unescape True (takeWhile (\<lambda>c. c \<noteq> CHR ''='') kv), unescape True (tl (dropWhile (\<lambda>c. c \<noteq> CHR ''='') kv))) of
        (Some k, Some v) \<Rightarrow> Some (k, v)
      | _ \<Rightarrow> None)"

definition splitQuery :: "string \<Rightarrow> (string \<times> string) list" where
  "splitQuery q = (if q = [] then [] else List.map_filter splitPair (Split CHR ''&'' q))"

definition splitURL :: "string \<Rightarrow> (string list \<times> (string \<times> string) list) option" where
  "splitURL u =
     (case splitPath (takeWhile (\<lambda>c. c \<noteq> CHR ''?'') u) of
        None \<Rightarrow> None
      | Some segs \<Rightarrow> Some (segs, splitQuery (tl (dropWhile (\<lambda>c. c \<noteq> CHR ''?'') u))))"

text \<open>A path written from segments is read back as them.\<close>

definition pathOf :: "string list \<Rightarrow> string" where
  "pathOf ss = concat (map (\<lambda>s. CHR ''/'' # PathEscape s) ss)"

lemma pathOf_Join: "ss \<noteq> [] \<Longrightarrow> pathOf ss = CHR ''/'' # Join ''/'' (map PathEscape ss)"
proof (induction ss)
  case (Cons s ss)
  then show ?case by (cases ss) (simp_all add: pathOf_def)
qed simp

lemma splitPath_pathOf:
  assumes "ss \<noteq> []"
  shows "splitPath (pathOf ss) = (if \<forall>s \<in> set ss. PathEscape s \<notin> {[], ''.'', ''..''} then Some ss else None)"
proof -
  have s: "Split CHR ''/'' (Join ''/'' (map PathEscape ss)) = map PathEscape ss"
    using assms PathEscape_delims by (intro Split_Join) auto
  then show ?thesis unfolding splitPath_def pathOf_Join [OF assms] by (auto simp: s Let_def comp_def list_ex_iff)
qed

lemma pathOf_no_query: "CHR ''?'' \<notin> set (pathOf ss)"
  using PathEscape_delims(2) by (auto simp: pathOf_def)

lemma splitURL_pathOf:
  assumes "ss \<noteq> []" "q = [] \<or> hd q = CHR ''?''"
  shows "splitURL (pathOf ss @ q) = (if \<forall>s \<in> set ss. PathEscape s \<notin> {[], ''.'', ''..''} then Some (ss, splitQuery (tl q)) else None)"
proof -
  have "takeWhile (\<lambda>c. c \<noteq> CHR ''?'') (pathOf ss @ q) = pathOf ss" "dropWhile (\<lambda>c. c \<noteq> CHR ''?'') (pathOf ss @ q) = q"
    using assms(2) pathOf_no_query [of ss] by (cases q; auto simp: cut_at takeWhile_eq_all_conv)+
  then show ?thesis by (simp add: splitURL_def splitPath_pathOf [OF assms(1)])
qed

text \<open>A query written from pairs is read back as them.\<close>

definition encPair :: "string \<times> string \<Rightarrow> string" where
  "encPair = (\<lambda>(k, v). QueryEscape k @ ''='' @ QueryEscape v)"

lemma splitPair_encPair: "splitPair (encPair kv) = Some kv"
proof (cases kv)
  case (Pair k v)
  have "takeWhile (\<lambda>c. c \<noteq> CHR ''='') (QueryEscape k @ CHR ''='' # QueryEscape v) = QueryEscape k \<and>
      dropWhile (\<lambda>c. c \<noteq> CHR ''='') (QueryEscape k @ CHR ''='' # QueryEscape v) = CHR ''='' # QueryEscape v"
    by (rule cut_at) (rule QueryEscape_delims(2))
  then show ?thesis by (simp add: Pair encPair_def splitPair_def)
qed

lemma splitQuery_enc: "splitQuery (Join ''&'' (map encPair kvs)) = kvs"
proof (cases "kvs = []")
  case False
  have "CHR ''&'' \<notin> set (encPair kv)" for kv by (cases kv) (simp add: encPair_def QueryEscape_delims)
  then have "Split CHR ''&'' (Join ''&'' (map encPair kvs)) = map encPair kvs" using False by (intro Split_Join) auto
  moreover have "encPair kv \<noteq> []" for kv by (cases kv) (simp add: encPair_def)
  then have "Join ''&'' (map encPair kvs) \<noteq> []" using Join_ends [of "map encPair kvs" "''&''"] False by auto
  moreover have "List.map_filter splitPair (map encPair kvs) = kvs" by (induction kvs) (simp_all add: splitPair_encPair)
  ultimately show ?thesis by (simp add: splitQuery_def)
qed (simp add: splitQuery_def)

end
