(* ===== verification/Byte_Size.thy ===== *)
theory Byte_Size
  imports Spec Gostrings
begin

text \<open>
  The sizes of a job spec (\<open>ByteSize\<close> in \<open>coordinator/internal/model/spec.go\<close>): a number with an optional fraction and an optional
  binary unit, read through a \<open>float64\<close>.
\<close>

section \<open>The reader\<close>

definition isDigit :: "char \<Rightarrow> bool" where
  "isDigit c \<longleftrightarrow> c \<in> set ''0123456789''"

text \<open>The class \<open>\s\<close> of the regular expression.\<close>

definition reSpace :: "char \<Rightarrow> bool" where
  "reSpace c \<longleftrightarrow> c \<in> set [CHR 0x09, CHR 0x0A, CHR 0x0C, CHR 0x0D, CHR '' '']"

text \<open>The units with the exponents of their multipliers.\<close>

definition sizeUnits :: "(string \<times> nat) list" where
  "sizeUnits = [([], 0), (''KiB'', 10), (''MiB'', 20), (''GiB'', 30), (''TiB'', 40)]"

text \<open>The match of \<open>sizeRe\<close>: the digits before and after the point, and the unit.\<close>

definition sizeRe :: "string \<Rightarrow> (string \<times> string \<times> string) option" where
  "sizeRe s =
     (let d = takeWhile isDigit s; r = dropWhile isDigit s; point = (r \<noteq> [] \<and> hd r = CHR ''.'');
          f = (if point then takeWhile isDigit (tl r) else []); r' = (if point then dropWhile isDigit (tl r) else r);
          u = dropWhile reSpace r'
      in if d = [] \<or> point \<and> f = [] \<or> u \<notin> set (map fst sizeUnits) then None else Some (d, f, u))"

text \<open>Values from here on round to an infinity; \<open>ParseFloat\<close> reports them as out of range.\<close>

definition f64_limit :: rat where
  "f64_limit = 2 ^ 1024 - 2 ^ 970"

definition decVal :: "string \<Rightarrow> int" where
  "decVal s = foldl (\<lambda>v c. v * 10 + int (digit_val c)) 0 s"

definition decimal :: "string \<Rightarrow> string \<Rightarrow> rat" where
  "decimal d f = of_int (decVal (d @ f)) / 10 ^ length f"

definition f64_mul :: "rat \<Rightarrow> nat \<Rightarrow> f64" where
  "f64_mul v k = (if v * 2 ^ k \<ge> f64_limit then F64Inf False else F64 (round64 (v * 2 ^ k)))"

datatype size_error = InvalidSize string | SizeRange

definition UnmarshalYAML :: "(f64 \<Rightarrow> u64) \<Rightarrow> string \<Rightarrow> size_error + u64" where
  "UnmarshalYAML oor value =
     (let s = TrimSpace value
      in case sizeRe s of
           None \<Rightarrow> Inl (InvalidSize s)
         | Some (d, f, u) \<Rightarrow>
             if decimal d f \<ge> f64_limit then Inl SizeRange
             else Inr (f64_to_u64 oor (f64_mul (round64 (decimal d f)) (the (map_of sizeUnits u)))))"

section \<open>Exact values\<close>

lemma round_even_int [simp]: "round_even (of_int n) = n"
  by (simp add: round_even_def)

lemma pow2_nat: "pow2 (int n) = 2 ^ n"
  by (simp add: pow2_def)

lemma exponent_int:
  assumes "0 < m"
  shows "exponent (of_int m) = bitlen m - 1"
proof -
  have "2 ^ nat (bitlen m - 1) \<le> m" using bitlen_bounds [OF assms] by simp
  moreover have "bitlen m \<ge> 1" using assms bitlen_nonneg [of m] bitlen_eq_zero_iff [of m] by linarith
  ultimately have "pow2 (bitlen m - 1) \<le> of_int m" unfolding pow2_def by (simp flip: of_int_power add: of_int_le_iff)
  moreover have "bitlen 1 = 1" by code_simp
  ultimately show ?thesis by (simp add: exponent_def quotient_of_int Let_def)
qed


text \<open>A whole number of at most 53 bits, times a power of two, is a \<open>float64\<close>.\<close>

lemma round64_exact:
  assumes "n < 2 ^ 53"
  shows "round64 (of_nat n * 2 ^ k) = of_nat n * 2 ^ k"
proof (cases "n = 0")
  case False
  define b where "b = bitlen (int n)"
  have n: "0 < int n" using False by simp
  have "int n < 2 ^ 53" using assms by (simp flip: of_nat_less_iff)
  then have b: "1 \<le> b" "b \<le> 53"
    using n bitlen_le_iff_power [of "int n" 53] bitlen_nonneg [of "int n"] bitlen_eq_zero_iff [of "int n"] unfolding b_def by (linarith, simp)
  have e: "exponent (of_nat n * 2 ^ k) = b + int k - 1"
    using exponent_int [of "int n * 2 ^ k"] n by (simp add: b_def)
  have "\<exists>q. (of_nat n * 2 ^ k) / pow2 (b + int k - 53) = rat_of_int q"
  proof (cases "b + int k \<ge> 53")
    case True
    then obtain j where j: "b + int k - 53 = int j" by (metis diff_ge_0_iff_ge nonneg_int_cases)
    then have "j \<le> k" using b by linarith
    then have "(2 :: rat) ^ k = 2 ^ (k - j) * 2 ^ j" by (simp flip: power_add)
    then have "(of_nat n * 2 ^ k) / pow2 (int j) = rat_of_int (int n * 2 ^ (k - j))" unfolding pow2_nat by simp
    then show ?thesis unfolding j by blast
  next
    case False
    then have "(of_nat n * 2 ^ k) / pow2 (b + int k - 53) = rat_of_int (int n * 2 ^ k * 2 ^ nat (53 - (b + int k)))" by (simp add: pow2_def)
    then show ?thesis by blast
  qed
  then obtain q where q: "(of_nat n * 2 ^ k) / pow2 (b + int k - 53) = rat_of_int q" by blast
  have u: "pow2 (b + int k - 53) \<noteq> 0" by (simp add: pow2_def)
  have "max (b + int k - 1 - 52) (- 1074) = b + int k - 53" using b by simp
  then have "round64 (of_nat n * 2 ^ k) = of_int (round_even (rat_of_int q)) * pow2 (b + int k - 53)"
    using False by (simp add: round64_def Let_def e q)
  then show ?thesis using q u by (simp add: divide_eq_eq)
qed (simp add: round64_def)

lemma fmt_nat_digits: "c \<in> set (fmt_nat 10 n) \<Longrightarrow> isDigit c"
  using fmt_nat_dec [of n] unfolding isDigit_def dec_chars_def by blast

lemma size_units: "(u, m) \<in> set sizeUnits \<Longrightarrow> map_of sizeUnits u = Some m \<and> m \<le> 40 \<and>
    (u \<noteq> [] \<longrightarrow> \<not> isDigit (hd u) \<and> \<not> reSpace (hd u) \<and> hd u \<noteq> CHR ''.'' \<and> last u = CHR ''B'')"
proof -
  have "list_all (\<lambda>(u, m). map_of sizeUnits u = Some m \<and> m \<le> 40 \<and>
    (u \<noteq> [] \<longrightarrow> \<not> isDigit (hd u) \<and> \<not> reSpace (hd u) \<and> hd u \<noteq> CHR ''.'' \<and> last u = CHR ''B'')) sizeUnits" by code_simp
  then show "(u, m) \<in> set sizeUnits \<Longrightarrow> ?thesis" unfolding list_all_iff by blast
qed

section \<open>Reading a size\<close>

lemma decVal_digits: "decVal s = int (digits_val 10 s)"
  by (induction s rule: rev_induct) (simp_all add: decVal_def digits_val_def)

lemma TrimSpace_size:
  assumes "(u, k) \<in> set sizeUnits" "list_all reSpace sp" "u = [] \<longrightarrow> sp = []"
  shows "TrimSpace (fmt_nat 10 n @ sp @ u) = fmt_nat 10 n @ sp @ u"
proof (rule TrimSpace_ends, intro impI conjI)
  have d: "c \<notin> set space_chars" if "isDigit c" for c using that unfolding space_chars_set isDigit_def by auto
  have ne: "fmt_nat 10 n \<noteq> []" by simp
  show "hd (fmt_nat 10 n @ sp @ u) \<notin> set space_chars" using ne d fmt_nat_digits [of "hd (fmt_nat 10 n)" n] by simp
  show "last (fmt_nat 10 n @ sp @ u) \<notin> set space_chars"
    using assms size_units [OF assms(1)] ne d fmt_nat_digits [of "last (fmt_nat 10 n)" n] unfolding space_chars_set by (cases "u = []") auto
qed

lemma sizeRe_size:
  assumes "(u, k) \<in> set sizeUnits" "list_all reSpace sp" "u = [] \<longrightarrow> sp = []"
  shows "sizeRe (fmt_nat 10 n @ sp @ u) = Some (fmt_nat 10 n, [], u)"
proof -
  have sd: "\<not> isDigit c \<and> c \<noteq> CHR ''.''" if "reSpace c" for c using that by (auto simp: reSpace_def isDigit_def)
  have u: "u \<noteq> [] \<longrightarrow> \<not> isDigit (hd u) \<and> \<not> reSpace (hd u) \<and> hd u \<noteq> CHR ''.''" "u \<in> set (map fst sizeUnits)"
    using size_units [OF assms(1)] assms(1) by force+
  have h: "sp @ u \<noteq> [] \<longrightarrow> \<not> isDigit (hd (sp @ u)) \<and> hd (sp @ u) \<noteq> CHR ''.''"
    using assms(2) u(1) sd by (cases sp) auto
  have t: "takeWhile isDigit (fmt_nat 10 n @ sp @ u) = fmt_nat 10 n" "dropWhile isDigit (fmt_nat 10 n @ sp @ u) = sp @ u"
    using h fmt_nat_digits [of _ n] by (cases "sp @ u"; simp add: takeWhile_append dropWhile_append del: append_is_Nil_conv; fail)+
  have "dropWhile reSpace (sp @ u) = u"
    using assms(2) u(1) by (cases u) (auto simp: dropWhile_append list_all_iff)
  then show ?thesis unfolding sizeRe_def t Let_def using h u(2) by auto
qed

lemma UnmarshalYAML_small:
  assumes "sizeRe (TrimSpace s) = Some (d, f, u)" "map_of sizeUnits u = Some k" "decimal d f < 2 ^ 64"
    and "round64 (decimal d f) = v" "v * 2 ^ k < 2 ^ 64" "round64 (v * 2 ^ k) = w" "0 \<le> w" "w < 2 ^ 64"
  shows "UnmarshalYAML oor s = Inr (of_int \<lfloor>w\<rfloor>)"
proof -
  have "(2 :: rat) ^ 64 < f64_limit" by (simp add: f64_limit_def)
  then show ?thesis using assms by (simp add: UnmarshalYAML_def Let_def f64_mul_def f64_to_u64_def)
qed

text \<open>
  A size is read as what it says: a whole number below \<open>2\<^sup>5\<^sup>3\<close> with a unit, the product within 64 bits, whatever white space
  between the two.
\<close>

theorem byte_size_exact:
  assumes "(u, k) \<in> set sizeUnits" "list_all reSpace sp" "u = [] \<longrightarrow> sp = []" "n < 2 ^ 53" "n * 2 ^ k < 2 ^ 64"
  shows "UnmarshalYAML oor (fmt_nat 10 n @ sp @ u) = Inr (of_nat (n * 2 ^ k))"
proof -
  have p: "rat_of_nat n * 2 ^ k < 2 ^ 64" using assms(5) by (simp flip: of_nat_less_iff [where 'a = rat])
  have "UnmarshalYAML oor (fmt_nat 10 n @ sp @ u) = Inr (of_int \<lfloor>rat_of_nat n * 2 ^ k\<rfloor>)"
  proof (rule UnmarshalYAML_small)
    show "sizeRe (TrimSpace (fmt_nat 10 n @ sp @ u)) = Some (fmt_nat 10 n, [], u)" unfolding TrimSpace_size [OF assms(1-3)] by (rule sizeRe_size [OF assms(1-3)])
    have v: "decimal (fmt_nat 10 n) [] = of_nat n" by (simp add: decimal_def decVal_digits digits_val_fmt)
    show "decimal (fmt_nat 10 n) [] < 2 ^ 64" unfolding v using p mult_left_mono [of 1 "2 ^ k" "rat_of_nat n"] by simp
    show "round64 (decimal (fmt_nat 10 n) []) = of_nat n" unfolding v using round64_exact [OF assms(4), of 0] by simp
  qed (use p round64_exact [OF assms(4), of k] size_units [OF assms(1)] in auto)
  moreover have "\<lfloor>rat_of_nat n * 2 ^ k\<rfloor> = int (n * 2 ^ k)" by (metis floor_of_nat of_nat_mult of_nat_numeral of_nat_power)
  ultimately show ?thesis by simp
qed

text \<open>Fractions are read too, and what is no size is refused.\<close>

theorem fractional_size: "UnmarshalYAML oor '' 1.5 GiB '' = Inr 1610612736"
proof -
  have "sizeRe (TrimSpace '' 1.5 GiB '') = Some (''1'', ''5'', ''GiB'')" "decimal ''1'' ''5'' < 2 ^ 64" "round64 (decimal ''1'' ''5'') = 3 / 2"
    "map_of sizeUnits ''GiB'' = Some 30" "(3 / 2 :: rat) * 2 ^ 30 < 2 ^ 64" "round64 (3 / 2 * 2 ^ 30) = 1610612736" by code_simp+
  from UnmarshalYAML_small [OF this(1,4,2,3,5,6)] show ?thesis by simp
qed

theorem bad_sizes: "list_all (\<lambda>s. UnmarshalYAML oor s = Inl (InvalidSize s)) [[], ''4.'', ''.5'', ''-1'', ''4 kib'', ''1e3'', ''4 KiB KiB'']"
proof -
  have "list_all (\<lambda>s. TrimSpace s = s \<and> sizeRe s = None) [[], ''4.'', ''.5'', ''-1'', ''4 kib'', ''1e3'', ''4 KiB KiB'']" by code_simp
  then show ?thesis by (simp add: UnmarshalYAML_def)
qed

text \<open>Above that bound the detour through \<open>float64\<close> shows: the nearest value is another number.\<close>

theorem size_loses_precision: "UnmarshalYAML oor ''9007199254740993'' = Inr 9007199254740992"
proof -
  have "sizeRe (TrimSpace ''9007199254740993'') = Some (''9007199254740993'', [], [])" "decimal ''9007199254740993'' [] < 2 ^ 64"
    "round64 (decimal ''9007199254740993'' []) = 9007199254740992" "map_of sizeUnits [] = Some 0" "(9007199254740992 :: rat) * 2 ^ 0 < 2 ^ 64"
    "round64 (9007199254740992 * 2 ^ 0) = 9007199254740992" by code_simp+
  from UnmarshalYAML_small [OF this(1,4,2,3,5,6)] show ?thesis by simp
qed

end
