(* ===== verification/Admin.thy ===== *)
theory Admin
  imports Api_Query Gostrings
begin

text \<open>
  The database console (\<open>coordinator/cmd/drsync-admin\<close>): its filter language (\<open>filter.go\<close>), the SQL
  text it builds, the allowlisted writes (\<open>db.go\<close>), the row and bulk edit dialogs (\<open>edit.go\<close>), the
  table view with its checkboxes (\<open>tables.go\<close>) and the refresh timer (\<open>refresh.go\<close>).

  SQLite answers a query as the parameter \<open>q\<close> says and may fail a write as \<open>ac_fails\<close> says. A write
  of a text into an \<open>INTEGER\<close> column stores the number the text reads as (the parameter \<open>intText\<close>); a
  text that is no value of the column's Go type is stored all the same, as the schema has no
  \<open>CHECK\<close>, and such a database has no counterpart in the model: it is \<open>None\<close>.
\<close>

section \<open>The filter language\<close>

datatype filter_error = BadTerm string | UnknownColumn string

fun splitAt :: "string \<Rightarrow> string list \<Rightarrow> (string \<times> string \<times> string) option" where
  "splitAt term [] = None"
| "splitAt term (cand # cs) =
     (case Index term cand of
        Some (Suc i) \<Rightarrow> Some (TrimSpace (take (Suc i) term), cand, TrimSpace (drop (Suc i + length cand) term))
      | _ \<Rightarrow> splitAt term cs)"

definition operators :: "string list" where
  "operators = [''!='', ''='', ''>'', ''<'', ''~'']"

definition splitTerm :: "string \<Rightarrow> filter_error + string \<times> string \<times> string" where
  "splitTerm term = (case splitAt term operators of None \<Rightarrow> Inl (BadTerm term) | Some r \<Rightarrow> Inr r)"

definition sqlOp :: "string \<Rightarrow> string" where
  "sqlOp oper = (if oper = ''~'' then ''LIKE'' else oper)"

definition bindArg :: "string \<Rightarrow> string \<Rightarrow> string" where
  "bindArg oper val = (if oper = ''~'' then ''%'' @ val @ ''%'' else val)"

definition clausePart :: "string \<Rightarrow> string \<Rightarrow> string" where
  "clausePart col oper = Quote col @ '' '' @ sqlOp oper @ '' ?''"

fun filterTerms :: "string list \<Rightarrow> string list \<Rightarrow> filter_error + (string list \<times> string list)" where
  "filterTerms cols [] = Inr ([], [])"
| "filterTerms cols (t # ts) =
     (if TrimSpace t = [] then filterTerms cols ts
      else case splitTerm (TrimSpace t) of
             Inl e \<Rightarrow> Inl e
           | Inr (col, oper, val) \<Rightarrow>
               if col \<notin> set cols then Inl (UnknownColumn col)
               else (case filterTerms cols ts of
                       Inl e \<Rightarrow> Inl e
                     | Inr (parts, args) \<Rightarrow> Inr (clausePart col oper # parts, bindArg oper val # args)))"

definition buildFilterClause :: "string list \<Rightarrow> string \<Rightarrow> filter_error + (string \<times> string list)" where
  "buildFilterClause cols flt =
     (let f = TrimSpace flt
      in if f = [] then Inr ([], [])
         else case filterTerms cols (Split CHR '','' f) of
                Inl e \<Rightarrow> Inl e
              | Inr (parts, args) \<Rightarrow> Inr (Join '' AND '' parts, args))"

subsection \<open>Reading a filter back\<close>

lemma splitAt_Some: "splitAt term cs = Some (col, oper, val) \<Longrightarrow> oper \<in> set cs"
  by (induction cs) (auto split: option.splits nat.splits)

lemma filterTerms_shape:
  "filterTerms cols ts = Inr (parts, args) \<Longrightarrow>
   \<exists>cs. parts = map (\<lambda>(c, oper). clausePart c oper) cs \<and> (\<forall>(c, oper) \<in> set cs. c \<in> set cols \<and> oper \<in> set operators) \<and> length args = length cs"
proof (induction ts arbitrary: parts args)
  case (Cons t ts)
  show ?case
  proof (cases "TrimSpace t = []")
    case False
    then obtain col oper val p a where 1: "splitTerm (TrimSpace t) = Inr (col, oper, val)" "col \<in> set cols" "filterTerms cols ts = Inr (p, a)"
      and 2: "parts = clausePart col oper # p" "args = bindArg oper val # a"
      using Cons.prems by (auto split: sum.splits if_splits)
    obtain cs where cs: "p = map (\<lambda>(c, oper). clausePart c oper) cs" "\<forall>(c, oper) \<in> set cs. c \<in> set cols \<and> oper \<in> set operators" "length a = length cs"
      using Cons.IH [OF 1(3)] by blast
    have "oper \<in> set operators" using 1(1) splitAt_Some by (fastforce simp: splitTerm_def split: option.splits)
    then show ?thesis using 1(2) 2 cs by (intro exI [of _ "(col, oper) # cs"]) auto
  qed (use Cons in simp)
qed simp


definition trimmed :: "string \<Rightarrow> bool" where
  "trimmed s \<longleftrightarrow> (s \<noteq> [] \<longrightarrow> hd s \<notin> set space_chars \<and> last s \<notin> set space_chars)"

definition special_chars :: string where
  "special_chars = ''!=><~,''"

text \<open>A term an operator can mean: a column of the table, one of the operators, and a value without their characters.\<close>

definition plainTerm :: "string list \<Rightarrow> string \<times> string \<times> string \<Rightarrow> bool" where
  "plainTerm cols = (\<lambda>(col, oper, val). col \<in> set cols \<and> col \<noteq> [] \<and> trimmed col \<and> trimmed val \<and> oper \<in> set operators \<and>
     set col \<inter> set special_chars = {} \<and> set val \<inter> set special_chars = {})"

definition printTerm :: "string \<times> string \<times> string \<Rightarrow> string" where
  "printTerm = (\<lambda>(col, oper, val). col @ oper @ val)"

lemma operators_set: "set operators = {''!='', ''='', ''>'', ''<'', ''~''}"
  by (simp add: operators_def)

lemma operators_chars: "oper \<in> set operators \<Longrightarrow> oper \<noteq> [] \<and> hd oper \<in> set special_chars \<and> last oper \<in> set special_chars \<and>
    hd oper \<notin> set space_chars \<and> last oper \<notin> set space_chars \<and> CHR '','' \<notin> set oper"
  unfolding operators_set space_chars_set special_chars_def by auto

lemma splitTerm_print:
  assumes "plainTerm cols (col, oper, val)"
  shows "splitTerm (printTerm (col, oper, val)) = Inr (col, oper, val)"
proof -
  have c: "col \<noteq> []" "TrimSpace col = col" "TrimSpace val = val"
    and s: "\<And>x. x \<in> set special_chars \<Longrightarrow> x \<notin> set col \<and> x \<notin> set val"
    using assms by (auto simp: plainTerm_def trimmed_def intro!: TrimSpace_ends)
  have s': "CHR ''!'' \<notin> set col" "CHR ''!'' \<notin> set val" "CHR ''='' \<notin> set col" "CHR ''='' \<notin> set val" "CHR ''>'' \<notin> set col" "CHR ''>'' \<notin> set val"
    "CHR ''<'' \<notin> set col" "CHR ''<'' \<notin> set val" "CHR ''~'' \<notin> set col" "CHR ''~'' \<notin> set val"
    using s by (simp_all add: special_chars_def)
  obtain k where k: "length col = Suc k" using c(1) by (cases col) auto
  have "oper \<in> set operators" using assms by (simp add: plainTerm_def)
  then consider "oper = ''!=''" | "oper = ''=''" | "oper = ''>''" | "oper = ''<''" | "oper = ''~''" by (auto simp: operators_set)
  then have "splitAt (col @ oper @ val) operators = Some (col, oper, val)" by cases (use k c s' in \<open>simp_all add: operators_def\<close>)
  then show ?thesis by (simp add: splitTerm_def printTerm_def)
qed

lemma printTerm_shape:
  assumes "plainTerm cols t"
  shows "printTerm t \<noteq> [] \<and> CHR '','' \<notin> set (printTerm t) \<and> hd (printTerm t) \<notin> set space_chars \<and> last (printTerm t) \<notin> set space_chars"
proof (cases t)
  case (fields col oper val)
  then have "oper \<in> set operators" using assms by (simp add: plainTerm_def)
  note o = operators_chars [OF this]
  have "CHR '','' \<in> set special_chars" by (simp add: special_chars_def)
  then have "CHR '','' \<notin> set (printTerm t)" using assms fields o by (auto simp: plainTerm_def printTerm_def)
  then show ?thesis using assms fields o by (cases "val = []") (simp_all add: plainTerm_def printTerm_def trimmed_def last_append)
qed

lemma filterTerms_print:
  "\<forall>t \<in> set ts. plainTerm cols t \<Longrightarrow>
   filterTerms cols (map printTerm ts) = Inr (map (\<lambda>(c, oper, v). clausePart c oper) ts, map (\<lambda>(c, oper, v). bindArg oper v) ts)"
proof (induction ts)
  case (Cons t ts)
  obtain c oper v where t: "t = (c, oper, v)" by (cases t)
  have "TrimSpace (printTerm t) = printTerm t" using printTerm_shape [of cols t] Cons.prems by (intro TrimSpace_ends) simp
  then show ?case using Cons printTerm_shape [of cols t] splitTerm_print [of cols c oper v] t by (simp add: plainTerm_def)
qed simp

section \<open>Rows and the statements over them\<close>

datatype sqlval = VNull | VInt int | VText string | VBlob bytes

record Row =
  row_Cols :: "string list"
  row_Values :: "sqlval list"

fun valString :: "sqlval \<Rightarrow> string" where
  "valString VNull = []"
| "valString (VInt n) = fmt_int 10 n"
| "valString (VText s) = s"
| "valString (VBlob b) = string_of b"

definition row_String :: "Row \<Rightarrow> nat \<Rightarrow> string" where
  "row_String r i = valString (row_Values r ! i)"

text \<open>The position of a column, \<open>None\<close> for \<open>-1\<close>; the key column falls back to the first one.\<close>

definition colIndex :: "Row \<Rightarrow> string \<Rightarrow> nat option" where
  "colIndex r col = (if col \<in> set (row_Cols r) then Some (length (takeWhile (\<lambda>c. c \<noteq> col) (row_Cols r))) else None)"

definition pkIndex :: "Row \<Rightarrow> string \<Rightarrow> nat" where
  "pkIndex r pk = (case colIndex r pk of None \<Rightarrow> 0 | Some i \<Rightarrow> i)"

definition rowKey :: "Row \<Rightarrow> string \<Rightarrow> sqlval" where
  "rowKey r pk = row_Values r ! pkIndex r pk"

text \<open>The value a row shows in a column. Go panics on a column the row lacks; the dialogs only ask for the row's own.\<close>

definition shown :: "Row \<Rightarrow> string \<Rightarrow> string" where
  "shown r col = (case colIndex r col of None \<Rightarrow> [] | Some i \<Rightarrow> row_String r i)"

definition editableColumns :: "(string \<times> string list) list" where
  "editableColumns = [(''shards'', [''priority'', ''state'', ''attempt'']), (''agents'', [''enabled'']), (''jobs'', [''state''])]"

definition isEditable :: "string \<Rightarrow> string \<Rightarrow> bool" where
  "isEditable table col = (case map_of editableColumns table of None \<Rightarrow> False | Some cs \<Rightarrow> col \<in> set cs)"

definition hasEditableColumns :: "string \<Rightarrow> bool" where
  "hasEditableColumns table = (case map_of editableColumns table of None \<Rightarrow> False | Some cs \<Rightarrow> cs \<noteq> [])"

definition editableColumnNames :: "string \<Rightarrow> string list" where
  "editableColumnNames table = (case map_of editableColumns table of None \<Rightarrow> [] | Some cs \<Rightarrow> sort cs)"

definition quoteCols :: "string list \<Rightarrow> string" where
  "quoteCols cols = Join '', '' (map Quote cols)"

definition defaultRowLimit :: nat where
  "defaultRowLimit = 500"

definition selectSQL :: "string list \<Rightarrow> string \<Rightarrow> string \<Rightarrow> string \<Rightarrow> nat \<Rightarrow> string" where
  "selectSQL cols table whereClause orderBy limit =
     ''SELECT '' @ quoteCols cols @ '' FROM '' @ Quote table @ (if whereClause \<noteq> [] then '' WHERE '' @ whereClause else []) @
     (if orderBy \<noteq> [] then '' ORDER BY '' @ orderBy else []) @ '' LIMIT '' @ fmt_nat 10 limit"

subsection \<open>Writes\<close>

record admin_cfg =
  ac_writable :: bool
  ac_intText :: "string \<Rightarrow> int option"
  ac_fails :: "string \<Rightarrow> string \<Rightarrow> sqlval \<Rightarrow> bool"

datatype admin_error = NotEditable string string | ExecFailed

definition ShardState_of :: "string \<Rightarrow> ShardState option" where
  "ShardState_of v = List.find (\<lambda>s. shardStateName s = v) [ShardQueued, ShardLeased, ShardDone, ShardParked]"

definition JobState_of :: "string \<Rightarrow> JobState option" where
  "JobState_of v = List.find (\<lambda>s. jobStateName s = v) [JobCreated, JobReady, JobRunning, JobPaused, JobCompleted, JobCancelled, JobFailed]"

text \<open>The assignment of a text to a column of a shard, as a change of the typed row.\<close>

definition setShardCol :: "(string \<Rightarrow> int option) \<Rightarrow> string \<Rightarrow> string \<Rightarrow> (shard_row \<Rightarrow> shard_row) option" where
  "setShardCol it col v =
     (if col = ''priority'' then map_option (\<lambda>n s. s\<lparr>shard_priority := n\<rparr>) (it v)
      else if col = ''state'' then map_option (\<lambda>st s. s\<lparr>shard_state := st\<rparr>) (ShardState_of v)
      else (case it v of None \<Rightarrow> None | Some n \<Rightarrow> if n < 0 then None else Some (\<lambda>s. s\<lparr>shard_attempt := nat n\<rparr>)))"

definition isKey :: "sqlval \<Rightarrow> int \<Rightarrow> bool" where
  "isKey v i \<longleftrightarrow> v = VInt i"

definition execUpdate :: "admin_cfg \<Rightarrow> string \<Rightarrow> sqlval \<Rightarrow> string \<Rightarrow> string \<Rightarrow> db \<Rightarrow> db option" where
  "execUpdate cfg table key col v d =
     (if table = ''shards'' then
        (if list_ex (\<lambda>s. isKey key (shard_id s)) (t_shards d)
         then map_option (\<lambda>f. update_shards (\<lambda>s. isKey key (shard_id s)) f d) (setShardCol (ac_intText cfg) col v) else Some d)
      else if table = ''agents'' then
        (if list_ex (\<lambda>a. key = VText (agent_id a)) (t_agents d)
         then map_option (\<lambda>n. d\<lparr>t_agents := update_where (\<lambda>a. key = VText (agent_id a)) (\<lambda>a. a\<lparr>agent_enabled := (n \<noteq> 0)\<rparr>) (t_agents d)\<rparr>)
                (ac_intText cfg v) else Some d)
      else
        (if list_ex (\<lambda>j. isKey key (job_id j)) (t_jobs d)
         then map_option (\<lambda>st. d\<lparr>t_jobs := update_where (\<lambda>j. isKey key (job_id j)) (\<lambda>j. j\<lparr>job_state := st\<rparr>) (t_jobs d)\<rparr>) (JobState_of v)
         else Some d))"

text \<open>A connection opened without \<open>-write\<close> is \<open>query_only\<close>: every write fails.\<close>

definition updateColumn :: "admin_cfg \<Rightarrow> string \<Rightarrow> sqlval \<Rightarrow> string \<Rightarrow> string \<Rightarrow> db option \<Rightarrow> admin_error + db option" where
  "updateColumn cfg table key col v d =
     (if \<not> isEditable table col then Inl (NotEditable table col)
      else if \<not> ac_writable cfg \<or> ac_fails cfg table col key then Inl ExecFailed
      else Inr (Option.bind d (execUpdate cfg table key col v)))"

section \<open>The dialogs\<close>

text \<open>
  The row dialog: \<open>texts\<close> are the contents of the input fields, one for each editable column of the row in
  order, and \<open>confirm\<close> the answer to the before/after summary.
\<close>

definition detailFields :: "admin_cfg \<Rightarrow> string \<Rightarrow> Row \<Rightarrow> string list" where
  "detailFields cfg table r = filter (\<lambda>c. ac_writable cfg \<and> isEditable table c) (row_Cols r)"

fun applyChanges :: "admin_cfg \<Rightarrow> string \<Rightarrow> sqlval \<Rightarrow> (string \<times> string) list \<Rightarrow> db option \<Rightarrow> admin_error option \<times> db option" where
  "applyChanges cfg table key [] d = (None, d)"
| "applyChanges cfg table key ((col, v) # cs) d =
     (case updateColumn cfg table key col v d of
        Inl e \<Rightarrow> (Some e, d)
      | Inr d' \<Rightarrow> applyChanges cfg table key cs d')"

definition confirmAndApply :: "admin_cfg \<Rightarrow> string \<Rightarrow> string \<Rightarrow> Row \<Rightarrow> (string \<times> string) list \<Rightarrow> bool \<Rightarrow> db option \<Rightarrow> admin_error option \<times> db option" where
  "confirmAndApply cfg table pk r edits confirm d =
     (let changes = filter (\<lambda>(col, v). shown r col \<noteq> v) edits
      in if changes = [] \<or> \<not> confirm then (None, d)
         else applyChanges cfg table (rowKey r pk) changes d)"

definition openRowDetail :: "admin_cfg \<Rightarrow> string \<Rightarrow> string \<Rightarrow> Row \<Rightarrow> string list \<Rightarrow> bool \<Rightarrow> db option \<Rightarrow> admin_error option \<times> db option" where
  "openRowDetail cfg table pk r texts confirm d =
     (let edits = zip (detailFields cfg table r) texts
      in if edits = [] then (None, d) else confirmAndApply cfg table pk r edits confirm d)"

text \<open>The bulk edit: the counts of rows written and of rows that failed, and the database.\<close>

fun bulkLoop :: "admin_cfg \<Rightarrow> string \<Rightarrow> string \<Rightarrow> string \<Rightarrow> string \<Rightarrow> Row list \<Rightarrow> nat \<times> nat \<times> db option \<Rightarrow> nat \<times> nat \<times> db option" where
  "bulkLoop cfg table pk col v [] st = st"
| "bulkLoop cfg table pk col v (r # rs) (applied, failed, d) =
     (if shown r col = v then bulkLoop cfg table pk col v rs (applied, failed, d)
      else case updateColumn cfg table (rowKey r pk) col v d of
             Inl e \<Rightarrow> bulkLoop cfg table pk col v rs (applied, Suc failed, d)
           | Inr d' \<Rightarrow> bulkLoop cfg table pk col v rs (Suc applied, failed, d'))"

definition confirmBulkApply :: "admin_cfg \<Rightarrow> string \<Rightarrow> string \<Rightarrow> Row list \<Rightarrow> string \<Rightarrow> string \<Rightarrow> bool \<Rightarrow> db option \<Rightarrow> nat \<times> nat \<times> db option" where
  "confirmBulkApply cfg table pk rows col v confirm d =
     (if list_all (\<lambda>r. shown r col = v) rows \<or> \<not> confirm then (0, 0, d)
      else bulkLoop cfg table pk col v rows (0, 0, d))"

text \<open>The drop-down of the dialog offers the columns of \<open>editableColumnNames\<close>.\<close>

definition openBulkEdit :: "admin_cfg \<Rightarrow> string \<Rightarrow> string \<Rightarrow> Row list \<Rightarrow> string \<Rightarrow> string \<Rightarrow> bool \<Rightarrow> db option \<Rightarrow> nat \<times> nat \<times> db option" where
  "openBulkEdit cfg table pk rows col v confirm d =
     (if rows = [] \<or> col \<notin> set (editableColumnNames table) then (0, 0, d)
      else confirmBulkApply cfg table pk rows col v confirm d)"

section \<open>What an edit writes\<close>

lemma setShardCol_frame:
  assumes "setShardCol it col v = Some f"
  shows "f (f s) = f s" "shard_id (f s) = shard_id s" "shard_pass (f s) = shard_pass s" "shard_kind (f s) = shard_kind s"
    "lease_id (f s) = lease_id s" "lease_agent (f s) = lease_agent s" "lease_expiry (f s) = lease_expiry s"
  using assms by (auto simp: setShardCol_def split: if_splits option.splits)

lemma update_where_absent: "\<forall>x \<in> set xs. \<not> P x \<Longrightarrow> update_where P f xs = xs"
  by (induction xs) (auto simp: update_where_def)

lemma update_where_twice:
  "\<forall>x. f (f x) = f x \<Longrightarrow> \<forall>x. P (f x) = P x \<Longrightarrow> \<forall>x. Q (f x) = Q x \<Longrightarrow>
   update_where P f (update_where Q f xs) = update_where (\<lambda>x. P x \<or> Q x) f xs"
  by (induction xs) (auto simp: update_where_def)

definition shards_edit :: "(shard_row \<Rightarrow> bool) \<Rightarrow> (shard_row \<Rightarrow> shard_row) \<Rightarrow> db \<Rightarrow> db \<Rightarrow> bool" where
  "shards_edit P f d d' \<longleftrightarrow> t_shards d' = update_where P f (t_shards d) \<and>
     d'\<lparr>t_shards := t_shards d, t_counts := t_counts d\<rparr> = d \<and> (rollup_ok d \<longrightarrow> rollup_ok d')"

lemma shards_edit_refl: "\<forall>s \<in> set (t_shards d). \<not> P s \<Longrightarrow> shards_edit P f d d"
  by (simp add: shards_edit_def update_where_absent)

lemma execUpdate_shards:
  assumes "setShardCol (ac_intText cfg) col v = Some f"
  shows "\<exists>d'. execUpdate cfg ''shards'' key col v d = Some d' \<and> shards_edit (\<lambda>s. key = VInt (shard_id s)) f d d'"
proof (cases "list_ex (\<lambda>s. isKey key (shard_id s)) (t_shards d)")
  case True
  let ?d = "update_shards (\<lambda>s. isKey key (shard_id s)) f d"
  have "shards_edit (\<lambda>s. key = VInt (shard_id s)) f d ?d"
    using rollup_update_shards [of d "\<lambda>s. isKey key (shard_id s)" f] by (simp add: shards_edit_def update_shards_def isKey_def)
  then show ?thesis using True assms by (simp add: execUpdate_def)
next
  case False
  then show ?thesis by (auto simp: execUpdate_def list_ex_iff isKey_def intro!: shards_edit_refl)
qed

lemma shards_edit_trans:
  assumes "shards_edit Q f d d1" "shards_edit P f d1 d2" "\<forall>x. f (f x) = f x" "\<forall>x. P (f x) = P x" "\<forall>x. Q (f x) = Q x"
  shows "shards_edit (\<lambda>x. P x \<or> Q x) f d d2"
proof -
  have "d2\<lparr>t_shards := t_shards d1, t_counts := t_counts d1\<rparr> = d1" "d1\<lparr>t_shards := t_shards d, t_counts := t_counts d\<rparr> = d"
    using assms(1,2) by (simp_all add: shards_edit_def)
  then have "d2\<lparr>t_shards := t_shards d, t_counts := t_counts d\<rparr> = d"
    by (metis (no_types, lifting) db.update_convs(3,4) db.surjective)
  then show ?thesis using assms update_where_twice [of f P Q] by (simp add: shards_edit_def)
qed

definition bulkWrites :: "admin_cfg \<Rightarrow> string \<Rightarrow> string \<Rightarrow> Row \<Rightarrow> bool" where
  "bulkWrites cfg col v r \<longleftrightarrow> shown r col \<noteq> v \<and> \<not> ac_fails cfg ''shards'' col (rowKey r ''id'')"

lemma bulkLoop_shards:
  assumes "ac_writable cfg" "isEditable ''shards'' col" and f: "setShardCol (ac_intText cfg) col v = Some f"
  shows "\<exists>d'. bulkLoop cfg ''shards'' ''id'' col v rows (a, b, Some d) =
      (a + length (filter (bulkWrites cfg col v) rows), b + length (filter (\<lambda>r. shown r col \<noteq> v \<and> \<not> bulkWrites cfg col v r) rows), Some d') \<and>
    shards_edit (\<lambda>s. \<exists>r \<in> set rows. bulkWrites cfg col v r \<and> rowKey r ''id'' = VInt (shard_id s)) f d d'"
proof (induction rows arbitrary: a b d)
  case Nil
  then show ?case by (auto intro: shards_edit_refl)
next
  case (Cons r rs)
  note fr = setShardCol_frame [OF f]
  show ?case
  proof (cases "bulkWrites cfg col v r")
    case True
    then have "shown r col \<noteq> v" "\<not> ac_fails cfg ''shards'' col (rowKey r ''id'')" by (simp_all add: bulkWrites_def)
    moreover obtain d1 where d1: "execUpdate cfg ''shards'' (rowKey r ''id'') col v d = Some d1"
      "shards_edit (\<lambda>s. rowKey r ''id'' = VInt (shard_id s)) f d d1" using execUpdate_shards [OF f] by blast
    moreover obtain d2 where d2: "bulkLoop cfg ''shards'' ''id'' col v rs (Suc a, b, Some d1) =
        (Suc a + length (filter (bulkWrites cfg col v) rs), b + length (filter (\<lambda>r. shown r col \<noteq> v \<and> \<not> bulkWrites cfg col v r) rs), Some d2)"
      "shards_edit (\<lambda>s. \<exists>r \<in> set rs. bulkWrites cfg col v r \<and> rowKey r ''id'' = VInt (shard_id s)) f d1 d2" using Cons.IH by blast
    moreover have "shards_edit (\<lambda>s. \<exists>r' \<in> set (r # rs). bulkWrites cfg col v r' \<and> rowKey r' ''id'' = VInt (shard_id s)) f d d2"
      using shards_edit_trans [OF d1(2) d2(2)] fr True by (simp add: disj_commute)
    ultimately show ?thesis using assms True by (simp add: updateColumn_def)
  next
    case False
    define b' where "b' = (if shown r col \<noteq> v then Suc b else b)"
    have "bulkLoop cfg ''shards'' ''id'' col v (r # rs) (a, b, Some d) = bulkLoop cfg ''shards'' ''id'' col v rs (a, b', Some d)"
      using False assms by (auto simp: bulkWrites_def updateColumn_def b'_def)
    then show ?thesis using Cons.IH [of a b' d] False by (auto simp: b'_def)
  qed
qed

section \<open>The table view\<close>

text \<open>The text of the filter field is \<open>tv_filter\<close>; \<open>tv_checked\<close> holds positions in \<open>tv_rows\<close>.\<close>

record TableView =
  tv_table :: string
  tv_cols :: "(string \<times> bool) list"
  tv_pk :: string
  tv_filter :: string
  tv_rows :: "Row list"
  tv_checked :: "nat set"

type_synonym sql_query = "string \<Rightarrow> string list \<Rightarrow> db \<Rightarrow> Row list option"

definition doReload :: "sql_query \<Rightarrow> string \<Rightarrow> bool \<Rightarrow> db option \<Rightarrow> TableView \<Rightarrow> TableView" where
  "doReload q flt clearChecked d tv =
     (case buildFilterClause (map fst (tv_cols tv)) flt of
        Inl e \<Rightarrow> tv
      | Inr (clause, args) \<Rightarrow>
          (case Option.bind d (q (selectSQL (map fst (tv_cols tv)) (tv_table tv) clause (tv_pk tv) defaultRowLimit) args) of
             None \<Rightarrow> tv
           | Some rows \<Rightarrow> tv\<lparr>tv_rows := rows, tv_checked := (if clearChecked then {} else tv_checked tv)\<rparr>))"

definition reload :: "sql_query \<Rightarrow> db option \<Rightarrow> TableView \<Rightarrow> TableView" where
  "reload q d tv = doReload q (tv_filter tv) True d tv"

definition refreshInPlace :: "sql_query \<Rightarrow> db option \<Rightarrow> TableView \<Rightarrow> TableView" where
  "refreshInPlace q d tv = doReload q (tv_filter tv) False d tv"

definition newTableView :: "sql_query \<Rightarrow> string \<Rightarrow> (string \<times> bool) list \<Rightarrow> db option \<Rightarrow> TableView" where
  "newTableView q table cols d =
     reload q d \<lparr>tv_table = table, tv_cols = cols, tv_pk = (case List.find snd cols of None \<Rightarrow> ''id'' | Some c \<Rightarrow> fst c),
       tv_filter = [], tv_rows = [], tv_checked = {}\<rparr>"

definition toggleChecked :: "int \<Rightarrow> TableView \<Rightarrow> TableView" where
  "toggleChecked rowIdx tv =
     (if rowIdx < 0 \<or> rowIdx \<ge> int (length (tv_rows tv)) then tv
      else if nat rowIdx \<in> tv_checked tv then tv\<lparr>tv_checked := tv_checked tv - {nat rowIdx}\<rparr>
      else tv\<lparr>tv_checked := insert (nat rowIdx) (tv_checked tv)\<rparr>)"

definition toggleAll :: "TableView \<Rightarrow> TableView" where
  "toggleAll tv =
     (if card (tv_checked tv) = length (tv_rows tv) then tv\<lparr>tv_checked := {}\<rparr>
      else tv\<lparr>tv_checked := tv_checked tv \<union> set [0..<length (tv_rows tv)]\<rparr>)"

definition checkedRows :: "TableView \<Rightarrow> Row list" where
  "checkedRows tv = map (\<lambda>i. tv_rows tv ! i) (filter (\<lambda>i. i \<in> tv_checked tv) [0..<length (tv_rows tv)])"

text \<open>What the operator does at the grid; a dialog is one action with everything typed into it.\<close>

datatype key =
    KFilter string
  | KSpace int
  | KAll
  | KRefresh
  | KBulk string string bool
  | KRow nat "string list" bool

definition bulkKey :: "sql_query \<Rightarrow> admin_cfg \<Rightarrow> string \<Rightarrow> string \<Rightarrow> bool \<Rightarrow> TableView \<Rightarrow> db option \<Rightarrow> TableView \<times> db option" where
  "bulkKey q cfg col v confirm tv d =
     (if \<not> (ac_writable cfg \<and> tv_checked tv \<noteq> {} \<and> hasEditableColumns (tv_table tv)) then (tv, d)
      else let rows = checkedRows tv; d' = snd (snd (openBulkEdit cfg (tv_table tv) (tv_pk tv) rows col v confirm d))
           in (if confirm \<and> rows \<noteq> [] \<and> col \<in> set (editableColumnNames (tv_table tv)) \<and> \<not> list_all (\<lambda>r. shown r col = v) rows
               then reload q d' tv else tv, d'))"

definition rowKeyPress :: "sql_query \<Rightarrow> admin_cfg \<Rightarrow> nat \<Rightarrow> string list \<Rightarrow> bool \<Rightarrow> TableView \<Rightarrow> db option \<Rightarrow> TableView \<times> db option" where
  "rowKeyPress q cfg row texts confirm tv d =
     (if row = 0 \<or> row - 1 \<ge> length (tv_rows tv) then (tv, d)
      else let r = tv_rows tv ! (row - 1); edits = zip (detailFields cfg (tv_table tv) r) texts;
               (err, d') = openRowDetail cfg (tv_table tv) (tv_pk tv) r texts confirm d
           in (if confirm \<and> err = None \<and> list_ex (\<lambda>(c, v). shown r c \<noteq> v) edits then reload q d' tv else tv, d'))"

fun admin_key :: "sql_query \<Rightarrow> admin_cfg \<Rightarrow> key \<Rightarrow> TableView \<times> db option \<Rightarrow> TableView \<times> db option" where
  "admin_key q cfg (KFilter t) (tv, d) = (reload q d (tv\<lparr>tv_filter := t\<rparr>), d)"
| "admin_key q cfg (KSpace i) (tv, d) = (toggleChecked i tv, d)"
| "admin_key q cfg KAll (tv, d) = (toggleAll tv, d)"
| "admin_key q cfg KRefresh (tv, d) = (refreshInPlace q d tv, d)"
| "admin_key q cfg (KBulk col v confirm) (tv, d) = bulkKey q cfg col v confirm tv d"
| "admin_key q cfg (KRow row texts confirm) (tv, d) = rowKeyPress q cfg row texts confirm tv d"

section \<open>The refresh timer\<close>

definition minRefreshInterval :: int where
  "minRefreshInterval = 5 * 10 ^ 9"

text \<open>\<open>Set\<close> returns the interval it keeps; a positive one starts a ticker.\<close>

definition Refresher_Set :: "int \<Rightarrow> int" where
  "Refresher_Set interval = (if interval \<le> 0 then 0 else if interval < minRefreshInterval then minRefreshInterval else interval)"

text \<open>
  The dialog: \<open>None\<close> is the error message. \<open>EqualFold\<close> compares without regard to case; the product with
  \<open>time.Second\<close> is computed on 64 bits.
\<close>

definition refreshDialog :: "string \<Rightarrow> int option" where
  "refreshDialog field =
     (let text = TrimSpace field
      in if text = [] \<or> ToUpper text = ''OFF'' then Some (Refresher_Set 0)
         else case ParseInt text of
                None \<Rightarrow> None
              | Some secs \<Rightarrow> if secs < 0 then None else Some (Refresher_Set (sint (of_int secs * 10 ^ 9 :: 64 word))))"


section \<open>Only the allowlisted columns change\<close>

text \<open>The database without the columns the console may write and the counts that follow them.\<close>

definition blur :: "db \<Rightarrow> db" where
  "blur d = d\<lparr>t_shards := map (\<lambda>s. s\<lparr>shard_priority := 0, shard_state := ShardQueued, shard_attempt := 0\<rparr>) (t_shards d),
     t_agents := map (\<lambda>a. a\<lparr>agent_enabled := False\<rparr>) (t_agents d),
     t_jobs := map (\<lambda>j. j\<lparr>job_state := JobCreated\<rparr>) (t_jobs d), t_counts := []\<rparr>"

definition edited :: "db option \<Rightarrow> db option \<Rightarrow> bool" where
  "edited d d' \<longleftrightarrow> (\<forall>x'. d' = Some x' \<longrightarrow> (\<exists>x. d = Some x \<and> blur x' = blur x \<and> (rollup_ok x \<longrightarrow> rollup_ok x')))"

lemma edited_refl [simp]: "edited d d"
  by (simp add: edited_def)

lemma edited_trans: "edited d d1 \<Longrightarrow> edited d1 d2 \<Longrightarrow> edited d d2"
  by (fastforce simp: edited_def)

lemma map_update_where_absorb: "\<forall>x. g (f x) = g x \<Longrightarrow> map g (update_where P f xs) = map g xs"
  by (induction xs) (auto simp: update_where_def)

lemma edited_execUpdate: "edited (Some d) (execUpdate cfg table key col v d)"
proof -
  have "map (\<lambda>s. s\<lparr>shard_priority := 0, shard_state := ShardQueued, shard_attempt := 0\<rparr>) (update_where P f (t_shards d)) =
      map (\<lambda>s. s\<lparr>shard_priority := 0, shard_state := ShardQueued, shard_attempt := 0\<rparr>) (t_shards d)"
    if "setShardCol it col v = Some f" for it P f
    by (rule map_update_where_absorb) (use that in \<open>auto simp: setShardCol_def split: if_splits option.splits\<close>)
  then have 1: "blur (update_shards P f d) = blur d" if "setShardCol it col v = Some f" for it P f
    using that by (simp add: blur_def update_shards_def)
  have 2: "blur (d\<lparr>t_agents := update_where P (\<lambda>a. a\<lparr>agent_enabled := b\<rparr>) (t_agents d)\<rparr>) = blur d" for P b
    by (simp add: blur_def map_update_where_absorb)
  have 3: "blur (d\<lparr>t_jobs := update_where P (\<lambda>j. j\<lparr>job_state := st\<rparr>) (t_jobs d)\<rparr>) = blur d" for P st
    by (simp add: blur_def map_update_where_absorb)
  show ?thesis by (auto simp: edited_def execUpdate_def 1 2 3 rollup_ok_def [of "_\<lparr>t_agents := _\<rparr>"] rollup_ok_def [of "_\<lparr>t_jobs := _\<rparr>"]
      rollup_update_shards rollup_ok_def [symmetric] split: if_splits)
qed

lemma edited_updateColumn: "updateColumn cfg table key col v d = Inr d' \<Longrightarrow> edited d d'"
  using edited_execUpdate by (cases d) (auto simp: updateColumn_def edited_def split: if_splits)

lemma edited_applyChanges: "edited d (snd (applyChanges cfg table key cs d))"
  by (induction cfg table key cs d rule: applyChanges.induct) (auto split: sum.splits intro: edited_trans edited_updateColumn)

lemma edited_bulkLoop: "edited (snd (snd st)) (snd (snd (bulkLoop cfg table pk col v rs st)))"
  by (induction cfg table pk col v rs st rule: bulkLoop.induct) (auto split: sum.splits intro: edited_trans edited_updateColumn)

lemma edited_dialogs:
  "edited d (snd (snd (openBulkEdit cfg table pk rows col v confirm d)))"
  "edited d (snd (openRowDetail cfg table pk r texts confirm d))"
  using edited_bulkLoop [of "(0, 0, d)"]
  by (simp_all add: openBulkEdit_def confirmBulkApply_def openRowDetail_def confirmAndApply_def Let_def edited_applyChanges)

lemma edited_key: "edited (snd st) (snd (admin_key q cfg k st))"
proof (cases st)
  case (Pair tv d)
  show ?thesis unfolding Pair
  proof (cases k)
    case (KRow row texts confirm)
    then show "edited (snd (tv, d)) (snd (admin_key q cfg k (tv, d)))"
      using edited_dialogs(2) [of d cfg "tv_table tv" "tv_pk tv" "tv_rows tv ! (row - 1)" texts confirm]
      by (auto simp: rowKeyPress_def Let_def split: prod.splits)
  qed (simp_all add: bulkKey_def edited_dialogs Let_def)
qed

lemma readonly_key: "\<not> ac_writable cfg \<Longrightarrow> snd (admin_key q cfg k st) = snd st"
  by (cases st; cases k) (auto simp: bulkKey_def rowKeyPress_def openRowDetail_def detailFields_def Let_def split: prod.splits)

lemma edited_session: "edited (snd st) (snd (fold (admin_key q cfg) ks st))"
proof (induction ks arbitrary: st)
  case (Cons k ks)
  show ?case using edited_trans [OF edited_key Cons.IH [of "admin_key q cfg k st"]] by simp
qed simp

lemma readonly_session: "\<not> ac_writable cfg \<Longrightarrow> snd (fold (admin_key q cfg) ks st) = snd st"
  by (induction ks arbitrary: st) (simp_all add: readonly_key)

section \<open>Edits and the invariant of the store\<close>

lemma ShardState_of_name: "ShardState_of v = Some st \<Longrightarrow> v = shardStateName st"
  unfolding ShardState_of_def by (drule find_Some_iff [THEN iffD1]) auto

lemma execUpdate_shards_inv:
  assumes "db_inv d" "execUpdate cfg ''shards'' key col v d = Some d'"
    and "\<And>s f. s \<in> set (t_shards d) \<Longrightarrow> key = VInt (shard_id s) \<Longrightarrow> setShardCol (ac_intText cfg) col v = Some f \<Longrightarrow>
      row_ok (f s) \<and> (shard_state (f s) = ShardLeased \<longrightarrow> shard_state s = ShardLeased)"
  shows "db_inv d'"
proof (cases "list_ex (\<lambda>s. isKey key (shard_id s)) (t_shards d)")
  case True
  then obtain f where f: "setShardCol (ac_intText cfg) col v = Some f" "d' = update_shards (\<lambda>s. isKey key (shard_id s)) f d"
    using assms(2) by (auto simp: execUpdate_def)
  have "queue_inv d'" unfolding f(2)
    by (rule queue_inv_update [OF db_invD(4) [OF assms(1)]])
      (use assms(3) [OF _ _ f(1)] setShardCol_frame [OF f(1)] in \<open>auto simp: isKey_def el_lease_def\<close>)
  then show ?thesis using assms(1) f(2) by (intro db_inv_queue [OF assms(1)]) (auto simp: db_invD)
qed (use assms in \<open>simp add: execUpdate_def\<close>)

lemma execUpdate_others_inv:
  assumes "db_inv d" "execUpdate cfg table key col v d = Some d'" "table \<noteq> ''shards''"
  shows "db_inv d'"
proof (cases "table = ''agents''")
  case True
  then show ?thesis using assms(2,3) by (intro db_inv_frame [OF assms(1)]) (auto simp: execUpdate_def split: if_splits)
next
  case False
  then obtain P st where d': "d' = d \<or> d' = d\<lparr>t_jobs := update_where P (\<lambda>j. j\<lparr>job_state := st\<rparr>) (t_jobs d)\<rparr>"
    using assms(2,3) by (auto simp: execUpdate_def split: if_splits)
  have "jobs_inv (d\<lparr>t_jobs := update_where P (\<lambda>j. j\<lparr>job_state := st\<rparr>) (t_jobs d)\<rparr>)"
    by (rule jobs_inv_update_jobs [OF db_invD(3) [OF assms(1)]]) simp
  moreover have "queue_inv (d\<lparr>t_jobs := update_where P (\<lambda>j. j\<lparr>job_state := st\<rparr>) (t_jobs d)\<rparr>)"
    by (rule queue_inv_frame [OF db_invD(4) [OF assms(1)]]) simp_all
  ultimately show ?thesis using d' assms(1) db_inv_queue [OF assms(1)] by fastforce
qed

section \<open>Properties\<close>

text \<open>
  No injection through the filter. Whatever the operator types, a filter that is accepted becomes a clause that is
  determined by columns of the table and the five operators alone, one placeholder for each bound value; the
  text typed reaches the database only as bound values.
\<close>

theorem filter_is_parameterised:
  assumes "buildFilterClause cols flt = Inr (clause, args)"
  shows "\<exists>cs. clause = Join '' AND '' (map (\<lambda>(c, oper). Quote c @ '' '' @ (if oper = ''~'' then ''LIKE'' else oper) @ '' ?'') cs) \<and>
    (\<forall>(c, oper) \<in> set cs. c \<in> set cols \<and> oper \<in> {''!='', ''='', ''>'', ''<'', ''~''}) \<and> length args = length cs"
proof (cases "TrimSpace flt = []")
  case True
  then show ?thesis using assms by (intro exI [of _ "[]"]) (simp add: buildFilterClause_def)
next
  case False
  then obtain parts where p: "filterTerms cols (Split CHR '','' (TrimSpace flt)) = Inr (parts, args)" "clause = Join '' AND '' parts"
    using assms by (auto simp: buildFilterClause_def Let_def split: sum.splits)
  show ?thesis using filterTerms_shape [OF p(1)] unfolding p(2) operators_set by (auto simp: clausePart_def sqlOp_def)
qed

theorem filter_is_parameterised_witness:
  "buildFilterClause [''state'', ''id''] '' state=PARKED'' = Inr ([CHR 0x22] @ ''state'' @ [CHR 0x22] @ '' = ?'', [''PARKED'']) \<and>
   (\<exists>cs. [CHR 0x22] @ ''state'' @ [CHR 0x22] @ '' = ?'' =
      Join '' AND '' (map (\<lambda>(c, oper). Quote c @ '' '' @ (if oper = ''~'' then ''LIKE'' else oper) @ '' ?'') cs))"
proof -
  have f: "buildFilterClause [''state'', ''id''] '' state=PARKED'' = Inr ([CHR 0x22] @ ''state'' @ [CHR 0x22] @ '' = ?'', [''PARKED''])" by code_simp
  from filter_is_parameterised [OF f] obtain cs where c: "[CHR 0x22] @ ''state'' @ [CHR 0x22] @ '' = ?'' =
      Join '' AND '' (map (\<lambda>(c, oper). Quote c @ '' '' @ (if oper = ''~'' then ''LIKE'' else oper) @ '' ?'') cs)" by (elim exE conjE) (rule that)
  show ?thesis by (intro conjI exI [of _ cs] f c)
qed

text \<open>
  The filter means what it says: a comma-joined list of terms over columns of the table, with values free of the operators'
  characters, becomes exactly the conjunction of these terms, with the values bound in order.
\<close>

lemma filter_terms_exact:
  assumes "\<forall>t \<in> set ts. plainTerm cols t"
  shows "buildFilterClause cols (Join '','' (map printTerm ts)) =
    Inr (Join '' AND '' (map (\<lambda>(c, oper, v). clausePart c oper) ts), map (\<lambda>(c, oper, v). bindArg oper v) ts)"
proof (cases "ts = []")
  case False
  let ?j = "Join '','' (map printTerm ts)"
  have sh: "\<forall>t \<in> set (map printTerm ts). t \<noteq> [] \<and> CHR '','' \<notin> set t" using assms printTerm_shape by fastforce
  have "hd ts \<in> set ts" "last ts \<in> set ts" using False by simp_all
  then have "hd (printTerm (hd ts)) \<notin> set space_chars" "last (printTerm (last ts)) \<notin> set space_chars" using assms printTerm_shape by blast+
  then have "TrimSpace ?j = ?j" "?j \<noteq> []"
    using Join_ends [of "map printTerm ts" "'',''"] sh False by (auto intro!: TrimSpace_ends simp: hd_map last_map)
  moreover have "Split CHR '','' ?j = map printTerm ts" using sh False by (intro Split_Join) auto
  ultimately show ?thesis using filterTerms_print [OF assms] by (simp add: buildFilterClause_def)
qed (simp add: buildFilterClause_def TrimSpace_def)



definition sample_admin :: admin_cfg where
  "sample_admin = \<lparr>ac_writable = True, ac_intText = (\<lambda>v. map_option int (parse_nat v)), ac_fails = \<lambda>_ _ _. False\<rparr>"

definition sample_Row :: "shard_row \<Rightarrow> Row" where
  "sample_Row s = \<lparr>row_Cols = [''id'', ''state'', ''priority''],
     row_Values = [VInt (shard_id s), VText (shardStateName (shard_state s)), VInt (shard_priority s)]\<rparr>"

text \<open>An engine that answers the filter \<open>state=..\<close> on the shard table, and no filter.\<close>

definition sample_query :: sql_query where
  "sample_query sql args d = Some (map sample_Row (filter (\<lambda>s. args = [] \<or> args = [shardStateName (shard_state s)]) (t_shards d)))"

definition sample_view :: "db \<Rightarrow> TableView" where
  "sample_view d = newTableView sample_query ''shards'' [(''id'', True), (''state'', False), (''priority'', False)] (Some d)"

definition sample_keys :: "key list" where
  "sample_keys = [KFilter ''state=QUEUED'', KAll, KBulk ''priority'' ''30'' True]"



text \<open>
  A bulk edit of shards does what its dialog says. Confirmed with a value the column can hold, it writes that value to
  exactly the checked rows that showed another one and whose write did not fail, leaves every other shard and every other
  table alone, keeps the rollup, and reports how many rows were written and how many failed.
\<close>

theorem bulk_edit_exact:
  assumes "ac_writable cfg" "col \<in> {''priority'', ''state'', ''attempt''}" "setShardCol (ac_intText cfg) col v = Some f"
    and "openBulkEdit cfg ''shards'' ''id'' rows col v True (Some d) = (applied, failed, d')"
  defines "written \<equiv> filter (\<lambda>r. shown r col \<noteq> v \<and> \<not> ac_fails cfg ''shards'' col (rowKey r ''id'')) rows"
  shows "\<exists>x. d' = Some x \<and> t_shards x = map (\<lambda>s. if VInt (shard_id s) \<in> (\<lambda>r. rowKey r ''id'') ` set written then f s else s) (t_shards d) \<and>
    x\<lparr>t_shards := t_shards d, t_counts := t_counts d\<rparr> = d \<and> (rollup_ok d \<longrightarrow> rollup_ok x) \<and>
    applied = length written \<and> applied + failed = length (filter (\<lambda>r. shown r col \<noteq> v) rows)"
proof -
  have ed: "isEditable ''shards'' col" "col \<in> set (editableColumnNames ''shards'')"
    using assms(2) by (auto simp: isEditable_def editableColumnNames_def editableColumns_def)
  obtain x where x: "bulkLoop cfg ''shards'' ''id'' col v rows (0, 0, Some d) =
      (length (filter (bulkWrites cfg col v) rows), length (filter (\<lambda>r. shown r col \<noteq> v \<and> \<not> bulkWrites cfg col v r) rows), Some x)"
    "shards_edit (\<lambda>s. \<exists>r \<in> set rows. bulkWrites cfg col v r \<and> rowKey r ''id'' = VInt (shard_id s)) f d x"
    using bulkLoop_shards [OF assms(1) ed(1) assms(3), of rows 0 0 d] by auto
  have w: "written = filter (bulkWrites cfg col v) rows" by (simp add: written_def bulkWrites_def [abs_def])
  show ?thesis
  proof (cases "list_all (\<lambda>r. shown r col = v) rows")
    case True
    then have "filter (\<lambda>r. shown r col \<noteq> v) rows = []" "written = []" by (auto simp: written_def list_all_iff filter_empty_conv)
    moreover have "(applied, failed, d') = (0, 0, Some d)"
      using assms(4) True by (auto simp: openBulkEdit_def confirmBulkApply_def split: if_splits)
    ultimately show ?thesis by (intro exI [of _ d]) simp
  next
    case False
    then have "rows \<noteq> []" by auto
    then have r: "(applied, failed, d') = (length written, length (filter (\<lambda>r. shown r col \<noteq> v \<and> \<not> bulkWrites cfg col v r) rows), Some x)"
      using assms(4) x(1) False ed(2) by (simp add: openBulkEdit_def confirmBulkApply_def w)
    have "length written + length (filter (\<lambda>r. shown r col \<noteq> v \<and> \<not> bulkWrites cfg col v r) rows) = length (filter (\<lambda>r. shown r col \<noteq> v) rows)"
      unfolding w by (induction rows) (auto simp: bulkWrites_def)
    moreover have P: "(\<lambda>s. \<exists>r \<in> set rows. bulkWrites cfg col v r \<and> rowKey r ''id'' = VInt (shard_id s)) =
        (\<lambda>s. VInt (shard_id s) \<in> (\<lambda>r. rowKey r ''id'') ` set written)" unfolding w by (force intro!: ext)
    ultimately show ?thesis using r x(2) [unfolded P] by (simp add: shards_edit_def update_where_def)
  qed
qed

theorem bulk_edit_exact_witness:
  "\<exists>x. openBulkEdit sample_admin ''shards'' ''id'' (map sample_Row (t_shards sample_leased)) ''priority'' ''10'' True (Some sample_leased) = (2, 0, Some x) \<and>
     map shard_priority (t_shards x) = [10, 10, 10] \<and> rollup_ok x"
proof -
  let ?rows = "map sample_Row (t_shards sample_leased)"
  let ?r = "openBulkEdit sample_admin ''shards'' ''id'' ?rows ''priority'' ''10'' True (Some sample_leased)"
  let ?f = "\<lambda>s. s\<lparr>shard_priority := 10\<rparr>"
  have "parse_nat ''10'' = Some 10" by code_simp
  then have f: "setShardCol (ac_intText sample_admin) ''priority'' ''10'' = Some ?f" by (simp add: setShardCol_def sample_admin_def)
  have n: "fst ?r = 2 \<and> length (filter (\<lambda>r. shown r ''priority'' \<noteq> ''10'') ?rows) = 2" by code_simp
  have p: "map_option (\<lambda>d. map shard_priority (t_shards d)) (snd (snd ?r)) = Some [10, 10, 10]" by code_simp
  obtain a b d' where r: "?r = (a, b, d')" by (cases ?r)
  have "rollup_ok sample_leased" using db_inv_samples(3) db_invD(4) queue_invD(1) by blast
  moreover obtain x where "d' = Some x" "rollup_ok sample_leased \<longrightarrow> rollup_ok x" "a + b = 2"
    using bulk_edit_exact [OF _ _ f r] n by (auto simp: sample_admin_def)
  ultimately show ?thesis using n p r by (intro exI [of _ x]) simp
qed



section \<open>Deviations\<close>

lemma update_where_keeps: "s \<in> set xs \<Longrightarrow> \<not> P s \<Longrightarrow> s \<in> set (update_where P f xs)"
  by (force simp: update_where_def)

lemma ExpireLeases_keeps: "s \<in> set (t_shards d) \<Longrightarrow> \<not> lease_expired ms s \<Longrightarrow> s \<in> set (t_shards (snd (ExpireLeases ms now d)))"
  by (simp add: ExpireLeases_def Let_def update_shards_def update_where_keeps)

text \<open>
  The comment on \<open>editableColumns\<close> says that an edit can never put a row into a state the daemon would not produce itself. Setting
  a queued shard to \<open>LEASED\<close> is accepted, breaks the invariant of the store, and is final: the row has no lease, so no
  result is accepted for it and no sweep, however late, takes it back.
\<close>

theorem hand_leased_is_stuck:
  "\<exists>d'. updateColumn sample_admin ''shards'' (VInt 2) ''state'' ''LEASED'' (Some sample_db) = Inr (Some d') \<and> \<not> db_inv d' \<and>
     (\<forall>ms now. \<exists>s \<in> set (t_shards (snd (ExpireLeases ms now d'))). shard_id s = 2 \<and> shard_state s = ShardLeased) \<and>
     (\<forall>lid to res err p c now. shardTransition 2 lid to res err p c now d' = Inl ErrLeaseMismatch)"
proof -
  let ?d = "update_shards (\<lambda>s. isKey (VInt 2) (shard_id s)) (\<lambda>s. s\<lparr>shard_state := ShardLeased\<rparr>) sample_db"
  have "list_ex (\<lambda>s. isKey (VInt 2) (shard_id s)) (t_shards sample_db)" "ShardState_of ''LEASED'' = Some ShardLeased"
    "isEditable ''shards'' ''state''" by code_simp+
  then have u: "updateColumn sample_admin ''shards'' (VInt 2) ''state'' ''LEASED'' (Some sample_db) = Inr (Some ?d)"
    by (simp add: updateColumn_def execUpdate_def setShardCol_def sample_admin_def)
  let ?P = "\<lambda>s. shard_id s = 2 \<and> shard_state s = ShardLeased \<and> lease_expiry s = None \<and> lease_id s = None"
  have x: "list_ex ?P (t_shards ?d)" "list_all (\<lambda>s. lease_id s = None) (t_shards ?d)" by code_simp+
  then obtain s where s: "s \<in> set (t_shards ?d)" "?P s" by (auto simp: list_ex_iff)
  have "\<not> db_inv ?d"
  proof
    assume "db_inv ?d"
    then have "row_ok s" using queue_invD(3) [OF db_invD(4)] s(1) by blast
    then show False using s(2) by (simp add: row_ok_def)
  qed
  moreover have "\<exists>s \<in> set (t_shards (snd (ExpireLeases ms now ?d))). shard_id s = 2 \<and> shard_state s = ShardLeased" for ms now
    using s ExpireLeases_keeps [of s ?d ms now] by (auto simp: lease_expired_def)
  moreover have "shardTransition 2 lid to res err p c now ?d = Inl ErrLeaseMismatch" for lid to res err p c now
  proof -
    have "filter (holds_lease 2 lid) (t_shards ?d) = []" using x(2) by (auto simp: holds_lease_def list_all_iff filter_empty_conv)
    then show ?thesis by (simp add: shardTransition_def count_where_def)
  qed
  ultimately show ?thesis using u by (intro exI [of _ ?d]) simp
qed

text \<open>
  The comment on \<open>refreshInPlace\<close> says that a stale checkbox can never corrupt an unrelated row, as the confirmation reads
  each row again before it writes. The check marks are positions, and nothing is read again: the operator checks shard 2, the
  coordinator parks shard 1, the timer refreshes the screen, and the edit of the checked row is written to shard 1.
\<close>

definition park :: "int \<Rightarrow> db \<Rightarrow> db" where
  "park i d = update_shards (\<lambda>s. shard_id s = i) (\<lambda>s. s\<lparr>shard_state := ShardParked\<rparr>) d"

theorem stale_check_edits_other_row:
  "(let d1 = park 2 sample_db; d2 = park 1 d1;
        (tv1, _) = fold (admin_key sample_query sample_admin) [KFilter ''state=PARKED'', KSpace 0] (sample_view d1, Some d1);
        (tv2, d3) = fold (admin_key sample_query sample_admin) [KRefresh, KBulk ''priority'' ''30'' True] (tv1, Some d2)
    in map (\<lambda>r. rowKey r ''id'') (checkedRows tv1) = [VInt 2] \<and>
       map_option (\<lambda>d. map (\<lambda>s. (shard_id s, shard_priority s)) (t_shards d)) d3 = Some [(1, 30), (2, 0), (3, 10)])"
  by code_simp

text \<open>
  \<open>splitTerm\<close> takes the first operator of its list that occurs anywhere, so that a value with an operator character in it moves the
  split: \<open>rel_path~a=b\<close> asks for a column \<open>rel_path~a\<close>.
\<close>

theorem operator_in_value_moves_split:
  "buildFilterClause [''rel_path''] ''rel_path~a=b'' = Inl (UnknownColumn ''rel_path~a'')"
  by code_simp

text \<open>The timer never runs faster than its floor, whatever is typed.\<close>

theorem refresh_floor: "refreshDialog t = Some n \<Longrightarrow> n = 0 \<or> n \<ge> minRefreshInterval"
  by (auto simp: refreshDialog_def Refresher_Set_def Let_def minRefreshInterval_def split: if_splits option.splits)

end
