(* ===== verification/Cli.thy ===== *)
theory Cli
  imports Api_Safety Render Gostrings
begin

text \<open>
  The operator's command line client (\<open>cli/drsync\<close>): flags (\<open>flag.FlagSet\<close> and \<open>parseFlags\<close>), the HTTP client
  (\<open>client.go\<close>), the commands (\<open>commands.go\<close>, \<open>main.go\<close>) and their rendering (\<open>render.go\<close>).

  A command is a tree of what it prints and what it asks the coordinator, with one continuation for each
  answer (\<open>cmd\<close>); \<open>perform\<close> runs one against the API of the coordinator. An answer is its
  status, its decoded JSON body and its text. Tables are kept as the cells written to the tab writer.
  The environment, the file system, \<open>json.Marshal\<close>, YAML and the readers of numbers and durations in
  flags are the fields of \<open>cli_env\<close>.
\<close>


section \<open>Flags\<close>

datatype flagKind = BoolFlag | StringFlag | IntFlag | DurationFlag | ListFlag

text \<open>Values of a decoded YAML document; a number that is no integer is kept as its text.\<close>

datatype yval = YNull | YBool bool | YInt int | YFloat string | YStr string | YSeq "yval list" | YMap "(string \<times> yval) list"

record cli_env =
  ce_lookupEnv :: "string \<Rightarrow> string option"
  ce_user :: "string option"
  ce_readFile :: "string \<Rightarrow> bytes option"
  ce_parseInt :: "string \<Rightarrow> int option"
  ce_parseDuration :: "string \<Rightarrow> int option"
  ce_isFloat :: "string \<Rightarrow> bool"
  ce_json :: "json \<Rightarrow> bytes"
  ce_yamlIn :: "bytes \<Rightarrow> (string \<times> yval) list option option"
  ce_yamlOut :: "(string \<times> yval) list \<Rightarrow> bytes"
  ce_clock :: "int \<Rightarrow> string"
  ce_terminal :: bool

definition ParseBool :: "string \<Rightarrow> bool option" where
  "ParseBool v =
     (if v \<in> set [''1'', ''t'', ''T'', ''TRUE'', ''true'', ''True''] then Some True
      else if v \<in> set [''0'', ''f'', ''F'', ''FALSE'', ''false'', ''False''] then Some False else None)"

fun flagOK :: "cli_env \<Rightarrow> flagKind \<Rightarrow> string \<Rightarrow> bool" where
  "flagOK e BoolFlag v = (ParseBool v \<noteq> None)"
| "flagOK e IntFlag v = (ce_parseInt e v \<noteq> None)"
| "flagOK e DurationFlag v = (ce_parseDuration e v \<noteq> None)"
| "flagOK e StringFlag v = True"
| "flagOK e ListFlag v = True"

type_synonym flag_vals = "(string \<times> string) list"

text \<open>
  \<open>FlagSet.Parse\<close> with \<open>ExitOnError\<close>: \<open>Inl\<close> is the exit code; otherwise the assignments made, oldest first, and the
  arguments from the first that is no flag.
\<close>

function flagParse :: "cli_env \<Rightarrow> (string \<times> flagKind) list \<Rightarrow> string list \<Rightarrow> flag_vals \<Rightarrow> nat + (flag_vals \<times> string list)" where
  "flagParse e fl [] vs = Inr (vs, [])"
| "flagParse e fl (s # args) vs =
     (if length s < 2 \<or> hd s \<noteq> CHR ''-'' then Inr (vs, s # args)
      else if s = ''--'' then Inr (vs, args)
      else let name = drop (if s ! 1 = CHR ''-'' then 2 else 1) s
           in if name = [] \<or> hd name = CHR ''-'' \<or> hd name = CHR ''='' then Inl 2
              else let nm = takeWhile (\<lambda>c. c \<noteq> CHR ''='') name; hasValue = (CHR ''='' \<in> set name); v = tl (dropWhile (\<lambda>c. c \<noteq> CHR ''='') name)
                   in case map_of fl nm of
                        None \<Rightarrow> Inl (if nm = ''help'' \<or> nm = ''h'' then 0 else 2)
                      | Some k \<Rightarrow>
                          if hasValue then (if flagOK e k v then flagParse e fl args (vs @ [(nm, v)]) else Inl 2)
                          else if k = BoolFlag then flagParse e fl args (vs @ [(nm, ''true'')])
                          else (case args of
                                  [] \<Rightarrow> Inl 2
                                | v' # args' \<Rightarrow> if flagOK e k v' then flagParse e fl args' (vs @ [(nm, v')]) else Inl 2))"
  by pat_completeness auto
termination by (relation "measure (\<lambda>(e, fl, args, vs). length args)") auto

declare flagParse.simps(2) [simp del]

lemma flagParse_shrinks: "flagParse e fl args vs = Inr (vs', rest) \<Longrightarrow> length rest \<le> length args"
proof (induction e fl args vs rule: flagParse.induct)
  case (2 e fl s args vs)
  from 2(4) show ?case unfolding flagParse.simps(2) [of e fl s args vs]
    by (auto simp: Let_def split: if_splits option.splits list.splits dest!: 2(1-3) [rotated -1, simplified Let_def] elim: le_SucI)
qed simp

text \<open>\<open>parseFlags\<close>: flags and positionals in any order.\<close>

function parseFlags :: "cli_env \<Rightarrow> (string \<times> flagKind) list \<Rightarrow> string list \<Rightarrow> flag_vals \<Rightarrow> string list \<Rightarrow> nat + (flag_vals \<times> string list)" where
  "parseFlags e fl args vs pos =
     (case flagParse e fl args vs of
        Inl n \<Rightarrow> Inl n
      | Inr (vs', []) \<Rightarrow> Inr (vs', pos)
      | Inr (vs', r # rest) \<Rightarrow> parseFlags e fl rest vs' (pos @ [r]))"
  by pat_completeness auto
termination by (relation "measure (\<lambda>(e, fl, args, vs, pos). length args)") (auto dest: flagParse_shrinks)

declare parseFlags.simps [simp del]

definition lastOf :: "flag_vals \<Rightarrow> string \<Rightarrow> string option" where
  "lastOf vs name = map_of (rev vs) name"

definition boolFlag :: "flag_vals \<Rightarrow> string \<Rightarrow> bool" where
  "boolFlag vs name = (case lastOf vs name of None \<Rightarrow> False | Some v \<Rightarrow> ParseBool v = Some True)"

definition stringFlag :: "flag_vals \<Rightarrow> string \<Rightarrow> string \<Rightarrow> string" where
  "stringFlag vs name dflt = (case lastOf vs name of None \<Rightarrow> dflt | Some v \<Rightarrow> v)"

definition intFlag :: "cli_env \<Rightarrow> flag_vals \<Rightarrow> string \<Rightarrow> int \<Rightarrow> int" where
  "intFlag e vs name dflt = (case lastOf vs name of None \<Rightarrow> dflt | Some v \<Rightarrow> (case ce_parseInt e v of None \<Rightarrow> dflt | Some n \<Rightarrow> n))"

definition durationFlag :: "cli_env \<Rightarrow> flag_vals \<Rightarrow> string \<Rightarrow> int" where
  "durationFlag e vs name = (case lastOf vs name of None \<Rightarrow> 0 | Some v \<Rightarrow> (case ce_parseDuration e v of None \<Rightarrow> 0 | Some n \<Rightarrow> n))"

definition listFlag :: "flag_vals \<Rightarrow> string \<Rightarrow> string list" where
  "listFlag vs name = map snd (filter (\<lambda>(n, v). n = name) vs)"

section \<open>Rendering\<close>

text \<open>\<open>Duration.Round\<close> (half away from zero) and \<open>Duration.String\<close> of a multiple of a tenth of a second.\<close>

definition roundTo :: "int \<Rightarrow> int \<Rightarrow> int" where
  "roundTo m d = (let u = \<bar>d\<bar>; r = u mod m; v = (if r + r < m then u - r else u + (m - r)) in if d < 0 then - v else v)"

definition durString :: "int \<Rightarrow> string" where
  "durString d =
     (let u = \<bar>d\<bar>; secs = u div 10 ^ 9; tenth = u mod 10 ^ 9 div 10 ^ 8; sign = (if d < 0 then ''-'' else []);
          sec = (\<lambda>n. fmt_d n @ (if tenth = 0 then [] else ''.'' @ fmt_d tenth) @ ''s'')
      in if u = 0 then ''0s''
         else if u < 10 ^ 9 then sign @ fmt_d (u div 10 ^ 6) @ ''ms''
         else if secs < 60 then sign @ sec secs
         else if secs < 3600 then sign @ fmt_d (secs div 60) @ ''m'' @ sec (secs mod 60)
         else sign @ fmt_d (secs div 3600) @ ''h'' @ fmt_d (secs div 60 mod 60) @ ''m'' @ sec (secs mod 60))"

definition humanMS :: "int \<Rightarrow> string" where
  "humanMS ms =
     (if ms \<le> 0 then ''-''
      else let d = sint (of_int ms * 10 ^ 6 :: 64 word)
           in if d < 60 * 10 ^ 9 then durString (roundTo (10 ^ 8) d) else durString (roundTo (10 ^ 9) d))"

definition msTime :: "cli_env \<Rightarrow> int \<Rightarrow> string" where
  "msTime e ms = (if ms = 0 then ''-'' else ce_clock e ms)"

definition verifyCol :: "int \<Rightarrow> int \<Rightarrow> string" where
  "verifyCol ok fail = (if fail > 0 then fmt_d ok @ '' ok/'' @ fmt_d fail @ '' FAIL'' else fmt_d ok @ '' ok'')"

definition dryTag :: "bool \<Rightarrow> string" where
  "dryTag dry = (if dry then '', dry-run'' else [])"

definition ansi :: "string \<Rightarrow> string" where
  "ansi code = CHR 0x1B # ''['' @ code"

definition colorEnabled :: "cli_env \<Rightarrow> bool" where
  "colorEnabled e \<longleftrightarrow> ce_lookupEnv e ''NO_COLOR'' = None \<and> ce_terminal e"

definition colorize :: "bool \<Rightarrow> string \<Rightarrow> string \<Rightarrow> string" where
  "colorize on code s = (if \<not> on \<or> code = [] then s else code @ s @ ansi ''0m'')"

section \<open>The client\<close>

record client =
  cl_server :: string
  cl_token :: string

datatype cli_error = ErrText string | ErrApi nat string | ErrNet | ErrDecode | ErrFile

datatype cli_line = Line string | Cells "string list" | JSONLine json

datatype answer = NetFail | Answer nat "json option" string

text \<open>\<open>Follow\<close> and \<open>Tail\<close> open the event stream for a job and for every event of a job; \<open>watchEvent\<close> and \<open>tailEvent\<close> say what they do with an event.\<close>

datatype cmd =
    Done "cli_error option"
  | ExitWith nat
  | Panic
  | Print cli_line cmd
  | Call client string string "bytes option" "answer \<Rightarrow> cmd"
  | Follow client string
  | Tail client string

definition envOr :: "cli_env \<Rightarrow> string \<Rightarrow> string \<Rightarrow> string" where
  "envOr e k dflt = (case ce_lookupEnv e k of None \<Rightarrow> dflt | Some v \<Rightarrow> if v = [] then dflt else v)"

definition getenv :: "cli_env \<Rightarrow> string \<Rightarrow> string" where
  "getenv e k = (case ce_lookupEnv e k of None \<Rightarrow> [] | Some v \<Rightarrow> v)"

definition connFlagSpec :: "(string \<times> flagKind) list" where
  "connFlagSpec = [(''server'', StringFlag), (''token'', StringFlag)]"

definition connFlags :: "cli_env \<Rightarrow> flag_vals \<Rightarrow> client" where
  "connFlags e vs = \<lparr>cl_server = TrimRight (stringFlag vs ''server'' (envOr e ''DRSYNC_SERVER'' ''http://127.0.0.1:7441'')) CHR ''/'',
     cl_token = stringFlag vs ''token'' (getenv e ''DRSYNC_TOKEN'')\<rparr>"

definition localUsername :: "cli_env \<Rightarrow> string" where
  "localUsername e =
     (case ce_user e of
        Some u \<Rightarrow> if u \<noteq> [] then u else if getenv e ''USER'' \<noteq> [] then getenv e ''USER'' else getenv e ''LOGNAME''
      | None \<Rightarrow> if getenv e ''USER'' \<noteq> [] then getenv e ''USER'' else getenv e ''LOGNAME'')"

text \<open>The message of a failed call: the coordinator's \<open>error\<close> field, or the body as it is.\<close>

definition apiMessage :: "nat \<Rightarrow> json option \<Rightarrow> string \<Rightarrow> string" where
  "apiMessage status js text =
     (case js of
        Some (JObj o') \<Rightarrow> (case map_of o' ''error'' of Some (JStr m) \<Rightarrow> if m \<noteq> [] then m else TrimSpace text | _ \<Rightarrow> TrimSpace text)
      | _ \<Rightarrow> TrimSpace text) @ '' (HTTP '' @ fmt_nat 10 status @ '')''"

definition client_do :: "client \<Rightarrow> string \<Rightarrow> string \<Rightarrow> bytes option \<Rightarrow> (json option \<Rightarrow> cmd) \<Rightarrow> cmd" where
  "client_do c method path body k =
     Call c method path body (\<lambda>a.
       case a of
         NetFail \<Rightarrow> Done (Some ErrNet)
       | Answer status js text \<Rightarrow> if status \<ge> 300 then Done (Some (ErrApi status (apiMessage status js text))) else k js)"

text \<open>\<open>out == nil\<close>, and decoding into a value that \<open>dec\<close> describes.\<close>

definition noOut :: "cmd \<Rightarrow> json option \<Rightarrow> cmd" where
  "noOut k js = k"

definition intoOut :: "(json \<Rightarrow> 'a option) \<Rightarrow> ('a \<Rightarrow> cmd) \<Rightarrow> json option \<Rightarrow> cmd" where
  "intoOut dec k js = (case Option.bind js dec of None \<Rightarrow> Done (Some ErrDecode) | Some x \<Rightarrow> k x)"

definition client_get :: "client \<Rightarrow> string \<Rightarrow> (json option \<Rightarrow> cmd) \<Rightarrow> cmd" where
  "client_get c path k = client_do c ''GET'' path None k"

definition client_del :: "client \<Rightarrow> string \<Rightarrow> (json option \<Rightarrow> cmd) \<Rightarrow> cmd" where
  "client_del c path k = client_do c ''DELETE'' path None k"

definition client_post :: "cli_env \<Rightarrow> client \<Rightarrow> string \<Rightarrow> json option \<Rightarrow> (json option \<Rightarrow> cmd) \<Rightarrow> cmd" where
  "client_post e c path body k = client_do c ''POST'' path (map_option (ce_json e) body) k"

definition postRaw :: "client \<Rightarrow> string \<Rightarrow> bytes \<Rightarrow> (json option \<Rightarrow> cmd) \<Rightarrow> cmd" where
  "postRaw c path body k = client_do c ''POST'' path (Some body) k"

definition printAll :: "cli_line list \<Rightarrow> cmd \<Rightarrow> cmd" where
  "printAll ls k = foldr Print ls k"

definition success :: cmd where
  "success = Done None"

definition failWith :: "string \<Rightarrow> cmd" where
  "failWith t = Done (Some (ErrText t))"

section \<open>Decoding answers\<close>

text \<open>
  \<open>json.Unmarshal\<close> into a struct: absent fields are zero, others must have the field's type. The coordinator writes the
  keys exactly as the tags spell them.
\<close>

datatype jkind = KStr | KInt | KBool | KArr

fun hasKind :: "jkind \<Rightarrow> json \<Rightarrow> bool" where
  "hasKind KStr j = (case j of JStr _ \<Rightarrow> True | _ \<Rightarrow> False)"
| "hasKind KInt j = (case j of JInt _ \<Rightarrow> True | _ \<Rightarrow> False)"
| "hasKind KBool j = (case j of JBool _ \<Rightarrow> True | _ \<Rightarrow> False)"
| "hasKind KArr j = (case j of JArr _ \<Rightarrow> True | _ \<Rightarrow> False)"

definition decStruct :: "(string \<times> jkind) list \<Rightarrow> json \<Rightarrow> (string \<times> json) list option" where
  "decStruct spec j =
     (case j of
        JObj o' \<Rightarrow> if list_all (\<lambda>(k, kind). case map_of o' k of None \<Rightarrow> True | Some v \<Rightarrow> hasKind kind v) spec then Some o' else None
      | _ \<Rightarrow> None)"

fun decList :: "(json \<Rightarrow> 'a option) \<Rightarrow> json list \<Rightarrow> 'a list option" where
  "decList dec [] = Some []"
| "decList dec (j # js) = (case dec j of None \<Rightarrow> None | Some x \<Rightarrow> map_option ((#) x) (decList dec js))"

definition decArr :: "(json \<Rightarrow> 'a option) \<Rightarrow> json \<Rightarrow> 'a list option" where
  "decArr dec j = (case j of JArr js \<Rightarrow> decList dec js | _ \<Rightarrow> None)"

definition gStr :: "(string \<times> json) list \<Rightarrow> string \<Rightarrow> string" where
  "gStr o' k = (case map_of o' k of Some (JStr s) \<Rightarrow> s | _ \<Rightarrow> [])"

definition gInt :: "(string \<times> json) list \<Rightarrow> string \<Rightarrow> int" where
  "gInt o' k = (case map_of o' k of Some (JInt n) \<Rightarrow> n | _ \<Rightarrow> 0)"

definition gBool :: "(string \<times> json) list \<Rightarrow> string \<Rightarrow> bool" where
  "gBool o' k = (case map_of o' k of Some (JBool b) \<Rightarrow> b | _ \<Rightarrow> False)"

definition gArr :: "(string \<times> json) list \<Rightarrow> string \<Rightarrow> json list" where
  "gArr o' k = (case map_of o' k of Some (JArr a) \<Rightarrow> a | _ \<Rightarrow> [])"

section \<open>Spec overrides\<close>

text \<open>An assignment \<open>path.to.field=value\<close>; a missing or null node on the way is created.\<close>

fun setPath :: "(string \<times> yval) list \<Rightarrow> string list \<Rightarrow> yval \<Rightarrow> string + (string \<times> yval) list" where
  "setPath node [] val = Inr node"
| "setPath node [p] val = Inr (AList.update p val node)"
| "setPath node (p # q # path) val =
     (case map_of node p of
        Some (YMap child) \<Rightarrow> map_sum id (\<lambda>c. AList.update p (YMap c) node) (setPath child (q # path) val)
      | Some YNull \<Rightarrow> map_sum id (\<lambda>c. AList.update p (YMap c) node) (setPath [] (q # path) val)
      | None \<Rightarrow> map_sum id (\<lambda>c. AList.update p (YMap c) node) (setPath [] (q # path) val)
      | Some _ \<Rightarrow> Inl (p @ '' is not a mapping''))"

definition parseScalar :: "cli_env \<Rightarrow> string \<Rightarrow> yval" where
  "parseScalar e v =
     (case ParseBool v of
        Some b \<Rightarrow> YBool b
      | None \<Rightarrow> (case ParseInt v of Some n \<Rightarrow> YInt n | None \<Rightarrow> if ce_isFloat e v then YFloat v else YStr v))"

datatype set_error = SetNoEq string | SetPath string string | SpecParse | NilMap

fun setAll :: "cli_env \<Rightarrow> string list \<Rightarrow> (string \<times> yval) list \<Rightarrow> set_error + (string \<times> yval) list" where
  "setAll e [] doc = Inr doc"
| "setAll e (s # ss) doc =
     (if CHR ''='' \<notin> set s then Inl (SetNoEq s)
      else case setPath doc (Split CHR ''.'' (takeWhile (\<lambda>c. c \<noteq> CHR ''='') s)) (parseScalar e (tl (dropWhile (\<lambda>c. c \<noteq> CHR ''='') s))) of
             Inl m \<Rightarrow> Inl (SetPath s m)
           | Inr doc' \<Rightarrow> setAll e ss doc')"

text \<open>An empty document decodes to a nil map, and an assignment to an entry of a nil map panics.\<close>

definition applySets :: "cli_env \<Rightarrow> bytes \<Rightarrow> string list \<Rightarrow> set_error + bytes" where
  "applySets e spec sets =
     (case ce_yamlIn e spec of
        None \<Rightarrow> Inl SpecParse
      | Some None \<Rightarrow>
          (case sets of
             [] \<Rightarrow> Inr (ce_yamlOut e [])
           | s # _ \<Rightarrow> Inl (if CHR ''='' \<notin> set s then SetNoEq s else NilMap))
      | Some (Some doc) \<Rightarrow> map_sum id (ce_yamlOut e) (setAll e sets doc))"

section \<open>Jobs\<close>

definition passFieldSpec :: "(string \<times> jkind) list" where
  "passFieldSpec = [(''pass_no'', KInt), (''state'', KStr), (''entries_walked'', KInt), (''files_copied'', KInt), (''bytes_copied'', KInt),
     (''meta_fixed'', KInt), (''orphans'', KInt), (''errors'', KInt), (''fidelity_exceptions'', KInt), (''verify_ok'', KInt),
     (''verify_fail'', KInt), (''duration_ms'', KInt)]"

record cli_jobView =
  jv_Name :: string
  jv_State :: string
  jv_DryRun :: bool
  jv_Username :: string
  jv_Passes :: "(string \<times> json) list list"

definition decJob :: "json \<Rightarrow> cli_jobView option" where
  "decJob j =
     (case decStruct [(''name'', KStr), (''state'', KStr), (''dry_run'', KBool), (''username'', KStr), (''passes'', KArr)] j of
        None \<Rightarrow> None
      | Some f \<Rightarrow>
          map_option (\<lambda>ps. \<lparr>jv_Name = gStr f ''name'', jv_State = gStr f ''state'', jv_DryRun = gBool f ''dry_run'',
              jv_Username = gStr f ''username'', jv_Passes = ps\<rparr>)
            (decList (decStruct passFieldSpec) (gArr f ''passes'')))"

definition terminalJob :: "string \<Rightarrow> bool" where
  "terminalJob state \<longleftrightarrow> state \<in> set [''COMPLETED'', ''CANCELLED'', ''FAILED'']"

definition jobsPath :: string where
  "jobsPath = ''/api/v1/jobs''"

definition jobPath :: "string \<Rightarrow> string \<Rightarrow> string" where
  "jobPath name rest = ''/api/v1/jobs/'' @ PathEscape name @ rest"

text \<open>\<open>parseFlags\<close> followed by the body, and the same with a single \<open>fs.Parse\<close>.\<close>

definition withFlags :: "cli_env \<Rightarrow> (string \<times> flagKind) list \<Rightarrow> string list \<Rightarrow> (flag_vals \<Rightarrow> string list \<Rightarrow> cmd) \<Rightarrow> cmd" where
  "withFlags e fl args k = (case parseFlags e (connFlagSpec @ fl) args [] [] of Inl n \<Rightarrow> ExitWith n | Inr (vs, pos) \<Rightarrow> k vs pos)"

definition plainFlags :: "cli_env \<Rightarrow> (string \<times> flagKind) list \<Rightarrow> string list \<Rightarrow> (flag_vals \<Rightarrow> string list \<Rightarrow> cmd) \<Rightarrow> cmd" where
  "plainFlags e fl args k = (case flagParse e (connFlagSpec @ fl) args [] of Inl n \<Rightarrow> ExitWith n | Inr (vs, rest) \<Rightarrow> k vs rest)"

definition setErrCmd :: "set_error \<Rightarrow> cmd" where
  "setErrCmd x =
     (case x of
        NilMap \<Rightarrow> Panic
      | SpecParse \<Rightarrow> failWith ''parse spec''
      | SetNoEq s \<Rightarrow> failWith (''--set '' @ Quote s @ '': want path=value'')
      | SetPath s m \<Rightarrow> failWith (''--set '' @ Quote s @ '': '' @ m))"

definition submitSpec :: "cli_env \<Rightarrow> flag_vals \<Rightarrow> bytes \<Rightarrow> cmd" where
  "submitSpec e vs spec =
     (let c = connFlags e vs
      in postRaw c (jobsPath @ (if boolFlag vs ''dry-run'' then ''?dry_run=true'' else [])) spec (intoOut decJob (\<lambda>jv.
           Print (Line (''job '' @ jv_Name jv @ '' submitted (state '' @ jv_State jv @ dryTag (jv_DryRun jv) @ '')''))
             (if \<not> boolFlag vs ''start'' then success
              else client_post e c (jobPath (jv_Name jv) ''/start'') None (noOut
                     (Print (Line (''job '' @ jv_Name jv @ '' started'')) success))))))"

definition jobSubmit :: "cli_env \<Rightarrow> string list \<Rightarrow> cmd" where
  "jobSubmit e args = withFlags e [(''dry-run'', BoolFlag), (''start'', BoolFlag), (''set'', ListFlag)] args (\<lambda>vs pos.
     if length pos \<noteq> 1 then failWith ''job submit needs exactly one spec file''
     else case ce_readFile e (pos ! 0) of
            None \<Rightarrow> Done (Some ErrFile)
          | Some spec \<Rightarrow>
              (case (if listFlag vs ''set'' \<noteq> [] then applySets e spec (listFlag vs ''set'') else Inr spec) of
                 Inl x \<Rightarrow> setErrCmd x
               | Inr spec' \<Rightarrow> submitSpec e vs spec'))"

definition jobList :: "cli_env \<Rightarrow> string list \<Rightarrow> cmd" where
  "jobList e args = plainFlags e [] args (\<lambda>vs _.
     client_get (connFlags e vs) jobsPath (intoOut (decArr decJob) (\<lambda>jobs.
       printAll (Cells [''NAME'', ''STATE'', ''DRY-RUN'', ''USER''] #
         map (\<lambda>j. Cells [jv_Name j, jv_State j, if jv_DryRun j then ''true'' else ''false'', jv_Username j]) jobs) success)))"

definition passRow :: "(string \<times> json) list \<Rightarrow> cli_line" where
  "passRow p = Cells [fmt_d (gInt p ''pass_no''), gStr p ''state'', fmt_d (gInt p ''entries_walked''), fmt_d (gInt p ''files_copied''),
     humanBytes (gInt p ''bytes_copied''), fmt_d (gInt p ''meta_fixed''), fmt_d (gInt p ''orphans''),
     verifyCol (gInt p ''verify_ok'') (gInt p ''verify_fail''), fmt_d (gInt p ''errors''), humanMS (gInt p ''duration_ms'')]"

definition printStatus :: "client \<Rightarrow> string \<Rightarrow> (cli_jobView \<Rightarrow> cmd) \<Rightarrow> cmd" where
  "printStatus c name k =
     client_get c (jobPath name []) (intoOut decJob (\<lambda>jv.
       Print (Line (''job '' @ jv_Name jv @ '': '' @ jv_State jv @ dryTag (jv_DryRun jv)))
         (printAll (if jv_Passes jv = [] then [] else
            Cells [''PASS'', ''STATE'', ''WALKED'', ''COPIED'', ''BYTES'', ''META'', ''ORPHANS'', ''VERIFY'', ''ERRORS'', ''DURATION''] #
            map passRow (jv_Passes jv)) (k jv))))"

fun statusLoop :: "client \<Rightarrow> bool \<Rightarrow> nat \<Rightarrow> cli_jobView list \<Rightarrow> cmd" where
  "statusLoop c all shown [] =
     (if shown = 0 then Print (Line (if all then ''no jobs'' else ''no active jobs (use --all to include finished jobs, or drsync job list)'')) success
      else success)"
| "statusLoop c all shown (j # js) =
     (if \<not> all \<and> terminalJob (jv_State j) then statusLoop c all shown js
      else printAll (if shown > 0 then [Line []] else []) (printStatus c (jv_Name j) (\<lambda>_. statusLoop c all (Suc shown) js)))"

definition statusAll :: "client \<Rightarrow> bool \<Rightarrow> cmd" where
  "statusAll c all = client_get c jobsPath (intoOut (decArr decJob) (statusLoop c all 0))"

definition cli_jobStatus :: "cli_env \<Rightarrow> string list \<Rightarrow> cmd" where
  "cli_jobStatus e args = withFlags e [(''watch'', BoolFlag), (''all'', BoolFlag)] args (\<lambda>vs pos.
     if length pos > 1 then failWith ''job status takes at most one job name''
     else let c = connFlags e vs
          in if pos = []
             then (if boolFlag vs ''watch'' then failWith ''job status --watch needs a job name'' else statusAll c (boolFlag vs ''all''))
             else printStatus c (pos ! 0) (\<lambda>jv.
                    if \<not> boolFlag vs ''watch'' \<or> terminalJob (jv_State jv) then success else Follow c (pos ! 0)))"

text \<open>Numbers of an event or a report pass through \<open>float64\<close>.\<close>

definition i64 :: "json option \<Rightarrow> int" where
  "i64 v = (case v of Some (JInt n) \<Rightarrow> \<lfloor>round64 (of_int n)\<rfloor> | _ \<Rightarrow> 0)"

fun fmtAny :: "json \<Rightarrow> string" where
  "fmtAny (JStr s) = s"
| "fmtAny (JInt n) = fmt_d \<lfloor>round64 (of_int n)\<rfloor>"
| "fmtAny (JBool b) = (if b then ''true'' else ''false'')"
| "fmtAny (JArr js) = ''['' @ Join '' '' (map fmtAny js) @ '']''"
| "fmtAny (JObj kvs) = ''map['' @ Join '' '' (map (\<lambda>(k, v). k @ '':'' @ fmtAny v) kvs) @ '']''"

definition str :: "json option \<Rightarrow> string" where
  "str v = (case v of None \<Rightarrow> ''<nil>'' | Some j \<Rightarrow> fmtAny j)"

definition compactShards :: "json option \<Rightarrow> string" where
  "compactShards v =
     (case v of
        Some (JObj m) \<Rightarrow> fmt_d (i64 (map_of m ''QUEUED'')) @ ''q/'' @ fmt_d (i64 (map_of m ''LEASED'')) @ ''l/'' @ fmt_d (i64 (map_of m ''DONE'')) @ ''d''
      | _ \<Rightarrow> ''?'')"

record cli_event =
  ev_Type :: string
  ev_Job :: string
  ev_PassNo :: int
  ev_Data :: "(string \<times> json) list"

text \<open>One event of \<open>watchJob\<close>: the lines it prints and whether the job is over.\<close>

definition watchEvent :: "string \<Rightarrow> cli_event \<Rightarrow> cli_line list \<times> bool" where
  "watchEvent name ev =
     (let d = map_of (ev_Data ev); pass = fmt_d (ev_PassNo ev)
      in if ev_Job ev \<noteq> name then ([], False)
         else if ev_Type ev = ''stats'' then
           ([Line (''pass '' @ pass @ '' '' @ padRight 9 (str (d ''pass_state'')) @ '' walked='' @ fmt_d (i64 (d ''entries_walked'')) @
              '' copied='' @ fmt_d (i64 (d ''files_copied'')) @ '' ('' @ humanBytes (i64 (d ''bytes_copied'')) @ '') meta='' @ fmt_d (i64 (d ''meta_fixed'')) @
              '' orphans='' @ fmt_d (i64 (d ''orphans'')) @ '' verify='' @ fmt_d (i64 (d ''verify_ok'')) @ ''/'' @ fmt_d (i64 (d ''verify_fail'')) @
              '' errs='' @ fmt_d (i64 (d ''errors'')) @ '' shards='' @ compactShards (d ''shards''))], False)
         else if ev_Type ev = ''pass_state'' then ([Line (''pass '' @ pass @ '' -> '' @ str (d ''state''))], False)
         else if ev_Type ev = ''shard_parked'' then
           ([Line (''SHARD PARKED pass '' @ pass @ '' '' @ str (d ''rel_path'') @ '': '' @ str (d ''error''))], False)
         else if ev_Type ev = ''job_state'' then
           ([Line (''job '' @ name @ '' -> '' @ str (d ''state''))], terminalJob (str (d ''state'')))
         else ([], False))"

fun watchLoop :: "client \<Rightarrow> string \<Rightarrow> cli_event list \<Rightarrow> cmd" where
  "watchLoop c name [] = Follow c name"
| "watchLoop c name (ev # evs) =
     (case watchEvent name ev of
        (ls, False) \<Rightarrow> printAll ls (watchLoop c name evs)
      | (ls, True) \<Rightarrow> printAll (ls @ [Line []]) (printStatus c name (\<lambda>_. success)))"

text \<open>\<open>probe\<close> is the job of an event, \<open>None\<close> for one that does not decode.\<close>

definition tailEvent :: "string \<Rightarrow> string option \<Rightarrow> json \<Rightarrow> cli_line list" where
  "tailEvent jobFilter probe ev =
     (if jobFilter \<noteq> [] \<and> (case probe of None \<Rightarrow> False | Some j \<Rightarrow> j \<noteq> jobFilter) then [] else [JSONLine ev])"

definition cli_jobAction :: "cli_env \<Rightarrow> string \<Rightarrow> string list \<Rightarrow> cmd" where
  "cli_jobAction e act args = withFlags e [] args (\<lambda>vs pos.
     if length pos \<noteq> 1 then failWith (''job '' @ act @ '' needs a job name'')
     else client_post e (connFlags e vs) (jobPath (pos ! 0) (''/'' @ act)) None (noOut
            (Print (Line (''job '' @ pos ! 0 @ '': '' @ act @ '' ok'')) success)))"

definition decPurged :: "json \<Rightarrow> (string list \<times> int) option" where
  "decPurged j =
     (case decStruct [(''purged'', KArr), (''count'', KInt)] j of
        None \<Rightarrow> None
      | Some f \<Rightarrow> map_option (\<lambda>ns. (ns, gInt f ''count'')) (decList (\<lambda>j. case j of JStr s \<Rightarrow> Some s | _ \<Rightarrow> None) (gArr f ''purged'')))"

definition purgePath :: "string \<Rightarrow> int \<Rightarrow> bool \<Rightarrow> string" where
  "purgePath sel olderThan dryRun = ''/api/v1/jobs/purge?state='' @ QueryEscape sel @
     (if olderThan > 0 then ''&older_than_ms='' @ fmt_int 10 (olderThan sdiv 10 ^ 6) else []) @
     (if dryRun then ''&dry_run=true'' else [])"

definition bulkPurge :: "cli_env \<Rightarrow> flag_vals \<Rightarrow> string \<Rightarrow> cmd" where
  "bulkPurge e vs sel =
     (let dryRun = boolFlag vs ''dry-run''
      in client_post e (connFlags e vs) (purgePath sel (durationFlag e vs ''older-than'') dryRun) None (intoOut decPurged (\<lambda>(purged, count).
           if count = 0 then Print (Line ''no matching jobs to purge'') success
           else printAll (map (\<lambda>n. Line ((if dryRun then ''would purge '' else ''purged '') @ n)) purged @
                  [Line (fmt_d count @ '' job(s) '' @ (if dryRun then ''would be purged'' else ''purged''))]) success)))"

definition purgeFlags :: "(string \<times> flagKind) list" where
  "purgeFlags = [(''completed'', BoolFlag), (''state'', StringFlag), (''older-than'', DurationFlag), (''dry-run'', BoolFlag)]"

definition jobPurge :: "cli_env \<Rightarrow> string list \<Rightarrow> cmd" where
  "jobPurge e args = withFlags e purgeFlags args (\<lambda>vs pos.
     let completed = boolFlag vs ''completed''; state = stringFlag vs ''state'' []
     in if length pos = 1
        then (if completed \<or> state \<noteq> [] \<or> durationFlag e vs ''older-than'' \<noteq> 0 \<or> boolFlag vs ''dry-run''
              then failWith ''give a job name OR bulk flags (--completed/--state/--older-than/--dry-run), not both''
              else client_del (connFlags e vs) (jobPath (pos ! 0) []) (noOut (Print (Line (''job '' @ pos ! 0 @ '' purged'')) success)))
        else if length pos > 1 then failWith ''job purge takes at most one job name''
        else if completed \<and> state \<noteq> [] \<and> state \<noteq> ''completed'' then failWith (''--completed conflicts with --state '' @ state)
        else let sel = (if completed then ''completed'' else state)
             in if sel = [] then failWith ''specify a job name, or --completed / --state <s> for bulk purge'' else bulkPurge e vs sel)"

definition cmdJob :: "cli_env \<Rightarrow> string list \<Rightarrow> cmd" where
  "cmdJob e args =
     (case args of
        [] \<Rightarrow> ExitWith 2
      | sub # rest \<Rightarrow>
          if sub = ''submit'' then jobSubmit e rest
          else if sub = ''list'' then jobList e rest
          else if sub = ''status'' then cli_jobStatus e rest
          else if sub \<in> set [''start'', ''pause'', ''resume'', ''cancel''] then cli_jobAction e sub rest
          else if sub = ''purge'' then jobPurge e rest
          else failWith (''unknown job subcommand '' @ Quote sub))"

section \<open>Passes\<close>

definition cmdPass :: "cli_env \<Rightarrow> string list \<Rightarrow> cmd" where
  "cmdPass e args =
     (case args of
        [] \<Rightarrow> failWith ''usage: drsync pass trigger <name> [--delete-pass --i-know-this-deletes]''
      | sub # rest \<Rightarrow>
          if sub \<noteq> ''trigger'' then failWith ''usage: drsync pass trigger <name> [--delete-pass --i-know-this-deletes]''
          else withFlags e [(''delete-pass'', BoolFlag), (''i-know-this-deletes'', BoolFlag)] rest (\<lambda>vs pos.
                 if length pos \<noteq> 1 then failWith ''pass trigger needs a job name''
                 else let name = pos ! 0; del = boolFlag vs ''delete-pass''
                      in if del \<and> \<not> boolFlag vs ''i-know-this-deletes'' then failWith ''--delete-pass requires --i-know-this-deletes''
                         else client_post e (connFlags e vs) (jobPath name ''/passes'')
                                (Some (JObj ((if del then [(''confirm'', JStr name)] else []) @ [(''delete'', JBool del)]))) (noOut
                                (Print (Line (''job '' @ name @ '': '' @ (if del then ''DELETE pass'' else ''pass'') @ '' triggered'')) success))))"

section \<open>Agents\<close>

definition agentUsage :: string where
  "agentUsage = ''usage: drsync agent list | inflight <id> | enable <id> | disable <id>''"

definition inflightRow :: "(string \<times> json) list \<Rightarrow> cli_line" where
  "inflightRow it = Cells [fmt_d (gInt it ''shard_id''), fmt_d (gInt it ''job_id''), gStr it ''kind'', if gBool it ''running'' then ''running'' else ''queued'',
     humanMS (gInt it ''running_ms''), humanMS (gInt it ''held_ms''), fmt_d (gInt it ''entries_done''), gStr it ''rel_path'']"

definition decInflight :: "json \<Rightarrow> (string \<times> bool \<times> (string \<times> json) list list) option" where
  "decInflight j =
     (case decStruct [(''agent'', KStr), (''supported'', KBool), (''inflight'', KArr)] j of
        None \<Rightarrow> None
      | Some f \<Rightarrow>
          map_option (\<lambda>its. (gStr f ''agent'', gBool f ''supported'', its))
            (decList (decStruct [(''shard_id'', KInt), (''job_id'', KInt), (''kind'', KStr), (''rel_path'', KStr), (''held_ms'', KInt),
               (''running_ms'', KInt), (''running'', KBool), (''entries_done'', KInt)]) (gArr f ''inflight'')))"

text \<open>The agent's id is put into the path as it is.\<close>

definition cli_agentInflight :: "cli_env \<Rightarrow> string list \<Rightarrow> cmd" where
  "cli_agentInflight e args = plainFlags e [] args (\<lambda>vs rest.
     if length rest \<noteq> 1 then failWith ''usage: drsync agent inflight <id>''
     else client_get (connFlags e vs) (''/api/v1/agents/'' @ rest ! 0 @ ''/inflight'') (intoOut decInflight (\<lambda>(agent, supported, its).
            if \<not> supported then failWith (''agent '' @ agent @ '' predates in-flight reporting (protocol minor 1); upgrade it to see this'')
            else if its = [] then Print (Line (''agent '' @ agent @ '' is holding no work'')) success
            else printAll (Cells [''SHARD'', ''JOB'', ''KIND'', ''STATE'', ''RUNNING'', ''HELD'', ''ENTRIES'', ''PATH''] # map inflightRow its) success)))"

definition agentRow :: "cli_env \<Rightarrow> (string \<times> json) list \<Rightarrow> cli_line" where
  "agentRow e a = Cells [gStr a ''id'', gStr a ''hostname'', gStr a ''version'', fmt_d (gInt a ''proto_minor'') @ (if gBool a ''stale'' then '' (old)'' else []),
     gStr a ''state'', if gBool a ''connected'' then ''true'' else ''false'', if gBool a ''enabled'' then ''enabled'' else ''DISABLED'',
     msTime e (gInt a ''last_heartbeat_ms'')]"

definition agentList :: "cli_env \<Rightarrow> string list \<Rightarrow> cmd" where
  "agentList e args = plainFlags e [] args (\<lambda>vs _.
     client_get (connFlags e vs) ''/api/v1/agents'' (intoOut (decArr (decStruct [(''id'', KStr), (''hostname'', KStr), (''version'', KStr),
         (''proto_minor'', KInt), (''stale'', KBool), (''state'', KStr), (''connected'', KBool), (''enabled'', KBool), (''last_heartbeat_ms'', KInt)])) (\<lambda>ags.
       printAll (Cells [''ID'', ''HOST'', ''VERSION'', ''PROTO'', ''STATE'', ''CONNECTED'', ''SCHED'', ''LAST-HEARTBEAT''] # map (agentRow e) ags) success)))"

definition agentEnable :: "cli_env \<Rightarrow> string \<Rightarrow> string list \<Rightarrow> cmd" where
  "agentEnable e act args = plainFlags e [] args (\<lambda>vs rest.
     if length rest \<noteq> 1 then failWith (''usage: drsync agent '' @ act @ '' <id>'')
     else client_post e (connFlags e vs) (''/api/v1/agents/'' @ PathEscape (rest ! 0) @ ''/'' @ act) None
            (intoOut (decStruct [(''agent'', KStr), (''enabled'', KBool)]) (\<lambda>f.
              Print (Line (''agent '' @ gStr f ''agent'' @ (if gBool f ''enabled'' then '' enabled (eligible for new shards)''
                           else '' disabled (no new shards; in-flight leases finish)''))) success)))"

definition cmdAgent :: "cli_env \<Rightarrow> string list \<Rightarrow> cmd" where
  "cmdAgent e args =
     (case args of
        [] \<Rightarrow> failWith agentUsage
      | sub # rest \<Rightarrow>
          if sub = ''list'' then agentList e rest
          else if sub = ''inflight'' then cli_agentInflight e rest
          else if sub \<in> set [''enable'', ''disable''] then agentEnable e sub rest
          else failWith agentUsage)"

section \<open>Errors and the journal\<close>

definition journalFlags :: "(string \<times> flagKind) list" where
  "journalFlags = [(''pass'', StringFlag), (''path'', StringFlag), (''limit'', IntFlag), (''offset'', IntFlag)]"

text \<open>\<open>url.Values.Encode\<close>: the pairs sorted by key; no key is used twice here.\<close>

definition encodeQuery :: "(string \<times> string) list \<Rightarrow> string" where
  "encodeQuery kvs = Join ''&'' (map (\<lambda>(k, v). QueryEscape k @ ''='' @ QueryEscape v) (sort_key fst kvs))"

definition queryString :: "cli_env \<Rightarrow> flag_vals \<Rightarrow> (string \<times> string) list \<Rightarrow> string" where
  "queryString e vs extra =
     (let pass = stringFlag vs ''pass'' []; path = stringFlag vs ''path'' []; limit = intFlag e vs ''limit'' 1000; offset = intFlag e vs ''offset'' 0
      in ''?'' @ encodeQuery ((if pass \<noteq> [] then [(''pass'', pass)] else []) @ (if path \<noteq> [] then [(''path'', path)] else []) @
           [(''limit'', fmt_int 10 limit)] @ (if offset > 0 then [(''offset'', fmt_int 10 offset)] else []) @ extra))"

definition decPage :: "string \<Rightarrow> json \<Rightarrow> ((string \<times> json) list \<times> (string \<times> json) list list) option" where
  "decPage k j =
     (case decStruct [(''count'', KInt), (''truncated'', KBool), (k, KArr)] j of
        None \<Rightarrow> None
      | Some f \<Rightarrow> map_option (\<lambda>rs. (f, rs)) (decList (decStruct []) (gArr f k)))"

definition zeroStr :: "json option \<Rightarrow> string" where
  "zeroStr v = (case v of None \<Rightarrow> ''-'' | Some j \<Rightarrow> fmtAny j)"

definition errorLine :: "(string \<times> json) list \<Rightarrow> cli_line" where
  "errorLine r = Line (''pass '' @ str (map_of r ''pass'') @ '' '' @ padRight 20 (str (map_of r ''type'')) @ '' '' @ padRight 8 (zeroStr (map_of r ''class'')) @
     '' '' @ str (map_of r ''rel_path'') @ ''  '' @ zeroStr (map_of r ''detail''))"

definition byClass :: "(string \<times> json) list \<Rightarrow> (string \<times> json) list" where
  "byClass f = (case map_of f ''by_class'' of Some (JObj m) \<Rightarrow> m | _ \<Rightarrow> [])"

definition truncatedNote :: "(string \<times> json) list \<Rightarrow> cli_line list" where
  "truncatedNote f = (if gBool f ''truncated'' then [Line ''-- page truncated; use --offset/--limit for more''] else [])"

definition cmdErrors :: "cli_env \<Rightarrow> string list \<Rightarrow> cmd" where
  "cmdErrors e args = withFlags e (journalFlags @ [(''class'', StringFlag)]) args (\<lambda>vs pos.
     if length pos \<noteq> 1 then failWith ''errors needs a job name''
     else let cls = stringFlag vs ''class'' []
          in client_get (connFlags e vs) (jobPath (pos ! 0) (''/errors'' @ queryString e vs (if cls \<noteq> [] then [(''class'', cls)] else [])))
               (intoOut (decPage ''errors'') (\<lambda>(f, rs).
                 printAll (map errorLine rs @
                   [Line (if byClass f \<noteq> [] then ''-- '' @ fmt_d (gInt f ''count'') @ '' error(s)'' @
                        concat (map (\<lambda>(cl, n). ''  '' @ cl @ '':'' @ fmt_d (case n of JInt i \<Rightarrow> i | _ \<Rightarrow> 0)) (byClass f)) else ''no errors'')] @
                   truncatedNote f) success)))"

definition journalLine :: "(string \<times> json) list \<Rightarrow> cli_line" where
  "journalLine r = Line (''pass '' @ str (map_of r ''pass'') @ '' '' @ padRight 20 (str (map_of r ''type'')) @ '' '' @ str (map_of r ''rel_path'') @
     (case map_of r ''detail'' of None \<Rightarrow> [] | Some d \<Rightarrow> ''  ('' @ fmtAny d @ '')'') @
     (case map_of r ''xxh3'' of None \<Rightarrow> [] | Some h \<Rightarrow> ''  xxh3='' @ fmtAny h))"

definition journalCats :: "(string \<times> string \<times> string) list" where
  "journalCats =
     map (\<lambda>(k, l). (k, l, ansi ''92m'')) [(''COPIED'', ''copied''), (''META_FIXED'', ''meta_fixed''), (''DELETED'', ''deleted''), (''DIR_META'', ''dir_meta''),
       (''SKIPPED_CLEAN'', ''skipped_clean''), (''VERIFY_OK'', ''verify_ok''), (''LINK_CREATED'', ''link_created'')] @
     map (\<lambda>(k, l). (k, l, ansi ''93m'')) [(''WOULD_COPY'', ''would_copy''), (''WOULD_DELETE'', ''would_delete''), (''NLINK_DUP'', ''nlink_dup''),
       (''ORPHAN'', ''orphan''), (''SRC_CHANGED'', ''src_changed''), (''LINK_FALLBACK'', ''link_fallback''), (''SKIPPED_NEWER'', ''skipped_newer'')] @
     map (\<lambda>(k, l). (k, l, ansi ''91m'')) [(''ERROR'', ''error''), (''FIDELITY_EXCEPTION'', ''fidelity_exception''), (''VERIFY_FAIL'', ''verify_fail'')]"

definition lower_char :: "char \<Rightarrow> char" where
  "lower_char c = (let k = of_char c :: nat in if 65 \<le> k \<and> k \<le> 90 then char_of (k + 32) else c)"

definition printJournalSummary :: "cli_env \<Rightarrow> string \<Rightarrow> string \<Rightarrow> (string \<times> int) list \<Rightarrow> int \<Rightarrow> cli_line list" where
  "printJournalSummary e job scope counts tot =
     Line (''journal summary: '' @ job @ '' (pass '' @ scope @ '')'') #
     (if tot = 0 then [Line ''  (no records)'']
      else let cw = Max (set (5 # map (\<lambda>(k, n). length (fmt_int 10 n)) counts));
               cats = filter (\<lambda>(k, l, col). map_of counts k \<noteq> None) journalCats;
               extra = sort (filter (\<lambda>k. k \<notin> set (map fst journalCats)) (map fst counts));
               row = (\<lambda>l n. ''  '' @ padRight 20 l @ '' '' @ padLeft cw (fmt_int 10 n))
           in map (\<lambda>(k, l, col). Line (colorize (colorEnabled e) col (row l (the (map_of counts k))))) cats @
              map (\<lambda>k. Line (row (map lower_char k) (the (map_of counts k)))) extra @
              [Line (row ''total'' tot)])"

definition decSummary :: "json \<Rightarrow> ((string \<times> int) list \<times> int) option" where
  "decSummary j =
     (case decStruct [(''total'', KInt)] j of
        None \<Rightarrow> None
      | Some f \<Rightarrow>
          (case map_of f ''summary'' of
             None \<Rightarrow> Some ([], gInt f ''total'')
           | Some (JObj m) \<Rightarrow>
               if list_all (\<lambda>(k, v). hasKind KInt v) m then Some (map (\<lambda>(k, v). (k, case v of JInt n \<Rightarrow> n | _ \<Rightarrow> 0)) m, gInt f ''total'') else None
           | Some _ \<Rightarrow> None))"

definition journalSummary :: "cli_env \<Rightarrow> flag_vals \<Rightarrow> string \<Rightarrow> (string \<times> string) list \<Rightarrow> cmd" where
  "journalSummary e vs name extra =
     client_get (connFlags e vs) (jobPath name (''/journal'' @ queryString e vs (extra @ [(''summary'', ''true'')]))) (intoOut decSummary (\<lambda>(counts, tot).
       if boolFlag vs ''jsonl''
       then Print (JSONLine (JObj [(''summary'', JObj (map (\<lambda>(k, n). (k, JInt n)) counts)), (''total'', JInt tot)])) success
       else printAll (printJournalSummary e name (let p = stringFlag vs ''pass'' [] in if p = [] then ''all'' else p) counts tot) success))"

definition cmdJournal :: "cli_env \<Rightarrow> string list \<Rightarrow> cmd" where
  "cmdJournal e args =
     (case args of
        [] \<Rightarrow> failWith ''usage: drsync journal cat <name> [--pass N] [--type T] [--summary] [--jsonl]''
      | sub # rest \<Rightarrow>
          if sub \<noteq> ''cat'' then failWith ''usage: drsync journal cat <name> [--pass N] [--type T] [--summary] [--jsonl]''
          else withFlags e (journalFlags @ [(''type'', StringFlag), (''jsonl'', BoolFlag), (''summary'', BoolFlag)]) rest (\<lambda>vs pos.
                 if length pos \<noteq> 1 then failWith ''journal cat needs a job name''
                 else let typ = stringFlag vs ''type'' []; extra = (if typ \<noteq> [] then [(''type'', typ)] else [])
                      in if boolFlag vs ''summary'' then journalSummary e vs (pos ! 0) extra
                         else client_get (connFlags e vs) (jobPath (pos ! 0) (''/journal'' @ queryString e vs extra)) (intoOut (decPage ''records'') (\<lambda>(f, rs).
                                printAll (map (if boolFlag vs ''jsonl'' then (\<lambda>r. JSONLine (JObj r)) else journalLine) rs @ truncatedNote f) success))))"

section \<open>Reports\<close>

definition objOf :: "json option \<Rightarrow> (string \<times> json) list" where
  "objOf j = (case j of Some (JObj m) \<Rightarrow> m | _ \<Rightarrow> [])"

definition reportRow :: "(string \<times> json) list \<Rightarrow> cli_line" where
  "reportRow p =
     (let n = (\<lambda>k. i64 (map_of p k))
      in Cells [fmt_d (n ''pass_no''), str (map_of p ''state''), humanMS (n ''duration_ms''), fmt_d (n ''delta_files''), humanBytes (n ''delta_bytes''),
           fmt_d (n ''orphans''), verifyCol (n ''verify_ok'') (n ''verify_fail''), fmt_d (n ''errors'')])"

text \<open>The sums of the footer are \<open>int64\<close> sums.\<close>

definition sum64 :: "int list \<Rightarrow> int" where
  "sum64 ns = sint (sum_list (map of_int ns) :: 64 word)"

definition reportFooter :: "(string \<times> json) list list \<Rightarrow> cli_line" where
  "reportFooter ps =
     (let t = (\<lambda>k. sum64 (map (\<lambda>p. i64 (map_of p k)) ps))
      in Cells [''TOTAL'', [], humanMS (t ''duration_ms''), fmt_d (t ''delta_files''), humanBytes (t ''delta_bytes''), ''-'',
           verifyCol (t ''verify_ok'') (t ''verify_fail''), fmt_d (t ''errors'')])"

definition reportTable :: "json option \<Rightarrow> cli_line list" where
  "reportTable passes =
     (case passes of
        Some (JArr js) \<Rightarrow>
          let ps = map (\<lambda>j. objOf (Some j)) js
          in Cells [''PASS'', ''STATE'', ''DURATION'', ''DELTA-FILES'', ''DELTA-BYTES'', ''ORPHANS'', ''VERIFY'', ''ERRORS''] #
             map reportRow ps @ (if js = [] then [] else [reportFooter ps])
      | _ \<Rightarrow> [])"

definition reportLines :: "(string \<times> json) list \<Rightarrow> cli_line list" where
  "reportLines rep =
     (let t = objOf (map_of rep ''totals''); n = (\<lambda>k. i64 (map_of t k)); lc = n ''links_created''; lr = n ''link_anchor_races''; lf = n ''link_fallback'';
          parked = i64 (map_of rep ''parked_shard_count'')
      in [Line (''migration report: '' @ str (map_of rep ''job'') @ '' (state '' @ str (map_of rep ''state'') @
            dryTag (map_of rep ''dry_run'' = Some (JBool True)) @ '')''), Line []] @
         reportTable (map_of rep ''passes'') @
         [Line [], Line (''totals: '' @ fmt_d (n ''files_copied'') @ '' files / '' @ humanBytes (n ''bytes_copied'') @ '' copied, '' @ fmt_d (n ''meta_fixed'') @
            '' meta-fixed, '' @ fmt_d (n ''errors'') @ '' errors, '' @ fmt_d (n ''fidelity_exceptions'') @ '' fidelity exceptions''),
          Line (''verify: '' @ fmt_d (n ''verify_ok'') @ '' ok, '' @ fmt_d (n ''verify_fail'') @ '' fail'')] @
         (if sum64 [lc, lr, lf] > 0 then [Line (''hardlinks: '' @ fmt_d lc @ '' linked, '' @ fmt_d lr @ '' anchor races, '' @ fmt_d lf @ '' fell back to independent copy'')] else []) @
         (if n ''skipped_newer'' > 0 then [Line (''skipped: '' @ fmt_d (n ''skipped_newer'') @ '' files left untouched (destination newer than source)'')] else []) @
         [Line (''converged: '' @ str (map_of rep ''converged'') @ ''   orphans remaining: '' @ fmt_d (i64 (map_of rep ''orphans_remaining'')) @
            ''   delete pass ran: '' @ str (map_of rep ''delete_pass_ran''))] @
         (if parked > 0 then [Line (''PARKED SHARDS: '' @ fmt_d parked @ '' (operator attention required '' @ [CHR 0xE2, CHR 0x80, CHR 0x94] @ '' see drsync queue)'')] else []))"

definition cmdReport :: "cli_env \<Rightarrow> string list \<Rightarrow> cmd" where
  "cmdReport e args = withFlags e [(''json'', BoolFlag)] args (\<lambda>vs pos.
     if length pos \<noteq> 1 then failWith ''report needs a job name''
     else client_get (connFlags e vs) (jobPath (pos ! 0) ''/report'') (intoOut (decStruct []) (\<lambda>rep.
            if boolFlag vs ''json'' then Print (JSONLine (JObj rep)) success else printAll (reportLines rep) success)))"

section \<open>The queue\<close>

definition decQueue :: "json \<Rightarrow> ((string \<times> json) list list \<times> (string \<times> json) list list) option" where
  "decQueue j =
     (case decStruct [(''depth'', KArr), (''parked'', KArr)] j of
        None \<Rightarrow> None
      | Some f \<Rightarrow>
          (case (decList (decStruct [(''job'', KStr), (''pass_no'', KInt), (''kind'', KStr), (''state'', KStr), (''count'', KInt)]) (gArr f ''depth''),
                 decList (decStruct []) (gArr f ''parked'')) of
             (Some d, Some p) \<Rightarrow> Some (d, p)
           | _ \<Rightarrow> None))"

definition parkedText :: "(string \<times> json) list \<Rightarrow> cli_line" where
  "parkedText p =
     (let v = (\<lambda>k. str (map_of p k))
      in Line (''PARKED shard '' @ v ''shard_id'' @ '' job '' @ v ''job'' @ '' pass '' @ v ''pass_no'' @ '' '' @ v ''kind'' @ '' '' @ v ''rel_path'' @ '': '' @
           v ''error'' @ '' (attempt '' @ v ''attempt'' @ '', last agent '' @ v ''last_agent'' @ '')''))"

definition parkedRequest :: "cli_env \<Rightarrow> client \<Rightarrow> string \<Rightarrow> string \<Rightarrow> string list \<Rightarrow> cmd" where
  "parkedRequest e c act job rest =
     (let past = (if act = ''retry'' then ''retried'' else ''dropped'')
      in if job \<noteq> []
         then (if rest \<noteq> [] then failWith ''give a shard id or --job, not both''
               else client_post e c (jobPath job (''/parked/'' @ act)) None (intoOut (decStruct [(''job'', KStr), (''count'', KInt)]) (\<lambda>f.
                      Print (Line (past @ '' '' @ fmt_d (gInt f ''count'') @ '' parked shard(s) for job '' @ gStr f ''job'')) success)))
         else if length rest \<noteq> 1 then failWith (''usage: drsync queue '' @ act @ '' <shard-id> | --job <name>'')
         else client_post e c (''/api/v1/parked/'' @ PathEscape (rest ! 0) @ ''/'' @ act) None (intoOut (decStruct [(''shard_id'', KInt)]) (\<lambda>f.
                Print (Line (past @ '' parked shard '' @ fmt_d (gInt f ''shard_id''))) success)))"

definition queueParked :: "cli_env \<Rightarrow> string \<Rightarrow> string list \<Rightarrow> cmd" where
  "queueParked e act args = plainFlags e [(''job'', StringFlag)] args (\<lambda>vs rest.
     parkedRequest e (connFlags e vs) act (stringFlag vs ''job'' []) rest)"

definition queueLines :: "(string \<times> json) list list \<Rightarrow> (string \<times> json) list list \<Rightarrow> cli_line list" where
  "queueLines dep parked =
     (if dep = [] then [Line ''queue empty (no active passes)'']
      else Cells [''JOB'', ''PASS'', ''KIND'', ''STATE'', ''SHARDS''] #
           map (\<lambda>d. Cells [gStr d ''job'', fmt_d (gInt d ''pass_no''), gStr d ''kind'', gStr d ''state'', fmt_d (gInt d ''count'')]) dep) @
     map parkedText parked @
     (if parked = [] then [] else [Line [], Line ''resolve with: drsync queue retry <shard-id> | drsync queue drop <shard-id>  (or --job <name> for all of a job's parked shards)''])"

definition cmdQueue :: "cli_env \<Rightarrow> string list \<Rightarrow> cmd" where
  "cmdQueue e args =
     (if args \<noteq> [] \<and> (hd args = ''retry'' \<or> hd args = ''drop'') then queueParked e (hd args) (tl args)
      else plainFlags e [] args (\<lambda>vs _.
             client_get (connFlags e vs) ''/api/v1/queue'' (intoOut decQueue (\<lambda>(dep, parked). printAll (queueLines dep parked) success))))"

definition cmdEvents :: "cli_env \<Rightarrow> string list \<Rightarrow> cmd" where
  "cmdEvents e args = plainFlags e [(''job'', StringFlag)] args (\<lambda>vs _. Tail (connFlags e vs) (stringFlag vs ''job'' []))"

section \<open>The program\<close>

text \<open>\<open>cmdCA\<close> and \<open>cmdCert\<close> write key files and never talk to a coordinator; they are the argument \<open>local\<close> here and have a theory of their own.\<close>

definition cli_main :: "(string \<Rightarrow> string list \<Rightarrow> cli_error option) \<Rightarrow> cli_env \<Rightarrow> string list \<Rightarrow> cmd" where
  "cli_main local e args =
     (case args of
        [] \<Rightarrow> ExitWith 2
      | c # rest \<Rightarrow>
          if c = ''job'' then cmdJob e rest else if c = ''pass'' then cmdPass e rest else if c = ''agent'' then cmdAgent e rest
          else if c = ''errors'' then cmdErrors e rest else if c = ''journal'' then cmdJournal e rest else if c = ''report'' then cmdReport e rest
          else if c = ''queue'' then cmdQueue e rest else if c = ''events'' then cmdEvents e rest
          else if c = ''ca'' \<or> c = ''cert'' then Done (local c rest) else ExitWith 2)"

fun exitCode :: "cmd \<Rightarrow> nat option" where
  "exitCode (Done None) = Some 0"
| "exitCode (Done (Some x)) = Some 1"
| "exitCode (ExitWith n) = Some n"
| "exitCode Panic = Some 2"
| "exitCode (Print l k) = exitCode k"
| "exitCode _ = None"

section \<open>Running a command against the coordinator\<close>

text \<open>The request of a call, as the server parses it, and the answer made of a response.\<close>

definition requestOf :: "cli_env \<Rightarrow> string \<Rightarrow> client \<Rightarrow> string \<Rightarrow> string \<Rightarrow> bytes option \<Rightarrow> request option" where
  "requestOf e remote c method path body =
     map_option (\<lambda>(segs, q). \<lparr>rq_method = method, rq_path = segs, rq_query = q,
        rq_header = (if cl_token c \<noteq> [] then [(''Authorization'', ''Bearer '' @ cl_token c)] else []) @
          (if localUsername e \<noteq> [] then [(''X-Drsync-Username'', localUsername e)] else []),
        rq_cookie = None, rq_body = Some (case body of None \<Rightarrow> [] | Some b \<Rightarrow> b),
        rq_length = (case body of None \<Rightarrow> 0 | Some b \<Rightarrow> int (length b)), rq_remote = remote\<rparr>) (splitURL path)"

text \<open>The text of an error body is built by the server from the value of the model; \<open>txt\<close> is that text.\<close>

definition answerOf :: "(response_body \<Rightarrow> string) \<Rightarrow> response \<Rightarrow> answer" where
  "answerOf txt r = Answer (rs_code r)
     (case rs_body r of JSON j \<Rightarrow> Some j | ErrorBody m \<Rightarrow> Some (JObj [(''error'', JStr (txt (rs_body r)))]) | _ \<Rightarrow> None) (txt (rs_body r))"

text \<open>
  Running a command: the lines printed, what is left of it at the end, and the coordinator. A request the model
  does not parse (see \<open>splitURL\<close>) is answered like a failed connection. The environment of the \<open>n\<close>th request is \<open>env n\<close>.
\<close>

primrec perform :: "(nat \<Rightarrow> api_env) \<Rightarrow> api_cfg \<Rightarrow> cli_env \<Rightarrow> string \<Rightarrow> (response_body \<Rightarrow> string) \<Rightarrow> cmd \<Rightarrow> nat \<Rightarrow> api \<Rightarrow> cli_line list \<times> cmd \<times> api" where
  "perform env cfg e remote txt (Done x) n s = ([], Done x, s)"
| "perform env cfg e remote txt (ExitWith k) n s = ([], ExitWith k, s)"
| "perform env cfg e remote txt Panic n s = ([], Panic, s)"
| "perform env cfg e remote txt (Follow c j) n s = ([], Follow c j, s)"
| "perform env cfg e remote txt (Tail c j) n s = ([], Tail c j, s)"
| "perform env cfg e remote txt (Print l k) n s = (case perform env cfg e remote txt k n s of (ls, r, s') \<Rightarrow> (l # ls, r, s'))"
| "perform env cfg e remote txt (Call c m p b k) n s =
     (case requestOf e remote c m p b of
        None \<Rightarrow> perform env cfg e remote txt (k NetFail) n s
      | Some rq \<Rightarrow> (case ServeHTTP cfg (env n) rq s of (r, s') \<Rightarrow> perform env cfg e remote txt (k (answerOf txt r)) (Suc n) s'))"

end
