(* ===== verification/Cli_Requests.thy ===== *)
theory Cli_Requests
  imports Cli
begin

text \<open>
  What the client of \<open>Cli\<close> asks of the coordinator, whatever the answers: every request it can make has a handler, a delete
  pass takes both of its flags and the name of the job, a dry run of a purge changes nothing, and an override of a spec
  sets the field it names and no other.
\<close>

section \<open>What a command may ask\<close>

text \<open>The calls a command makes on some run of answers.\<close>

inductive may_call :: "cmd \<Rightarrow> string \<Rightarrow> string \<Rightarrow> bytes option \<Rightarrow> bool" where
  here: "may_call (Call c m p b k) m p b"
| later: "may_call (k a) m p b \<Longrightarrow> may_call (Call c m' p' b' k) m p b"
| printed: "may_call k m p b \<Longrightarrow> may_call (Print l k) m p b"

inductive_simps may_call_simps [simp]:
  "may_call (Done x) m p b" "may_call (ExitWith n) m p b" "may_call Panic m p b" "may_call (Follow c j) m p b" "may_call (Tail c j) m p b"
  "may_call (Print l k) m p b" "may_call (Call c m' p' b' k) m p b"

lemma may_call_leaves [simp]: "\<not> may_call success m p b" "\<not> may_call (failWith t) m p b"
  by (simp_all add: success_def failWith_def)

lemma may_call_printAll [simp]: "may_call (printAll ls k) m p b \<longleftrightarrow> may_call k m p b"
  by (induction ls) (simp_all add: printAll_def)

lemma may_call_do:
  "may_call (client_do c m' p' b' k) m p b \<Longrightarrow> m = m' \<and> p = p' \<and> b = b' \<or> (\<exists>js. may_call (k js) m p b)"
proof -
  assume "may_call (client_do c m' p' b' k) m p b"
  then consider "m = m' \<and> p = p' \<and> b = b'"
    | a where "may_call (case a of NetFail \<Rightarrow> Done (Some ErrNet)
        | Answer status js text \<Rightarrow> if status \<ge> 300 then Done (Some (ErrApi status (apiMessage status js text))) else k js) m p b"
    unfolding client_do_def may_call_simps by blast
  then show ?thesis by cases (auto split: answer.splits if_splits)
qed

lemma may_call_out:
  "may_call (noOut k js) m p b \<Longrightarrow> may_call k m p b"
  "may_call (intoOut dec k' js) m p b \<Longrightarrow> \<exists>x. may_call (k' x) m p b"
  by (auto simp: noOut_def intoOut_def split: option.splits)

lemmas call_defs = client_get_def client_del_def client_post_def postRaw_def

lemma may_call_flags:
  "may_call (withFlags e fl args k) m p b \<Longrightarrow> \<exists>vs pos. parseFlags e (connFlagSpec @ fl) args [] [] = Inr (vs, pos) \<and> may_call (k vs pos) m p b"
  "may_call (plainFlags e fl args k) m p b \<Longrightarrow> \<exists>vs pos. flagParse e (connFlagSpec @ fl) args [] = Inr (vs, pos) \<and> may_call (k vs pos) m p b"
  by (auto simp: withFlags_def plainFlags_def split: sum.splits)

section \<open>Every request has a handler\<close>

lemma findRoute_entry:
  assumes "(m, pat, mk) \<in> set route_table" "match_segs pat segs = Some vs"
  shows "findRoute m segs = Some (mk vs)"
proof -
  obtain i where i: "i < length route_table" "route_table ! i = (m, pat, mk)" using assms(1) by (auto simp: in_set_conv_nth)
  let ?P = "\<lambda>(m', pat', mk'). method_ok m' m \<and> match_segs pat' segs \<noteq> None"
  have ok: "method_ok m m" by (simp add: method_ok_def)
  have u: "j = i" if j: "j < length route_table" "?P (route_table ! j)" for j
  proof -
    obtain m' pat' mk' where r: "route_table ! j = (m', pat', mk')" by (cases "route_table ! j")
    show ?thesis using patterns_disjoint [OF j(1) i(1) r i(2)] j(2) r assms(2) ok by auto
  qed
  have n: "\<forall>j < i. \<not> ?P (route_table ! j)"
  proof (intro allI impI notI)
    fix j assume "j < i" "?P (route_table ! j)"
    then show False using u [of j] i(1) by simp
  qed
  have y: "?P (route_table ! i)" unfolding i(2) using assms(2) ok by simp
  have "List.find ?P route_table = Some (route_table ! i)" unfolding find_Some_iff by (intro exI [of _ i] conjI i(1) refl y n)
  then show ?thesis using assms(2) i(2) by (simp add: findRoute_def)
qed

definition spoken :: "string \<Rightarrow> string \<Rightarrow> bool" where
  "spoken m p \<longleftrightarrow> (\<exists>segs q. p = pathOf segs @ q \<and> segs \<noteq> [] \<and> (q = [] \<or> hd q = CHR ''?'') \<and> ([] \<notin> set segs \<longrightarrow> findRoute m segs \<noteq> None))"

lemma pathOf_append [simp]: "pathOf (xs @ ys) = pathOf xs @ pathOf ys"
  by (simp add: pathOf_def)

lemma pathOf_lit: "list_all keepPath s \<Longrightarrow> pathOf [s] = CHR ''/'' # s"
proof -
  assume "list_all keepPath s"
  then have "PathEscape s = s" by (induction s) (simp_all add: PathEscape_def)
  then show ?thesis by (simp add: pathOf_def)
qed

lemma spokenI:
  assumes "segs \<noteq> [] \<and> ([] \<notin> set segs \<longrightarrow> list_ex (\<lambda>(m', pat, mk). m' = m \<and> match_segs pat segs \<noteq> None) route_table)"
  shows "spoken m (pathOf segs)" "hd q = CHR ''?'' \<Longrightarrow> spoken m (pathOf segs @ q)"
proof -
  have r: "[] \<notin> set segs \<longrightarrow> findRoute m segs \<noteq> None" using assms findRoute_entry by (fastforce simp: list_ex_iff)
  show "spoken m (pathOf segs)" unfolding spoken_def using r assms by (intro exI [of _ segs] exI [of _ "[]"]) simp
  show "hd q = CHR ''?'' \<Longrightarrow> spoken m (pathOf segs @ q)" unfolding spoken_def using r assms by blast
qed

lemma path_lits:
  "PathEscape ''api'' = ''api''" "PathEscape ''v1'' = ''v1''" "PathEscape ''jobs'' = ''jobs''" "PathEscape ''start'' = ''start''" "PathEscape ''pause'' = ''pause''"
  "PathEscape ''resume'' = ''resume''" "PathEscape ''cancel'' = ''cancel''" "PathEscape ''passes'' = ''passes''" "PathEscape ''report'' = ''report''"
  "PathEscape ''errors'' = ''errors''" "PathEscape ''journal'' = ''journal''" "PathEscape ''parked'' = ''parked''" "PathEscape ''retry'' = ''retry''"
  "PathEscape ''drop'' = ''drop''" "PathEscape ''queue'' = ''queue''" "PathEscape ''agents'' = ''agents''" "PathEscape ''enable'' = ''enable''" "PathEscape ''disable'' = ''disable''"
  by code_simp+

lemma paths:
  "jobPath name [] = pathOf [''api'', ''v1'', ''jobs'', name]"
  "jobPath name (''/start'') = pathOf [''api'', ''v1'', ''jobs'', name, ''start'']" "jobPath name (''/pause'') = pathOf [''api'', ''v1'', ''jobs'', name, ''pause'']"
  "jobPath name (''/resume'') = pathOf [''api'', ''v1'', ''jobs'', name, ''resume'']" "jobPath name (''/cancel'') = pathOf [''api'', ''v1'', ''jobs'', name, ''cancel'']"
  "jobPath name (''/passes'') = pathOf [''api'', ''v1'', ''jobs'', name, ''passes'']" "jobPath name (''/report'') = pathOf [''api'', ''v1'', ''jobs'', name, ''report'']"
  "jobPath name (''/errors'' @ q) = pathOf [''api'', ''v1'', ''jobs'', name, ''errors''] @ q" "jobPath name (''/journal'' @ q) = pathOf [''api'', ''v1'', ''jobs'', name, ''journal''] @ q"
  "jobPath name (''/parked/retry'') = pathOf [''api'', ''v1'', ''jobs'', name, ''parked'', ''retry'']"
  "jobPath name (''/parked/drop'') = pathOf [''api'', ''v1'', ''jobs'', name, ''parked'', ''drop'']"
  "jobsPath = pathOf [''api'', ''v1'', ''jobs'']" "''/api/v1/queue'' = pathOf [''api'', ''v1'', ''queue'']" "''/api/v1/agents'' = pathOf [''api'', ''v1'', ''agents'']"
  "''/api/v1/agents/'' @ PathEscape i @ ''/enable'' = pathOf [''api'', ''v1'', ''agents'', i, ''enable'']"
  "''/api/v1/agents/'' @ PathEscape i @ ''/disable'' = pathOf [''api'', ''v1'', ''agents'', i, ''disable'']"
  "''/api/v1/parked/'' @ PathEscape i @ ''/retry'' = pathOf [''api'', ''v1'', ''parked'', i, ''retry'']"
  "''/api/v1/parked/'' @ PathEscape i @ ''/drop'' = pathOf [''api'', ''v1'', ''parked'', i, ''drop'']"
  by (simp_all add: jobPath_def jobsPath_def pathOf_def path_lits)

lemmas spoken_eval = paths spokenI route_table_def api_pattern_def

lemma spoken_paths:
  "spoken ''POST'' jobsPath" "spoken ''POST'' (jobsPath @ ''?dry_run=true'')" "spoken ''GET'' jobsPath" "spoken ''GET'' (jobPath name [])" "spoken ''DELETE'' (jobPath name [])"
  "spoken ''POST'' (jobPath name ''/start'')" "spoken ''POST'' (jobPath name ''/pause'')" "spoken ''POST'' (jobPath name ''/resume'')" "spoken ''POST'' (jobPath name ''/cancel'')"
  "spoken ''POST'' (jobPath name ''/passes'')" "spoken ''GET'' (jobPath name ''/report'')" "spoken ''GET'' ''/api/v1/queue''" "spoken ''GET'' ''/api/v1/agents''"
  "spoken ''POST'' (''/api/v1/agents/'' @ PathEscape i @ ''/enable'')" "spoken ''POST'' (''/api/v1/agents/'' @ PathEscape i @ ''/disable'')"
  "spoken ''POST'' (''/api/v1/parked/'' @ PathEscape i @ ''/retry'')" "spoken ''POST'' (''/api/v1/parked/'' @ PathEscape i @ ''/drop'')"
  "spoken ''POST'' (jobPath name ''/parked/retry'')" "spoken ''POST'' (jobPath name ''/parked/drop'')"
  by (simp_all add: spoken_eval del: append_Cons)

lemma spoken_queries:
  "spoken ''GET'' (jobPath name (''/errors'' @ queryString e vs x))" "spoken ''GET'' (jobPath name (''/journal'' @ queryString e vs x))"
  unfolding paths by (rule spokenI; simp add: route_table_def api_pattern_def queryString_def Let_def)+

definition purgePairs :: "string \<Rightarrow> int \<Rightarrow> bool \<Rightarrow> (string \<times> string) list" where
  "purgePairs sel olderThan dryRun = [(''state'', sel)] @
     (if olderThan > 0 then [(''older_than_ms'', fmt_int 10 (olderThan sdiv 10 ^ 6))] else []) @ (if dryRun then [(''dry_run'', ''true'')] else [])"

definition purgeQuery :: "string \<Rightarrow> int \<Rightarrow> bool \<Rightarrow> string" where
  "purgeQuery sel olderThan dryRun = ''?state='' @ QueryEscape sel @ (if olderThan > 0 then ''&older_than_ms='' @ fmt_int 10 (olderThan sdiv 10 ^ 6) else []) @
     (if dryRun then ''&dry_run=true'' else [])"

lemma purgePath_split: "purgePath sel n b = pathOf [''api'', ''v1'', ''jobs'', ''purge''] @ purgeQuery sel n b"
proof -
  have "''/api/v1/jobs/purge?state='' = pathOf [''api'', ''v1'', ''jobs'', ''purge''] @ ''?state=''" by code_simp
  then show ?thesis by (simp only: purgePath_def purgeQuery_def append_assoc)
qed

lemma spoken_purge: "spoken ''POST'' (purgePath sel n b)"
  unfolding purgePath_split by (rule spokenI) (simp_all add: route_table_def api_pattern_def purgeQuery_def)

text \<open>The commands one by one; a call is either made at once or after an answer.\<close>

named_theorems calls_spoken

lemma spoken_do: "may_call (client_do c m' p' b' k) m p b \<Longrightarrow> spoken m' p' \<Longrightarrow> (\<And>js. may_call (k js) m p b \<Longrightarrow> spoken m p) \<Longrightarrow> spoken m p"
  using may_call_do by blast

lemma spoken_status: "may_call (printStatus c name k) m p b \<Longrightarrow> (\<And>jv. may_call (k jv) m p b \<Longrightarrow> spoken m p) \<Longrightarrow> spoken m p"
  unfolding printStatus_def call_defs by (erule spoken_do) (auto simp: spoken_paths dest!: may_call_out)

lemma spoken_statusLoop: "may_call (statusLoop c all n js) m p b \<Longrightarrow> spoken m p"
  by (induction c all n js rule: statusLoop.induct) (auto split: if_splits elim: spoken_status)

lemma spoken_job_commands [calls_spoken]:
  "may_call (submitSpec e vs spec) m p b \<Longrightarrow> spoken m p" "may_call (jobList e args) m p b \<Longrightarrow> spoken m p"
  "may_call (statusAll c all) m p b \<Longrightarrow> spoken m p" "may_call (bulkPurge e vs sel) m p b \<Longrightarrow> spoken m p"
  subgoal
    unfolding submitSpec_def call_defs Let_def
    by (erule spoken_do) (auto simp: spoken_paths dest!: may_call_out split: if_splits elim!: spoken_do)
  subgoal
    unfolding jobList_def call_defs
    by (drule may_call_flags(2), elim exE conjE, erule spoken_do) (auto simp: spoken_paths dest!: may_call_out)
  subgoal
    unfolding statusAll_def call_defs by (erule spoken_do) (auto simp: spoken_paths dest!: may_call_out spoken_statusLoop)
  subgoal
    unfolding bulkPurge_def call_defs Let_def by (erule spoken_do) (auto simp: spoken_purge dest!: may_call_out split: if_splits)
  done

lemma setErrCmd_silent: "\<not> may_call (setErrCmd x) m p b"
  by (cases x) (simp_all add: setErrCmd_def)

lemma spoken_cmdJob [calls_spoken]: "may_call (cmdJob e args) m p b \<Longrightarrow> spoken m p"
proof -
  have 1: "may_call (jobSubmit e a) m p b \<Longrightarrow> spoken m p" for a
    unfolding jobSubmit_def by (drule may_call_flags(1)) (auto simp: setErrCmd_silent split: if_splits option.splits sum.splits dest: spoken_job_commands(1))
  have 2: "may_call (cli_jobStatus e a) m p b \<Longrightarrow> spoken m p" for a
    unfolding cli_jobStatus_def Let_def
    by (drule may_call_flags(1)) (auto split: if_splits dest: spoken_job_commands(3) elim!: spoken_status)
  have 3: "may_call (cli_jobAction e act a) m p b \<Longrightarrow> act \<in> set [''start'', ''pause'', ''resume'', ''cancel''] \<Longrightarrow> spoken m p" for a act
    unfolding cli_jobAction_def call_defs
    by (drule may_call_flags(1)) (auto simp: spoken_paths split: if_splits dest!: may_call_out elim!: spoken_do)
  have 4: "may_call (jobPurge e a) m p b \<Longrightarrow> spoken m p" for a
    unfolding jobPurge_def Let_def call_defs
    by (drule may_call_flags(1)) (auto simp: spoken_paths split: if_splits dest!: may_call_out spoken_job_commands(4) elim!: spoken_do)
  show "may_call (cmdJob e args) m p b \<Longrightarrow> spoken m p"
    using 1 2 3 4 spoken_job_commands(2) unfolding cmdJob_def by (auto split: list.splits if_splits)
qed

lemma spoken_acts:
  "act = ''retry'' \<or> act = ''drop'' \<Longrightarrow> spoken ''POST'' (jobPath job (''/parked/'' @ act))"
  "act = ''retry'' \<or> act = ''drop'' \<Longrightarrow> spoken ''POST'' (''/api/v1/parked/'' @ PathEscape i @ ''/'' @ act)"
  "act = ''enable'' \<or> act = ''disable'' \<Longrightarrow> spoken ''POST'' (''/api/v1/agents/'' @ PathEscape i @ ''/'' @ act)"
  using spoken_paths by auto

lemma spoken_cmdPass [calls_spoken]: "may_call (cmdPass e args) m p b \<Longrightarrow> spoken m p"
  unfolding cmdPass_def Let_def call_defs
  by (auto simp: spoken_paths split: list.splits if_splits dest!: may_call_flags(1) may_call_out elim!: spoken_do)

lemma spoken_cmdErrors [calls_spoken]: "may_call (cmdErrors e args) m p b \<Longrightarrow> spoken m p"
  unfolding cmdErrors_def Let_def call_defs
  by (auto simp: spoken_queries simp del: append_Cons append.simps split: if_splits prod.splits dest!: may_call_flags(1) may_call_out elim!: spoken_do)

lemma spoken_cmdJournal [calls_spoken]: "may_call (cmdJournal e args) m p b \<Longrightarrow> spoken m p"
  unfolding cmdJournal_def journalSummary_def Let_def call_defs
  by (auto simp: spoken_queries simp del: append_Cons append.simps split: list.splits if_splits prod.splits dest!: may_call_flags(1) may_call_out elim!: spoken_do)

lemma spoken_cmdReport [calls_spoken]: "may_call (cmdReport e args) m p b \<Longrightarrow> spoken m p"
  unfolding cmdReport_def Let_def call_defs
  by (auto simp: spoken_paths split: if_splits dest!: may_call_flags(1) may_call_out elim!: spoken_do)

lemma spoken_cmdQueue [calls_spoken]: "may_call (cmdQueue e args) m p b \<Longrightarrow> spoken m p"
proof -
  have r: "may_call (parkedRequest e c act job rest) m p b \<Longrightarrow> act = ''retry'' \<or> act = ''drop'' \<Longrightarrow> spoken m p" for c act job rest
    unfolding parkedRequest_def Let_def call_defs
    by (auto intro: spoken_acts simp del: append_Cons append.simps split: if_splits dest!: may_call_out elim!: spoken_do)
  then have "may_call (queueParked e act rest) m p b \<Longrightarrow> act = ''retry'' \<or> act = ''drop'' \<Longrightarrow> spoken m p" for act rest
    unfolding queueParked_def by (blast dest: may_call_flags(2))
  moreover have "may_call (plainFlags e [] args (\<lambda>vs _.
       client_get (connFlags e vs) ''/api/v1/queue'' (intoOut decQueue (\<lambda>(dep, parked). printAll (queueLines dep parked) success)))) m p b \<Longrightarrow> spoken m p"
    unfolding call_defs by (auto simp: spoken_paths split: prod.splits dest!: may_call_flags(2) may_call_out elim!: spoken_do)
  ultimately show "may_call (cmdQueue e args) m p b \<Longrightarrow> spoken m p" unfolding cmdQueue_def by (auto split: if_splits)
qed

lemma spoken_cmdAgent [calls_spoken]:
  assumes "may_call (cmdAgent e args) m p b"
  shows "spoken m p \<or> m = ''GET'' \<and> (\<exists>i. p = ''/api/v1/agents/'' @ i @ ''/inflight'')"
proof -
  have 1: "may_call (agentList e a) m p b \<Longrightarrow> spoken m p" for a
    unfolding agentList_def call_defs by (auto simp: spoken_paths dest!: may_call_flags(2) may_call_out elim!: spoken_do)
  have 2: "may_call (agentEnable e act a) m p b \<Longrightarrow> act = ''enable'' \<or> act = ''disable'' \<Longrightarrow> spoken m p" for a act
    unfolding agentEnable_def call_defs
    by (auto intro: spoken_acts simp del: append_Cons append.simps split: if_splits dest!: may_call_flags(2) may_call_out elim!: spoken_do)
  have 3: "may_call (cli_agentInflight e a) m p b \<Longrightarrow> m = ''GET'' \<and> (\<exists>i. p = ''/api/v1/agents/'' @ i @ ''/inflight'')" for a
    unfolding cli_agentInflight_def call_defs
    by (auto simp del: append_Cons append.simps split: if_splits prod.splits dest!: may_call_flags(2) may_call_do may_call_out)
  show ?thesis using assms 1 2 3 unfolding cmdAgent_def by (auto simp del: append_Cons append.simps split: list.splits if_splits)
qed

lemma cmdEvents_silent: "\<not> may_call (cmdEvents e args) m p b"
  by (auto simp: cmdEvents_def dest: may_call_flags(2))

section \<open>Properties\<close>


definition sample_cli :: cli_env where
  "sample_cli = \<lparr>ce_lookupEnv = (\<lambda>k. if k = ''DRSYNC_TOKEN'' then Some ''t0ken'' else None), ce_user = Some ''op'', ce_readFile = (\<lambda>_. None),
     ce_parseInt = ParseInt, ce_parseDuration = (\<lambda>_. None), ce_isFloat = (\<lambda>_. False), ce_json = (\<lambda>j. case j of JObj [(k, JStr n), d] \<Rightarrow> 1 # bytes_of n | _ \<Rightarrow> [0]),
     ce_yamlIn = (\<lambda>b. Some (if b = [] then None else Some [])), ce_yamlOut = (\<lambda>_. [1]), ce_clock = (\<lambda>_. []), ce_terminal = False\<rparr>"



definition sample_trigger_env :: api_env where
  "sample_trigger_env = sample_api_env\<lparr>dec_trigger := \<lambda>b. case b of [] \<Rightarrow> None | x # r \<Rightarrow> Some (if x = 1 then (True, string_of r) else (False, []))\<rparr>"


lemma QueryEscape_keep: "list_all keepQuery s \<Longrightarrow> QueryEscape s = s"
  by (induction s) (simp_all add: QueryEscape_def)

lemma QueryEscape_number: "0 \<le> n \<Longrightarrow> QueryEscape (fmt_int 10 n) = fmt_int 10 n"
proof -
  assume "0 \<le> n"
  then have "set (fmt_int 10 n) \<subseteq> dec_chars" using fmt_nat_dec by (simp add: fmt_int_def)
  moreover have "\<forall>c \<in> dec_chars. keepQuery c" by (simp add: dec_chars_def keepQuery_def alnum_def)
  ultimately show ?thesis by (intro QueryEscape_keep) (auto simp: list_all_iff)
qed

lemma purgeQuery_pairs: "splitQuery (tl (purgeQuery sel n b)) = purgePairs sel n b"
proof -
  have "0 \<le> n \<Longrightarrow> 0 \<le> n sdiv 10 ^ 6" by (simp add: signed_divide_int_def sgn_if)
  moreover have "QueryEscape ''state'' = ''state''" "QueryEscape ''older_than_ms'' = ''older_than_ms''" "QueryEscape ''dry_run'' = ''dry_run''" "QueryEscape ''true'' = ''true''" by code_simp+
  ultimately have "tl (purgeQuery sel n b) = Join ''&'' (map encPair (purgePairs sel n b))"
    by (simp add: purgeQuery_def purgePairs_def encPair_def QueryEscape_number)
  then show ?thesis by (simp only: splitQuery_enc)
qed

lemma auth_harmless:
  assumes "snd (run_handler h s) = s"
  shows "snd (run_handler (auth cfg env rq h) s) = s"
  using assms by (auto simp: auth_def run_handler_def failE_def)

lemma purgeJobs_dry:
  assumes "query rq ''dry_run'' = ''true''"
  shows "snd (run_handler (purgeJobs cfg env rq) s) = s"
  using assms by (auto simp: purgeJobs_def run_handler_def eff_defs readApi_def purgeLoop_dry Let_def split: option.splits)

lemma perform_Print [simp]: "snd (snd (perform env cfg e remote txt (Print l k) n s)) = snd (snd (perform env cfg e remote txt k n s))"
  by (simp split: prod.splits)

lemma perform_quiet:
  "(\<And>m p b. \<not> may_call k m p b) \<Longrightarrow> snd (snd (perform env cfg e remote txt k n s)) = s"
proof (induction k arbitrary: n s)
  case (Print l k)
  then show ?case by (simp del: perform.simps)
next
  case (Call c m p b k)
  then show ?case by fastforce
qed simp_all

lemma client_do_quiet:
  assumes "\<And>js m p b. \<not> may_call (k js) m p b"
    and "\<And>rq. requestOf e remote c m p b = Some rq \<Longrightarrow> snd (ServeHTTP cfg (env n) rq s) = s"
  shows "snd (snd (perform env cfg e remote txt (client_do c m p b k) n s)) = s"
proof -
  let ?k = "\<lambda>a. case a of NetFail \<Rightarrow> Done (Some ErrNet)
    | Answer status js text \<Rightarrow> if status \<ge> 300 then Done (Some (ErrApi status (apiMessage status js text))) else k js"
  have q: "snd (snd (perform env cfg e remote txt (?k a) n' s)) = s" for a n'
    by (rule perform_quiet) (use assms(1) in \<open>auto split: answer.splits\<close>)
  show ?thesis
  proof (cases "requestOf e remote c m p b")
    case None
    then show ?thesis using q [of NetFail n] by (simp add: client_do_def)
  next
    case (Some rq)
    obtain r where "ServeHTTP cfg (env n) rq s = (r, s)" using assms(2) [OF Some] by (cases "ServeHTTP cfg (env n) rq s") auto
    then show ?thesis using Some q [of "answerOf txt r" "Suc n"] by (simp add: client_do_def)
  qed
qed

lemma purge_dry_served:
  assumes "requestOf e remote c ''POST'' (purgePath sel n True) None = Some rq"
  shows "snd (ServeHTTP cfg env rq s) = s"
proof -
  let ?segs = "[''api'', ''v1'', ''jobs'', ''purge'']"
  have clean: "\<forall>s \<in> set ?segs. PathEscape s \<notin> {[], ''.'', ''..''}" by code_simp
  have "splitURL (purgePath sel n True) = Some (?segs, purgePairs sel n True)"
    unfolding purgePath_split purgeQuery_pairs [symmetric] using clean by (subst splitURL_pathOf) (simp_all add: purgeQuery_def)
  then have rq: "rq_path rq = ?segs" "rq_method rq = ''POST''" "rq_query rq = purgePairs sel n True" using assms by (auto simp: requestOf_def)
  have "findRoute ''POST'' ?segs = Some PurgeJobs"
    by (rule findRoute_entry [of _ "api_pattern [Lit ''jobs'', Lit ''purge'']"]) (simp_all add: route_table_def api_pattern_def)
  moreover have "query rq ''dry_run'' = ''true''" by (simp add: query_def lookup_or_empty_def rq purgePairs_def)
  ultimately show ?thesis using auth_harmless [OF purgeJobs_dry] by (simp add: ServeHTTP_def rq serve_def)
qed

text \<open>
  A dry run of a purge from the command line leaves the coordinator as it is, whatever the other flags, the credentials and the answers.
\<close>

theorem cli_dry_purge_harmless:
  assumes "parseFlags e (connFlagSpec @ purgeFlags) args [] [] = Inr (vs, pos)" "boolFlag vs ''dry-run''"
    and "perform env cfg e remote txt (jobPurge e args) n s = (out, r, s')"
  shows "s' = s"
proof -
  have "snd (snd (perform env cfg e remote txt (bulkPurge e vs sel) n s)) = s" for sel
    unfolding bulkPurge_def call_defs Let_def using assms(2)
    by (intro client_do_quiet) (auto dest!: may_call_out purge_dry_served split: if_splits)
  moreover have "snd (snd (perform env cfg e remote txt (failWith t) n s)) = s" for t by (simp add: failWith_def)
  ultimately have "snd (snd (perform env cfg e remote txt (jobPurge e args) n s)) = s"
    using assms(1,2) by (simp add: jobPurge_def withFlags_def Let_def)
  then show ?thesis using assms(3) by simp
qed

definition sample_purge_args :: "string list" where
  "sample_purge_args = [''--state'', ''terminal'', ''--dry-run'']"

theorem cli_dry_purge_harmless_witness:
  "\<exists>out r. perform (\<lambda>_. sample_api_env) sample_api_cfg sample_cli [] (\<lambda>_. []) (jobPurge sample_cli sample_purge_args) 0 (api_on sample_finished) =
     (out, r, api_on sample_finished) \<and> out = [Line ''would purge j'', Line ''1 job(s) would be purged''] \<and> exitCode r = Some 0"
proof -
  let ?r = "perform (\<lambda>_. sample_api_env) sample_api_cfg sample_cli [] (\<lambda>_. []) (jobPurge sample_cli sample_purge_args) 0 (api_on sample_finished)"
  have f: "parseFlags sample_cli (connFlagSpec @ purgeFlags) sample_purge_args [] [] = Inr ([(''state'', ''terminal''), (''dry-run'', ''true'')], [])"
    "boolFlag [(''state'', ''terminal''), (''dry-run'', ''true'')] ''dry-run''" by code_simp+
  have v: "(\<lambda>(out, r, s). (out, exitCode r)) ?r = ([Line ''would purge j'', Line ''1 job(s) would be purged''], Some 0)" by code_simp
  obtain out r s where r: "?r = (out, r, s)" by (cases ?r)
  have o: "out = [Line ''would purge j'', Line ''1 job(s) would be purged''] \<and> exitCode r = Some 0" using v unfolding r by simp
  have "s = api_on sample_finished" by (rule cli_dry_purge_harmless [OF f r])
  then show ?thesis using r o by (intro exI [of _ out] exI [of _ r]) simp
qed

section \<open>Overrides of a spec\<close>

fun getPath :: "(string \<times> yval) list \<Rightarrow> string list \<Rightarrow> yval option" where
  "getPath node [] = None"
| "getPath node [p] = map_of node p"
| "getPath node (p # q # path) = (case map_of node p of Some (YMap child) \<Rightarrow> getPath child (q # path) | _ \<Rightarrow> None)"

lemma getPath_update: "getPath (AList.update p v node) (a # path) =
   (if a = p then (case path of [] \<Rightarrow> Some v | _ \<Rightarrow> (case v of YMap c \<Rightarrow> getPath c path | _ \<Rightarrow> None)) else getPath node (a # path))"
  by (cases path) (auto simp: update_conv' split: yval.splits option.splits)

lemma getPath_Nil [simp]: "getPath [] path = None"
  by (cases path rule: list.exhaust; cases "tl path") auto

lemma setPath_node:
  assumes "setPath node (p # q # path) v = Inr node'"
  obtains child child' where "map_of node p = Some (YMap child) \<or> child = [] \<and> (map_of node p = None \<or> map_of node p = Some YNull)"
    "setPath child (q # path) v = Inr child'" "node' = AList.update p (YMap child') node"
  using assms by (auto split: option.splits yval.splits sum.splits simp: map_sum_def)

text \<open>
  An override of a spec sets the field it names and no other. After \<open>--set a.b.c=v\<close> the document has \<open>v\<close> at that path, and at every path that is
  neither below it nor above it what it had before.
\<close>

theorem setPath_exact:
  assumes "setPath node path v = Inr node'" "path \<noteq> []"
  shows "getPath node' path = Some v \<and> (\<forall>other. \<not> prefix path other \<and> \<not> prefix other path \<longrightarrow> getPath node' other = getPath node other)"
  using assms
proof (induction node path v arbitrary: node' rule: setPath.induct)
  case (2 node p val)
  have "getPath (AList.update p val node) other = getPath node other" if "\<not> prefix [p] other" "\<not> prefix other [p]" for other
    using that by (cases other) (auto simp: getPath_update)
  moreover have "getPath (AList.update p val node) [p] = Some val" unfolding getPath_update by simp
  ultimately show ?case using 2 by simp
next
  case (3 node p q path val)
  obtain child child' where c: "map_of node p = Some (YMap child) \<or> child = [] \<and> (map_of node p = None \<or> map_of node p = Some YNull)"
    and s: "setPath child (q # path) val = Inr child'" and n: "node' = AList.update p (YMap child') node" using 3(4) by (rule setPath_node)
  have IH: "getPath child' (q # path) = Some val"
    "\<And>other. \<not> prefix (q # path) other \<Longrightarrow> \<not> prefix other (q # path) \<Longrightarrow> getPath child' other = getPath child other"
    using c s 3(1-3) by auto
  have "getPath node' other = getPath node other" if o: "\<not> prefix (p # q # path) other" "\<not> prefix other (p # q # path)" for other
  proof (cases other)
    case (Cons a rest)
    show ?thesis
    proof (cases "a = p")
      case True
      then obtain b bs where r: "rest = b # bs" using o Cons by (cases rest) auto
      then have "getPath child' rest = getPath child rest" using IH(2) [of rest] o Cons True by auto
      then show ?thesis using Cons True c r n by (auto simp: update_conv')
    qed (simp add: Cons n getPath_update)
  qed (use o in simp)
  then show ?case using IH(1) n by (auto simp: update_conv')
qed simp

theorem setPath_exact_witness:
  "\<exists>d'. setPath [(''spec'', YMap [(''a'', YInt 1)]), (''name'', YStr ''j'')] [''spec'', ''tuning'', ''budget''] (YInt 4) = Inr d' \<and>
     getPath d' [''spec'', ''tuning'', ''budget''] = Some (YInt 4) \<and> getPath d' [''spec'', ''a''] = Some (YInt 1)"
proof -
  let ?d = "[(''spec'', YMap [(''a'', YInt 1)]), (''name'', YStr ''j'')]" let ?p = "[''spec'', ''tuning'', ''budget'']"
  obtain d' where s: "setPath ?d ?p (YInt 4) = Inr d'" by simp
  note x = setPath_exact [OF s list.distinct(2)]
  have "\<not> prefix ?p [''spec'', ''a''] \<and> \<not> prefix [''spec'', ''a''] ?p" by simp
  then have "getPath d' [''spec'', ''a''] = getPath ?d [''spec'', ''a'']" using x by blast
  then show ?thesis using s conjunct1 [OF x] by (intro exI [of _ d']) simp
qed

section \<open>Deviations\<close>

text \<open>
  \<open>parseFlags\<close> parses again after every positional, so that the terminator \<open>--\<close> covers only the next argument: of two names that
  begin with a dash the second is read as a flag, and the program exits.
\<close>

theorem terminator_covers_one_argument:
  "parseFlags sample_cli connFlagSpec [''--'', ''-a''] [] [] = Inr ([], [''-a''])"
  "parseFlags sample_cli connFlagSpec [''--'', ''-a'', ''-b''] [] [] = Inl 2"
  by code_simp+

text \<open>An override of an empty spec file assigns to a nil map: the client panics.\<close>

theorem override_of_empty_spec_panics:
  assumes "ce_yamlIn e spec = Some None" "CHR ''='' \<in> set s"
  shows "applySets e spec (s # ss) = Inl NilMap" "setErrCmd NilMap = Panic"
  using assms by (simp_all add: applySets_def setErrCmd_def)

text \<open>
  \<open>agent inflight\<close> does not escape the agent's id: a question mark in it ends the path, and the request is for another resource, which
  has no handler.
\<close>

theorem inflight_id_not_escaped:
  "splitURL (''/api/v1/agents/'' @ ''a?b'' @ ''/inflight'') = Some ([''api'', ''v1'', ''agents'', ''a''], [(''b/inflight'', [])])"
  "findRoute ''GET'' [''api'', ''v1'', ''agents'', ''a''] = None"
  by code_simp+

end
