(* ===== verification/Certificates.thy ===== *)
theory Certificates
  imports Cli
begin

text \<open>
  The certificate commands of the client (\<open>cli/drsync/ca.go\<close> and \<open>cert.go\<close>): the fleet's trust root, the certificates it
  issues, and the self-signed pair of the HTTP listener.

  Files have a mode and a content; opening, writing and making directories may fail as the environment says. Key
  generation, \<open>crypto/x509\<close>, \<open>encoding/pem\<close>, the reader of addresses and the calendar are fields of the
  environment. A key is a number that also names its public half.
\<close>

section \<open>Paths\<close>

text \<open>\<open>filepath.Clean\<close> and \<open>filepath.Join\<close> of a directory and a non-empty name.\<close>

fun segs :: "string \<Rightarrow> string list" where
  "segs [] = [[]]"
| "segs (x # xs) = (if x = CHR ''/'' then [] # segs xs else (x # hd (segs xs)) # tl (segs xs))"

definition cleanStep :: "bool \<Rightarrow> string list \<Rightarrow> string \<Rightarrow> string list" where
  "cleanStep rooted st s =
     (if s = [] \<or> s = ''.'' then st
      else if s = ''..'' then (if st \<noteq> [] \<and> last st \<noteq> ''..'' then butlast st else if rooted then st else st @ [s])
      else st @ [s])"

definition Clean :: "string \<Rightarrow> string" where
  "Clean p =
     (let rooted = (p \<noteq> [] \<and> hd p = CHR ''/''); st = foldl (cleanStep rooted) [] (segs p)
      in if rooted then ''/'' @ Join ''/'' st else if st = [] then ''.'' else Join ''/'' st)"

definition joinPath :: "string \<Rightarrow> string \<Rightarrow> string" where
  "joinPath dir name = Clean (if dir = [] then name else dir @ ''/'' @ name)"

lemma segs_nonempty [simp]: "segs s \<noteq> []"
  by (cases s) simp_all

lemma segs_plain: "CHR ''/'' \<notin> set t \<Longrightarrow> segs t = [t]"
  by (induction t) auto

lemma last_segs: "CHR ''/'' \<notin> set t \<Longrightarrow> suffix t (last (segs (s @ t)))"
proof (induction s)
  case (Cons x s)
  then show ?case by (cases "segs (s @ t)") (auto simp: suffix_def split: if_splits)
qed (simp add: segs_plain)

lemma suffix_Join: "suffix t s \<Longrightarrow> suffix t (Join sep (ss @ [s]))"
  by (induction sep "ss @ [s]" arbitrary: ss rule: Join.induct) (auto simp: suffix_def Cons_eq_append_conv)

text \<open>A name of the form \<open>base.ext\<close> keeps its extension in the joined path.\<close>

lemma suffix_joinPath:
  assumes "CHR ''/'' \<notin> set t" "length t > 2"
  shows "suffix t (joinPath dir (base @ t))"
proof -
  let ?p = "if dir = [] then base @ t else dir @ ''/'' @ base @ t"
  have p: "?p = (if dir = [] then base else dir @ ''/'' @ base) @ t" by simp
  define l where "l = last (segs ?p)"
  have l: "suffix t l" unfolding l_def p by (rule last_segs [OF assms(1)])
  then have n: "l \<noteq> []" "l \<noteq> ''.''" "l \<noteq> ''..''" using assms(2) by (auto simp: suffix_def dest!: arg_cong [of _ _ length])
  have s: "segs ?p = butlast (segs ?p) @ [l]" by (simp add: l_def)
  define st where "st r = foldl (cleanStep r) [] (butlast (segs ?p))" for r
  have "foldl (cleanStep r) [] (segs ?p) = st r @ [l]" for r
    by (subst s) (simp add: cleanStep_def n st_def)
  then have "\<exists>st pre. joinPath dir (base @ t) = pre @ Join ''/'' (st @ [l])"
    unfolding joinPath_def Clean_def Let_def by (metis append_is_Nil_conv not_Cons_self2 append_Nil)
  then show ?thesis using suffix_Join [OF l] by (metis suffix_append suffix_appendI)
qed

section \<open>Certificates and files\<close>

datatype keyUsage = CertSign | CRLSign | DigitalSignature | KeyEncipherment

datatype extUsage = ServerAuth | ClientAuth

text \<open>\<open>x509.Certificate\<close>: a template has no public key yet.\<close>

record certificate =
  cert_Serial :: int
  cert_CN :: string
  cert_NotBefore :: int
  cert_NotAfter :: int
  cert_KeyUsage :: "keyUsage list"
  cert_ExtKeyUsage :: "extUsage list"
  cert_BasicConstraintsValid :: bool
  cert_IsCA :: bool
  cert_MaxPathLenZero :: bool
  cert_DNSNames :: "string list"
  cert_IPAddresses :: "string list"
  cert_PublicKey :: "nat option"

record pem_file =
  pf_mode :: "16 word"
  pf_data :: bytes

type_synonym pem_files = "string \<Rightarrow> pem_file option"

record ca_env =
  cx_cli :: cli_env
  cx_genKey :: "nat option"
  cx_serial :: "int option"
  cx_now :: int
  cx_addDays :: "int \<Rightarrow> int \<Rightarrow> int"
  cx_create :: "certificate \<Rightarrow> certificate \<Rightarrow> nat \<Rightarrow> nat \<Rightarrow> bytes option"
  cx_marshalKey :: "nat \<Rightarrow> bytes option"
  cx_parseCert :: "bytes \<Rightarrow> certificate option"
  cx_parseKey :: "bytes \<Rightarrow> nat option option"
  cx_pemEncode :: "string \<times> bytes \<Rightarrow> bytes"
  cx_pemDecode :: "bytes \<Rightarrow> (string \<times> bytes) option"
  cx_parseIP :: "string \<Rightarrow> string option"
  cx_umask :: "16 word"
  cx_mkdir :: "string \<Rightarrow> bool"
  cx_openFails :: "string \<Rightarrow> bool"
  cx_readFails :: "string \<Rightarrow> bool"
  cx_room :: "string \<Rightarrow> nat option"

datatype cert_error =
    CertUsage string
  | CertExit nat
  | CertCrypto
  | CertExists string
  | CertFile string
  | CertBadIP string
  | CertBadCA string

definition needs :: "cert_error \<Rightarrow> 'a option \<Rightarrow> (pem_files, cert_error, 'a) eff" where
  "needs x r = (case r of None \<Rightarrow> failE x | Some v \<Rightarrow> returnE v)"

text \<open>
  \<open>O_CREATE\<close> gives a new file the mode less the umask; an existing one keeps its mode. A write that runs out of
  room leaves what fitted.
\<close>

definition writePEM :: "ca_env \<Rightarrow> string \<Rightarrow> (string \<times> bytes) list \<Rightarrow> bool \<Rightarrow> bool \<Rightarrow> (pem_files, cert_error, unit) eff" where
  "writePEM e path blocks keyMode force fs =
     (let mode = (if keyMode then 0x180 else 0x1A4 :: 16 word); data = concat (map (cx_pemEncode e) blocks);
          n = (case cx_room e path of None \<Rightarrow> length data | Some n \<Rightarrow> n);
          put = (\<lambda>m. (if n < length data then Inl (CertFile path) else Inr (), fs(path \<mapsto> \<lparr>pf_mode = m, pf_data = take n data\<rparr>)))
      in if cx_openFails e path then (Inl (CertFile path), fs)
         else case fs path of
                None \<Rightarrow> put (mode AND NOT (cx_umask e))
              | Some f \<Rightarrow> if \<not> force then (Inl (CertExists path), fs) else put (pf_mode f))"

definition marshalKey :: "ca_env \<Rightarrow> nat \<Rightarrow> (string \<times> bytes) option" where
  "marshalKey e key = map_option (\<lambda>der. (''PRIVATE KEY'', der)) (cx_marshalKey e key)"

text \<open>The certificate first, then its key.\<close>

definition writePair :: "ca_env \<Rightarrow> string \<Rightarrow> string \<Rightarrow> bytes \<Rightarrow> string \<times> bytes \<Rightarrow> bool \<Rightarrow> (pem_files, cert_error, unit) eff" where
  "writePair e crtPath keyPath der keyBlock force =
     thenE (writePEM e crtPath [(''CERTIFICATE'', der)] False force) (writePEM e keyPath [keyBlock] True force)"

definition certFlags :: "ca_env \<Rightarrow> (string \<times> flagKind) list \<Rightarrow> string list \<Rightarrow> (flag_vals \<Rightarrow> (pem_files, cert_error, 'a) eff) \<Rightarrow> (pem_files, cert_error, 'a) eff" where
  "certFlags e fl args k = (case flagParse (cx_cli e) fl args [] of Inl n \<Rightarrow> failE (CertExit n) | Inr (vs, _) \<Rightarrow> k vs)"

definition created :: "string \<Rightarrow> string \<Rightarrow> int \<Rightarrow> string \<Rightarrow> string \<Rightarrow> cli_line list" where
  "created what cn days crtPath keyPath =
     [Line (what @ cn @ '' (valid '' @ fmt_d days @ '' days)''), Line (''  cert: '' @ crtPath), Line (''  key:  '' @ keyPath)]"

section \<open>The trust root\<close>

definition initFlags :: "(string \<times> flagKind) list" where
  "initFlags = [(''dir'', StringFlag), (''cn'', StringFlag), (''days'', IntFlag), (''force'', BoolFlag)]"

definition caTemplate :: "ca_env \<Rightarrow> int \<Rightarrow> string \<Rightarrow> int \<Rightarrow> certificate" where
  "caTemplate e serial cn days =
     \<lparr>cert_Serial = serial, cert_CN = cn, cert_NotBefore = cx_now e - 3600, cert_NotAfter = cx_addDays e (cx_now e) days,
      cert_KeyUsage = [CertSign, CRLSign], cert_ExtKeyUsage = [], cert_BasicConstraintsValid = True, cert_IsCA = True,
      cert_MaxPathLenZero = True, cert_DNSNames = [], cert_IPAddresses = [], cert_PublicKey = None\<rparr>"

definition caInit :: "ca_env \<Rightarrow> string list \<Rightarrow> (pem_files, cert_error, cli_line list) eff" where
  "caInit e args = certFlags e initFlags args (\<lambda>vs.
     let dir = stringFlag vs ''dir'' ''.''; cn = stringFlag vs ''cn'' ''drsync-ca''; days = intFlag (cx_cli e) vs ''days'' 3650;
         crtPath = joinPath dir ''ca.crt''; keyPath = joinPath dir ''ca.key''
     in bindE (needs CertCrypto (cx_genKey e)) (\<lambda>key.
        bindE (needs CertCrypto (cx_serial e)) (\<lambda>serial.
        let tmpl = caTemplate e serial cn days
        in bindE (needs CertCrypto (cx_create e tmpl tmpl key key)) (\<lambda>der.
           if \<not> cx_mkdir e dir then failE (CertFile dir)
           else bindE (needs CertCrypto (marshalKey e key)) (\<lambda>keyBlock.
                thenE (writePair e crtPath keyPath der keyBlock (boolFlag vs ''force''))
                  (returnE (created ''CA created: '' cn days crtPath keyPath)))))))"

definition readPEM :: "ca_env \<Rightarrow> string \<Rightarrow> string \<Rightarrow> (pem_files, cert_error, bytes) eff" where
  "readPEM e path what = (\<lambda>fs. needs (CertBadCA what) (if cx_readFails e path then None else map_option pf_data (fs path)) fs)"

definition loadCA :: "ca_env \<Rightarrow> string \<Rightarrow> (pem_files, cert_error, certificate \<times> nat) eff" where
  "loadCA e dir =
     bindE (readPEM e (joinPath dir ''ca.crt'') ''read CA cert'') (\<lambda>crtPEM.
     bindE (readPEM e (joinPath dir ''ca.key'') ''read CA key'') (\<lambda>keyPEM.
     bindE (needs (CertBadCA ''ca.crt is not a PEM certificate'')
       (case cx_pemDecode e crtPEM of Some (t, der) \<Rightarrow> if t = ''CERTIFICATE'' then Some der else None | None \<Rightarrow> None)) (\<lambda>cb.
     bindE (needs CertCrypto (cx_parseCert e cb)) (\<lambda>caCert.
     bindE (needs (CertBadCA ''ca.key is not PEM'') (map_option snd (cx_pemDecode e keyPEM))) (\<lambda>kb.
     bindE (needs CertCrypto (cx_parseKey e kb)) (\<lambda>k.
     bindE (needs (CertBadCA ''ca.key is not an ECDSA key'') k) (\<lambda>key. returnE (caCert, key))))))))"

definition issueFlags :: "(string \<times> flagKind) list" where
  "issueFlags = [(''dir'', StringFlag), (''type'', StringFlag), (''cn'', StringFlag), (''out'', StringFlag), (''days'', IntFlag), (''force'', BoolFlag),
     (''dns'', ListFlag), (''ip'', ListFlag)]"

fun parseIPs :: "ca_env \<Rightarrow> string list \<Rightarrow> cert_error + string list" where
  "parseIPs e [] = Inr []"
| "parseIPs e (s # ss) = (case cx_parseIP e s of None \<Rightarrow> Inl (CertBadIP s) | Some ip \<Rightarrow> map_sum id ((#) ip) (parseIPs e ss))"

definition leafTemplate :: "ca_env \<Rightarrow> string \<Rightarrow> int \<Rightarrow> string \<Rightarrow> int \<Rightarrow> string list \<Rightarrow> string list \<Rightarrow> certificate" where
  "leafTemplate e typ serial cn days dns ips =
     (let san = (typ = ''server'' \<and> dns = [] \<and> ips = [])
      in \<lparr>cert_Serial = serial, cert_CN = cn, cert_NotBefore = cx_now e - 3600, cert_NotAfter = cx_addDays e (cx_now e) days,
      cert_KeyUsage = [DigitalSignature], cert_ExtKeyUsage = (if typ = ''server'' then [ServerAuth] else [ClientAuth]),
      cert_BasicConstraintsValid = False, cert_IsCA = False, cert_MaxPathLenZero = False,
      cert_DNSNames = (if san \<and> cx_parseIP e cn = None then [cn] else dns),
      cert_IPAddresses = (if san then (case cx_parseIP e cn of None \<Rightarrow> ips | Some ip \<Rightarrow> [ip]) else ips), cert_PublicKey = None\<rparr>)"

definition caIssue :: "ca_env \<Rightarrow> string list \<Rightarrow> (pem_files, cert_error, cli_line list) eff" where
  "caIssue e args = certFlags e issueFlags args (\<lambda>vs.
     let dir = stringFlag vs ''dir'' ''.''; typ = stringFlag vs ''type'' []; cn = stringFlag vs ''cn'' []; out = stringFlag vs ''out'' [];
         days = intFlag (cx_cli e) vs ''days'' 825; base = (if out = [] then cn else out);
         crtPath = joinPath dir (base @ ''.crt''); keyPath = joinPath dir (base @ ''.key'')
     in if cn = [] then failE (CertUsage ''--cn is required'')
        else if typ \<notin> {''server'', ''agent''} then failE (CertUsage ''--type must be server or agent'')
        else bindE (loadCA e dir) (\<lambda>(caCert, caKey).
             bindE (needs CertCrypto (cx_genKey e)) (\<lambda>key.
             bindE (needs CertCrypto (cx_serial e)) (\<lambda>serial.
             bindE (ofSum (parseIPs e (listFlag vs ''ip''))) (\<lambda>ips.
             bindE (needs CertCrypto (cx_create e (leafTemplate e typ serial cn days (listFlag vs ''dns'') ips) caCert key caKey)) (\<lambda>der.
             bindE (needs CertCrypto (marshalKey e key)) (\<lambda>keyBlock.
               thenE (writePair e crtPath keyPath der keyBlock (boolFlag vs ''force''))
                 (returnE (created (''issued '' @ typ @ '' cert: CN='') cn days crtPath keyPath)))))))))"

definition cmdCA :: "ca_env \<Rightarrow> string list \<Rightarrow> (pem_files, cert_error, cli_line list) eff" where
  "cmdCA e args =
     (case args of
        [] \<Rightarrow> failE (CertUsage ''ca needs a subcommand: init | issue'')
      | sub # rest \<Rightarrow>
          if sub = ''init'' then caInit e rest else if sub = ''issue'' then caIssue e rest
          else failE (CertUsage (''unknown ca subcommand '' @ Quote sub @ '' (want init|issue)'')))"

section \<open>The listener's own certificate\<close>

definition selfFlags :: "(string \<times> flagKind) list" where
  "selfFlags = [(''cn'', StringFlag), (''out'', StringFlag), (''days'', IntFlag), (''force'', BoolFlag), (''dns'', ListFlag), (''ip'', ListFlag)]"

definition selfTemplate :: "ca_env \<Rightarrow> int \<Rightarrow> string \<Rightarrow> int \<Rightarrow> string list \<Rightarrow> string list \<Rightarrow> certificate" where
  "selfTemplate e serial cn days dns ips =
     \<lparr>cert_Serial = serial, cert_CN = cn, cert_NotBefore = cx_now e - 3600, cert_NotAfter = cx_addDays e (cx_now e) days,
      cert_KeyUsage = [DigitalSignature, KeyEncipherment], cert_ExtKeyUsage = [ServerAuth], cert_BasicConstraintsValid = True, cert_IsCA = False,
      cert_MaxPathLenZero = False, cert_DNSNames = (if dns = [] then [cn] else dns), cert_IPAddresses = ips, cert_PublicKey = None\<rparr>"

definition selfNote :: "string \<Rightarrow> string \<Rightarrow> cli_line list" where
  "selfNote crtPath keyPath =
     [Line [], Line ''Point /etc/drsync/certs.yaml at these paths to enable HTTPS on the coordinator:'', Line (''  cert_file: '' @ crtPath),
      Line (''  key_file: '' @ keyPath), Line [],
      Line (''This is a self-signed cert (fine for dev/test) '' @ [CHR 0xE2, CHR 0x80, CHR 0x94] @ '' browsers and the CLI will warn''),
      Line ''about it unless you trust it explicitly. For production, use a CA-issued cert.'']"

definition certGenerateSelfSigned :: "ca_env \<Rightarrow> string list \<Rightarrow> (pem_files, cert_error, cli_line list) eff" where
  "certGenerateSelfSigned e args = certFlags e selfFlags args (\<lambda>vs.
     let cn = stringFlag vs ''cn'' ''drsync-coordinator''; out = stringFlag vs ''out'' ''.''; days = intFlag (cx_cli e) vs ''days'' 825;
         crtPath = joinPath out ''server.crt''; keyPath = joinPath out ''server.key''
     in bindE (ofSum (parseIPs e (listFlag vs ''ip''))) (\<lambda>ips.
        bindE (needs CertCrypto (cx_genKey e)) (\<lambda>key.
        bindE (needs CertCrypto (cx_serial e)) (\<lambda>serial.
        let tmpl = selfTemplate e serial cn days (listFlag vs ''dns'') ips
        in bindE (needs CertCrypto (cx_create e tmpl tmpl key key)) (\<lambda>der.
           bindE (needs CertCrypto (marshalKey e key)) (\<lambda>keyBlock.
           if \<not> cx_mkdir e out then failE (CertFile out)
           else thenE (writePair e crtPath keyPath der keyBlock (boolFlag vs ''force''))
                  (returnE (created ''self-signed certificate created: '' cn days crtPath keyPath @ selfNote crtPath keyPath))))))))"

definition cmdCert :: "ca_env \<Rightarrow> string list \<Rightarrow> (pem_files, cert_error, cli_line list) eff" where
  "cmdCert e args =
     (case args of
        [] \<Rightarrow> failE (CertUsage ''cert needs a subcommand: generate-self-signed'')
      | sub # rest \<Rightarrow>
          if sub = ''generate-self-signed'' then certGenerateSelfSigned e rest
          else failE (CertUsage (''unknown cert subcommand '' @ Quote sub @ '' (want generate-self-signed)'')))"

section \<open>What the commands do to the files\<close>

text \<open>Whether the flag \<open>--force\<close> is given to a command.\<close>

definition subFlags :: "string \<Rightarrow> (string \<times> flagKind) list" where
  "subFlags sub = (if sub = ''init'' then initFlags else if sub = ''issue'' then issueFlags else selfFlags)"

definition forced :: "ca_env \<Rightarrow> string list \<Rightarrow> bool" where
  "forced e args =
     (case args of
        [] \<Rightarrow> False
      | sub # rest \<Rightarrow> (case flagParse (cx_cli e) (subFlags sub) rest [] of Inl n \<Rightarrow> False | Inr (vs, _) \<Rightarrow> boolFlag vs ''force''))"

definition new_ok :: "string \<Rightarrow> pem_file \<Rightarrow> bool" where
  "new_ok p f \<longleftrightarrow> pf_mode f AND NOT 0x1A4 = 0 \<and> (suffix ''.key'' p \<longrightarrow> pf_mode f AND 0x3F = 0)"

definition guarded :: "bool \<Rightarrow> pem_files \<Rightarrow> pem_files \<Rightarrow> bool" where
  "guarded force fs fs' \<longleftrightarrow> (\<forall>p.
     case fs p of
       Some f \<Rightarrow> (\<exists>f'. fs' p = Some f' \<and> (f' \<noteq> f \<longrightarrow> force \<and> pf_mode f' = pf_mode f))
     | None \<Rightarrow> (\<forall>f'. fs' p = Some f' \<longrightarrow> new_ok p f'))"

lemma guarded_refl: "guarded force fs fs"
  by (simp add: guarded_def split: option.split)

lemma guarded_trans: "guarded force fs fs1 \<Longrightarrow> guarded force fs1 fs2 \<Longrightarrow> guarded force fs fs2"
  unfolding guarded_def
proof (intro allI, goal_cases)
  case (1 p)
  then have "case fs p of Some f \<Rightarrow> (\<exists>f'. fs1 p = Some f' \<and> (f' \<noteq> f \<longrightarrow> force \<and> pf_mode f' = pf_mode f)) | None \<Rightarrow> (\<forall>f'. fs1 p = Some f' \<longrightarrow> new_ok p f')"
    "case fs1 p of Some f \<Rightarrow> (\<exists>f'. fs2 p = Some f' \<and> (f' \<noteq> f \<longrightarrow> force \<and> pf_mode f' = pf_mode f)) | None \<Rightarrow> (\<forall>f'. fs2 p = Some f' \<longrightarrow> new_ok p f')" by blast+
  then show ?case by (cases "fs p"; cases "fs1 p") (force simp: new_ok_def)+
qed

lemma guarded_steps: "(guarded force)\<^sup>*\<^sup>* fs fs' \<Longrightarrow> guarded force fs fs'"
  by (induction rule: rtranclp_induct) (auto intro: guarded_refl guarded_trans)

text \<open>A new file is private if it is a key; nothing is lost, and without \<open>force\<close> nothing is changed.\<close>

lemma mode_less_umask:
  "(0x180 AND NOT u) AND NOT 0x1A4 = (0 :: 16 word)" "(0x1A4 AND NOT u) AND NOT 0x1A4 = (0 :: 16 word)" "(0x180 AND NOT u) AND 0x3F = (0 :: 16 word)"
proof -
  have a: "(x AND y) AND z = (x AND z) AND y" for x y z :: "16 word" by (simp add: ac_simps)
  show "(0x180 AND NOT u) AND NOT 0x1A4 = (0 :: 16 word)" "(0x1A4 AND NOT u) AND NOT 0x1A4 = (0 :: 16 word)" "(0x180 AND NOT u) AND 0x3F = (0 :: 16 word)"
    by (simp_all add: a [of _ "NOT u"])
qed

lemma writePEM_guarded [runs_intros]:
  assumes "keyMode \<or> \<not> suffix ''.key'' path"
  shows "runs id (guarded force) (writePEM e path blocks keyMode force)"
proof (rule runsI)
  fix fs r fs' assume "writePEM e path blocks keyMode force fs = (r, fs')"
  then have "guarded force fs fs'" using assms
    by (auto simp: writePEM_def Let_def guarded_def new_ok_def mode_less_umask [simplified] split: if_splits option.splits)
  then show "(guarded force)\<^sup>*\<^sup>* (id fs) (id fs')" by auto
qed

lemma runs_needs [runs_intros]: "runs view step (needs x r)"
  by (cases r) (simp_all add: needs_def runs_intros)

lemma writePair_guarded:
  "runs id (guarded force) (writePair e (joinPath dir (base @ ''.crt'')) (joinPath dir' (base' @ ''.key'')) der kb force)"
proof -
  have "suffix ''.crt'' (joinPath dir (base @ ''.crt''))" by (rule suffix_joinPath) simp_all
  then have "\<not> suffix ''.key'' (joinPath dir (base @ ''.crt''))" by (auto simp: suffix_def)
  then show ?thesis unfolding writePair_def by (intro runs_intros) simp_all
qed

lemmas writePair_files [runs_intros] =
  writePair_guarded
  writePair_guarded [where base = "''ca''" and base' = "''ca''", simplified]
  writePair_guarded [where base = "''server''" and base' = "''server''", simplified]

lemma readPEM_same [simp]: "snd (readPEM e path what fs) = fs"
  by (simp add: readPEM_def needs_def eff_defs split: option.split)

lemma loadCA_same: "loadCA e dir fs = (r, fs') \<Longrightarrow> fs' = fs"
  using readPEM_same [of e "joinPath dir ''ca.crt''" "''read CA cert''" fs] readPEM_same [of e "joinPath dir ''ca.key''" "''read CA key''" fs]
  by (auto simp: loadCA_def needs_def eff_defs simp del: readPEM_same split: prod.splits sum.splits option.splits if_splits)

lemma runs_loadCA [runs_intros]: "runs view step (loadCA e dir)"
  using loadCA_same [of e dir] by (metis runsI rtranclp.rtrancl_refl)

lemma caInit_guarded: "runs id (guarded (forced e (''init'' # args))) (caInit e args)"
  by (auto simp: caInit_def certFlags_def Let_def forced_def subFlags_def intro!: runs_intros split: sum.split)

lemma caIssue_guarded: "runs id (guarded (forced e (''issue'' # args))) (caIssue e args)"
  by (auto simp: caIssue_def certFlags_def Let_def forced_def subFlags_def intro!: runs_intros split: sum.split)

lemma self_guarded: "runs id (guarded (forced e (''generate-self-signed'' # args))) (certGenerateSelfSigned e args)"
  by (auto simp: certGenerateSelfSigned_def certFlags_def Let_def forced_def subFlags_def intro!: runs_intros split: sum.split)

lemma commands_guarded:
  "runs id (guarded (forced e args)) (cmdCA e args)" "runs id (guarded (forced e args)) (cmdCert e args)"
  using caInit_guarded [of e] caIssue_guarded [of e] self_guarded [of e]
  by (auto simp: cmdCA_def cmdCert_def intro!: runs_intros split: list.split)



section \<open>The trust root can be used\<close>

lemma writePEM_done:
  assumes "writePEM e path blocks keyMode force fs = (Inr (), fs')"
  shows "\<exists>m. fs' = fs(path \<mapsto> \<lparr>pf_mode = m, pf_data = concat (map (cx_pemEncode e) blocks)\<rparr>)"
  using assms by (auto simp: writePEM_def Let_def split: if_splits option.splits)

lemma needs_Inr: "needs x r s = (Inr v, s') \<longleftrightarrow> r = Some v \<and> s' = s"
  by (auto simp: needs_def eff_defs split: option.splits)

lemma returnE_Inr: "returnE a s = (Inr v, s') \<longleftrightarrow> v = a \<and> s' = s"
  by (auto simp: returnE_def)

lemma failE_Inr: "failE x s = (Inr v, s') \<longleftrightarrow> False"
  by (auto simp: failE_def)

lemmas eff_Inr = bindE_Inr thenE_Inr needs_Inr returnE_Inr failE_Inr

lemma ca_paths_differ: "joinPath dir ''ca.crt'' \<noteq> joinPath dir ''ca.key''"
  using suffix_joinPath [of "''.crt''" dir "''ca''"] suffix_joinPath [of "''.key''" dir "''ca''"] by (auto simp: suffix_def)

lemma caInit_done:
  assumes "caInit e args fs = (Inr out, fs')" "flagParse (cx_cli e) initFlags args [] = Inr (vs, rest)"
  obtains key serial der kder m m' where "cx_genKey e = Some key" "cx_serial e = Some serial"
    "let t = caTemplate e serial (stringFlag vs ''cn'' ''drsync-ca'') (intFlag (cx_cli e) vs ''days'' 3650) in cx_create e t t key key = Some der"
    "cx_marshalKey e key = Some kder"
    "fs' (joinPath (stringFlag vs ''dir'' ''.'') ''ca.crt'') = Some \<lparr>pf_mode = m, pf_data = cx_pemEncode e (''CERTIFICATE'', der)\<rparr>"
    "fs' (joinPath (stringFlag vs ''dir'' ''.'') ''ca.key'') = Some \<lparr>pf_mode = m', pf_data = cx_pemEncode e (''PRIVATE KEY'', kder)\<rparr>"
  using assms ca_paths_differ [of "stringFlag vs ''dir'' ''.''"]
  by (auto simp: caInit_def certFlags_def Let_def eff_Inr marshalKey_def writePair_def split: if_splits dest!: writePEM_done)

lemma loadCA_files:
  assumes "fs (joinPath dir ''ca.crt'') = Some \<lparr>pf_mode = m, pf_data = cx_pemEncode e (''CERTIFICATE'', der)\<rparr>"
    and "fs (joinPath dir ''ca.key'') = Some \<lparr>pf_mode = m', pf_data = cx_pemEncode e (t, kder)\<rparr>"
    and "\<forall>b. cx_pemDecode e (cx_pemEncode e b) = Some b" "\<forall>p. \<not> cx_readFails e p"
    and "cx_parseCert e der = Some cert" "cx_parseKey e kder = Some (Some key)"
  shows "loadCA e dir fs = (Inr (cert, key), fs)"
  using assms by (simp add: loadCA_def readPEM_def needs_def eff_defs)

lemma unforced_commands_keep:
  assumes "\<forall>(e, ca, a) \<in> set cmds. \<not> forced e a" "fs p = Some f"
  shows "fold (\<lambda>(e, ca, a) s. snd ((if ca then cmdCA e a else cmdCert e a) s)) cmds fs p = Some f"
  using assms
proof (induction cmds arbitrary: fs)
  case (Cons c cmds)
  obtain e ca a where c: "c = (e, ca, a)" by (cases c)
  let ?fs = "snd ((if ca then cmdCA e a else cmdCert e a) fs)"
  have "guarded False fs ?fs"
    using Cons.prems(1) commands_guarded [of e a] c by (auto simp: runs_def intro!: guarded_steps)
  then have "?fs p = Some f" using Cons.prems(2) unfolding guarded_def by (auto split: option.splits dest!: spec [of _ p])
  then show ?case using Cons.IH [of ?fs] Cons.prems(1) c by simp
qed simp


text \<open>A certificate's role follows from its type: an agent's is no server's, none is a CA, and every server has a name to be verified by.\<close>

theorem leaf_roles:
  "cert_ExtKeyUsage (leafTemplate e ''server'' n cn days dns ips) = [ServerAuth]" "cert_ExtKeyUsage (leafTemplate e ''agent'' n cn days dns ips) = [ClientAuth]"
  "\<not> cert_IsCA (leafTemplate e typ n cn days dns ips)" "CertSign \<notin> set (cert_KeyUsage (leafTemplate e typ n cn days dns ips))"
  "cert_DNSNames (leafTemplate e ''server'' n cn days dns ips) \<noteq> [] \<or> cert_IPAddresses (leafTemplate e ''server'' n cn days dns ips) \<noteq> []"
  by (auto simp: leafTemplate_def Let_def split: option.split)


section \<open>Examples and deviations\<close>

definition sample_root :: certificate where
  "sample_root = \<lparr>cert_Serial = 9, cert_CN = ''drsync-ca'', cert_NotBefore = 6400, cert_NotAfter = 315370000, cert_KeyUsage = [CertSign, CRLSign],
     cert_ExtKeyUsage = [], cert_BasicConstraintsValid = True, cert_IsCA = True, cert_MaxPathLenZero = True, cert_DNSNames = [], cert_IPAddresses = [],
     cert_PublicKey = None\<rparr>"

definition sample_leaf :: certificate where
  "sample_leaf = sample_root\<lparr>cert_CN := ''a1'', cert_NotAfter := 71290000, cert_KeyUsage := [DigitalSignature], cert_ExtKeyUsage := [ClientAuth],
     cert_BasicConstraintsValid := False, cert_IsCA := False, cert_MaxPathLenZero := False\<rparr>"

text \<open>An environment that knows one root and one leaf, written as the bytes 7 and 8; the key \<open>k\<close> is written as \<open>k\<close>.\<close>

definition sample_ca :: "nat \<Rightarrow> ca_env" where
  "sample_ca k = \<lparr>cx_cli = \<lparr>ce_lookupEnv = (\<lambda>_. None), ce_user = None, ce_readFile = (\<lambda>_. None), ce_parseInt = (\<lambda>_. None), ce_parseDuration = (\<lambda>_. None),
       ce_isFloat = (\<lambda>_. False), ce_json = (\<lambda>_. []), ce_yamlIn = (\<lambda>_. None), ce_yamlOut = (\<lambda>_. []), ce_clock = (\<lambda>_. []), ce_terminal = False\<rparr>,
     cx_genKey = Some k, cx_serial = Some 9, cx_now = 10000, cx_addDays = (\<lambda>t d. t + 86400 * d),
     cx_create = (\<lambda>t par k sk. if t = sample_root \<and> k = 5 then Some [7] else if t = sample_leaf \<and> k = 6 then Some [8] else None),
     cx_marshalKey = (\<lambda>k. if k < 256 then Some [of_nat k] else None),
     cx_parseCert = (\<lambda>b. if b = [7] then Some (sample_root\<lparr>cert_PublicKey := Some 5\<rparr>)
       else if b = [8] then Some (sample_leaf\<lparr>cert_PublicKey := Some 6\<rparr>) else None),
     cx_parseKey = (\<lambda>b. case b of [x] \<Rightarrow> Some (Some (unat x)) | _ \<Rightarrow> None),
     cx_pemEncode = (\<lambda>(t, b). replicate (length t) 1 @ 0 # bytes_of t @ b),
     cx_pemDecode = (\<lambda>b. let n = length (takeWhile (\<lambda>x. x = 1) b); r = drop (Suc n) b in Some (string_of (take n r), drop n r)),
     cx_parseIP = (\<lambda>_. None), cx_umask = 0x12, cx_mkdir = (\<lambda>_. True), cx_openFails = (\<lambda>_. False), cx_readFails = (\<lambda>_. False), cx_room = (\<lambda>_. None)\<rparr>"


lemma sample_pem: "cx_pemDecode (sample_ca k) (cx_pemEncode (sample_ca k) b) = Some b"
proof -
  obtain t d where b: "b = (t, d)" by (cases b)
  have n: "takeWhile (\<lambda>x. x = 1) (replicate (length t) 1 @ 0 # bytes_of t @ d) = replicate (length t) (1 :: 8 word)"
    by (simp add: takeWhile_append)
  have l: "length (bytes_of t) = length t" by (simp add: bytes_of_def)
  show ?thesis unfolding b by (simp add: sample_ca_def Let_def n [simplified] l)
qed

lemma sample_x509: "cx_create (sample_ca n) t par k sk = Some der \<longrightarrow> cx_parseCert (sample_ca n) der = Some (t\<lparr>cert_PublicKey := Some k\<rparr>)"
  by (auto simp: sample_ca_def split: if_splits)

lemma sample_key: "cx_marshalKey (sample_ca n) k = Some der \<longrightarrow> cx_parseKey (sample_ca n) der = Some (Some k)"
  by (auto simp: sample_ca_def unat_of_nat split: if_splits)

lemma sample_reads: "\<not> cx_readFails (sample_ca n) p"
  by (simp add: sample_ca_def)


text \<open>
  With \<open>--force\<close> an existing key file keeps its mode: a key written over a world readable file is world readable.
\<close>

theorem forced_key_keeps_mode:
  "let fs = [''ca.key'' \<mapsto> \<lparr>pf_mode = 0x1A4, pf_data = []\<rparr>]; (r, fs') = caInit (sample_ca 5) [''--force''] fs
   in \<not> isl r \<and> map_option pf_mode (fs' ''ca.key'') = Some 0x1A4 \<and> map_option (cx_pemDecode (sample_ca 5) \<circ> pf_data) (fs' ''ca.key'') = Some (Some (''PRIVATE KEY'', [5]))"
  by code_simp

text \<open>
  A refused \<open>ca init\<close> is not without effect: the certificate is written before the existing key is noticed, and what is left is a
  certificate whose key is lost, beside another key.
\<close>

theorem refused_init_leaves_mismatch:
  "let fs = [''ca.key'' \<mapsto> \<lparr>pf_mode = 0x180, pf_data = cx_pemEncode (sample_ca 4) (''PRIVATE KEY'', [4])\<rparr>]; (r, fs') = caInit (sample_ca 5) [] fs
   in r = Inl (CertExists ''ca.key'') \<and> fst (loadCA (sample_ca 5) ''.'' fs') = Inr (sample_root\<lparr>cert_PublicKey := Some 5\<rparr>, 4)"
  by code_simp

text \<open>
  A certificate issued with \<open>--out ca --force\<close> (or for the name \<open>ca\<close>) replaces the trust root by a leaf, and the root's key is lost.
\<close>

theorem issue_replaces_root:
  "let (r, fs) = caInit (sample_ca 5) [] Map.empty; (r', fs') = caIssue (sample_ca 6) [''--type'', ''agent'', ''--cn'', ''a1'', ''--out'', ''ca'', ''--force''] fs
   in \<not> isl r' \<and> fst (loadCA (sample_ca 5) ''.'' fs') = Inr (sample_leaf\<lparr>cert_PublicKey := Some 6\<rparr>, 6)"
  by code_simp

end
