(* ===== verification/Journal_Tool.thy ===== *)
theory Journal_Tool
  imports Api_Query
begin

text \<open>
  The journal dump (\<open>coordinator/cmd/drsync-journal/main.go\<close>): it reads one pass of a journal from disk, prints its records as JSON
  lines, all or those of one type, or the number of records of each type. \<open>encOK\<close> says which lines standard output takes.
\<close>

record dump_flags =
  df_root :: string
  df_job :: int
  df_pass :: int
  df_type :: string
  df_summary :: bool

definition dumpView :: "JournalRecord \<Rightarrow> json" where
  "dumpView r = JObj (
     [(''type'', JStr (typeName (jr_Type r))), (''rel_path'', JStr (jr_RelPath r)), (''ts_ns'', JInt (jr_TsNs r))] @
     (case jr_Src r of
        None \<Rightarrow> []
      | Some s \<Rightarrow> [(''src'', JObj [(''mode'', JStr (zpad 4 (fmt_nat 8 (unat (si_Mode s))))), (''uid'', JInt (uint (si_Uid s))),
          (''gid'', JInt (uint (si_Gid s))), (''size'', JInt (uint (si_Size s))), (''mtime_ns'', JInt (si_MtimeNs s)),
          (''nlink'', JInt (uint (si_Nlink s)))])]) @
     (if jr_Xxh3Lo r \<noteq> 0 \<or> jr_Xxh3Hi r \<noteq> 0
      then [(''xxh3'', JStr (zpad 16 (fmt_nat 16 (unat (jr_Xxh3Hi r))) @ zpad 16 (fmt_nat 16 (unat (jr_Xxh3Lo r)))))] else []) @
     (if jr_Errno r \<noteq> 0 then [(''errno'', JInt (jr_Errno r))] else []) @
     omitempty_str ''detail'' (jr_Detail r))"

text \<open>The callback: the state is the histogram and the lines printed, latest first.\<close>

definition dumpFn :: "(json \<Rightarrow> bool) \<Rightarrow> dump_flags \<Rightarrow> (unit, (string \<times> int) list \<times> json list) callback" where
  "dumpFn encOK fl r st = (case st of (counts, out) \<Rightarrow>
     let t = typeName (jr_Type r); counts' = bump_type t counts
     in if df_summary fl \<or> df_type fl \<noteq> [] \<and> t \<noteq> df_type fl then (None, counts', out)
        else if encOK (dumpView r) then (None, counts', dumpView r # out) else (Some (), counts', out))"

datatype dump_result = DumpUsage | DumpError "unit journal_error" "json list" | DumpLines "json list" | DumpCounts "(string \<times> int) list"

definition journal_main :: "journal_codecs \<Rightarrow> (json \<Rightarrow> bool) \<Rightarrow> dump_flags \<Rightarrow> files \<Rightarrow> dump_result" where
  "journal_main jc encOK fl fs =
     (if df_job fl = 0 \<or> df_pass fl = 0 then DumpUsage
      else case ReadRecords jc (df_root fl) (df_job fl) (df_pass fl) (dumpFn encOK fl) fs ([], []) of
             (Some e, counts, out) \<Rightarrow> DumpError e (rev out)
           | (None, counts, out) \<Rightarrow> if df_summary fl then DumpCounts counts else DumpLines (rev out))"

definition dumped :: "dump_flags \<Rightarrow> JournalRecord \<Rightarrow> bool" where
  "dumped fl r \<longleftrightarrow> \<not> df_summary fl \<and> (df_type fl = [] \<or> typeName (jr_Type r) = df_type fl)"

lemma map_of_bump: "map_of (bump_type t h) k = (if k = t then Some ((case map_of h t of None \<Rightarrow> 0 | Some n \<Rightarrow> n) + 1) else map_of h k)"
  by (simp add: bump_type_def update_conv')

lemma deliver_dump:
  assumes "\<forall>j. encOK j"
  shows "\<exists>counts'. deliver (dumpFn encOK fl) rs (counts, out) = (None, counts', rev (map dumpView (filter (dumped fl) rs)) @ out) \<and>
    (\<forall>t. (case map_of counts' t of None \<Rightarrow> 0 | Some n \<Rightarrow> n) = (case map_of counts t of None \<Rightarrow> 0 | Some n \<Rightarrow> n) + int (count_where (\<lambda>r. typeName (jr_Type r) = t) rs))"
proof (induction rs arbitrary: counts out)
  case (Cons r rs)
  let ?t = "typeName (jr_Type r)"
  have "dumpFn encOK fl r (counts, out) = (None, bump_type ?t counts, if dumped fl r then dumpView r # out else out)"
    using assms by (auto simp: dumpFn_def dumped_def Let_def)
  moreover obtain c where "deliver (dumpFn encOK fl) rs (bump_type ?t counts, if dumped fl r then dumpView r # out else out) =
      (None, c, rev (map dumpView (filter (dumped fl) rs)) @ (if dumped fl r then dumpView r # out else out))"
    "\<forall>t. (case map_of c t of None \<Rightarrow> 0 | Some n \<Rightarrow> n) = (case map_of (bump_type ?t counts) t of None \<Rightarrow> 0 | Some n \<Rightarrow> n) + int (count_where (\<lambda>r. typeName (jr_Type r) = t) rs)"
    using Cons.IH by blast
  ultimately show ?case by (intro exI [of _ c]) (auto simp: map_of_bump count_where_def)
qed (simp add: count_where_def)

text \<open>
  The dump is exact: on a pass whose records are \<open>rs\<close>, it prints the records of the wanted type in journal order, or counts every
  record of the pass by type; the type filter does not apply to the counts.
\<close>

theorem journal_dump_exact:
  assumes "ReadRecords jc (df_root fl) (df_job fl) (df_pass fl) (dumpFn encOK fl) fs ([], []) = deliver (dumpFn encOK fl) rs ([], [])"
    and "\<forall>j. encOK j" "df_job fl \<noteq> 0" "df_pass fl \<noteq> 0"
  shows "if df_summary fl
    then \<exists>counts. journal_main jc encOK fl fs = DumpCounts counts \<and>
      (\<forall>t. (case map_of counts t of None \<Rightarrow> 0 | Some n \<Rightarrow> n) = int (count_where (\<lambda>r. typeName (jr_Type r) = t) rs))
    else journal_main jc encOK fl fs = DumpLines (map dumpView (filter (\<lambda>r. df_type fl = [] \<or> typeName (jr_Type r) = df_type fl) rs))"
proof -
  obtain c where c: "deliver (dumpFn encOK fl) rs ([], []) = (None, c, rev (map dumpView (filter (dumped fl) rs)))"
    "\<forall>t. (case map_of c t of None \<Rightarrow> 0 | Some n \<Rightarrow> n) = int (count_where (\<lambda>r. typeName (jr_Type r) = t) rs)"
    using deliver_dump [OF assms(2), of fl rs "[]" "[]"] by auto
  then show ?thesis using assms(1,3,4) by (auto simp: journal_main_def dumped_def [abs_def])
qed

end
