(* ===== verification/Spec2Isabelle.thy ===== *)
theory Spec2Isabelle
  imports Daemon Byte_Size Admin Cli_Requests Certificates Journal_Tool
begin

text \<open>
  \<^bold>\<open>The drsync coordinator and its operator tools.\<close>

  drsync copies directory trees between network file systems with a fleet of agents. The coordinator
  (\<open>src/coordinator\<close>) owns all state: operators submit jobs, a job runs in passes, a pass is cut into
  shards, shards are leased to agents, and agents report results, splits and journal records.

  \<^bold>\<open>How the parts interact.\<close> The store is the only durable state besides the journal, and every other
  part changes it through its methods, each one SQL transaction. The pass controller creates passes,
  seeds their shards and moves a pass to its next phase when no shard is open. The agent server turns
  the frames of the agents into store calls, asks the scheduler to lease shards for a work request, and
  appends journal batches that the controller later reads to seed the next phase. Operators reach the
  coordinator over HTTP: a request is authenticated by a bearer token or a session cookie that the login
  gives, routed, and its handler reads the store and the journal or calls the store, the controller or
  the agent server. A poller compares the store with what it last saw and publishes the differences to
  the subscribers of the event feed; the controller's reports are rendered and mailed. The daemon wires
  all this together and may crash and restart at any moment, which keeps the store and what the journal
  synced. The command line client turns commands into requests of that API; the database console writes
  a few columns of the store directly; the journal dump reads the journal's files.

  \<^bold>\<open>Theories and sources\<close> (under \<open>src/coordinator/internal\<close>).
  \<^item> \<open>Prelude\<close>: Go types, SQL statements over lists of rows, the locales \<open>prefix_codec\<close> and
    \<open>invariant_system\<close>. \<open>Effects\<close>: computations that change a state and may fail half way, and the
    judgement \<open>runs\<close> that what they change is a sequence of given steps.
  \<^item> \<open>Model\<close>: \<open>model/model.go\<close>, states, kinds and phase order.
  \<^item> \<open>Spec\<close>: \<open>model/spec.go\<close>, defaults, validation and translation of job specs.
    \<open>Byte_Size\<close>: the reader of its sizes.
  \<^item> \<open>Wire\<close>: \<open>wire/frame.go\<close>, frames on the agent connection.
  \<^item> \<open>Store_State\<close>, \<open>Store_Jobs\<close>, \<open>Store_Shards\<close>, \<open>Store_Groups\<close>: \<open>store/store.go\<close>. The tables are
    the fields of the record \<open>db\<close>; triggers are part of the statement that fires them; a method is a
    function from the database to an error or a result and the new database. \<open>Store_Machine\<close> is the
    relation \<open>store_step\<close> of all of them with its invariant \<open>db_inv\<close>.
  \<^item> \<open>Gofmt\<close>: the number formatting that names are built with. \<open>Proto\<close>: the message structs of
    \<open>proto/gen/drsyncpb\<close>.
  \<^item> \<open>Journal\<close>: \<open>journal/journal.go\<close> and \<open>reader.go\<close> over files with a synced length and a crash.
  \<^item> \<open>Scheduler\<close>: \<open>scheduler/scheduler.go\<close>.
  \<^item> \<open>Passctrl\<close> and \<open>Pass_Phases\<close>: \<open>passctrl/passctrl.go\<close>, the methods and what they promise.
  \<^item> \<open>Agentsrv\<close> and \<open>Agent_Sessions\<close>: \<open>agentsrv/server.go\<close>, the handlers and what they promise.
  \<^item> \<open>Coordinator\<close>: server, controller and store as one system that the handlers of the API act on.
  \<^item> \<open>Gotext\<close>, \<open>Gostrings\<close>: the parts of Go's \<open>strings\<close>, \<open>strconv\<close> and \<open>net/url\<close> the sources use.
  \<^item> \<open>Authn\<close>: \<open>authn/\<close>, configuration, local and directory logins, session tokens.
  \<^item> \<open>Api\<close>, \<open>Api_Query\<close>, \<open>Api_Routes\<close>: \<open>api/\<close>, authentication and the handlers that change something, the
    queries, and the routing table with \<open>ServeHTTP\<close>. \<open>Api_Safety\<close>: what they promise.
  \<^item> \<open>Events\<close>: \<open>events/events.go\<close> and the subscriber's loop of \<open>api/eventsws.go\<close>.
  \<^item> \<open>Render\<close>, \<open>Notify\<close>: \<open>notify/render.go\<close> and \<open>notify/notify.go\<close>, the mails and their delivery.
  \<^item> \<open>Daemon\<close>: \<open>certs/certs.go\<close> and \<open>cmd/drsyncd/main.go\<close>, the decisions of the start.
  \<^item> \<open>Admin\<close>: \<open>cmd/drsync-admin\<close>. \<open>Journal_Tool\<close>: \<open>cmd/drsync-journal\<close>. \<open>Cli\<close>, \<open>Cli_Requests\<close>: \<open>src/cli/drsync\<close>,
    commands as trees of prints and requests, and what they ask of the API. \<open>Certificates\<close>: its \<open>ca.go\<close> and
    \<open>cert.go\<close> over files with modes.
  \<^item> This theory: the daemon as one step relation of frames, requests, ticks, sweeps, reaps, polls,
    crashes and restarts.

  \<^bold>\<open>What is shown.\<close>
  \<^item> Store: what a lease grants and that it is never empty while work can be leased; results under
    expired leases are refused; the counts that phases are drained by are exact; a large file is
    finalised once, when its last chunk lands; delete groups close only when they are empty; hardlink
    groups have one anchor; a repeated split is answered from the first; destinations of live jobs are
    disjoint. All of this in every reachable database.
  \<^item> Journal: records written are records read, torn files deliver their complete envelopes, a flushed
    journal survives every crash; the writer refines an append-only log per pass.
  \<^item> Controller: the phase order, the exclusive start of a job, convergence, the seeders' cover of the
    journal, the single automatic retry, the reaper's termination.
  \<^item> Agent server: one session per agent, acknowledgements only for durable batches and increasing,
    exact chunking of large files, no work for drained agents, harmless stale results.
  \<^item> Both only ever run store transactions, so that the invariants hold for their composition.
  \<^item> API: every request, also one refused half way, runs transactions, controller calls and notices only;
    without credentials nothing changes; a delete pass needs its confirmation; the login binds a session
    to an allowed account, bounds the rate of guesses and round-trips its tokens; purges and pages are
    exact; answers are well typed; the start of the daemon fails closed.
  \<^item> Events: a subscriber receives what was published in order within its buffer, and following the
    feed gives the poller's picture of the store.
  \<^item> Mail: text of users is no markup and no header, and passwords and bodies only go where they may.
  \<^item> Daemon: every reachable state of the composition keeps the invariants of all parts.
  \<^item> Tools: every request of the client has a handler, whatever the names are; its delete gate and its dry
    run reach the server as meant; overrides of a spec set one field; the console writes its allowlisted
    columns only, filters are parameterised, bulk edits are exact, and which edits keep the store's
    invariant; the dump prints exactly the records of a pass;
    key files are private and not overwritten, and a created trust root stays usable.

  Lemmas that follow a text block without a claim show a deviation: the code does something its comments
  or its other parts do not expect, on a concrete state.

  \<^bold>\<open>Bounds and fuel.\<close> Machine integers are words where the code's width matters (chunk arithmetic, journal
  sequence numbers, varints, hashes) and integers where the values are row ids, clock readings or counters far from the
  limits. The reap loop runs until a wall-clock deadline and takes the number of rounds the clock
  allows; the drain theorem says how many suffice. No other loop needs fuel.

  \<^bold>\<open>Libraries.\<close> YAML, protobuf and zstd are parameters with the documented law that decoding undoes
  encoding, stated as a hypothesis where it is used; so are \<open>encoding/json\<close> on request bodies, HMAC and
  random secrets, the system's password hashes and accounts, the directory server, the names of errno
  values, the parser of mail addresses, the SMTP server, the loading of key pairs, the generation and
  signing of certificates, the answers of SQLite
  to the console, and the environment and file system of the command line client.

  \<^bold>\<open>Not modelled.\<close> Sockets and TLS handshakes; locks, timers and signal handling, other than the interleavings
  of the step relations; log lines and metrics; the web page of the console; terminal widgets, themes and
  the information screen of the database console; the connection of the client's event stream; schema migration, vacuum and WAL
  checkpoints of the store; the protobuf runtime.
\<close>

section \<open>Properties\<close>

text \<open>
  The coordinator alone: in every state one started on an empty store can reach, through any interleaving of
  agents' frames, operators' calls, ticks, sweeps and reaps, the queue count the controller drains a
  phase by is the number of rows, no agent holds more entry lists than its quota, every shard row is
  well formed and belongs to a pass of a job, every registered agent has one session, its own, and the
  reap queue has no duplicate and no key without a request.
\<close>

theorem coordinator_sound:
  assumes "coord_step\<^sup>*\<^sup>* (fresh_coordinator cfg ttl dir) c"
  defines "d \<equiv> srv_db (co_srv c)"
  shows "ShardStateCounts p d ShardQueued = int (count_where (\<lambda>s. shard_pass s = p \<and> shard_state s = ShardQueued) (t_shards d)) \<and>
    heldEL a d \<le> maxEntrylistPerAgent \<and>
    (\<forall>s \<in> set (t_shards d). row_ok s \<and> (\<exists>ps \<in> set (t_passes d). \<exists>j \<in> set (t_jobs d). pass_id ps = shard_pass s \<and> job_id j = pass_job ps)) \<and>
    distinct (map fst (srv_agents (co_srv c))) \<and>
    (\<forall>(i, sid) \<in> set (srv_agents (co_srv c)). ac_id (sessions (co_srv c) sid) = i) \<and>
    reap_queue_ok (co_ctl c)"
proof -
  have ok: "coord_ok c" by (rule coord.inv_reachable [OF _ assms(1)]) blast
  then have i: "db_inv d" by (simp add: coord_ok_def srv_ok_def d_def)
  show ?thesis using ok db_inv_reads [OF i] by (auto simp: coord_ok_def srv_ok_def agents_ok_def)
qed

text \<open>An agent connects and an operator starts a job; the first pass probes the agent.\<close>

definition sample_coordinator :: coordinator where
  "sample_coordinator = onWorld (\<lambda>w. snd (StartJob (sample_pe dir_record) ''j'' w))
     (let c = fresh_coordinator sample_cfg 60000 ''/j'';
          s = snd (handshake sample_ae 0 (Inr (ft_HELLO, [1])) (co_srv c))
      in c\<lparr>co_srv := s\<lparr>srv_db := (case CreateJob (\<lambda>_. Some (sample_spec '''')) ''j'' [] False ''u'' 1 (srv_db s) of
           Inl _ \<Rightarrow> srv_db s | Inr (j, d) \<Rightarrow> d)\<rparr>\<rparr>)"

lemma sample_coordinator_reachable: "coord_step\<^sup>*\<^sup>* (fresh_coordinator sample_cfg 60000 ''/j'') sample_coordinator"
proof -
  let ?c = "fresh_coordinator sample_cfg 60000 ''/j''"
  let ?s = "snd (handshake sample_ae 0 (Inr (ft_HELLO, [1])) (co_srv ?c))"
  let ?d = "case CreateJob (\<lambda>_. Some (sample_spec '''')) ''j'' [] False ''u'' 1 (srv_db ?s) of Inl _ \<Rightarrow> srv_db ?s | Inr (j, d) \<Rightarrow> d"
  have "ac_id (sessions (co_srv ?c) 0) = ''''" by (simp add: fresh_coordinator_def NewServer_def newConn_def)
  then have 1: "coord_step ?c (?c\<lparr>co_srv := ?s\<rparr>)" by (intro served connect)
  have "srv_step\<^sup>*\<^sup>* ?s (?s\<lparr>srv_db := ?d\<rparr>)"
  proof (cases "CreateJob (\<lambda>_. Some (sample_spec '''')) ''j'' [] False ''u'' 1 (srv_db ?s)")
    case (Inr x)
    obtain j d where x: "x = (j, d)" by force
    have "srv_step ?s (?s\<lparr>srv_db := d\<rparr>)" by (rule srv_step.store) (rule create_job [OF Inr [unfolded x]])
    then show ?thesis using Inr x by simp
  qed simp
  then have "coord_step\<^sup>*\<^sup>* (?c\<lparr>co_srv := ?s\<rparr>) (?c\<lparr>co_srv := ?s\<lparr>srv_db := ?d\<rparr>\<rparr>)"
  proof (induction rule: rtranclp_induct)
    case (step y z)
    have "coord_step (?c\<lparr>co_srv := y\<rparr>) (?c\<lparr>co_srv := y\<rparr>\<lparr>co_srv := z\<rparr>)" by (rule served) (use step in simp)
    then show ?case using step.IH by (simp add: rtranclp.rtrancl_into_rtrancl)
  qed simp
  then have "coord_step\<^sup>*\<^sup>* ?c (?c\<lparr>co_srv := ?s\<lparr>srv_db := ?d\<rparr>\<rparr>)" by (rule converse_rtranclp_into_rtranclp [of coord_step, OF 1])
  then show ?thesis unfolding sample_coordinator_def Let_def by (rule rtranclp.rtrancl_into_rtrancl) (rule started)
qed

theorem coordinator_sound_witness:
  "ShardStateCounts 1 (srv_db (co_srv sample_coordinator)) ShardQueued = 1 \<and>
   map (\<lambda>s. (shard_kind s, target_agent s)) (t_shards (srv_db (co_srv sample_coordinator))) = [(KindProbe, Some ''a'')] \<and>
   distinct (map fst (srv_agents (co_srv sample_coordinator))) \<and> reap_queue_ok (co_ctl sample_coordinator)"
proof -
  have "map (\<lambda>s. (shard_kind s, target_agent s)) (t_shards (srv_db (co_srv sample_coordinator))) = [(KindProbe, Some ''a'')]"
    "count_where (\<lambda>s. shard_pass s = 1 \<and> shard_state s = ShardQueued) (t_shards (srv_db (co_srv sample_coordinator))) = 1" by code_simp+
  then show ?thesis using coordinator_sound [OF sample_coordinator_reachable, of 1 "''a''"] by simp
qed

text \<open>
  (C5) The whole daemon. In every state that a daemon started on an empty store can reach, through any interleaving of agents' frames, HTTP
  requests, controller ticks, sweeps, reaps, polls and subscribers, and through any number of crashes and restarts: the queue count the controller
  drains a phase by is the number of rows, no agent holds more entry lists than its quota, every shard row is well formed and belongs to a pass of
  a job, every registered agent has one session, its own, the reap queue has no duplicate and no key without a request, no subscriber's
  buffer is over its bound, and opening the database again changes nothing.
\<close>

theorem daemon_sound:
  assumes "run e empty_db [] = Inr x0" "daemon_step\<^sup>*\<^sup>* x0 x"
  defines "c \<equiv> a_co (dm_api x)"
  defines "d \<equiv> srv_db (co_srv c)"
  shows "ShardStateCounts p d ShardQueued = int (count_where (\<lambda>s. shard_pass s = p \<and> shard_state s = ShardQueued) (t_shards d)) \<and>
    heldEL a d \<le> maxEntrylistPerAgent \<and>
    (\<forall>s \<in> set (t_shards d). row_ok s \<and> (\<exists>ps \<in> set (t_passes d). \<exists>j \<in> set (t_jobs d). pass_id ps = shard_pass s \<and> job_id j = pass_job ps)) \<and>
    distinct (map fst (srv_agents (co_srv c))) \<and>
    (\<forall>(i, sid) \<in> set (srv_agents (co_srv c)). ac_id (sessions (co_srv c) sid) = i) \<and>
    reap_queue_ok (co_ctl c) \<and> (\<forall>(k, q) \<in> set (subs (dm_bus x)). length q \<le> 256) \<and> rebuild_counts d = d"
proof -
  have ok: "daemon_ok x" by (rule daemon.inv_reachable [OF _ assms(2)]) (use assms(1) in blast)
  then have i: "db_inv d" by (simp add: daemon_ok_def coord_ok_def srv_ok_def c_def d_def)
  have "coord_ok c" "bus_ok (dm_bus x)" using ok by (simp_all add: daemon_ok_def c_def)
  then show ?thesis using db_inv_reads [OF i] rebuild_counts_sound [OF i]
    by (auto simp: coord_ok_def srv_ok_def agents_ok_def bus_ok_def subBuffer_def)
qed

text \<open>An agent connects, the process dies and starts again: the agent's row is still there, its session is not.\<close>

definition sample_connect :: "daemon \<Rightarrow> daemon" where
  "sample_connect x = (let c = a_co (dm_api x)
     in x\<lparr>dm_api := (dm_api x)\<lparr>a_co := c\<lparr>co_srv := snd (handshake sample_ae 0 (Inr (ft_HELLO, [1])) (co_srv c))\<rparr>\<rparr>\<rparr>)"

definition sample_restart :: "daemon \<Rightarrow> run_error + daemon" where
  "sample_restart x = run sample_run_env (srv_db (co_srv (a_co (dm_api x)))) (w_files (crash (\<lambda>_. 0) (srv_jw (co_srv (a_co (dm_api x))))))"

theorem daemon_sound_witness:
  "\<exists>x0 x y. run sample_run_env empty_db [] = Inr x0 \<and> x = sample_connect x0 \<and> sample_restart x = Inr y \<and>
     map fst (srv_agents (co_srv (a_co (dm_api x)))) = [''a''] \<and> srv_agents (co_srv (a_co (dm_api y))) = [] \<and>
     map agent_id (t_agents (srv_db (co_srv (a_co (dm_api y))))) = [''a''] \<and> reap_queue_ok (co_ctl (a_co (dm_api y)))"
proof -
  obtain x0 where x0: "run sample_run_env empty_db [] = Inr x0" and c0: "a_co (dm_api x0) = newCoordinator sample_run_env empty_db []"
    using sample_run_env_starts by blast
  obtain y where y: "sample_restart (sample_connect x0) = Inr y"
    and cy: "a_co (dm_api y) = newCoordinator sample_run_env (srv_db (co_srv (a_co (dm_api (sample_connect x0)))))
      (w_files (crash (\<lambda>_. 0) (srv_jw (co_srv (a_co (dm_api (sample_connect x0)))))))"
    unfolding sample_restart_def using sample_run_env_starts by blast
  let ?new = "NewServer \<lparr>HeartbeatInterval = 5000, cfg_LeaseTTL = 30000, FleetEpoch = 7, MinAgentMinor = 0\<rparr> empty_db (Scheduler.New 30000) (NewWriter ''/d/journals'' [])"
  let ?s = "snd (handshake sample_ae 0 (Inr (ft_HELLO, [1])) ?new)"
  have s0: "co_srv (newCoordinator sample_run_env empty_db []) = ?new"
    by (simp add: newCoordinator_def sample_run_env_def rebuild_counts_def empty_db_def)
  have "map fst (srv_agents ?s) = [''a'']" "map agent_id (t_agents (rebuild_counts (srv_db ?s))) = [''a'']" by code_simp+
  then have f: "map fst (srv_agents (co_srv (a_co (dm_api (sample_connect x0))))) = [''a'']" "srv_agents (co_srv (a_co (dm_api y))) = []"
      "map agent_id (t_agents (srv_db (co_srv (a_co (dm_api y))))) = [''a'']"
    unfolding cy by (simp_all add: sample_connect_def Let_def c0 s0 newCoordinator_def [of _ "srv_db _"] NewServer_def [of _ "rebuild_counts _"])
  have "ac_id (sessions (co_srv (a_co (dm_api x0))) 0) = []"
    by (simp add: c0 newCoordinator_def NewServer_def newConn_def)
  then have "daemon_step x0 (sample_connect x0)" unfolding sample_connect_def Let_def by (intro inner served connect)
  moreover have "daemon_step (sample_connect x0) y" using y unfolding sample_restart_def by (rule restarted)
  ultimately have "daemon_step\<^sup>*\<^sup>* x0 y" by (meson converse_rtranclp_into_rtranclp rtranclp.rtrancl_refl)
  then have "reap_queue_ok (co_ctl (a_co (dm_api y)))" using daemon_sound [OF x0, of y 1 "[]"] by simp
  then show ?thesis using x0 y f by (intro exI [of _ x0] exI [of _ "sample_connect x0"] exI [of _ y]) simp
qed

end
